(* ===== verification/F64.thy ===== *)
theory F64
  imports Complex_Main "HOL-Library.Log_Nat" "HOL-Library.Word"
begin

text \<open>
  Rust's \<open>f64\<close>: the IEEE 754 binary64 format with round-to-nearest, ties-to-even, executable on
  rationals.  A finite float is a sign, a mantissa below \<open>2\<^sup>5\<^sup>3\<close> and an exponent, so both zeros,
  the subnormals and the overflow to infinity are represented as the hardware has them.  NaN
  payloads are not distinguished: nothing in the program reads one.

  The arithmetic of the program (rates, quantiles, ramps, thresholds) is defined with these
  operations, and the lemmas below are what its theorems need: rounding is monotone and exact on
  representable numbers, so an intermediate result stays inside any representable interval that
  contains the exact result.
\<close>

section \<open>Rounding a positive rational to 53 bits\<close>

definition lg2 :: "rat \<Rightarrow> int" where
  "lg2 x = (let (p, q) = quotient_of x; k = bitlen p - bitlen q
            in if 2 powi k \<le> x then k else k - 1)"

definition fexp :: "rat \<Rightarrow> int" where
  "fexp x = max (lg2 x - 52) (- 1074)"

definition rne :: "rat \<Rightarrow> int" where
  "rne x = (let f = \<lfloor>x\<rfloor>; d = x - of_int f
            in if d < 1 / 2 then f else if d > 1 / 2 then f + 1 else if even f then f else f + 1)"

definition rnd :: "rat \<Rightarrow> rat" where
  "rnd x = of_int (rne (x / 2 powi fexp x)) * 2 powi fexp x"

lemma bitlen_rat_bounds:
  assumes "p > 0"
  shows "(2::rat) powi (bitlen p - 1) \<le> of_int p" and "of_int p < (2::rat) powi bitlen p"
proof -
  have b: "bitlen p \<ge> 1"
    using assms bitlen_nonneg[of p] bitlen_eq_zero_iff[of p] by linarith
  have "of_int (2 ^ nat (bitlen p - 1)) \<le> (of_int p :: rat)" "(of_int p :: rat) < of_int (2 ^ nat (bitlen p))"
    using bitlen_bounds[OF assms] by (simp_all only: of_int_le_iff of_int_less_iff)
  then show "(2::rat) powi (bitlen p - 1) \<le> of_int p" "of_int p < (2::rat) powi bitlen p"
    using b by (simp_all add: power_int_def)
qed

lemma quotient_of_bitlen:
  assumes "x > 0" and "quotient_of x = (p, q)"
  shows "2 powi (bitlen p - bitlen q - 1) < x" and "x < 2 powi (bitlen p - bitlen q + 1)"
proof -
  from assms have q: "q > 0" and x: "x = of_int p / of_int q"
    by (auto simp: quotient_of_denom_pos quotient_of_div)
  with assms(1) have p: "p > 0" by (simp add: zero_less_divide_iff)
  have P1: "(2::rat) powi (bitlen p - 1) \<le> of_int p" and P2: "of_int p < (2::rat) powi bitlen p"
    using bitlen_rat_bounds[OF p] .
  have Q1: "(2::rat) powi (bitlen q - 1) \<le> of_int q" and Q2: "of_int q < (2::rat) powi bitlen q"
    using bitlen_rat_bounds[OF q] .
  have qq: "(0::rat) < of_int q" using q by simp
  have "(2::rat) powi (bitlen p - bitlen q - 1) * of_int q < 2 powi (bitlen p - bitlen q - 1) * 2 powi bitlen q"
    using Q2 by simp
  also have "\<dots> = 2 powi (bitlen p - 1)"
    by (simp flip: power_int_add)
  also have "\<dots> \<le> of_int p" by (rule P1)
  finally show "2 powi (bitlen p - bitlen q - 1) < x"
    using qq by (simp add: x pos_less_divide_eq)
  have "of_int p < (2::rat) powi bitlen p" by (rule P2)
  also have "\<dots> = 2 powi (bitlen p - bitlen q + 1) * 2 powi (bitlen q - 1)"
    by (simp flip: power_int_add)
  also have "\<dots> \<le> 2 powi (bitlen p - bitlen q + 1) * of_int q"
    using Q1 by simp
  finally show "x < 2 powi (bitlen p - bitlen q + 1)"
    using qq by (simp add: x pos_divide_less_eq)
qed

lemma lg2_bounds:
  assumes "x > 0"
  shows "2 powi (lg2 x) \<le> x" and "x < 2 powi (lg2 x + 1)"
proof -
  obtain p q where pq: "quotient_of x = (p, q)" by fastforce
  note b = quotient_of_bitlen[OF assms pq]
  show "2 powi (lg2 x) \<le> x" "x < 2 powi (lg2 x + 1)"
    using b by (auto simp: lg2_def pq Let_def)
qed

lemma powi2_mono: "(2::rat) powi a \<le> 2 powi b \<longleftrightarrow> a \<le> b"
  using power_int_increasing[of a b "2::rat"] power_int_strict_increasing[of b a "2::rat"]
  by (cases "a \<le> b") auto

lemma powi2_less: "(2::rat) powi a < 2 powi b \<longleftrightarrow> a < b"
  using powi2_mono[of b a] by auto

lemma lg2_mono: "0 < x \<Longrightarrow> x \<le> y \<Longrightarrow> lg2 x \<le> lg2 y"
proof -
  assume x: "0 < x" and xy: "x \<le> y"
  have "2 powi (lg2 x) \<le> x" by (rule lg2_bounds[OF x])
  also have "\<dots> \<le> y" by (rule xy)
  also have "y < 2 powi (lg2 y + 1)" using x xy by (intro lg2_bounds) simp
  finally show "lg2 x \<le> lg2 y" by (simp add: powi2_less)
qed

lemma lg2_unique: "2 powi k \<le> x \<Longrightarrow> x < 2 powi (k + 1) \<Longrightarrow> lg2 x = k"
proof -
  assume a: "2 powi k \<le> x" and b: "x < 2 powi (k + 1)"
  have x: "0 < x" using a zero_less_power_int[of "2::rat" k] by linarith
  have "(2::rat) powi k < 2 powi (lg2 x + 1)" using a lg2_bounds(2)[OF x] by linarith
  moreover have "(2::rat) powi lg2 x < 2 powi (k + 1)" using b lg2_bounds(1)[OF x] by linarith
  ultimately show ?thesis by (simp add: powi2_less)
qed

lemma fexp_mono: "0 < x \<Longrightarrow> x \<le> y \<Longrightarrow> fexp x \<le> fexp y"
  using lg2_mono[of x y] by (simp add: fexp_def)

lemma fexp_upper:
  assumes "x > 0" shows "x / 2 powi fexp x < 2 ^ 53"
proof -
  have "x < 2 powi (lg2 x + 1)" by (rule lg2_bounds[OF assms])
  also have "\<dots> \<le> 2 powi (fexp x + 53)" by (simp add: powi2_mono fexp_def)
  also have "\<dots> = 2 ^ 53 * 2 powi fexp x" by (simp add: power_int_add)
  finally show ?thesis by (simp add: pos_divide_less_eq)
qed

lemma fexp_lower:
  assumes "x > 0" and "fexp x > - 1074" shows "2 ^ 52 \<le> x / 2 powi fexp x"
proof -
  have e: "fexp x = lg2 x - 52" using assms(2) by (simp add: fexp_def)
  have "2 ^ 52 * (2::rat) powi fexp x = 2 powi lg2 x" by (simp add: e power_int_diff)
  also have "\<dots> \<le> x" by (rule lg2_bounds[OF assms(1)])
  finally show ?thesis by (simp add: pos_le_divide_eq)
qed

lemma fexp_ge: "- 1074 \<le> fexp x"
  by (simp add: fexp_def)

lemma rne_of_int [simp]: "rne (of_int n) = n"
  by (simp add: rne_def)

lemma rne_mono:
  assumes "x \<le> y" shows "rne x \<le> rne y"
proof -
  have f: "\<lfloor>x\<rfloor> \<le> \<lfloor>y\<rfloor>" by (rule floor_mono[OF assms])
  show ?thesis
  proof (cases "\<lfloor>x\<rfloor> = \<lfloor>y\<rfloor>")
    case True
    then show ?thesis using assms by (auto simp: rne_def Let_def)
  next
    case False
    then have "\<lfloor>x\<rfloor> + 1 \<le> \<lfloor>y\<rfloor>" using f by simp
    then show ?thesis by (auto simp: rne_def Let_def)
  qed
qed

lemma rne_nonneg: "0 \<le> x \<Longrightarrow> 0 \<le> rne x"
  using rne_mono[of 0 x] rne_of_int[of 0] by simp

lemma rne_le: "x \<le> of_int n \<Longrightarrow> rne x \<le> n"
  using rne_mono[of x "of_int n"] by simp

lemma rne_ge: "of_int n \<le> x \<Longrightarrow> n \<le> rne x"
  using rne_mono[of "of_int n" x] by simp

lemma rne_upper: "x > 0 \<Longrightarrow> rne (x / 2 powi fexp x) \<le> 2 ^ 53"
  using fexp_upper[of x] by (intro rne_le) simp

lemma rne_lower: "x > 0 \<Longrightarrow> fexp x > - 1074 \<Longrightarrow> 2 ^ 52 \<le> rne (x / 2 powi fexp x)"
  using fexp_lower[of x] by (intro rne_ge) simp

lemma rnd_nonneg: "0 \<le> x \<Longrightarrow> 0 \<le> rnd x"
  by (simp add: rnd_def rne_nonneg)

lemma rnd_mono:
  assumes "0 < x" and "x \<le> y" shows "rnd x \<le> rnd y"
proof (cases "fexp x = fexp y")
  case True
  have "rne (x / 2 powi fexp y) \<le> rne (y / 2 powi fexp y)"
    using assms by (intro rne_mono divide_right_mono) auto
  then show ?thesis by (simp add: rnd_def True)
next
  case False
  with fexp_mono[OF assms] have lt: "fexp x + 1 \<le> fexp y" by simp
  have y: "0 < y" using assms by simp
  have "rnd x \<le> of_int (2 ^ 53) * 2 powi fexp x"
    unfolding rnd_def using rne_upper[OF assms(1)] by (intro mult_right_mono) (auto simp del: of_int_power)
  also have "\<dots> = 2 powi (fexp x + 1 + 52)" by (simp add: power_int_add)
  also have "\<dots> \<le> 2 powi (fexp y + 52)" using lt by (simp add: powi2_mono)
  also have "\<dots> = of_int (2 ^ 52) * 2 powi fexp y" by (simp add: power_int_add)
  also have "\<dots> \<le> rnd y"
    unfolding rnd_def using rne_lower[OF y] lt fexp_ge[of x] by (intro mult_right_mono) (auto simp del: of_int_power)
  finally show ?thesis .
qed

text \<open>The powers of two are computed on integers, with one normalisation at the end.\<close>

definition pow2 :: "int \<Rightarrow> rat" where
  "pow2 e = (if 0 \<le> e then of_int (2 ^ nat e) else Fract 1 (2 ^ nat (- e)))"

lemma pow2_code [code_unfold]: "(2::rat) powi e = pow2 e"
  by (simp add: pow2_def power_int_def Fract_of_int_quotient divide_simps)

text \<open>A dyadic number of at most 53 significant bits is a fixed point of rounding.\<close>

definition repr :: "rat \<Rightarrow> bool" where
  "repr x \<longleftrightarrow> (\<exists>m e. x = of_int m * 2 powi e \<and> \<bar>m\<bar> \<le> 2 ^ 53 \<and> - 1074 \<le> e)"

lemma rnd_exact_dyadic:
  assumes x: "0 < x" and m: "x = of_int m * 2 powi e" "m \<le> 2 ^ 53" "- 1074 \<le> e"
  shows "rnd x = x"
proof -
  have "fexp x \<le> e \<or> x = 2 powi (e + 53)"
  proof (cases "m = 2 ^ 53")
    case True
    then show ?thesis using m by (simp add: power_int_add)
  next
    case False
    have "x < 2 powi (e + 53)"
    proof -
      have "of_int m < (2::rat) ^ 53" using False m(2) by (metis of_int_less_iff of_int_numeral of_int_power order_less_le)
      then have "x < 2 ^ 53 * 2 powi e" unfolding m(1) by (intro mult_strict_right_mono) auto
      then show ?thesis by (simp add: power_int_add mult.commute)
    qed
    then have "2 powi lg2 x < (2::rat) powi (e + 53)" using lg2_bounds(1)[OF x] by linarith
    then have "lg2 x - 52 \<le> e" by (simp add: powi2_less)
    then show ?thesis using m(3) by (simp add: fexp_def)
  qed
  then obtain n :: int where n: "x / 2 powi fexp x = of_int n"
  proof
    assume le: "fexp x \<le> e"
    have "x / 2 powi fexp x = of_int m * 2 powi (e - fexp x)" by (simp add: m(1) power_int_diff)
    also have "\<dots> = of_int (m * 2 ^ nat (e - fexp x))" using le by (simp add: power_int_def)
    finally show thesis by (rule that)
  next
    assume p: "x = 2 powi (e + 53)"
    then have "lg2 x = e + 53" by (intro lg2_unique) (auto simp: powi2_less)
    then have fe: "fexp x = e + 1" using m(3) by (simp add: fexp_def)
    have "x / 2 powi fexp x = 2 powi (e + 53) / 2 powi (e + 1)" unfolding fe by (simp add: p)
    also have "\<dots> = 2 powi (e + 53 - (e + 1))" by (rule power_int_diff [symmetric]) simp
    also have "\<dots> = of_int (2 ^ 52)" by simp
    finally have "x / 2 powi fexp x = of_int (2 ^ 52)" .
    then show thesis by (rule that)
  qed
  show ?thesis unfolding rnd_def n rne_of_int by (simp flip: n)
qed

lemma rnd_exact: "0 < x \<Longrightarrow> repr x \<Longrightarrow> rnd x = x"
  unfolding repr_def using rnd_exact_dyadic by auto

section \<open>The type and its operations\<close>

datatype f64 = F64_NaN | F64_Inf bool | F64_Fin bool int int

text \<open>Sign, mantissa and exponent of a finite float; the canonical form of each value.\<close>

fun f64_wf :: "f64 \<Rightarrow> bool" where
  "f64_wf (F64_Fin s m e) \<longleftrightarrow> - 1074 \<le> e \<and> e \<le> 971 \<and> 0 \<le> m \<and> m < 2 ^ 53 \<and> (2 ^ 52 \<le> m \<or> e = - 1074)"
| "f64_wf _ \<longleftrightarrow> True"

fun is_fin :: "f64 \<Rightarrow> bool" where
  "is_fin (F64_Fin s m e) = True"
| "is_fin _ = False"

fun fval :: "f64 \<Rightarrow> rat" where
  "fval (F64_Fin s m e) = (if m = 0 then 0 else (if s then - 1 else 1) * of_int m * 2 powi e)"
| "fval _ = 0"

fun fsign :: "f64 \<Rightarrow> bool" where
  "fsign (F64_Fin s m e) = s"
| "fsign (F64_Inf s) = s"
| "fsign F64_NaN = False"

definition f64_pack :: "bool \<Rightarrow> int \<Rightarrow> int \<Rightarrow> f64" where
  "f64_pack s m e = (let (m, e) = (if m = 2 ^ 53 then (2 ^ 52, e + 1) else (m, e))
                     in if 971 < e then F64_Inf s else F64_Fin s m e)"

definition fround :: "bool \<Rightarrow> rat \<Rightarrow> f64" where
  "fround z x =
     (if x = 0 then F64_Fin z 0 (- 1074)
      else let a = \<bar>x\<bar>; e = fexp a in f64_pack (x < 0) (rne (a / 2 powi e)) e)"

text \<open>The largest finite float, \<open>f64::MAX\<close>, and the bound of overflow.\<close>

definition f64_max :: f64 where
  "f64_max = F64_Fin False (2 ^ 53 - 1) 971"

definition f64_min :: f64 where
  "f64_min = F64_Fin True (2 ^ 53 - 1) 971"

definition f0 :: f64 where
  "f0 = F64_Fin False 0 (- 1074)"

definition srnd :: "rat \<Rightarrow> rat" where
  "srnd x = (if x = 0 then 0 else if 0 < x then rnd x else - rnd (- x))"

lemma srnd_0 [simp]: "srnd 0 = 0"
  by (simp add: srnd_def)

lemma srnd_uminus [simp]: "srnd (- x) = - srnd x"
  by (simp add: srnd_def)

lemma srnd_nonneg: "0 \<le> x \<Longrightarrow> 0 \<le> srnd x"
  by (simp add: srnd_def rnd_nonneg)

lemma srnd_nonpos: "x \<le> 0 \<Longrightarrow> srnd x \<le> 0"
  using srnd_nonneg[of "- x"] by simp

lemma srnd_mono: "x \<le> y \<Longrightarrow> srnd x \<le> srnd y"
proof -
  assume xy: "x \<le> y"
  consider "0 < x" | "x \<le> 0" "0 \<le> y" | "y < 0" by linarith
  then show ?thesis
  proof cases
    case 1
    then show ?thesis using xy rnd_mono[of x y] by (simp add: srnd_def)
  next
    case 2
    then show ?thesis using srnd_nonneg[of y] srnd_nonpos[of x] by linarith
  next
    case 3
    then show ?thesis using xy rnd_mono[of "- y" "- x"] by (simp add: srnd_def)
  qed
qed

lemma repr_uminus [simp]: "repr (- x) = repr x"
proof -
  have "repr y \<Longrightarrow> repr (- y)" for y
  proof -
    assume "repr y"
    then obtain m e where "y = of_int m * 2 powi e" "\<bar>m\<bar> \<le> 2 ^ 53" "- 1074 \<le> e" by (auto simp: repr_def)
    then show "repr (- y)" unfolding repr_def by (intro exI[of _ "- m"] exI[of _ e]) simp
  qed
  from this[of x] this[of "- x"] show ?thesis by auto
qed

lemma srnd_exact: "repr x \<Longrightarrow> srnd x = x"
  using rnd_exact[of x] rnd_exact[of "- x"] by (auto simp: srnd_def)

lemma srnd_le_repr: "x \<le> y \<Longrightarrow> repr y \<Longrightarrow> srnd x \<le> y"
  using srnd_mono[of x y] srnd_exact[of y] by simp

lemma srnd_ge_repr: "x \<le> y \<Longrightarrow> repr x \<Longrightarrow> x \<le> srnd y"
  using srnd_mono[of x y] srnd_exact[of x] by simp

lemma repr_of_int: "\<bar>n\<bar> \<le> 2 ^ 53 \<Longrightarrow> repr (of_int n)"
  unfolding repr_def by (rule exI[of _ n], rule exI[of _ 0]) simp

lemma repr_of_nat: "n \<le> 2 ^ 53 \<Longrightarrow> repr (of_nat n)"
  using repr_of_int[of "int n"] by simp

lemma repr_fval: "f64_wf f \<Longrightarrow> repr (fval f)"
proof (cases f)
  case (F64_Fin s m e)
  assume wf: "f64_wf f"
  have "fval f = of_int ((if s then - 1 else 1) * m) * 2 powi e" by (simp add: F64_Fin)
  with wf show ?thesis unfolding repr_def F64_Fin by (intro exI[of _ "(if s then - 1 else 1) * m"] exI[of _ e]) auto
qed (auto simp: repr_def intro!: exI[of _ 0])

lemma rnd_pack:
  assumes "0 < x"
  defines "m \<equiv> rne (x / 2 powi fexp x)"
  shows "of_int m * 2 powi fexp x = rnd x" and "0 \<le> m" and "m \<le> 2 ^ 53" and "fexp x > - 1074 \<Longrightarrow> 2 ^ 52 \<le> m"
  using rne_upper[OF assms(1)] rne_lower[OF assms(1)] rne_nonneg[of "x / 2 powi fexp x"] assms(1)
  by (simp_all add: m_def rnd_def)

lemma f64_pack_fin:
  assumes "0 \<le> m" "m \<le> 2 ^ 53" "- 1074 \<le> e" "e > - 1074 \<Longrightarrow> 2 ^ 52 \<le> m" "of_int m * 2 powi e < (2::rat) ^ 1024"
  shows "f64_wf (f64_pack s m e)" "is_fin (f64_pack s m e)"
    "fval (f64_pack s m e) = (if s then - 1 else 1) * (of_int m * 2 powi e)" "fsign (f64_pack s m e) = s"
proof -
  have top: "a \<le> 971" if "2 ^ 52 * 2 powi a < (2::rat) ^ 1024" for a :: int
  proof -
    have "2 powi (a + 52) < (2::rat) powi 1024" using that by (simp add: power_int_add mult.commute)
    then have "a + 52 < 1024" by (simp only: powi2_less)
    then show ?thesis by simp
  qed
  have carry: "2 powi (e + 1) * 2 ^ 52 = (2::rat) powi e * 2 ^ 53" by (simp add: power_int_add)
  have "f64_wf (f64_pack s m e) \<and> is_fin (f64_pack s m e) \<and> fsign (f64_pack s m e) = s \<and>
    fval (f64_pack s m e) = (if s then - 1 else 1) * (of_int m * 2 powi e)"
  proof (cases "m = 2 ^ 53")
    case True
    have "e + 1 \<le> 971" using assms(5) carry by (intro top) (simp add: True mult.commute)
    then show ?thesis using True assms(3) carry by (auto simp: f64_pack_def mult.commute)
  next
    case False
    have "e \<le> 971"
    proof (rule ccontr)
      assume "\<not> e \<le> 971"
      then have "2 ^ 52 \<le> m" using assms(4) by simp
      then have "of_int (2 ^ 52) \<le> (of_int m :: rat)" by (simp only: of_int_le_iff)
      then have "2 ^ 52 * 2 powi e \<le> of_int m * (2::rat) powi e" by (intro mult_right_mono) auto
      with assms(5) have "2 ^ 52 * 2 powi e < (2::rat) ^ 1024" by linarith
      from top[OF this] \<open>\<not> e \<le> 971\<close> show False by simp
    qed
    then show ?thesis using False assms by (cases "e = - 1074") (auto simp: f64_pack_def)
  qed
  then show "f64_wf (f64_pack s m e)" "is_fin (f64_pack s m e)"
    "fval (f64_pack s m e) = (if s then - 1 else 1) * (of_int m * 2 powi e)" "fsign (f64_pack s m e) = s"
    by blast+
qed

text \<open>The overflow bound: an exact result whose rounding stays below \<open>2\<^sup>1\<^sup>0\<^sup>2\<^sup>4\<close> is finite.\<close>

definition in_range :: "rat \<Rightarrow> bool" where
  "in_range x \<longleftrightarrow> \<bar>srnd x\<bar> < 2 ^ 1024"

lemma fround_facts:
  assumes "in_range x"
  shows "f64_wf (fround z x) \<and> is_fin (fround z x) \<and> fval (fround z x) = srnd x \<and>
    (x \<noteq> 0 \<longrightarrow> fsign (fround z x) = (x < 0)) \<and> (x = 0 \<longrightarrow> fsign (fround z x) = z)"
proof (cases "x = 0")
  case True
  then show ?thesis by (simp add: fround_def)
next
  case False
  then have p: "0 < \<bar>x\<bar>" by simp
  have ab: "\<bar>srnd x\<bar> = rnd \<bar>x\<bar>" using False rnd_nonneg[of x] rnd_nonneg[of "- x"] by (auto simp: srnd_def)
  let ?m = "rne (\<bar>x\<bar> / 2 powi fexp \<bar>x\<bar>)"
  have bnd: "of_int ?m * 2 powi fexp \<bar>x\<bar> < (2::rat) ^ 1024"
    using assms by (simp only: rnd_pack(1)[OF p] in_range_def ab)
  note F = f64_pack_fin[OF rnd_pack(2)[OF p] rnd_pack(3)[OF p] fexp_ge rnd_pack(4)[OF p] bnd, of "x < 0"]
  have "fval (f64_pack (x < 0) ?m (fexp \<bar>x\<bar>)) = (if x < 0 then - 1 else 1) * rnd \<bar>x\<bar>"
    by (simp only: F(3) rnd_pack(1)[OF p])
  also have "\<dots> = srnd x" using False by (auto simp: srnd_def)
  finally have "fval (f64_pack (x < 0) ?m (fexp \<bar>x\<bar>)) = srnd x" .
  with F show ?thesis using False by (simp add: fround_def Let_def)
qed

lemma fval_fround [simp]: "in_range x \<Longrightarrow> fval (fround z x) = srnd x"
  and fin_fround [simp]: "in_range x \<Longrightarrow> is_fin (fround z x)"
  and wf_fround [simp]: "in_range x \<Longrightarrow> f64_wf (fround z x)"
  using fround_facts[of x z] by blast+

lemma in_range_small: "\<bar>x\<bar> \<le> 2 ^ 1023 \<Longrightarrow> in_range x"
proof -
  assume a: "\<bar>x\<bar> \<le> 2 ^ 1023"
  have r: "repr (2 ^ 1023)"
    unfolding repr_def by (rule exI[of _ 1], rule exI[of _ 1023]) simp
  have "srnd x \<le> 2 ^ 1023" using a r by (intro srnd_le_repr) auto
  moreover have "- (2 ^ 1023) \<le> srnd x" using a r by (intro srnd_ge_repr) auto
  ultimately have "\<bar>srnd x\<bar> \<le> 2 ^ 1023" by simp
  also have "\<dots> < 2 ^ 1024" by simp
  finally show ?thesis by (simp add: in_range_def)
qed

section \<open>Arithmetic, comparison and casts\<close>

fun fneg :: "f64 \<Rightarrow> f64" where
  "fneg F64_NaN = F64_NaN"
| "fneg (F64_Inf s) = F64_Inf (\<not> s)"
| "fneg (F64_Fin s m e) = F64_Fin (\<not> s) m e"

fun f_abs :: "f64 \<Rightarrow> f64" where
  "f_abs F64_NaN = F64_NaN"
| "f_abs (F64_Inf s) = F64_Inf False"
| "f_abs (F64_Fin s m e) = F64_Fin False m e"

fun fadd :: "f64 \<Rightarrow> f64 \<Rightarrow> f64" where
  "fadd F64_NaN b = F64_NaN"
| "fadd a F64_NaN = F64_NaN"
| "fadd (F64_Inf s) (F64_Inf t) = (if s = t then F64_Inf s else F64_NaN)"
| "fadd (F64_Inf s) b = F64_Inf s"
| "fadd a (F64_Inf t) = F64_Inf t"
| "fadd a b = fround (fsign a \<and> fsign b) (fval a + fval b)"

definition fsub :: "f64 \<Rightarrow> f64 \<Rightarrow> f64" where
  "fsub a b = fadd a (fneg b)"

fun fmul :: "f64 \<Rightarrow> f64 \<Rightarrow> f64" where
  "fmul F64_NaN b = F64_NaN"
| "fmul a F64_NaN = F64_NaN"
| "fmul (F64_Inf s) (F64_Inf t) = F64_Inf (s \<noteq> t)"
| "fmul (F64_Inf s) b = (if fval b = 0 then F64_NaN else F64_Inf (s \<noteq> fsign b))"
| "fmul a (F64_Inf t) = (if fval a = 0 then F64_NaN else F64_Inf (fsign a \<noteq> t))"
| "fmul a b = fround (fsign a \<noteq> fsign b) (fval a * fval b)"

fun fdiv :: "f64 \<Rightarrow> f64 \<Rightarrow> f64" where
  "fdiv F64_NaN b = F64_NaN"
| "fdiv a F64_NaN = F64_NaN"
| "fdiv (F64_Inf s) (F64_Inf t) = F64_NaN"
| "fdiv (F64_Inf s) b = F64_Inf (s \<noteq> fsign b)"
| "fdiv a (F64_Inf t) = F64_Fin (fsign a \<noteq> t) 0 (- 1074)"
| "fdiv a b = (if fval b = 0 then (if fval a = 0 then F64_NaN else F64_Inf (fsign a \<noteq> fsign b))
               else fround (fsign a \<noteq> fsign b) (fval a / fval b))"

fun frank :: "f64 \<Rightarrow> int" where
  "frank (F64_Inf s) = (if s then - 1 else 1)"
| "frank _ = 0"

definition flt :: "f64 \<Rightarrow> f64 \<Rightarrow> bool" where
  "flt a b \<longleftrightarrow> a \<noteq> F64_NaN \<and> b \<noteq> F64_NaN \<and> (frank a < frank b \<or> frank a = frank b \<and> fval a < fval b)"

definition feq :: "f64 \<Rightarrow> f64 \<Rightarrow> bool" where
  "feq a b \<longleftrightarrow> a \<noteq> F64_NaN \<and> b \<noteq> F64_NaN \<and> frank a = frank b \<and> fval a = fval b"

definition fle :: "f64 \<Rightarrow> f64 \<Rightarrow> bool" where
  "fle a b \<longleftrightarrow> flt a b \<or> feq a b"

definition is_finite :: "f64 \<Rightarrow> bool" where
  "is_finite a \<longleftrightarrow> is_fin a"

text \<open>\<open>f64::clamp\<close>, \<open>f64::round\<close> (halves away from zero), the saturating casts \<open>as u32\<close> and
  \<open>as u64\<close>, and the rounding casts from the integers.\<close>

definition fclamp :: "f64 \<Rightarrow> f64 \<Rightarrow> f64 \<Rightarrow> f64" where
  "fclamp x lo hi = (if flt x lo then lo else if flt hi x then hi else x)"

fun f_round :: "f64 \<Rightarrow> f64" where
  "f_round (F64_Fin s m e) =
     (let r = of_int \<lfloor>of_int m * (2::rat) powi e + 1 / 2\<rfloor> in fround s (if s then - r else r))"
| "f_round a = a"

fun f_to_int :: "int \<Rightarrow> f64 \<Rightarrow> int" where
  "f_to_int hi F64_NaN = 0"
| "f_to_int hi (F64_Inf s) = (if s then 0 else hi)"
| "f_to_int hi (F64_Fin s m e) = (if s then 0 else min hi \<lfloor>of_int m * (2::rat) powi e\<rfloor>)"

definition f_to_u32 :: "f64 \<Rightarrow> 32 word" where
  "f_to_u32 x = word_of_int (f_to_int (2 ^ 32 - 1) x)"

definition f_to_u64 :: "f64 \<Rightarrow> 64 word" where
  "f_to_u64 x = word_of_int (f_to_int (2 ^ 64 - 1) x)"

definition f_of_int :: "int \<Rightarrow> f64" where
  "f_of_int n = fround False (of_int n)"

definition f_of_u32 :: "32 word \<Rightarrow> f64" where
  "f_of_u32 w = f_of_int (uint w)"

definition f_of_u64 :: "64 word \<Rightarrow> f64" where
  "f_of_u64 w = f_of_int (uint w)"

text \<open>A literal of the source, given as the exact decimal it denotes.\<close>

definition flit :: "rat \<Rightarrow> f64" where
  "flit x = fround False x"

text \<open>\<open>f64::to_bits\<close> and \<open>f64::from_bits\<close>; the bit pattern chosen for NaN is Rust's \<open>f64::NAN\<close>.\<close>

fun f_to_bits :: "f64 \<Rightarrow> 64 word" where
  "f_to_bits F64_NaN = 0x7FF8000000000000"
| "f_to_bits (F64_Inf s) = (if s then 0xFFF0000000000000 else 0x7FF0000000000000)"
| "f_to_bits (F64_Fin s m e) =
     word_of_int ((if s then 2 ^ 63 else 0) + (if m < 2 ^ 52 then m else (e + 1075) * 2 ^ 52 + (m - 2 ^ 52)))"

definition f_from_bits :: "64 word \<Rightarrow> f64" where
  "f_from_bits w =
     (let n = uint w; s = (2 ^ 63 \<le> n); x = n div 2 ^ 52 mod 2 ^ 11; f = n mod 2 ^ 52
      in if x = 2047 then (if f = 0 then F64_Inf s else F64_NaN)
         else if x = 0 then F64_Fin s f (- 1074)
         else F64_Fin s (2 ^ 52 + f) (x - 1075))"

section \<open>Finite arithmetic\<close>

named_theorems f64_fin \<open>operations on finite floats as rounded rational arithmetic\<close>

lemma is_fin_E: "is_fin a \<Longrightarrow> (\<And>s m e. a = F64_Fin s m e \<Longrightarrow> P) \<Longrightarrow> P"
  by (cases a) auto

lemma fneg_fin [simp]: "is_fin (fneg a) = is_fin a" "fval (fneg a) = - fval a" "f64_wf (fneg a) = f64_wf a"
  by (cases a; simp)+

lemma fadd_fin [f64_fin]: "is_fin a \<Longrightarrow> is_fin b \<Longrightarrow> fadd a b = fround (fsign a \<and> fsign b) (fval a + fval b)"
  by (elim is_fin_E) simp

lemma fsub_fin [f64_fin]: "is_fin a \<Longrightarrow> is_fin b \<Longrightarrow> fsub a b = fround (fsign a \<and> fsign (fneg b)) (fval a - fval b)"
  by (simp add: fsub_def fadd_fin)

lemma fmul_fin [f64_fin]: "is_fin a \<Longrightarrow> is_fin b \<Longrightarrow> fmul a b = fround (fsign a \<noteq> fsign b) (fval a * fval b)"
  by (elim is_fin_E) simp

lemma fdiv_fin [f64_fin]:
  "is_fin a \<Longrightarrow> is_fin b \<Longrightarrow> fval b \<noteq> 0 \<Longrightarrow> fdiv a b = fround (fsign a \<noteq> fsign b) (fval a / fval b)"
  by (elim is_fin_E) simp

lemma flt_fin [f64_fin]: "is_fin a \<Longrightarrow> is_fin b \<Longrightarrow> flt a b \<longleftrightarrow> fval a < fval b"
  by (elim is_fin_E) (simp add: flt_def)

lemma feq_fin [f64_fin]: "is_fin a \<Longrightarrow> is_fin b \<Longrightarrow> feq a b \<longleftrightarrow> fval a = fval b"
  by (elim is_fin_E) (simp add: feq_def)

lemma fle_fin [f64_fin]: "is_fin a \<Longrightarrow> is_fin b \<Longrightarrow> fle a b \<longleftrightarrow> fval a \<le> fval b"
  by (auto simp: fle_def flt_fin feq_fin)

lemma f0_fin [simp]: "is_fin f0" "fval f0 = 0" "f64_wf f0"
  by (simp_all add: f0_def)

lemma f_of_int_exact:
  assumes "\<bar>n\<bar> \<le> 2 ^ 53"
  shows "is_fin (f_of_int n)" "fval (f_of_int n) = of_int n" "f64_wf (f_of_int n)"
proof -
  have "\<bar>of_int n\<bar> \<le> (of_int (2 ^ 53) :: rat)" using assms by (simp only: of_int_abs [symmetric] of_int_le_iff)
  also have "\<dots> \<le> 2 ^ 1023" by simp
  finally have r: "in_range (of_int n)" by (intro in_range_small)
  then show "is_fin (f_of_int n)" "f64_wf (f_of_int n)" by (simp_all add: f_of_int_def)
  show "fval (f_of_int n) = of_int n"
    using r srnd_exact[OF repr_of_int[OF assms]] by (simp add: f_of_int_def)
qed

lemma in_range_between:
  assumes "a \<le> x" "x \<le> b" "in_range a" "in_range b" shows "in_range x"
  using srnd_mono[OF assms(1)] srnd_mono[OF assms(2)] assms(3,4) by (simp add: in_range_def abs_less_iff)

lemma in_range_fval: "f64_wf f \<Longrightarrow> in_range (fval f)"
proof (cases f)
  case (F64_Fin s m e)
  assume wf: "f64_wf f"
  then have m: "0 \<le> m" "m < 2 ^ 53" and e: "e \<le> 971" by (auto simp: F64_Fin)
  have "\<bar>fval f\<bar> = of_int m * 2 powi e" using m by (simp add: F64_Fin abs_mult)
  also have "\<dots> < of_int (2 ^ 53) * 2 powi e" using m by (intro mult_strict_right_mono) (simp_all only: of_int_less_iff zero_less_power_int zero_less_numeral)
  also have "\<dots> \<le> of_int (2 ^ 53) * 2 powi 971" using e by (intro mult_left_mono power_int_increasing) auto
  also have "\<dots> = 2 ^ 1024" by simp
  finally show ?thesis using srnd_exact[OF repr_fval[OF wf]] by (simp add: in_range_def)
qed (auto simp: in_range_def)

lemma f_to_int_fin:
  assumes "is_fin a" "f64_wf a" "0 \<le> hi"
  shows "f_to_int hi a = max 0 (min hi \<lfloor>fval a\<rfloor>)"
proof -
  obtain s m e where a: "a = F64_Fin s m e" using assms(1) by (rule is_fin_E)
  have p: "0 \<le> of_int m * (2::rat) powi e" using assms(2) by (simp add: a)
  show ?thesis
  proof (cases s)
    case True
    then have "fval a \<le> 0" using p by (auto simp: a)
    then have "\<lfloor>fval a\<rfloor> \<le> 0" by (simp add: floor_le_iff)
    then have "max 0 (min hi \<lfloor>fval a\<rfloor>) = 0" by linarith
    then show ?thesis using True by (simp add: a)
  next
    case False
    then have "fval a = of_int m * 2 powi e" by (simp add: a)
    then show ?thesis using p assms(3) False by (simp add: a max_def min_def)
  qed
qed

lemma f_round_nonneg:
  assumes "is_fin a" "f64_wf a" "0 \<le> fval a" "fval a \<le> 2 ^ 52"
  shows "is_fin (f_round a)" "f64_wf (f_round a)" "fval (f_round a) = of_int \<lfloor>fval a + 1 / 2\<rfloor>"
proof -
  obtain s m e where a: "a = F64_Fin s m e" using assms(1) by (rule is_fin_E)
  have p: "0 \<le> of_int m * (2::rat) powi e" using assms(2) by (simp add: a)
  have v: "of_int m * (2::rat) powi e = fval a"
    using assms(3) p zero_less_power_int[of "2::rat" e] by (auto simp: a split: if_splits)
  define r where "r = \<lfloor>fval a + 1 / 2\<rfloor>"
  have r: "0 \<le> r" "r \<le> 2 ^ 53"
  proof -
    show "0 \<le> r" using assms(3) by (simp add: r_def)
    have "r \<le> \<lfloor>(2::rat) ^ 52 + 1 / 2\<rfloor>" unfolding r_def using assms(4) by (intro floor_mono) simp
    also have "\<dots> \<le> 2 ^ 53" by (simp add: floor_le_iff)
    finally show "r \<le> 2 ^ 53" .
  qed
  have sr: "s \<Longrightarrow> r = 0"
  proof -
    assume s
    then have "fval a \<le> 0" using p by (simp add: a)
    then have "fval a = 0" using assms(3) by simp
    then show "r = 0" by (simp add: r_def floor_eq_iff)
  qed
  have "f_round a = fround s (if s then - of_int r else of_int r)" by (simp only: a f_round.simps Let_def v [unfolded a] r_def)
  with sr have "f_round a = fround s (of_int r)" by (cases s) simp_all
  moreover have ir: "in_range (of_int r)"
  proof (rule in_range_small)
    have "\<bar>of_int r\<bar> \<le> (of_int (2 ^ 53) :: rat)" using r by (simp only: of_int_abs [symmetric] of_int_le_iff)
    also have "\<dots> \<le> 2 ^ 1023" by simp
    finally show "\<bar>of_int r\<bar> \<le> (2::rat) ^ 1023" .
  qed
  moreover have "srnd (of_int r) = of_int r" using r by (intro srnd_exact repr_of_int) simp
  ultimately show "is_fin (f_round a)" "f64_wf (f_round a)" "fval (f_round a) = of_int \<lfloor>fval a + 1 / 2\<rfloor>"
    by (simp_all add: r_def)
qed

text \<open>The bit patterns of the non-negative finite floats are ordered as their values.\<close>

definition fmag :: "int \<Rightarrow> int \<Rightarrow> int" where
  "fmag m e = (if m < 2 ^ 52 then m else (e + 1075) * 2 ^ 52 + (m - 2 ^ 52))"

lemma fexp_gap:
  assumes a: "f64_wf (F64_Fin s m e)" and b: "f64_wf (F64_Fin t n d)" and lt: "e < d"
  shows "of_int m * (2::rat) powi e < of_int n * 2 powi d"
proof -
  have m: "m < 2 ^ 53" and n: "2 ^ 52 \<le> n" using assms by auto
  have "of_int m * (2::rat) powi e < of_int (2 ^ 53) * 2 powi e"
    using m by (intro mult_strict_right_mono) (simp_all only: of_int_less_iff zero_less_power_int zero_less_numeral)
  also have "\<dots> = of_int (2 ^ 52) * 2 powi (e + 1)" by (simp add: power_int_add)
  also have "\<dots> \<le> of_int (2 ^ 52) * 2 powi d" using lt by (intro mult_left_mono power_int_increasing) auto
  also have "\<dots> \<le> of_int n * 2 powi d"
    using n by (intro mult_right_mono) (simp_all only: of_int_le_iff zero_le_power_int zero_le_numeral)
  finally show ?thesis .
qed

lemma fmag_less:
  assumes a: "f64_wf (F64_Fin s m e)" and b: "f64_wf (F64_Fin t n d)"
    and lt: "of_int m * (2::rat) powi e < of_int n * 2 powi d"
  shows "fmag m e < fmag n d"
proof -
  have de: "e \<le> d" using fexp_gap[OF b a] lt by force
  show ?thesis
  proof (cases "e = d")
    case True
    with lt have "m < n" by simp
    then show ?thesis using True a b by (auto simp: fmag_def)
  next
    case False
    with de a b have "2 ^ 52 \<le> n" "e + 1 \<le> d" "m < 2 ^ 53" by auto
    then have "(e + 1075) * 2 ^ 52 + (m - 2 ^ 52) < (d + 1075) * 2 ^ 52" by simp
    then show ?thesis using a b False de by (auto simp: fmag_def)
  qed
qed

lemma fmag_range: "f64_wf (F64_Fin s m e) \<Longrightarrow> 0 \<le> fmag m e \<and> fmag m e < 2 ^ 63"
  by (auto simp: fmag_def)

lemma f_to_bits_uint:
  assumes "f64_wf (F64_Fin s m e)"
  shows "uint (f_to_bits (F64_Fin s m e)) = (if s then 2 ^ 63 else 0) + fmag m e"
proof -
  have "uint (f_to_bits (F64_Fin s m e)) = ((if s then 2 ^ 63 else 0) + fmag m e) mod 2 ^ 64"
    unfolding f_to_bits.simps fmag_def uint_word_of_int by simp
  also have "\<dots> = (if s then 2 ^ 63 else 0) + fmag m e"
    using fmag_range[OF assms] by (intro mod_pos_pos_trivial) auto
  finally show ?thesis .
qed

lemma f_to_bits_mono:
  assumes "f64_wf a" "f64_wf b" "is_fin a" "is_fin b" "\<not> fsign a" "\<not> fsign b"
  shows "f_to_bits a \<le> f_to_bits b \<longleftrightarrow> fval a \<le> fval b"
proof -
  obtain s m e where a: "a = F64_Fin s m e" using assms(3) by (rule is_fin_E)
  obtain t n d where b: "b = F64_Fin t n d" using assms(4) by (rule is_fin_E)
  have st: "\<not> s" "\<not> t" using assms(5,6) by (simp_all add: a b)
  have ab: "fval a = of_int m * 2 powi e" "fval b = of_int n * 2 powi d" using st by (auto simp: a b)
  note less = fmag_less[OF assms(1,2)[unfolded a b]] fmag_less[OF assms(2,1)[unfolded a b]]
  have "fval a = fval b \<Longrightarrow> fmag m e = fmag n d"
  proof -
    assume eq: "fval a = fval b"
    then have "e = d"
      using fexp_gap[OF assms(1,2)[unfolded a b]] fexp_gap[OF assms(2,1)[unfolded a b]] ab
      by (metis less_irrefl linorder_neqE)
    then show ?thesis using eq ab by simp
  qed
  then have "fmag m e \<le> fmag n d \<longleftrightarrow> fval a \<le> fval b"
    using less ab by (cases "fval a" "fval b" rule: linorder_cases) auto
  then show ?thesis
    using f_to_bits_uint[OF assms(1)[unfolded a]] f_to_bits_uint[OF assms(2)[unfolded b]] st
    by (simp add: a b word_le_def)
qed

text \<open>Bit patterns invert, and those of the negative floats are ordered against their values.\<close>

lemma bits_fields:
  fixes s :: bool
  assumes "0 \<le> x" "x < 2048" "0 \<le> f" "f < 2 ^ 52"
  defines "n \<equiv> (if s then 2 ^ 63 else 0) + (x * 2 ^ 52 + f :: int)"
  shows "(2 ^ 63 \<le> n) = s" "n div 2 ^ 52 mod 2 ^ 11 = x" "n mod 2 ^ 52 = f"
proof -
  have n: "n = f + ((if s then 2048 else 0) + x) * 2 ^ 52" by (simp add: n_def)
  have "n div 2 ^ 52 = (if s then 2048 else 0) + x"
    unfolding n using assms by (subst div_mult_self1) auto
  then show "n div 2 ^ 52 mod 2 ^ 11 = x" using assms by (cases s) auto
  show "n mod 2 ^ 52 = f" unfolding n using assms by (subst mod_mult_self1) auto
  have "x * 2 ^ 52 + f < 2 ^ 63" using assms by auto
  then show "(2 ^ 63 \<le> n) = s" using assms by (auto simp: n_def)
qed

lemma f_from_to_bits: "f64_wf a \<Longrightarrow> f_from_bits (f_to_bits a) = a"
proof (cases a)
  case F64_NaN
  then show ?thesis by (simp add: f_from_bits_def)
next
  case (F64_Inf s)
  then show ?thesis by (simp add: f_from_bits_def)
next
  case (F64_Fin s m e)
  assume wf: "f64_wf a"
  define x where "x = (if m < 2 ^ 52 then 0 else e + 1075)"
  define f where "f = (if m < 2 ^ 52 then m else m - 2 ^ 52)"
  have r: "0 \<le> x" "x < 2047" "0 \<le> f" "f < 2 ^ 52" using wf F64_Fin by (auto simp: x_def f_def)
  have u: "uint (f_to_bits a) = (if s then 2 ^ 63 else 0) + (x * 2 ^ 52 + f)"
    unfolding F64_Fin f_to_bits_uint[OF wf[unfolded F64_Fin]] by (simp add: fmag_def x_def f_def)
  have fields: "(2 ^ 63 \<le> uint (f_to_bits a)) = s" "uint (f_to_bits a) div 2 ^ 52 mod 2 ^ 11 = x" "uint (f_to_bits a) mod 2 ^ 52 = f"
    unfolding u by (rule bits_fields[OF r(1) _ r(3,4)], use r(2) in simp)+
  have "f_from_bits (f_to_bits a) = (if x = 2047 then (if f = 0 then F64_Inf s else F64_NaN)
         else if x = 0 then F64_Fin s f (- 1074) else F64_Fin s (2 ^ 52 + f) (x - 1075))"
    unfolding f_from_bits_def Let_def fields by (rule refl)
  then show ?thesis using wf F64_Fin r by (auto simp: x_def f_def)
qed

lemma f_to_bits_antimono:
  assumes "f64_wf a" "f64_wf b" "is_fin a" "is_fin b" "fsign a" "fsign b"
  shows "f_to_bits a \<le> f_to_bits b \<longleftrightarrow> fval b \<le> fval a"
proof -
  have s: "\<not> fsign (fneg a)" "\<not> fsign (fneg b)" using assms by (auto elim!: is_fin_E)
  have u: "uint (f_to_bits c) = 2 ^ 63 + uint (f_to_bits (fneg c))" if w: "f64_wf c" and f: "is_fin c" and n: "fsign c" for c
  proof -
    obtain t m e where c: "c = F64_Fin t m e" using f by (rule is_fin_E)
    then show ?thesis using w n f_to_bits_uint[of t m e] f_to_bits_uint[of False m e]
      by (simp del: f_to_bits.simps)
  qed
  have "f_to_bits a \<le> f_to_bits b \<longleftrightarrow> f_to_bits (fneg a) \<le> f_to_bits (fneg b)"
    unfolding word_le_def u[OF assms(1,3,5)] u[OF assms(2,4,6)] by simp
  then show ?thesis using f_to_bits_mono[of "fneg a" "fneg b"] assms s by simp
qed

end
