(* ===== verification/K6_Prelude.thy ===== *)
theory K6_Prelude
  imports F64 "HOL-Library.Char_ord" "HOL-Library.List_Lexorder" "HOL-Library.AList"
begin

text \<open>
  What the components share: the machine integers, Rust's \<open>&str\<close> as a list of UTF-8 bytes with the
  string methods the program calls, \<open>BTreeMap\<close> and \<open>HashMap\<close> as association lists, and
  \<open>std::time::Duration\<close>.  Errors are values of a sum type, \<open>Inl\<close> for \<open>Err\<close>.
\<close>

type_synonym u64 = "64 word"
type_synonym u32 = "32 word"

named_theorems k6_simps \<open>unfolding rules of the model's small operations\<close>
named_theorems str_simps \<open>string operations on canonical text\<close>
named_theorems btm_simps \<open>lookup and well-formedness of ordered maps\<close>

section \<open>Strings\<close>

text \<open>A byte below 128; every separator of the program's grammars is one.\<close>

definition is_ascii :: "char \<Rightarrow> bool" where
  "is_ascii c \<longleftrightarrow> \<not> digit7 c"

definition ascii_ws :: "char \<Rightarrow> bool" where
  "ascii_ws c \<longleftrightarrow> c \<in> set [CHR 0x09, CHR 0x0A, CHR 0x0B, CHR 0x0C, CHR 0x0D, CHR 0x20]"

text \<open>The UTF-8 encodings of the other code points with the Unicode property \<open>White_Space\<close>:
  U+0085, U+00A0 in two bytes, U+1680, U+2000..U+200A, U+2028, U+2029, U+202F, U+205F, U+3000 in
  three.\<close>

definition ws2 :: "char \<Rightarrow> char \<Rightarrow> bool" where
  "ws2 c d \<longleftrightarrow> c = CHR 0xC2 \<and> d \<in> set [CHR 0x85, CHR 0xA0]"

definition ws3 :: "char \<Rightarrow> char \<Rightarrow> char \<Rightarrow> bool" where
  "ws3 c d e \<longleftrightarrow>
     c = CHR 0xE1 \<and> d = CHR 0x9A \<and> e = CHR 0x80 \<or>
     c = CHR 0xE2 \<and> d = CHR 0x80 \<and>
       e \<in> set [CHR 0x80, CHR 0x81, CHR 0x82, CHR 0x83, CHR 0x84, CHR 0x85, CHR 0x86, CHR 0x87,
                CHR 0x88, CHR 0x89, CHR 0x8A, CHR 0xA8, CHR 0xA9, CHR 0xAF] \<or>
     c = CHR 0xE2 \<and> d = CHR 0x81 \<and> e = CHR 0x9F \<or>
     c = CHR 0xE3 \<and> d = CHR 0x80 \<and> e = CHR 0x80"

fun strip :: "(char \<Rightarrow> char \<Rightarrow> bool) \<Rightarrow> (char \<Rightarrow> char \<Rightarrow> char \<Rightarrow> bool) \<Rightarrow> string \<Rightarrow> string" where
  "strip p q [] = []"
| "strip p q [c] = (if ascii_ws c then [] else [c])"
| "strip p q [c, d] = (if ascii_ws c then strip p q [d] else if p c d then [] else [c, d])"
| "strip p q (c # d # e # s) =
     (if ascii_ws c then strip p q (d # e # s)
      else if p c d then strip p q (e # s)
      else if q c d e then strip p q s
      else c # d # e # s)"

definition trim_start :: "string \<Rightarrow> string" where
  "trim_start s = strip ws2 ws3 s"

definition trim_end :: "string \<Rightarrow> string" where
  "trim_end s = rev (strip (\<lambda>c d. ws2 d c) (\<lambda>c d e. ws3 e d c) (rev s))"

definition trim :: "string \<Rightarrow> string" where
  "trim s = trim_end (trim_start s)"

lemma ascii_ws_ascii: "ascii_ws c \<Longrightarrow> is_ascii c"
  by (auto simp: ascii_ws_def is_ascii_def)

lemma ws2_not_ascii: "ws2 c d \<Longrightarrow> \<not> is_ascii c \<and> \<not> is_ascii d"
  by (auto simp: ws2_def is_ascii_def)

lemma ws3_not_ascii: "ws3 c d e \<Longrightarrow> \<not> is_ascii c \<and> \<not> is_ascii d \<and> \<not> is_ascii e"
  by (auto simp: ws3_def is_ascii_def)

text \<open>One whitespace character at the front, the test \<open>strip\<close> makes at each step.\<close>

fun ws_front :: "(char \<Rightarrow> char \<Rightarrow> bool) \<Rightarrow> (char \<Rightarrow> char \<Rightarrow> char \<Rightarrow> bool) \<Rightarrow> string \<Rightarrow> bool" where
  "ws_front p q [] = False"
| "ws_front p q [c] = ascii_ws c"
| "ws_front p q [c, d] = (ascii_ws c \<or> p c d)"
| "ws_front p q (c # d # e # s) = (ascii_ws c \<or> p c d \<or> q c d e)"

lemma strip_length: "length (strip p q s) \<le> length s"
  by (induction p q s rule: strip.induct) auto

lemma strip_id_iff: "strip p q s = s \<longleftrightarrow> \<not> ws_front p q s"
proof (induction p q s rule: strip.induct)
  case (4 p q c d e s)
  have "strip p q (d # e # s) \<noteq> c # d # e # s" "strip p q (e # s) \<noteq> c # d # e # s" "strip p q s \<noteq> c # d # e # s"
    using strip_length[of p q "d # e # s"] strip_length[of p q "e # s"] strip_length[of p q s]
    by (metis Suc_n_not_le_n length_Cons nat_le_linear le_trans Suc_le_D Suc_le_mono)+
  then show ?case by auto
qed auto

lemma strip_front: "\<not> ws_front p q (strip p q s)"
  by (induction p q s rule: strip.induct) auto

lemma strip_idem: "strip p q (strip p q s) = strip p q s"
  by (simp add: strip_id_iff strip_front)

lemma strip_suffix: "\<exists>u. s = u @ strip p q s"
proof (induction p q s rule: strip.induct)
  case (4 p q c d e s)
  show ?case
  proof (cases "ascii_ws c")
    case True
    then obtain u where "d # e # s = u @ strip p q (d # e # s)" using 4(1) by blast
    then show ?thesis using True by (intro exI[of _ "c # u"]) simp
  next
    case False
    show ?thesis
    proof (cases "p c d")
      case True
      then obtain u where "e # s = u @ strip p q (e # s)" using 4(2) False by blast
      then show ?thesis using True False by (intro exI[of _ "c # d # u"]) simp
    next
      case pf: False
      show ?thesis
      proof (cases "q c d e")
        case True
        then obtain u where "s = u @ strip p q s" using 4(3) False pf by blast
        then show ?thesis using True False pf by (intro exI[of _ "c # d # e # u"]) simp
      qed (use False pf in simp)
    qed
  qed
qed auto

lemma ws_front_mono: "ws_front p q s \<Longrightarrow> ws_front p q (s @ t)"
  by (induction p q s rule: ws_front.induct; cases t; cases "tl t") auto

lemma ws_front_sep:
  assumes "s \<noteq> []" and "\<And>a. \<not> p a c" and "\<And>a b. \<not> q a c b" and "\<And>a b. \<not> q a b c"
  shows "ws_front p q (s @ c # t) = ws_front p q s"
proof -
  consider a where "s = [a]" | a b where "s = [a, b]" | a b d u where "s = a # b # d # u"
    using assms(1) by (metis list.exhaust)
  then show ?thesis
  proof cases
    case 1
    then show ?thesis using assms by (cases t) auto
  qed (use assms in auto)
qed

definition trimmed :: "string \<Rightarrow> bool" where
  "trimmed s \<longleftrightarrow> trim s = s"

abbreviation front_ws :: "string \<Rightarrow> bool" where
  "front_ws s \<equiv> ws_front ws2 ws3 s"

abbreviation back_ws :: "string \<Rightarrow> bool" where
  "back_ws s \<equiv> ws_front (\<lambda>c d. ws2 d c) (\<lambda>c d e. ws3 e d c) (rev s)"

lemma trim_front: "\<not> front_ws (trim s)"
proof
  assume a: "front_ws (trim s)"
  obtain u where "rev (trim_start s) = u @ strip (\<lambda>c d. ws2 d c) (\<lambda>c d e. ws3 e d c) (rev (trim_start s))"
    using strip_suffix by blast
  then have "trim_start s = trim s @ rev u"
    by (metis rev_append rev_rev_ident trim_def trim_end_def)
  with a have "front_ws (trim_start s)" by (metis ws_front_mono)
  then show False by (simp add: trim_start_def strip_front)
qed

lemma trim_back: "\<not> back_ws (trim s)"
  by (simp add: trim_def trim_end_def strip_front)

lemma trimmed_iff: "trimmed s \<longleftrightarrow> \<not> front_ws s \<and> \<not> back_ws s"
proof
  assume "trimmed s"
  then show "\<not> front_ws s \<and> \<not> back_ws s" using trim_front[of s] trim_back[of s] by (simp add: trimmed_def)
next
  assume a: "\<not> front_ws s \<and> \<not> back_ws s"
  then have "trim_start s = s" by (simp add: trim_start_def strip_id_iff)
  moreover have "strip (\<lambda>c d. ws2 d c) (\<lambda>c d e. ws3 e d c) (rev s) = rev s" using a by (simp add: strip_id_iff)
  then have "trim_end s = s" by (simp add: trim_end_def)
  ultimately show "trimmed s" by (simp add: trimmed_def trim_def)
qed

lemma trimmed_trim [simp]: "trimmed (trim s)"
  by (simp add: trimmed_iff trim_front trim_back)

lemma trim_trimmed [simp]: "trimmed s \<Longrightarrow> trim s = s"
  by (simp add: trimmed_def)

lemma trimmed_Nil [simp]: "trimmed []"
  by (simp add: trimmed_iff)

text \<open>Text between two trimmed ends that meets an ASCII byte is trimmed.\<close>

lemma front_ws_sep: "is_ascii c \<Longrightarrow> s \<noteq> [] \<Longrightarrow> front_ws (s @ c # t) = front_ws s"
  by (rule ws_front_sep) (auto dest: ws2_not_ascii ws3_not_ascii)

lemma back_ws_sep: "is_ascii c \<Longrightarrow> t \<noteq> [] \<Longrightarrow> back_ws (s @ c # t) = back_ws t"
  by (simp, rule ws_front_sep) (auto dest: ws2_not_ascii ws3_not_ascii)

lemma back_ws_last: "is_ascii c \<Longrightarrow> \<not> ascii_ws c \<Longrightarrow> \<not> back_ws (s @ [c])"
proof -
  assume c: "is_ascii c" "\<not> ascii_ws c"
  have "\<not> ws_front (\<lambda>c d. ws2 d c) (\<lambda>c d e. ws3 e d c) (c # r)" for r
    using c by (cases r; cases "tl r") (auto dest: ws2_not_ascii ws3_not_ascii)
  then show ?thesis by simp
qed

lemma trimmed_sep:
  assumes "is_ascii c" "\<not> ascii_ws c" "s \<noteq> []" "trimmed s" "trimmed t"
  shows "trimmed (s @ c # t)"
proof (cases "t = []")
  case True
  then show ?thesis using assms front_ws_sep[of c s "[]"] back_ws_last[of c s] by (simp add: trimmed_iff)
next
  case False
  then show ?thesis using assms front_ws_sep[of c s t] back_ws_sep[of c t s] by (simp add: trimmed_iff)
qed

subsection \<open>Searching and splitting\<close>

definition find_char :: "char \<Rightarrow> string \<Rightarrow> nat option" where
  "find_char c s = (if c \<in> set s then Some (length (takeWhile (\<lambda>x. x \<noteq> c) s)) else None)"

definition rfind_char :: "char \<Rightarrow> string \<Rightarrow> nat option" where
  "rfind_char c s = (if c \<in> set s then Some (length s - 1 - length (takeWhile (\<lambda>x. x \<noteq> c) (rev s))) else None)"

definition starts_with :: "string \<Rightarrow> string \<Rightarrow> bool" where
  "starts_with p s \<longleftrightarrow> take (length p) s = p"

definition ends_with :: "string \<Rightarrow> string \<Rightarrow> bool" where
  "ends_with p s \<longleftrightarrow> starts_with (rev p) (rev s)"

fun find_str :: "string \<Rightarrow> string \<Rightarrow> nat option" where
  "find_str p [] = (if p = [] then Some 0 else None)"
| "find_str p (c # s) = (if starts_with p (c # s) then Some 0 else map_option Suc (find_str p s))"

text \<open>\<open>str::split(c)\<close>: always at least one piece.\<close>

fun split_on :: "char \<Rightarrow> string \<Rightarrow> string list" where
  "split_on c [] = [[]]"
| "split_on c (x # s) =
     (if x = c then [] # split_on c s
      else case split_on c s of [] \<Rightarrow> [[x]] | w # ws \<Rightarrow> (x # w) # ws)"

text \<open>\<open>splitn(2, c)\<close>: the text before the first separator, and the rest when there is one.\<close>

definition split_once :: "char \<Rightarrow> string \<Rightarrow> string \<times> string option" where
  "split_once c s = (takeWhile (\<lambda>x. x \<noteq> c) s, if c \<in> set s then Some (tl (dropWhile (\<lambda>x. x \<noteq> c) s)) else None)"

fun join :: "string \<Rightarrow> string list \<Rightarrow> string" where
  "join sep [] = []"
| "join sep [x] = x"
| "join sep (x # y # xs) = x @ sep @ join sep (y # xs)"

lemma takeWhile_sep: "c \<notin> set a \<Longrightarrow> takeWhile (\<lambda>x. x \<noteq> c) (a @ c # b) = a"
  by (induction a) auto

lemma takeWhile_absent: "c \<notin> set a \<Longrightarrow> takeWhile (\<lambda>x. x \<noteq> c) a = a"
  by (induction a) auto

lemma dropWhile_sep: "c \<notin> set a \<Longrightarrow> dropWhile (\<lambda>x. x \<noteq> c) (a @ c # b) = c # b"
  by (induction a) auto

lemma find_char_first [str_simps]: "c \<notin> set a \<Longrightarrow> find_char c (a @ c # b) = Some (length a)"
  by (simp add: find_char_def takeWhile_sep)

lemma find_char_None: "find_char c s = None \<longleftrightarrow> c \<notin> set s"
  by (simp add: find_char_def)

lemma find_char_SomeE:
  assumes "find_char c s = Some n"
  obtains a b where "s = a @ c # b" "n = length a" "c \<notin> set a"
proof -
  have "c \<in> set s" and n: "n = length (takeWhile (\<lambda>x. x \<noteq> c) s)"
    using assms by (auto simp: find_char_def split: if_splits)
  then obtain a b where "s = a @ c # b" "c \<notin> set a" by (metis split_list_first)
  with n that[of a b] show thesis by (simp add: takeWhile_sep)
qed

lemma rfind_char_last [str_simps]: "c \<notin> set b \<Longrightarrow> rfind_char c (a @ c # b) = Some (length a)"
  by (simp add: rfind_char_def takeWhile_sep)

lemma split_once_first [str_simps]: "c \<notin> set a \<Longrightarrow> split_once c (a @ c # b) = (a, Some b)"
  by (simp add: split_once_def takeWhile_sep dropWhile_sep)

lemma split_once_absent: "c \<notin> set a \<Longrightarrow> split_once c a = (a, None)"
  by (simp add: split_once_def takeWhile_absent)

lemma split_on_ne [simp]: "split_on c s \<noteq> []"
  by (induction s) (auto split: list.splits)

lemma split_on_absent [str_simps]: "c \<notin> set a \<Longrightarrow> split_on c a = [a]"
  by (induction a) auto

lemma split_on_sep [str_simps]: "c \<notin> set a \<Longrightarrow> split_on c (a @ c # b) = a # split_on c b"
  by (induction a) auto

lemma split_on_join:
  assumes "xs \<noteq> []" and "\<forall>x \<in> set xs. c \<notin> set x"
  shows "split_on c (join [c] xs) = xs"
  using assms by (induction "[c]" xs rule: join.induct) (auto simp: str_simps)

lemma split_on_pieces: "w \<in> set (split_on c s) \<Longrightarrow> c \<notin> set w"
  by (induction s arbitrary: w) (auto split: list.splits if_splits)

lemma join_split_on: "join [c] (split_on c s) = s"
proof (induction s)
  case (Cons x s)
  then show ?case by (cases "split_on c s"; cases "tl (split_on c s)") (auto split: list.splits)
qed simp

section \<open>Maps\<close>

text \<open>
  \<open>BTreeMap\<close> is an association list in strictly ascending key order.  \<open>HashMap\<close> is an association
  list with distinct keys: its order stands for the iteration order, which Rust leaves open, so
  results that could depend on it are proved for every order.
\<close>

type_synonym ('k, 'v) btm = "('k \<times> 'v) list"
type_synonym ('k, 'v) hm = "('k \<times> 'v) list"

fun bt_put :: "'k::linorder \<Rightarrow> 'v \<Rightarrow> ('k, 'v) btm \<Rightarrow> ('k, 'v) btm" where
  "bt_put k v [] = [(k, v)]"
| "bt_put k v (p # m) =
     (if k < fst p then (k, v) # p # m else if k = fst p then (k, v) # m else p # bt_put k v m)"

definition bt_wf :: "('k::linorder, 'v) btm \<Rightarrow> bool" where
  "bt_wf m \<longleftrightarrow> sorted_wrt (<) (map fst m)"

definition hm_put :: "'k \<Rightarrow> 'v \<Rightarrow> ('k, 'v) hm \<Rightarrow> ('k, 'v) hm" where
  "hm_put k v m = AList.update k v m"

definition hm_wf :: "('k, 'v) hm \<Rightarrow> bool" where
  "hm_wf m \<longleftrightarrow> distinct (map fst m)"

lemma bt_put_keys: "fst ` set (bt_put k v m) = insert k (fst ` set m)"
  by (induction m) auto

lemma bt_wf_put [simp]: "bt_wf m \<Longrightarrow> bt_wf (bt_put k v m)"
proof (induction m)
  case (Cons p m)
  then show ?case using bt_put_keys[of k v m] by (force simp: bt_wf_def)
qed (simp add: bt_wf_def)

lemma bt_wf_Nil [simp]: "bt_wf []"
  by (simp add: bt_wf_def)

lemma bt_wf_distinct: "bt_wf m \<Longrightarrow> distinct (map fst m)"
  by (simp add: bt_wf_def strict_sorted_iff)

lemma bt_get_put [btm_simps]: "bt_wf m \<Longrightarrow> map_of (bt_put k v m) j = (if j = k then Some v else map_of m j)"
proof (induction m)
  case (Cons p m)
  then have "bt_wf m" by (simp add: bt_wf_def)
  then show ?case using Cons by (auto simp: bt_wf_def)
qed simp

lemma hm_wf_put [simp]: "hm_wf m \<Longrightarrow> hm_wf (hm_put k v m)"
  by (simp add: hm_wf_def hm_put_def distinct_update)

lemma hm_get_put: "map_of (hm_put k v m) j = (if j = k then Some v else map_of m j)"
  by (simp add: hm_put_def update_conv')

text \<open>The contract of a map: what a lookup returns after a write, and that the keys stay distinct.\<close>

locale kv_map =
  fixes put :: "'k \<Rightarrow> 'v \<Rightarrow> ('k \<times> 'v) list \<Rightarrow> ('k \<times> 'v) list"
    and wf :: "('k \<times> 'v) list \<Rightarrow> bool"
  assumes wf_Nil: "wf []"
    and wf_put: "wf m \<Longrightarrow> wf (put k v m)"
    and wf_keys: "wf m \<Longrightarrow> distinct (map fst m)"
    and get_put: "wf m \<Longrightarrow> map_of (put k v m) j = (if j = k then Some v else map_of m j)"
begin

lemma wf_puts: "wf m \<Longrightarrow> wf (fold (\<lambda>(k, v). put k v) ps m)"
  by (induction ps arbitrary: m) (auto simp: wf_put split: prod.splits)

lemma get_puts:
  "wf m \<Longrightarrow> map_of (fold (\<lambda>(k, v). put k v) ps m) j =
     (case map_of (rev ps) j of None \<Rightarrow> map_of m j | Some v \<Rightarrow> Some v)"
proof (induction ps arbitrary: m)
  case (Cons p ps)
  obtain k v where p: "p = (k, v)" by fastforce
  show ?case using Cons.IH[OF wf_put[OF Cons.prems, of k v]] Cons.prems
    by (auto simp: p get_put map_add_def split: option.splits)
qed simp

lemma put_idle: "wf m \<Longrightarrow> map_of m k = Some v \<Longrightarrow> map_of (put k v m) = map_of m"
  by (rule ext) (simp add: get_put)

end

interpretation bt: kv_map bt_put bt_wf
  by unfold_locales (auto simp: bt_wf_distinct bt_get_put)

interpretation hm: kv_map hm_put hm_wf
  by unfold_locales (auto simp: hm_wf_def hm_get_put intro: hm_wf_put[unfolded hm_wf_def])

text \<open>Two ordered maps with the same lookups are the same list.\<close>

lemma alist_by_keys: "distinct (map fst m) \<Longrightarrow> map (\<lambda>k. (k, the (map_of m k))) (map fst m) = m"
  by (auto simp: comp_def intro!: map_idI)

lemma bt_ext:
  assumes "bt_wf m" "bt_wf n" "map_of m = map_of n" shows "m = n"
proof -
  have d: "distinct (map fst m)" "distinct (map fst n)" using assms bt_wf_distinct by blast+
  have "set (map fst m) = set (map fst n)" using assms(3) by (metis dom_map_of_conv_image_fst set_map)
  then have k: "map fst m = map fst n"
    using assms(1,2) strict_sorted_equal[of "map fst n" "map fst m"] by (simp add: bt_wf_def)
  have "m = map (\<lambda>k. (k, the (map_of m k))) (map fst m)" by (rule alist_by_keys[OF d(1), symmetric])
  also have "\<dots> = map (\<lambda>k. (k, the (map_of n k))) (map fst n)" by (simp only: k assms(3))
  also have "\<dots> = n" by (rule alist_by_keys[OF d(2)])
  finally show ?thesis .
qed

section \<open>Durations\<close>

text \<open>\<open>std::time::Duration\<close> in nanoseconds; its largest value is \<open>u64::MAX\<close> seconds and
  999999999 nanoseconds, and an addition past it panics (\<open>None\<close>).\<close>

type_synonym duration = int

definition dur_max :: duration where
  "dur_max = (2 ^ 64 - 1) * 1000000000 + 999999999"

definition dur_add :: "duration \<Rightarrow> duration \<Rightarrow> duration option" where
  "dur_add a b = (if a + b \<le> dur_max then Some (a + b) else None)"

definition from_secs :: "int \<Rightarrow> duration" where
  "from_secs n = n * 1000000000"

definition from_millis :: "int \<Rightarrow> duration" where
  "from_millis n = n * 1000000"

definition as_secs_f64 :: "duration \<Rightarrow> f64" where
  "as_secs_f64 d = fadd (f_of_int (d div 1000000000))
     (fdiv (f_of_int (d mod 1000000000)) (flit 1000000000))"

section \<open>Reading numbers\<close>

definition is_digit :: "char \<Rightarrow> bool" where
  "is_digit c \<longleftrightarrow> c \<in> set ''0123456789''"

definition digit_val :: "char \<Rightarrow> int" where
  "digit_val c = of_char c - 48"

fun digits_val :: "int \<Rightarrow> string \<Rightarrow> int" where
  "digits_val acc [] = acc"
| "digits_val acc (c # s) = digits_val (10 * acc + digit_val c) s"

definition to_lower :: "char \<Rightarrow> char" where
  "to_lower c = (if 65 \<le> (of_char c :: int) \<and> (of_char c :: int) \<le> 90 then char_of (of_char c + 32 :: int) else c)"

text \<open>\<open>str::parse::<u64>\<close> on text of digits only: overflow is an error.\<close>

definition parse_u64_digits :: "string \<Rightarrow> u64 option" where
  "parse_u64_digits s =
     (if s \<noteq> [] \<and> list_all is_digit s \<and> digits_val 0 s < 2 ^ 64 then Some (word_of_int (digits_val 0 s)) else None)"

definition pow10 :: "int \<Rightarrow> rat" where
  "pow10 e = (if 0 \<le> e then of_int (10 ^ nat e) else Fract 1 (10 ^ nat (- e)))"

definition split_sign :: "string \<Rightarrow> bool \<times> string" where
  "split_sign s = (case s of [] \<Rightarrow> (False, [])
     | c # r \<Rightarrow> if c = CHR ''-'' then (True, r) else if c = CHR ''+'' then (False, r) else (False, s))"

text \<open>The exponent part of a float: absent, or \<open>e\<close> with an optional sign and digits.\<close>

definition parse_exp :: "string \<Rightarrow> int option" where
  "parse_exp s = (case s of [] \<Rightarrow> Some 0
     | c # r \<Rightarrow> if c = CHR ''e'' \<or> c = CHR ''E''
               then (let (neg, d) = split_sign r
                     in if d \<noteq> [] \<and> list_all is_digit d
                        then Some (if neg then - digits_val 0 d else digits_val 0 d) else None)
               else None)"

text \<open>\<open>str::parse::<f64>\<close>: an optional sign, then \<open>inf\<close>, \<open>infinity\<close> or \<open>nan\<close> in any case, or digits with
  an optional point and exponent, correctly rounded.\<close>

definition parse_f64 :: "string \<Rightarrow> f64 option" where
  "parse_f64 s =
     (let (neg, r) = split_sign s; low = map to_lower r
      in if low = ''inf'' \<or> low = ''infinity'' then Some (F64_Inf neg)
         else if low = ''nan'' then Some F64_NaN
         else
           let ip = takeWhile is_digit r; r1 = dropWhile is_digit r;
               fp = (if starts_with ''.'' r1 then takeWhile is_digit (tl r1) else []);
               r2 = (if starts_with ''.'' r1 then dropWhile is_digit (tl r1) else r1)
           in if ip @ fp = [] then None
              else case parse_exp r2 of None \<Rightarrow> None
                | Some x \<Rightarrow>
                    (let v = of_int (digits_val 0 (ip @ fp)) * pow10 (x - int (length fp))
                     in Some (fround neg (if neg then - v else v))))"

text \<open>\<open>char::is_ascii_alphabetic\<close>.\<close>

definition is_alpha :: "char \<Rightarrow> bool" where
  "is_alpha c \<longleftrightarrow> (let n = of_char c :: int in 65 \<le> n \<and> n \<le> 90 \<or> 97 \<le> n \<and> n \<le> 122)"

section \<open>Decimal text\<close>

text \<open>The decimal digits of a natural number, the \<open>Display\<close> of Rust's unsigned integers.\<close>

function dec :: "int \<Rightarrow> string" where
  "dec n = (if n < 10 then [char_of (48 + n)] else dec (n div 10) @ [char_of (48 + n mod 10)])"
  by pat_completeness auto
termination by (relation "measure nat") auto

declare dec.simps [simp del]

lemma digit_char:
  assumes "0 \<le> d" "d < 10" shows "is_digit (char_of (48 + d :: int))" "digit_val (char_of (48 + d)) = d"
proof -
  have "d = 0 \<or> d = 1 \<or> d = 2 \<or> d = 3 \<or> d = 4 \<or> d = 5 \<or> d = 6 \<or> d = 7 \<or> d = 8 \<or> d = 9"
    using assms by presburger
  then show "is_digit (char_of (48 + d :: int))" by (elim disjE; simp; code_simp)
  have "(of_char (char_of (48 + d) :: char) :: int) = (48 + d) mod 256" by simp
  then show "digit_val (char_of (48 + d)) = d" using assms by (simp add: digit_val_def)
qed

lemma digits_val_append: "digits_val a (s @ t) = digits_val (digits_val a s) t"
  by (induction a s rule: digits_val.induct) simp_all

lemma dec_facts: "0 \<le> n \<Longrightarrow> dec n \<noteq> [] \<and> list_all is_digit (dec n) \<and> digits_val 0 (dec n) = n"
proof (induction n rule: dec.induct)
  case (1 n)
  show ?case
  proof (cases "n < 10")
    case True
    then show ?thesis using 1(2) digit_char[of n] by (simp add: dec.simps[of n])
  next
    case False
    then have "dec n = dec (n div 10) @ [char_of (48 + n mod 10)]" by (simp add: dec.simps[of n])
    moreover have "dec (n div 10) \<noteq> [] \<and> list_all is_digit (dec (n div 10)) \<and> digits_val 0 (dec (n div 10)) = n div 10"
      using 1 False by simp
    moreover have "is_digit (char_of (48 + n mod 10))" "digit_val (char_of (48 + n mod 10)) = n mod 10"
      using digit_char[of "n mod 10"] by simp_all
    ultimately show ?thesis by (simp add: digits_val_append)
  qed
qed

lemma digit_not:
  assumes "is_digit c"
  shows "c \<noteq> CHR ''-''" "c \<noteq> CHR ''+''" "c \<noteq> CHR ''.''" "c \<noteq> CHR 0xC2" "\<not> is_alpha c" "is_ascii c" "\<not> ascii_ws c"
    "to_lower c = c" "c \<noteq> CHR ''i''" "c \<noteq> CHR ''n''"
  using assms by (auto simp: is_digit_def is_alpha_def is_ascii_def ascii_ws_def to_lower_def)

lemma takeWhile_digits:
  assumes "list_all is_digit d" "r = [] \<or> \<not> is_digit (hd r)"
  shows "takeWhile is_digit (d @ r) = d" "dropWhile is_digit (d @ r) = r"
  using assms by (cases r; simp add: list_all_iff)+

text \<open>A number without point and exponent is read exactly as the rounded integer.\<close>

lemma parse_f64_digits:
  assumes "d \<noteq> []" "list_all is_digit d" shows "parse_f64 d = Some (f_of_int (digits_val 0 d))"
proof -
  obtain c t where d: "d = c # t" using assms(1) by (cases d) auto
  have c: "is_digit c" using assms(2) d by simp
  have sg: "split_sign d = (False, d)" using digit_not[OF c] by (simp add: split_sign_def d)
  have "map to_lower d \<noteq> ''inf''" "map to_lower d \<noteq> ''infinity''" "map to_lower d \<noteq> ''nan''"
    using digit_not[OF c] by (simp_all add: d)
  moreover have "takeWhile is_digit d = d" and "dropWhile is_digit d = []"
    using takeWhile_digits[OF assms(2), of "[]"] by (simp_all only: append_Nil2 simp_thms)
  ultimately show ?thesis using assms(1)
    unfolding parse_f64_def sg Let_def prod.case by (simp only: starts_with_def) (simp add: parse_exp_def pow10_def f_of_int_def)
qed

end
