(* ===== verification/Sharing.thy ===== *)
theory Sharing
  imports K6_Prelude "HOL-Library.Multiset"
begin

text \<open>
  State that virtual users share: \<open>SharedArray\<close>, \<open>SharedCounter\<close> and \<open>SharedQueue\<close>
  (\<open>crates/k6-core/src/shared\<close>), and the request permits of \<open>Backpressure\<close> and \<open>RateLimiter\<close>
  (\<open>crates/k6-core/src/backpressure.rs\<close>).  Every shared operation is atomic in the code, so threads are
  modelled by step relations whose steps are these operations in any order.  The queue of \<open>crossbeam\<close>
  and the semaphore of \<open>tokio\<close> are parameters; what their documentation promises is \<open>fifo_queue\<close> and
  \<open>counting_semaphore\<close>.
\<close>

section \<open>Shared array\<close>

record 'a shared_array =
  sa_data :: "'a list"
  sa_name :: string

definition sa_new :: "string \<Rightarrow> 'a list \<Rightarrow> 'a shared_array" where
  "sa_new name data = \<lparr>sa_data = data, sa_name = name\<rparr>"

definition sa_get :: "'a shared_array \<Rightarrow> nat \<Rightarrow> 'a option" where
  "sa_get a i = (if i < length (sa_data a) then Some (sa_data a ! i) else None)"

definition sa_len :: "'a shared_array \<Rightarrow> nat" where
  "sa_len a = length (sa_data a)"

definition sa_is_empty :: "'a shared_array \<Rightarrow> bool" where
  "sa_is_empty a \<longleftrightarrow> sa_data a = []"

definition sa_iter :: "'a shared_array \<Rightarrow> 'a list" where
  "sa_iter a = sa_data a"

section \<open>Shared counter\<close>

record shared_counter =
  sc_value :: u64

definition sc_new :: shared_counter where
  "sc_new = \<lparr>sc_value = 0\<rparr>"

definition sc_with_initial :: "u64 \<Rightarrow> shared_counter" where
  "sc_with_initial initial = \<lparr>sc_value = initial\<rparr>"

definition sc_next :: "shared_counter \<Rightarrow> shared_counter \<times> u64" where
  "sc_next c = (c\<lparr>sc_value := sc_value c + 1\<rparr>, sc_value c)"

definition sc_current :: "shared_counter \<Rightarrow> u64" where
  "sc_current c = sc_value c"

definition sc_reset :: "shared_counter \<Rightarrow> shared_counter" where
  "sc_reset c = c\<lparr>sc_value := 0\<rparr>"

text \<open>A run of a counter shared by threads: each entry is a call of \<open>next\<close> by a thread, and the ids
  handed out are recorded with the thread that got them.\<close>

fun sc_run :: "'t list \<Rightarrow> shared_counter \<Rightarrow> shared_counter \<times> ('t \<times> u64) list" where
  "sc_run [] c = (c, [])"
| "sc_run (t # ts) c =
     (case sc_next c of (c', v) \<Rightarrow> case sc_run ts c' of (c'', vs) \<Rightarrow> (c'', (t, v) # vs))"

section \<open>Shared queue\<close>

record ('q, 'a) array_queue =
  aq_new :: "nat \<Rightarrow> 'q"
  aq_push :: "'a \<Rightarrow> 'q \<Rightarrow> 'q \<times> ('a + unit)"
  aq_pop :: "'q \<Rightarrow> 'q \<times> 'a option"
  aq_len :: "'q \<Rightarrow> nat"
  aq_is_empty :: "'q \<Rightarrow> bool"

record 'q shared_queue =
  sq_queue :: 'q
  sq_capacity :: nat

fun sq_fill :: "('q, 'a) array_queue \<Rightarrow> 'a list \<Rightarrow> 'q \<Rightarrow> 'q" where
  "sq_fill Q [] q = q"
| "sq_fill Q (x # xs) q = sq_fill Q xs (fst (aq_push Q x q))"

definition sq_new :: "('q, 'a) array_queue \<Rightarrow> 'a list \<Rightarrow> 'q shared_queue" where
  "sq_new Q items =
     (let capacity = length items
      in \<lparr>sq_queue = sq_fill Q items (aq_new Q (max capacity 1)), sq_capacity = capacity\<rparr>)"

definition sq_take :: "('q, 'a) array_queue \<Rightarrow> 'q shared_queue \<Rightarrow> 'q shared_queue \<times> 'a option" where
  "sq_take Q s = (case aq_pop Q (sq_queue s) of (q, r) \<Rightarrow> (s\<lparr>sq_queue := q\<rparr>, r))"

definition sq_put :: "('q, 'a) array_queue \<Rightarrow> 'a \<Rightarrow> 'q shared_queue \<Rightarrow> 'q shared_queue \<times> ('a + unit)" where
  "sq_put Q item s = (case aq_push Q item (sq_queue s) of (q, r) \<Rightarrow> (s\<lparr>sq_queue := q\<rparr>, r))"

definition sq_available :: "('q, 'a) array_queue \<Rightarrow> 'q shared_queue \<Rightarrow> nat" where
  "sq_available Q s = aq_len Q (sq_queue s)"

definition sq_is_empty :: "('q, 'a) array_queue \<Rightarrow> 'q shared_queue \<Rightarrow> bool" where
  "sq_is_empty Q s = aq_is_empty Q (sq_queue s)"

text \<open>The documented behaviour of \<open>ArrayQueue\<close>: a bounded queue, first in, first out, of which
  \<open>items\<close> are the elements and \<open>cap\<close> the capacity; a push into a full queue hands the element back.\<close>

definition fifo_queue :: "('q, 'a) array_queue \<Rightarrow> ('q \<Rightarrow> 'a list) \<Rightarrow> ('q \<Rightarrow> nat) \<Rightarrow> bool" where
  "fifo_queue Q items cap \<longleftrightarrow>
     (\<forall>n. 0 < n \<longrightarrow> items (aq_new Q n) = [] \<and> cap (aq_new Q n) = n) \<and>
     (\<forall>x q. cap (fst (aq_push Q x q)) = cap q \<and>
        (if length (items q) < cap q then snd (aq_push Q x q) = Inr () \<and> items (fst (aq_push Q x q)) = items q @ [x]
         else snd (aq_push Q x q) = Inl x \<and> items (fst (aq_push Q x q)) = items q)) \<and>
     (\<forall>q. cap (fst (aq_pop Q q)) = cap q \<and>
        (case items q of [] \<Rightarrow> snd (aq_pop Q q) = None \<and> items (fst (aq_pop Q q)) = []
         | x # xs \<Rightarrow> snd (aq_pop Q q) = Some x \<and> items (fst (aq_pop Q q)) = xs)) \<and>
     (\<forall>q. aq_len Q q = length (items q) \<and> aq_is_empty Q q = (items q = []))"

text \<open>Threads that take tokens and put back what they hold; \<open>held\<close> are the tokens handed out, \<open>rejected\<close>
  the tokens a \<open>put\<close> gave back.\<close>

record ('q, 't, 'a) token_sys =
  ts_queue :: "'q shared_queue"
  held :: "('t \<times> 'a) list"
  rejected :: "'a list"

inductive token_step :: "('q, 'a) array_queue \<Rightarrow> ('q, 't, 'a) token_sys \<Rightarrow> ('q, 't, 'a) token_sys \<Rightarrow> bool" for Q where
  take_token: "sq_take Q (ts_queue s) = (q, Some x) \<Longrightarrow>
     token_step Q s (s\<lparr>ts_queue := q, held := (t, x) # held s\<rparr>)"
| take_none: "sq_take Q (ts_queue s) = (q, None) \<Longrightarrow> token_step Q s (s\<lparr>ts_queue := q\<rparr>)"
| put_token: "(t, x) \<in> set (held s) \<Longrightarrow> sq_put Q x (ts_queue s) = (q, r) \<Longrightarrow>
     token_step Q s (s\<lparr>ts_queue := q, held := remove1 (t, x) (held s),
                       rejected := (case r of Inl y \<Rightarrow> y # rejected s | Inr _ \<Rightarrow> rejected s)\<rparr>)"

inductive token_reach :: "('q, 'a) array_queue \<Rightarrow> 'a list \<Rightarrow> ('q, 't, 'a) token_sys \<Rightarrow> bool" for Q tokens where
  init: "token_reach Q tokens \<lparr>ts_queue = sq_new Q tokens, held = [], rejected = []\<rparr>"
| step: "token_reach Q tokens s \<Longrightarrow> token_step Q s s' \<Longrightarrow> token_reach Q tokens s'"

section \<open>Request permits\<close>

text \<open>\<open>sem_new\<close> panics (\<open>None\<close>) above \<open>Semaphore::MAX_PERMITS\<close>; \<open>sem_try_acquire\<close> fails when no permit is
  left, and \<open>acquire_owned().await\<close> waits until it would not fail.\<close>

record 's semaphore =
  sem_new :: "u64 \<Rightarrow> 's option"
  sem_try_acquire :: "'s \<Rightarrow> 's option"
  sem_release :: "'s \<Rightarrow> 's"
  sem_available :: "'s \<Rightarrow> u64"
  sem_add_permits :: "u64 \<Rightarrow> 's \<Rightarrow> 's"

definition MAX_PERMITS :: u64 where
  "MAX_PERMITS = 2 ^ 61 - 1"

definition counting_semaphore :: "'s semaphore \<Rightarrow> bool" where
  "counting_semaphore S \<longleftrightarrow>
     (\<forall>n. case sem_new S n of None \<Rightarrow> MAX_PERMITS < n | Some s \<Rightarrow> n \<le> MAX_PERMITS \<and> sem_available S s = n) \<and>
     (\<forall>s. case sem_try_acquire S s of None \<Rightarrow> sem_available S s = 0
          | Some s' \<Rightarrow> 0 < sem_available S s \<and> sem_available S s' = sem_available S s - 1) \<and>
     (\<forall>s. sem_available S s < MAX_PERMITS \<longrightarrow> sem_available S (sem_release S s) = sem_available S s + 1) \<and>
     (\<forall>n s. n \<le> MAX_PERMITS - sem_available S s \<longrightarrow> sem_available S (sem_add_permits S n s) = sem_available S s + n)"

record 's backpressure =
  bp_semaphore :: 's
  bp_max_in_flight :: u64
  bp_current_in_flight :: u64

definition bp_new :: "'s semaphore \<Rightarrow> u64 \<Rightarrow> 's backpressure option" where
  "bp_new S max_in_flight =
     map_option (\<lambda>s. \<lparr>bp_semaphore = s, bp_max_in_flight = max_in_flight, bp_current_in_flight = 0\<rparr>) (sem_new S max_in_flight)"

definition bp_from_vus :: "'s semaphore \<Rightarrow> u64 \<Rightarrow> 's backpressure option" where
  "bp_from_vus S max_vus = bp_new S (max_vus * 2)"

text \<open>The two shared updates of \<open>acquire\<close> and \<open>try_acquire\<close>: take a permit, then count the request; and
  of the drop of an \<open>InFlightPermit\<close>: uncount the request, then give the permit back with the field.\<close>

definition bp_permit :: "'s semaphore \<Rightarrow> 's backpressure \<Rightarrow> 's backpressure option" where
  "bp_permit S b = map_option (\<lambda>s. b\<lparr>bp_semaphore := s\<rparr>) (sem_try_acquire S (bp_semaphore b))"

definition bp_count :: "'s backpressure \<Rightarrow> 's backpressure" where
  "bp_count b = b\<lparr>bp_current_in_flight := bp_current_in_flight b + 1\<rparr>"

definition bp_uncount :: "'s backpressure \<Rightarrow> 's backpressure" where
  "bp_uncount b = b\<lparr>bp_current_in_flight := bp_current_in_flight b - 1\<rparr>"

definition bp_give_back :: "'s semaphore \<Rightarrow> 's backpressure \<Rightarrow> 's backpressure" where
  "bp_give_back S b = b\<lparr>bp_semaphore := sem_release S (bp_semaphore b)\<rparr>"

definition bp_try_acquire :: "'s semaphore \<Rightarrow> 's backpressure \<Rightarrow> 's backpressure option" where
  "bp_try_acquire S b = map_option bp_count (bp_permit S b)"

definition bp_drop :: "'s semaphore \<Rightarrow> 's backpressure \<Rightarrow> 's backpressure" where
  "bp_drop S b = bp_give_back S (bp_uncount b)"

definition bp_in_flight :: "'s backpressure \<Rightarrow> u64" where
  "bp_in_flight b = bp_current_in_flight b"

definition bp_available_permits :: "'s semaphore \<Rightarrow> 's backpressure \<Rightarrow> u64" where
  "bp_available_permits S b = sem_available S (bp_semaphore b)"

text \<open>Requests in progress: between the two updates of \<open>acquire\<close> (\<open>entering\<close>), with an \<open>InFlightPermit\<close>
  (\<open>active\<close>), and between the two updates of its drop (\<open>leaving\<close>).\<close>

record 's bp_sys =
  bs_bp :: "'s backpressure"
  entering :: nat
  active :: nat
  leaving :: nat

inductive bp_step :: "'s semaphore \<Rightarrow> 's bp_sys \<Rightarrow> 's bp_sys \<Rightarrow> bool" for S where
  permit: "bp_permit S (bs_bp s) = Some b \<Longrightarrow> bp_step S s (s\<lparr>bs_bp := b, entering := Suc (entering s)\<rparr>)"
| counted: "entering s = Suc n \<Longrightarrow>
     bp_step S s (s\<lparr>bs_bp := bp_count (bs_bp s), entering := n, active := Suc (active s)\<rparr>)"
| uncounted: "active s = Suc n \<Longrightarrow>
     bp_step S s (s\<lparr>bs_bp := bp_uncount (bs_bp s), active := n, leaving := Suc (leaving s)\<rparr>)"
| given_back: "leaving s = Suc n \<Longrightarrow> bp_step S s (s\<lparr>bs_bp := bp_give_back S (bs_bp s), leaving := n\<rparr>)"

inductive bp_reach :: "'s semaphore \<Rightarrow> u64 \<Rightarrow> 's bp_sys \<Rightarrow> bool" for S m where
  init: "bp_new S m = Some b \<Longrightarrow> bp_reach S m \<lparr>bs_bp = b, entering = 0, active = 0, leaving = 0\<rparr>"
| step: "bp_reach S m s \<Longrightarrow> bp_step S s s' \<Longrightarrow> bp_reach S m s'"

section \<open>Rate limiter\<close>

text \<open>\<open>None\<close> is the limiter without a limit.\<close>

type_synonym 's rate_limiter = "'s option"

definition rl_new :: "'s semaphore \<Rightarrow> u32 \<Rightarrow> 's rate_limiter option" where
  "rl_new S rps = (if rps = 0 then Some None else map_option Some (sem_new S (ucast rps)))"

definition rl_is_active :: "'s rate_limiter \<Rightarrow> bool" where
  "rl_is_active l \<longleftrightarrow> l \<noteq> None"

text \<open>One call of \<open>acquire\<close> that is not interrupted; \<open>None\<close> when it would wait.\<close>

definition rl_acquire :: "'s semaphore \<Rightarrow> 's rate_limiter \<Rightarrow> 's rate_limiter option" where
  "rl_acquire S l =
     (case l of None \<Rightarrow> Some None
      | Some s \<Rightarrow> map_option (\<lambda>s'. Some (sem_release S s')) (sem_try_acquire S s))"

fun rl_acquires :: "'s semaphore \<Rightarrow> nat \<Rightarrow> 's rate_limiter \<Rightarrow> 's rate_limiter option" where
  "rl_acquires S 0 l = Some l"
| "rl_acquires S (Suc n) l = (case rl_acquire S l of None \<Rightarrow> None | Some l' \<Rightarrow> rl_acquires S n l')"

definition rl_max_permits :: "'s semaphore \<Rightarrow> 's \<Rightarrow> u64" where
  "rl_max_permits S s = sem_available S s + 1"

text \<open>One tick of the replenishing task; \<open>saturating_sub\<close> written out.\<close>

definition rl_replenish :: "'s semaphore \<Rightarrow> u64 \<Rightarrow> 's \<Rightarrow> 's" where
  "rl_replenish S max_permits s =
     (let available = sem_available S s;
          to_add = (if available \<le> max_permits then max_permits - available else 0)
      in if 0 < to_add then sem_add_permits S to_add s else s)"


section \<open>Counter ids\<close>

lemma sc_run_ids:
  "map snd (snd (sc_run ts c)) = map (\<lambda>k. sc_value c + of_nat k) [0..<length ts] \<and>
   sc_value (fst (sc_run ts c)) = sc_value c + of_nat (length ts)"
proof (induction ts arbitrary: c)
  case (Cons t ts)
  have up: "[0..<Suc (length ts)] = 0 # map Suc [0..<length ts]" by (simp only: upt_conv_Cons[of 0 "Suc (length ts)"] map_Suc_upt zero_less_Suc)
  show ?case using Cons[of "c\<lparr>sc_value := sc_value c + 1\<rparr>"]
    by (auto simp: sc_next_def up comp_def algebra_simps split: prod.splits simp del: upt_Suc)
qed simp

lemma of_nat_u64_inj: "inj_on (\<lambda>k. v + of_nat k :: u64) {..<2 ^ 64}"
proof (rule inj_onI)
  fix i j assume ij: "i \<in> {..<2 ^ 64}" "j \<in> {..<2 ^ 64}" and e: "v + of_nat i = v + (of_nat j :: u64)"
  have "unat (of_nat i :: u64) = unat (of_nat j :: u64)" using e by simp
  then show "i = j" using ij by (simp add: unat_of_nat)
qed

section \<open>Tokens\<close>

lemma sq_fill_items:
  assumes "fifo_queue Q items cap" "length (items q) + length xs \<le> cap q"
  shows "items (sq_fill Q xs q) = items q @ xs \<and> cap (sq_fill Q xs q) = cap q"
  using assms(2)
proof (induction xs arbitrary: q)
  case (Cons x xs)
  have "items (fst (aq_push Q x q)) = items q @ [x]" "cap (fst (aq_push Q x q)) = cap q"
    using assms(1) Cons.prems by (auto simp: fifo_queue_def)
  then show ?case using Cons.IH[of "fst (aq_push Q x q)"] Cons.prems by simp
qed simp

lemma sq_new_items:
  assumes "fifo_queue Q items cap"
  shows "items (sq_queue (sq_new Q xs)) = xs \<and> cap (sq_queue (sq_new Q xs)) = max (length xs) 1 \<and> sq_capacity (sq_new Q xs) = length xs"
proof -
  have "items (aq_new Q (max (length xs) 1)) = []" "cap (aq_new Q (max (length xs) 1)) = max (length xs) 1"
    using assms by (auto simp: fifo_queue_def)
  then show ?thesis using sq_fill_items[OF assms, of "aq_new Q (max (length xs) 1)" xs] by (simp add: sq_new_def Let_def)
qed

lemma token_invariant:
  assumes Q: "fifo_queue Q items cap" and "token_reach Q tokens s"
  shows "mset (items (sq_queue (ts_queue s))) + mset (map snd (held s)) = mset tokens \<and>
    cap (sq_queue (ts_queue s)) = max (length tokens) 1 \<and> sq_capacity (ts_queue s) = length tokens \<and> rejected s = []"
  using assms(2)
proof (induction rule: token_reach.induct)
  case init
  then show ?case using sq_new_items[OF Q, of tokens] by simp
next
  case (step s s')
  have pop: "cap (fst (aq_pop Q q)) = cap q" "items q = (case snd (aq_pop Q q) of None \<Rightarrow> [] | Some x \<Rightarrow> [x]) @ items (fst (aq_pop Q q))" for q
    using Q by (cases "items q"; fastforce simp: fifo_queue_def split: list.splits)+
  have push: "snd (aq_push Q x q) = Inr () \<and> items (fst (aq_push Q x q)) = items q @ [x] \<and> cap (fst (aq_push Q x q)) = cap q"
    if "length (items q) < cap q" for x q
    using Q that by (auto simp: fifo_queue_def)
  from step.hyps(2) step.IH show ?case
  proof cases
    case (take_token q x t)
    then show ?thesis using pop[of "sq_queue (ts_queue s)"] step.IH by (auto simp: sq_take_def split: prod.splits)
  next
    case (take_none q)
    then show ?thesis using pop[of "sq_queue (ts_queue s)"] step.IH by (auto simp: sq_take_def split: prod.splits)
  next
    case (put_token t x q r)
    let ?q = "sq_queue (ts_queue s)"
    have "size (mset (items ?q)) + size (mset (map snd (held s))) = size (mset tokens)"
      using step.IH by (metis size_union)
    moreover have "held s \<noteq> []" using put_token(2) by auto
    ultimately have "length (items ?q) < length tokens" by (cases "held s") auto
    then have "length (items ?q) < cap ?q" using step.IH by simp
    from push[OF this, of x] have p: "r = Inr ()" "items (sq_queue q) = items ?q @ [x]" "cap (sq_queue q) = cap ?q" "sq_capacity q = sq_capacity (ts_queue s)"
      using put_token(3) by (auto simp: sq_put_def split: prod.splits)
    have "mset (held s) = add_mset (t, x) (mset (remove1 (t, x) (held s)))" using put_token(2) by simp
    then have "mset (map snd (held s)) = add_mset x (mset (map snd (remove1 (t, x) (held s))))"
      by (metis image_mset_add_mset mset_map snd_conv)
    then show ?thesis using p step.IH put_token(1) by simp
  qed
qed

section \<open>Permits\<close>

lemma semaphore_laws:
  assumes "counting_semaphore S"
  shows "sem_new S n = Some s \<Longrightarrow> n \<le> MAX_PERMITS \<and> sem_available S s = n"
    and "sem_new S n = None \<Longrightarrow> MAX_PERMITS < n"
    and "sem_try_acquire S s = None \<Longrightarrow> sem_available S s = 0"
    and "sem_try_acquire S s = Some s' \<Longrightarrow> 0 < sem_available S s \<and> sem_available S s' = sem_available S s - 1"
    and "sem_available S s < MAX_PERMITS \<Longrightarrow> sem_available S (sem_release S s) = sem_available S s + 1"
    and "m \<le> MAX_PERMITS - sem_available S s \<Longrightarrow> sem_available S (sem_add_permits S m s) = sem_available S s + m"
proof -
  have new: "case sem_new S n of None \<Rightarrow> MAX_PERMITS < n | Some s \<Rightarrow> n \<le> MAX_PERMITS \<and> sem_available S s = n"
    and acq: "case sem_try_acquire S s of None \<Rightarrow> sem_available S s = 0
          | Some s' \<Rightarrow> 0 < sem_available S s \<and> sem_available S s' = sem_available S s - 1"
    and rest: "sem_available S s < MAX_PERMITS \<longrightarrow> sem_available S (sem_release S s) = sem_available S s + 1"
      "m \<le> MAX_PERMITS - sem_available S s \<longrightarrow> sem_available S (sem_add_permits S m s) = sem_available S s + m"
    using assms by (auto simp: counting_semaphore_def)
  show "sem_new S n = Some s \<Longrightarrow> n \<le> MAX_PERMITS \<and> sem_available S s = n" "sem_new S n = None \<Longrightarrow> MAX_PERMITS < n" using new by auto
  show "sem_try_acquire S s = None \<Longrightarrow> sem_available S s = 0"
    "sem_try_acquire S s = Some s' \<Longrightarrow> 0 < sem_available S s \<and> sem_available S s' = sem_available S s - 1" using acq by auto
  show "sem_available S s < MAX_PERMITS \<Longrightarrow> sem_available S (sem_release S s) = sem_available S s + 1"
    "m \<le> MAX_PERMITS - sem_available S s \<Longrightarrow> sem_available S (sem_add_permits S m s) = sem_available S s + m" using rest by auto
qed

lemma unat_step: "0 < a \<Longrightarrow> unat (a - 1) = unat (a :: u64) - 1" "(a :: u64) < b \<Longrightarrow> unat (a + 1) = unat a + 1"
proof -
  show "unat (a - 1) = unat a - 1" if "0 < a"
    using that unat_minus_one[of a] by (simp add: word_gt_0)
  show "unat (a + 1) = unat a + 1" if "a < b"
  proof -
    have "unat a < unat b" using that by (simp add: word_less_nat_alt)
    moreover have "unat b < 2 ^ LENGTH(64)" by (rule unsigned_less)
    ultimately have "unat a + 1 < 2 ^ 64" by simp
    then show ?thesis by (simp add: unat_word_ariths)
  qed
qed

lemma permits_invariant:
  assumes S: "counting_semaphore S" and "bp_reach S m s"
  shows "unat (sem_available S (bp_semaphore (bs_bp s))) + entering s + active s + leaving s = unat m \<and> m \<le> MAX_PERMITS \<and>
    bp_current_in_flight (bs_bp s) = of_nat (active s) \<and> bp_max_in_flight (bs_bp s) = m"
  using assms(2)
proof (induction rule: bp_reach.induct)
  case (init b)
  then show ?case using semaphore_laws(1)[OF S] by (auto simp: bp_new_def)
next
  case (step s s')
  from step.hyps(2) step.IH show ?case
  proof cases
    case (permit b)
    then obtain p where p: "sem_try_acquire S (bp_semaphore (bs_bp s)) = Some p" "b = (bs_bp s)\<lparr>bp_semaphore := p\<rparr>"
      by (auto simp: bp_permit_def)
    have a: "0 < sem_available S (bp_semaphore (bs_bp s))" and e: "sem_available S p = sem_available S (bp_semaphore (bs_bp s)) - 1"
      using semaphore_laws(4)[OF S p(1)] by blast+
    have "0 < unat (sem_available S (bp_semaphore (bs_bp s)))" using a by (simp add: unat_gt_0 word_gt_0)
    then show ?thesis using step.IH permit p(2) e unat_step(1)[OF a] by simp
  next
    case (counted n)
    then show ?thesis using step.IH by (simp add: bp_count_def)
  next
    case (uncounted n)
    then show ?thesis using step.IH by (simp add: bp_uncount_def)
  next
    case (given_back n)
    let ?a = "sem_available S (bp_semaphore (bs_bp s))"
    have "unat ?a < unat m" using step.IH given_back(2) by simp
    moreover have "unat m \<le> unat MAX_PERMITS" using step.IH by (simp add: word_le_nat_alt)
    ultimately have "?a < MAX_PERMITS" by (simp add: word_less_nat_alt)
    from unat_step(2)[OF this] semaphore_laws(5)[OF S this] show ?thesis using step.IH given_back by (simp add: bp_give_back_def)
  qed
qed

lemma rl_acquire_neutral:
  assumes S: "counting_semaphore S" and s: "0 < sem_available S s" "sem_available S s \<le> MAX_PERMITS"
  shows "\<exists>s'. rl_acquire S (Some s) = Some (Some s') \<and> sem_available S s' = sem_available S s"
proof -
  obtain p where p: "sem_try_acquire S s = Some p" using semaphore_laws(3)[OF S, of s] s(1) by (cases "sem_try_acquire S s") auto
  have e: "sem_available S p = sem_available S s - 1" using semaphore_laws(4)[OF S p] by blast
  have "unat (sem_available S s - 1) < unat MAX_PERMITS"
    using unat_step(1)[OF s(1)] s unat_gt_0[of "sem_available S s"] by (simp add: word_le_nat_alt word_gt_0 less_le_trans[OF diff_less])
  then have "sem_available S p < MAX_PERMITS" by (simp add: e word_less_nat_alt)
  from semaphore_laws(5)[OF S this] show ?thesis using p e by (simp add: rl_acquire_def)
qed

lemma rl_acquires_neutral:
  assumes S: "counting_semaphore S" and s: "0 < sem_available S s" "sem_available S s \<le> MAX_PERMITS"
  shows "\<exists>s'. rl_acquires S n (Some s) = Some (Some s') \<and> sem_available S s' = sem_available S s"
  using s
proof (induction n arbitrary: s)
  case (Suc n)
  from rl_acquire_neutral[OF S Suc.prems] obtain p where "rl_acquire S (Some s) = Some (Some p)" "sem_available S p = sem_available S s" by blast
  then show ?case using Suc.IH[of p] Suc.prems by simp
qed simp


section \<open>Properties\<close>

text \<open>Unique ids.  However the threads interleave, the ids a shared counter hands out are the numbers
  from its value on, in the order of the calls; up to \<open>2\<^sup>6\<^sup>4\<close> calls no id is handed out twice, to the same
  or to different threads.\<close>

lemma counter_ids_unique:
  assumes "length ts \<le> 2 ^ 64"
  shows "distinct (map snd (snd (sc_run ts c))) \<and> map fst (snd (sc_run ts c)) = ts \<and>
    sc_current (fst (sc_run ts c)) = sc_current c + of_nat (length ts)"
proof -
  have "inj_on (\<lambda>k. sc_value c + of_nat k) (set [0..<length ts])"
    using assms by (intro inj_on_subset[OF of_nat_u64_inj]) auto
  then have "distinct (map snd (snd (sc_run ts c)))" using sc_run_ids[of ts c] by (simp add: distinct_map)
  moreover have "map fst (snd (sc_run ts c)) = ts"
    by (induction ts arbitrary: c) (auto simp: sc_next_def split: prod.splits intro: snd_conv, metis snd_conv)
  ultimately show ?thesis using sc_run_ids[of ts c] by (simp add: sc_current_def)
qed

text \<open>Tokens are conserved.  Over any bounded first-in-first-out queue and any interleaving of threads
  that take tokens and put back tokens they hold, the queued and the held tokens are exactly the tokens
  the queue was made with (so no token is with two threads at once), no \<open>put\<close> is ever rejected, and the
  number of available and held tokens is the capacity.\<close>

lemma tokens_conserved:
  assumes "fifo_queue Q items cap" "token_reach Q tokens s"
  shows "mset (items (sq_queue (ts_queue s))) + mset (map snd (held s)) = mset tokens \<and> rejected s = [] \<and>
    sq_available Q (ts_queue s) + length (held s) = sq_capacity (ts_queue s)"
proof -
  note i = token_invariant[OF assms]
  have "sq_available Q (ts_queue s) = size (mset (items (sq_queue (ts_queue s))))"
    using assms(1) by (simp add: fifo_queue_def sq_available_def)
  moreover have "size (mset (items (sq_queue (ts_queue s)))) + size (mset (map snd (held s))) = size (mset tokens)"
    using i by (metis size_union)
  ultimately show ?thesis using i by simp
qed

text \<open>An array queue as a list with its capacity.\<close>

definition list_queue :: "('a list \<times> nat, 'a) array_queue" where
  "list_queue =
     \<lparr>aq_new = (\<lambda>n. ([], n)),
      aq_push = (\<lambda>x (xs, n). if length xs < n then ((xs @ [x], n), Inr ()) else ((xs, n), Inl x)),
      aq_pop = (\<lambda>(xs, n). case xs of [] \<Rightarrow> (([], n), None) | x # ys \<Rightarrow> ((ys, n), Some x)),
      aq_len = (\<lambda>(xs, n). length xs), aq_is_empty = (\<lambda>(xs, n). xs = [])\<rparr>"

lemma list_queue_fifo: "fifo_queue list_queue fst snd"
  unfolding fifo_queue_def list_queue_def by (auto split: list.splits)

definition tokens_example :: "(char list \<times> nat, nat, char) token_sys" where
  "tokens_example = \<lparr>ts_queue = \<lparr>sq_queue = ([CHR ''b''], 2), sq_capacity = 2\<rparr>, held = [(0, CHR ''a'')], rejected = []\<rparr>"

text \<open>C13.  Bound on requests in flight.  Over any counting semaphore and any interleaving of the updates of
  \<open>acquire\<close>, \<open>try_acquire\<close> and the drop of a permit, the requests that hold a permit number at most
  \<open>max_in_flight\<close>, the reported number in flight counts exactly the active ones and never underflows,
  and the permits not held are available again.\<close>

theorem backpressure_bound:
  assumes "counting_semaphore S" "bp_reach S m s"
  shows "entering s + active s + leaving s \<le> unat m \<and> unat (bp_in_flight (bs_bp s)) = active s \<and> bp_in_flight (bs_bp s) \<le> m \<and>
    unat (bp_available_permits S (bs_bp s)) = unat m - (entering s + active s + leaving s)"
proof -
  note i = permits_invariant[OF assms]
  have "unat m < 2 ^ LENGTH(64)" by (rule unsigned_less)
  then have "active s < 2 ^ 64" using i by simp
  then have "unat (of_nat (active s) :: u64) = active s" by (simp add: unat_of_nat)
  then show ?thesis using i by (auto simp: bp_in_flight_def bp_available_permits_def word_le_nat_alt)
qed

text \<open>A semaphore as its number of permits.\<close>

definition word_semaphore :: "u64 semaphore" where
  "word_semaphore =
     \<lparr>sem_new = (\<lambda>n. if n \<le> MAX_PERMITS then Some n else None), sem_try_acquire = (\<lambda>s. if s = 0 then None else Some (s - 1)),
      sem_release = (\<lambda>s. s + 1), sem_available = (\<lambda>s. s), sem_add_permits = (\<lambda>n s. s + n)\<rparr>"

lemma word_semaphore_counting: "counting_semaphore word_semaphore"
  by (auto simp: counting_semaphore_def word_semaphore_def word_gt_0 not_le)

definition permits_example :: "u64 bp_sys" where
  "permits_example = \<lparr>bs_bp = \<lparr>bp_semaphore = 1, bp_max_in_flight = 2, bp_current_in_flight = 1\<rparr>, entering = 0, active = 1, leaving = 0\<rparr>"

theorem backpressure_bound_witness:
  "entering permits_example + active permits_example + leaving permits_example \<le> unat (2 :: u64) \<and>
    unat (bp_in_flight (bs_bp permits_example)) = active permits_example \<and> bp_in_flight (bs_bp permits_example) \<le> 2 \<and>
    unat (bp_available_permits word_semaphore (bs_bp permits_example)) =
      unat (2 :: u64) - (entering permits_example + active permits_example + leaving permits_example)"
proof -
  let ?s0 = "\<lparr>bs_bp = \<lparr>bp_semaphore = 2, bp_max_in_flight = 2, bp_current_in_flight = 0\<rparr>, entering = 0, active = 0, leaving = 0\<rparr> :: u64 bp_sys"
  let ?s1 = "\<lparr>bs_bp = \<lparr>bp_semaphore = 1, bp_max_in_flight = 2, bp_current_in_flight = 0\<rparr>, entering = 1, active = 0, leaving = 0\<rparr> :: u64 bp_sys"
  have "bp_reach word_semaphore 2 ?s0"
    by (rule bp_reach.init) (simp add: bp_new_def word_semaphore_def MAX_PERMITS_def)
  moreover have "bp_step word_semaphore ?s0 ?s1"
    using bp_step.permit[of word_semaphore ?s0 "\<lparr>bp_semaphore = 1, bp_max_in_flight = 2, bp_current_in_flight = 0\<rparr>"]
    by (simp add: bp_permit_def word_semaphore_def)
  moreover have "bp_step word_semaphore ?s1 permits_example"
    using bp_step.counted[of ?s1 0 word_semaphore] by (simp add: bp_count_def permits_example_def)
  ultimately have "bp_reach word_semaphore 2 permits_example" by (blast intro: bp_reach.step)
  from backpressure_bound[OF word_semaphore_counting this] show ?thesis .
qed

text \<open>The rate limiter never limits.  \<open>acquire\<close> gives its permit back at once, so from a fresh limiter with
  any positive rate any number of requests is let through one after the other without a single tick of
  the replenishing task, and the number of permits is afterwards what it was.\<close>

lemma rate_limiter_never_limits:
  assumes "counting_semaphore S" "0 < rps"
  shows "\<exists>s. rl_new S rps = Some (Some s) \<and> sem_available S s = ucast rps \<and>
    (\<exists>s'. rl_acquires S n (Some s) = Some (Some s') \<and> sem_available S s' = ucast rps)"
proof -
  have u: "unat rps < 2 ^ LENGTH(32)" by (rule unsigned_less)
  then have "unat (ucast rps :: u64) = unat rps" by (simp add: unsigned_ucast_eq take_bit_nat_eq_self)
  then have le: "(ucast rps :: u64) \<le> MAX_PERMITS" and gt: "0 < (ucast rps :: u64)"
    using assms(2) u by (simp_all add: word_le_nat_alt word_less_nat_alt MAX_PERMITS_def)
  obtain s where s: "sem_new S (ucast rps) = Some s"
    using semaphore_laws(2)[OF assms(1), of "ucast rps"] le by (cases "sem_new S (ucast rps)") auto
  then have "sem_available S s = ucast rps" using semaphore_laws(1)[OF assms(1)] by blast
  then show ?thesis using rl_acquires_neutral[OF assms(1), of s n] s le gt assms(2) by (auto simp: rl_new_def)
qed

end
