(* ===== verification/Json.thy ===== *)
theory Json
  imports K6_Prelude
begin

text \<open>
  Values of \<open>serde_json\<close> as the program reads them: \<open>Value\<close> with its accessors.  An object is the
  ordered map of its keys (\<open>serde_json::Map\<close> without \<open>preserve_order\<close>).
\<close>

datatype json_number = PosInt u64 | NegInt int | Float f64

datatype json = JNull | JBool bool | JNumber json_number | JString string | JArray "json list" | JObject "(string \<times> json) list"

type_synonym json_map = "(string \<times> json) list"

fun as_str :: "json \<Rightarrow> string option" where
  "as_str (JString s) = Some s"
| "as_str _ = None"

fun as_bool :: "json \<Rightarrow> bool option" where
  "as_bool (JBool b) = Some b"
| "as_bool _ = None"

fun as_u64 :: "json \<Rightarrow> u64 option" where
  "as_u64 (JNumber (PosInt n)) = Some n"
| "as_u64 _ = None"

fun as_array :: "json \<Rightarrow> json list option" where
  "as_array (JArray xs) = Some xs"
| "as_array _ = None"

fun as_object :: "json \<Rightarrow> json_map option" where
  "as_object (JObject m) = Some m"
| "as_object _ = None"

text \<open>\<open>as_f64\<close> converts every number.\<close>

fun as_f64 :: "json \<Rightarrow> f64 option" where
  "as_f64 (JNumber (PosInt n)) = Some (f_of_u64 n)"
| "as_f64 (JNumber (NegInt n)) = Some (f_of_int n)"
| "as_f64 (JNumber (Float x)) = Some x"
| "as_f64 _ = None"

text \<open>\<open>obj.get(key)\<close>, then an accessor.\<close>

definition get_as :: "(json \<Rightarrow> 'a option) \<Rightarrow> json_map \<Rightarrow> string \<Rightarrow> 'a option" where
  "get_as acc obj key = Option.bind (map_of obj key) acc"

end
