(* ===== verification/Selector.thy ===== *)
theory Selector
  imports K6_Prelude
begin

text \<open>
  Metric selectors (\<open>crates/k6-core/src/selector.rs\<close>): the parser of \<open>name{k:v,...}\<close>, its errors and the
  canonical text.  The main results: the canonical text of a well-formed selector parses back to it,
  and every selector the parser returns is well-formed, so the canonical text is a normal form.
\<close>

section \<open>Data\<close>

type_synonym tag_map = "(string, string) btm"

record metric_selector =
  sel_name :: string
  sel_tags :: tag_map

datatype selector_parse_error =
    EmptyName
  | UnbalancedBraces
  | InvalidName string
  | MalformedTagPair string

section \<open>Operations\<close>

definition contains_reserved :: "string \<Rightarrow> bool" where
  "contains_reserved s \<longleftrightarrow> list_ex (\<lambda>b. b \<in> set ''{}:,'') s"

definition contains_reserved_value :: "string \<Rightarrow> bool" where
  "contains_reserved_value s \<longleftrightarrow> list_ex (\<lambda>b. b = CHR '','') s"

definition selector_new :: "string \<Rightarrow> metric_selector" where
  "selector_new n = \<lparr>sel_name = n, sel_tags = []\<rparr>"

definition with_tag :: "metric_selector \<Rightarrow> string \<Rightarrow> string \<Rightarrow> metric_selector" where
  "with_tag s k v = s\<lparr>sel_tags := bt_put k v (sel_tags s)\<rparr>"

text \<open>The loop over \<open>inner.split(',')\<close>, with the tags collected so far.\<close>

fun parse_tag_pairs :: "string list \<Rightarrow> tag_map \<Rightarrow> selector_parse_error + tag_map" where
  "parse_tag_pairs [] tags = Inr tags"
| "parse_tag_pairs (pair # pairs) tags =
     (let pair_trim = trim pair
      in if pair_trim = [] then Inl (MalformedTagPair pair_trim)
         else case split_once (CHR '':'') pair_trim of
             (k, None) \<Rightarrow> Inl (MalformedTagPair pair_trim)
           | (k, Some value_raw) \<Rightarrow>
               (let key = trim k; val = trim value_raw
                in if key = [] then Inl (MalformedTagPair pair_trim)
                   else if contains_reserved key \<or> contains_reserved_value val
                     then Inl (MalformedTagPair pair_trim)
                   else if map_of tags key \<noteq> None
                     then Inl (MalformedTagPair (''duplicate key: '' @ key))
                   else parse_tag_pairs pairs (bt_put key val tags)))"

definition selector_parse :: "string \<Rightarrow> selector_parse_error + metric_selector" where
  "selector_parse text =
     (let s = trim text
      in if s = [] then Inl EmptyName
         else case find_char (CHR ''{'') s of
             None \<Rightarrow>
               if CHR ''}'' \<in> set s then Inl UnbalancedBraces
               else if contains_reserved s then Inl (InvalidName s)
               else Inr (selector_new s)
           | Some op \<Rightarrow>
               (let name = trim (take op s)
                in if name = [] then Inl EmptyName
                   else if contains_reserved name then Inl (InvalidName name)
                   else case rfind_char (CHR ''}'') s of
                       None \<Rightarrow> Inl UnbalancedBraces
                     | Some cl \<Rightarrow>
                         if cl < op then Inl UnbalancedBraces
                         else if trim (drop (cl + 1) s) \<noteq> [] then Inl UnbalancedBraces
                         else
                           (let inner = drop (op + 1) (take cl s)
                            in if trim inner = [] then Inr \<lparr>sel_name = name, sel_tags = []\<rparr>
                               else case parse_tag_pairs (split_on (CHR '','') inner) [] of
                                   Inl e \<Rightarrow> Inl e
                                 | Inr tags \<Rightarrow> Inr \<lparr>sel_name = name, sel_tags = tags\<rparr>)))"

definition pair_text :: "string \<times> string \<Rightarrow> string" where
  "pair_text p = fst p @ CHR '':'' # snd p"

definition canonical :: "metric_selector \<Rightarrow> string" where
  "canonical s =
     (if sel_tags s = [] then sel_name s
      else sel_name s @ ''{'' @ join '','' (map pair_text (sel_tags s)) @ ''}'')"

section \<open>Well-formed selectors\<close>

text \<open>What the grammar at the head of \<open>selector.rs\<close> allows in a name, a key and a value.\<close>

definition name_ok :: "string \<Rightarrow> bool" where
  "name_ok s \<longleftrightarrow> s \<noteq> [] \<and> trimmed s \<and> \<not> contains_reserved s"

definition value_ok :: "string \<Rightarrow> bool" where
  "value_ok s \<longleftrightarrow> trimmed s \<and> \<not> contains_reserved_value s"

definition tags_ok :: "tag_map \<Rightarrow> bool" where
  "tags_ok m \<longleftrightarrow> bt_wf m \<and> (\<forall>p \<in> set m. name_ok (fst p) \<and> value_ok (snd p))"

definition selector_wf :: "metric_selector \<Rightarrow> bool" where
  "selector_wf s \<longleftrightarrow> name_ok (sel_name s) \<and> tags_ok (sel_tags s)"

lemma reserved_sets:
  "\<not> contains_reserved s \<longleftrightarrow> CHR ''{'' \<notin> set s \<and> CHR ''}'' \<notin> set s \<and> CHR '':'' \<notin> set s \<and> CHR '','' \<notin> set s"
  "\<not> contains_reserved_value s \<longleftrightarrow> CHR '','' \<notin> set s"
  by (auto simp: contains_reserved_def contains_reserved_value_def list_ex_iff)

lemma name_ok_sets: "name_ok s \<Longrightarrow> CHR ''{'' \<notin> set s \<and> CHR ''}'' \<notin> set s \<and> CHR '':'' \<notin> set s \<and> CHR '','' \<notin> set s"
  by (simp add: name_ok_def reserved_sets)

lemma sep_ascii [simp]:
  "is_ascii (CHR ''{'')" "is_ascii (CHR ''}'')" "is_ascii (CHR '':'')" "is_ascii (CHR '','')"
  "\<not> ascii_ws (CHR ''{'')" "\<not> ascii_ws (CHR ''}'')" "\<not> ascii_ws (CHR '':'')" "\<not> ascii_ws (CHR '','')"
  by (simp_all add: is_ascii_def ascii_ws_def)

lemma tags_ok_put: "tags_ok m \<Longrightarrow> name_ok k \<Longrightarrow> value_ok v \<Longrightarrow> tags_ok (bt_put k v m)"
proof -
  assume a: "tags_ok m" "name_ok k" "value_ok v"
  have "set (bt_put k v m) \<subseteq> insert (k, v) (set m)" by (induction m) auto
  then show ?thesis using a by (auto simp: tags_ok_def)
qed

section \<open>What the parser returns is well-formed\<close>

lemma parse_tag_pairs_ok: "parse_tag_pairs ps tags = Inr t \<Longrightarrow> tags_ok tags \<Longrightarrow> tags_ok t"
proof (induction ps arbitrary: tags)
  case (Cons pair pairs)
  show ?case
  proof (cases "split_once (CHR '':'') (trim pair)")
    case (Pair k v)
    with Cons.prems obtain val where v: "v = Some val"
      and ok: "trim k \<noteq> []" "\<not> contains_reserved (trim k)" "\<not> contains_reserved_value (trim val)"
      and rest: "parse_tag_pairs pairs (bt_put (trim k) (trim val) tags) = Inr t"
      by (auto simp: Let_def split: if_splits option.splits)
    have "tags_ok (bt_put (trim k) (trim val) tags)"
      using ok Cons.prems(2) by (intro tags_ok_put) (simp_all add: name_ok_def value_ok_def)
    with rest show ?thesis by (rule Cons.IH)
  qed
qed simp

lemma selector_parse_ok:
  assumes "selector_parse text = Inr s" shows "selector_wf s"
proof -
  have nil: "tags_ok []" by (simp add: tags_ok_def)
  show ?thesis
  proof (cases "find_char (CHR ''{'') (trim text)")
    case None
    with assms have "s = selector_new (trim text)" "trim text \<noteq> []" "\<not> contains_reserved (trim text)"
      by (auto simp: selector_parse_def Let_def split: if_splits)
    then show ?thesis using nil by (simp add: selector_wf_def selector_new_def name_ok_def)
  next
    case (Some op)
    with assms obtain tags where s: "s = \<lparr>sel_name = trim (take op (trim text)), sel_tags = tags\<rparr>"
      and n: "trim (take op (trim text)) \<noteq> []" "\<not> contains_reserved (trim (take op (trim text)))"
      and t: "tags = [] \<or> (\<exists>ps. parse_tag_pairs ps [] = Inr tags)"
      by (auto simp: selector_parse_def Let_def split: if_splits option.splits sum.splits)
    have "tags_ok tags" using t parse_tag_pairs_ok[OF _ nil] nil by blast
    then show ?thesis using n by (simp add: s selector_wf_def name_ok_def)
  qed
qed

section \<open>The canonical text parses back\<close>

lemma pair_text_trimmed: "name_ok (fst p) \<Longrightarrow> value_ok (snd p) \<Longrightarrow> trimmed (pair_text p)"
  unfolding pair_text_def by (rule trimmed_sep) (simp_all add: name_ok_def value_ok_def)

lemma pair_text_facts:
  assumes "name_ok (fst p)" "value_ok (snd p)"
  shows "pair_text p \<noteq> []" "CHR '','' \<notin> set (pair_text p)" "split_once (CHR '':'') (pair_text p) = (fst p, Some (snd p))"
  using assms name_ok_sets[OF assms(1)] by (simp_all add: pair_text_def value_ok_def reserved_sets split_once_first)

lemma join_trimmed:
  assumes "is_ascii c" "\<not> ascii_ws c" "\<forall>x \<in> set xs. trimmed x \<and> x \<noteq> []"
  shows "trimmed (join [c] xs)"
  using assms(3) by (induction "[c]" xs rule: join.induct) (auto intro!: trimmed_sep simp: assms(1,2))

lemma parse_tag_pairs_text:
  assumes "tags_ok (pre @ m)"
  shows "parse_tag_pairs (map pair_text m) pre = Inr (pre @ m)"
  using assms
proof (induction m arbitrary: pre)
  case (Cons p m)
  obtain k v where p: "p = (k, v)" by fastforce
  have ok: "name_ok k" "value_ok v" and wf: "bt_wf (pre @ p # m)" using Cons.prems by (auto simp: tags_ok_def p)
  note t = pair_text_trimmed[of p] pair_text_facts[of p]
  have lt: "\<forall>q \<in> set pre. fst q < k" using wf by (auto simp: bt_wf_def sorted_wrt_append p)
  have put: "bt_put k v pre = pre @ [(k, v)]" using lt by (induction pre) auto
  have new: "map_of pre k = None" using lt by (auto simp: map_of_eq_None_iff)
  have "trimmed k" "k \<noteq> []" "trimmed v" "\<not> contains_reserved k" "\<not> contains_reserved_value v"
    using ok by (auto simp: name_ok_def value_ok_def)
  then have "parse_tag_pairs (map pair_text (p # m)) pre = parse_tag_pairs (map pair_text m) (pre @ [p])"
    using t ok new by (simp add: p put Let_def)
  also have "\<dots> = Inr ((pre @ [p]) @ m)" using Cons.prems by (intro Cons.IH) simp
  finally show ?case by simp
qed simp

lemma selector_parse_untagged: "name_ok n \<Longrightarrow> selector_parse n = Inr (selector_new n)"
  using name_ok_sets[of n] by (simp add: selector_parse_def name_ok_def Let_def find_char_def)

lemma selector_parse_canonical:
  assumes wf: "selector_wf s" shows "selector_parse (canonical s) = Inr s"
proof (cases "sel_tags s = []")
  case True
  then show ?thesis using wf selector_parse_untagged[of "sel_name s"]
    by (simp add: canonical_def selector_wf_def selector_new_def)
next
  case False
  let ?n = "sel_name s" and ?m = "sel_tags s"
  let ?in = "join '','' (map pair_text ?m)"
  have n: "name_ok ?n" and m: "tags_ok ?m" using wf by (simp_all add: selector_wf_def)
  have ps: "\<forall>x \<in> set (map pair_text ?m). trimmed x \<and> x \<noteq> []" and pc: "\<forall>x \<in> set (map pair_text ?m). CHR '','' \<notin> set x"
    using m pair_text_trimmed pair_text_facts by (auto simp: tags_ok_def)
  have it: "trimmed ?in" using join_trimmed[OF _ _ ps] by simp
  have ine: "?in \<noteq> []" using False ps by (cases "map pair_text ?m"; cases "tl (map pair_text ?m)") auto
  have sp: "split_on (CHR '','') ?in = map pair_text ?m" using False pc by (intro split_on_join) auto
  have pp: "parse_tag_pairs (map pair_text ?m) [] = Inr ?m" using parse_tag_pairs_text[of "[]" ?m] m by simp
  have c: "canonical s = ?n @ CHR ''{'' # (?in @ [CHR ''}''])" using False by (simp add: canonical_def)
  have "?n \<noteq> []" "\<not> front_ws ?n" "trimmed ?n" using n by (auto simp: name_ok_def trimmed_iff)
  then have "trimmed (canonical s)"
    using back_ws_last[of "CHR ''}''" "?n @ CHR ''{'' # ?in"] front_ws_sep[of "CHR ''{''" ?n] by (simp add: trimmed_iff c)
  moreover have "find_char (CHR ''{'') (canonical s) = Some (length ?n)"
    unfolding c using name_ok_sets[OF n] by (simp add: find_char_first)
  moreover have "rfind_char (CHR ''}'') (canonical s) = Some (length ?n + length ?in + 1)"
    using rfind_char_last[of "CHR ''}''" "[]" "?n @ CHR ''{'' # ?in"] by (simp add: c)
  moreover have "canonical s \<noteq> []" by (simp add: c)
  ultimately show ?thesis
    using n it ine sp pp \<open>trimmed ?n\<close> by (simp add: selector_parse_def Let_def c name_ok_def)
qed

lemma canonical_inj: "selector_wf a \<Longrightarrow> selector_wf b \<Longrightarrow> canonical a = canonical b \<Longrightarrow> a = b"
  using selector_parse_canonical by (metis sum.inject(2))

section \<open>Properties\<close>

text \<open>C26.  Round trip of the selector grammar.  Any selector whose name, keys and values obey the
  grammar, whatever braces and colons its values hold, is read back from its canonical text.\<close>

theorem selector_roundtrip:
  assumes "selector_wf s" shows "selector_parse (canonical s) = Inr s"
  using assms by (rule selector_parse_canonical)

definition example_selector :: metric_selector where
  "example_selector = \<lparr>sel_name = ''http_reqs'', sel_tags = [(''method'', ''GET''), (''url'', ''ws://h:{1}'')]\<rparr>"

theorem selector_roundtrip_witness:
  "selector_wf example_selector \<and> selector_parse (canonical example_selector) = Inr example_selector \<and>
   canonical example_selector = ''http_reqs{method:GET,url:ws://h:{1}}''"
proof -
  have w: "selector_wf example_selector" by code_simp
  show ?thesis using w selector_roundtrip[OF w] by (auto simp: example_selector_def canonical_def pair_text_def)
qed

text \<open>The canonical text is a normal form of selector text.  Whatever text the parser accepts
  (any tag order, any surrounding white space), its selector is well-formed, its canonical text parses
  to the same selector, and two accepted texts denote the same selector exactly when their canonical
  texts agree.\<close>

lemma selector_normal_form:
  assumes "selector_parse t1 = Inr s1" and "selector_parse t2 = Inr s2"
  shows "selector_wf s1 \<and> selector_parse (canonical s1) = Inr s1 \<and> (canonical s1 = canonical s2 \<longleftrightarrow> s1 = s2)"
proof -
  have w: "selector_wf s1" "selector_wf s2" using assms selector_parse_ok by blast+
  then show ?thesis using selector_parse_canonical[OF w(1)] canonical_inj[OF w] by auto
qed

end
