(* ===== verification/EventStream.thy ===== *)
theory EventStream
  imports Selector
begin

text \<open>
  The JSON event stream (\<open>crates/k6-core/src/output/event_stream.rs\<close>): producers queue metric
  definitions and try to send samples on a bounded channel, one writer task drains both into the
  output file.  The operations are defined one by one, with \<open>tokio::sync::mpsc\<close> as a parameter, and
  composed into a step relation over any interleaving of producers and writer.  The results: no
  sample line precedes the definition line of its metric, no definition is written twice, every
  accepted sample is written exactly once and in order, and the drop counters add up.
\<close>

section \<open>Data\<close>

datatype metric_kind = Counter | Gauge | Rate | Trend

fun kind_str :: "metric_kind \<Rightarrow> string" where
  "kind_str Counter = ''counter''"
| "kind_str Gauge = ''gauge''"
| "kind_str Rate = ''rate''"
| "kind_str Trend = ''trend''"

definition classify_contains :: "metric_kind \<Rightarrow> string \<Rightarrow> string" where
  "classify_contains kind name =
     (if name = ''data_sent'' \<or> name = ''data_received'' \<or> starts_with ''ws_msgs_'' name
      then (if starts_with ''ws_msgs_'' name then ''default'' else ''data'')
      else if kind = Trend \<and> (starts_with ''http_req'' name \<or> find_str ''duration'' name \<noteq> None \<or>
          starts_with ''grpc_req'' name \<or> starts_with ''ws_connecting'' name \<or> starts_with ''ws_ping'' name)
      then ''time''
      else ''default'')"

text \<open>The time stamp is a number of nanoseconds; nothing in the component computes with it.\<close>

record sink_event =
  ev_name :: string
  ev_kind :: metric_kind
  ev_time :: int
  ev_value :: f64
  ev_tags :: tag_map

record metric_def =
  def_name :: string
  def_kind :: metric_kind
  def_contains :: string

record def_state =
  seen :: "string set"
  def_queue :: "metric_def list"

record drop_state =
  drop_total :: u64
  drop_per_metric :: "(string, u64) hm"
  peak_occupancy :: u64
  drop_capacity :: u64

text \<open>The bounded channel of \<open>tokio::sync::mpsc\<close>: what the sender sees (\<open>max_capacity() - capacity()\<close>
  and \<open>try_send\<close>) and what \<open>recv\<close> gives the writer (\<open>None\<close> while nothing is buffered).\<close>

datatype send_result = Sent | Full | Closed

record 'c mpsc =
  mp_occupancy :: "'c \<Rightarrow> u64"
  mp_try_send :: "sink_event \<Rightarrow> 'c \<Rightarrow> 'c \<times> send_result"
  mp_recv :: "'c \<Rightarrow> (sink_event \<times> 'c) option"

record 'c event_sink =
  snk_tx :: 'c
  snk_defs :: def_state
  snk_drops :: drop_state

section \<open>Producer side\<close>

definition drop_state_new :: "u64 \<Rightarrow> drop_state" where
  "drop_state_new cap = \<lparr>drop_total = 0, drop_per_metric = [], peak_occupancy = 0, drop_capacity = cap\<rparr>"

definition record_drop :: "string \<Rightarrow> drop_state \<Rightarrow> drop_state" where
  "record_drop name d =
     d\<lparr>drop_total := drop_total d + 1,
       drop_per_metric := hm_put name ((case map_of (drop_per_metric d) name of None \<Rightarrow> 0 | Some n \<Rightarrow> n) + 1)
         (drop_per_metric d)\<rparr>"

definition observe_occupancy :: "u64 \<Rightarrow> drop_state \<Rightarrow> drop_state" where
  "observe_occupancy n d = d\<lparr>peak_occupancy := max (peak_occupancy d) n\<rparr>"

text \<open>Step 1 of \<open>try_record\<close>, atomic under the \<open>DefState\<close> mutex.\<close>

definition ensure_def :: "sink_event \<Rightarrow> def_state \<Rightarrow> def_state" where
  "ensure_def ev st =
     (if ev_name ev \<in> seen st then st
      else st\<lparr>seen := insert (ev_name ev) (seen st),
              def_queue := def_queue st @
                [\<lparr>def_name = ev_name ev, def_kind = ev_kind ev,
                  def_contains = classify_contains (ev_kind ev) (ev_name ev)\<rparr>]\<rparr>)"

text \<open>Step 2 of \<open>try_record\<close>: the occupancy is observed, then the sample is offered to the channel.\<close>

definition send_point :: "'c mpsc \<Rightarrow> sink_event \<Rightarrow> 'c event_sink \<Rightarrow> 'c event_sink \<times> send_result" where
  "send_point M ev k =
     (let d = observe_occupancy (mp_occupancy M (snk_tx k)) (snk_drops k)
      in case mp_try_send M ev (snk_tx k) of
           (c, Sent) \<Rightarrow> (k\<lparr>snk_tx := c, snk_drops := d\<rparr>, Sent)
         | (c, Full) \<Rightarrow> (k\<lparr>snk_tx := c, snk_drops := record_drop (ev_name ev) d\<rparr>, Full)
         | (c, Closed) \<Rightarrow> (k\<lparr>snk_tx := c, snk_drops := d\<rparr>, Closed))"

definition try_record :: "'c mpsc \<Rightarrow> sink_event \<Rightarrow> 'c event_sink \<Rightarrow> 'c event_sink" where
  "try_record M ev k = fst (send_point M ev (k\<lparr>snk_defs := ensure_def ev (snk_defs k)\<rparr>))"

definition sink_build :: "'c \<Rightarrow> u64 \<Rightarrow> 'c event_sink" where
  "sink_build c cap = \<lparr>snk_tx = c, snk_defs = \<lparr>seen = {}, def_queue = []\<rparr>, snk_drops = drop_state_new cap\<rparr>"

section \<open>Writer side\<close>

datatype stream_line = MetricLine metric_def | PointLine sink_event

definition flush_defs :: "def_state \<Rightarrow> def_state \<times> stream_line list" where
  "flush_defs st = (st\<lparr>def_queue := []\<rparr>, map MetricLine (def_queue st))"

definition emit_points :: "sink_event list \<Rightarrow> stream_line list" where
  "emit_points batch = map PointLine batch"

definition BATCH_LIMIT :: nat where
  "BATCH_LIMIT = 8192"

section \<open>The running system\<close>

text \<open>
  Producers are threads somewhere between the two steps of \<open>try_record\<close> (\<open>in_flight\<close> holds the
  samples past step 1).  The writer's loop body is cut where other threads can run in between: it
  receives samples one at a time, leaves the window at any time (the deadline), flushes the
  definitions, then emits its batch.  \<open>accepted\<close> and \<open>offered\<close> are history variables.
\<close>

datatype writer_phase = Window | Flushed | Done

record 'c stream_sys =
  sys_sink :: "'c event_sink"
  in_flight :: "sink_event list"
  senders :: bool
  batch :: "sink_event list"
  phase :: writer_phase
  channel_closed :: bool
  out_file :: "stream_line list"
  accepted :: "sink_event list"
  offered :: "sink_event list"

definition stream_init :: "'c \<Rightarrow> u64 \<Rightarrow> 'c stream_sys" where
  "stream_init c cap =
     \<lparr>sys_sink = sink_build c cap, in_flight = [], senders = True, batch = [], phase = Window,
      channel_closed = False, out_file = [], accepted = [], offered = []\<rparr>"

inductive stream_step :: "'c mpsc \<Rightarrow> 'c stream_sys \<Rightarrow> 'c stream_sys \<Rightarrow> bool" for M where
  record_def: "senders s \<Longrightarrow>
     stream_step M s (s\<lparr>sys_sink := (sys_sink s)\<lparr>snk_defs := ensure_def ev (snk_defs (sys_sink s))\<rparr>,
                        in_flight := ev # in_flight s, offered := ev # offered s\<rparr>)"
| record_point: "ev \<in> set (in_flight s) \<Longrightarrow> send_point M ev (sys_sink s) = (k, r) \<Longrightarrow>
     stream_step M s (s\<lparr>sys_sink := k, in_flight := remove1 ev (in_flight s),
                        accepted := accepted s @ (if r = Sent then [ev] else [])\<rparr>)"
| drop_senders: "in_flight s = [] \<Longrightarrow> stream_step M s (s\<lparr>senders := False\<rparr>)"
| recv: "phase s = Window \<Longrightarrow> length (batch s) < BATCH_LIMIT \<Longrightarrow>
     mp_recv M (snk_tx (sys_sink s)) = Some (ev, c) \<Longrightarrow>
     stream_step M s (s\<lparr>sys_sink := (sys_sink s)\<lparr>snk_tx := c\<rparr>, batch := batch s @ [ev]\<rparr>)"
| recv_closed: "phase s = Window \<Longrightarrow> \<not> senders s \<Longrightarrow> mp_recv M (snk_tx (sys_sink s)) = None \<Longrightarrow>
     stream_step M s (s\<lparr>channel_closed := True\<rparr>)"
| flush: "phase s = Window \<Longrightarrow> flush_defs (snk_defs (sys_sink s)) = (st, ls) \<Longrightarrow>
     stream_step M s (s\<lparr>sys_sink := (sys_sink s)\<lparr>snk_defs := st\<rparr>, out_file := out_file s @ ls, phase := Flushed\<rparr>)"
| emit: "phase s = Flushed \<Longrightarrow>
     stream_step M s (s\<lparr>out_file := out_file s @ emit_points (batch s), batch := [],
                        phase := (if channel_closed s then Done else Window)\<rparr>)"

inductive stream_reach :: "'c mpsc \<Rightarrow> 'c \<Rightarrow> u64 \<Rightarrow> 'c stream_sys \<Rightarrow> bool" for M c cap where
  init: "stream_reach M c cap (stream_init c cap)"
| step: "stream_reach M c cap s \<Longrightarrow> stream_step M s t \<Longrightarrow> stream_reach M c cap t"

text \<open>The documented behaviour of the channel the writer relies on: first in, first out, nothing
  lost or invented, and \<open>recv\<close> finds nothing only when nothing is buffered.\<close>

definition fifo_channel :: "'c mpsc \<Rightarrow> ('c \<Rightarrow> sink_event list) \<Rightarrow> bool" where
  "fifo_channel M buf \<longleftrightarrow>
     (\<forall>ev c c' r. mp_try_send M ev c = (c', r) \<longrightarrow> buf c' = (if r = Sent then buf c @ [ev] else buf c)) \<and>
     (\<forall>c ev c'. mp_recv M c = Some (ev, c') \<longrightarrow> buf c = ev # buf c') \<and>
     (\<forall>c. mp_recv M c = None \<longrightarrow> buf c = [])"

fun line_def :: "stream_line \<Rightarrow> string list" where
  "line_def (MetricLine d) = [def_name d]"
| "line_def (PointLine e) = []"

fun line_point :: "stream_line \<Rightarrow> sink_event list" where
  "line_point (MetricLine d) = []"
| "line_point (PointLine e) = [e]"

definition file_defs :: "stream_line list \<Rightarrow> string list" where
  "file_defs ls = concat (map line_def ls)"

definition file_points :: "stream_line list \<Rightarrow> sink_event list" where
  "file_points ls = concat (map line_point ls)"

text \<open>Every sample line comes after the definition line of its metric.\<close>

fun defs_precede :: "string set \<Rightarrow> stream_line list \<Rightarrow> bool" where
  "defs_precede S [] = True"
| "defs_precede S (MetricLine d # ls) = defs_precede (insert (def_name d) S) ls"
| "defs_precede S (PointLine e # ls) = (ev_name e \<in> S \<and> defs_precede S ls)"

section \<open>Invariants\<close>

lemma file_defs_simps [simp]:
  "file_defs [] = []" "file_defs (as @ bs) = file_defs as @ file_defs bs"
  "file_defs (map MetricLine ds) = map def_name ds" "file_defs (map PointLine es) = []"
  by (induction ds; simp add: file_defs_def)+

lemma file_points_simps [simp]:
  "file_points [] = []" "file_points (as @ bs) = file_points as @ file_points bs"
  "file_points (map MetricLine ds) = []" "file_points (map PointLine es) = es"
  by (induction es; simp add: file_points_def)+

lemma defs_precede_append:
  "defs_precede S (as @ bs) \<longleftrightarrow> defs_precede S as \<and> defs_precede (S \<union> set (file_defs as)) bs"
  by (induction S as rule: defs_precede.induct) (auto simp: file_defs_def)

lemma defs_precede_defs [simp]: "defs_precede S (map MetricLine ds)"
  by (induction ds arbitrary: S) auto

lemma defs_precede_points [simp]: "defs_precede S (map PointLine es) \<longleftrightarrow> ev_name ` set es \<subseteq> S"
  by (induction es) auto

lemma send_point_defs [simp]: "snk_defs (fst (send_point M ev k)) = snk_defs k"
  by (auto simp: send_point_def Let_def split: prod.splits send_result.splits)

definition def_inv :: "'c mpsc \<Rightarrow> ('c \<Rightarrow> sink_event list) \<Rightarrow> 'c stream_sys \<Rightarrow> bool" where
  "def_inv M buf s \<longleftrightarrow>
     (let d = snk_defs (sys_sink s); written = file_defs (out_file s); queued = map def_name (def_queue d)
      in seen d = set written \<union> set queued \<and> distinct (written @ queued) \<and>
         ev_name ` set (in_flight s @ buf (snk_tx (sys_sink s)) @ batch s) \<subseteq> seen d \<and>
         (phase s = Flushed \<longrightarrow> ev_name ` set (batch s) \<subseteq> set written) \<and>
         defs_precede {} (out_file s))"

lemma def_inv_init: "buf c = [] \<Longrightarrow> def_inv M buf (stream_init c cap)"
  by (simp add: def_inv_def stream_init_def sink_build_def)

lemma send_point_buf:
  assumes "fifo_channel M buf" "send_point M ev k = (k', r)"
  shows "buf (snk_tx k') = buf (snk_tx k) @ (if r = Sent then [ev] else [])" "snk_defs k' = snk_defs k"
  using assms by (auto simp: send_point_def fifo_channel_def Let_def split: prod.splits send_result.splits)

lemma def_inv_step:
  assumes ch: "fifo_channel M buf" and st: "stream_step M s t" and inv: "def_inv M buf s"
  shows "def_inv M buf t"
  using st
proof cases
  case (record_def ev)
  then show ?thesis using inv by (auto simp: def_inv_def Let_def ensure_def_def)
next
  case (record_point ev k r)
  note b = send_point_buf[OF ch record_point(3)]
  have sub: "set (remove1 ev (in_flight s)) \<subseteq> set (in_flight s)" by (rule set_remove1_subset)
  have names: "ev_name ` set (in_flight s @ buf (snk_tx (sys_sink s)) @ batch s) \<subseteq> seen (snk_defs (sys_sink s))"
    using inv unfolding def_inv_def Let_def by blast
  have "set (remove1 ev (in_flight s) @ buf (snk_tx k) @ batch s)
      \<subseteq> set (in_flight s @ buf (snk_tx (sys_sink s)) @ batch s)"
    using sub record_point(2) by (auto simp: b)
  with names have "ev_name ` set (remove1 ev (in_flight s) @ buf (snk_tx k) @ batch s) \<subseteq> seen (snk_defs (sys_sink s))"
    by blast
  then show ?thesis using inv record_point(1) b by (auto simp: def_inv_def Let_def)
next
  case (recv ev c)
  then have "buf (snk_tx (sys_sink s)) = ev # buf c" using ch by (auto simp: fifo_channel_def)
  then show ?thesis using inv recv by (auto simp: def_inv_def Let_def)
next
  case (flush st ls)
  then show ?thesis using inv
    by (auto simp: def_inv_def Let_def flush_defs_def defs_precede_append)
next
  case emit
  then show ?thesis using inv
    by (auto simp: def_inv_def Let_def emit_points_def defs_precede_append)
qed (use inv in \<open>auto simp: def_inv_def Let_def\<close>)

lemma def_inv_reach:
  assumes "fifo_channel M buf" "buf c = []"
  shows "stream_reach M c cap s \<Longrightarrow> def_inv M buf s"
  by (induction rule: stream_reach.induct) (auto intro: def_inv_init def_inv_step assms)

text \<open>Conservation of samples: what was accepted is in the file, the batch or the channel, in order.\<close>

definition flow_inv :: "('c \<Rightarrow> sink_event list) \<Rightarrow> 'c stream_sys \<Rightarrow> bool" where
  "flow_inv buf s \<longleftrightarrow>
     accepted s = file_points (out_file s) @ batch s @ buf (snk_tx (sys_sink s)) \<and>
     (channel_closed s \<longrightarrow> buf (snk_tx (sys_sink s)) = [] \<and> \<not> senders s) \<and>
     (\<not> senders s \<longrightarrow> in_flight s = []) \<and>
     (phase s = Done \<longrightarrow> channel_closed s \<and> batch s = [])"

lemma flow_inv_step:
  assumes ch: "fifo_channel M buf" and st: "stream_step M s t" and inv: "flow_inv buf s"
  shows "flow_inv buf t"
  using st
proof cases
  case (record_point ev k r)
  note b = send_point_buf[OF ch record_point(3)]
  have "senders s" using inv record_point(2) by (auto simp: flow_inv_def)
  then show ?thesis using inv record_point(1,2) b by (auto simp: flow_inv_def)
next
  case (recv ev c)
  then have "buf (snk_tx (sys_sink s)) = ev # buf c" using ch by (auto simp: fifo_channel_def)
  then show ?thesis using inv recv by (auto simp: flow_inv_def)
next
  case recv_closed
  then have "buf (snk_tx (sys_sink s)) = []" using ch by (auto simp: fifo_channel_def)
  then show ?thesis using inv recv_closed by (auto simp: flow_inv_def)
qed (use inv in \<open>auto simp: flow_inv_def flush_defs_def emit_points_def\<close>)

lemma flow_inv_reach:
  assumes "fifo_channel M buf" "buf c = []"
  shows "stream_reach M c cap s \<Longrightarrow> flow_inv buf s"
proof (induction rule: stream_reach.induct)
  case init
  show ?case using assms by (simp add: flow_inv_def stream_init_def sink_build_def)
qed (auto intro: flow_inv_step assms)

text \<open>The drop counters.\<close>

definition drop_inv :: "drop_state \<Rightarrow> bool" where
  "drop_inv d \<longleftrightarrow> hm_wf (drop_per_metric d) \<and> drop_total d = sum_list (map snd (drop_per_metric d))"

lemma sum_list_update:
  fixes m :: "('k \<times> 'v::ab_group_add) list"
  assumes "distinct (map fst m)"
  shows "sum_list (map snd (AList.update k v m)) =
     sum_list (map snd m) + v - (case map_of m k of None \<Rightarrow> 0 | Some w \<Rightarrow> w)"
  using assms
proof (induction m)
  case (Cons p m)
  then show ?case by (cases p) (auto simp: algebra_simps map_of_eq_None_iff split: option.splits)
qed simp

lemma drop_inv_record: "drop_inv d \<Longrightarrow> drop_inv (record_drop n d)"
  by (auto simp: drop_inv_def record_drop_def hm_put_def sum_list_update hm_wf_def distinct_update
      split: option.splits)

lemma drop_inv_send: "drop_inv (snk_drops k) \<Longrightarrow> drop_inv (snk_drops (fst (send_point M ev k)))"
  using drop_inv_record[of "observe_occupancy (mp_occupancy M (snk_tx k)) (snk_drops k)" "ev_name ev"]
  by (auto simp: send_point_def Let_def drop_inv_def observe_occupancy_def split: prod.splits send_result.splits)

definition account_inv :: "'c stream_sys \<Rightarrow> bool" where
  "account_inv s \<longleftrightarrow> drop_inv (snk_drops (sys_sink s)) \<and>
     (of_nat (length (offered s)) :: u64) =
       of_nat (length (accepted s)) + of_nat (length (in_flight s)) + drop_total (snk_drops (sys_sink s))"

lemma send_point_total:
  assumes "send_point M ev k = (k', r)"
  shows "drop_total (snk_drops k') = drop_total (snk_drops k) + (if r = Full then 1 else 0)"
    and "snd (mp_try_send M ev (snk_tx k)) = r"
  using assms by (auto simp: send_point_def Let_def record_drop_def observe_occupancy_def
      split: prod.splits send_result.splits)

lemma account_inv_step:
  assumes nc: "\<forall>ev c. snd (mp_try_send M ev c) \<noteq> Closed" and st: "stream_step M s t" and inv: "account_inv s"
  shows "account_inv t"
  using st
proof cases
  case (record_point ev k r)
  have "length (in_flight s) = Suc (length (remove1 ev (in_flight s)))"
    using record_point(2) by (simp add: length_remove1) (metis Suc_pred length_pos_if_in_set)
  moreover have "r \<noteq> Closed" using nc send_point_total(2)[OF record_point(3)] by metis
  moreover have "drop_inv (snk_drops k)" using inv drop_inv_send[of "sys_sink s" M ev] record_point(3)
    by (simp add: account_inv_def)
  ultimately show ?thesis using inv record_point(1) send_point_total(1)[OF record_point(3)]
    by (cases r) (simp_all add: account_inv_def)
qed (use inv in \<open>auto simp: account_inv_def\<close>)

lemma account_inv_reach:
  assumes "\<forall>ev c. snd (mp_try_send M ev c) \<noteq> Closed"
  shows "stream_reach M c cap s \<Longrightarrow> account_inv s"
proof (induction rule: stream_reach.induct)
  case init
  show ?case by (simp add: account_inv_def stream_init_def sink_build_def drop_state_new_def drop_inv_def hm_wf_def)
next
  case (step s t)
  show ?case by (rule account_inv_step[OF assms step(2) step(3)])
qed

section \<open>Properties\<close>

text \<open>A channel of capacity \<open>n\<close> as a list, at which the hypotheses on \<open>tokio::sync::mpsc\<close> hold.\<close>

definition list_channel :: "nat \<Rightarrow> sink_event list mpsc" where
  "list_channel n =
     \<lparr>mp_occupancy = (\<lambda>c. of_nat (length c)),
      mp_try_send = (\<lambda>ev c. if length c < n then (c @ [ev], Sent) else (c, Full)),
      mp_recv = (\<lambda>c. case c of [] \<Rightarrow> None | e # r \<Rightarrow> Some (e, r))\<rparr>"

lemma list_channel_fifo: "fifo_channel (list_channel n) id"
  by (auto simp: fifo_channel_def list_channel_def split: list.splits if_splits)

lemma list_channel_open: "\<forall>ev c. snd (mp_try_send (list_channel n) ev c) \<noteq> Closed"
  by (simp add: list_channel_def)

definition example_event :: sink_event where
  "example_event = \<lparr>ev_name = ''vus'', ev_kind = Gauge, ev_time = 7, ev_value = flit 3, ev_tags = []\<rparr>"

text \<open>The example run: one sample is recorded, received and written, and the writer stops.\<close>

definition example_final :: "sink_event list stream_sys" where
  "example_final =
     \<lparr>sys_sink = \<lparr>snk_tx = [], snk_defs = \<lparr>seen = {''vus''}, def_queue = []\<rparr>,
                  snk_drops = drop_state_new 1\<rparr>,
      in_flight = [], senders = False, batch = [], phase = Done, channel_closed = True,
      out_file = [MetricLine \<lparr>def_name = ''vus'', def_kind = Gauge, def_contains = ''default''\<rparr>, PointLine example_event],
      accepted = [example_event], offered = [example_event]\<rparr>"

lemma example_reach: "stream_reach (list_channel 1) [] 1 example_final"
proof -
  let ?M = "list_channel 1" and ?e = example_event
  let ?s0 = "stream_init ([] :: sink_event list) 1"
  have cl: "classify_contains Gauge ''vus'' = ''default''" by code_simp
  let ?d = "\<lparr>def_name = ''vus'', def_kind = Gauge, def_contains = ''default''\<rparr>"
  let ?s1 = "?s0\<lparr>sys_sink := (sys_sink ?s0)\<lparr>snk_defs := ensure_def ?e (snk_defs (sys_sink ?s0))\<rparr>,
                 in_flight := [?e], offered := [?e]\<rparr>"
  have 1: "stream_step ?M ?s0 ?s1"
    using stream_step.record_def[of ?s0 ?M ?e] by (simp add: stream_init_def)
  have def1: "snk_defs (sys_sink ?s1) = \<lparr>seen = {''vus''}, def_queue = [?d]\<rparr>"
    by (simp add: stream_init_def sink_build_def ensure_def_def example_event_def cl)
  let ?s2 = "?s1\<lparr>sys_sink := (sys_sink ?s1)\<lparr>snk_tx := [?e]\<rparr>, in_flight := [], accepted := [?e]\<rparr>"
  have 2: "stream_step ?M ?s1 ?s2"
    using stream_step.record_point[of ?e ?s1 ?M "(sys_sink ?s1)\<lparr>snk_tx := [?e]\<rparr>" Sent]
    by (simp add: send_point_def list_channel_def stream_init_def sink_build_def observe_occupancy_def drop_state_new_def Let_def)
  let ?s3 = "?s2\<lparr>senders := False\<rparr>"
  have 3: "stream_step ?M ?s2 ?s3" by (rule stream_step.drop_senders) simp
  let ?s4 = "?s3\<lparr>sys_sink := (sys_sink ?s3)\<lparr>snk_tx := []\<rparr>, batch := [?e]\<rparr>"
  have 4: "stream_step ?M ?s3 ?s4"
    using stream_step.recv[of ?s3 ?M ?e "[]"] by (simp add: list_channel_def stream_init_def BATCH_LIMIT_def)
  let ?s5 = "?s4\<lparr>channel_closed := True\<rparr>"
  have 5: "stream_step ?M ?s4 ?s5"
    by (rule stream_step.recv_closed) (simp_all add: list_channel_def stream_init_def)
  let ?s6 = "?s5\<lparr>sys_sink := (sys_sink ?s5)\<lparr>snk_defs := \<lparr>seen = {''vus''}, def_queue = []\<rparr>\<rparr>,
                 out_file := [MetricLine ?d], phase := Flushed\<rparr>"
  have 6: "stream_step ?M ?s5 ?s6"
    using stream_step.flush[of ?s5 "\<lparr>seen = {''vus''}, def_queue = []\<rparr>" "[MetricLine ?d]" ?M] def1
    by (simp add: flush_defs_def stream_init_def)
  have 7: "stream_step ?M ?s6 example_final"
    using stream_step.emit[of ?s6 ?M]
    by (simp add: emit_points_def example_final_def stream_init_def sink_build_def)
  show ?thesis
    by (rule stream_reach.step[OF stream_reach.step[OF stream_reach.step[OF stream_reach.step
        [OF stream_reach.step[OF stream_reach.step[OF stream_reach.step[OF stream_reach.init 1] 2] 3] 4] 5] 6] 7])
qed

text \<open>C5.  Definition before first sample.  In every interleaving of producers and writer, over any
  first-in first-out channel, each sample line of the file comes after the definition line of its
  metric, and no metric is defined twice.\<close>

theorem stream_def_before_point:
  assumes "fifo_channel M buf" and "buf c = []" and "stream_reach M c cap s"
  shows "defs_precede {} (out_file s) \<and> distinct (file_defs (out_file s))"
  using def_inv_reach[OF assms] by (auto simp: def_inv_def Let_def)

theorem stream_def_before_point_witness:
  "stream_reach (list_channel 1) [] 1 example_final \<and> out_file example_final \<noteq> [] \<and>
   defs_precede {} (out_file example_final) \<and> distinct (file_defs (out_file example_final))"
  using stream_def_before_point[OF list_channel_fifo id_apply example_reach] example_reach
  by (simp add: example_final_def)

text \<open>C15.  Nothing accepted is lost or reordered.  At any moment the accepted samples are the written
  ones, the batch and the channel, in order; when the writer has stopped they are all in the file.\<close>

theorem stream_samples_conserved:
  assumes "fifo_channel M buf" and "buf c = []" and "stream_reach M c cap s"
  shows "accepted s = file_points (out_file s) @ batch s @ buf (snk_tx (sys_sink s)) \<and>
    (phase s = Done \<longrightarrow> file_points (out_file s) = accepted s \<and> in_flight s = [])"
  using flow_inv_reach[OF assms] by (auto simp: flow_inv_def)

theorem stream_samples_conserved_witness:
  "stream_reach (list_channel 1) [] 1 example_final \<and> phase example_final = Done \<and>
   file_points (out_file example_final) = [example_event]"
proof -
  have d: "phase example_final = Done" "accepted example_final = [example_event]" by (simp_all add: example_final_def)
  have "file_points (out_file example_final) = accepted example_final"
    using stream_samples_conserved[OF list_channel_fifo id_apply example_reach] d(1) by blast
  then show ?thesis using example_reach d by simp
qed

text \<open>Drop accounting.  While the channel has not been closed, every sample offered by a producer is
  accepted, still in flight, or counted in the drop total (modulo the width of the counter), and the
  per-metric counters of the diagnostics add up to that total.\<close>

lemma stream_drops_accounted:
  assumes "\<forall>ev ch. snd (mp_try_send M ev ch) \<noteq> Closed" and "stream_reach M c cap s"
  shows "(of_nat (length (offered s)) :: u64) =
      of_nat (length (accepted s)) + of_nat (length (in_flight s)) + drop_total (snk_drops (sys_sink s)) \<and>
    drop_total (snk_drops (sys_sink s)) = sum_list (map snd (drop_per_metric (snk_drops (sys_sink s))))"
  using account_inv_reach[OF assms] by (auto simp: account_inv_def drop_inv_def)

end
