(* ===== verification/MetricKeys.thy ===== *)
theory MetricKeys
  imports Selector
begin

text \<open>
  Storage keys of the metrics registry (\<open>crates/k6-core/src/metrics.rs\<close>, lines 159 to 286 and 1015 to
  1035): group paths, subset queries, the hot-path suffix of a tag list and the splitting of a key for
  the event stream.  The results: the single-pass suffix equals the canonical text of the ordered map
  of the tags, the splitter inverts the canonical text, and the subset matcher is the superset test
  on the parsed selectors.
\<close>

section \<open>Operations\<close>

text \<open>\<open>str::split("::")\<close>.\<close>

fun split_colons :: "string \<Rightarrow> string list" where
  "split_colons [] = [[]]"
| "split_colons [c] = [[c]]"
| "split_colons (c # d # s) =
     (if c = CHR '':'' \<and> d = CHR '':'' then [] # split_colons s
      else case split_colons (d # s) of [] \<Rightarrow> [[c]] | w # ws \<Rightarrow> (c # w) # ws)"

definition group_path_segments :: "string \<Rightarrow> string list" where
  "group_path_segments p = (if p = [] then [] else filter (\<lambda>s. s \<noteq> []) (split_colons p))"

definition parse_query :: "string \<Rightarrow> metric_selector option" where
  "parse_query raw = (case selector_parse raw of Inl e \<Rightarrow> None | Inr s \<Rightarrow> Some s)"

definition tags_superset :: "tag_map \<Rightarrow> tag_map \<Rightarrow> bool" where
  "tags_superset stored query \<longleftrightarrow> list_all (\<lambda>(k, v). map_of stored k = Some v) query"

definition stored_matches_query :: "string \<Rightarrow> metric_selector option \<Rightarrow> string \<Rightarrow> bool" where
  "stored_matches_query stored query raw_query =
     (case query of
        None \<Rightarrow> stored = raw_query
      | Some q \<Rightarrow>
          (case selector_parse stored of
             Inl e \<Rightarrow> stored = raw_query
           | Inr s \<Rightarrow> if sel_name s \<noteq> sel_name q then False else tags_superset (sel_tags s) (sel_tags q)))"

text \<open>A UTF-8 continuation byte: slicing a string in front of one panics.\<close>

definition is_continuation :: "char \<Rightarrow> bool" where
  "is_continuation c \<longleftrightarrow> digit7 c \<and> \<not> digit6 c"

definition split_pair_for_sink :: "string \<Rightarrow> tag_map \<Rightarrow> tag_map" where
  "split_pair_for_sink pair tags =
     (case find_char (CHR '':'') pair of
        None \<Rightarrow> tags
      | Some colon \<Rightarrow> bt_put (take colon pair) (drop (colon + 1) pair) tags)"

definition split_canonical_for_sink :: "string \<Rightarrow> (string \<times> tag_map) option" where
  "split_canonical_for_sink key =
     (case find_char (CHR ''{'') key of
        None \<Rightarrow> Some (key, [])
      | Some brace_idx \<Rightarrow>
          (let name = take brace_idx key; stop = length key - 1
           in if stop \<le> brace_idx + 1 then Some (name, [])
              else if is_continuation (key ! stop) then None
              else Some (name, fold split_pair_for_sink
                     (split_on (CHR '','') (drop (brace_idx + 1) (take stop key))) [])))"

text \<open>The loop over the stably sorted pairs: a pair is skipped when the next one has its key.\<close>

fun suffix_pairs :: "bool \<Rightarrow> (string \<times> string) list \<Rightarrow> string" where
  "suffix_pairs first [] = []"
| "suffix_pairs first ((k, v) # ps) =
     (if ps \<noteq> [] \<and> fst (hd ps) = k then suffix_pairs first ps
      else (if first then [] else '','') @ k @ '':'' @ v @ suffix_pairs False ps)"

definition canonical_tag_suffix :: "(string \<times> string) list \<Rightarrow> string" where
  "canonical_tag_suffix tags =
     (if tags = [] then [] else ''{'' @ suffix_pairs True (sort_key fst tags) @ ''}'')"

definition canonical_key :: "string \<Rightarrow> string \<Rightarrow> string" where
  "canonical_key name suffix = (if suffix = [] then name else name @ suffix)"

definition write_canonical_key :: "string \<Rightarrow> string \<Rightarrow> string \<Rightarrow> string" where
  "write_canonical_key buf name suffix = [] @ name @ suffix"

definition derive_targets :: "string \<Rightarrow> string list" where
  "derive_targets stored_key =
     (case selector_parse stored_key of
        Inl e \<Rightarrow> [stored_key]
      | Inr sel \<Rightarrow> [canonical sel] @ (if sel_tags sel \<noteq> [] then [sel_name sel] else []))"

section \<open>The suffix is the canonical tag text\<close>

text \<open>The last pair of each run of equal keys.\<close>

fun run_lasts :: "('k \<times> 'v) list \<Rightarrow> ('k \<times> 'v) list" where
  "run_lasts [] = []"
| "run_lasts [p] = [p]"
| "run_lasts (p # q # ps) = (if fst p = fst q then run_lasts (q # ps) else p # run_lasts (q # ps))"

lemma run_lasts_ne: "run_lasts (p # ps) \<noteq> []"
  by (induction ps arbitrary: p) auto

lemma suffix_pairs_lasts:
  "suffix_pairs first ps =
     (if ps = [] then [] else (if first then [] else '','') @ join '','' (map pair_text (run_lasts ps)))"
proof (induction ps arbitrary: first rule: run_lasts.induct)
  case (3 p q ps)
  obtain k v where p: "p = (k, v)" by fastforce
  obtain a as where a: "run_lasts (q # ps) = a # as" using run_lasts_ne by (metis list.exhaust)
  show ?case using 3 by (auto simp: p a pair_text_def)
qed (auto simp: pair_text_def split: prod.splits)

lemma run_lasts_keys: "fst ` set (run_lasts ps) = fst ` set ps"
  by (induction ps rule: run_lasts.induct) auto

lemma run_lasts_wf:
  fixes ps :: "('k::linorder \<times> 'v) list"
  shows "sorted (map fst ps) \<Longrightarrow> bt_wf (run_lasts ps)"
proof (induction ps rule: run_lasts.induct)
  case (3 p q ps)
  show ?case
  proof (cases "fst p = fst q")
    case False
    have "fst p < y" if "y \<in> fst ` set (q # ps)" for y
    proof -
      have "fst p \<le> fst q" "fst q \<le> y" using 3(3) that by auto
      then show ?thesis using False by simp
    qed
    then have "\<forall>x \<in> set (run_lasts (q # ps)). fst p < fst x"
      using run_lasts_keys[of "q # ps"] by blast
    then show ?thesis using 3 False by (simp add: bt_wf_def)
  qed (use 3 in simp)
qed (simp_all add: bt_wf_def)

lemma map_of_run_lasts:
  fixes ps :: "('k::linorder \<times> 'v) list"
  shows "sorted (map fst ps) \<Longrightarrow> map_of (run_lasts ps) k = map_of (rev ps) k"
proof (induction ps rule: run_lasts.induct)
  case (3 p q ps)
  then have ih: "map_of (run_lasts (q # ps)) k = map_of (rev (q # ps)) k" by auto
  show ?case
  proof (cases "fst p = fst q")
    case True
    have "map_of (rev (q # ps)) k = None \<Longrightarrow> k \<noteq> fst p" using True by (auto simp: map_of_eq_None_iff)
    then show ?thesis using True ih by (auto simp: map_add_def split: option.splits)
  next
    case False
    have "fst p \<notin> set (map fst (q # ps))" using 3(3) False by auto
    then have "map_of (rev (q # ps)) (fst p) = None" by (auto simp: map_of_eq_None_iff)
    then show ?thesis using False ih by (auto simp: map_add_def split: option.splits)
  qed
qed auto

lemma map_of_rev_filter: "map_of (rev xs) k = map_of (rev (filter (\<lambda>p. fst p = k) xs)) k"
  by (induction xs) (auto simp: map_add_def split: option.splits)

lemma map_of_rev_sort: "map_of (rev (sort_key fst xs)) k = map_of (rev xs) k"
proof -
  have "filter (\<lambda>p. fst p = k) (sort_key fst xs) = filter (\<lambda>p. fst p = k) xs"
    using sort_key_stable[of fst k xs] by simp
  then show ?thesis using map_of_rev_filter[of "sort_key fst xs" k] map_of_rev_filter[of xs k] by simp
qed

text \<open>The ordered map of a tag list, later pairs winning: \<open>tags.iter().cloned().collect::<BTreeMap<_, _>>()\<close>.\<close>

definition tags_of :: "(string \<times> string) list \<Rightarrow> tag_map" where
  "tags_of ps = fold (\<lambda>(k, v). bt_put k v) ps []"

lemma tags_of_wf [simp]: "bt_wf (tags_of ps)"
  unfolding tags_of_def by (rule bt.wf_puts) simp

lemma tags_of_get: "map_of (tags_of ps) k = map_of (rev ps) k"
  unfolding tags_of_def using bt.get_puts[of "[]" ps k] by (auto split: option.splits)

lemma run_lasts_sorted_tags: "run_lasts (sort_key fst tags) = tags_of tags"
proof (rule bt_ext)
  show "bt_wf (run_lasts (sort_key fst tags))" by (rule run_lasts_wf) simp
  show "map_of (run_lasts (sort_key fst tags)) = map_of (tags_of tags)"
    by (rule ext) (simp add: map_of_run_lasts map_of_rev_sort tags_of_get)
qed simp

lemma tags_of_Nil_iff: "tags_of tags = [] \<longleftrightarrow> tags = []"
  unfolding run_lasts_sorted_tags [symmetric] using run_lasts_ne
  by (metis length_0_conv length_sort list.exhaust run_lasts.simps(1) sort_key_simps(1))

lemma canonical_tag_suffix_text:
  "canonical_key name (canonical_tag_suffix tags) = canonical \<lparr>sel_name = name, sel_tags = tags_of tags\<rparr>"
proof (cases "tags = []")
  case False
  then have "sort_key fst tags \<noteq> []" by (metis length_0_conv length_sort)
  then show ?thesis using False
    by (simp add: canonical_key_def canonical_tag_suffix_def canonical_def suffix_pairs_lasts
        run_lasts_sorted_tags tags_of_Nil_iff)
qed (simp add: canonical_key_def canonical_tag_suffix_def canonical_def tags_of_def)

lemma tags_of_ok:
  assumes "\<forall>p \<in> set tags. name_ok (fst p) \<and> value_ok (snd p)" shows "tags_ok (tags_of tags)"
proof -
  have "tags_ok m \<Longrightarrow> tags_ok (fold (\<lambda>(k, v). bt_put k v) tags m)" for m
    using assms
  proof (induction tags arbitrary: m)
    case (Cons p tags)
    then have "tags_ok (bt_put (fst p) (snd p) m)" by (intro tags_ok_put) auto
    then show ?case using Cons by (simp add: case_prod_beta)
  qed simp
  moreover have "tags_ok []" by (simp add: tags_ok_def)
  ultimately show ?thesis unfolding tags_of_def by blast
qed

section \<open>Splitting a key for the event stream\<close>

lemma split_pair_text:
  assumes "name_ok k" shows "split_pair_for_sink (pair_text (k, v)) tags = bt_put k v tags"
  using name_ok_sets[OF assms] by (simp add: split_pair_for_sink_def pair_text_def find_char_first)

lemma split_pairs_fold:
  assumes "tags_ok (pre @ m)" shows "fold split_pair_for_sink (map pair_text m) pre = pre @ m"
  using assms
proof (induction m arbitrary: pre)
  case (Cons p m)
  obtain k v where p: "p = (k, v)" by fastforce
  have k: "name_ok k" and lt: "\<forall>q \<in> set pre. fst q < k"
    using Cons.prems by (auto simp: tags_ok_def bt_wf_def sorted_wrt_append p)
  have "bt_put k v pre = pre @ [p]" using lt by (induction pre) (auto simp: p)
  then show ?case using Cons.IH[of "pre @ [p]"] Cons.prems by (simp add: p split_pair_text[OF k])
qed simp

lemma split_canonical_text:
  assumes wf: "selector_wf s"
  shows "split_canonical_for_sink (canonical s) = Some (sel_name s, sel_tags s)"
proof (cases "sel_tags s = []")
  case True
  then show ?thesis using wf name_ok_sets[of "sel_name s"]
    by (simp add: split_canonical_for_sink_def canonical_def selector_wf_def find_char_def)
next
  case False
  let ?n = "sel_name s" and ?m = "sel_tags s"
  let ?in = "join '','' (map pair_text ?m)"
  have n: "name_ok ?n" and m: "tags_ok ?m" using wf by (simp_all add: selector_wf_def)
  have c: "canonical s = ?n @ CHR ''{'' # (?in @ [CHR ''}''])" using False by (simp add: canonical_def)
  have pc: "\<forall>x \<in> set (map pair_text ?m). CHR '','' \<notin> set x" and pn: "\<forall>x \<in> set (map pair_text ?m). x \<noteq> []"
    using m pair_text_facts by (auto simp: tags_ok_def)
  have ine: "?in \<noteq> []" using False pn by (cases "map pair_text ?m"; cases "tl (map pair_text ?m)") auto
  have sp: "split_on (CHR '','') ?in = map pair_text ?m" using False pc by (intro split_on_join) auto
  have "find_char (CHR ''{'') (canonical s) = Some (length ?n)"
    unfolding c using name_ok_sets[OF n] by (simp add: find_char_first)
  moreover have "canonical s ! (length (canonical s) - 1) = CHR ''}''"
    by (simp add: c nth_append)
  moreover have "\<not> is_continuation (CHR ''}'')" by (simp add: is_continuation_def)
  moreover have "drop (length ?n + 1) (take (length (canonical s) - 1) (canonical s)) = ?in" by (simp add: c)
  moreover have "\<not> length (canonical s) - 1 \<le> length ?n + 1" using ine by (cases ?in) (simp_all add: c)
  moreover have "take (length ?n) (canonical s) = ?n" by (simp add: c)
  moreover have "fold split_pair_for_sink (map pair_text ?m) [] = ?m" using split_pairs_fold[of "[]" ?m] m by simp
  ultimately show ?thesis unfolding split_canonical_for_sink_def Let_def by (simp add: sp)
qed

section \<open>Subset queries\<close>

lemma tags_superset_iff: "tags_superset st q \<longleftrightarrow> (\<forall>(k, v) \<in> set q. map_of st k = Some v)"
  by (simp add: tags_superset_def list_all_iff)

lemma tags_superset_map: "bt_wf q \<Longrightarrow> tags_superset st q \<longleftrightarrow> map_of q \<subseteq>\<^sub>m map_of st"
  using bt_wf_distinct[of q]
  by (auto simp: tags_superset_iff map_le_def dom_def dest: map_of_SomeD)

lemma tags_superset_Nil [simp]: "tags_superset st []"
  by (simp add: tags_superset_def)

lemma matches_canonical:
  assumes "selector_wf s" "selector_wf q"
  shows "stored_matches_query (canonical s) (parse_query (canonical q)) (canonical q) \<longleftrightarrow>
    sel_name s = sel_name q \<and> map_of (sel_tags q) \<subseteq>\<^sub>m map_of (sel_tags s)"
  using assms selector_parse_canonical tags_superset_map[of "sel_tags q" "sel_tags s"]
  by (simp add: stored_matches_query_def parse_query_def selector_wf_def tags_ok_def)

lemma derive_targets_canonical:
  "selector_wf s \<Longrightarrow> derive_targets (canonical s) = canonical s # (if sel_tags s = [] then [] else [sel_name s])"
  by (simp add: derive_targets_def selector_parse_canonical)

section \<open>Properties\<close>

text \<open>The hot-path key equals the reference.  Sorting the tag list stably, keeping the last pair of
  each run of equal keys and appending in one pass gives, for every metric name and every tag list
  (duplicates included), the canonical text of the selector with the ordered map of the tags; the
  buffer variant writes the same text whatever the buffer held.\<close>

lemma canonical_key_equiv:
  "canonical_key name (canonical_tag_suffix tags) = canonical \<lparr>sel_name = name, sel_tags = tags_of tags\<rparr> \<and>
   write_canonical_key buf name (canonical_tag_suffix tags) = canonical_key name (canonical_tag_suffix tags)"
proof
  show "canonical_key name (canonical_tag_suffix tags) = canonical \<lparr>sel_name = name, sel_tags = tags_of tags\<rparr>"
    by (rule canonical_tag_suffix_text)
qed (simp add: write_canonical_key_def canonical_key_def)

text \<open>The event-stream splitter inverts the canonical key.  For every well-formed selector it
  returns the base name and the tags, and does not panic.\<close>

lemma split_canonical_inverse:
  assumes "selector_wf s"
  shows "split_canonical_for_sink (canonical s) = Some (sel_name s, sel_tags s)"
  using assms by (rule split_canonical_text)

text \<open>Subset semantics of queries.  A stored key matches a query exactly when the names agree and
  the query's tags are a submap of the stored tags.\<close>

lemma query_matches_superset:
  assumes "selector_wf s" and "selector_wf q"
  shows "stored_matches_query (canonical s) (parse_query (canonical q)) (canonical q) \<longleftrightarrow>
    sel_name s = sel_name q \<and> map_of (sel_tags q) \<subseteq>\<^sub>m map_of (sel_tags s)"
  using assms by (rule matches_canonical)

end
