(* ===== verification/Trend.thy ===== *)
theory Trend
  imports K6_Prelude "HOL-Library.Multiset"
begin

text \<open>
  The trend metric (\<open>crates/k6-core/src/metrics.rs\<close>, \<open>TrendMetric\<close>, \<open>TrendStats\<close> and their methods).  The
  HDR histogram comes from the crate \<open>hdrhistogram\<close> and is a parameter: a record of the operations
  the program calls, with what its documentation promises stated as \<open>hdr_lawful\<close>.  The results:
  minimum and maximum are those of the recorded samples, and merging two trends reports what
  recording all samples into one would report, the rounding of the sum apart.
\<close>

section \<open>Data\<close>

text \<open>\<open>hdr_new\<close> is \<open>Histogram::new_with_bounds(1, 3_600_000_000, 3)\<close>.  \<open>hdr_record\<close> and \<open>hdr_add\<close> give the
  histogram after the call; the program ignores their errors.\<close>

record 'h hdr =
  hdr_new :: 'h
  hdr_record :: "u64 \<Rightarrow> 'h \<Rightarrow> 'h"
  hdr_add :: "'h \<Rightarrow> 'h \<Rightarrow> 'h"
  hdr_len :: "'h \<Rightarrow> u64"
  hdr_quantile :: "f64 \<Rightarrow> 'h \<Rightarrow> u64"

record 'h trend_metric =
  tr_hist :: 'h
  tr_count :: u64
  tr_sum :: f64
  tr_min :: f64
  tr_max :: f64

record trend_stats =
  ts_avg :: f64
  ts_min :: f64
  ts_med :: f64
  ts_max :: f64
  ts_p90 :: f64
  ts_p95 :: f64
  ts_p99 :: f64
  ts_count :: u64

section \<open>Operations\<close>

definition trend_new :: "'h hdr \<Rightarrow> 'h trend_metric" where
  "trend_new H = \<lparr>tr_hist = hdr_new H, tr_count = 0, tr_sum = f0, tr_min = f64_max, tr_max = f64_min\<rparr>"

definition trend_micros :: "f64 \<Rightarrow> u64" where
  "trend_micros value_ms = f_to_u64 (fmul value_ms (flit 1000))"

definition trend_record :: "'h hdr \<Rightarrow> f64 \<Rightarrow> 'h trend_metric \<Rightarrow> 'h trend_metric" where
  "trend_record H value_ms t =
     (let micros = trend_micros value_ms
      in t\<lparr>tr_count := tr_count t + 1,
           tr_sum := fadd (tr_sum t) value_ms,
           tr_min := (if flt value_ms (tr_min t) then value_ms else tr_min t),
           tr_max := (if flt (tr_max t) value_ms then value_ms else tr_max t),
           tr_hist := (if 1 \<le> micros then hdr_record H micros (tr_hist t) else tr_hist t)\<rparr>)"

definition stats_default :: trend_stats where
  "stats_default = \<lparr>ts_avg = f0, ts_min = f0, ts_med = f0, ts_max = f0, ts_p90 = f0, ts_p95 = f0, ts_p99 = f0, ts_count = 0\<rparr>"

definition hist_ms :: "'h hdr \<Rightarrow> 'h \<Rightarrow> f64 \<Rightarrow> f64" where
  "hist_ms H h q = (if hdr_len H h = 0 then f0 else fdiv (f_of_u64 (hdr_quantile H q h)) (flit 1000))"

definition trend_stats_of :: "'h hdr \<Rightarrow> 'h trend_metric \<Rightarrow> trend_stats" where
  "trend_stats_of H t =
     (if tr_count t = 0 then stats_default
      else \<lparr>ts_avg = fdiv (tr_sum t) (f_of_u64 (tr_count t)), ts_min = tr_min t,
            ts_med = hist_ms H (tr_hist t) (flit (5 / 10)), ts_max = tr_max t,
            ts_p90 = hist_ms H (tr_hist t) (flit (9 / 10)), ts_p95 = hist_ms H (tr_hist t) (flit (95 / 100)),
            ts_p99 = hist_ms H (tr_hist t) (flit (99 / 100)), ts_count = tr_count t\<rparr>)"

definition trend_merge :: "'h hdr \<Rightarrow> 'h trend_metric \<Rightarrow> 'h trend_metric \<Rightarrow> 'h trend_metric" where
  "trend_merge H t other =
     (if tr_count other = 0 then t
      else t\<lparr>tr_count := tr_count t + tr_count other,
             tr_sum := fadd (tr_sum t) (tr_sum other),
             tr_min := (if flt (tr_min other) (tr_min t) then tr_min other else tr_min t),
             tr_max := (if flt (tr_max t) (tr_max other) then tr_max other else tr_max t),
             tr_hist := hdr_add H (tr_hist t) (tr_hist other)\<rparr>)"

section \<open>What the histogram crate promises\<close>

text \<open>
  The histogram holds a multiset of values (\<open>contents\<close>): a value is recorded when it is trackable and
  refused without effect otherwise, addition is the union, the length is the number of values and
  a quantile depends on the contents only.
\<close>

definition hdr_lawful :: "'h hdr \<Rightarrow> ('h \<Rightarrow> u64 multiset) \<Rightarrow> (u64 \<Rightarrow> bool) \<Rightarrow> bool" where
  "hdr_lawful H contents trackable \<longleftrightarrow>
     contents (hdr_new H) = {#} \<and>
     (\<forall>v h. contents (hdr_record H v h) = contents h + (if trackable v then {#v#} else {#})) \<and>
     (\<forall>h g. contents (hdr_add H h g) = contents h + contents g) \<and>
     (\<forall>h. hdr_len H h = of_nat (size (contents h))) \<and>
     (\<forall>q h g. contents h = contents g \<longrightarrow> hdr_quantile H q h = hdr_quantile H q g)"

lemma hdr_lawfulD:
  assumes "hdr_lawful H contents trackable"
  shows "contents (hdr_new H) = {#}"
    and "contents (hdr_record H v h) = contents h + (if trackable v then {#v#} else {#})"
    and "contents (hdr_add H h g) = contents h + contents g"
    and "contents h = contents g \<Longrightarrow> hist_ms H h q = hist_ms H g q"
proof -
  show "contents (hdr_new H) = {#}"
    and "contents (hdr_record H v h) = contents h + (if trackable v then {#v#} else {#})"
    and "contents (hdr_add H h g) = contents h + contents g"
    using assms unfolding hdr_lawful_def by blast+
  assume c: "contents h = contents g"
  have "hdr_len H h = hdr_len H g" "hdr_quantile H q h = hdr_quantile H q g"
    using assms c unfolding hdr_lawful_def by metis+
  then show "hist_ms H h q = hist_ms H g q" by (simp add: hist_ms_def)
qed

text \<open>A histogram that keeps every value up to one hour in ascending order, and reads a quantile by
  rank.\<close>

definition list_hdr :: "u64 list hdr" where
  "list_hdr = \<lparr>hdr_new = [], hdr_record = (\<lambda>v h. if v \<le> 3600000000 then insort v h else h),
     hdr_add = (\<lambda>h g. fold insort g h), hdr_len = (\<lambda>h. of_nat (length h)),
     hdr_quantile = (\<lambda>q h. let s = sort h in if s = [] then 0
        else s ! nat (max 0 (min (int (length s) - 1) \<lfloor>fval q * of_int (int (length s))\<rfloor>)))\<rparr>"

lemma mset_fold_insort: "mset (fold insort g h) = mset h + mset g"
  by (induction g arbitrary: h) auto

lemma list_hdr_lawful: "hdr_lawful list_hdr mset (\<lambda>v. v \<le> 3600000000)"
proof -
  have q: "hdr_quantile list_hdr q h = hdr_quantile list_hdr q g" if "mset h = mset g" for q h g
  proof -
    have "sort h = sort g" using that by (metis mset_sort properties_for_sort sorted_sort)
    then show ?thesis by (simp add: list_hdr_def)
  qed
  show ?thesis unfolding hdr_lawful_def
  proof (intro conjI allI impI)
    show "hdr_quantile list_hdr q h = hdr_quantile list_hdr q g" if "mset h = mset g" for q h g
      using that by (rule q)
  qed (simp_all add: list_hdr_def mset_fold_insort)
qed

lemma of_nat_u64_0: "n < 2 ^ 64 \<Longrightarrow> (of_nat n :: u64) = 0 \<longleftrightarrow> n = 0"
  by (auto simp: word_of_nat_eq_0_iff dest: dvd_imp_le)

section \<open>Recording many samples\<close>

definition trend_of :: "'h hdr \<Rightarrow> f64 list \<Rightarrow> 'h trend_metric" where
  "trend_of H vs = fold (trend_record H) vs (trend_new H)"

definition keep_min :: "f64 \<Rightarrow> f64 \<Rightarrow> f64" where
  "keep_min a v = (if flt v a then v else a)"

definition keep_max :: "f64 \<Rightarrow> f64 \<Rightarrow> f64" where
  "keep_max a v = (if flt a v then v else a)"

lemma trend_record_fold:
  "tr_count (fold (trend_record H) vs t) = tr_count t + of_nat (length vs)"
  "tr_min (fold (trend_record H) vs t) = foldl keep_min (tr_min t) vs"
  "tr_max (fold (trend_record H) vs t) = foldl keep_max (tr_max t) vs"
  by (induction vs arbitrary: t) (simp_all add: trend_record_def Let_def keep_min_def keep_max_def)

lemma trend_hist_fold:
  assumes "hdr_lawful H contents trackable"
  shows "contents (tr_hist (fold (trend_record H) vs t)) =
    contents (tr_hist t) + filter_mset (\<lambda>u. 1 \<le> u \<and> trackable u) (mset (map trend_micros vs))"
  by (induction vs arbitrary: t) (simp_all add: trend_record_def Let_def hdr_lawfulD[OF assms])

lemma keep_assoc:
  assumes "b \<noteq> F64_NaN"
  shows "keep_min (keep_min a b) c = keep_min a (keep_min b c)"
    and "keep_max (keep_max a b) c = keep_max a (keep_max b c)"
  using assms by (auto simp: keep_min_def keep_max_def flt_def)

lemma keep_not_nan:
  "a \<noteq> F64_NaN \<Longrightarrow> keep_min a v \<noteq> F64_NaN" "a \<noteq> F64_NaN \<Longrightarrow> keep_max a v \<noteq> F64_NaN"
  by (auto simp: keep_min_def keep_max_def flt_def)

text \<open>The running extremum from any start is the start against the running extremum of the rest.\<close>

lemma foldl_keep:
  assumes "b \<noteq> F64_NaN"
  shows "foldl keep_min (keep_min a b) vs = keep_min a (foldl keep_min b vs)"
    and "foldl keep_max (keep_max a b) vs = keep_max a (foldl keep_max b vs)"
  using assms by (induction vs arbitrary: a b) (simp_all add: keep_assoc keep_not_nan)

text \<open>A float other than an infinity lies between \<open>f64::MIN\<close> and \<open>f64::MAX\<close>.\<close>

lemma fval_bound:
  assumes "f64_wf v" shows "\<bar>fval v\<bar> \<le> fval f64_max"
proof (cases v)
  case (F64_Fin s m e)
  have "m \<le> 2 ^ 53 - 1" using assms F64_Fin by simp
  then have "of_int m \<le> (of_int (2 ^ 53 - 1) :: rat)" by (rule of_int_le_iff[THEN iffD2])
  then have "of_int m \<le> (2 ^ 53 - 1 :: rat)" by simp
  moreover have "(2::rat) powi e \<le> 2 powi 971" unfolding powi2_mono using assms F64_Fin by simp
  moreover have "(0::rat) \<le> of_int m" using assms F64_Fin by simp
  ultimately have "of_int m * (2::rat) powi e \<le> (2 ^ 53 - 1) * 2 powi 971" by (intro mult_mono) auto
  then show ?thesis using F64_Fin assms by (auto simp: f64_max_def abs_mult)
qed (simp_all add: f64_max_def)

lemma extremes_fin [simp]: "is_fin f64_max" "is_fin f64_min" "fval f64_min = - fval f64_max" "f64_wf f64_max" "f64_wf f64_min"
  by (simp_all add: f64_max_def f64_min_def)

lemma foldl_keep_extreme:
  assumes "is_fin a" "\<forall>v \<in> set vs. is_fin v"
  shows "is_fin (foldl keep_min a vs) \<and> fval (foldl keep_min a vs) = Min (insert (fval a) (fval ` set vs))"
    and "is_fin (foldl keep_max a vs) \<and> fval (foldl keep_max a vs) = Max (insert (fval a) (fval ` set vs))"
proof -
  show "is_fin (foldl keep_min a vs) \<and> fval (foldl keep_min a vs) = Min (insert (fval a) (fval ` set vs))"
    using assms
  proof (induction vs arbitrary: a)
    case (Cons v vs)
    have k: "is_fin (keep_min a v)" "fval (keep_min a v) = min (fval a) (fval v)"
      using Cons.prems by (auto simp: keep_min_def f64_fin)
    have "Min (insert (min (fval a) (fval v)) S) = Min (insert (fval a) (insert (fval v) S))" if "finite S" for S
      using that by (cases "S = {}") (auto simp: min.assoc)
    then show ?case using Cons.IH[OF k(1)] Cons.prems k(2) by simp
  qed simp
  show "is_fin (foldl keep_max a vs) \<and> fval (foldl keep_max a vs) = Max (insert (fval a) (fval ` set vs))"
    using assms
  proof (induction vs arbitrary: a)
    case (Cons v vs)
    have k: "is_fin (keep_max a v)" "fval (keep_max a v) = max (fval a) (fval v)"
      using Cons.prems by (auto simp: keep_max_def f64_fin)
    have "Max (insert (max (fval a) (fval v)) S) = Max (insert (fval a) (insert (fval v) S))" if "finite S" for S
      using that by (cases "S = {}") (auto simp: max.assoc)
    then show ?case using Cons.IH[OF k(1)] Cons.prems k(2) by simp
  qed simp
qed

lemma trend_of_append: "trend_of H (vs @ ws) = fold (trend_record H) ws (trend_of H vs)"
  by (simp add: trend_of_def)

lemma trend_of_facts:
  "tr_count (trend_of H vs) = of_nat (length vs)"
  "tr_min (trend_of H vs) = foldl keep_min f64_max vs"
  "tr_max (trend_of H vs) = foldl keep_max f64_min vs"
  by (simp_all add: trend_of_def trend_record_fold trend_new_def)

lemma flt_trans: "flt a b \<Longrightarrow> flt b c \<Longrightarrow> flt a c"
  by (auto simp: flt_def)

lemma flt_irrefl [simp]: "\<not> flt a a"
  by (simp add: flt_def)

lemma foldl_keep_start:
  "keep_min (foldl keep_min f64_max vs) f64_max = foldl keep_min f64_max vs"
  "keep_max (foldl keep_max f64_min vs) f64_min = foldl keep_max f64_min vs"
proof -
  have lo: "\<not> flt f64_max a \<Longrightarrow> \<not> flt f64_max (foldl keep_min a vs)" for a
    by (induction vs arbitrary: a) (auto simp: keep_min_def dest: flt_trans)
  have hi: "\<not> flt a f64_min \<Longrightarrow> \<not> flt (foldl keep_max a vs) f64_min" for a
    by (induction vs arbitrary: a) (auto simp: keep_max_def dest: flt_trans)
  show "keep_min (foldl keep_min f64_max vs) f64_max = foldl keep_min f64_max vs"
    using lo[of f64_max] by (simp add: keep_min_def)
  show "keep_max (foldl keep_max f64_min vs) f64_min = foldl keep_max f64_min vs"
    using hi[of f64_min] by (simp add: keep_max_def)
qed

lemma extremes_not_nan [simp]: "f64_max \<noteq> F64_NaN" "f64_min \<noteq> F64_NaN"
  by (simp_all add: f64_max_def f64_min_def)

lemma foldl_keep_append:
  "foldl keep_min f64_max (vs @ ws) = keep_min (foldl keep_min f64_max vs) (foldl keep_min f64_max ws)"
  "foldl keep_max f64_min (vs @ ws) = keep_max (foldl keep_max f64_min vs) (foldl keep_max f64_min ws)"
  using foldl_keep(1)[of f64_max "foldl keep_min f64_max vs" ws] foldl_keep(2)[of f64_min "foldl keep_max f64_min vs" ws]
  by (simp_all add: foldl_keep_start)

lemma trend_merge_fields:
  fixes vs ws :: "f64 list" and H :: "'h hdr"
  assumes H: "hdr_lawful H contents trackable" and len: "length ws < 2 ^ 64"
  defines "m \<equiv> trend_merge H (trend_of H vs) (trend_of H ws)" and "r \<equiv> trend_of H (vs @ ws)"
  shows "tr_count m = tr_count r" "tr_min m = tr_min r" "tr_max m = tr_max r"
    "contents (tr_hist m) = contents (tr_hist r)"
proof -
  have "tr_count m = tr_count r \<and> tr_min m = tr_min r \<and> tr_max m = tr_max r \<and>
      contents (tr_hist m) = contents (tr_hist r)"
  proof (cases "ws = []")
    case True
    then show ?thesis by (simp add: m_def r_def trend_merge_def trend_of_facts)
  next
    case False
    then have "(of_nat (length ws) :: u64) \<noteq> 0"
      using len by (simp add: of_nat_u64_0)
    then have m: "m = (trend_of H vs)\<lparr>tr_count := of_nat (length vs) + of_nat (length ws),
        tr_sum := fadd (tr_sum (trend_of H vs)) (tr_sum (trend_of H ws)),
        tr_min := keep_min (foldl keep_min f64_max vs) (foldl keep_min f64_max ws),
        tr_max := keep_max (foldl keep_max f64_min vs) (foldl keep_max f64_min ws),
        tr_hist := hdr_add H (tr_hist (trend_of H vs)) (tr_hist (trend_of H ws))\<rparr>"
      by (simp add: m_def trend_merge_def trend_of_facts keep_min_def keep_max_def)
    have "contents (tr_hist (trend_of H us)) = filter_mset (\<lambda>u. 1 \<le> u \<and> trackable u) (mset (map trend_micros us))" for us
      unfolding trend_of_def trend_hist_fold[OF H] by (simp add: trend_new_def hdr_lawfulD(1)[OF H])
    then show ?thesis
      by (simp add: m r_def trend_of_facts foldl_keep_append hdr_lawfulD(3)[OF H] del: foldl_append)
  qed
  then show "tr_count m = tr_count r" "tr_min m = tr_min r" "tr_max m = tr_max r"
    "contents (tr_hist m) = contents (tr_hist r)" by auto
qed

section \<open>Properties\<close>

text \<open>Extremes of a trend.  After any non-empty sequence of finite samples the reported minimum and
  maximum are the least and the greatest sample and the count is the number of samples.\<close>

lemma trend_extremes:
  fixes H :: "'h hdr"
  assumes "vs \<noteq> []" and "length vs < 2 ^ 64" and "\<forall>v \<in> set vs. is_fin v \<and> f64_wf v"
  defines "st \<equiv> trend_stats_of H (trend_of H vs)"
  shows "fval (ts_min st) = Min (fval ` set vs) \<and> fval (ts_max st) = Max (fval ` set vs) \<and>
    unat (ts_count st) = length vs"
proof -
  have b: "\<forall>v \<in> set vs. - fval f64_max \<le> fval v \<and> fval v \<le> fval f64_max"
    using assms(3) fval_bound by (metis abs_le_D1 abs_le_D2 minus_le_iff)
  have n: "(of_nat (length vs) :: u64) \<noteq> 0"
    using assms(1,2) by (simp add: of_nat_u64_0)
  have lo: "fval (foldl keep_min f64_max vs) = Min (insert (fval f64_max) (fval ` set vs))"
    and hi: "fval (foldl keep_max f64_min vs) = Max (insert (fval f64_min) (fval ` set vs))"
    using foldl_keep_extreme[of f64_max vs] foldl_keep_extreme[of f64_min vs] assms(3) by auto
  obtain v where v: "v \<in> set vs" using assms(1) hd_in_set by blast
  have "Min (fval ` set vs) \<le> fval f64_max" by (rule order_trans[OF Min_le[of _ "fval v"]]) (use b v in auto)
  then have "Min (insert (fval f64_max) (fval ` set vs)) = Min (fval ` set vs)"
    using assms(1) by (subst Min_insert) (simp_all only: finite_set finite_imageI min_absorb2, simp)
  moreover have "fval f64_min \<le> Max (fval ` set vs)" by (rule order_trans[OF _ Max_ge[of _ "fval v"]]) (use b v in auto)
  then have "Max (insert (fval f64_min) (fval ` set vs)) = Max (fval ` set vs)"
    using assms(1) by (subst Max_insert) (simp_all only: finite_set finite_imageI max_absorb2, simp)
  moreover have "unat (of_nat (length vs) :: u64) = length vs" using assms(2) by (simp add: unat_of_nat)
  ultimately show ?thesis using n lo hi by (simp add: st_def trend_stats_of_def trend_of_facts)
qed

text \<open>Merging is recording into one.  For a histogram that behaves as documented, the statistics of
  two merged trends are those of one trend that recorded the samples of both, the average apart
  (its sum is rounded in another order).\<close>

lemma trend_merge_as_one:
  assumes "hdr_lawful H contents trackable" and "length ws < 2 ^ 64"
  shows "(trend_stats_of H (trend_merge H (trend_of H vs) (trend_of H ws)))\<lparr>ts_avg := x\<rparr> =
    (trend_stats_of H (trend_of H (vs @ ws)))\<lparr>ts_avg := x\<rparr>"
proof -
  note f = trend_merge_fields[OF assms, of vs]
  show ?thesis unfolding trend_stats_of_def f(1-3) hdr_lawfulD(4)[OF assms(1) f(4)] by simp
qed

text \<open>One millisecond sample, one of two, and one below a microsecond.\<close>

definition example_samples :: "f64 list" where
  "example_samples = [flit 2, flit 1, flit (1 / 4096)]"

end
