(* ===== verification/GroupTree.thy ===== *)
theory GroupTree
  imports MetricKeys Trend
begin

text \<open>
  The group tree of a run (\<open>crates/k6-core/src/metrics.rs\<close>, \<open>GroupNode\<close> with its methods, and the tree
  operations of \<open>MetricsRegistry\<close>).  The mutable reference \<open>navigate_or_create\<close> returns is modelled by
  the update it is used for: \<open>navigate_or_create H segs f\<close> is the tree in which the node at \<open>segs\<close>,
  created with its ancestors when missing, has become \<open>f\<close> of it.  The results: a check's counters after
  any recorded check, and that every node carries the path that leads to it.
\<close>

section \<open>Data\<close>

record check_record =
  chk_passes :: u64
  chk_fails :: u64

datatype 'h group_node = GroupNode (gn_name: string) (gn_path: string)
  (gn_children: "(string \<times> 'h group_node) list") (gn_checks: "(string \<times> check_record) list")
  (gn_duration: "'h trend_metric")

datatype group_snapshot = GroupSnapshot (gs_name: string) (gs_path: string)
  (gs_children: "(string \<times> group_snapshot) list") (gs_checks: "(string \<times> (u64 \<times> u64)) list")
  (gs_duration: "trend_stats option")

section \<open>Operations\<close>

definition group_root :: "'h hdr \<Rightarrow> 'h group_node" where
  "group_root H = GroupNode [] [] [] [] (trend_new H)"

definition group_child :: "'h hdr \<Rightarrow> string \<Rightarrow> string \<Rightarrow> 'h group_node" where
  "group_child H name path = GroupNode name path [] [] (trend_new H)"

definition with_children :: "(string \<times> 'h group_node) list \<Rightarrow> 'h group_node \<Rightarrow> 'h group_node" where
  "with_children cs n = GroupNode (gn_name n) (gn_path n) cs (gn_checks n) (gn_duration n)"

text \<open>The loop over the segments: \<open>acc\<close> is the path built so far, the cursor descends into the entry of
  each segment.\<close>

fun navigate_loop :: "'h hdr \<Rightarrow> ('h group_node \<Rightarrow> 'h group_node) \<Rightarrow> string list \<Rightarrow> string \<Rightarrow> 'h group_node \<Rightarrow> 'h group_node" where
  "navigate_loop H f [] acc n = f n"
| "navigate_loop H f (seg # segs) acc n =
     (let acc' = acc @ ''::'' @ seg;
          child = (case map_of (gn_children n) seg of None \<Rightarrow> group_child H seg acc' | Some c \<Rightarrow> c)
      in with_children (bt_put seg (navigate_loop H f segs acc' child) (gn_children n)) n)"

definition navigate_or_create :: "'h hdr \<Rightarrow> string list \<Rightarrow> ('h group_node \<Rightarrow> 'h group_node) \<Rightarrow> 'h group_node \<Rightarrow> 'h group_node" where
  "navigate_or_create H segs f n = navigate_loop H f segs (gn_path n) n"

definition record_check_on :: "string \<Rightarrow> bool \<Rightarrow> 'h group_node \<Rightarrow> 'h group_node" where
  "record_check_on name passed n =
     (let r = (case map_of (gn_checks n) name of None \<Rightarrow> \<lparr>chk_passes = 0, chk_fails = 0\<rparr> | Some r \<Rightarrow> r);
          r' = (if passed then r\<lparr>chk_passes := chk_passes r + 1\<rparr> else r\<lparr>chk_fails := chk_fails r + 1\<rparr>)
      in GroupNode (gn_name n) (gn_path n) (gn_children n) (bt_put name r' (gn_checks n)) (gn_duration n))"

definition check_add :: "'h hdr \<Rightarrow> string \<Rightarrow> string \<Rightarrow> bool \<Rightarrow> 'h group_node \<Rightarrow> 'h group_node" where
  "check_add H group_path name passed tree =
     navigate_or_create H (group_path_segments group_path) (record_check_on name passed) tree"

fun cursor_get :: "string list \<Rightarrow> 'h group_node \<Rightarrow> 'h group_node option" where
  "cursor_get [] n = Some n"
| "cursor_get (seg # segs) n = (case map_of (gn_children n) seg of None \<Rightarrow> None | Some c \<Rightarrow> cursor_get segs c)"

definition check_get :: "string \<Rightarrow> string \<Rightarrow> 'h group_node \<Rightarrow> u64 \<times> u64" where
  "check_get group_path name tree =
     (case cursor_get (group_path_segments group_path) tree of
        None \<Rightarrow> (0, 0)
      | Some n \<Rightarrow> (case map_of (gn_checks n) name of None \<Rightarrow> (0, 0) | Some r \<Rightarrow> (chk_passes r, chk_fails r)))"

definition group_register :: "'h hdr \<Rightarrow> string \<Rightarrow> 'h group_node \<Rightarrow> 'h group_node" where
  "group_register H group_path tree =
     (if group_path = [] then tree
      else navigate_or_create H (group_path_segments group_path) (\<lambda>n. n) tree)"

definition record_duration_on :: "'h hdr \<Rightarrow> f64 \<Rightarrow> 'h group_node \<Rightarrow> 'h group_node" where
  "record_duration_on H d n =
     GroupNode (gn_name n) (gn_path n) (gn_children n) (gn_checks n) (trend_record H d (gn_duration n))"

definition group_duration_add :: "'h hdr \<Rightarrow> string \<Rightarrow> f64 \<Rightarrow> 'h group_node \<Rightarrow> 'h group_node" where
  "group_duration_add H group_path duration_ms tree =
     navigate_or_create H (group_path_segments group_path) (record_duration_on H duration_ms) tree"

fun group_snapshot_of :: "'h hdr \<Rightarrow> 'h group_node \<Rightarrow> group_snapshot" where
  "group_snapshot_of H (GroupNode name path children checks dur) =
     GroupSnapshot name path (map (\<lambda>(k, v). (k, group_snapshot_of H v)) children)
       (map (\<lambda>(k, r). (k, (chk_passes r, chk_fails r))) checks)
       (if tr_count dur = 0 then None else Some (trend_stats_of H dur))"

section \<open>Well-formed trees\<close>

text \<open>Both maps are ordered, and every child sits under its own name with the path that leads to it.\<close>

fun group_wf :: "'h group_node \<Rightarrow> bool" where
  "group_wf (GroupNode name path children checks dur) \<longleftrightarrow>
     bt_wf children \<and> bt_wf checks \<and>
     (\<forall>p \<in> set children. gn_name (snd p) = fst p \<and> gn_path (snd p) = path @ ''::'' @ fst p \<and> group_wf (snd p))"

lemma group_wfD:
  assumes "group_wf n"
  shows "bt_wf (gn_children n)" "bt_wf (gn_checks n)"
    "map_of (gn_children n) k = Some c \<Longrightarrow> gn_name c = k \<and> gn_path c = gn_path n @ ''::'' @ k \<and> group_wf c"
  using assms by (cases n; auto dest!: map_of_SomeD)+

lemma group_sel [simp]:
  "gn_name (with_children cs n) = gn_name n" "gn_path (with_children cs n) = gn_path n"
  "gn_children (with_children cs n) = cs" "gn_checks (with_children cs n) = gn_checks n"
  "gn_duration (with_children cs n) = gn_duration n"
  by (simp_all add: with_children_def)

lemma group_child_facts [simp]:
  "gn_name (group_child H a p) = a" "gn_path (group_child H a p) = p" "gn_children (group_child H a p) = []"
  "gn_checks (group_child H a p) = []" "gn_duration (group_child H a p) = trend_new H" "group_wf (group_child H a p)"
  by (simp_all add: group_child_def)

text \<open>What the node updates of the registry keep.\<close>

definition node_update :: "('h group_node \<Rightarrow> 'h group_node) \<Rightarrow> bool" where
  "node_update f \<longleftrightarrow> (\<forall>n. gn_name (f n) = gn_name n \<and> gn_path (f n) = gn_path n \<and>
     gn_children (f n) = gn_children n \<and> (group_wf n \<longrightarrow> group_wf (f n)))"

lemma node_updateD:
  assumes "node_update f"
  shows "gn_name (f n) = gn_name n" "gn_path (f n) = gn_path n" "gn_children (f n) = gn_children n"
    "group_wf n \<Longrightarrow> group_wf (f n)"
  using assms by (auto simp: node_update_def)

lemma node_updates [simp]:
  "node_update (record_check_on name passed)" "node_update (record_duration_on H d)" "node_update (\<lambda>n. n)"
proof -
  show "node_update (record_check_on name passed)"
    unfolding node_update_def
  proof
    fix n
    show "gn_name (record_check_on name passed n) = gn_name n \<and> gn_path (record_check_on name passed n) = gn_path n \<and>
        gn_children (record_check_on name passed n) = gn_children n \<and>
        (group_wf n \<longrightarrow> group_wf (record_check_on name passed n))"
      by (cases n) (simp add: record_check_on_def Let_def)
  qed
  show "node_update (record_duration_on H d)"
    unfolding node_update_def
  proof
    fix n
    show "gn_name (record_duration_on H d n) = gn_name n \<and> gn_path (record_duration_on H d n) = gn_path n \<and>
        gn_children (record_duration_on H d n) = gn_children n \<and>
        (group_wf n \<longrightarrow> group_wf (record_duration_on H d n))"
      by (cases n) (simp add: record_duration_on_def)
  qed
qed (simp add: node_update_def)

text \<open>The child the loop descends into.\<close>

definition entry_child :: "'h hdr \<Rightarrow> string \<Rightarrow> string \<Rightarrow> 'h group_node \<Rightarrow> 'h group_node" where
  "entry_child H seg acc n = (case map_of (gn_children n) seg of None \<Rightarrow> group_child H seg acc | Some c \<Rightarrow> c)"

lemma navigate_Cons:
  "navigate_loop H f (seg # segs) acc n =
     with_children (bt_put seg (navigate_loop H f segs (acc @ ''::'' @ seg) (entry_child H seg (acc @ ''::'' @ seg) n)) (gn_children n)) n"
  by (simp add: entry_child_def Let_def)

declare navigate_loop.simps(2) [simp del]

lemma entry_child_wf:
  assumes "group_wf n" "acc = gn_path n @ ''::'' @ seg"
  shows "group_wf (entry_child H seg acc n)" "gn_path (entry_child H seg acc n) = acc" "gn_name (entry_child H seg acc n) = seg"
  using group_wfD(3)[OF assms(1), of seg] assms(2) by (auto simp: entry_child_def split: option.splits)

lemma bt_put_set: "p \<in> set (bt_put k v m) \<Longrightarrow> p = (k, v) \<or> p \<in> set m"
  by (induction m) (auto split: if_splits)

lemma navigate_wf:
  assumes f: "node_update f"
  shows "group_wf n \<Longrightarrow> acc = gn_path n \<Longrightarrow>
    group_wf (navigate_loop H f segs acc n) \<and> gn_name (navigate_loop H f segs acc n) = gn_name n \<and>
    gn_path (navigate_loop H f segs acc n) = gn_path n"
proof (induction segs arbitrary: acc n)
  case Nil
  then show ?case using node_updateD[OF f] by simp
next
  case (Cons seg segs)
  let ?acc = "acc @ ''::'' @ seg"
  let ?c = "entry_child H seg ?acc n" and ?d = "navigate_loop H f segs ?acc (entry_child H seg ?acc n)"
  have c: "group_wf ?c" "gn_path ?c = ?acc" "gn_name ?c = seg" using entry_child_wf[of n ?acc seg] Cons.prems by auto
  have d: "group_wf ?d" "gn_name ?d = seg" "gn_path ?d = ?acc" using Cons.IH[of ?c ?acc] c by auto
  have "bt_wf (bt_put seg ?d (gn_children n))" using group_wfD(1)[OF Cons.prems(1)] by simp
  moreover have "gn_name (snd p) = fst p \<and> gn_path (snd p) = gn_path n @ ''::'' @ fst p \<and> group_wf (snd p)"
    if "p \<in> set (bt_put seg ?d (gn_children n))" for p
  proof (cases "p = (seg, ?d)")
    case True
    then show ?thesis using d Cons.prems(2) by simp
  next
    case False
    then have "p \<in> set (gn_children n)" using that bt_put_set by fast
    then show ?thesis using Cons.prems(1) by (cases n) auto
  qed
  moreover have "bt_wf (gn_checks n)" using group_wfD(2)[OF Cons.prems(1)] .
  ultimately show ?case unfolding navigate_Cons by (simp add: with_children_def)
qed

text \<open>Reading after an update: at the updated path the update of the old (or fresh) node, elsewhere
  the old checks.\<close>

lemma cursor_navigate_other:
  assumes f: "node_update f"
  shows "group_wf n \<Longrightarrow> acc = gn_path n \<Longrightarrow> segs \<noteq> segs' \<Longrightarrow>
    map_option gn_checks (cursor_get segs' (navigate_loop H f segs acc n)) =
      (case cursor_get segs' n of Some m \<Rightarrow> Some (gn_checks m)
       | None \<Rightarrow> if \<exists>u. u \<noteq> [] \<and> segs = segs' @ u then Some [] else None)"
proof (induction segs arbitrary: acc n segs')
  case Nil
  then show ?case using node_updateD(3)[OF f] by (cases segs') (auto split: option.splits)
next
  case (Cons seg segs)
  let ?acc = "acc @ ''::'' @ seg"
  let ?c = "entry_child H seg ?acc n"
  have wf: "bt_wf (gn_children n)" using group_wfD(1)[OF Cons.prems(1)] .
  have c: "group_wf ?c" "gn_path ?c = ?acc" using entry_child_wf[of n ?acc seg] Cons.prems by auto
  show ?case
  proof (cases segs')
    case Nil
    then show ?thesis by (simp add: navigate_Cons)
  next
    case (Cons s' rest)
    show ?thesis
    proof (cases "s' = seg")
      case False
      then show ?thesis using Cons wf by (auto simp: navigate_Cons bt_get_put split: option.splits)
    next
      case True
      have ne: "segs \<noteq> rest" using Cons.prems(3) Cons True by simp
      have IH: "map_option gn_checks (cursor_get rest (navigate_loop H f segs ?acc ?c)) =
          (case cursor_get rest ?c of Some m \<Rightarrow> Some (gn_checks m)
           | None \<Rightarrow> if \<exists>u. u \<noteq> [] \<and> segs = rest @ u then Some [] else None)"
        using Cons.IH[of ?c ?acc rest] c ne by simp
      have "cursor_get rest (group_child H seg ?acc) = (if rest = [] then Some (group_child H seg ?acc) else None)"
        by (cases rest) simp_all
      then show ?thesis using IH Cons True wf ne
        by (auto simp: navigate_Cons bt_get_put entry_child_def split: option.splits if_splits)
    qed
  qed
qed

lemma cursor_navigate_same:
  assumes f: "node_update f" and g: "\<And>m. gn_checks (f m) = g (gn_checks m)"
  shows "group_wf n \<Longrightarrow> acc = gn_path n \<Longrightarrow>
    map_option gn_checks (cursor_get segs (navigate_loop H f segs acc n)) =
      Some (g (case cursor_get segs n of Some m \<Rightarrow> gn_checks m | None \<Rightarrow> []))"
proof (induction segs arbitrary: acc n)
  case Nil
  then show ?case by (simp add: g)
next
  case (Cons seg segs)
  let ?acc = "acc @ ''::'' @ seg"
  let ?c = "entry_child H seg ?acc n"
  have wf: "bt_wf (gn_children n)" using group_wfD(1)[OF Cons.prems(1)] .
  have c: "group_wf ?c" "gn_path ?c = ?acc" using entry_child_wf[of n ?acc seg] Cons.prems by auto
  have IH: "map_option gn_checks (cursor_get segs (navigate_loop H f segs ?acc ?c)) =
      Some (g (case cursor_get segs ?c of Some m \<Rightarrow> gn_checks m | None \<Rightarrow> []))"
    using Cons.IH[of ?c ?acc] c by simp
  have "(case cursor_get segs (group_child H seg ?acc) of Some m \<Rightarrow> gn_checks m | None \<Rightarrow> []) = []"
    by (cases segs) simp_all
  then show ?case using IH wf
    by (auto simp: navigate_Cons bt_get_put entry_child_def split: option.splits)
qed

definition bump :: "string \<Rightarrow> bool \<Rightarrow> (string \<times> check_record) list \<Rightarrow> (string \<times> check_record) list" where
  "bump name passed m =
     (let r = (case map_of m name of None \<Rightarrow> \<lparr>chk_passes = 0, chk_fails = 0\<rparr> | Some r \<Rightarrow> r)
      in bt_put name (if passed then r\<lparr>chk_passes := chk_passes r + 1\<rparr> else r\<lparr>chk_fails := chk_fails r + 1\<rparr>) m)"

lemma record_check_bump: "gn_checks (record_check_on name passed n) = bump name passed (gn_checks n)"
  by (simp add: record_check_on_def bump_def Let_def)

lemma cursor_wf: "group_wf n \<Longrightarrow> cursor_get segs n = Some m \<Longrightarrow> group_wf m"
proof (induction segs arbitrary: n)
  case (Cons seg segs)
  then show ?case using group_wfD(3)[OF Cons.prems(1), of seg] by (auto split: option.splits)
qed simp

text \<open>The checks of the node at a path, none when there is no such node.\<close>

definition checks_at :: "string list \<Rightarrow> 'h group_node \<Rightarrow> (string \<times> check_record) list" where
  "checks_at segs n = (case cursor_get segs n of None \<Rightarrow> [] | Some m \<Rightarrow> gn_checks m)"

lemma check_get_at:
  "check_get p name t = (case map_of (checks_at (group_path_segments p) t) name of None \<Rightarrow> (0, 0) | Some r \<Rightarrow> (chk_passes r, chk_fails r))"
  by (simp add: check_get_def checks_at_def split: option.splits)

lemma checks_at_map: "map_option gn_checks (cursor_get segs n) = Some cs \<Longrightarrow> checks_at segs n = cs"
  "map_option gn_checks (cursor_get segs n) = None \<Longrightarrow> checks_at segs n = []"
  by (auto simp: checks_at_def)

lemma checks_at_wf: "group_wf n \<Longrightarrow> bt_wf (checks_at segs n)"
  using cursor_wf[of n segs] group_wfD(2) by (auto simp: checks_at_def split: option.splits)

lemma checks_at_navigate:
  assumes f: "node_update f" and g: "\<And>m. gn_checks (f m) = g (gn_checks m)" and wf: "group_wf t"
  shows "checks_at segs' (navigate_or_create H segs f t) = (if segs' = segs then g (checks_at segs t) else checks_at segs' t)"
proof (cases "segs' = segs")
  case True
  have "map_option gn_checks (cursor_get segs (navigate_loop H f segs (gn_path t) t)) = Some (g (checks_at segs t))"
    using cursor_navigate_same[OF f g wf refl] by (simp add: checks_at_def)
  then show ?thesis using True checks_at_map(1) by (simp add: navigate_or_create_def)
next
  case False
  then show ?thesis using cursor_navigate_other[OF f wf refl, of segs segs' H]
    unfolding navigate_or_create_def
    by (auto simp: checks_at_def split: option.splits if_splits)
qed

lemma tree_ops_wf:
  assumes "group_wf t"
  shows "group_wf (check_add H p name b t)" "group_wf (group_register H p t)" "group_wf (group_duration_add H p d t)"
  using assms by (simp_all add: check_add_def group_register_def group_duration_add_def navigate_or_create_def navigate_wf)

section \<open>Runs of the tree operations\<close>

datatype tree_op = CheckAdd string string bool | GroupRegister string | GroupDuration string f64

fun op_path :: "tree_op \<Rightarrow> string" where
  "op_path (CheckAdd p name passed) = p"
| "op_path (GroupRegister p) = p"
| "op_path (GroupDuration p d) = p"

fun tree_step :: "'h hdr \<Rightarrow> tree_op \<Rightarrow> 'h group_node \<Rightarrow> 'h group_node" where
  "tree_step H (CheckAdd p name passed) t = check_add H p name passed t"
| "tree_step H (GroupRegister p) t = group_register H p t"
| "tree_step H (GroupDuration p d) t = group_duration_add H p d t"

definition tree_run :: "'h hdr \<Rightarrow> tree_op list \<Rightarrow> 'h group_node" where
  "tree_run H ops = fold (tree_step H) ops (group_root H)"

definition path_text :: "string list \<Rightarrow> string" where
  "path_text segs = concat (map (\<lambda>s. ''::'' @ s) segs)"

lemma group_root_wf [simp]: "group_wf (group_root H)" "gn_path (group_root H) = []"
  by (simp_all add: group_root_def)

lemma tree_step_navigate:
  obtains f where "node_update f" "tree_step H op t = navigate_or_create H (group_path_segments (op_path op)) f t"
proof (cases op)
  case (GroupRegister p)
  then show thesis using that[of "\<lambda>n. n"]
    by (cases "p = []") (simp_all add: group_register_def group_path_segments_def navigate_or_create_def)
next
  case (CheckAdd p name passed)
  then show thesis using that[of "record_check_on name passed"] by (simp add: check_add_def)
next
  case (GroupDuration p d)
  then show thesis using that[of "record_duration_on H d"] by (simp add: group_duration_add_def)
qed

lemma tree_step_wf: "group_wf t \<Longrightarrow> group_wf (tree_step H op t)"
  by (cases op) (simp_all add: tree_ops_wf)

lemma tree_step_path: "group_wf t \<Longrightarrow> gn_path (tree_step H op t) = gn_path t"
  using tree_step_navigate[of H op t] navigate_wf unfolding navigate_or_create_def by metis

lemma navigate_finds:
  assumes "node_update f" "group_wf t"
  shows "cursor_get segs (navigate_or_create H segs f t) \<noteq> None"
    and "cursor_get q t \<noteq> None \<Longrightarrow> cursor_get q (navigate_or_create H segs f t) \<noteq> None"
proof -
  show a: "cursor_get segs (navigate_or_create H segs f t) \<noteq> None"
  proof -
    have "group_wf n \<Longrightarrow> acc = gn_path n \<Longrightarrow> cursor_get segs (navigate_loop H f segs acc n) \<noteq> None" for acc n
    proof (induction segs arbitrary: acc n)
      case (Cons seg segs)
      have wf: "bt_wf (gn_children n)" using group_wfD(1)[OF Cons.prems(1)] .
      show ?case using Cons.IH[of "entry_child H seg (acc @ ''::'' @ seg) n" "acc @ ''::'' @ seg"]
          entry_child_wf[OF Cons.prems(1), of "acc @ ''::'' @ seg" seg] wf Cons.prems(2)
        by (simp add: navigate_Cons bt_get_put)
    qed simp
    then show ?thesis using assms(2) by (simp add: navigate_or_create_def)
  qed
  assume q: "cursor_get q t \<noteq> None"
  show "cursor_get q (navigate_or_create H segs f t) \<noteq> None"
  proof (cases "q = segs")
    case False
    then show ?thesis using q cursor_navigate_other[OF assms refl, of segs q H]
      by (auto simp: navigate_or_create_def)
  qed (use a in simp)
qed

lemma tree_step_finds:
  assumes "group_wf t"
  shows "cursor_get (group_path_segments (op_path op)) (tree_step H op t) \<noteq> None"
    and "cursor_get q t \<noteq> None \<Longrightarrow> cursor_get q (tree_step H op t) \<noteq> None"
  using tree_step_navigate[of H op t] navigate_finds assms by metis+

lemma tree_fold_facts:
  assumes "group_wf t"
  shows "group_wf (fold (tree_step H) ops t)" "gn_path (fold (tree_step H) ops t) = gn_path t"
    "cursor_get q t \<noteq> None \<Longrightarrow> cursor_get q (fold (tree_step H) ops t) \<noteq> None"
    "op \<in> set ops \<Longrightarrow> cursor_get (group_path_segments (op_path op)) (fold (tree_step H) ops t) \<noteq> None"
proof -
  have keep: "group_wf t \<Longrightarrow> group_wf (fold (tree_step H) ops t) \<and> gn_path (fold (tree_step H) ops t) = gn_path t \<and>
      (cursor_get q t \<noteq> None \<longrightarrow> cursor_get q (fold (tree_step H) ops t) \<noteq> None)" for q t ops
  proof (induction ops arbitrary: t)
    case (Cons op ops)
    show ?case using Cons.IH[OF tree_step_wf[OF Cons.prems, of H op]] tree_step_path[OF Cons.prems, of H op]
        tree_step_finds(2)[OF Cons.prems, of q H op] by simp
  qed simp
  show "group_wf (fold (tree_step H) ops t)" "gn_path (fold (tree_step H) ops t) = gn_path t"
    "cursor_get q t \<noteq> None \<Longrightarrow> cursor_get q (fold (tree_step H) ops t) \<noteq> None"
    using keep[OF assms] by auto
  assume "op \<in> set ops"
  then obtain as bs where o: "ops = as @ op # bs" by (meson split_list)
  let ?t = "fold (tree_step H) as t"
  have w: "group_wf ?t" using keep[OF assms] by blast
  show "cursor_get (group_path_segments (op_path op)) (fold (tree_step H) ops t) \<noteq> None"
    using keep[OF tree_step_wf[OF w, of H op]] tree_step_finds(1)[OF w, of op H] by (simp add: o)
qed

lemma cursor_path: "group_wf t \<Longrightarrow> cursor_get segs t = Some n \<Longrightarrow> gn_path n = gn_path t @ path_text segs"
proof (induction segs arbitrary: t)
  case (Cons seg segs)
  then show ?case using group_wfD(3)[OF Cons.prems(1), of seg] by (auto simp: path_text_def split: option.splits)
qed (simp add: path_text_def)

section \<open>Properties\<close>

text \<open>Check counters.  After a check is recorded under a group path, reading a check gives its old
  counters, plus one pass or one failure when its path has the same segments and its name is the
  same; registering groups and recording group durations leaves every check as it was.\<close>

lemma check_get_after_add:
  assumes "group_wf t"
  shows "check_get p' name' (check_add H p name passed t) =
      (let (a, b) = check_get p' name' t
       in if group_path_segments p' = group_path_segments p \<and> name' = name
          then (if passed then (a + 1, b) else (a, b + 1)) else (a, b)) \<and>
    check_get p' name' (group_register H p t) = check_get p' name' t \<and>
    check_get p' name' (group_duration_add H p d t) = check_get p' name' t"
proof -
  let ?s = "group_path_segments p"
  have add: "checks_at q (check_add H p name passed t) = (if q = ?s then bump name passed (checks_at ?s t) else checks_at q t)" for q
    unfolding check_add_def by (rule checks_at_navigate) (simp_all add: record_check_bump assms)
  have reg: "checks_at q (group_register H p t) = checks_at q t" for q
    unfolding group_register_def using checks_at_navigate[of "\<lambda>n. n" "\<lambda>m. m" t q H ?s] assms by simp
  have dur: "checks_at q (group_duration_add H p d t) = checks_at q t" for q
    unfolding group_duration_add_def using checks_at_navigate[of "record_duration_on H d" "\<lambda>m. m" t q H ?s] assms
    by (simp add: record_duration_on_def)
  have "map_of (bump name passed (checks_at ?s t)) name' = (if name' = name
      then Some (let r = (case map_of (checks_at ?s t) name of None \<Rightarrow> \<lparr>chk_passes = 0, chk_fails = 0\<rparr> | Some r \<Rightarrow> r)
        in if passed then r\<lparr>chk_passes := chk_passes r + 1\<rparr> else r\<lparr>chk_fails := chk_fails r + 1\<rparr>)
      else map_of (checks_at ?s t) name')"
    by (simp add: bump_def Let_def bt_get_put checks_at_wf[OF assms])
  then show ?thesis by (auto simp: check_get_at add reg dur Let_def split: option.splits)
qed

text \<open>A tree with a group \<open>A\<close>, a nested group and one passed check.\<close>

definition example_ops :: "tree_op list" where
  "example_ops = [GroupRegister ''::A'', CheckAdd ''::A::B'' ''ok'' True, GroupDuration ''::A'' (flit 3)]"

text \<open>Shape of the group tree.  After any sequence of recorded checks, registered groups and group
  durations, the node of every group path used is in the tree, and every node of the tree carries
  as its path the segments that lead to it, each after \<open>::\<close>.\<close>

lemma group_tree_paths:
  "(\<forall>op \<in> set ops. \<exists>n. cursor_get (group_path_segments (op_path op)) (tree_run H ops) = Some n) \<and>
   (\<forall>segs n. cursor_get segs (tree_run H ops) = Some n \<longrightarrow> gn_path n = path_text segs)"
proof (intro conjI ballI allI impI)
  show "\<exists>n. cursor_get (group_path_segments (op_path op)) (tree_run H ops) = Some n" if "op \<in> set ops" for op
    using tree_fold_facts(4)[OF group_root_wf(1) that, of H] by (simp add: tree_run_def)
  show "gn_path n = path_text segs" if "cursor_get segs (tree_run H ops) = Some n" for segs n
    using cursor_path[OF _ that] tree_fold_facts(1,2)[OF group_root_wf(1), of H ops] by (simp add: tree_run_def)
qed

end
