(* ===== verification/Metrics.thy ===== *)
theory Metrics
  imports EventStream GroupTree
begin

text \<open>
  The metrics registry (\<open>crates/k6-core/src/metrics.rs\<close>, \<open>MetricsRegistry\<close>, the metric structs, the
  snapshot and the derived views, \<open>BuiltinMetrics\<close>).  An operation of the registry is a state
  transformer; \<open>None\<close> is a panic (only the splitter of the event sink can panic).  The atomics are
  words: \<open>fetch_add\<close> wraps, and so do \<open>+=\<close> and \<open>sum\<close> in a release build.  The iteration order of a
  \<open>HashMap\<close> is the order of its association list.  The results: live reads and snapshot entries are
  the aggregate of exactly the samples whose tags contain the query's, and the two agree.
\<close>

section \<open>Data\<close>

record gauge_metric =
  g_value :: u64
  g_min :: u64
  g_max :: u64

record rate_metric =
  r_passes :: u64
  r_total :: u64

text \<open>The crates the registry calls: the channel of the event sink and the histogram.\<close>

record ('c, 'h) deps =
  chan :: "'c mpsc"
  hist :: "'h hdr"

text \<open>\<open>reg_clock n\<close> is what the \<open>n\<close>-th call of \<open>OffsetDateTime::now_utc\<close> returns and \<open>reg_reads\<close> counts the
  calls.\<close>

record ('c, 'h) registry =
  metric_contains :: "(string, string) hm"
  counters :: "(string, u64) hm"
  gauges :: "(string, gauge_metric) hm"
  rates :: "(string, rate_metric) hm"
  trends :: "(string, 'h trend_metric) hm"
  group_tree :: "'h group_node"
  reg_sink :: "'c event_sink option"
  reg_clock :: "nat \<Rightarrow> int"
  reg_reads :: nat

record 'h metrics_snapshot =
  snap_counters :: "(string \<times> u64 \<times> f64) list"
  snap_gauges :: "(string \<times> f64 \<times> f64 \<times> f64) list"
  snap_rates :: "(string \<times> f64 \<times> u64 \<times> u64) list"
  snap_trends :: "(string \<times> trend_stats) list"
  snap_hists :: "(string, 'h) hm"
  snap_tree :: group_snapshot

section \<open>Metric structs\<close>

definition counter_new :: u64 where
  "counter_new = 0"

definition counter_merge :: "u64 \<Rightarrow> u64 \<Rightarrow> u64" where
  "counter_merge c other = c + other"

definition gauge_new :: gauge_metric where
  "gauge_new = \<lparr>g_value = 0, g_min = 0xFFFFFFFFFFFFFFFF, g_max = 0\<rparr>"

definition gauge_store :: "u64 \<Rightarrow> gauge_metric \<Rightarrow> gauge_metric" where
  "gauge_store bits g = \<lparr>g_value = bits, g_min = min (g_min g) bits, g_max = max (g_max g) bits\<rparr>"

definition rate_new :: rate_metric where
  "rate_new = \<lparr>r_passes = 0, r_total = 0\<rparr>"

definition rate_merge :: "rate_metric \<Rightarrow> rate_metric \<Rightarrow> rate_metric" where
  "rate_merge r other = \<lparr>r_passes = r_passes r + r_passes other, r_total = r_total r + r_total other\<rparr>"

definition rate_hit :: "bool \<Rightarrow> rate_metric \<Rightarrow> rate_metric" where
  "rate_hit passed r = r\<lparr>r_total := r_total r + 1, r_passes := (if passed then r_passes r + 1 else r_passes r)\<rparr>"

definition rate_ratio :: "u64 \<Rightarrow> u64 \<Rightarrow> f64" where
  "rate_ratio passes tot = (if 0 < tot then fdiv (f_of_u64 passes) (f_of_u64 tot) else f0)"

section \<open>Registry operations\<close>

definition register_contains :: "string \<Rightarrow> string \<Rightarrow> ('c, 'h) registry \<Rightarrow> ('c, 'h) registry" where
  "register_contains name contains r =
     (case map_of (metric_contains r) name of
        Some _ \<Rightarrow> r
      | None \<Rightarrow> r\<lparr>metric_contains := hm_put name contains (metric_contains r)\<rparr>)"

definition registry_contains :: "string \<Rightarrow> ('c, 'h) registry \<Rightarrow> string" where
  "registry_contains name r =
     (let base = hd (split_on (CHR ''{'') name)
      in case map_of (metric_contains r) base of
           Some value \<Rightarrow> value
         | None \<Rightarrow>
             if base \<in> set [''data_sent'', ''data_received''] then ''data''
             else if starts_with ''http_req_'' base \<and> base \<noteq> ''http_req_failed'' \<or>
                base \<in> set [''iteration_duration'', ''group_duration'', ''ws_connecting'', ''ws_session_duration'',
                            ''ws_ping'', ''grpc_req_duration'']
             then ''time'' else ''default'')"

definition registry_new :: "('c, 'h) deps \<Rightarrow> (nat \<Rightarrow> int) \<Rightarrow> ('c, 'h) registry" where
  "registry_new D clock =
     \<lparr>metric_contains = [], counters = [], gauges = [], rates = [], trends = [],
      group_tree = group_root (hist D), reg_sink = None, reg_clock = clock, reg_reads = 0\<rparr>"

definition set_event_sink :: "'c event_sink \<Rightarrow> ('c, 'h) registry \<Rightarrow> 'c event_sink + ('c, 'h) registry" where
  "set_event_sink sink r = (case reg_sink r of Some _ \<Rightarrow> Inl sink | None \<Rightarrow> Inr (r\<lparr>reg_sink := Some sink\<rparr>))"

definition clear_event_sink :: "('c, 'h) registry \<Rightarrow> ('c, 'h) registry" where
  "clear_event_sink r = r\<lparr>reg_sink := None\<rparr>"

definition emit_to_sink ::
    "('c, 'h) deps \<Rightarrow> metric_kind \<Rightarrow> string \<Rightarrow> f64 \<Rightarrow> ('c, 'h) registry \<Rightarrow> ('c, 'h) registry option" where
  "emit_to_sink D kind canonical_name value r =
     (case reg_sink r of
        None \<Rightarrow> Some r
      | Some sink \<Rightarrow>
          (case split_canonical_for_sink canonical_name of
             None \<Rightarrow> None
           | Some (name, tags) \<Rightarrow>
               Some (r\<lparr>reg_sink := Some (try_record (chan D)
                        \<lparr>ev_name = name, ev_kind = kind, ev_time = reg_clock r (reg_reads r),
                         ev_value = value, ev_tags = tags\<rparr> sink),
                      reg_reads := reg_reads r + 1\<rparr>)))"

definition counter_add :: "('c, 'h) deps \<Rightarrow> string \<Rightarrow> u64 \<Rightarrow> ('c, 'h) registry \<Rightarrow> ('c, 'h) registry option" where
  "counter_add D name value r =
     (let m = counters r;
          m' = (case map_of m name of
                  Some c \<Rightarrow> hm_put name (c + value) m
                | None \<Rightarrow> hm_put name (counter_new + value) m)
      in emit_to_sink D Counter name (f_of_u64 value) (r\<lparr>counters := m'\<rparr>))"

definition counter_get :: "string \<Rightarrow> ('c, 'h) registry \<Rightarrow> u64" where
  "counter_get name r =
     (let query = parse_query name
      in sum_list (map snd (filter (\<lambda>(stored, c). stored_matches_query stored query name) (counters r))))"

definition gauge_set :: "('c, 'h) deps \<Rightarrow> string \<Rightarrow> f64 \<Rightarrow> ('c, 'h) registry \<Rightarrow> ('c, 'h) registry option" where
  "gauge_set D name value r =
     (let m = gauges r; bits = f_to_bits value;
          m' = (case map_of m name of
                  Some g \<Rightarrow> hm_put name (gauge_store bits g) m
                | None \<Rightarrow> hm_put name (gauge_store bits gauge_new) m)
      in emit_to_sink D Gauge name value (r\<lparr>gauges := m'\<rparr>))"

definition gauge_get :: "string \<Rightarrow> ('c, 'h) registry \<Rightarrow> f64" where
  "gauge_get name r = (case map_of (gauges r) name of Some g \<Rightarrow> f_from_bits (g_value g) | None \<Rightarrow> f0)"

definition rate_add :: "('c, 'h) deps \<Rightarrow> string \<Rightarrow> bool \<Rightarrow> ('c, 'h) registry \<Rightarrow> ('c, 'h) registry option" where
  "rate_add D name passed r =
     (let m = rates r;
          m' = (case map_of m name of
                  Some x \<Rightarrow> hm_put name (rate_hit passed x) m
                | None \<Rightarrow> hm_put name (rate_hit passed rate_new) m)
      in emit_to_sink D Rate name (if passed then flit 1 else f0) (r\<lparr>rates := m'\<rparr>))"

fun rate_get_loop :: "metric_selector option \<Rightarrow> string \<Rightarrow> u64 \<times> u64 \<Rightarrow> (string, rate_metric) hm \<Rightarrow> u64 \<times> u64" where
  "rate_get_loop query name (passes, tot) [] = (passes, tot)"
| "rate_get_loop query name (passes, tot) ((stored, x) # m) =
     (if stored_matches_query stored query name
      then rate_get_loop query name (passes + r_passes x, tot + r_total x) m
      else rate_get_loop query name (passes, tot) m)"

definition rate_get :: "string \<Rightarrow> ('c, 'h) registry \<Rightarrow> f64 \<times> u64 \<times> u64" where
  "rate_get name r =
     (let (passes, tot) = rate_get_loop (parse_query name) name (0, 0) (rates r)
      in (rate_ratio passes tot, passes, tot))"

definition trend_add :: "('c, 'h) deps \<Rightarrow> string \<Rightarrow> f64 \<Rightarrow> ('c, 'h) registry \<Rightarrow> ('c, 'h) registry option" where
  "trend_add D name value_ms r =
     (let m = trends r;
          m' = (case map_of m name of
                  Some t \<Rightarrow> hm_put name (trend_record (hist D) value_ms t) m
                | None \<Rightarrow> hm_put name (trend_record (hist D) value_ms (trend_new (hist D))) m)
      in emit_to_sink D Trend name value_ms (r\<lparr>trends := m'\<rparr>))"

fun trend_merge_loop ::
    "'h hdr \<Rightarrow> metric_selector option \<Rightarrow> string \<Rightarrow> 'h trend_metric option \<Rightarrow> (string, 'h trend_metric) hm \<Rightarrow> 'h trend_metric option" where
  "trend_merge_loop H query name merged [] = merged"
| "trend_merge_loop H query name merged ((stored, t) # m) =
     (if \<not> stored_matches_query stored query name then trend_merge_loop H query name merged m
      else trend_merge_loop H query name (Some (case merged of Some x \<Rightarrow> trend_merge H x t | None \<Rightarrow> t)) m)"

definition trend_stats :: "('c, 'h) deps \<Rightarrow> string \<Rightarrow> ('c, 'h) registry \<Rightarrow> trend_stats option" where
  "trend_stats D name r =
     map_option (trend_stats_of (hist D)) (trend_merge_loop (hist D) (parse_query name) name None (trends r))"

definition counter_add_with_tags :: "('c, 'h) deps \<Rightarrow> string \<Rightarrow> u64 \<Rightarrow> tag_map \<Rightarrow> ('c, 'h) registry \<Rightarrow> ('c, 'h) registry option" where
  "counter_add_with_tags D name value tags r = counter_add D (canonical \<lparr>sel_name = name, sel_tags = tags\<rparr>) value r"

definition rate_add_with_tags :: "('c, 'h) deps \<Rightarrow> string \<Rightarrow> bool \<Rightarrow> tag_map \<Rightarrow> ('c, 'h) registry \<Rightarrow> ('c, 'h) registry option" where
  "rate_add_with_tags D name passed tags r = rate_add D (canonical \<lparr>sel_name = name, sel_tags = tags\<rparr>) passed r"

definition trend_add_with_tags :: "('c, 'h) deps \<Rightarrow> string \<Rightarrow> f64 \<Rightarrow> tag_map \<Rightarrow> ('c, 'h) registry \<Rightarrow> ('c, 'h) registry option" where
  "trend_add_with_tags D name value_ms tags r = trend_add D (canonical \<lparr>sel_name = name, sel_tags = tags\<rparr>) value_ms r"

definition counter_add_tagged :: "('c, 'h) deps \<Rightarrow> string \<Rightarrow> u64 \<Rightarrow> (string \<times> string) list \<Rightarrow> ('c, 'h) registry \<Rightarrow> ('c, 'h) registry option" where
  "counter_add_tagged D name value tags r = counter_add D (canonical_key name (canonical_tag_suffix tags)) value r"

definition rate_add_tagged :: "('c, 'h) deps \<Rightarrow> string \<Rightarrow> bool \<Rightarrow> (string \<times> string) list \<Rightarrow> ('c, 'h) registry \<Rightarrow> ('c, 'h) registry option" where
  "rate_add_tagged D name passed tags r = rate_add D (canonical_key name (canonical_tag_suffix tags)) passed r"

definition trend_add_tagged :: "('c, 'h) deps \<Rightarrow> string \<Rightarrow> f64 \<Rightarrow> (string \<times> string) list \<Rightarrow> ('c, 'h) registry \<Rightarrow> ('c, 'h) registry option" where
  "trend_add_tagged D name value_ms tags r = trend_add D (canonical_key name (canonical_tag_suffix tags)) value_ms r"

section \<open>Derived views and the snapshot\<close>

text \<open>The loop the three derivations share: \<open>entry(target).and_modify(merge).or_insert_with(clone)\<close>.\<close>

definition derive_entry :: "('v \<Rightarrow> 'v \<Rightarrow> 'v) \<Rightarrow> 'v \<Rightarrow> string \<Rightarrow> (string, 'v) hm \<Rightarrow> (string, 'v) hm" where
  "derive_entry merge x target out =
     (case map_of out target of Some m \<Rightarrow> hm_put target (merge m x) out | None \<Rightarrow> hm_put target x out)"

fun derive_loop :: "('v \<Rightarrow> 'v \<Rightarrow> 'v) \<Rightarrow> (string, 'v) hm \<Rightarrow> (string, 'v) hm \<Rightarrow> (string, 'v) hm" where
  "derive_loop merge out [] = out"
| "derive_loop merge out ((key, x) # stored) =
     derive_loop merge (fold (derive_entry merge x) (derive_targets key) out) stored"

definition derive_counters :: "(string, u64) hm \<Rightarrow> (string, u64) hm" where
  "derive_counters stored = derive_loop counter_merge [] stored"

definition derive_trends :: "'h hdr \<Rightarrow> (string, 'h trend_metric) hm \<Rightarrow> (string, 'h trend_metric) hm" where
  "derive_trends H stored = derive_loop (trend_merge H) [] stored"

definition derive_rates :: "(string, rate_metric) hm \<Rightarrow> (string, rate_metric) hm" where
  "derive_rates stored = derive_loop rate_merge [] stored"

definition counter_row :: "f64 \<Rightarrow> string \<times> u64 \<Rightarrow> string \<times> u64 \<times> f64" where
  "counter_row duration_secs p =
     (fst p, snd p, if flt f0 duration_secs then fdiv (f_of_u64 (snd p)) duration_secs else f0)"

definition gauge_row :: "string \<times> gauge_metric \<Rightarrow> string \<times> f64 \<times> f64 \<times> f64" where
  "gauge_row p =
     (let val = f_from_bits (g_value (snd p)); lo = f_from_bits (g_min (snd p)); hi = f_from_bits (g_max (snd p))
      in (fst p, val, if feq lo (f_from_bits 0xFFFFFFFFFFFFFFFF) then val else lo, hi))"

definition rate_row :: "string \<times> rate_metric \<Rightarrow> string \<times> f64 \<times> u64 \<times> u64" where
  "rate_row p = (fst p, rate_ratio (r_passes (snd p)) (r_total (snd p)), r_passes (snd p), r_total (snd p))"

definition snapshot :: "('c, 'h) deps \<Rightarrow> f64 \<Rightarrow> ('c, 'h) registry \<Rightarrow> 'h metrics_snapshot" where
  "snapshot D duration_secs r =
     \<lparr>snap_counters = sort_key fst (map (counter_row duration_secs) (derive_counters (counters r))),
      snap_gauges = sort_key fst (map gauge_row (gauges r)),
      snap_rates = sort_key fst (map rate_row (derive_rates (rates r))),
      snap_trends = sort_key fst (map (\<lambda>(name, t). (name, trend_stats_of (hist D) t)) (derive_trends (hist D) (trends r))),
      snap_hists = map (\<lambda>(name, t). (name, tr_hist t)) (derive_trends (hist D) (trends r)),
      snap_tree = group_snapshot_of (hist D) (group_tree r)\<rparr>"

definition snapshot_percentile_ms :: "('c, 'h) deps \<Rightarrow> 'h metrics_snapshot \<Rightarrow> string \<Rightarrow> f64 \<Rightarrow> f64 option" where
  "snapshot_percentile_ms D snap metric percentile =
     (case map_of (snap_hists snap) metric of
        None \<Rightarrow> None
      | Some h \<Rightarrow>
          if hdr_len (hist D) h = 0 then Some f0
          else (let q = fclamp (fdiv percentile (flit 100)) f0 (flit 1)
                in Some (fdiv (f_of_u64 (hdr_quantile (hist D) q h)) (flit 1000))))"

section \<open>Built-in metrics\<close>

text \<open>The timings of a response (\<open>crates/k6-core/src/traits.rs\<close>).\<close>

record timings =
  tm_duration :: f64
  tm_blocked :: f64
  tm_connecting :: f64
  tm_tls_handshaking :: f64
  tm_sending :: f64
  tm_waiting :: f64
  tm_receiving :: f64

definition set_vus :: "('c, 'h) deps \<Rightarrow> u32 \<Rightarrow> ('c, 'h) registry \<Rightarrow> ('c, 'h) registry option" where
  "set_vus D cnt r = gauge_set D ''vus'' (f_of_u32 cnt) r"

definition set_vus_max :: "('c, 'h) deps \<Rightarrow> u32 \<Rightarrow> ('c, 'h) registry \<Rightarrow> ('c, 'h) registry option" where
  "set_vus_max D cnt r = gauge_set D ''vus_max'' (f_of_u32 cnt) r"

definition record_iteration :: "('c, 'h) deps \<Rightarrow> f64 \<Rightarrow> ('c, 'h) registry \<Rightarrow> ('c, 'h) registry option" where
  "record_iteration D duration_ms r =
     Option.bind (counter_add D ''iterations'' 1 r) (trend_add D ''iteration_duration'' duration_ms)"

definition record_dropped_iteration :: "('c, 'h) deps \<Rightarrow> ('c, 'h) registry \<Rightarrow> ('c, 'h) registry option" where
  "record_dropped_iteration D r = counter_add D ''dropped_iterations'' 1 r"

definition record_dropped_iterations :: "('c, 'h) deps \<Rightarrow> u64 \<Rightarrow> ('c, 'h) registry \<Rightarrow> ('c, 'h) registry option" where
  "record_dropped_iterations D cnt r = (if 0 < cnt then counter_add D ''dropped_iterations'' cnt r else Some r)"

definition record_check :: "('c, 'h) deps \<Rightarrow> string \<Rightarrow> string \<Rightarrow> bool \<Rightarrow> ('c, 'h) registry \<Rightarrow> ('c, 'h) registry option" where
  "record_check D name group_path passed r =
     rate_add D ''checks'' passed (r\<lparr>group_tree := check_add (hist D) group_path name passed (group_tree r)\<rparr>)"

definition register_group :: "('c, 'h) deps \<Rightarrow> string \<Rightarrow> ('c, 'h) registry \<Rightarrow> ('c, 'h) registry" where
  "register_group D group_path r = r\<lparr>group_tree := group_register (hist D) group_path (group_tree r)\<rparr>"

definition record_group_duration :: "('c, 'h) deps \<Rightarrow> string \<Rightarrow> f64 \<Rightarrow> ('c, 'h) registry \<Rightarrow> ('c, 'h) registry option" where
  "record_group_duration D group_path duration_ms r =
     trend_add D ''group_duration'' duration_ms
       (r\<lparr>group_tree := group_duration_add (hist D) group_path duration_ms (group_tree r)\<rparr>)"

text \<open>The key buffer is passed from one write to the next.\<close>

definition record_http_request_tagged_with_failure ::
    "('c, 'h) deps \<Rightarrow> timings \<Rightarrow> bool option \<Rightarrow> (string \<times> string) list \<Rightarrow> ('c, 'h) registry \<Rightarrow> ('c, 'h) registry option" where
  "record_http_request_tagged_with_failure D t failed tags r =
     (let suffix = canonical_tag_suffix tags;
          k1 = write_canonical_key [] ''http_reqs'' suffix;
          k2 = (case failed of None \<Rightarrow> k1 | Some f \<Rightarrow> write_canonical_key k1 ''http_req_failed'' suffix);
          k3 = write_canonical_key k2 ''http_req_duration'' suffix;
          k4 = write_canonical_key k3 ''http_req_blocked'' suffix;
          k5 = write_canonical_key k4 ''http_req_connecting'' suffix;
          k6 = write_canonical_key k5 ''http_req_tls_handshaking'' suffix;
          k7 = write_canonical_key k6 ''http_req_sending'' suffix;
          k8 = write_canonical_key k7 ''http_req_waiting'' suffix;
          k9 = write_canonical_key k8 ''http_req_receiving'' suffix
      in Option.bind (counter_add D k1 1 r) (\<lambda>r1.
         Option.bind (case failed of None \<Rightarrow> Some r1 | Some f \<Rightarrow> rate_add D k2 f r1) (\<lambda>r2.
         Option.bind (trend_add D k3 (tm_duration t) r2) (\<lambda>r3.
         Option.bind (trend_add D k4 (tm_blocked t) r3) (\<lambda>r4.
         Option.bind (trend_add D k5 (tm_connecting t) r4) (\<lambda>r5.
         Option.bind (trend_add D k6 (tm_tls_handshaking t) r5) (\<lambda>r6.
         Option.bind (trend_add D k7 (tm_sending t) r6) (\<lambda>r7.
         Option.bind (trend_add D k8 (tm_waiting t) r7) (\<lambda>r8.
         trend_add D k9 (tm_receiving t) r8)))))))))"

definition record_http_request_tagged ::
    "('c, 'h) deps \<Rightarrow> timings \<Rightarrow> bool \<Rightarrow> (string \<times> string) list \<Rightarrow> ('c, 'h) registry \<Rightarrow> ('c, 'h) registry option" where
  "record_http_request_tagged D t failed tags r = record_http_request_tagged_with_failure D t (Some failed) tags r"

definition record_http_request :: "('c, 'h) deps \<Rightarrow> timings \<Rightarrow> bool \<Rightarrow> ('c, 'h) registry \<Rightarrow> ('c, 'h) registry option" where
  "record_http_request D t failed r = record_http_request_tagged D t failed [] r"

definition record_data_sent :: "('c, 'h) deps \<Rightarrow> u64 \<Rightarrow> ('c, 'h) registry \<Rightarrow> ('c, 'h) registry option" where
  "record_data_sent D bytes r = counter_add D ''data_sent'' bytes r"

definition record_data_received :: "('c, 'h) deps \<Rightarrow> u64 \<Rightarrow> ('c, 'h) registry \<Rightarrow> ('c, 'h) registry option" where
  "record_data_received D bytes r = counter_add D ''data_received'' bytes r"

definition record_ws_session :: "('c, 'h) deps \<Rightarrow> f64 \<Rightarrow> (string \<times> string) list \<Rightarrow> ('c, 'h) registry \<Rightarrow> ('c, 'h) registry option" where
  "record_ws_session D duration_ms tags r =
     Option.bind (counter_add_tagged D ''ws_sessions'' 1 tags r) (trend_add_tagged D ''ws_session_duration'' duration_ms tags)"

definition record_ws_connecting :: "('c, 'h) deps \<Rightarrow> f64 \<Rightarrow> (string \<times> string) list \<Rightarrow> ('c, 'h) registry \<Rightarrow> ('c, 'h) registry option" where
  "record_ws_connecting D duration_ms tags r = trend_add_tagged D ''ws_connecting'' duration_ms tags r"

definition record_ws_msg_sent :: "('c, 'h) deps \<Rightarrow> (string \<times> string) list \<Rightarrow> ('c, 'h) registry \<Rightarrow> ('c, 'h) registry option" where
  "record_ws_msg_sent D tags r = counter_add_tagged D ''ws_msgs_sent'' 1 tags r"

definition record_ws_msg_received :: "('c, 'h) deps \<Rightarrow> (string \<times> string) list \<Rightarrow> ('c, 'h) registry \<Rightarrow> ('c, 'h) registry option" where
  "record_ws_msg_received D tags r = counter_add_tagged D ''ws_msgs_received'' 1 tags r"

definition record_ws_ping :: "('c, 'h) deps \<Rightarrow> f64 \<Rightarrow> (string \<times> string) list \<Rightarrow> ('c, 'h) registry \<Rightarrow> ('c, 'h) registry option" where
  "record_ws_ping D duration_ms tags r = trend_add_tagged D ''ws_ping'' duration_ms tags r"

definition record_grpc_request :: "('c, 'h) deps \<Rightarrow> f64 \<Rightarrow> (string \<times> string) list \<Rightarrow> ('c, 'h) registry \<Rightarrow> ('c, 'h) registry option" where
  "record_grpc_request D duration_ms tags r =
     Option.bind (counter_add_tagged D ''grpc_reqs'' 1 tags r) (trend_add_tagged D ''grpc_req_duration'' duration_ms tags)"

section \<open>Merging in iteration order\<close>

fun opt_fold :: "('v \<Rightarrow> 'v \<Rightarrow> 'v) \<Rightarrow> 'v option \<Rightarrow> 'v list \<Rightarrow> 'v option" where
  "opt_fold merge acc [] = acc"
| "opt_fold merge acc (x # xs) = opt_fold merge (Some (case acc of Some m \<Rightarrow> merge m x | None \<Rightarrow> x)) xs"

lemma derive_entry_get:
  "map_of (derive_entry merge x target out) t =
     (if t = target then Some (case map_of out t of Some m \<Rightarrow> merge m x | None \<Rightarrow> x) else map_of out t)"
  by (auto simp: derive_entry_def hm_get_put split: option.splits)

lemma derive_entry_wf [simp]: "hm_wf out \<Longrightarrow> hm_wf (derive_entry merge x target out)"
  by (auto simp: derive_entry_def split: option.splits)

lemma derive_entries_get:
  "distinct ts \<Longrightarrow> map_of (fold (derive_entry merge x) ts out) t =
     (if t \<in> set ts then Some (case map_of out t of Some m \<Rightarrow> merge m x | None \<Rightarrow> x) else map_of out t)"
  by (induction ts arbitrary: out) (auto simp: derive_entry_get)

lemma derive_entries_wf: "hm_wf out \<Longrightarrow> hm_wf (fold (derive_entry merge x) ts out)"
  by (induction ts arbitrary: out) auto

lemma derive_loop_wf: "hm_wf out \<Longrightarrow> hm_wf (derive_loop merge out stored)"
  by (induction merge out stored rule: derive_loop.induct) (auto simp: derive_entries_wf)

lemma canonical_brace: "sel_tags s \<noteq> [] \<Longrightarrow> CHR ''{'' \<in> set (canonical s)"
  by (simp add: canonical_def)

lemma selector_parse_name: "selector_parse k = Inr s \<Longrightarrow> name_ok (sel_name s)"
  using selector_parse_ok by (simp add: selector_wf_def)

lemma derive_targets_distinct: "distinct (derive_targets k)"
proof (cases "selector_parse k")
  case (Inr s)
  have "sel_tags s \<noteq> [] \<Longrightarrow> canonical s \<noteq> sel_name s"
    using canonical_brace[of s] name_ok_sets[OF selector_parse_name[OF Inr]] by auto
  then show ?thesis using Inr by (auto simp: derive_targets_def)
qed (simp add: derive_targets_def)

lemma derive_loop_get:
  "map_of (derive_loop merge out stored) t =
     opt_fold merge (map_of out t) (map snd (filter (\<lambda>p. t \<in> set (derive_targets (fst p))) stored))"
  by (induction merge out stored rule: derive_loop.induct)
    (auto simp: derive_entries_get[OF derive_targets_distinct])

text \<open>A plain metric name, the query for the untagged aggregate.\<close>

lemma plain_query:
  assumes "name_ok n" shows "parse_query n = Some (selector_new n)"
  using selector_parse_untagged[OF assms] by (simp add: parse_query_def)

lemma plain_target:
  assumes "name_ok n"
  shows "n \<in> set (derive_targets k) \<longleftrightarrow> stored_matches_query k (parse_query n) n"
proof (cases "selector_parse k")
  case (Inl e)
  then show ?thesis by (auto simp: derive_targets_def stored_matches_query_def plain_query[OF assms])
next
  case (Inr s)
  have "canonical s = n \<longleftrightarrow> sel_tags s = [] \<and> sel_name s = n"
    using canonical_brace[of s] name_ok_sets[OF assms] by (auto simp: canonical_def)
  then show ?thesis using Inr
    by (auto simp: derive_targets_def stored_matches_query_def plain_query[OF assms] selector_new_def)
qed

lemma matching_eq:
  assumes "name_ok n"
  shows "filter (\<lambda>p. n \<in> set (derive_targets (fst p))) m = filter (\<lambda>p. stored_matches_query (fst p) (parse_query n) n) m"
  using plain_target[OF assms] by simp

abbreviation matching :: "string \<Rightarrow> (string, 'v) hm \<Rightarrow> 'v list" where
  "matching q m \<equiv> map snd (filter (\<lambda>p. stored_matches_query (fst p) (parse_query q) q) m)"

lemma derived_get: "name_ok n \<Longrightarrow> map_of (derive_loop merge [] m) n = opt_fold merge None (matching n m)"
  by (simp add: derive_loop_get matching_eq)

lemma trend_merge_loop_fold:
  "trend_merge_loop H query name acc m =
     opt_fold (trend_merge H) acc (map snd (filter (\<lambda>p. stored_matches_query (fst p) query name) m))"
  by (induction H query name acc m rule: trend_merge_loop.induct) auto

lemma counter_get_sum: "counter_get q r = sum_list (matching q (counters r))"
  by (simp add: counter_get_def case_prod_unfold)

lemma rate_get_loop_sum:
  "rate_get_loop query name pt m =
     (fst pt + sum_list (map r_passes (map snd (filter (\<lambda>p. stored_matches_query (fst p) query name) m))),
      snd pt + sum_list (map r_total (map snd (filter (\<lambda>p. stored_matches_query (fst p) query name) m))))"
  by (induction query name pt m rule: rate_get_loop.induct) (auto simp: add.assoc)

lemma rate_get_sum:
  "rate_get q r = (let p = sum_list (map r_passes (matching q (rates r))); t = sum_list (map r_total (matching q (rates r)))
     in (rate_ratio p t, p, t))"
  by (simp add: rate_get_def rate_get_loop_sum Let_def)

section \<open>Mergeable metrics\<close>

text \<open>The contract of a metric kind whose merge does not depend on the order: then neither do the
  derived views.\<close>

locale mergeable =
  fixes merge :: "'v \<Rightarrow> 'v \<Rightarrow> 'v"
  assumes merge_assoc: "merge (merge a b) c = merge a (merge b c)"
    and merge_comm: "merge a b = merge b a"
begin

lemma opt_fold_swap: "opt_fold merge acc (x # y # zs) = opt_fold merge acc (y # x # zs)"
proof -
  have "merge (merge a x) y = merge (merge a y) x" for a by (metis merge_assoc merge_comm)
  then show ?thesis using merge_comm[of x y] by (cases acc) auto
qed

lemma opt_fold_move: "opt_fold merge acc (xs @ y # zs) = opt_fold merge acc (y # xs @ zs)"
proof (induction xs arbitrary: acc)
  case (Cons x xs)
  have "opt_fold merge acc ((x # xs) @ y # zs) = opt_fold merge acc (x # y # xs @ zs)"
    using Cons by simp
  then show ?case using opt_fold_swap[of acc x y "xs @ zs"] by simp
qed simp

lemma opt_fold_mset: "mset xs = mset ys \<Longrightarrow> opt_fold merge acc xs = opt_fold merge acc ys"
proof (induction xs arbitrary: acc ys)
  case (Cons x xs)
  then have "x \<in> set ys" by (metis list.set_intros(1) mset_eq_setD)
  then obtain as bs where ys: "ys = as @ x # bs" by (meson split_list)
  then have "mset xs = mset (as @ bs)" using Cons.prems by simp
  then have "opt_fold merge acc' xs = opt_fold merge acc' (as @ bs)" for acc' by (rule Cons.IH)
  then show ?case unfolding ys opt_fold_move by simp
qed simp

lemma derived_mset:
  assumes "mset m = mset m'" shows "map_of (derive_loop merge [] m) = map_of (derive_loop merge [] m')"
proof
  fix t
  have "mset (map snd (filter (\<lambda>p. t \<in> set (derive_targets (fst p))) m)) =
      mset (map snd (filter (\<lambda>p. t \<in> set (derive_targets (fst p))) m'))"
    using assms by simp
  then show "map_of (derive_loop merge [] m) t = map_of (derive_loop merge [] m') t"
    unfolding derive_loop_get by (rule opt_fold_mset)
qed

end

interpretation cnt: mergeable counter_merge
  by unfold_locales (simp_all add: counter_merge_def ac_simps)

interpretation rt: mergeable rate_merge
  by unfold_locales (simp_all add: rate_merge_def ac_simps)

lemma opt_fold_counters: "opt_fold counter_merge None xs = (if xs = [] then None else Some (sum_list xs))"
proof -
  have "opt_fold counter_merge (Some a) xs = Some (a + sum_list xs)" for a xs
    by (induction xs arbitrary: a) (simp_all add: counter_merge_def ac_simps)
  then show ?thesis by (cases xs) auto
qed

lemma opt_fold_rates:
  "opt_fold rate_merge None xs =
     (if xs = [] then None else Some \<lparr>r_passes = sum_list (map r_passes xs), r_total = sum_list (map r_total xs)\<rparr>)"
proof -
  have "opt_fold rate_merge (Some a) xs = Some \<lparr>r_passes = r_passes a + sum_list (map r_passes xs), r_total = r_total a + sum_list (map r_total xs)\<rparr>" for a xs
    by (induction xs arbitrary: a) (simp_all add: rate_merge_def ac_simps)
  then show ?thesis by (cases xs) auto
qed

section \<open>Snapshot rows\<close>

lemma sort_fst_map:
  assumes "distinct (map fst xs)"
  shows "bt_wf (sort_key fst xs)" "map_of (sort_key fst xs) = map_of xs"
proof -
  have d: "distinct (map fst (sort_key fst xs))"
    using assms by (metis mset_map mset_sort mset_eq_imp_distinct_iff)
  have "sorted (map fst (sort_key fst xs))" by simp
  then show "bt_wf (sort_key fst xs)" using d by (simp add: bt_wf_def strict_sorted_iff)
  show "map_of (sort_key fst xs) = map_of xs" using assms d by (intro map_of_inject_set[THEN iffD2]) auto
qed

lemma hm_rows:
  assumes "hm_wf m" "\<And>p. fst (f p) = fst p"
  shows "distinct (map fst (map f m))" "(n, y) \<in> set (sort_key fst (map f m)) \<longleftrightarrow> (\<exists>x. map_of m n = Some x \<and> f (n, x) = (n, y))"
proof -
  have "map fst (map f m) = map fst m" using assms(2) by simp
  then show "distinct (map fst (map f m))" using assms(1) by (simp only: hm_wf_def)
  have "(n, y) \<in> set (sort_key fst (map f m)) \<longleftrightarrow> (\<exists>p \<in> set m. f p = (n, y))" by force
  also have "\<dots> \<longleftrightarrow> (\<exists>x. (n, x) \<in> set m \<and> f (n, x) = (n, y))" using assms(2) by (metis fst_conv prod.collapse)
  finally show "(n, y) \<in> set (sort_key fst (map f m)) \<longleftrightarrow> (\<exists>x. map_of m n = Some x \<and> f (n, x) = (n, y))"
    using assms(1) by (simp add: hm_wf_def)
qed

lemma sorted_rows_eq:
  assumes "hm_wf m" "hm_wf m'" "map_of m = map_of m'" "\<And>p. fst (f p) = fst p"
  shows "sort_key fst (map f m) = sort_key fst (map f m')"
proof (rule bt_ext)
  note d = hm_rows(1)[of m f, OF assms(1,4)] hm_rows(1)[of m' f, OF assms(2,4)]
  show "bt_wf (sort_key fst (map f m))" "bt_wf (sort_key fst (map f m'))" using sort_fst_map(1) d by blast+
  have "set m = set m'" using assms(1-3) by (simp add: hm_wf_def map_of_inject_set)
  then have "set (map f m) = set (map f m')" by simp
  then have "map_of (map f m) = map_of (map f m')" using d by (simp only: map_of_inject_set)
  then show "map_of (sort_key fst (map f m)) = map_of (sort_key fst (map f m'))" using sort_fst_map(2) d by metis
qed


section \<open>The sample log\<close>

text \<open>What a run records, one sample after the other, and what the registry is meant to be: the log
  of the samples, read through the subset match.\<close>

datatype sample = CounterS string u64 | GaugeS string f64 | RateS string bool | TrendS string f64

fun sample_key :: "sample \<Rightarrow> string" where
  "sample_key (CounterS k v) = k"
| "sample_key (GaugeS k v) = k"
| "sample_key (RateS k b) = k"
| "sample_key (TrendS k v) = k"

fun record_sample :: "('c, 'h) deps \<Rightarrow> sample \<Rightarrow> ('c, 'h) registry \<Rightarrow> ('c, 'h) registry option" where
  "record_sample D (CounterS k v) r = counter_add D k v r"
| "record_sample D (GaugeS k v) r = gauge_set D k v r"
| "record_sample D (RateS k b) r = rate_add D k b r"
| "record_sample D (TrendS k v) r = trend_add D k v r"

fun record_samples :: "('c, 'h) deps \<Rightarrow> sample list \<Rightarrow> ('c, 'h) registry \<Rightarrow> ('c, 'h) registry option" where
  "record_samples D [] r = Some r"
| "record_samples D (s # ss) r = Option.bind (record_sample D s r) (record_samples D ss)"

fun log_counter :: "(string \<Rightarrow> bool) \<Rightarrow> sample \<Rightarrow> u64" where
  "log_counter P (CounterS k v) = (if P k then v else 0)"
| "log_counter P _ = 0"

fun log_passes :: "(string \<Rightarrow> bool) \<Rightarrow> sample \<Rightarrow> u64" where
  "log_passes P (RateS k b) = (if P k \<and> b then 1 else 0)"
| "log_passes P _ = 0"

fun log_total :: "(string \<Rightarrow> bool) \<Rightarrow> sample \<Rightarrow> u64" where
  "log_total P (RateS k b) = (if P k then 1 else 0)"
| "log_total P _ = 0"

fun log_gauge :: "string \<Rightarrow> sample \<Rightarrow> f64 list" where
  "log_gauge n (GaugeS k v) = (if k = n then [v] else [])"
| "log_gauge n _ = []"

fun log_trend :: "string \<Rightarrow> sample \<Rightarrow> f64 list" where
  "log_trend n (TrendS k v) = (if k = n then [v] else [])"
| "log_trend n _ = []"

definition gauge_of :: "f64 list \<Rightarrow> gauge_metric" where
  "gauge_of vs = fold (\<lambda>v. gauge_store (f_to_bits v)) vs gauge_new"

text \<open>A key the event sink can take: there is no sink, or the key splits.\<close>

definition key_safe :: "('c, 'h) registry \<Rightarrow> string \<Rightarrow> bool" where
  "key_safe r key \<longleftrightarrow> reg_sink r = None \<or> split_canonical_for_sink key \<noteq> None"

lemma emit_to_sink_safe:
  assumes "key_safe r key"
  obtains r' where "emit_to_sink D kind key v r = Some r'" "counters r' = counters r" "gauges r' = gauges r"
    "rates r' = rates r" "trends r' = trends r" "group_tree r' = group_tree r" "\<And>k. key_safe r' k = key_safe r k"
proof (cases "reg_sink r")
  case None
  then show thesis using that[of r] by (simp add: emit_to_sink_def)
next
  case (Some sink)
  then obtain name tags where s: "split_canonical_for_sink key = Some (name, tags)"
    using assms by (auto simp: key_safe_def)
  let ?ev = "\<lparr>ev_name = name, ev_kind = kind, ev_time = reg_clock r (reg_reads r), ev_value = v, ev_tags = tags\<rparr>"
  show thesis by (rule that[of "r\<lparr>reg_sink := Some (try_record (chan D) ?ev sink), reg_reads := reg_reads r + 1\<rparr>"])
    (simp_all add: emit_to_sink_def Some s key_safe_def)
qed

lemma sum_put:
  fixes f :: "'v \<Rightarrow> u64"
  shows "sum_list (map f (map snd (filter (\<lambda>p. P (fst p)) (hm_put k v m)))) =
     sum_list (map f (map snd (filter (\<lambda>p. P (fst p)) m))) +
       (if P k then f v - (case map_of m k of Some c \<Rightarrow> f c | None \<Rightarrow> 0) else 0)"
  unfolding hm_put_def by (induction m) (auto split: option.splits)

lemmas sum_put_id = sum_put[where f = "\<lambda>x. x", simplified]

text \<open>The reading of the registry as a function of the samples so far.\<close>

definition reads_log :: "('c, 'h) deps \<Rightarrow> sample list \<Rightarrow> ('c, 'h) registry \<Rightarrow> bool" where
  "reads_log D ss r \<longleftrightarrow>
     (\<forall>P. sum_list (map snd (filter (\<lambda>p. P (fst p)) (counters r))) = sum_list (map (log_counter P) ss)) \<and>
     (\<forall>P. sum_list (map r_passes (map snd (filter (\<lambda>p. P (fst p)) (rates r)))) = sum_list (map (log_passes P) ss) \<and>
          sum_list (map r_total (map snd (filter (\<lambda>p. P (fst p)) (rates r)))) = sum_list (map (log_total P) ss)) \<and>
     (\<forall>k. map_of (gauges r) k = (let vs = concat (map (log_gauge k) ss) in if vs = [] then None else Some (gauge_of vs))) \<and>
     (\<forall>k. map_of (trends r) k = (let vs = concat (map (log_trend k) ss) in if vs = [] then None else Some (trend_of (hist D) vs)))"

lemma emit_log:
  assumes "key_safe r k" "reads_log D ss r"
  shows "\<exists>r'. emit_to_sink D kind k v r = Some r' \<and> reads_log D ss r' \<and> (\<forall>j. key_safe r' j = key_safe r j)"
proof -
  obtain r' where "emit_to_sink D kind k v r = Some r'" "counters r' = counters r" "gauges r' = gauges r"
    "rates r' = rates r" "trends r' = trends r" "\<And>k. key_safe r' k = key_safe r k"
    using emit_to_sink_safe[OF assms(1), of D kind v] by metis
  then show ?thesis using assms(2) by (simp add: reads_log_def)
qed

lemma put_default:
  "(case map_of m k of Some c \<Rightarrow> hm_put k (f c) m | None \<Rightarrow> hm_put k (f d) m) =
     hm_put k (f (case map_of m k of Some c \<Rightarrow> c | None \<Rightarrow> d)) m"
  by (auto split: option.splits)

lemma record_sample_log:
  assumes "key_safe r (sample_key s)" and l: "reads_log D ss r"
  shows "\<exists>r'. record_sample D s r = Some r' \<and> reads_log D (ss @ [s]) r' \<and> (\<forall>k. key_safe r' k = key_safe r k)"
proof (cases s)
  case (CounterS k v)
  let ?r = "r\<lparr>counters := hm_put k ((case map_of (counters r) k of Some c \<Rightarrow> c | None \<Rightarrow> counter_new) + v) (counters r)\<rparr>"
  have "key_safe ?r k" "\<And>j. key_safe ?r j = key_safe r j" using assms(1) CounterS by (simp_all add: key_safe_def)
  moreover have "record_sample D s r = emit_to_sink D Counter k (f_of_u64 v) ?r"
    by (simp add: CounterS counter_add_def Let_def put_default[where f = "\<lambda>c. c + v"])
  moreover have "reads_log D (ss @ [s]) ?r"
    using l by (auto simp: reads_log_def CounterS counter_new_def sum_put_id split: option.splits)
  ultimately show ?thesis using emit_log[of ?r k D "ss @ [s]" Counter "f_of_u64 v"] by simp
next
  case (GaugeS k v)
  let ?r = "r\<lparr>gauges := hm_put k (gauge_store (f_to_bits v) (case map_of (gauges r) k of Some c \<Rightarrow> c | None \<Rightarrow> gauge_new)) (gauges r)\<rparr>"
  have "key_safe ?r k" "\<And>j. key_safe ?r j = key_safe r j" using assms(1) GaugeS by (simp_all add: key_safe_def)
  moreover have "record_sample D s r = emit_to_sink D Gauge k v ?r"
    by (simp add: GaugeS gauge_set_def Let_def put_default)
  moreover have "reads_log D (ss @ [s]) ?r"
    using l by (auto simp: reads_log_def GaugeS hm_get_put gauge_of_def Let_def simp del: concat_eq_Nil_conv split: option.splits)
  ultimately show ?thesis using emit_log[of ?r k D "ss @ [s]" Gauge v] by simp
next
  case (RateS k b)
  let ?r = "r\<lparr>rates := hm_put k (rate_hit b (case map_of (rates r) k of Some c \<Rightarrow> c | None \<Rightarrow> rate_new)) (rates r)\<rparr>"
  have "key_safe ?r k" "\<And>j. key_safe ?r j = key_safe r j" using assms(1) RateS by (simp_all add: key_safe_def)
  moreover have "record_sample D s r = emit_to_sink D Rate k (if b then flit 1 else f0) ?r"
    by (simp add: RateS rate_add_def Let_def put_default)
  moreover have "reads_log D (ss @ [s]) ?r"
    using l by (auto simp: reads_log_def RateS sum_put[unfolded map_map] rate_hit_def rate_new_def split: option.splits)
  ultimately show ?thesis using emit_log[of ?r k D "ss @ [s]" Rate "if b then flit 1 else f0"] by simp
next
  case (TrendS k v)
  let ?r = "r\<lparr>trends := hm_put k (trend_record (hist D) v (case map_of (trends r) k of Some c \<Rightarrow> c | None \<Rightarrow> trend_new (hist D))) (trends r)\<rparr>"
  have "key_safe ?r k" "\<And>j. key_safe ?r j = key_safe r j" using assms(1) TrendS by (simp_all add: key_safe_def)
  moreover have "record_sample D s r = emit_to_sink D Trend k v ?r"
    by (simp add: TrendS trend_add_def Let_def put_default)
  moreover have "reads_log D (ss @ [s]) ?r"
    using l by (auto simp: reads_log_def TrendS hm_get_put trend_of_def Let_def simp del: concat_eq_Nil_conv split: option.splits)
  ultimately show ?thesis using emit_log[of ?r k D "ss @ [s]" Trend v] by simp
qed

lemma record_samples_log:
  assumes "\<forall>s \<in> set ss. key_safe r (sample_key s)" and "reads_log D pre r"
  shows "\<exists>r'. record_samples D ss r = Some r' \<and> reads_log D (pre @ ss) r'"
  using assms
proof (induction ss arbitrary: r pre)
  case (Cons s ss)
  obtain r' where r': "record_sample D s r = Some r'" "reads_log D (pre @ [s]) r'" "\<forall>k. key_safe r' k = key_safe r k"
    using record_sample_log[of r s D pre] Cons.prems by auto
  then have "\<exists>r''. record_samples D ss r' = Some r'' \<and> reads_log D ((pre @ [s]) @ ss) r''"
    using Cons.prems by (intro Cons.IH) auto
  then show ?case using r'(1) by simp
qed simp


lemma reads_log_queries:
  fixes q :: string
  assumes "reads_log D ss r"
  defines "P \<equiv> \<lambda>k. stored_matches_query k (parse_query q) q"
  shows "counter_get q r = sum_list (map (log_counter P) ss)"
    "rate_get q r = (let p = sum_list (map (log_passes P) ss); t = sum_list (map (log_total P) ss) in (rate_ratio p t, p, t))"
proof -
  have "sum_list (map snd (filter (\<lambda>p. P (fst p)) (counters r))) = sum_list (map (log_counter P) ss)"
    and "sum_list (map r_passes (map snd (filter (\<lambda>p. P (fst p)) (rates r)))) = sum_list (map (log_passes P) ss)"
    and "sum_list (map r_total (map snd (filter (\<lambda>p. P (fst p)) (rates r)))) = sum_list (map (log_total P) ss)"
    using assms(1) unfolding reads_log_def by blast+
  then show "counter_get q r = sum_list (map (log_counter P) ss)"
    "rate_get q r = (let p = sum_list (map (log_passes P) ss); t = sum_list (map (log_total P) ss) in (rate_ratio p t, p, t))"
    unfolding counter_get_sum rate_get_sum by (simp_all add: P_def)
qed

section \<open>Gauges\<close>

text \<open>Folding the raw bits with \<open>min\<close> and \<open>max\<close>, and reading the result back.\<close>

lemma gauge_of_fields:
  "vs \<noteq> [] \<Longrightarrow> g_value (gauge_of vs) = f_to_bits (last vs)"
  "vs \<noteq> [] \<Longrightarrow> g_min (gauge_of vs) = Min (f_to_bits ` set vs)"
  "vs \<noteq> [] \<Longrightarrow> g_max (gauge_of vs) = Max (f_to_bits ` set vs)"
proof -
  have st: "g_value (fold (\<lambda>v. gauge_store (f_to_bits v)) vs g) = (if vs = [] then g_value g else f_to_bits (last vs)) \<and>
      g_min (fold (\<lambda>v. gauge_store (f_to_bits v)) vs g) = Min (insert (g_min g) (f_to_bits ` set vs)) \<and>
      g_max (fold (\<lambda>v. gauge_store (f_to_bits v)) vs g) = Max (insert (g_max g) (f_to_bits ` set vs))" for g
  proof (induction vs arbitrary: g)
    case (Cons v vs)
    have "Min (insert (min a b) S) = Min (insert a (insert b S))" "Max (insert (max a b) S) = Max (insert a (insert b S))"
      if "finite S" for a b :: u64 and S
      using that by (cases "S = {}"; simp add: min.assoc max.assoc)+
    then show ?case using Cons.IH[of "gauge_store (f_to_bits v) g"] by (simp add: gauge_store_def)
  qed simp
  assume ne: "vs \<noteq> []"
  have "Min (insert 0xFFFFFFFFFFFFFFFF S) = Min S" if "finite S" "S \<noteq> {}" for S :: "u64 set"
  proof -
    have "Min S \<le> (0xFFFFFFFFFFFFFFFF :: u64)" using uint_lt2p[of "Min S"] by (simp add: word_le_def)
    then show ?thesis using that by (simp add: min_absorb2)
  qed
  then show "g_min (gauge_of vs) = Min (f_to_bits ` set vs)" using st[of gauge_new] ne
    by (simp add: gauge_of_def gauge_new_def)
  show "g_value (gauge_of vs) = f_to_bits (last vs)" "g_max (gauge_of vs) = Max (f_to_bits ` set vs)"
    using st[of gauge_new] ne by (simp_all add: gauge_of_def gauge_new_def)
qed

text \<open>The test for a gauge never set compares with a NaN, so it never holds.\<close>

lemma gauge_row_eq:
  "gauge_row (n, g) = (n, f_from_bits (g_value g), f_from_bits (g_min g), f_from_bits (g_max g))"
proof -
  have "f_from_bits 0xFFFFFFFFFFFFFFFF = F64_NaN" by (simp add: f_from_bits_def)
  then show ?thesis by (simp add: gauge_row_def Let_def feq_def)
qed

lemma bits_extreme:
  assumes "vs \<noteq> []" "\<forall>v \<in> set vs. f64_wf v"
  obtains lo hi where "lo \<in> set vs" "hi \<in> set vs"
    "f_from_bits (Min (f_to_bits ` set vs)) = lo" "f_from_bits (Max (f_to_bits ` set vs)) = hi"
    "\<forall>v \<in> set vs. f_to_bits lo \<le> f_to_bits v \<and> f_to_bits v \<le> f_to_bits hi"
proof -
  have "Min (f_to_bits ` set vs) \<in> f_to_bits ` set vs" "Max (f_to_bits ` set vs) \<in> f_to_bits ` set vs"
    using assms(1) by (intro Min_in Max_in; simp)+
  then obtain lo hi where l: "lo \<in> set vs" "Min (f_to_bits ` set vs) = f_to_bits lo"
    and h: "hi \<in> set vs" "Max (f_to_bits ` set vs) = f_to_bits hi" by auto
  have "\<forall>v \<in> set vs. f_to_bits lo \<le> f_to_bits v \<and> f_to_bits v \<le> f_to_bits hi"
    using l(2) h(2) by (metis List.finite_set Max_ge Min_le finite_imageI imageI)
  then show thesis using that[of lo hi] l h assms(2) f_from_to_bits by metis
qed

text \<open>The samples of one HTTP request.\<close>

definition http_samples :: "timings \<Rightarrow> bool option \<Rightarrow> (string \<times> string) list \<Rightarrow> sample list" where
  "http_samples t failed tags =
     (let key = (\<lambda>name. canonical \<lparr>sel_name = name, sel_tags = tags_of tags\<rparr>)
      in [CounterS (key ''http_reqs'') 1] @
         (case failed of None \<Rightarrow> [] | Some f \<Rightarrow> [RateS (key ''http_req_failed'') f]) @
         [TrendS (key ''http_req_duration'') (tm_duration t), TrendS (key ''http_req_blocked'') (tm_blocked t),
          TrendS (key ''http_req_connecting'') (tm_connecting t), TrendS (key ''http_req_tls_handshaking'') (tm_tls_handshaking t),
          TrendS (key ''http_req_sending'') (tm_sending t), TrendS (key ''http_req_waiting'') (tm_waiting t),
          TrendS (key ''http_req_receiving'') (tm_receiving t)])"

lemma written_key: "write_canonical_key buf name (canonical_tag_suffix tags) = canonical \<lparr>sel_name = name, sel_tags = tags_of tags\<rparr>"
proof -
  have "write_canonical_key buf name sfx = canonical_key name sfx" for sfx
    by (simp add: write_canonical_key_def canonical_key_def)
  then show ?thesis by (simp add: canonical_tag_suffix_text)
qed

lemma record_samples_fun:
  "record_samples D [] = Some" "record_samples D (s # ss) = (\<lambda>r. Option.bind (record_sample D s r) (record_samples D ss))"
  by (simp_all add: fun_eq_iff)

section \<open>Properties\<close>

text \<open>A run with a sink: tagged and untagged samples of one counter, two rate samples, a gauge and a
  trend.\<close>

definition example_deps :: "(sink_event list, u64 list) deps" where
  "example_deps = \<lparr>chan = list_channel 2, hist = list_hdr\<rparr>"

definition example_log :: "sample list" where
  "example_log = [CounterS ''http_reqs{method:GET}'' 2, CounterS ''http_reqs'' 3, RateS ''checks'' True,
     GaugeS ''vus'' (flit 4), RateS ''checks'' False, TrendS ''http_req_duration{method:GET}'' (flit 7)]"

definition example_registry :: "(sink_event list, u64 list) registry" where
  "example_registry = the (record_samples example_deps (take 3 example_log) (registry_new example_deps int))"

text \<open>C1.  The registry implements the sample log.  From an empty registry with any event sink, recording
  any samples whose keys the sink can split never panics, and afterwards: a counter query returns
  the sum of the counter samples whose key matches it, a rate query the passes and the number of
  the matching rate samples with their ratio, a gauge holds its samples in order, and the trend
  stored under a key is the trend of exactly its samples.\<close>

theorem registry_implements_log:
  assumes "\<forall>s \<in> set ss. sink = None \<or> split_canonical_for_sink (sample_key s) \<noteq> None"
  shows "\<exists>r. record_samples D ss ((registry_new D clock)\<lparr>reg_sink := sink\<rparr>) = Some r \<and>
    (\<forall>q. counter_get q r = sum_list (map (log_counter (\<lambda>k. stored_matches_query k (parse_query q) q)) ss) \<and>
         rate_get q r =
           (let p = sum_list (map (log_passes (\<lambda>k. stored_matches_query k (parse_query q) q)) ss);
                t = sum_list (map (log_total (\<lambda>k. stored_matches_query k (parse_query q) q)) ss)
            in (rate_ratio p t, p, t))) \<and>
    (\<forall>k. map_of (gauges r) k = (let vs = concat (map (log_gauge k) ss) in if vs = [] then None else Some (gauge_of vs)) \<and>
         map_of (trends r) k = (let vs = concat (map (log_trend k) ss) in if vs = [] then None else Some (trend_of (hist D) vs)))"
proof -
  let ?r = "(registry_new D clock)\<lparr>reg_sink := sink\<rparr>"
  have "reads_log D [] ?r" by (simp add: reads_log_def registry_new_def)
  then obtain r where r: "record_samples D ss ?r = Some r" and l: "reads_log D ss r"
    using record_samples_log[of ss ?r D "[]"] assms by (auto simp: key_safe_def)
  show ?thesis
    using r l reads_log_queries[OF l] by (intro exI[of _ r]) (simp add: reads_log_def)
qed

theorem registry_implements_log_witness:
  "list_all (\<lambda>s. split_canonical_for_sink (sample_key s) \<noteq> None) example_log \<and>
   (\<exists>r. record_samples example_deps example_log ((registry_new example_deps int)\<lparr>reg_sink := Some (sink_build [] 2)\<rparr>) = Some r \<and>
        counter_get ''http_reqs'' r = 5 \<and> counter_get ''http_reqs{method:GET}'' r = 2)"
proof -
  have k: "list_all (\<lambda>s. split_canonical_for_sink (sample_key s) \<noteq> None) example_log" by code_simp
  then have h: "\<forall>s \<in> set example_log. Some (sink_build [] 2) = None \<or> split_canonical_for_sink (sample_key s) \<noteq> None"
    by (auto simp: list_all_iff)
  have a: "sum_list (map (log_counter (\<lambda>k. stored_matches_query k (parse_query ''http_reqs'') ''http_reqs'')) example_log) = 5"
    by code_simp
  have b: "sum_list (map (log_counter (\<lambda>k. stored_matches_query k (parse_query ''http_reqs{method:GET}'') ''http_reqs{method:GET}'')) example_log) = 2"
    by code_simp
  from registry_implements_log[OF h, of example_deps int] a b
  have "\<exists>r. record_samples example_deps example_log ((registry_new example_deps int)\<lparr>reg_sink := Some (sink_build [] 2)\<rparr>) = Some r \<and>
      counter_get ''http_reqs'' r = 5 \<and> counter_get ''http_reqs{method:GET}'' r = 2"
    by metis
  with k show ?thesis ..
qed

text \<open>C14.  Live reads and the snapshot agree.  For every plain metric name the snapshot has a counter row
  exactly when some stored entry matches, and it holds the value \<open>counter_get\<close> returns; the rate
  row holds what \<open>rate_get\<close> returns, and the trend row what \<open>trend_stats\<close> returns.\<close>

theorem snapshot_agrees_live:
  assumes "name_ok n"
  shows "((n, v, x) \<in> set (snap_counters (snapshot D d r)) \<longleftrightarrow>
      matching n (counters r) \<noteq> [] \<and> counter_row d (n, counter_get n r) = (n, v, x)) \<and>
    ((n, row) \<in> set (snap_rates (snapshot D d r)) \<longleftrightarrow> matching n (rates r) \<noteq> [] \<and> row = rate_get n r) \<and>
    ((n, st) \<in> set (snap_trends (snapshot D d r)) \<longleftrightarrow> trend_stats D n r = Some st)"
proof (intro conjI)
  have wf: "hm_wf (derive_loop merge [] m)" for merge :: "'v \<Rightarrow> 'v \<Rightarrow> 'v" and m by (rule derive_loop_wf) (simp add: hm_wf_def)
  have "(n, v, x) \<in> set (snap_counters (snapshot D d r)) \<longleftrightarrow>
      (\<exists>c. map_of (derive_counters (counters r)) n = Some c \<and> counter_row d (n, c) = (n, v, x))"
    unfolding snapshot_def metrics_snapshot.simps derive_counters_def
    by (rule hm_rows(2)) (simp_all add: wf counter_row_def)
  then show "(n, v, x) \<in> set (snap_counters (snapshot D d r)) \<longleftrightarrow>
      matching n (counters r) \<noteq> [] \<and> counter_row d (n, counter_get n r) = (n, v, x)"
    by (simp add: derive_counters_def derived_get[OF assms] opt_fold_counters counter_get_sum)
  have "(n, row) \<in> set (snap_rates (snapshot D d r)) \<longleftrightarrow>
      (\<exists>c. map_of (derive_rates (rates r)) n = Some c \<and> rate_row (n, c) = (n, row))"
    unfolding snapshot_def metrics_snapshot.simps derive_rates_def
    by (rule hm_rows(2)) (simp_all add: wf rate_row_def)
  then show "(n, row) \<in> set (snap_rates (snapshot D d r)) \<longleftrightarrow> matching n (rates r) \<noteq> [] \<and> row = rate_get n r"
    by (auto simp: derive_rates_def derived_get[OF assms] opt_fold_rates rate_get_sum rate_row_def Let_def)
  have "(n, st) \<in> set (snap_trends (snapshot D d r)) \<longleftrightarrow>
      (\<exists>c. map_of (derive_trends (hist D) (trends r)) n = Some c \<and> (\<lambda>(name, t). (name, trend_stats_of (hist D) t)) (n, c) = (n, st))"
    unfolding snapshot_def metrics_snapshot.simps derive_trends_def
    by (rule hm_rows(2)) (simp_all add: wf case_prod_beta)
  then show "(n, st) \<in> set (snap_trends (snapshot D d r)) \<longleftrightarrow> trend_stats D n r = Some st"
    by (simp add: derive_trends_def derived_get[OF assms] trend_stats_def trend_merge_loop_fold)
qed

theorem snapshot_agrees_live_witness:
  "name_ok ''http_reqs'' \<and>
   (''http_reqs'', 5, flit (5 / 2)) \<in> set (snap_counters (snapshot example_deps (flit 2) example_registry))"
proof -
  have n: "name_ok ''http_reqs''" by code_simp
  have m: "matching ''http_reqs'' (counters example_registry) \<noteq> []" by code_simp
  have c: "counter_row (flit 2) (''http_reqs'', counter_get ''http_reqs'' example_registry) = (''http_reqs'', 5, flit (5 / 2))"
    by code_simp
  show ?thesis using n m c snapshot_agrees_live[OF n, where D = example_deps and r = example_registry and d = "flit 2"] by blast
qed

text \<open>The snapshot does not depend on the hash order.  Two registries that hold the same counter,
  gauge and rate entries in any iteration orders have equal counter, gauge and rate rows.\<close>

lemma snapshot_order_independent:
  assumes "mset (counters r) = mset (counters r')" "mset (rates r) = mset (rates r')" "mset (gauges r) = mset (gauges r')"
    and "hm_wf (gauges r)"
  shows "snap_counters (snapshot D d r) = snap_counters (snapshot D d r') \<and>
    snap_rates (snapshot D d r) = snap_rates (snapshot D d r') \<and>
    snap_gauges (snapshot D d r) = snap_gauges (snapshot D d r')"
proof (intro conjI)
  have wf: "hm_wf (derive_loop merge [] m)" for merge :: "'v \<Rightarrow> 'v \<Rightarrow> 'v" and m by (rule derive_loop_wf) (simp add: hm_wf_def)
  show "snap_counters (snapshot D d r) = snap_counters (snapshot D d r')"
    unfolding snapshot_def metrics_snapshot.simps derive_counters_def
    by (rule sorted_rows_eq) (simp_all add: wf cnt.derived_mset[OF assms(1)] counter_row_def)
  show "snap_rates (snapshot D d r) = snap_rates (snapshot D d r')"
    unfolding snapshot_def metrics_snapshot.simps derive_rates_def
    by (rule sorted_rows_eq) (simp_all add: wf rt.derived_mset[OF assms(2)] rate_row_def)
  have "hm_wf (gauges r')" using assms(3,4) by (metis hm_wf_def mset_eq_imp_distinct_iff mset_map)
  moreover have "map_of (gauges r) = map_of (gauges r')"
    using assms(3,4) calculation mset_eq_setD[OF assms(3)] by (simp add: hm_wf_def map_of_inject_set)
  ultimately show "snap_gauges (snapshot D d r) = snap_gauges (snapshot D d r')"
    unfolding snapshot_def metrics_snapshot.simps
    using assms(4) by (intro sorted_rows_eq) (simp_all add: gauge_row_eq[of "fst _", unfolded prod.collapse] gauge_row_def Let_def)
qed

text \<open>Gauges.  For non-negative finite values the row of a gauge holds the last value, the least and
  the greatest; for negative values, whose bit patterns are ordered the other way, the reported
  minimum is the greatest value and the reported maximum the least.\<close>

lemma gauge_row_extremes:
  assumes "vs \<noteq> []" and "\<forall>v \<in> set vs. is_fin v \<and> f64_wf v" and sign: "\<forall>v \<in> set vs. fsign v = neg"
  shows "\<exists>lo \<in> set vs. \<exists>hi \<in> set vs. gauge_row (n, gauge_of vs) = (n, last vs, lo, hi) \<and>
    (\<forall>v \<in> set vs. if neg then fval v \<le> fval lo \<and> fval hi \<le> fval v else fval lo \<le> fval v \<and> fval v \<le> fval hi)"
proof -
  have wf: "\<forall>v \<in> set vs. f64_wf v" using assms(2) by blast
  obtain lo hi where lh: "lo \<in> set vs" "hi \<in> set vs"
    "f_from_bits (Min (f_to_bits ` set vs)) = lo" "f_from_bits (Max (f_to_bits ` set vs)) = hi"
    "\<forall>v \<in> set vs. f_to_bits lo \<le> f_to_bits v \<and> f_to_bits v \<le> f_to_bits hi"
    using bits_extreme[OF assms(1) wf] by metis
  have "gauge_row (n, gauge_of vs) = (n, last vs, lo, hi)"
    using lh assms(1) wf by (simp add: gauge_row_eq gauge_of_fields f_from_to_bits)
  moreover have "if neg then fval v \<le> fval lo \<and> fval hi \<le> fval v else fval lo \<le> fval v \<and> fval v \<le> fval hi"
    if v: "v \<in> set vs" for v
  proof -
    have f: "is_fin u \<and> f64_wf u \<and> fsign u = neg" if "u \<in> set vs" for u using assms(2) sign that by blast
    show ?thesis
      using lh(5) v f[OF v] f[OF lh(1)] f[OF lh(2)] f_to_bits_mono[of lo v] f_to_bits_mono[of v hi]
        f_to_bits_antimono[of lo v] f_to_bits_antimono[of v hi] by auto
  qed
  ultimately show ?thesis using lh(1,2) by blast
qed

text \<open>One HTTP request.  Recording a request, with or without a verdict, changes
  the registry (or panics) exactly as one counter sample, one rate sample when there is a
  verdict and seven trend samples under the canonical keys of its tags do.\<close>

lemma http_request_samples:
  "record_http_request_tagged_with_failure D t failed tags r = record_samples D (http_samples t failed tags) r"
  by (cases failed) (simp_all add: record_http_request_tagged_with_failure_def http_samples_def Let_def written_key record_samples_fun)

end
