(* ===== verification/Thresholds.thy ===== *)
theory Thresholds
  imports Metrics
begin

text \<open>
  Threshold evaluation (\<open>crates/k6-core/src/thresholds.rs\<close>): parsing of conditions, resolution of a
  statistic against a snapshot, evaluation at the end of the run and the periodic evaluator that
  aborts the run.  The results: when exactly the evaluator aborts over any sequence of ticks, that the
  final report does not depend on the hash order, what the subset merge over the snapshot counts
  (twice, for an untagged threshold), and what the condition parser accepts.
\<close>

section \<open>Data\<close>

record threshold =
  th_expression :: string
  th_abort_on_fail :: bool
  th_delay_abort_eval :: duration

text \<open>An \<open>Instant\<close> is a number of nanoseconds.\<close>

record threshold_state =
  last_failed :: bool
  failing_since :: "int option"

datatype tick_decision = Continue | Abort

record threshold_result =
  res_metric :: string
  res_expression :: string
  res_passed :: bool
  res_actual :: f64

datatype threshold_stat = SCount | SRate | SAvg | SMin | SMax | SMed | SPercentile f64 | SValue

datatype threshold_op = OLt | OLte | OGt | OGte | OEq | ONeq

record threshold_condition =
  tc_stat :: threshold_stat
  tc_op :: threshold_op
  tc_value :: f64

record 'h merged_trend =
  mt_count :: u64
  mt_avg :: f64
  mt_min :: f64
  mt_max :: f64
  mt_histogram :: "'h option"
  mt_fallback_med :: f64
  mt_fallback_p90 :: f64
  mt_fallback_p95 :: f64
  mt_fallback_p99 :: f64

section \<open>Parsing\<close>

definition from_expression :: "string \<Rightarrow> threshold" where
  "from_expression e = \<lparr>th_expression = e, th_abort_on_fail = False, th_delay_abort_eval = 0\<rparr>"

fun parse_op_loop :: "(string \<times> threshold_op) list \<Rightarrow> string \<Rightarrow> (string \<times> threshold_op \<times> string) option" where
  "parse_op_loop [] expr = None"
| "parse_op_loop ((pattern, op) # ps) expr =
     (case find_str pattern expr of
        Some pos \<Rightarrow> Some (take pos expr, op, drop (pos + length pattern) expr)
      | None \<Rightarrow> parse_op_loop ps expr)"

definition op_patterns :: "(string \<times> threshold_op) list" where
  "op_patterns = [(''==='', OEq), (''<='', OLte), (''>='', OGte), (''!='', ONeq), (''=='', OEq), (''<'', OLt), (''>'', OGt)]"

definition parse_op :: "string \<Rightarrow> (string \<times> threshold_op \<times> string) option" where
  "parse_op expr = parse_op_loop op_patterns expr"

definition parse_stat :: "string \<Rightarrow> threshold_stat option" where
  "parse_stat text =
     (let s = trim text
      in if s = ''avg'' then Some SAvg
         else if s = ''min'' then Some SMin
         else if s = ''max'' then Some SMax
         else if s = ''med'' then Some SMed
         else if s = ''count'' then Some SCount
         else if s = ''rate'' then Some SRate
         else if s = ''value'' then Some SValue
         else if starts_with ''p('' s \<and> ends_with '')'' s
           then map_option SPercentile (parse_f64 (drop 2 (take (length s - 1) s)))
         else None)"

definition parse_condition :: "string \<Rightarrow> threshold_condition option" where
  "parse_condition text =
     (let expr = trim text
      in case parse_op expr of
           None \<Rightarrow> None
         | Some (stat_str, op, value_str) \<Rightarrow>
             (case parse_stat (trim stat_str) of
                None \<Rightarrow> None
              | Some stat \<Rightarrow>
                  (case parse_f64 (trim value_str) of
                     None \<Rightarrow> None
                   | Some v \<Rightarrow> Some \<lparr>tc_stat = stat, tc_op = op, tc_value = v\<rparr>)))"

section \<open>Resolving a statistic\<close>

definition f64_epsilon :: f64 where
  "f64_epsilon = flit (1 / 2 ^ 52)"

fun compare :: "f64 \<Rightarrow> threshold_op \<Rightarrow> f64 \<Rightarrow> bool" where
  "compare actual OLt expected = flt actual expected"
| "compare actual OLte expected = fle actual expected"
| "compare actual OGt expected = flt expected actual"
| "compare actual OGte expected = fle expected actual"
| "compare actual OEq expected = flt (f_abs (fsub actual expected)) f64_epsilon"
| "compare actual ONeq expected = fle f64_epsilon (f_abs (fsub actual expected))"

definition metric_names_match :: "string \<Rightarrow> string \<Rightarrow> bool" where
  "metric_names_match threshold_key stored =
     (if threshold_key = stored then True
      else case (selector_parse threshold_key, selector_parse stored) of
             (Inr a, Inr b) \<Rightarrow> canonical a = canonical b
           | _ \<Rightarrow> False)"

definition stored_is_subset_match :: "string \<Rightarrow> string \<Rightarrow> bool" where
  "stored_is_subset_match threshold_key stored =
     (case selector_parse threshold_key of
        Inl e \<Rightarrow> False
      | Inr q \<Rightarrow>
          (case selector_parse stored of
             Inl e \<Rightarrow> False
           | Inr s \<Rightarrow> if sel_name s \<noteq> sel_name q then False else tags_superset (sel_tags s) (sel_tags q)))"

record 'h trend_acc =
  ta_count :: u64
  ta_sum :: f64
  ta_min :: f64
  ta_max :: f64
  ta_hist :: "'h option"
  ta_fallback :: "trend_stats option"

definition trend_acc_step ::
    "'h hdr \<Rightarrow> string \<Rightarrow> 'h metrics_snapshot \<Rightarrow> string \<times> trend_stats \<Rightarrow> 'h trend_acc \<Rightarrow> 'h trend_acc" where
  "trend_acc_step H threshold_key snap row a =
     (let (stored, stats) = row
      in if \<not> stored_is_subset_match threshold_key stored then a
         else \<lparr>ta_count = ta_count a + ts_count stats,
               ta_sum = fadd (ta_sum a) (fmul (ts_avg stats) (f_of_u64 (ts_count stats))),
               ta_min = (if flt (ts_min stats) (ta_min a) then ts_min stats else ta_min a),
               ta_max = (if flt (ta_max a) (ts_max stats) then ts_max stats else ta_max a),
               ta_hist = (case map_of (snap_hists snap) stored of
                            None \<Rightarrow> ta_hist a
                          | Some h \<Rightarrow> Some (case ta_hist a of Some m \<Rightarrow> hdr_add H m h | None \<Rightarrow> h)),
               ta_fallback = (case ta_fallback a of None \<Rightarrow> Some stats | Some s \<Rightarrow> Some s)\<rparr>)"

definition merged_trend_for_threshold :: "'h hdr \<Rightarrow> string \<Rightarrow> 'h metrics_snapshot \<Rightarrow> 'h merged_trend option" where
  "merged_trend_for_threshold H threshold_key snap =
     (let a = fold (trend_acc_step H threshold_key snap) (snap_trends snap)
            \<lparr>ta_count = 0, ta_sum = f0, ta_min = f64_max, ta_max = f64_min, ta_hist = None, ta_fallback = None\<rparr>
      in case ta_fallback a of
           None \<Rightarrow> None
         | Some fb \<Rightarrow>
             Some \<lparr>mt_count = ta_count a,
                   mt_avg = (if 0 < ta_count a then fdiv (ta_sum a) (f_of_u64 (ta_count a)) else f0),
                   mt_min = (if feq (ta_min a) f64_max then f0 else ta_min a),
                   mt_max = (if feq (ta_max a) f64_min then f0 else ta_max a),
                   mt_histogram = ta_hist a, mt_fallback_med = ts_med fb, mt_fallback_p90 = ts_p90 fb,
                   mt_fallback_p95 = ts_p95 fb, mt_fallback_p99 = ts_p99 fb\<rparr>)"

fun merged_counter_loop :: "string \<Rightarrow> (u64 \<times> f64 \<times> bool) \<Rightarrow> (string \<times> u64 \<times> f64) list \<Rightarrow> u64 \<times> f64 \<times> bool" where
  "merged_counter_loop key (value, rate, had) [] = (value, rate, had)"
| "merged_counter_loop key (value, rate, had) ((stored, v, r) # rows) =
     (if \<not> stored_is_subset_match key stored then merged_counter_loop key (value, rate, had) rows
      else merged_counter_loop key (value + v, fadd rate r, True) rows)"

definition merged_counter_for_threshold :: "string \<Rightarrow> 'h metrics_snapshot \<Rightarrow> (u64 \<times> f64) option" where
  "merged_counter_for_threshold threshold_key snap =
     (case merged_counter_loop threshold_key (0, f0, False) (snap_counters snap) of
        (value, rate, had) \<Rightarrow> if had then Some (value, rate) else None)"

fun merged_rate_loop :: "string \<Rightarrow> (u64 \<times> u64 \<times> bool) \<Rightarrow> (string \<times> f64 \<times> u64 \<times> u64) list \<Rightarrow> u64 \<times> u64 \<times> bool" where
  "merged_rate_loop key (passes, tot, had) [] = (passes, tot, had)"
| "merged_rate_loop key (passes, tot, had) ((stored, r, p, t) # rows) =
     (if \<not> stored_is_subset_match key stored then merged_rate_loop key (passes, tot, had) rows
      else merged_rate_loop key (passes + p, tot + t, True) rows)"

definition merged_rate_for_threshold :: "string \<Rightarrow> 'h metrics_snapshot \<Rightarrow> (f64 \<times> u64 \<times> u64) option" where
  "merged_rate_for_threshold threshold_key snap =
     (case merged_rate_loop threshold_key (0, 0, False) (snap_rates snap) of
        (passes, tot, had) \<Rightarrow> if \<not> had then None else Some (rate_ratio passes tot, passes, tot))"

definition near :: "f64 \<Rightarrow> rat \<Rightarrow> bool" where
  "near p x \<longleftrightarrow> flt (f_abs (fsub p (flit x))) (flit (1 / 2))"

definition percentile_from :: "'h hdr \<Rightarrow> 'h merged_trend \<Rightarrow> f64 \<Rightarrow> f64" where
  "percentile_from H synth p =
     (let fb = (if near p 50 then mt_fallback_med synth
                else if near p 90 then mt_fallback_p90 synth
                else if near p 95 then mt_fallback_p95 synth
                else if near p 99 then mt_fallback_p99 synth
                else mt_fallback_p95 synth)
      in case mt_histogram synth of
           None \<Rightarrow> fb
         | Some h \<Rightarrow> if 0 < hdr_len H h
             then fdiv (f_of_u64 (hdr_quantile H (fclamp (fdiv p (flit 100)) f0 (flit 1)) h)) (flit 1000) else fb)"

fun stat_of_merged :: "'h hdr \<Rightarrow> 'h merged_trend \<Rightarrow> threshold_stat \<Rightarrow> f64" where
  "stat_of_merged H synth SAvg = mt_avg synth"
| "stat_of_merged H synth SMin = mt_min synth"
| "stat_of_merged H synth SMax = mt_max synth"
| "stat_of_merged H synth SMed = percentile_from H synth (flit 50)"
| "stat_of_merged H synth (SPercentile p) = percentile_from H synth p"
| "stat_of_merged H synth SCount = f_of_u64 (mt_count synth)"
| "stat_of_merged H synth SValue = mt_avg synth"
| "stat_of_merged H synth SRate = mt_avg synth"

definition stat_of_counter :: "u64 \<Rightarrow> f64 \<Rightarrow> threshold_stat \<Rightarrow> f64" where
  "stat_of_counter value rate stat = (case stat of SCount \<Rightarrow> f_of_u64 value | SValue \<Rightarrow> f_of_u64 value | SRate \<Rightarrow> rate | _ \<Rightarrow> f_of_u64 value)"

definition stat_of_rate :: "f64 \<Rightarrow> u64 \<Rightarrow> threshold_stat \<Rightarrow> f64" where
  "stat_of_rate rate tot stat = (case stat of SRate \<Rightarrow> rate | SValue \<Rightarrow> rate | SCount \<Rightarrow> f_of_u64 tot | _ \<Rightarrow> rate)"

definition stat_of_gauge :: "f64 \<Rightarrow> f64 \<Rightarrow> f64 \<Rightarrow> threshold_stat \<Rightarrow> f64" where
  "stat_of_gauge val lo hi stat = (case stat of SMin \<Rightarrow> lo | SMax \<Rightarrow> hi | SValue \<Rightarrow> val | _ \<Rightarrow> val)"

definition stat_of_trend :: "('c, 'h) deps \<Rightarrow> 'h metrics_snapshot \<Rightarrow> string \<Rightarrow> trend_stats \<Rightarrow> threshold_stat \<Rightarrow> f64" where
  "stat_of_trend D snap stored_name stats stat =
     (case stat of SAvg \<Rightarrow> ts_avg stats | SMin \<Rightarrow> ts_min stats | SMax \<Rightarrow> ts_max stats | SMed \<Rightarrow> ts_med stats
      | SPercentile p \<Rightarrow>
          (case snapshot_percentile_ms D snap stored_name p of
             Some v \<Rightarrow> v
           | None \<Rightarrow> if near p 90 then ts_p90 stats else if near p 95 then ts_p95 stats
                    else if near p 99 then ts_p99 stats else ts_p95 stats)
      | SCount \<Rightarrow> f_of_u64 (ts_count stats) | SValue \<Rightarrow> ts_avg stats | SRate \<Rightarrow> ts_avg stats)"

definition resolve_stat :: "('c, 'h) deps \<Rightarrow> string \<Rightarrow> threshold_stat \<Rightarrow> 'h metrics_snapshot \<Rightarrow> f64" where
  "resolve_stat D metric stat snap =
     (case merged_trend_for_threshold (hist D) metric snap of Some synth \<Rightarrow> stat_of_merged (hist D) synth stat
      | None \<Rightarrow>
     (case merged_counter_for_threshold metric snap of Some (value, rate) \<Rightarrow> stat_of_counter value rate stat
      | None \<Rightarrow>
     (case merged_rate_for_threshold metric snap of Some (rate, passes, tot) \<Rightarrow> stat_of_rate rate tot stat
      | None \<Rightarrow>
     (case find (\<lambda>(n, _). metric_names_match metric n) (snap_trends snap) of
        Some (stored_name, stats) \<Rightarrow> stat_of_trend D snap stored_name stats stat
      | None \<Rightarrow>
     (case find (\<lambda>(n, _). metric_names_match metric n) (snap_counters snap) of
        Some (_, value, rate) \<Rightarrow> stat_of_counter value rate stat
      | None \<Rightarrow>
     (case find (\<lambda>(n, _). metric_names_match metric n) (snap_rates snap) of
        Some (_, rate, passes, tot) \<Rightarrow> stat_of_rate rate tot stat
      | None \<Rightarrow>
     (case find (\<lambda>(n, _). metric_names_match metric n) (snap_gauges snap) of
        Some (_, val, lo, hi) \<Rightarrow> stat_of_gauge val lo hi stat
      | None \<Rightarrow> f0)))))))"

section \<open>Evaluation\<close>

definition evaluate_one :: "('c, 'h) deps \<Rightarrow> string \<Rightarrow> string \<Rightarrow> 'h metrics_snapshot \<Rightarrow> threshold_result" where
  "evaluate_one D metric expr snap =
     (case parse_condition expr of
        None \<Rightarrow> \<lparr>res_metric = metric, res_expression = expr, res_passed = False, res_actual = f0\<rparr>
      | Some c \<Rightarrow>
          (let actual = resolve_stat D metric (tc_stat c) snap
           in \<lparr>res_metric = metric, res_expression = expr,
               res_passed = compare actual (tc_op c) (tc_value c), res_actual = actual\<rparr>))"

type_synonym thresholds = "(string, threshold list) hm"

definition evaluate :: "('c, 'h) deps \<Rightarrow> thresholds \<Rightarrow> 'h metrics_snapshot \<Rightarrow> threshold_result list" where
  "evaluate D ths snap =
     sort_key res_metric (concat (map (\<lambda>(metric, conditions). map (\<lambda>t. evaluate_one D metric (th_expression t) snap) conditions) ths))"

definition all_passed :: "threshold_result list \<Rightarrow> bool" where
  "all_passed results = list_all res_passed results"

definition state_key :: "string \<Rightarrow> string \<Rightarrow> string" where
  "state_key metric expression = metric @ ''::'' @ expression"

definition state_default :: threshold_state where
  "state_default = \<lparr>last_failed = False, failing_since = None\<rparr>"

definition update_state :: "bool \<Rightarrow> int \<Rightarrow> threshold_state \<Rightarrow> threshold_state" where
  "update_state passed now st =
     \<lparr>last_failed = (\<not> passed),
      failing_since = (if \<not> passed then (case failing_since st of None \<Rightarrow> Some now | Some s \<Rightarrow> Some s) else None)\<rparr>"

definition phase1_one ::
    "('c, 'h) deps \<Rightarrow> 'h metrics_snapshot \<Rightarrow> int \<Rightarrow> string \<Rightarrow> threshold \<Rightarrow> (string, threshold_state) hm \<Rightarrow> (string, threshold_state) hm" where
  "phase1_one D snap now metric t states =
     (let result = evaluate_one D metric (th_expression t) snap; key = state_key metric (th_expression t);
          st = (case map_of states key of None \<Rightarrow> state_default | Some st \<Rightarrow> st)
      in hm_put key (update_state (res_passed result) now st) states)"

definition phase2_one :: "(string, threshold_state) hm \<Rightarrow> int \<Rightarrow> string \<Rightarrow> threshold \<Rightarrow> bool \<Rightarrow> bool" where
  "phase2_one states now metric t should_abort =
     (if \<not> th_abort_on_fail t then should_abort
      else case map_of states (state_key metric (th_expression t)) of
             None \<Rightarrow> should_abort
           | Some st \<Rightarrow>
               (case failing_since st of
                  None \<Rightarrow> should_abort
                | Some since \<Rightarrow> if th_delay_abort_eval t \<le> max 0 (now - since) then True else should_abort))"

definition update_states ::
    "('c, 'h) deps \<Rightarrow> thresholds \<Rightarrow> 'h metrics_snapshot \<Rightarrow> int \<Rightarrow> (string, threshold_state) hm \<Rightarrow> (string, threshold_state) hm \<times> tick_decision" where
  "update_states D ths snap now states =
     (let states' = fold (\<lambda>(metric, configs). fold (phase1_one D snap now metric) configs) ths states;
          should_abort = fold (\<lambda>(metric, configs). fold (phase2_one states' now metric) configs) ths False
      in (states', if should_abort then Abort else Continue))"

section \<open>One tick\<close>

text \<open>The configured pairs of metric and threshold, in iteration order.\<close>

definition pairs_of :: "thresholds \<Rightarrow> (string \<times> threshold) list" where
  "pairs_of ths = concat (map (\<lambda>(metric, configs). map (Pair metric) configs) ths)"

definition pair_key :: "string \<times> threshold \<Rightarrow> string" where
  "pair_key x = state_key (fst x) (th_expression (snd x))"

text \<open>Two configured thresholds share a state only when they are the same metric and expression.\<close>

definition keys_inj :: "(string \<times> threshold) list \<Rightarrow> bool" where
  "keys_inj xs \<longleftrightarrow> (\<forall>x \<in> set xs. \<forall>y \<in> set xs. pair_key x = pair_key y \<longrightarrow>
     fst x = fst y \<and> th_expression (snd x) = th_expression (snd y))"

lemma keys_injD:
  assumes "keys_inj xs" "x \<in> set xs" "y \<in> set xs" "pair_key x = pair_key y"
  shows "fst x = fst y" "th_expression (snd x) = th_expression (snd y)"
  using assms unfolding keys_inj_def by blast+

lemma keys_inj_subset: "keys_inj xs \<Longrightarrow> set ys \<subseteq> set xs \<Longrightarrow> keys_inj ys"
  unfolding keys_inj_def by blast

definition keys_unique :: "thresholds \<Rightarrow> bool" where
  "keys_unique ths \<longleftrightarrow> keys_inj (pairs_of ths)"

definition fails :: "('c, 'h) deps \<Rightarrow> string \<times> threshold \<Rightarrow> 'h metrics_snapshot \<Rightarrow> bool" where
  "fails D x snap \<longleftrightarrow> \<not> res_passed (evaluate_one D (fst x) (th_expression (snd x)) snap)"

lemma fold_pairs: "fold (\<lambda>(metric, configs). fold (f metric) configs) ths acc = fold (\<lambda>x. f (fst x) (snd x)) (pairs_of ths) acc"
proof (induction ths arbitrary: acc)
  case (Cons p ths)
  have "fold (f (fst p)) (snd p) acc = fold (\<lambda>x. f (fst x) (snd x)) (map (Pair (fst p)) (snd p)) acc"
    by (induction "snd p" arbitrary: acc) (simp_all add: fold_map comp_def)
  then show ?case using Cons by (simp add: pairs_of_def case_prod_beta)
qed (simp add: pairs_of_def)

lemma update_state_idem: "update_state b now (update_state b now st) = update_state b now st"
  by (simp add: update_state_def split: option.splits)

lemma phase1_get:
  assumes "keys_inj xs"
    and "x \<in> set xs"
  shows "map_of (fold (\<lambda>x. phase1_one D snap now (fst x) (snd x)) xs states) (pair_key x) =
    Some (update_state (\<not> fails D x snap) now (case map_of states (pair_key x) of None \<Rightarrow> state_default | Some st \<Rightarrow> st))"
  using assms
proof (induction xs arbitrary: x rule: rev_induct)
  case (snoc y xs)
  have inj: "keys_inj xs"
    using snoc.prems(1) by (rule keys_inj_subset) auto
  let ?s = "fold (\<lambda>x. phase1_one D snap now (fst x) (snd x)) xs states"
  note IH = snoc.IH[OF inj]
  have step: "map_of (phase1_one D snap now (fst y) (snd y) ?s) (pair_key x) =
      (if pair_key x = pair_key y then Some (update_state (\<not> fails D y snap) now
         (case map_of ?s (pair_key y) of None \<Rightarrow> state_default | Some st \<Rightarrow> st)) else map_of ?s (pair_key x))"
    by (simp add: phase1_one_def Let_def hm_get_put pair_key_def fails_def)
  have other: "map_of (fold (\<lambda>x. phase1_one D snap now (fst x) (snd x)) zs states) k = map_of states k"
    if "k \<notin> pair_key ` set zs" for k zs
    using that by (induction zs rule: rev_induct) (auto simp: phase1_one_def Let_def hm_get_put pair_key_def)
  show ?case
  proof (cases "pair_key x = pair_key y")
    case True
    have xy: "fst x = fst y" "th_expression (snd x) = th_expression (snd y)"
      using keys_injD[OF snoc.prems(1,2) _ True] by simp_all
    then have f: "fails D y snap = fails D x snap" by (simp add: fails_def)
    show ?thesis
    proof (cases "\<exists>z \<in> set xs. pair_key z = pair_key x")
      case True
      then obtain z where z: "z \<in> set xs" "pair_key z = pair_key x" by blast
      have "fst z = fst x" "th_expression (snd z) = th_expression (snd x)"
        using keys_injD[OF snoc.prems(1) _ snoc.prems(2) z(2)] z(1) by simp_all
      then have "fails D z snap = fails D x snap" by (simp add: fails_def)
      moreover have "map_of ?s (pair_key z) = Some (update_state (\<not> fails D z snap) now
          (case map_of states (pair_key z) of None \<Rightarrow> state_default | Some st \<Rightarrow> st))"
        using IH[OF z(1)] .
      ultimately show ?thesis using step \<open>pair_key x = pair_key y\<close> f z(2) by (simp add: update_state_idem)
    next
      case False
      then have "map_of ?s (pair_key x) = map_of states (pair_key x)" by (intro other) auto
      then show ?thesis using step \<open>pair_key x = pair_key y\<close> f by simp
    qed
  next
    case False
    then have "x \<in> set xs" using snoc.prems(2) by auto
    then show ?thesis using step False IH by simp
  qed
qed simp

lemma phase2_fold:
  "fold (\<lambda>x. phase2_one states now (fst x) (snd x)) xs b \<longleftrightarrow> b \<or>
     (\<exists>x \<in> set xs. th_abort_on_fail (snd x) \<and> (\<exists>st since. map_of states (pair_key x) = Some st \<and>
        failing_since st = Some since \<and> th_delay_abort_eval (snd x) \<le> max 0 (now - since)))"
proof (induction xs arbitrary: b)
  case (Cons x xs)
  have "phase2_one states now (fst x) (snd x) b \<longleftrightarrow> b \<or> (th_abort_on_fail (snd x) \<and> (\<exists>st since.
      map_of states (pair_key x) = Some st \<and> failing_since st = Some since \<and> th_delay_abort_eval (snd x) \<le> max 0 (now - since)))"
    by (auto simp: phase2_one_def pair_key_def split: option.splits)
  then show ?case using Cons by auto
qed simp

section \<open>Sequences of ticks\<close>

text \<open>The evaluator ticks on snapshots at ascending instants; the list holds the ticks so far, the last
  tick at the end.\<close>

fun tick_run :: "('c, 'h) deps \<Rightarrow> thresholds \<Rightarrow> ('h metrics_snapshot \<times> int) list \<Rightarrow>
    (string, threshold_state) hm \<times> tick_decision \<Rightarrow> (string, threshold_state) hm \<times> tick_decision" where
  "tick_run D ths [] s = s"
| "tick_run D ths ((snap, now) # ticks) s = tick_run D ths ticks (update_states D ths snap now (fst s))"

text \<open>Start of the run of failing ticks at the end of the list.\<close>

fun fail_since :: "('x \<Rightarrow> bool) \<Rightarrow> int option \<Rightarrow> ('x \<times> int) list \<Rightarrow> int option" where
  "fail_since P s [] = s"
| "fail_since P s ((x, now) # ts) = fail_since P (if P x then (case s of None \<Rightarrow> Some now | Some a \<Rightarrow> Some a) else None) ts"

lemma tick_run_append: "tick_run D ths (as @ bs) s = tick_run D ths bs (tick_run D ths as s)"
  by (induction D ths as s rule: tick_run.induct) auto

lemma fail_since_snoc:
  "fail_since P s (ts @ [(x, now)]) = (if P x then (case fail_since P s ts of None \<Rightarrow> Some now | Some a \<Rightarrow> Some a) else None)"
  by (induction P s ts rule: fail_since.induct) simp_all

definition state_of :: "(string, threshold_state) hm \<Rightarrow> string \<Rightarrow> threshold_state" where
  "state_of states k = (case map_of states k of None \<Rightarrow> state_default | Some st \<Rightarrow> st)"

lemma update_states_get:
  assumes "keys_unique ths" "x \<in> set (pairs_of ths)"
  shows "map_of (fst (update_states D ths snap now states)) (pair_key x) =
    Some (update_state (\<not> fails D x snap) now (state_of states (pair_key x)))"
  using phase1_get[of "pairs_of ths" x D snap now states] assms
  by (simp add: update_states_def Let_def fold_pairs keys_unique_def state_of_def)

lemma tick_run_since:
  assumes "keys_unique ths" "x \<in> set (pairs_of ths)"
  shows "failing_since (state_of (fst (tick_run D ths ticks ([], Continue))) (pair_key x)) = fail_since (fails D x) None ticks"
proof (induction ticks rule: rev_induct)
  case Nil
  then show ?case by (simp add: state_of_def state_default_def)
next
  case (snoc t ticks)
  obtain snap now where t: "t = (snap, now)" by fastforce
  let ?s = "fst (tick_run D ths ticks ([], Continue))"
  have "state_of (fst (update_states D ths snap now ?s)) (pair_key x) = update_state (\<not> fails D x snap) now (state_of ?s (pair_key x))"
    using update_states_get[OF assms, of D snap now ?s] by (simp add: state_of_def)
  then show ?case using snoc by (simp add: t tick_run_append fail_since_snoc update_state_def)
qed

lemma update_states_decision:
  assumes "keys_unique ths"
  shows "snd (update_states D ths snap now states) = Abort \<longleftrightarrow>
    (\<exists>x \<in> set (pairs_of ths). th_abort_on_fail (snd x) \<and>
      (\<exists>since. failing_since (state_of (fst (update_states D ths snap now states)) (pair_key x)) = Some since \<and>
         th_delay_abort_eval (snd x) \<le> max 0 (now - since)))"
proof -
  have "snd (update_states D ths snap now states) = Abort \<longleftrightarrow>
      fold (\<lambda>x. phase2_one (fst (update_states D ths snap now states)) now (fst x) (snd x)) (pairs_of ths) False"
    by (simp add: update_states_def Let_def fold_pairs)
  then show ?thesis unfolding phase2_fold
    using update_states_get[OF assms, of _ D snap now states] by (auto simp: state_of_def)
qed

text \<open>The start of the failing run, in terms of the ticks themselves.\<close>

lemma fail_since_delay:
  assumes "sorted (map snd ts)" "ts \<noteq> []" "0 \<le> d"
  shows "(\<exists>since. fail_since P None ts = Some since \<and> d \<le> max 0 (snd (last ts) - since)) \<longleftrightarrow>
    (\<exists>i < length ts. (\<forall>j. i \<le> j \<and> j < length ts \<longrightarrow> P (fst (ts ! j))) \<and> d \<le> snd (last ts) - snd (ts ! i))"
proof -
  have start: "case fail_since P None ts of
      None \<Rightarrow> ts = [] \<or> \<not> P (fst (last ts))
    | Some s \<Rightarrow> \<exists>k < length ts. s = snd (ts ! k) \<and> (\<forall>j. k \<le> j \<and> j < length ts \<longrightarrow> P (fst (ts ! j))) \<and>
        (k = 0 \<or> \<not> P (fst (ts ! (k - 1))))" for ts :: "('a \<times> int) list"
  proof (induction ts rule: rev_induct)
    case (snoc t ts)
    obtain x now where t: "t = (x, now)" by fastforce
    show ?case
    proof (cases "P x")
      case False
      then show ?thesis by (simp add: t fail_since_snoc)
    next
      case px: True
      show ?thesis
      proof (cases "fail_since P None ts")
        case None
        then have "ts = [] \<or> \<not> P (fst (last ts))" using snoc by simp
        then have "length ts = 0 \<or> \<not> P (fst ((ts @ [t]) ! (length ts - 1)))"
          by (cases ts rule: rev_cases) (auto simp: nth_append)
        then show ?thesis using None px by (auto simp: t fail_since_snoc nth_append intro!: exI[of _ "length ts"])
      next
        case (Some s)
        then obtain k where k: "k < length ts" "s = snd (ts ! k)" "\<forall>j. k \<le> j \<and> j < length ts \<longrightarrow> P (fst (ts ! j))"
          "k = 0 \<or> \<not> P (fst (ts ! (k - 1)))" using snoc by auto
        then show ?thesis using Some px
          by (auto simp: t fail_since_snoc nth_append less_Suc_eq intro!: exI[of _ k])
      qed
    qed
  qed simp
  have mono: "snd (ts ! i) \<le> snd (ts ! j)" if "i \<le> j" "j < length ts" for i j
    using sorted_nth_mono[OF assms(1), of i j] that by simp
  have lst: "last ts = ts ! (length ts - 1)" using assms(2) by (rule last_conv_nth)
  show ?thesis
  proof (cases "fail_since P None ts")
    case None
    then have "\<not> P (fst (ts ! (length ts - 1)))" using start[of ts] assms(2) lst by simp
    then have "\<not> (\<forall>j. i \<le> j \<and> j < length ts \<longrightarrow> P (fst (ts ! j)))" if "i < length ts" for i
      using that by (auto intro!: exI[of _ "length ts - 1"])
    then show ?thesis using None by auto
  next
    case (Some s)
    then obtain k where k: "k < length ts" "s = snd (ts ! k)" "\<forall>j. k \<le> j \<and> j < length ts \<longrightarrow> P (fst (ts ! j))"
      "k = 0 \<or> \<not> P (fst (ts ! (k - 1)))" using start[of ts] by auto
    have le: "k \<le> i" if "i < length ts" "\<forall>j. i \<le> j \<and> j < length ts \<longrightarrow> P (fst (ts ! j))" for i
    proof (rule ccontr)
      assume "\<not> k \<le> i"
      then have "i \<le> k - 1" "k - 1 < length ts" "k \<noteq> 0" using k(1) by auto
      then show False using that(2) k(4) by blast
    qed
    have "snd (ts ! k) \<le> snd (last ts)" unfolding lst using mono[of k "length ts - 1"] k(1) by simp
    then have "(d \<le> max 0 (snd (last ts) - s)) = (d \<le> snd (last ts) - snd (ts ! k))" using assms(3) by (simp add: k(2))
    moreover have "d \<le> snd (last ts) - snd (ts ! k)"
      if "i < length ts" "\<forall>j. i \<le> j \<and> j < length ts \<longrightarrow> P (fst (ts ! j))" "d \<le> snd (last ts) - snd (ts ! i)" for i
      using le[OF that(1,2)] mono[of k i] that(1,3) by simp
    ultimately show ?thesis using Some k(1-3) by auto
  qed
qed


section \<open>Order of the report\<close>

lemma evaluate_one_metric [simp]: "res_metric (evaluate_one D m e snap) = m"
  by (simp add: evaluate_one_def Let_def split: option.splits)

lemma mset_concat_map: "mset (concat (map f zs)) = sum_mset (image_mset (\<lambda>z. mset (f z)) (mset zs))"
  by (induction zs) simp_all

lemma sort_key_cong_perm:
  assumes "mset xs = mset ys" "\<And>k. filter (\<lambda>x. f x = k) xs = filter (\<lambda>x. f x = k) ys"
  shows "sort_key f xs = sort_key f ys"
proof (rule properties_for_sort_key)
  show "mset (sort_key f ys) = mset xs" using assms(1) by simp
  show "filter (\<lambda>x. f k = f x) (sort_key f ys) = filter (\<lambda>x. f k = f x) xs" if "k \<in> set (sort_key f ys)" for k
    using sort_key_stable[of f "f k" ys] assms(2)[of "f k"] by (simp add: eq_commute)
qed simp

abbreviation row_results :: "('c, 'h) deps \<Rightarrow> 'h metrics_snapshot \<Rightarrow> string \<times> threshold list \<Rightarrow> threshold_result list" where
  "row_results D snap p \<equiv> map (\<lambda>t. evaluate_one D (fst p) (th_expression t) snap) (snd p)"

lemma filter_rows:
  assumes "hm_wf ths"
  shows "filter (\<lambda>x. res_metric x = k) (concat (map (row_results D snap) ths)) =
    (case map_of ths k of None \<Rightarrow> [] | Some cs \<Rightarrow> row_results D snap (k, cs))"
  using assms
proof (induction ths)
  case (Cons p ths)
  have own: "filter (\<lambda>x. res_metric x = k) (row_results D snap p) = (if fst p = k then row_results D snap p else [])"
    by (induction "snd p") (simp_all add: filter_map comp_def)
  have "hm_wf ths" using Cons.prems by (simp add: hm_wf_def)
  moreover have "map_of ths k = None" if "fst p = k" using Cons.prems that by (auto simp: hm_wf_def map_of_eq_None_iff)
  ultimately show ?case using Cons.IH own by auto
qed simp

lemma evaluate_rows: "evaluate D ths snap = sort_key res_metric (concat (map (row_results D snap) ths))"
  by (simp add: evaluate_def case_prod_unfold)

section \<open>What the subset merge counts\<close>

text \<open>A stored key with tags.\<close>

definition tagged :: "string \<Rightarrow> bool" where
  "tagged k = (case selector_parse k of Inl e \<Rightarrow> False | Inr t \<Rightarrow> sel_tags t \<noteq> [])"

lemma subset_match_targets:
  assumes q: "selector_parse q = Inr s"
  shows "length (filter (stored_is_subset_match q) (derive_targets k)) =
    (if stored_matches_query k (parse_query q) q then (if tagged k \<and> sel_tags s = [] then 2 else 1) else 0)"
proof (cases "selector_parse k")
  case (Inl e)
  then show ?thesis using q by (auto simp: derive_targets_def stored_is_subset_match_def stored_matches_query_def parse_query_def)
next
  case (Inr t)
  have wf: "selector_wf t" using selector_parse_ok[OF Inr] .
  have c: "selector_parse (canonical t) = Inr t" using wf by (rule selector_parse_canonical)
  have n: "selector_parse (sel_name t) = Inr (selector_new (sel_name t))"
    using wf by (intro selector_parse_untagged) (simp add: selector_wf_def)
  have "tags_superset [] (sel_tags s) \<longleftrightarrow> sel_tags s = []"
    by (cases "sel_tags s") (auto simp: tags_superset_def)
  then have p: "stored_is_subset_match q (canonical t) \<longleftrightarrow> sel_name t = sel_name s \<and> tags_superset (sel_tags t) (sel_tags s)"
    "stored_is_subset_match q (sel_name t) \<longleftrightarrow> sel_name t = sel_name s \<and> sel_tags s = []"
    using q c n by (simp_all add: stored_is_subset_match_def selector_new_def)
  have m: "stored_matches_query k (parse_query q) q \<longleftrightarrow> sel_name t = sel_name s \<and> tags_superset (sel_tags t) (sel_tags s)"
    using q Inr by (simp add: stored_matches_query_def parse_query_def)
  have "sel_name t = sel_name s \<Longrightarrow> stored_is_subset_match q (sel_name s) \<longleftrightarrow> sel_tags s = []" using p(2) by simp
  then show ?thesis using Inr by (auto simp: derive_targets_def tagged_def p m)
qed

lemma derive_entries_sum:
  fixes f :: "'v \<Rightarrow> u64"
  assumes "\<And>a b. f (merge a b) = f a + f b"
  shows "sum_list (map f (map snd (filter (\<lambda>p. P (fst p)) (fold (derive_entry merge x) ts out)))) =
    sum_list (map f (map snd (filter (\<lambda>p. P (fst p)) out))) + of_nat (length (filter P ts)) * f x"
proof (induction ts arbitrary: out)
  case (Cons t ts)
  have "sum_list (map f (map snd (filter (\<lambda>p. P (fst p)) (derive_entry merge x t out)))) =
      sum_list (map f (map snd (filter (\<lambda>p. P (fst p)) out))) + (if P t then f x else 0)"
    by (auto simp: derive_entry_def sum_put[unfolded map_map] assms split: option.splits)
  then show ?case using Cons.IH[of "derive_entry merge x t out"] by (simp add: algebra_simps)
qed simp

lemma derive_loop_sum:
  fixes f :: "'v \<Rightarrow> u64"
  assumes "\<And>a b. f (merge a b) = f a + f b"
  shows "sum_list (map f (map snd (filter (\<lambda>p. P (fst p)) (derive_loop merge out stored)))) =
    sum_list (map f (map snd (filter (\<lambda>p. P (fst p)) out))) +
    sum_list (map (\<lambda>p. of_nat (length (filter P (derive_targets (fst p)))) * f (snd p)) stored)"
proof (induction stored arbitrary: out)
  case (Cons p stored)
  then show ?case using derive_entries_sum[OF assms, where P = P and x = "snd p" and ts = "derive_targets (fst p)" and out = out]
    by (cases p) (simp add: add.assoc)
qed simp

lemma derive_loop_dom: "fst ` set (derive_loop merge [] stored) = (\<Union>p \<in> set stored. set (derive_targets (fst p)))"
proof -
  have e: "fst ` set (fold (derive_entry merge x) ts out) = fst ` set out \<union> set ts" for x ts out
  proof (induction ts arbitrary: out)
    case (Cons t ts)
    have "fst ` set (derive_entry merge x t out) = insert t (fst ` set out)"
      by (auto simp: derive_entry_def hm_put_def dom_update split: option.splits)
    then show ?case using Cons.IH[of "derive_entry merge x t out"] by simp
  qed simp
  have "fst ` set (derive_loop merge out stored) = fst ` set out \<union> (\<Union>p \<in> set stored. set (derive_targets (fst p)))" for out
  proof (induction stored arbitrary: out)
    case (Cons p stored)
    then show ?case using e[of "snd p" "derive_targets (fst p)" out] by (cases p) (simp add: Un_assoc)
  qed simp
  from this[of "[]"] show ?thesis by simp
qed

text \<open>The sum over the derived rows a threshold key matches.\<close>

lemma derived_threshold_sum:
  fixes f :: "'v \<Rightarrow> u64"
  assumes "\<And>a b. f (merge a b) = f a + f b" and q: "selector_parse q = Inr s"
  shows "sum_list (map f (map snd (filter (\<lambda>p. stored_is_subset_match q (fst p)) (derive_loop merge [] m)))) =
    sum_list (map f (matching q m)) + (if sel_tags s = [] then sum_list (map f (matching q (filter (\<lambda>p. tagged (fst p)) m))) else 0)"
proof -
  have "sum_list (map (\<lambda>p. of_nat (length (filter (stored_is_subset_match q) (derive_targets (fst p)))) * f (snd p)) m) =
      sum_list (map f (matching q m)) + (if sel_tags s = [] then sum_list (map f (matching q (filter (\<lambda>p. tagged (fst p)) m))) else 0)"
    by (induction m) (auto simp: subset_match_targets[OF q] algebra_simps)
  then show ?thesis using derive_loop_sum[OF assms(1), where P = "stored_is_subset_match q" and out = "[]" and stored = m]
    by simp
qed

lemma derived_threshold_any:
  assumes q: "selector_parse q = Inr s"
  shows "(\<exists>p \<in> set (derive_loop merge [] m). stored_is_subset_match q (fst p)) \<longleftrightarrow> matching q m \<noteq> []"
proof -
  have "(\<exists>p \<in> set (derive_loop merge [] m). stored_is_subset_match q (fst p)) \<longleftrightarrow>
      (\<exists>t \<in> fst ` set (derive_loop merge [] m). stored_is_subset_match q t)" by simp
  also have "\<dots> \<longleftrightarrow> (\<exists>p \<in> set m. filter (stored_is_subset_match q) (derive_targets (fst p)) \<noteq> [])"
    unfolding derive_loop_dom by (auto simp: filter_empty_conv)
  also have "\<dots> \<longleftrightarrow> (\<exists>p \<in> set m. stored_matches_query (fst p) (parse_query q) q)"
    by (simp only: length_greater_0_conv[symmetric] subset_match_targets[OF q]) auto
  finally show ?thesis by (simp add: filter_empty_conv)
qed

lemma merged_counter_loop_sum:
  "merged_counter_loop q (v, x, b) rows =
     (v + sum_list (map (\<lambda>r. fst (snd r)) (filter (\<lambda>r. stored_is_subset_match q (fst r)) rows)),
      fst (snd (merged_counter_loop q (v, x, b) rows)),
      b \<or> (\<exists>r \<in> set rows. stored_is_subset_match q (fst r)))"
  by (induction q "(v, x, b)" rows arbitrary: v x b rule: merged_counter_loop.induct) (auto simp: add.assoc)

lemma merged_rate_loop_sum:
  "merged_rate_loop q (p, t, b) rows =
     (p + sum_list (map (\<lambda>r. fst (snd (snd r))) (filter (\<lambda>r. stored_is_subset_match q (fst r)) rows)),
      t + sum_list (map (\<lambda>r. snd (snd (snd r))) (filter (\<lambda>r. stored_is_subset_match q (fst r)) rows)),
      b \<or> (\<exists>r \<in> set rows. stored_is_subset_match q (fst r)))"
  by (induction q "(p, t, b)" rows arbitrary: p t b rule: merged_rate_loop.induct) (auto simp: add.assoc)

lemma sum_sort_filter:
  fixes g :: "'a \<Rightarrow> u64"
  shows "sum_list (map g (filter P (sort_key f xs))) = sum_list (map g (filter P xs))"
proof -
  have "mset (map g (filter P (sort_key f xs))) = mset (map g (filter P xs))" by simp
  then show ?thesis by (metis sum_mset_sum_list)
qed


section \<open>Conditions\<close>

definition op_free :: "string \<Rightarrow> bool" where
  "op_free s \<longleftrightarrow> list_all (\<lambda>c. c \<notin> set ''<>=!'') s"

lemma op_free_sets: "op_free s \<Longrightarrow> CHR ''<'' \<notin> set s \<and> CHR ''>'' \<notin> set s \<and> CHR ''='' \<notin> set s \<and> CHR ''!'' \<notin> set s"
  by (auto simp: op_free_def list_all_iff)

lemma find_str_absent: "c \<notin> set s \<Longrightarrow> find_str (c # p) s = None"
  by (induction s) (auto simp: starts_with_def)

lemma find_str_skip: "c \<notin> set s \<Longrightarrow> find_str (c # p) (s @ r) = map_option (\<lambda>n. n + length s) (find_str (c # p) r)"
proof (induction s)
  case (Cons x s)
  then have "\<not> starts_with (c # p) ((x # s) @ r)" by (auto simp: starts_with_def)
  then show ?case using Cons by (auto simp: option.map_comp comp_def)
qed (auto simp: option.map_ident)

lemma parse_op_text:
  assumes "op_free l" "op_free r" "(pat, op) \<in> set op_patterns"
  shows "parse_op (l @ pat @ r) = Some (l, op, r)"
proof -
  note L = op_free_sets[OF assms(1)] and R = op_free_sets[OF assms(2)]
  have r: "r = [] \<or> (\<exists>x t. r = x # t \<and> x \<noteq> CHR ''<'' \<and> x \<noteq> CHR ''>'' \<and> x \<noteq> CHR ''='' \<and> x \<noteq> CHR ''!'')"
    using R by (cases r) auto
  have "(pat, op) \<in> {(''==='', OEq), (''<='', OLte), (''>='', OGte), (''!='', ONeq), (''=='', OEq), (''<'', OLt), (''>'', OGt)}"
    using assms(3) by (simp add: op_patterns_def)
  then show ?thesis unfolding parse_op_def op_patterns_def using L R r
    by (elim insertE) (auto simp: find_str_skip find_str_absent starts_with_def)
qed

lemma op_ends:
  assumes "(pat, op) \<in> set op_patterns"
  shows "\<exists>c u w d. pat = c # u \<and> is_ascii c \<and> pat = w @ [d] \<and> is_ascii d"
proof -
  have "list_all (\<lambda>p. fst p \<noteq> [] \<and> is_ascii (hd (fst p)) \<and> is_ascii (last (fst p))) op_patterns" by code_simp
  then have "pat \<noteq> [] \<and> is_ascii (hd pat) \<and> is_ascii (last pat)" using assms by (auto simp: list_all_iff)
  then show ?thesis by (metis append_butlast_last_id list.collapse)
qed

section \<open>Properties\<close>

text \<open>An empty snapshot and one threshold that fails on it and may abort after five nanoseconds.\<close>

definition empty_snapshot :: "u64 list metrics_snapshot" where
  "empty_snapshot = \<lparr>snap_counters = [], snap_gauges = [], snap_rates = [], snap_trends = [], snap_hists = [],
     snap_tree = GroupSnapshot [] [] [] [] None\<rparr>"

definition example_threshold :: threshold where
  "example_threshold = \<lparr>th_expression = ''count>0'', th_abort_on_fail = True, th_delay_abort_eval = 5\<rparr>"

definition example_thresholds :: thresholds where
  "example_thresholds = [(''http_reqs'', [example_threshold]), (''checks'', [from_expression ''rate<0.5''])]"

text \<open>C4.  When the periodic evaluator aborts.  Over any non-empty sequence of ticks at ascending instants,
  the last tick aborts the run exactly when some threshold with \<open>abortOnFail\<close> has failed at every
  tick from one at least its \<open>delayAbortEval\<close> ago up to the last.\<close>

theorem threshold_abort_iff:
  assumes "keys_unique ths" and "ticks \<noteq> []" and "sorted (map snd ticks)"
    and "\<forall>x \<in> set (pairs_of ths). 0 \<le> th_delay_abort_eval (snd x)"
  shows "snd (tick_run D ths ticks ([], Continue)) = Abort \<longleftrightarrow>
    (\<exists>x \<in> set (pairs_of ths). th_abort_on_fail (snd x) \<and>
      (\<exists>i < length ticks. (\<forall>j. i \<le> j \<and> j < length ticks \<longrightarrow> fails D x (fst (ticks ! j))) \<and>
         th_delay_abort_eval (snd x) \<le> snd (last ticks) - snd (ticks ! i)))"
proof -
  obtain ts snap now where t: "ticks = ts @ [(snap, now)]" using assms(2) by (metis rev_exhaust surj_pair)
  let ?s = "fst (tick_run D ths ts ([], Continue))"
  have run: "tick_run D ths ticks ([], Continue) = update_states D ths snap now ?s" by (simp add: t tick_run_append)
  have since: "failing_since (state_of (fst (update_states D ths snap now ?s)) (pair_key x)) = fail_since (fails D x) None ticks"
    if "x \<in> set (pairs_of ths)" for x
    using tick_run_since[OF assms(1) that, of D ticks] run by simp
  have now: "now = snd (last ticks)" by (simp add: t)
  have "snd (tick_run D ths ticks ([], Continue)) = Abort \<longleftrightarrow>
      (\<exists>x \<in> set (pairs_of ths). th_abort_on_fail (snd x) \<and>
        (\<exists>since. fail_since (fails D x) None ticks = Some since \<and> th_delay_abort_eval (snd x) \<le> max 0 (snd (last ticks) - since)))"
    unfolding run update_states_decision[OF assms(1)] now using since now by auto
  then show ?thesis using fail_since_delay[OF assms(3,2)] assms(4) by auto
qed

theorem threshold_abort_iff_witness:
  "keys_unique example_thresholds \<and>
   snd (tick_run example_deps example_thresholds [(empty_snapshot, 1), (empty_snapshot, 3), (empty_snapshot, 6)] ([], Continue)) = Abort"
proof -
  let ?ticks = "[(empty_snapshot, 1), (empty_snapshot, 3), (empty_snapshot, 6 :: int)]" and ?x = "(''http_reqs'', example_threshold)"
  have k: "keys_unique example_thresholds" by code_simp
  have d: "\<forall>x \<in> set (pairs_of example_thresholds). 0 \<le> th_delay_abort_eval (snd x)" by code_simp
  have x: "?x \<in> set (pairs_of example_thresholds)" by (simp add: pairs_of_def example_thresholds_def)
  have "fails example_deps ?x empty_snapshot" by code_simp
  then have "\<forall>j. 0 \<le> j \<and> j < length ?ticks \<longrightarrow> fails example_deps ?x (fst (?ticks ! j))"
    by (auto simp: less_Suc_eq numeral_3_eq_3)
  then have "\<exists>i < length ?ticks. (\<forall>j. i \<le> j \<and> j < length ?ticks \<longrightarrow> fails example_deps ?x (fst (?ticks ! j))) \<and>
      th_delay_abort_eval (snd ?x) \<le> snd (last ?ticks) - snd (?ticks ! i)"
    by (intro exI[of _ 0]) (simp add: example_threshold_def)
  moreover have "th_abort_on_fail (snd ?x)" by (simp add: example_threshold_def)
  ultimately have "snd (tick_run example_deps example_thresholds ?ticks ([], Continue)) = Abort"
    by (intro iffD2[OF threshold_abort_iff[OF k _ _ d]] bexI[OF _ x] conjI) simp_all
  with k show ?thesis ..
qed

text \<open>The final report.  It does not depend on the iteration order of the threshold map, has its
  metrics in ascending order, and all thresholds pass exactly when no configured one fails.\<close>

lemma evaluate_report:
  assumes "hm_wf ths" and "mset ths' = mset ths"
  shows "evaluate D ths' snap = evaluate D ths snap \<and> sorted (map res_metric (evaluate D ths snap)) \<and>
    (all_passed (evaluate D ths snap) \<longleftrightarrow> list_all (\<lambda>x. \<not> fails D x snap) (pairs_of ths))"
proof (intro conjI)
  have wf': "hm_wf ths'" using assms by (metis hm_wf_def mset_eq_imp_distinct_iff mset_map)
  have eq: "map_of ths' = map_of ths" using assms wf' mset_eq_setD[OF assms(2)] by (simp add: hm_wf_def map_of_inject_set)
  show "evaluate D ths' snap = evaluate D ths snap" unfolding evaluate_rows
  proof (rule sort_key_cong_perm)
    show "mset (concat (map (row_results D snap) ths')) = mset (concat (map (row_results D snap) ths))"
      using assms(2) by (simp add: mset_concat_map)
    show "filter (\<lambda>x. res_metric x = k) (concat (map (row_results D snap) ths')) =
        filter (\<lambda>x. res_metric x = k) (concat (map (row_results D snap) ths))" for k
      unfolding filter_rows[OF assms(1)] filter_rows[OF wf'] eq ..
  qed
  show "sorted (map res_metric (evaluate D ths snap))" by (simp add: evaluate_def)
  show "all_passed (evaluate D ths snap) \<longleftrightarrow> list_all (\<lambda>x. \<not> fails D x snap) (pairs_of ths)"
    by (auto simp: all_passed_def evaluate_rows pairs_of_def fails_def list_all_iff case_prod_beta)
qed

text \<open>What a threshold counts.  For a threshold key with tags, the merged counter value and the
  merged passes and totals over the snapshot of a registry are those of the live query.  For an
  untagged key every tagged entry is counted twice, once by its own row and once by the derived
  aggregate.\<close>

lemma threshold_merge_counts:
  assumes q: "selector_parse q = Inr s"
  defines "extra \<equiv> \<lambda>f m. if sel_tags s = [] then sum_list (map f (matching q (filter (\<lambda>p. tagged (fst p)) m))) else 0"
  shows "map_option fst (merged_counter_for_threshold q (snapshot D d r)) =
      (if matching q (counters r) = [] then None
       else Some (counter_get q r + (if sel_tags s = [] then sum_list (matching q (filter (\<lambda>p. tagged (fst p)) (counters r))) else 0))) \<and>
    map_option snd (merged_rate_for_threshold q (snapshot D d r)) =
      (if matching q (rates r) = [] then None
       else Some (fst (snd (rate_get q r)) + extra r_passes (rates r), snd (snd (rate_get q r)) + extra r_total (rates r)))"
proof
  let ?P = "stored_is_subset_match q"
  let ?dc = "derive_loop counter_merge [] (counters r)" and ?dr = "derive_loop rate_merge [] (rates r)"
  have c: "sum_list (map (\<lambda>x. fst (snd x)) (filter (\<lambda>x. ?P (fst x)) (snap_counters (snapshot D d r)))) =
      sum_list (map snd (filter (\<lambda>p. ?P (fst p)) ?dc))"
    by (simp add: snapshot_def derive_counters_def sum_sort_filter filter_map comp_def counter_row_def)
  have ce: "(\<exists>x \<in> set (snap_counters (snapshot D d r)). ?P (fst x)) \<longleftrightarrow> matching q (counters r) \<noteq> []"
    using derived_threshold_any[OF q, of counter_merge "counters r"]
    by (simp add: snapshot_def derive_counters_def counter_row_def)
  show "map_option fst (merged_counter_for_threshold q (snapshot D d r)) =
      (if matching q (counters r) = [] then None
       else Some (counter_get q r + (if sel_tags s = [] then sum_list (matching q (filter (\<lambda>p. tagged (fst p)) (counters r))) else 0)))"
    using ce derived_threshold_sum[where f = "\<lambda>x. x" and merge = counter_merge, OF _ q, of "counters r"]
    unfolding merged_counter_for_threshold_def
    by (subst merged_counter_loop_sum) (simp add: c counter_get_sum counter_merge_def)
  have rp: "sum_list (map (\<lambda>x. fst (snd (snd x))) (filter (\<lambda>x. ?P (fst x)) (snap_rates (snapshot D d r)))) =
      sum_list (map r_passes (map snd (filter (\<lambda>p. ?P (fst p)) ?dr)))"
    by (simp add: snapshot_def derive_rates_def sum_sort_filter filter_map comp_def rate_row_def)
  have rt: "sum_list (map (\<lambda>x. snd (snd (snd x))) (filter (\<lambda>x. ?P (fst x)) (snap_rates (snapshot D d r)))) =
      sum_list (map r_total (map snd (filter (\<lambda>p. ?P (fst p)) ?dr)))"
    by (simp add: snapshot_def derive_rates_def sum_sort_filter filter_map comp_def rate_row_def)
  have re: "(\<exists>x \<in> set (snap_rates (snapshot D d r)). ?P (fst x)) \<longleftrightarrow> matching q (rates r) \<noteq> []"
    using derived_threshold_any[OF q, of rate_merge "rates r"]
    by (simp add: snapshot_def derive_rates_def rate_row_def)
  have sp: "sum_list (map r_passes (map snd (filter (\<lambda>p. ?P (fst p)) ?dr))) = sum_list (map r_passes (matching q (rates r))) + extra r_passes (rates r)"
    and st: "sum_list (map r_total (map snd (filter (\<lambda>p. ?P (fst p)) ?dr))) = sum_list (map r_total (matching q (rates r))) + extra r_total (rates r)"
    unfolding extra_def by (rule derived_threshold_sum[OF _ q]; simp add: rate_merge_def)+
  show "map_option snd (merged_rate_for_threshold q (snapshot D d r)) =
      (if matching q (rates r) = [] then None
       else Some (fst (snd (rate_get q r)) + extra r_passes (rates r), snd (snd (rate_get q r)) + extra r_total (rates r)))"
    using re unfolding merged_rate_for_threshold_def
    by (subst merged_rate_loop_sum) (simp add: rp[unfolded sp] rt[unfolded st] rate_get_sum Let_def)
qed

text \<open>The condition parser.  A statistic, an operator and a number written one after the other are
  read as that condition, for each of the seven operators; an expression without an operator is no
  condition, so its threshold fails.\<close>

lemma condition_parse:
  assumes "op_free st" "st \<noteq> []" "trimmed st" "parse_stat st = Some stat"
    and "op_free num" "num \<noteq> []" "trimmed num" "parse_f64 num = Some v"
    and "(pat, op) \<in> set op_patterns"
  shows "parse_condition (st @ pat @ num) = Some \<lparr>tc_stat = stat, tc_op = op, tc_value = v\<rparr> \<and>
    parse_condition st = None \<and> \<not> res_passed (evaluate_one D metric st snap)"
proof (intro conjI)
  obtain c u w d where c: "pat = c # u" "is_ascii c" and d: "pat = w @ [d]" "is_ascii d"
    using op_ends[OF assms(9)] by metis
  have "\<not> front_ws (st @ pat @ num)" using front_ws_sep[OF c(2) assms(2), of "u @ num"] assms(3) by (simp add: c(1) trimmed_iff)
  moreover have "\<not> back_ws (st @ pat @ num)"
    using back_ws_sep[OF d(2) assms(6), of "st @ w"] assms(7) by (simp add: d(1) trimmed_iff)
  ultimately have "trimmed (st @ pat @ num)" by (simp only: trimmed_iff) simp
  then show "parse_condition (st @ pat @ num) = Some \<lparr>tc_stat = stat, tc_op = op, tc_value = v\<rparr>"
    using assms parse_op_text[OF assms(1,5,9)] by (simp add: parse_condition_def Let_def)
  show n: "parse_condition st = None"
    using assms(3) op_free_sets[OF assms(1)]
    by (simp add: parse_condition_def Let_def parse_op_def op_patterns_def find_str_absent)
  show "\<not> res_passed (evaluate_one D metric st snap)" by (simp add: evaluate_one_def n)
qed


end
