(* ===== verification/Config.thy ===== *)
theory Config
  imports Json Thresholds
begin

text \<open>
  Test configuration (\<open>crates/k6-core/src/config.rs\<close>): durations, executors, scenarios, thresholds and the
  options object of a script.  An \<open>anyhow\<close> error is a value of \<open>config_error\<close>, its context a wrapper.
  The results: durations written as numbers with units parse to their exact sum, every parsed
  duration is in range, the default scenario, and that a parsed configuration meets what the
  threshold evaluator relies on.
\<close>

section \<open>Data\<close>

text \<open>\<open>MsgValue\<close> and \<open>CtxValue\<close> carry the value a message ends with in debug format.\<close>

datatype config_error =
    Msg string
  | MsgValue string json
  | Ctx string config_error
  | CtxValue string json config_error
  | ParseIntError
  | ParseFloatError
  | UnknownExecutor string

record stage =
  st_duration :: duration
  st_target :: u32

datatype executor_type =
    ConstantVus (cv_vus: u32) (cv_duration: duration)
  | RampingVus (rv_start_vus: u32) (rv_stages: "stage list") (rv_graceful_ramp_down: duration)
  | ConstantArrivalRate (ca_rate: u32) (ca_time_unit: duration) (ca_duration: duration)
      (ca_pre_allocated_vus: u32) (ca_max_vus: "u32 option")
  | RampingArrivalRate (ra_start_rate: u32) (ra_stages: "stage list") (ra_time_unit: duration)
      (ra_pre_allocated_vus: u32) (ra_max_vus: "u32 option")
  | PerVuIterations (pv_vus: u32) (pv_iterations: u32) (pv_max_duration: duration)
  | SharedIterations (si_vus: u32) (si_iterations: u32) (si_max_duration: duration)

record scenario_config =
  sc_executor :: executor_type
  sc_exec :: "string option"
  sc_start_time :: duration
  sc_graceful_stop :: duration
  sc_env :: "(string, string) hm"
  sc_tags :: "(string, string) hm"

record tls_version_config =
  tls_min :: "string option"
  tls_max :: "string option"

record dns_config =
  dns_ttl :: "string option"
  dns_select :: "string option"
  dns_policy :: "string option"

record test_config =
  cfg_setup_timeout :: duration
  cfg_teardown_timeout :: duration
  cfg_vus :: u32
  cfg_duration :: duration
  cfg_iterations :: "u32 option"
  cfg_scenarios :: "(string, scenario_config) hm"
  cfg_discard_response_bodies :: bool
  cfg_max_redirects :: "u32 option"
  cfg_user_agent :: "string option"
  cfg_no_connection_reuse :: bool
  cfg_no_vu_connection_reuse :: bool
  cfg_insecure_skip_tls_verify :: bool
  cfg_thresholds :: thresholds
  cfg_tls_version :: "tls_version_config option"
  cfg_dns :: "dns_config option"
  cfg_blacklist_ips :: "string list"
  cfg_block_hostnames :: "string list"
  cfg_hosts :: "(string, string) hm"
  cfg_http_debug :: "string option"
  cfg_throw :: bool
  cfg_console_output :: "string option"
  cfg_local_ips :: "string list"
  cfg_rps :: u32

section \<open>Results\<close>

text \<open>The \<open>?\<close> operator, \<open>Option::context\<close> and \<open>Result::with_context\<close>.\<close>

fun bind_r :: "'e + 'a \<Rightarrow> ('a \<Rightarrow> 'e + 'b) \<Rightarrow> 'e + 'b" where
  "bind_r (Inl e) f = Inl e"
| "bind_r (Inr x) f = f x"

definition context_o :: "string \<Rightarrow> 'a option \<Rightarrow> config_error + 'a" where
  "context_o msg x = (case x of None \<Rightarrow> Inl (Msg msg) | Some v \<Rightarrow> Inr v)"

definition context_r :: "string \<Rightarrow> config_error + 'a \<Rightarrow> config_error + 'a" where
  "context_r msg x = (case x of Inl e \<Rightarrow> Inl (Ctx msg e) | Inr v \<Rightarrow> Inr v)"

definition context_v :: "string \<Rightarrow> json \<Rightarrow> config_error + 'a \<Rightarrow> config_error + 'a" where
  "context_v msg j x = (case x of Inl e \<Rightarrow> Inl (CtxValue msg j e) | Inr v \<Rightarrow> Inr v)"

text \<open>A name in single quotes, as the messages have it.\<close>

definition quoted :: "string \<Rightarrow> string" where
  "quoted s = CHR 0x27 # s @ [CHR 0x27]"

definition ok_r :: "'e + 'a \<Rightarrow> 'a option" where
  "ok_r x = (case x of Inl e \<Rightarrow> None | Inr v \<Rightarrow> Some v)"

text \<open>\<open>collect::<Result<Vec<_>>>\<close>: the first error wins.\<close>

fun collect_r :: "('e + 'a) list \<Rightarrow> 'e + 'a list" where
  "collect_r [] = Inr []"
| "collect_r (x # xs) = bind_r x (\<lambda>v. bind_r (collect_r xs) (\<lambda>vs. Inr (v # vs)))"

section \<open>Durations\<close>

text \<open>The unit loop: ASCII letters and the character U+00B5, two bytes in UTF-8.\<close>

fun take_unit :: "string \<Rightarrow> string \<times> string" where
  "take_unit [] = ([], [])"
| "take_unit [c] = (if is_alpha c then ([c], []) else ([], [c]))"
| "take_unit (c # d # s) =
     (if is_alpha c then (let (u, r) = take_unit (d # s) in (c # u, r))
      else if c = CHR 0xC2 \<and> d = CHR 0xB5 then (let (u, r) = take_unit s in (c # d # u, r))
      else ([], c # d # s))"

text \<open>The number loop: digits, then a point and more digits.\<close>

definition take_number :: "string \<Rightarrow> string \<times> string \<times> bool" where
  "take_number s =
     (let ip = takeWhile is_digit s; r = dropWhile is_digit s
      in case r of
           [] \<Rightarrow> (ip, r, ip \<noteq> [])
         | c # r' \<Rightarrow>
             if c = CHR ''.''
             then (let fp = takeWhile is_digit r' in (ip @ c # fp, dropWhile is_digit r', ip \<noteq> [] \<or> fp \<noteq> []))
             else (ip, r, ip \<noteq> []))"

definition unit_nanos :: "string \<Rightarrow> f64 \<Rightarrow> f64 option" where
  "unit_nanos unit number =
     (if unit = ''ns'' then Some number
      else if unit = ''us'' \<or> unit = [CHR 0xC2, CHR 0xB5, CHR ''s''] then Some (fmul number (flit 1000))
      else if unit = ''ms'' then Some (fmul number (flit 1000000))
      else if unit = ''s'' then Some (fmul number (flit 1000000000))
      else if unit = ''m'' then Some (fmul (fmul number (flit 60)) (flit 1000000000))
      else if unit = ''h'' then Some (fmul (fmul (fmul number (flit 60)) (flit 60)) (flit 1000000000))
      else if unit = ''d'' then Some (fmul (fmul (fmul (fmul number (flit 24)) (flit 60)) (flit 60)) (flit 1000000000))
      else None)"

lemma take_unit_split: "fst (take_unit s) @ snd (take_unit s) = s"
  by (induction s rule: take_unit.induct) (auto simp: case_prod_beta)

lemma take_number_split: "fst (take_number s) @ fst (snd (take_number s)) = s"
proof (cases "dropWhile is_digit s")
  case Nil
  then have "takeWhile is_digit s = s" by (metis append_Nil2 takeWhile_dropWhile_id)
  then show ?thesis by (simp only: take_number_def Let_def Nil list.case fst_conv snd_conv append_Nil2)
next
  case (Cons c r)
  then have "takeWhile is_digit s @ c # r = s" by (metis takeWhile_dropWhile_id)
  then show ?thesis by (auto simp: take_number_def Let_def Cons)
qed

text \<open>The loop over the parts of \<open>s\<close>; \<open>rest\<close> is what is left of it.\<close>

function duration_loop :: "string \<Rightarrow> f64 \<Rightarrow> string \<Rightarrow> config_error + f64" where
  "duration_loop s acc rest =
     (if rest = [] then Inr acc
      else
        let (num, r1, saw_digit) = take_number rest; (unit, r2) = take_unit r1
        in if \<not> saw_digit then Inl (Msg (''invalid number in duration: '' @ s))
           else case parse_f64 num of
               None \<Rightarrow> Inl (Ctx (''invalid number in duration: '' @ s) ParseFloatError)
             | Some number \<Rightarrow>
                 if unit = [] then Inl (Msg (''missing duration unit in: '' @ s))
                 else case unit_nanos unit number of
                     None \<Rightarrow> Inl (Msg (''unknown duration unit: '' @ unit))
                   | Some nanos \<Rightarrow> duration_loop s (fadd acc nanos) r2)"
  by pat_completeness auto
termination
proof (relation "measure (\<lambda>(s, acc, rest). length rest)", goal_cases)
  case (2 s acc rest x num y r1 saw z unit r2 number nanos)
  have "num @ r1 = rest" using take_number_split[of rest] 2 by (metis fst_conv snd_conv)
  moreover have "unit @ r2 = r1" using take_unit_split[of r1] 2 by (metis fst_conv snd_conv)
  ultimately have "length rest = length num + length unit + length r2" by (metis add.assoc length_append)
  then show ?case using 2 by (cases unit) auto
qed simp

definition parse_duration :: "string \<Rightarrow> config_error + duration" where
  "parse_duration text =
     (let s = trim text
      in if s = [] then Inl (Msg ''empty duration string'')
         else if starts_with ''-'' s then Inl (Msg (''duration must be non-negative: '' @ s))
         else if list_all is_digit s then
           (case parse_u64_digits s of None \<Rightarrow> Inl ParseIntError | Some num \<Rightarrow> Inr (from_millis (uint num)))
         else
           let general = bind_r (duration_loop s f0 s) (\<lambda>total.
                 if \<not> is_finite total \<or> flt total f0 then Inl (Msg (''duration out of range: '' @ s))
                 else Inr (uint (f_to_u64 (f_round total))))
           in if list_all (\<lambda>c. is_digit c \<or> c = CHR ''.'') s \<and> length (filter (\<lambda>c. c = CHR ''.'') s) = 1 then
                (case parse_f64 s of
                   None \<Rightarrow> Inl (Ctx (''invalid number in duration: '' @ s) ParseFloatError)
                 | Some millis \<Rightarrow>
                     if is_finite millis \<and> fle f0 millis
                     then Inr (uint (f_to_u64 (f_round (fmul millis (flit 1000000))))) else general)
              else general)"

section \<open>Small readers\<close>

definition get_u32 :: "json_map \<Rightarrow> string \<Rightarrow> config_error + u32" where
  "get_u32 obj key = context_o (''missing or invalid '' @ quoted key) (map_option (\<lambda>v. ucast v) (get_as as_u64 obj key))"

definition get_duration :: "json_map \<Rightarrow> string \<Rightarrow> config_error + duration" where
  "get_duration obj key = bind_r (context_o (''missing or invalid '' @ quoted key) (get_as as_str obj key)) parse_duration"

definition get_duration_or :: "json_map \<Rightarrow> string \<Rightarrow> duration \<Rightarrow> duration" where
  "get_duration_or obj key dflt =
     (case Option.bind (get_as as_str obj key) (\<lambda>s. ok_r (parse_duration s)) of None \<Rightarrow> dflt | Some d \<Rightarrow> d)"

definition unwrap_or :: "'e + 'a \<Rightarrow> 'a \<Rightarrow> 'a" where
  "unwrap_or x d = (case x of Inl e \<Rightarrow> d | Inr v \<Rightarrow> v)"

definition parse_string_array :: "json \<Rightarrow> config_error + string list" where
  "parse_string_array value =
     bind_r (context_o ''expected an array'' (as_array value))
       (\<lambda>arr. collect_r (map (\<lambda>v. context_o ''array elements must be strings'' (as_str v)) arr))"

definition parse_string_map :: "json option \<Rightarrow> (string, string) hm" where
  "parse_string_map value =
     (case Option.bind value as_object of
        None \<Rightarrow> []
      | Some obj \<Rightarrow> fold (\<lambda>(k, v) m. case as_str v of None \<Rightarrow> m | Some s \<Rightarrow> hm_put k s m) obj [])"

definition parse_tls_version :: "json \<Rightarrow> config_error + tls_version_config" where
  "parse_tls_version value =
     (case value of
        JString s \<Rightarrow> Inr \<lparr>tls_min = Some s, tls_max = Some s\<rparr>
      | JObject obj \<Rightarrow> Inr \<lparr>tls_min = get_as as_str obj ''min'', tls_max = get_as as_str obj ''max''\<rparr>
      | _ \<Rightarrow> Inl (Msg ''tlsVersion must be a string or object with min/max''))"

definition dns_validate :: "dns_config \<Rightarrow> config_error + unit" where
  "dns_validate c =
     bind_r (case dns_select c of
               None \<Rightarrow> Inr ()
             | Some select \<Rightarrow> if select \<in> set [''first'', ''random'', ''roundRobin''] then Inr ()
                             else Inl (Msg (''invalid dns.select: '' @ select))) (\<lambda>_.
     bind_r (case dns_policy c of
               None \<Rightarrow> Inr ()
             | Some policy \<Rightarrow> if policy \<in> set [''preferIPv4'', ''preferIPv6'', ''onlyIPv4'', ''onlyIPv6'', ''any''] then Inr ()
                             else Inl (Msg (''invalid dns.policy: '' @ policy))) (\<lambda>_.
     case dns_ttl c of
       None \<Rightarrow> Inr ()
     | Some ttl \<Rightarrow> if ttl \<noteq> ''inf'' then bind_r (context_r (''invalid dns.ttl: '' @ ttl) (parse_duration ttl)) (\<lambda>_. Inr ())
                  else Inr ()))"

definition parse_dns_config :: "json \<Rightarrow> config_error + dns_config" where
  "parse_dns_config value =
     bind_r (context_o ''dns must be an object'' (as_object value)) (\<lambda>obj.
       let config = \<lparr>dns_ttl = get_as as_str obj ''ttl'', dns_select = get_as as_str obj ''select'', dns_policy = get_as as_str obj ''policy''\<rparr>
       in bind_r (dns_validate config) (\<lambda>_. Inr config))"

section \<open>Thresholds\<close>

definition parse_one_threshold :: "string \<Rightarrow> json \<Rightarrow> config_error + threshold" where
  "parse_one_threshold metric_name v =
     (case as_str v of
        Some s \<Rightarrow> Inr (from_expression s)
      | None \<Rightarrow>
          (case as_object v of
             None \<Rightarrow> Inl (MsgValue (''threshold entry for '' @ metric_name @ '' must be a string or object, got '') v)
           | Some obj \<Rightarrow>
               bind_r (context_o (''threshold object for '' @ metric_name @ '' missing required string field `threshold`'')
                         (get_as as_str obj ''threshold'')) (\<lambda>expression.
               let abort_on_fail = (case get_as as_bool obj ''abortOnFail'' of None \<Rightarrow> False | Some b \<Rightarrow> b)
               in bind_r (case map_of obj ''delayAbortEval'' of
                            None \<Rightarrow> Inr 0
                          | Some (JString s) \<Rightarrow>
                              context_v (''threshold for '' @ metric_name @ '': invalid delayAbortEval '') (JString s) (parse_duration s)
                          | Some other \<Rightarrow>
                              Inl (MsgValue (''threshold for '' @ metric_name @ '': delayAbortEval must be a duration string, got '') other))
                    (\<lambda>delay. Inr \<lparr>th_expression = expression, th_abort_on_fail = abort_on_fail, th_delay_abort_eval = delay\<rparr>))))"

definition threshold_conditions :: "string \<Rightarrow> json \<Rightarrow> config_error + threshold list" where
  "threshold_conditions name val =
     (case val of
        JArray arr \<Rightarrow> collect_r (map (parse_one_threshold name) arr)
      | JString s \<Rightarrow> Inr [from_expression s]
      | _ \<Rightarrow> Inl (Msg (''threshold for '' @ name @ '' must be a string, array of strings, or array of objects'')))"

fun parse_thresholds_loop :: "json_map \<Rightarrow> thresholds \<Rightarrow> config_error + thresholds" where
  "parse_thresholds_loop [] ths = Inr ths"
| "parse_thresholds_loop ((name, val) # obj) ths =
     bind_r (threshold_conditions name val) (\<lambda>conditions. parse_thresholds_loop obj (hm_put name conditions ths))"

definition parse_thresholds :: "json \<Rightarrow> config_error + thresholds" where
  "parse_thresholds value =
     bind_r (context_o ''thresholds must be an object'' (as_object value)) (\<lambda>obj. parse_thresholds_loop obj [])"

section \<open>Scenarios\<close>

definition parse_stage :: "json \<Rightarrow> config_error + stage" where
  "parse_stage v =
     bind_r (context_o ''stage must be an object'' (as_object v)) (\<lambda>obj.
     bind_r (get_duration obj ''duration'') (\<lambda>d.
     bind_r (context_r (''stage requires '' @ quoted ''target'') (get_u32 obj ''target'')) (\<lambda>t.
     Inr \<lparr>st_duration = d, st_target = t\<rparr>)))"

definition parse_stages :: "json \<Rightarrow> config_error + stage list" where
  "parse_stages value =
     bind_r (context_o ''stages must be an array'' (as_array value)) (\<lambda>arr. collect_r (map parse_stage arr))"

definition stages_of :: "json_map \<Rightarrow> string \<Rightarrow> config_error + stage list" where
  "stages_of obj msg = bind_r (context_o msg (map_of obj ''stages'')) parse_stages"

definition parse_executor :: "string \<Rightarrow> json_map \<Rightarrow> config_error + executor_type" where
  "parse_executor kind obj =
     (if kind = ''constant-vus'' then
        bind_r (get_duration obj ''duration'') (\<lambda>d. Inr (ConstantVus (unwrap_or (get_u32 obj ''vus'') 1) d))
      else if kind = ''ramping-vus'' then
        bind_r (stages_of obj (''ramping-vus requires '' @ quoted ''stages'')) (\<lambda>stages.
          Inr (RampingVus (unwrap_or (get_u32 obj ''startVUs'') 1) stages (get_duration_or obj ''gracefulRampDown'' (from_secs 30))))
      else if kind = ''constant-arrival-rate'' then
        bind_r (context_r (''constant-arrival-rate requires '' @ quoted ''rate'') (get_u32 obj ''rate'')) (\<lambda>rate.
        bind_r (get_duration obj ''duration'') (\<lambda>d.
        bind_r (context_r (''constant-arrival-rate requires '' @ quoted ''preAllocatedVUs'') (get_u32 obj ''preAllocatedVUs'')) (\<lambda>pre.
          Inr (ConstantArrivalRate rate (get_duration_or obj ''timeUnit'' (from_secs 1)) d pre (ok_r (get_u32 obj ''maxVUs''))))))
      else if kind = ''ramping-arrival-rate'' then
        bind_r (stages_of obj (''ramping-arrival-rate requires '' @ quoted ''stages'')) (\<lambda>stages.
        bind_r (context_r (''ramping-arrival-rate requires '' @ quoted ''preAllocatedVUs'') (get_u32 obj ''preAllocatedVUs'')) (\<lambda>pre.
          Inr (RampingArrivalRate (unwrap_or (get_u32 obj ''startRate'') 0) stages (get_duration_or obj ''timeUnit'' (from_secs 1))
                 pre (ok_r (get_u32 obj ''maxVUs'')))))
      else if kind = ''per-vu-iterations'' then
        Inr (PerVuIterations (unwrap_or (get_u32 obj ''vus'') 1) (unwrap_or (get_u32 obj ''iterations'') 1)
               (get_duration_or obj ''maxDuration'' (from_secs 600)))
      else if kind = ''shared-iterations'' then
        Inr (SharedIterations (unwrap_or (get_u32 obj ''vus'') 1) (unwrap_or (get_u32 obj ''iterations'') 1)
               (get_duration_or obj ''maxDuration'' (from_secs 600)))
      else Inl (UnknownExecutor kind))"

definition parse_scenario :: "json \<Rightarrow> config_error + scenario_config" where
  "parse_scenario val =
     bind_r (context_o ''scenario must be an object'' (as_object val)) (\<lambda>obj.
     bind_r (context_o (''scenario must have an '' @ quoted ''executor'' @ '' string'') (get_as as_str obj ''executor'')) (\<lambda>kind.
     bind_r (parse_executor kind obj) (\<lambda>executor.
       Inr \<lparr>sc_executor = executor, sc_exec = get_as as_str obj ''exec'',
            sc_start_time = get_duration_or obj ''startTime'' 0,
            sc_graceful_stop = get_duration_or obj ''gracefulStop'' (from_secs 30),
            sc_env = parse_string_map (map_of obj ''env''), sc_tags = parse_string_map (map_of obj ''tags'')\<rparr>)))"

fun parse_scenarios_loop :: "json_map \<Rightarrow> (string, scenario_config) hm \<Rightarrow> config_error + (string, scenario_config) hm" where
  "parse_scenarios_loop [] scenarios = Inr scenarios"
| "parse_scenarios_loop ((name, val) # obj) scenarios =
     bind_r (context_r (''in scenario '' @ quoted name) (parse_scenario val)) (\<lambda>s. parse_scenarios_loop obj (hm_put name s scenarios))"

definition parse_scenarios :: "json \<Rightarrow> config_error + (string, scenario_config) hm" where
  "parse_scenarios value =
     bind_r (context_o ''scenarios must be an object'' (as_object value)) (\<lambda>obj. parse_scenarios_loop obj [])"

section \<open>The options object\<close>

definition config_default :: test_config where
  "config_default =
     \<lparr>cfg_setup_timeout = from_secs 60, cfg_teardown_timeout = from_secs 60, cfg_vus = 1, cfg_duration = from_secs 10,
      cfg_iterations = None, cfg_scenarios = [], cfg_discard_response_bodies = False, cfg_max_redirects = None,
      cfg_user_agent = None, cfg_no_connection_reuse = False, cfg_no_vu_connection_reuse = False,
      cfg_insecure_skip_tls_verify = False, cfg_thresholds = [], cfg_tls_version = None, cfg_dns = None,
      cfg_blacklist_ips = [], cfg_block_hostnames = [], cfg_hosts = [], cfg_http_debug = None, cfg_throw = False,
      cfg_console_output = None, cfg_local_ips = [], cfg_rps = 0\<rparr>"

text \<open>\<open>if let Some(v) = obj.get(name) { config.field = read(v)?; }\<close>\<close>

definition opt_field ::
    "json_map \<Rightarrow> string \<Rightarrow> (json \<Rightarrow> config_error + 'a) \<Rightarrow> ('a \<Rightarrow> test_config \<Rightarrow> test_config) \<Rightarrow> test_config \<Rightarrow> config_error + test_config" where
  "opt_field obj name read upd config =
     (case map_of obj name of None \<Rightarrow> Inr config | Some v \<Rightarrow> bind_r (read v) (\<lambda>x. Inr (upd x config)))"

definition read_u32 :: "string \<Rightarrow> json \<Rightarrow> config_error + u32" where
  "read_u32 msg v = context_o msg (map_option (\<lambda>n. ucast n) (as_u64 v))"

definition read_bool :: "string \<Rightarrow> json \<Rightarrow> config_error + bool" where
  "read_bool msg v = context_o msg (as_bool v)"

definition read_str :: "string \<Rightarrow> json \<Rightarrow> config_error + string" where
  "read_str msg v = context_o msg (as_str v)"

definition read_duration :: "string \<Rightarrow> json \<Rightarrow> config_error + duration" where
  "read_duration msg v = bind_r (context_o msg (as_str v)) parse_duration"

fun run_steps :: "(test_config \<Rightarrow> config_error + test_config) list \<Rightarrow> test_config \<Rightarrow> config_error + test_config" where
  "run_steps [] c = Inr c"
| "run_steps (f # fs) c = bind_r (f c) (run_steps fs)"

definition option_steps :: "json_map \<Rightarrow> (test_config \<Rightarrow> config_error + test_config) list" where
  "option_steps obj =
     [opt_field obj ''setupTimeout'' (read_duration ''setupTimeout must be a duration string'') (\<lambda>x c. c\<lparr>cfg_setup_timeout := x\<rparr>),
      opt_field obj ''teardownTimeout'' (read_duration ''teardownTimeout must be a duration string'') (\<lambda>x c. c\<lparr>cfg_teardown_timeout := x\<rparr>),
      opt_field obj ''vus'' (read_u32 ''vus must be a number'') (\<lambda>x c. c\<lparr>cfg_vus := x\<rparr>),
      opt_field obj ''duration'' (read_duration ''duration must be a string'') (\<lambda>x c. c\<lparr>cfg_duration := x\<rparr>),
      opt_field obj ''iterations'' (\<lambda>v. context_o ''iterations must be a number'' (as_u64 v))
        (\<lambda>n c. if 0 < n then c\<lparr>cfg_iterations := Some (ucast n)\<rparr> else c),
      opt_field obj ''discardResponseBodies'' (read_bool ''discardResponseBodies must be bool'') (\<lambda>x c. c\<lparr>cfg_discard_response_bodies := x\<rparr>),
      opt_field obj ''maxRedirects'' (read_u32 ''maxRedirects must be a number'') (\<lambda>x c. c\<lparr>cfg_max_redirects := Some x\<rparr>),
      opt_field obj ''userAgent'' (read_str ''userAgent must be a string'') (\<lambda>x c. c\<lparr>cfg_user_agent := Some x\<rparr>),
      opt_field obj ''noConnectionReuse'' (read_bool ''noConnectionReuse must be bool'') (\<lambda>x c. c\<lparr>cfg_no_connection_reuse := x\<rparr>),
      opt_field obj ''noVUConnectionReuse'' (read_bool ''noVUConnectionReuse must be bool'') (\<lambda>x c. c\<lparr>cfg_no_vu_connection_reuse := x\<rparr>),
      opt_field obj ''insecureSkipTLSVerify'' (read_bool ''insecureSkipTLSVerify must be bool'') (\<lambda>x c. c\<lparr>cfg_insecure_skip_tls_verify := x\<rparr>),
      opt_field obj ''tlsVersion'' parse_tls_version (\<lambda>x c. c\<lparr>cfg_tls_version := Some x\<rparr>),
      opt_field obj ''dns'' parse_dns_config (\<lambda>x c. c\<lparr>cfg_dns := Some x\<rparr>),
      opt_field obj ''blacklistIPs'' parse_string_array (\<lambda>x c. c\<lparr>cfg_blacklist_ips := x\<rparr>),
      opt_field obj ''blockHostnames'' parse_string_array (\<lambda>x c. c\<lparr>cfg_block_hostnames := x\<rparr>),
      opt_field obj ''hosts'' (\<lambda>v. Inr (parse_string_map (Some v))) (\<lambda>x c. c\<lparr>cfg_hosts := x\<rparr>),
      opt_field obj ''httpDebug'' (\<lambda>v. Inr (case as_str v of None \<Rightarrow> ''full'' | Some s \<Rightarrow> s)) (\<lambda>x c. c\<lparr>cfg_http_debug := Some x\<rparr>),
      opt_field obj ''throw'' (read_bool ''throw must be bool'') (\<lambda>x c. c\<lparr>cfg_throw := x\<rparr>),
      opt_field obj ''consoleOutput'' (read_str ''consoleOutput must be a string'') (\<lambda>x c. c\<lparr>cfg_console_output := Some x\<rparr>),
      opt_field obj ''localIPs'' parse_string_array (\<lambda>x c. c\<lparr>cfg_local_ips := x\<rparr>),
      opt_field obj ''rps'' (read_u32 ''rps must be a number'') (\<lambda>x c. c\<lparr>cfg_rps := x\<rparr>),
      opt_field obj ''thresholds'' parse_thresholds (\<lambda>x c. c\<lparr>cfg_thresholds := x\<rparr>),
      opt_field obj ''scenarios'' parse_scenarios (\<lambda>x c. c\<lparr>cfg_scenarios := x\<rparr>)]"

definition default_scenario :: "test_config \<Rightarrow> scenario_config" where
  "default_scenario config =
     \<lparr>sc_executor = (case cfg_iterations config of
         Some iters \<Rightarrow> SharedIterations (cfg_vus config) iters (cfg_duration config)
       | None \<Rightarrow> ConstantVus (cfg_vus config) (cfg_duration config)),
      sc_exec = None, sc_start_time = 0, sc_graceful_stop = from_secs 30, sc_env = [], sc_tags = []\<rparr>"

definition parse_options :: "json \<Rightarrow> config_error + test_config" where
  "parse_options options =
     bind_r (context_o ''options must be a JSON object'' (as_object options)) (\<lambda>obj.
     bind_r (run_steps (option_steps obj) config_default) (\<lambda>config.
       if cfg_scenarios config = [] \<and> 0 < cfg_vus config
       then Inr (config\<lparr>cfg_scenarios := hm_put ''default'' (default_scenario config) (cfg_scenarios config)\<rparr>)
       else Inr config))"

section \<open>Exact sums of durations\<close>

text \<open>A float that holds an integer exactly.\<close>

definition holds_int :: "f64 \<Rightarrow> int \<Rightarrow> bool" where
  "holds_int a n \<longleftrightarrow> is_fin a \<and> f64_wf a \<and> fval a = of_int n"

lemma holds_fround: "\<bar>n\<bar> \<le> 2 ^ 53 \<Longrightarrow> holds_int (fround z (of_int n)) n"
proof -
  assume n: "\<bar>n\<bar> \<le> 2 ^ 53"
  have "srnd (of_int n) = of_int n" using n by (intro srnd_exact repr_of_int)
  moreover have "in_range (of_int n)"
  proof (rule in_range_small)
    have "\<bar>of_int n :: rat\<bar> \<le> of_int (2 ^ 53)" using n by (metis of_int_abs of_int_le_iff)
    also have "\<dots> \<le> 2 ^ 1023" by (simp del: power_numeral_even power_numeral_odd)
    finally show "\<bar>of_int n :: rat\<bar> \<le> 2 ^ 1023" .
  qed
  ultimately show ?thesis by (simp add: holds_int_def)
qed

lemma holds_of_int: "\<bar>n\<bar> \<le> 2 ^ 53 \<Longrightarrow> holds_int (f_of_int n) n"
  unfolding f_of_int_def by (rule holds_fround)

lemma holds_flit: "\<bar>numeral k\<bar> \<le> (2 ^ 53 :: int) \<Longrightarrow> holds_int (flit (numeral k)) (numeral k)"
  using holds_of_int[of "numeral k"] by (simp add: flit_def f_of_int_def)

lemma holds_mul:
  assumes "holds_int a x" "holds_int b y" "\<bar>x * y\<bar> \<le> 2 ^ 53" shows "holds_int (fmul a b) (x * y)"
  using assms holds_fround[OF assms(3)] by (simp add: holds_int_def fmul_fin)

lemma holds_add:
  assumes "holds_int a x" "holds_int b y" "\<bar>x + y\<bar> \<le> 2 ^ 53" shows "holds_int (fadd a b) (x + y)"
  using assms holds_fround[OF assms(3)] by (simp add: holds_int_def fadd_fin)

definition duration_units :: "(string \<times> int) list" where
  "duration_units = [(''ns'', 1), (''us'', 1000), ([CHR 0xC2, CHR 0xB5, CHR ''s''], 1000), (''ms'', 1000000), (''s'', 1000000000),
     (''m'', 60000000000), (''h'', 3600000000000), (''d'', 86400000000000)]"

lemma unit_cases:
  assumes "(u, k) \<in> set duration_units"
  obtains "u = ''ns'' \<and> k = 1" | "u = ''us'' \<and> k = 1000" | "u = [CHR 0xC2, CHR 0xB5, CHR ''s''] \<and> k = 1000"
    | "u = ''ms'' \<and> k = 1000000" | "u = ''s'' \<and> k = 1000000000" | "u = ''m'' \<and> k = 60000000000"
    | "u = ''h'' \<and> k = 3600000000000" | "u = ''d'' \<and> k = 86400000000000"
  using assms[unfolded duration_units_def list.set]
  by (elim insertE emptyE Pair_inject) (rule that, rule conjI, assumption, assumption)+

lemma unit_nanos_exact:
  assumes u: "(u, k) \<in> set duration_units" and a: "holds_int a n" "0 \<le> n" "n * k \<le> 2 ^ 53"
  shows "\<exists>b. unit_nanos u a = Some b \<and> holds_int b (n * k)"
proof -
  have lit: "holds_int (flit 24) 24" "holds_int (flit 60) 60" "holds_int (flit 1000) 1000" "holds_int (flit 1000000) 1000000"
    "holds_int (flit 1000000000) 1000000000" by (rule holds_flit, simp)+
  have mul: "holds_int (fmul b l) (x * c)" if "holds_int b x" "holds_int l c" "0 \<le> x" "0 \<le> c" "x * c \<le> 2 ^ 53" for b l x c
    using holds_mul[OF that(1,2)] that(3-5) by simp
  show ?thesis using u
  proof (cases rule: unit_cases)
    case 6
    then have "holds_int (fmul (fmul a (flit 60)) (flit 1000000000)) (n * 60 * 1000000000)"
      using a by (intro mul[OF mul[OF a(1) lit(2)] lit(5)]) auto
    then show ?thesis using 6 by (simp add: unit_nanos_def mult.commute)
  next
    case 7
    then have "holds_int (fmul (fmul (fmul a (flit 60)) (flit 60)) (flit 1000000000)) (n * 60 * 60 * 1000000000)"
      using a by (intro mul[OF mul[OF mul[OF a(1) lit(2)] lit(2)] lit(5)]) auto
    then show ?thesis using 7 by (simp add: unit_nanos_def mult.commute)
  next
    case 8
    then have "holds_int (fmul (fmul (fmul (fmul a (flit 24)) (flit 60)) (flit 60)) (flit 1000000000)) (n * 24 * 60 * 60 * 1000000000)"
      using a by (intro mul[OF mul[OF mul[OF mul[OF a(1) lit(1)] lit(2)] lit(2)] lit(5)]) auto
    then show ?thesis using 8 by (simp add: unit_nanos_def mult.commute)
  qed (use a mul[OF a(1) lit(3)] mul[OF a(1) lit(4)] mul[OF a(1) lit(5)] in \<open>simp_all add: unit_nanos_def\<close>)
qed

text \<open>A duration as a list of numbers with units: its text and its length in nanoseconds.\<close>

definition dur_text :: "(int \<times> string) list \<Rightarrow> string" where
  "dur_text parts = concat (map (\<lambda>(n, u). dec n @ u) parts)"

definition part_nanos :: "int \<times> string \<Rightarrow> int" where
  "part_nanos p = fst p * the (map_of duration_units (snd p))"

definition parts_ok :: "(int \<times> string) list \<Rightarrow> bool" where
  "parts_ok parts \<longleftrightarrow> list_all (\<lambda>(n, u). 0 \<le> n \<and> u \<in> fst ` set duration_units) parts"

lemma part_nanos_unit: "(u, k) \<in> set duration_units \<Longrightarrow> part_nanos (n, u) = n * k \<and> 1 \<le> k"
  by (erule unit_cases) (auto simp: part_nanos_def duration_units_def)

lemma parts_nanos_nonneg: "parts_ok parts \<Longrightarrow> 0 \<le> sum_list (map part_nanos parts)"
proof (rule sum_list_nonneg)
  fix x assume ok: "parts_ok parts" and "x \<in> set (map part_nanos parts)"
  then obtain m v j where "x = part_nanos (m, v)" "(v, j) \<in> set duration_units" "0 \<le> m"
    by (auto simp: parts_ok_def list_all_iff)
  then show "0 \<le> x" using part_nanos_unit[of v j m] by simp
qed

lemma take_unit_text:
  assumes "(u, k) \<in> set duration_units" "r = [] \<or> is_digit (hd r)"
  shows "take_unit (u @ r) = (u, r)"
proof -
  have r: "take_unit r = ([], r)"
  proof (cases r)
    case (Cons d t)
    then have "is_digit d" using assms(2) by simp
    then show ?thesis using digit_not[of d] Cons by (cases t) auto
  qed simp
  have step: "is_alpha c \<Longrightarrow> take_unit (c # q) = (let (u, q') = take_unit q in (c # u, q'))" for c q
    by (cases q) simp_all
  have al: "is_alpha (CHR ''n'')" "is_alpha (CHR ''s'')" "is_alpha (CHR ''u'')" "is_alpha (CHR ''m'')" "is_alpha (CHR ''h'')" "is_alpha (CHR ''d'')"
    "\<not> is_alpha (CHR 0xC2)" by (simp_all add: is_alpha_def)
  show ?thesis using assms(1) by (cases rule: unit_cases) (simp_all add: step al r del: take_unit.simps(3), simp add: step al r)
qed

lemma take_number_text:
  assumes "0 \<le> n" "(u, k) \<in> set duration_units"
  shows "take_number (dec n @ u @ r) = (dec n, u @ r, True)"
proof -
  have "u @ r \<noteq> [] \<and> \<not> is_digit (hd (u @ r)) \<and> hd (u @ r) \<noteq> CHR ''.''"
    using assms(2) by (cases rule: unit_cases) (auto simp: is_digit_def)
  then obtain c t where c: "u @ r = c # t" "\<not> is_digit c" "c \<noteq> CHR ''.''" by (cases "u @ r") auto
  have d: "takeWhile is_digit (dec n @ u @ r) = dec n" "dropWhile is_digit (dec n @ u @ r) = u @ r"
    using takeWhile_digits[of "dec n" "u @ r"] dec_facts[OF assms(1)] c by simp_all
  show ?thesis unfolding take_number_def d Let_def using c dec_facts[OF assms(1)] by simp
qed

lemma duration_loop_text:
  assumes "parts_ok parts" "holds_int acc a" "0 \<le> a" "a + sum_list (map part_nanos parts) \<le> 2 ^ 53"
  shows "\<exists>b. duration_loop s acc (dur_text parts) = Inr b \<and> holds_int b (a + sum_list (map part_nanos parts))"
  using assms
proof (induction parts arbitrary: acc a)
  case Nil
  then show ?case by (simp add: dur_text_def)
next
  case (Cons p parts)
  obtain n u where p: "p = (n, u)" by fastforce
  have n: "0 \<le> n" and ok: "parts_ok parts" using Cons.prems(1) by (simp_all add: p parts_ok_def)
  obtain k where k: "(u, k) \<in> set duration_units" using Cons.prems(1) by (auto simp: p parts_ok_def)
  have pn: "part_nanos p = n * k" and kpos: "1 \<le> k" using part_nanos_unit[OF k] by (simp_all add: p)
  have rest: "0 \<le> sum_list (map part_nanos parts)" using ok by (rule parts_nanos_nonneg)
  have nk: "n * k \<le> 2 ^ 53" using Cons.prems(3,4) rest by (simp add: pn)
  have "n * 1 \<le> n * k" using n kpos by (intro mult_left_mono)
  then have nn: "\<bar>n\<bar> \<le> 2 ^ 53" using n nk by simp
  have f: "parse_f64 (dec n) = Some (f_of_int n)" using parse_f64_digits[of "dec n"] dec_facts[OF n] by simp
  obtain b where b: "unit_nanos u (f_of_int n) = Some b" "holds_int b (n * k)"
    using unit_nanos_exact[OF k holds_of_int[OF nn] n nk] by blast
  have acc: "holds_int (fadd acc b) (a + n * k)" "0 \<le> a + n * k"
    using holds_add[OF Cons.prems(2) b(2)] Cons.prems(3,4) rest n kpos by (simp_all add: pn)
  have hd: "dur_text parts = [] \<or> is_digit (hd (dur_text parts))"
  proof (cases parts)
    case (Cons q qs)
    obtain m v where "q = (m, v)" "0 \<le> m" using ok Cons by (auto simp: parts_ok_def)
    then have "dec m \<noteq> []" "list_all is_digit (dec m)" "dur_text parts = dec m @ v @ dur_text qs"
      using dec_facts[of m] Cons by (simp_all add: dur_text_def)
    then show ?thesis by (cases "dec m") auto
  qed (simp add: dur_text_def)
  have une: "u \<noteq> []" using k by (cases rule: unit_cases) auto
  have tx: "dur_text (p # parts) = dec n @ u @ dur_text parts" by (simp add: dur_text_def p)
  have "duration_loop s acc (dur_text (p # parts)) = duration_loop s (fadd acc b) (dur_text parts)"
    unfolding tx by (subst duration_loop.simps)
      (simp add: take_number_text[OF n k] take_unit_text[OF k hd] dec_facts[OF n] f b une)
  then show ?case using Cons.IH[OF ok acc] Cons.prems(4) by (simp add: pn add.assoc)
qed

lemma parts_trimmed:
  assumes "parts_ok parts" "parts \<noteq> []"
  shows "\<exists>c t. dur_text parts = c # t \<and> is_digit c" "\<exists>w d. dur_text parts = w @ [d] \<and> is_alpha d \<and> is_ascii d \<and> \<not> ascii_ws d"
proof -
  obtain n u ps where p: "parts = (n, u) # ps" using assms(2) by (cases parts) auto
  then have "0 \<le> n" using assms(1) by (simp add: parts_ok_def)
  then have "dec n \<noteq> []" "list_all is_digit (dec n)" using dec_facts by auto
  then show "\<exists>c t. dur_text parts = c # t \<and> is_digit c" by (cases "dec n") (auto simp: dur_text_def p)
  obtain m v qs where q: "parts = qs @ [(m, v)]" using assms(2) by (metis rev_exhaust surj_pair)
  then obtain k where "(v, k) \<in> set duration_units" using assms(1) by (auto simp: parts_ok_def)
  then have "\<exists>w d. v = w @ [d] \<and> is_alpha d \<and> is_ascii d \<and> \<not> ascii_ws d"
    by (cases rule: unit_cases) (auto simp: is_alpha_def is_ascii_def ascii_ws_def)
  then show "\<exists>w d. dur_text parts = w @ [d] \<and> is_alpha d \<and> is_ascii d \<and> \<not> ascii_ws d"
    by (auto simp: dur_text_def q)
qed

lemma front_ws_digit: "is_digit c \<Longrightarrow> \<not> front_ws (c # t)"
  using digit_not[of c] by (cases t; cases "tl t") (auto dest: ws2_not_ascii ws3_not_ascii)

section \<open>Readers keep the maps well-formed\<close>

lemma bind_r_Inr: "bind_r x f = Inr y \<longleftrightarrow> (\<exists>v. x = Inr v \<and> f v = Inr y)"
  by (cases x) auto

lemma context_Inr [simp]:
  "context_o msg x = Inr y \<longleftrightarrow> x = Some y" "context_r msg z = Inr y \<longleftrightarrow> z = Inr y" "context_v msg j z = Inr y \<longleftrightarrow> z = Inr y"
  by (auto simp: context_o_def context_r_def context_v_def split: option.splits sum.splits)

lemma collect_r_Inr: "collect_r xs = Inr ys \<Longrightarrow> y \<in> set ys \<Longrightarrow> Inr y \<in> set xs"
  by (induction xs arbitrary: ys) (auto simp: bind_r_Inr)

lemma parse_duration_range: "parse_duration text = Inr d \<Longrightarrow> 0 \<le> d \<and> d \<le> dur_max"
proof -
  assume a: "parse_duration text = Inr d"
  have u: "uint (w :: u64) \<le> dur_max" "from_millis (uint w) \<le> dur_max" for w
    using uint_lt2p[of w] by (simp_all add: dur_max_def from_millis_def)
  have m: "0 \<le> from_millis (uint (w :: u64))" for w by (simp add: from_millis_def)
  show ?thesis using a u m
    by (auto simp: parse_duration_def Let_def bind_r_Inr split: if_splits option.splits)
qed

lemma parse_one_threshold_delay:
  assumes "parse_one_threshold m v = Inr t" shows "0 \<le> th_delay_abort_eval t"
  using assms parse_duration_range
  by (auto simp: parse_one_threshold_def from_expression_def bind_r_Inr Let_def split: option.splits json.splits)

definition thresholds_ready :: "thresholds \<Rightarrow> bool" where
  "thresholds_ready ths \<longleftrightarrow> hm_wf ths \<and> (\<forall>x \<in> set (pairs_of ths). 0 \<le> th_delay_abort_eval (snd x))"

lemma threshold_conditions_delay:
  assumes "threshold_conditions m v = Inr ts" "t \<in> set ts" shows "0 \<le> th_delay_abort_eval t"
proof (cases v)
  case (JArray arr)
  then have "Inr t \<in> set (map (parse_one_threshold m) arr)"
    using assms collect_r_Inr[of "map (parse_one_threshold m) arr" ts t] by (simp add: threshold_conditions_def)
  then obtain j where "parse_one_threshold m j = Inr t" by auto
  then show ?thesis by (rule parse_one_threshold_delay)
qed (use assms in \<open>auto simp: threshold_conditions_def from_expression_def\<close>)

lemma set_hm_put: "p \<in> set (hm_put k v m) \<Longrightarrow> p = (k, v) \<or> p \<in> set m"
  unfolding hm_put_def by (induction m) (auto split: if_splits)

lemma parse_thresholds_loop_ready:
  "thresholds_ready ths \<Longrightarrow> parse_thresholds_loop obj ths = Inr r \<Longrightarrow> thresholds_ready r"
proof (induction obj ths rule: parse_thresholds_loop.induct)
  case (2 name val obj ths)
  then obtain cs where cs: "threshold_conditions name val = Inr cs" "parse_thresholds_loop obj (hm_put name cs ths) = Inr r"
    by (auto simp: bind_r_Inr)
  have "thresholds_ready (hm_put name cs ths)"
    using 2(2) threshold_conditions_delay[OF cs(1)]
    by (fastforce simp: thresholds_ready_def pairs_of_def dest!: set_hm_put)
  then show ?case using 2(1) cs by blast
qed simp

lemma parse_thresholds_ready: "parse_thresholds v = Inr ths \<Longrightarrow> thresholds_ready ths"
proof -
  have "thresholds_ready []" by (simp add: thresholds_ready_def hm_wf_def pairs_of_def)
  then show "parse_thresholds v = Inr ths \<Longrightarrow> thresholds_ready ths"
    using parse_thresholds_loop_ready by (auto simp: parse_thresholds_def bind_r_Inr)
qed

lemma parse_scenarios_wf: "parse_scenarios v = Inr s \<Longrightarrow> hm_wf s"
proof -
  have "hm_wf m \<Longrightarrow> parse_scenarios_loop obj m = Inr s \<Longrightarrow> hm_wf s" for obj m
    by (induction obj m rule: parse_scenarios_loop.induct) (auto simp: bind_r_Inr)
  then show "parse_scenarios v = Inr s \<Longrightarrow> hm_wf s" 
    using hm.wf_Nil by (auto simp: parse_scenarios_def bind_r_Inr)
qed

text \<open>A step of \<open>parse_options\<close> keeps what its update keeps.\<close>

lemma opt_field_keeps:
  assumes "opt_field obj name read upd c = Inr c'" "I c" "\<And>x. read (the (map_of obj name)) = Inr x \<Longrightarrow> I (upd x c)"
  shows "I c'"
  using assms by (auto simp: opt_field_def bind_r_Inr split: option.splits)

lemma run_steps_keeps:
  assumes "\<And>f c c'. f \<in> set fs \<Longrightarrow> I c \<Longrightarrow> f c = Inr c' \<Longrightarrow> I c'"
  shows "run_steps fs c = Inr c' \<Longrightarrow> I c \<Longrightarrow> I c'"
  using assms
proof (induction fs arbitrary: c)
  case (Cons f fs)
  then obtain d where "f c = Inr d" "run_steps fs d = Inr c'" by (auto simp: bind_r_Inr)
  then show ?case using Cons.IH[of d] Cons.prems(2,3) by (meson list.set_intros)
qed simp

lemma run_steps_append: "run_steps (as @ bs) c = bind_r (run_steps as c) (run_steps bs)"
proof (induction as arbitrary: c)
  case (Cons f fs)
  then show ?case by (cases "f c") simp_all
qed simp

definition config_ready :: "test_config \<Rightarrow> bool" where
  "config_ready c \<longleftrightarrow> hm_wf (cfg_scenarios c) \<and> thresholds_ready (cfg_thresholds c)"

lemma keep_field:
  assumes "\<And>v x c. read v = Inr x \<Longrightarrow> I c \<Longrightarrow> I (upd x c)"
  shows "\<forall>c c'. I c \<longrightarrow> opt_field obj name read upd c = Inr c' \<longrightarrow> I c'"
  using opt_field_keeps[where I = I] assms by metis

lemma option_steps_ready: "list_all (\<lambda>f. \<forall>c c'. config_ready c \<longrightarrow> f c = Inr c' \<longrightarrow> config_ready c') (option_steps obj)"
  unfolding option_steps_def list.pred_inject
  by (intro conjI TrueI keep_field; simp add: config_ready_def parse_thresholds_ready parse_scenarios_wf)

lemma options_ready: "run_steps (option_steps obj) c = Inr c' \<Longrightarrow> config_ready c \<Longrightarrow> config_ready c'"
  by (rule run_steps_keeps[where I = config_ready]) (use option_steps_ready[of obj] in \<open>auto simp: list_all_iff\<close>)

text \<open>The steps after and before the one that reads \<open>vus\<close> leave the number of VUs alone.\<close>

lemma frame_field:
  assumes "\<And>x c. g (upd x c) = g c"
  shows "\<forall>c c'. opt_field obj name read upd c = Inr c' \<longrightarrow> g c' = g c"
  using assms by (auto simp: opt_field_def bind_r_Inr split: option.splits)

lemma run_steps_frame:
  assumes "list_all (\<lambda>f. \<forall>c c'. f c = Inr c' \<longrightarrow> g c' = g c) fs" "run_steps fs c = Inr c'"
  shows "g c' = g c"
  using assms
proof (induction fs arbitrary: c)
  case (Cons f fs)
  then show ?case by (auto simp: bind_r_Inr)
qed simp

lemma options_vus:
  assumes "run_steps (option_steps obj) c = Inr c'"
  shows "case map_of obj ''vus'' of None \<Rightarrow> cfg_vus c' = cfg_vus c | Some j \<Rightarrow> \<exists>n. as_u64 j = Some n \<and> cfg_vus c' = ucast n"
proof -
  let ?A = "take 2 (option_steps obj)" and ?f = "option_steps obj ! 2" and ?B = "drop 3 (option_steps obj)"
  have s: "option_steps obj = ?A @ ?f # ?B" by (simp add: option_steps_def)
  have f: "?f = opt_field obj ''vus'' (read_u32 ''vus must be a number'') (\<lambda>x c. c\<lparr>cfg_vus := x\<rparr>)"
    by (simp add: option_steps_def)
  have A: "list_all (\<lambda>f. \<forall>c c'. f c = Inr c' \<longrightarrow> cfg_vus c' = cfg_vus c) ?A"
    unfolding option_steps_def take_Suc_Cons numeral_2_eq_2 take_0 list.pred_inject by (intro conjI TrueI frame_field) simp_all
  have B: "list_all (\<lambda>f. \<forall>c c'. f c = Inr c' \<longrightarrow> cfg_vus c' = cfg_vus c) ?B"
    unfolding option_steps_def drop_Suc_Cons numeral_3_eq_3 drop_0 list.pred_inject by (intro conjI TrueI frame_field) simp_all
  obtain c1 c2 where c: "run_steps ?A c = Inr c1" "?f c1 = Inr c2" "run_steps ?B c2 = Inr c'"
    using assms by (subst (asm) s) (auto simp: run_steps_append bind_r_Inr)
  then have "cfg_vus c1 = cfg_vus c" "cfg_vus c' = cfg_vus c2" using run_steps_frame A B by blast+
  then show ?thesis using c(2) unfolding f
    by (auto simp: opt_field_def read_u32_def bind_r_Inr split: option.splits)
qed

lemma options_scenarios_absent:
  assumes "run_steps (option_steps obj) c = Inr c'" "map_of obj ''scenarios'' = None"
  shows "cfg_scenarios c' = cfg_scenarios c"
proof -
  have A: "list_all (\<lambda>f. \<forall>c c'. f c = Inr c' \<longrightarrow> cfg_scenarios c' = cfg_scenarios c) (butlast (option_steps obj))"
    by (simp only: option_steps_def butlast.simps list.distinct if_False if_True list.pred_inject, intro conjI TrueI frame_field) simp_all
  have s: "option_steps obj = butlast (option_steps obj) @ [opt_field obj ''scenarios'' parse_scenarios (\<lambda>x c. c\<lparr>cfg_scenarios := x\<rparr>)]"
    by (simp add: option_steps_def)
  obtain c1 where "run_steps (butlast (option_steps obj)) c = Inr c1"
    "opt_field obj ''scenarios'' parse_scenarios (\<lambda>x c. c\<lparr>cfg_scenarios := x\<rparr>) c1 = Inr c'"
    using assms(1) by (subst (asm) s) (auto simp: run_steps_append bind_r_Inr)
  then show ?thesis using run_steps_frame[OF A] assms(2) by (auto simp: opt_field_def)
qed

definition with_default :: "test_config \<Rightarrow> test_config" where
  "with_default c0 = (if cfg_scenarios c0 = [] \<and> 0 < cfg_vus c0
     then c0\<lparr>cfg_scenarios := hm_put ''default'' (default_scenario c0) (cfg_scenarios c0)\<rparr> else c0)"

lemma parse_options_steps:
  assumes "parse_options options = Inr c"
  obtains obj c0 where "options = JObject obj" "run_steps (option_steps obj) config_default = Inr c0" "c = with_default c0"
proof -
  obtain obj c0 where o: "as_object options = Some obj" "run_steps (option_steps obj) config_default = Inr c0"
    and f: "(if cfg_scenarios c0 = [] \<and> 0 < cfg_vus c0
       then Inr (c0\<lparr>cfg_scenarios := hm_put ''default'' (default_scenario c0) (cfg_scenarios c0)\<rparr>) else Inr c0) = (Inr c :: config_error + test_config)"
    using assms unfolding parse_options_def bind_r_Inr context_Inr by blast
  have "c = with_default c0" using f by (auto simp: with_default_def split: if_splits)
  moreover have "options = JObject obj" using o(1) by (cases options) auto
  ultimately show thesis using that o(2) by blast
qed

section \<open>Properties\<close>

text \<open>C22.  Durations.  A list of natural numbers with units \<open>ns\<close>, \<open>us\<close>, \<open>ms\<close>, \<open>s\<close>, \<open>m\<close>, \<open>h\<close>, \<open>d\<close>, written one
  after the other, parses to the exact sum of the parts although the code computes in floating
  point, as long as the sum is at most 2 to the 52 nanoseconds (52 days).\<close>

theorem parse_duration_text:
  assumes "parts_ok parts" and "parts \<noteq> []" and "sum_list (map part_nanos parts) \<le> 2 ^ 52"
  shows "parse_duration (dur_text parts) = Inr (sum_list (map part_nanos parts))"
proof -
  let ?s = "dur_text parts" and ?n = "sum_list (map part_nanos parts)"
  obtain c t where c: "?s = c # t" "is_digit c" using parts_trimmed[OF assms(1,2)] by blast
  obtain w d where d: "?s = w @ [d]" "is_alpha d" "is_ascii d" "\<not> ascii_ws d" using parts_trimmed[OF assms(1,2)] by blast
  have "trimmed ?s" unfolding trimmed_iff using front_ws_digit[OF c(2), of t] back_ws_last[OF d(3,4), of w] c(1) d(1) by metis
  then have tr: "trim ?s = ?s" by simp
  have nd: "\<not> is_digit d" "d \<noteq> CHR ''.''" using digit_not(5)[of d] d(2) by (auto simp: is_alpha_def)
  have dots: "\<not> list_all is_digit ?s" "\<not> list_all (\<lambda>c. is_digit c \<or> c = CHR ''.'') ?s" unfolding d(1) using nd by simp_all
  have ne: "?s \<noteq> []" "\<not> starts_with ''-'' ?s" unfolding c(1) using digit_not(1)[OF c(2)] by (simp_all add: starts_with_def)
  have n0: "0 \<le> ?n" using assms(1) by (rule parts_nanos_nonneg)
  have "holds_int f0 0" by (simp add: holds_int_def)
  then obtain b where b: "duration_loop ?s f0 ?s = Inr b" "holds_int b ?n"
    using duration_loop_text[OF assms(1), of f0 0 ?s] assms(3) by auto
  have fb: "is_fin b" "f64_wf b" "fval b = of_int ?n" using b(2) by (simp_all add: holds_int_def)
  have le: "(of_int ?n :: rat) \<le> of_int (2 ^ 52)" using assms(3) by (rule of_int_le_iff[THEN iffD2])
  have r: "is_fin (f_round b)" "f64_wf (f_round b)" "fval (f_round b) = of_int \<lfloor>fval b + 1 / 2\<rfloor>"
    using f_round_nonneg[OF fb(1,2)] le n0 by (simp_all add: fb(3))
  have "\<lfloor>(of_int ?n :: rat) + 1 / 2\<rfloor> = ?n" by (simp add: floor_unique)
  then have "f_to_int (2 ^ 64 - 1) (f_round b) = ?n"
    using f_to_int_fin[OF r(1,2), of "2 ^ 64 - 1"] r(3) n0 assms(3) by (simp add: fb(3))
  then have "uint (f_to_u64 (f_round b)) = ?n"
    using n0 assms(3) by (simp add: f_to_u64_def uint_word_of_int)
  moreover have "\<not> flt b f0" using n0 by (simp add: flt_fin fb)
  ultimately show ?thesis using ne dots b(1) fb(1)
    unfolding parse_duration_def Let_def tr by (simp add: is_finite_def)
qed

text \<open>Range of durations.  Whatever the text, a parsed duration is not negative and at most the
  largest \<open>Duration\<close>, so later arithmetic starts in range.\<close>

lemma parse_duration_bounds:
  assumes "parse_duration text = Inr d" shows "0 \<le> d \<and> d \<le> dur_max"
  using assms by (rule parse_duration_range)

text \<open>C23.  A parsed configuration.  The scenario and threshold maps have distinct keys, no threshold has a
  negative delay (what the periodic evaluator relies on), and there is at least one scenario
  unless the number of VUs is zero; that number is the option's value truncated to 32 bits.\<close>

theorem parse_options_ready:
  assumes "parse_options options = Inr c"
  shows "\<exists>obj. options = JObject obj \<and> hm_wf (cfg_scenarios c) \<and> thresholds_ready (cfg_thresholds c) \<and>
    (cfg_scenarios c = [] \<longrightarrow> cfg_vus c = 0) \<and>
    cfg_vus c = (case map_of obj ''vus'' of None \<Rightarrow> 1 | Some j \<Rightarrow> ucast (the (as_u64 j)))"
proof -
  obtain obj c0 where o: "options = JObject obj" and r: "run_steps (option_steps obj) config_default = Inr c0"
    and c: "c = with_default c0"
    using assms by (rule parse_options_steps)
  have "config_ready config_default"
    by (simp add: config_ready_def config_default_def thresholds_ready_def hm_wf_def pairs_of_def)
  then have rdy: "config_ready c0" using options_ready[OF r] by blast
  have "cfg_vus c0 = (case map_of obj ''vus'' of None \<Rightarrow> 1 | Some j \<Rightarrow> ucast (the (as_u64 j)))"
    using options_vus[OF r] by (auto simp: config_default_def split: option.splits)
  moreover have "hm_put k v m \<noteq> []" for k :: string and v :: scenario_config and m
    by (cases m) (auto simp: hm_put_def)
  ultimately show ?thesis using rdy o by (auto simp: c with_default_def config_ready_def word_gt_0)
qed

text \<open>The default scenario.  An options object without scenarios and a positive number of VUs gives
  exactly one scenario, named \<open>default\<close>: shared iterations when iterations are set, constant VUs
  otherwise, with the configured VUs and duration.\<close>

lemma parse_options_default:
  assumes "parse_options (JObject obj) = Inr c" and "map_of obj ''scenarios'' = None" and "cfg_vus c \<noteq> 0"
  shows "\<exists>s. cfg_scenarios c = [(''default'', s)] \<and> sc_start_time s = 0 \<and> sc_graceful_stop s = from_secs 30 \<and>
    sc_executor s = (case cfg_iterations c of
        Some n \<Rightarrow> SharedIterations (cfg_vus c) n (cfg_duration c) | None \<Rightarrow> ConstantVus (cfg_vus c) (cfg_duration c))"
proof -
  obtain c0 where r: "run_steps (option_steps obj) config_default = Inr c0" and c: "c = with_default c0"
    using parse_options_steps[OF assms(1)] by (metis json.inject(5))
  have e: "cfg_scenarios c0 = []" using options_scenarios_absent[OF r assms(2)] by (simp add: config_default_def)
  have "cfg_vus c0 = cfg_vus c" by (simp add: c with_default_def)
  then have "0 < cfg_vus c0" using assms(3) by (simp add: word_neq_0_conv)
  then show ?thesis using e by (auto simp: c with_default_def hm_put_def default_scenario_def split: option.splits)
qed

text \<open>Unknown executors.  A scenario whose executor is none of the six fails with the typed error
  that carries the name.\<close>

lemma parse_scenario_unknown:
  assumes "get_as as_str obj ''executor'' = Some kind"
    and "kind \<notin> set [''constant-vus'', ''ramping-vus'', ''constant-arrival-rate'', ''ramping-arrival-rate'',
          ''per-vu-iterations'', ''shared-iterations'']"
  shows "parse_scenario (JObject obj) = Inl (UnknownExecutor kind)"
  using assms by (simp add: parse_scenario_def context_o_def parse_executor_def)

text \<open>Two hours and a half, in three units.\<close>

definition example_parts :: "(int \<times> string) list" where
  "example_parts = [(1, ''h''), (90, ''m''), (250, ''ms'')]"

theorem parse_duration_text_witness:
  "dur_text example_parts = ''1h90m250ms'' \<and> parse_duration ''1h90m250ms'' = Inr 9000250000000"
proof -
  have t: "dur_text example_parts = ''1h90m250ms''" by code_simp
  have n: "sum_list (map part_nanos example_parts) = 9000250000000" by code_simp
  have "parts_ok example_parts" "example_parts \<noteq> []" by code_simp+
  then have "parse_duration (dur_text example_parts) = Inr (sum_list (map part_nanos example_parts))"
    by (rule parse_duration_text) (simp add: n)
  then show ?thesis using t n by simp
qed

definition example_options :: json_map where
  "example_options = [(''iterations'', JNumber (PosInt 7)), (''vus'', JNumber (PosInt 3))]"

lemma example_options_config:
  "parse_options (JObject example_options) =
     Inr (config_default\<lparr>cfg_vus := 3, cfg_iterations := Some 7, cfg_scenarios := [(''default'',
       default_scenario (config_default\<lparr>cfg_vus := 3, cfg_iterations := Some 7\<rparr>))]\<rparr>)"
  by (simp add: example_options_def parse_options_def option_steps_def opt_field_def context_o_def read_u32_def
      config_default_def hm_put_def)

theorem parse_options_ready_witness:
  "\<exists>c. parse_options (JObject example_options) = Inr c \<and> hm_wf (cfg_scenarios c) \<and> cfg_vus c = 3"
  using parse_options_ready[OF example_options_config] by (auto simp: example_options_config)

end
