(* ===== verification/Schedule.thy ===== *)
theory Schedule
  imports Config
begin

text \<open>
  The schedules of the ramping executors: \<open>ArrivalCurve\<close> (\<open>crates/k6-core/src/executor/arrival.rs\<close>) and
  \<open>VuRampSchedule\<close> (\<open>crates/k6-core/src/executor/vu_ramp.rs\<close>).  Both cut time into one segment per stage;
  the shared contract of the two builders is the locale \<open>segment_builder\<close>.  The results: the segments
  cover the run without gap or overlap, the number of active VUs stays between the ends of its
  segment under IEEE rounding, and the expected number of arrivals never falls on a curve that never
  falls.
\<close>

section \<open>Arrival curve\<close>

type_synonym 'r segments = "(duration \<times> duration \<times> 'r \<times> 'r) list"

record arrival_curve =
  ac_timeline :: "f64 segments"
  ac_total_duration :: duration
  ac_time_unit_secs :: f64

text \<open>The loop over the stages; \<open>None\<close> when adding a stage's duration panics.\<close>

fun arrival_loop :: "stage list \<Rightarrow> duration \<Rightarrow> f64 \<Rightarrow> f64 segments \<Rightarrow> (f64 segments \<times> duration) option" where
  "arrival_loop [] offset prev_rate timeline = Some (timeline, offset)"
| "arrival_loop (st # stages) offset prev_rate timeline =
     (case dur_add offset (st_duration st) of
        None \<Rightarrow> None
      | Some stage_end \<Rightarrow>
          arrival_loop stages stage_end (f_of_u32 (st_target st))
            (timeline @ [(offset, stage_end, prev_rate, f_of_u32 (st_target st))]))"

definition arrival_new :: "f64 \<Rightarrow> stage list \<Rightarrow> duration \<Rightarrow> arrival_curve option" where
  "arrival_new start_rate stages time_unit =
     (case arrival_loop stages 0 start_rate [] of
        None \<Rightarrow> None
      | Some (timeline, offset) \<Rightarrow>
          Some \<lparr>ac_timeline = timeline, ac_total_duration = offset, ac_time_unit_secs = as_secs_f64 time_unit\<rparr>)"

definition arrival_constant :: "u32 \<Rightarrow> duration \<Rightarrow> duration \<Rightarrow> arrival_curve option" where
  "arrival_constant rate time_unit dur = arrival_new (f_of_u32 rate) [\<lparr>st_duration = dur, st_target = rate\<rparr>] time_unit"

definition stage_area :: "duration \<Rightarrow> duration \<times> duration \<times> f64 \<times> f64 \<Rightarrow> f64" where
  "stage_area elapsed seg =
     (case seg of (stage_start, stage_end, from_rate, to_rate) \<Rightarrow>
        let stage_dur = as_secs_f64 (stage_end - stage_start);
            u = as_secs_f64 (min elapsed stage_end - stage_start)
        in fadd (fmul from_rate u) (fdiv (fmul (fmul (fsub to_rate from_rate) u) u) (fmul (flit 2) stage_dur)))"

fun area_loop :: "duration \<Rightarrow> f64 \<Rightarrow> f64 segments \<Rightarrow> f64" where
  "area_loop elapsed area [] = area"
| "area_loop elapsed area ((stage_start, stage_end, from_rate, to_rate) # segs) =
     (if elapsed \<le> stage_start then area
      else if fle (as_secs_f64 (stage_end - stage_start)) f0 then area_loop elapsed area segs
      else area_loop elapsed (fadd area (stage_area elapsed (stage_start, stage_end, from_rate, to_rate))) segs)"

definition expected_arrivals :: "arrival_curve \<Rightarrow> duration \<Rightarrow> f64" where
  "expected_arrivals c elapsed = fdiv (area_loop elapsed f0 (ac_timeline c)) (ac_time_unit_secs c)"

text \<open>The value on a segment at \<open>elapsed\<close>: \<open>from + (to - from) * progress\<close>.\<close>

definition lerp :: "f64 \<Rightarrow> f64 \<Rightarrow> duration \<Rightarrow> duration \<Rightarrow> duration \<Rightarrow> f64" where
  "lerp from_v to_v stage_start stage_end elapsed =
     (let stage_duration = as_secs_f64 (stage_end - stage_start);
          stage_elapsed = as_secs_f64 (elapsed - stage_start);
          progress = fdiv stage_elapsed stage_duration
      in fadd from_v (fmul (fsub to_v from_v) progress))"

fun rate_loop :: "duration \<Rightarrow> f64 \<Rightarrow> f64 segments \<Rightarrow> f64" where
  "rate_loop elapsed unit_secs [] = f0"
| "rate_loop elapsed unit_secs ((stage_start, stage_end, from_rate, to_rate) # segs) =
     (if stage_start \<le> elapsed \<and> elapsed < stage_end
      then fdiv (lerp from_rate to_rate stage_start stage_end elapsed) unit_secs
      else rate_loop elapsed unit_secs segs)"

definition interpolate_rate :: "arrival_curve \<Rightarrow> duration \<Rightarrow> f64" where
  "interpolate_rate c elapsed = rate_loop elapsed (ac_time_unit_secs c) (ac_timeline c)"

section \<open>VU ramp\<close>

record vu_ramp_schedule =
  vr_timeline :: "u32 segments"
  vr_total_duration :: duration

fun vu_ramp_loop :: "stage list \<Rightarrow> duration \<Rightarrow> u32 \<Rightarrow> u32 segments \<Rightarrow> (u32 segments \<times> duration) option" where
  "vu_ramp_loop [] offset prev_target timeline = Some (timeline, offset)"
| "vu_ramp_loop (st # stages) offset prev_target timeline =
     (case dur_add offset (st_duration st) of
        None \<Rightarrow> None
      | Some stage_end \<Rightarrow>
          vu_ramp_loop stages stage_end (st_target st) (timeline @ [(offset, stage_end, prev_target, st_target st)]))"

definition vu_ramp_new :: "u32 \<Rightarrow> stage list \<Rightarrow> vu_ramp_schedule option" where
  "vu_ramp_new start_vus stages =
     (case vu_ramp_loop stages 0 start_vus [] of
        None \<Rightarrow> None
      | Some (timeline, offset) \<Rightarrow> Some \<lparr>vr_timeline = timeline, vr_total_duration = offset\<rparr>)"

fun interpolate_loop :: "duration \<Rightarrow> u32 segments \<Rightarrow> u32" where
  "interpolate_loop elapsed [] = 0"
| "interpolate_loop elapsed ((stage_start, stage_end, from_vus, to_vus) # segs) =
     (if stage_start \<le> elapsed \<and> elapsed < stage_end
      then f_to_u32 (f_round (lerp (f_of_u32 from_vus) (f_of_u32 to_vus) stage_start stage_end elapsed))
      else interpolate_loop elapsed segs)"

definition interpolate :: "vu_ramp_schedule \<Rightarrow> duration \<Rightarrow> u32" where
  "interpolate s elapsed = interpolate_loop elapsed (vr_timeline s)"

section \<open>The builders\<close>

text \<open>Segments that follow one another from one offset to another, each starting where the last one
  ended and with the value it ended on.\<close>

fun chained :: "duration \<Rightarrow> 'r \<Rightarrow> 'r segments \<Rightarrow> duration \<Rightarrow> bool" where
  "chained off prev [] stop \<longleftrightarrow> off = stop"
| "chained off prev ((s, e, a, b) # segs) stop \<longleftrightarrow> s = off \<and> a = prev \<and> s \<le> e \<and> chained e b segs stop"

locale segment_builder =
  fixes conv :: "u32 \<Rightarrow> 'r"
    and loop :: "stage list \<Rightarrow> duration \<Rightarrow> 'r \<Rightarrow> 'r segments \<Rightarrow> ('r segments \<times> duration) option"
  assumes loop_Nil: "loop [] off prev acc = Some (acc, off)"
    and loop_Cons: "loop (st # sts) off prev acc =
      (case dur_add off (st_duration st) of
         None \<Rightarrow> None
       | Some e \<Rightarrow> loop sts e (conv (st_target st)) (acc @ [(off, e, prev, conv (st_target st))]))"
begin

lemma loop_segments:
  assumes "loop sts off prev acc = Some (acc', stop)" "\<forall>st \<in> set sts. 0 \<le> st_duration st"
  shows "\<exists>segs. acc' = acc @ segs \<and> chained off prev segs stop \<and> map (\<lambda>(s, e, a, b). b) segs = map (\<lambda>st. conv (st_target st)) sts \<and>
    stop = off + sum_list (map st_duration sts)"
  using assms
proof (induction sts arbitrary: off prev acc)
  case (Cons st sts)
  obtain e where e: "dur_add off (st_duration st) = Some e"
    and l: "loop sts e (conv (st_target st)) (acc @ [(off, e, prev, conv (st_target st))]) = Some (acc', stop)"
    using Cons.prems(1) by (auto simp: loop_Cons split: option.splits)
  have oe: "e = off + st_duration st" using e by (simp add: dur_add_def split: if_splits)
  obtain segs where "acc' = acc @ [(off, e, prev, conv (st_target st))] @ segs" "chained e (conv (st_target st)) segs stop"
    "map (\<lambda>(s, e, a, b). b) segs = map (\<lambda>st. conv (st_target st)) sts" "stop = e + sum_list (map st_duration sts)"
    using Cons.IH[OF l] Cons.prems(2) by auto
  then show ?case using oe Cons.prems(2) by (intro exI[of _ "(off, e, prev, conv (st_target st)) # segs"]) auto
qed (simp add: loop_Nil)

lemma loop_total:
  assumes "\<forall>st \<in> set sts. 0 \<le> st_duration st"
  shows "loop sts off prev acc = None \<longleftrightarrow> dur_max < off + sum_list (map st_duration sts) \<and> sts \<noteq> []"
  using assms
proof (induction sts arbitrary: off prev acc)
  case (Cons st sts)
  have nn: "0 \<le> sum_list (map st_duration sts)" using Cons.prems by (intro sum_list_nonneg) auto
  show ?case
  proof (cases "dur_add off (st_duration st)")
    case None
    then show ?thesis using nn by (auto simp: loop_Cons dur_add_def split: if_splits)
  next
    case (Some e)
    then have "e = off + st_duration st" "e \<le> dur_max" by (auto simp: dur_add_def split: if_splits)
    then show ?thesis using Cons.IH[of e "conv (st_target st)" "acc @ [(off, e, prev, conv (st_target st))]"] Cons.prems Some
      by (cases sts) (auto simp: loop_Cons loop_Nil)
  qed
qed (simp add: loop_Nil)

end

interpretation arrival: segment_builder f_of_u32 arrival_loop
  by unfold_locales simp_all

interpretation vu_ramp: segment_builder "\<lambda>v. v" vu_ramp_loop
  by unfold_locales simp_all

text \<open>In chained segments every instant before the end lies in exactly one segment.\<close>

lemma chained_mono: "chained off prev segs stop \<Longrightarrow> off \<le> stop"
  by (induction off prev segs stop rule: chained.induct) auto

lemma chained_bounds: "chained off prev segs stop \<Longrightarrow> (s, e, a, b) \<in> set segs \<Longrightarrow> off \<le> s \<and> s \<le> e \<and> e \<le> stop"
  by (induction off prev segs stop rule: chained.induct) (auto dest: chained_mono)

lemma chained_cover:
  "chained off prev segs stop \<Longrightarrow> off \<le> t \<Longrightarrow> t < stop \<Longrightarrow> \<exists>s e a b. (s, e, a, b) \<in> set segs \<and> s \<le> t \<and> t < e"
proof (induction off prev segs stop rule: chained.induct)
  case (2 off prev s e a b segs stop)
  then show ?case by (cases "t < e") force+
qed simp

lemma chained_unique:
  "chained off prev segs stop \<Longrightarrow> (s, e, a, b) \<in> set segs \<Longrightarrow> (s', e', a', b') \<in> set segs \<Longrightarrow> s \<le> t \<Longrightarrow> t < e \<Longrightarrow> s' \<le> t \<Longrightarrow> t < e' \<Longrightarrow>
     (s, e, a, b) = (s', e', a', b')"
  by (induction off prev segs stop rule: chained.induct) (fastforce dest: chained_bounds)+


section \<open>Seconds as floats\<close>

text \<open>Durations below 2 to the 53 seconds, for which the conversion to seconds is monotone.\<close>

definition secs_limit :: duration where
  "secs_limit = 2 ^ 53 * 1000000000"

lemma srnd_between: "of_int i \<le> x \<Longrightarrow> x \<le> of_int j \<Longrightarrow> \<bar>i\<bar> \<le> 2 ^ 53 \<Longrightarrow> \<bar>j\<bar> \<le> 2 ^ 53 \<Longrightarrow> of_int i \<le> srnd x \<and> srnd x \<le> of_int j"
  using srnd_ge_repr[of "of_int i" x] srnd_le_repr[of x "of_int j"] repr_of_int by blast

lemma in_range_ints: "of_int i \<le> x \<Longrightarrow> x \<le> of_int j \<Longrightarrow> \<bar>i\<bar> \<le> 2 ^ 53 \<Longrightarrow> \<bar>j\<bar> \<le> 2 ^ 53 \<Longrightarrow> in_range x"
proof (rule in_range_between)
  show "in_range (of_int i)" "in_range (of_int j)" if "\<bar>i\<bar> \<le> 2 ^ 53" "\<bar>j\<bar> \<le> 2 ^ 53"
    using in_range_fval[of "f_of_int i"] in_range_fval[of "f_of_int j"] f_of_int_exact that by metis+
qed

lemma secs_facts:
  assumes "0 \<le> d" "d < secs_limit"
  defines "s \<equiv> d div 1000000000" and "n \<equiv> d mod 1000000000"
  shows "is_fin (as_secs_f64 d)" "f64_wf (as_secs_f64 d)"
    "fval (as_secs_f64 d) = srnd (of_int s + srnd (of_int n / 1000000000))"
    "of_int s \<le> fval (as_secs_f64 d)" "fval (as_secs_f64 d) \<le> of_int (s + 1)"
proof -
  have s: "0 \<le> s" "s + 1 \<le> 2 ^ 53" and n: "0 \<le> n" "n < 1000000000" using assms(1,2) by (auto simp: s_def n_def secs_limit_def)
  have hn: "holds_int (f_of_int n) n" and hs: "holds_int (f_of_int s) s" and h9: "holds_int (flit 1000000000) 1000000000"
    using holds_of_int n s holds_flit[of "num.Bit0 (num.Bit0 num.One)"] by (simp_all add: holds_flit)
  have q: "of_int 0 \<le> (of_int n / 1000000000 :: rat)" "(of_int n / 1000000000 :: rat) \<le> of_int 1" using n by simp_all
  have qr: "of_int 0 \<le> srnd (of_int n / 1000000000)" "srnd (of_int n / 1000000000) \<le> of_int 1"
    using srnd_between[OF q] by simp_all
  let ?q = "fdiv (f_of_int n) (flit 1000000000)"
  have fq: "?q = fround (fsign (f_of_int n) \<noteq> fsign (flit 1000000000)) (of_int n / 1000000000)"
    using hn h9 by (simp add: holds_int_def fdiv_fin)
  have "in_range (of_int n / 1000000000)" using in_range_ints[OF q] by simp
  then have vq: "is_fin ?q" "f64_wf ?q" "fval ?q = srnd (of_int n / 1000000000)" unfolding fq by simp_all
  have b: "of_int s \<le> of_int s + srnd (of_int n / 1000000000)" "of_int s + srnd (of_int n / 1000000000) \<le> of_int (s + 1)"
    using qr by simp_all
  have fs: "as_secs_f64 d = fround (fsign (f_of_int s) \<and> fsign ?q) (of_int s + srnd (of_int n / 1000000000))"
    using hs vq by (simp add: as_secs_f64_def s_def [symmetric] n_def [symmetric] fadd_fin holds_int_def)
  have "in_range (of_int s + srnd (of_int n / 1000000000))" using in_range_ints[OF b] s by simp
  then show "is_fin (as_secs_f64 d)" "f64_wf (as_secs_f64 d)" "fval (as_secs_f64 d) = srnd (of_int s + srnd (of_int n / 1000000000))"
    unfolding fs by simp_all
  then show "of_int s \<le> fval (as_secs_f64 d)" "fval (as_secs_f64 d) \<le> of_int (s + 1)"
    using srnd_between[OF b] s by simp_all
qed

lemma secs_mono:
  assumes "0 \<le> d" "d \<le> e" "e < secs_limit" shows "fval (as_secs_f64 d) \<le> fval (as_secs_f64 e)"
proof -
  have e0: "0 \<le> e" and d9: "d < secs_limit" using assms by auto
  have le: "d div 1000000000 \<le> e div 1000000000" using assms(2) by (simp add: zdiv_mono1)
  show ?thesis
  proof (cases "d div 1000000000 = e div 1000000000")
    case True
    then have "d mod 1000000000 \<le> e mod 1000000000" using assms(2) by (metis add_le_cancel_left mult_div_mod_eq)
    then have "srnd (of_int (d mod 1000000000) / 1000000000) \<le> srnd (of_int (e mod 1000000000) / 1000000000)"
      by (intro srnd_mono divide_right_mono) simp_all
    then show ?thesis unfolding secs_facts(3)[OF assms(1) d9] secs_facts(3)[OF e0 assms(3)] True by (intro srnd_mono) simp
  next
    case False
    then have "(of_int (d div 1000000000 + 1) :: rat) \<le> of_int (e div 1000000000)" using le by (simp only: of_int_le_iff)
    then show ?thesis using secs_facts(5)[OF assms(1) d9] secs_facts(4)[OF e0 assms(3)] by linarith
  qed
qed

lemma secs_0: "as_secs_f64 0 = f0"
  by code_simp

lemma secs_pos:
  assumes "0 < d" "d < secs_limit" shows "1 / 2 ^ 30 \<le> fval (as_secs_f64 d)"
proof -
  have "(1 / 2 ^ 30 :: rat) \<le> fval (as_secs_f64 1)" by code_simp
  then show ?thesis using secs_mono[of 1 d] assms by simp
qed

section \<open>Interpolation\<close>

lemma scale_between:
  fixes p :: rat
  assumes "0 \<le> p" "p \<le> 1" shows "min 0 d \<le> d * p \<and> d * p \<le> max 0 d"
proof (cases "0 \<le> d")
  case True
  then show ?thesis using assms mult_left_mono[of p 1 d] by simp
next
  case False
  then show ?thesis using assms mult_left_mono_neg[of p 1 d] mult_nonpos_nonneg[of d p] by (simp add: min_def max_def)
qed

lemma lerp_facts:
  fixes s e t :: duration
  assumes a: "holds_int fa a" "0 \<le> a" "a < 2 ^ 32" and b: "holds_int fb b" "0 \<le> b" "b < 2 ^ 32"
    and t: "s \<le> t" "t < e" "e - s < secs_limit"
  shows "is_fin (lerp fa fb s e t)" "f64_wf (lerp fa fb s e t)"
    "of_int (min a b) \<le> fval (lerp fa fb s e t)" "fval (lerp fa fb s e t) \<le> of_int (max a b)"
    "t = s \<Longrightarrow> fval (lerp fa fb s e t) = of_int a"
proof -
  let ?D = "as_secs_f64 (e - s)" and ?U = "as_secs_f64 (t - s)"
  have D: "is_fin ?D" "f64_wf ?D" "0 < fval ?D" using secs_facts[of "e - s"] secs_pos[of "e - s"] t by auto
  have U: "is_fin ?U" "f64_wf ?U" "fval ?U \<le> fval ?D" "0 \<le> fval ?U"
    using secs_facts[of "t - s"] secs_mono[of "t - s" "e - s"] secs_mono[of 0 "t - s"] secs_0 t by auto
  let ?P = "fdiv ?U ?D" and ?d = "fsub fb fa"
  have pq: "of_int 0 \<le> fval ?U / fval ?D" "fval ?U / fval ?D \<le> of_int 1" using U D by simp_all
  have P: "is_fin ?P" "f64_wf ?P" "fval ?P = srnd (fval ?U / fval ?D)"
    using in_range_ints[OF pq] U D by (simp_all add: fdiv_fin)
  have p01: "0 \<le> fval ?P" "fval ?P \<le> 1" using srnd_between[OF pq] P(3) by simp_all
  have dh: "holds_int ?d (b - a)"
    using a b holds_fround[of "b - a" "fsign fb \<and> fsign (fneg fa)"] by (simp add: holds_int_def fsub_fin)
  have m: "of_int (min 0 (b - a)) \<le> fval ?d * fval ?P" "fval ?d * fval ?P \<le> of_int (max 0 (b - a))"
    using scale_between[OF p01, of "of_int (b - a)"] dh by (simp_all add: holds_int_def of_int_min of_int_max)
  have mb: "\<bar>min 0 (b - a)\<bar> \<le> 2 ^ 53" "\<bar>max 0 (b - a)\<bar> \<le> 2 ^ 53" using a b by auto
  let ?M = "fmul ?d ?P"
  have M: "is_fin ?M" "f64_wf ?M" "fval ?M = srnd (fval ?d * fval ?P)"
    using in_range_ints[OF m mb] dh P by (simp_all add: fmul_fin holds_int_def)
  have Mb: "of_int (min 0 (b - a)) \<le> fval ?M" "fval ?M \<le> of_int (max 0 (b - a))" using srnd_between[OF m mb] M(3) by simp_all
  have sum: "of_int (min a b) \<le> fval fa + fval ?M" "fval fa + fval ?M \<le> of_int (max a b)"
    using Mb a(1) by (auto simp: holds_int_def of_int_min of_int_max min_def max_def split: if_splits)
  have sb: "\<bar>min a b\<bar> \<le> 2 ^ 53" "\<bar>max a b\<bar> \<le> 2 ^ 53" using a b by auto
  have l: "lerp fa fb s e t = fround (fsign fa \<and> fsign ?M) (fval fa + fval ?M)"
    using a(1) M by (simp add: lerp_def Let_def fadd_fin holds_int_def)
  then show "is_fin (lerp fa fb s e t)" "f64_wf (lerp fa fb s e t)" using in_range_ints[OF sum sb] by simp_all
  have v: "fval (lerp fa fb s e t) = srnd (fval fa + fval ?M)" using l in_range_ints[OF sum sb] by simp
  then show "of_int (min a b) \<le> fval (lerp fa fb s e t)" "fval (lerp fa fb s e t) \<le> of_int (max a b)"
    using srnd_between[OF sum sb] by simp_all
  show "fval (lerp fa fb s e t) = of_int a" if "t = s"
  proof -
    have "fval ?U = 0" using that secs_0 by simp
    then have "fval ?M = 0" using M(3) P(3) by simp
    moreover have "\<bar>a\<bar> \<le> 2 ^ 53" using a by simp
    ultimately show ?thesis using v a(1) srnd_exact[OF repr_of_int[of a]] by (simp add: holds_int_def)
  qed
qed

lemma round_u32:
  assumes "is_fin f" "f64_wf f" "of_int i \<le> fval f" "fval f \<le> of_int j" "0 \<le> i" "j < 2 ^ 32"
  shows "i \<le> uint (f_to_u32 (f_round f))" "uint (f_to_u32 (f_round f)) \<le> j"
proof -
  let ?r = "\<lfloor>fval f + 1 / 2\<rfloor>"
  have "j \<le> 2 ^ 52" using assms(6) by simp
  then have "(of_int j :: rat) \<le> of_int (2 ^ 52)" by (simp only: of_int_le_iff)
  moreover have "(0::rat) \<le> of_int i" using assms(5) by simp
  ultimately have "(0::rat) \<le> of_int i" "(of_int j :: rat) \<le> of_int (2 ^ 52)" by blast+
  then have f: "0 \<le> fval f" "fval f \<le> 2 ^ 52" using assms(3,4) by simp_all
  have ri: "i \<le> ?r" using assms(3) by (simp add: le_floor_iff)
  have rj: "?r \<le> j" using assms(4) by (simp add: floor_le_iff)
  have r: "is_fin (f_round f)" "f64_wf (f_round f)" "fval (f_round f) = of_int ?r" using f_round_nonneg[OF assms(1,2) f] by simp_all
  have "f_to_int (2 ^ 32 - 1) (f_round f) = ?r"
    using f_to_int_fin[OF r(1,2), of "2 ^ 32 - 1"] r(3) ri rj assms(5,6) by simp
  moreover have "?r mod 2 ^ 32 = ?r" using ri rj assms(5,6) by (intro mod_pos_pos_trivial) linarith+
  ultimately have "uint (f_to_u32 (f_round f)) = ?r" by (simp add: f_to_u32_def uint_word_of_int)
  then show "i \<le> uint (f_to_u32 (f_round f))" "uint (f_to_u32 (f_round f)) \<le> j" using ri rj by simp_all
qed

lemma u32_holds: "holds_int (f_of_u32 w) (uint w)" "0 \<le> uint w" "uint (w :: u32) < 2 ^ 32"
  using uint_lt2p[of w] holds_of_int[of "uint w"] by (simp_all add: f_of_u32_def)

lemma interpolate_loop_segment:
  assumes "chained off prev segs stop" "(s, e, a, b) \<in> set segs" "s \<le> t" "t < e"
  shows "interpolate_loop t segs = f_to_u32 (f_round (lerp (f_of_u32 a) (f_of_u32 b) s e t))"
  using assms
proof (induction off prev segs stop rule: chained.induct)
  case (2 off prev s' e' a' b' segs stop)
  show ?case
  proof (cases "s' \<le> t \<and> t < e'")
    case True
    then have "(s, e, a, b) = (s', e', a', b')"
      using chained_unique[OF 2(2,3), of s' e' a' b' t] 2(4,5) by simp
    then show ?thesis using True by simp
  next
    case False
    then have "(s, e, a, b) \<in> set segs" using 2(3-5) by auto
    then show ?thesis using 2 False by auto
  qed
qed simp

lemma interpolate_loop_after: "chained off prev segs stop \<Longrightarrow> stop \<le> t \<Longrightarrow> interpolate_loop t segs = 0"
  by (induction off prev segs stop rule: chained.induct) (auto dest: chained_mono)


lemma vu_ramp_new_segments:
  assumes "vu_ramp_new start_vus stages = Some sch" "\<forall>st \<in> set stages. 0 \<le> st_duration st"
  shows "chained 0 start_vus (vr_timeline sch) (vr_total_duration sch)"
    and "map (\<lambda>(s, e, a, b). b) (vr_timeline sch) = map st_target stages"
    and "vr_total_duration sch = sum_list (map st_duration stages)"
proof -
  obtain tl' off where "vu_ramp_loop stages 0 start_vus [] = Some (tl', off)"
    and s: "sch = \<lparr>vr_timeline = tl', vr_total_duration = off\<rparr>"
    using assms(1) by (auto simp: vu_ramp_new_def split: option.splits)
  from vu_ramp.loop_segments[OF this(1) assms(2)] s
  show "chained 0 start_vus (vr_timeline sch) (vr_total_duration sch)"
    "map (\<lambda>(s, e, a, b). b) (vr_timeline sch) = map st_target stages"
    "vr_total_duration sch = sum_list (map st_duration stages)"
    by auto
qed

lemma vu_ramp_segment:
  assumes "vu_ramp_new start_vus stages = Some sch" "\<forall>st \<in> set stages. 0 \<le> st_duration st"
    and "vr_total_duration sch < secs_limit" "0 \<le> t" "t < vr_total_duration sch"
  shows "\<exists>s e a b. (s, e, a, b) \<in> set (vr_timeline sch) \<and> s \<le> t \<and> t < e \<and>
           min a b \<le> interpolate sch t \<and> interpolate sch t \<le> max a b \<and> interpolate sch s = a"
proof -
  note c = vu_ramp_new_segments(1)[OF assms(1,2)]
  obtain s e a b where seg: "(s, e, a, b) \<in> set (vr_timeline sch)" "s \<le> t" "t < e"
    using chained_cover[OF c assms(4,5)] by blast
  have se: "0 \<le> s" "e \<le> vr_total_duration sch" using chained_bounds[OF c seg(1)] by auto
  then have lim: "e - s < secs_limit" using assms(3) by simp
  have L: "is_fin (lerp (f_of_u32 a) (f_of_u32 b) s e u)" "f64_wf (lerp (f_of_u32 a) (f_of_u32 b) s e u)"
    "of_int (min (uint a) (uint b)) \<le> fval (lerp (f_of_u32 a) (f_of_u32 b) s e u)"
    "fval (lerp (f_of_u32 a) (f_of_u32 b) s e u) \<le> of_int (max (uint a) (uint b))"
    "u = s \<Longrightarrow> fval (lerp (f_of_u32 a) (f_of_u32 b) s e u) = of_int (uint a)" if "s \<le> u" "u < e" for u
    using lerp_facts[OF u32_holds[of a] u32_holds[of b] that lim] by auto
  have i: "interpolate sch u = f_to_u32 (f_round (lerp (f_of_u32 a) (f_of_u32 b) s e u))" if "s \<le> u" "u < e" for u
    using interpolate_loop_segment[OF c seg(1) that] by (simp add: interpolate_def)
  have "uint (min a b) \<le> uint (interpolate sch t)" "uint (interpolate sch t) \<le> uint (max a b)"
    using round_u32[OF L(1-4)[OF seg(2,3)]] u32_holds(2,3)[of a] u32_holds(2,3)[of b] i[OF seg(2,3)]
    by (auto simp: min_def max_def word_le_def split: if_splits)
  moreover have "uint (interpolate sch s) = uint a"
  proof -
    have "s < e" using seg by simp
    then have "of_int (uint a) = fval (lerp (f_of_u32 a) (f_of_u32 b) s e s)" using L(5)[of s] by simp
    then show ?thesis
      using round_u32[OF L(1,2)[of s], of "uint a" "uint a"] \<open>s < e\<close> u32_holds(2,3)[of a] i[of s] by simp
  qed
  ultimately show ?thesis using seg by (auto simp: word_le_def word_uint_eq_iff)
qed

text \<open>C21.  At every instant of a VU ramp's run exactly one segment is active, the VU count the schedule
  gives lies between the two ends of that segment (the \<open>f64\<close> interpolation and its rounding to \<open>u32\<close>
  never over- or undershoot), and at the start of the segment it is the segment's first value.
\<close>

theorem vu_ramp_bounds:
  assumes "vu_ramp_new start_vus stages = Some sch" "\<forall>st \<in> set stages. 0 \<le> st_duration st"
    and "vr_total_duration sch < secs_limit" "0 \<le> t" "t < vr_total_duration sch"
  shows "\<exists>s e a b. (s, e, a, b) \<in> set (vr_timeline sch) \<and> s \<le> t \<and> t < e \<and>
           min a b \<le> interpolate sch t \<and> interpolate sch t \<le> max a b \<and> interpolate sch s = a"
  by (rule vu_ramp_segment[OF assms])

definition ramp_example :: vu_ramp_schedule where
  "ramp_example = \<lparr>vr_timeline = [(0, 2000000000, 0, 10), (2000000000, 3000000000, 10, 5)], vr_total_duration = 3000000000\<rparr>"

theorem vu_ramp_bounds_witness:
  "\<exists>s e a b. (s, e, a, b) \<in> set (vr_timeline ramp_example) \<and> s \<le> 2500000000 \<and> 2500000000 < e \<and>
     min a b \<le> interpolate ramp_example 2500000000 \<and> interpolate ramp_example 2500000000 \<le> max a b \<and> interpolate ramp_example s = a"
proof -
  have "vu_ramp_new 0 [\<lparr>st_duration = 2000000000, st_target = 10\<rparr>, \<lparr>st_duration = 1000000000, st_target = 5\<rparr>] = Some ramp_example"
    by (simp add: vu_ramp_new_def dur_add_def dur_max_def ramp_example_def)
  moreover have "vr_total_duration ramp_example = 3000000000" by (simp add: ramp_example_def)
  ultimately show ?thesis
    using vu_ramp_bounds[of 0 "[\<lparr>st_duration = 2000000000, st_target = 10\<rparr>, \<lparr>st_duration = 1000000000, st_target = 5\<rparr>]" ramp_example 2500000000]
    by (simp add: secs_limit_def)
qed

text \<open>After its last stage a VU ramp asks for no VU.\<close>

lemma vu_ramp_after:
  assumes "vu_ramp_new start_vus stages = Some sch" "\<forall>st \<in> set stages. 0 \<le> st_duration st" "vr_total_duration sch \<le> t"
  shows "interpolate sch t = 0"
  using interpolate_loop_after[OF vu_ramp_new_segments(1)[OF assms(1,2)] assms(3)] by (simp add: interpolate_def)


text \<open>Building a VU ramp panics exactly when the durations of the stages add up to more than the
  largest \<open>Duration\<close>; otherwise the schedule ends at their sum and its segments reach the targets of
  the stages in order.
\<close>

lemma vu_ramp_new_total:
  assumes "\<forall>st \<in> set stages. 0 \<le> st_duration st"
  shows "case vu_ramp_new start_vus stages of
           None \<Rightarrow> dur_max < sum_list (map st_duration stages)
         | Some sch \<Rightarrow> sum_list (map st_duration stages) \<le> dur_max \<and> vr_total_duration sch = sum_list (map st_duration stages) \<and>
             map (\<lambda>(s, e, a, b). b) (vr_timeline sch) = map st_target stages"
proof (cases "vu_ramp_new start_vus stages")
  case None
  then show ?thesis using vu_ramp.loop_total[OF assms, of 0 start_vus "[]"] by (auto simp: vu_ramp_new_def split: option.splits)
next
  case (Some sch)
  then have "vu_ramp_loop stages 0 start_vus [] \<noteq> None" by (auto simp: vu_ramp_new_def split: option.splits)
  then have "stages = [] \<or> sum_list (map st_duration stages) \<le> dur_max"
    using vu_ramp.loop_total[OF assms, of 0 start_vus "[]"] by auto
  then have "sum_list (map st_duration stages) \<le> dur_max" by (auto simp: dur_max_def)
  then show ?thesis using vu_ramp_new_segments(2,3)[OF Some assms] Some by simp
qed

section \<open>Monotone arithmetic\<close>

text \<open>Two non-negative floats in order, below a power of two: the operations of the area keep the
  order, because rounding is monotone.\<close>

definition fmon :: "nat \<Rightarrow> f64 \<Rightarrow> f64 \<Rightarrow> bool" where
  "fmon k x y \<longleftrightarrow> is_fin x \<and> f64_wf x \<and> is_fin y \<and> f64_wf y \<and> 0 \<le> fval x \<and> fval x \<le> fval y \<and> fval y \<le> 2 ^ k"

lemma repr_scaled: "n \<le> 2 ^ 53 \<Longrightarrow> repr (of_nat n * 2 ^ k)"
  unfolding repr_def by (rule exI[of _ "int n"], rule exI[of _ "int k"]) (simp add: power_int_def)

lemma repr_pow2: "repr (2 ^ k)"
  using repr_scaled[of 1 k] by simp

lemma fround_mono:
  assumes "0 \<le> v" "v \<le> w" "w \<le> b" "repr b" "b \<le> 2 ^ 1023"
  shows "is_fin (fround z v) \<and> f64_wf (fround z v) \<and> is_fin (fround z' w) \<and> f64_wf (fround z' w) \<and>
    0 \<le> fval (fround z v) \<and> fval (fround z v) \<le> fval (fround z' w) \<and> fval (fround z' w) \<le> b"
proof -
  have v: "in_range v" and w: "in_range w" using assms by (intro in_range_small; simp)+
  then show ?thesis using srnd_nonneg[OF assms(1)] srnd_mono[OF assms(2)] srnd_le_repr[OF assms(3,4)] by simp
qed

lemma fmon_fround: "0 \<le> v \<Longrightarrow> v \<le> w \<Longrightarrow> w \<le> 2 ^ k \<Longrightarrow> k \<le> 1023 \<Longrightarrow> fmon k (fround z v) (fround z' w)"
  using fround_mono[of v w "2 ^ k" z z'] repr_pow2[of k] power_increasing[of k 1023 "2::rat", OF _ one_le_numeral] unfolding fmon_def by blast

lemma fmon_add:
  assumes "fmon k x y" "fmon k x' y'" "k < 1023" shows "fmon (Suc k) (fadd x x') (fadd y y')"
  using assms by (auto simp: fmon_def[of k] fadd_fin intro!: fmon_fround)

lemma fmon_mul:
  assumes "fmon k x y" "fmon l x' y'" "k + l \<le> 1023" shows "fmon (k + l) (fmul x x') (fmul y y')"
  using assms by (auto simp: fmon_def[of k] fmon_def[of l] fmul_fin power_add intro!: fmon_fround mult_mono)

lemma div_bound:
  fixes v c :: rat
  assumes "0 \<le> v" "v \<le> 2 ^ k" "1 / 2 ^ j \<le> c" shows "0 < c" "0 \<le> v / c" "v / c \<le> 2 ^ (k + j)"
proof -
  show c: "0 < c" using assms(3) by (rule less_le_trans[rotated]) simp
  then show "0 \<le> v / c" using assms(1) by simp
  have "v / c \<le> 2 ^ k / (1 / 2 ^ j)" using assms by (intro frac_le) simp_all
  then show "v / c \<le> 2 ^ (k + j)" by (simp add: power_add)
qed

lemma fmon_div:
  assumes "fmon k x y" "is_fin c" "f64_wf c" "1 / 2 ^ j \<le> fval c" "k + j \<le> 1023" shows "fmon (k + j) (fdiv x c) (fdiv y c)"
proof -
  have "fval y / fval c \<le> 2 ^ (k + j)" and c: "0 < fval c" using div_bound[of "fval y" k j "fval c"] assms by (auto simp: fmon_def)
  then show ?thesis using assms c by (auto simp: fmon_def[of k] fdiv_fin intro!: fmon_fround divide_right_mono)
qed

lemma fmon_secs:
  assumes "0 \<le> d" "d \<le> e" "e < secs_limit" shows "fmon 53 (as_secs_f64 d) (as_secs_f64 e)"
proof -
  have e: "0 \<le> e" "d < secs_limit" using assms by auto
  have "e div 1000000000 + 1 \<le> 2 ^ 53" using assms(3) by (auto simp: secs_limit_def)
  then have "(of_int (e div 1000000000 + 1) :: rat) \<le> of_int (2 ^ 53)" by (simp only: of_int_le_iff)
  then have "fval (as_secs_f64 e) \<le> 2 ^ 53" using secs_facts(5)[OF e(1) assms(3)] by simp
  then show ?thesis
    using secs_facts(1,2)[OF assms(1) e(2)] secs_facts(1,2)[OF e(1) assms(3)] secs_mono[OF assms] secs_mono[of 0 d] secs_0 assms e
    by (simp add: fmon_def)
qed

lemma fmon_int: "holds_int f n \<Longrightarrow> 0 \<le> n \<Longrightarrow> n \<le> 2 ^ k \<Longrightarrow> fmon k f f"
proof -
  assume n: "holds_int f n" "0 \<le> n" "n \<le> 2 ^ k"
  have "(of_int n :: rat) \<le> of_int (2 ^ k)" using n(3) by (simp only: of_int_le_iff)
  then show ?thesis using n by (simp add: fmon_def holds_int_def)
qed

section \<open>Expected arrivals\<close>

text \<open>The segments of a curve whose rate never falls, with integer rates of 32 bits.\<close>

definition rising :: "f64 \<Rightarrow> f64 \<Rightarrow> bool" where
  "rising a b \<longleftrightarrow> (\<exists>m n. holds_int a m \<and> holds_int b n \<and> 0 \<le> m \<and> m \<le> n \<and> n < 2 ^ 32)"

lemma stage_area_mono:
  assumes r: "rising a b" and s: "0 \<le> s" "s < e" "e - s < secs_limit" and u: "s \<le> t" "t \<le> t'"
  shows "fmon 170 (stage_area t (s, e, a, b)) (stage_area t' (s, e, a, b))"
proof -
  obtain m n where mn: "holds_int a m" "holds_int b n" "0 \<le> m" "m \<le> n" "n < 2 ^ 32" using r by (auto simp: rising_def)
  have d: "holds_int (fsub b a) (n - m)"
    using mn holds_fround[of "n - m" "fsign b \<and> fsign (fneg a)"] by (simp add: holds_int_def fsub_fin)
  have fa: "fmon 32 a a" and fd: "fmon 32 (fsub b a) (fsub b a)" using fmon_int[OF mn(1)] fmon_int[OF d] mn by simp_all
  have fu: "fmon 53 (as_secs_f64 (min t e - s)) (as_secs_f64 (min t' e - s))"
    using s u by (intro fmon_secs) (auto simp: min_def)
  let ?D = "as_secs_f64 (e - s)"
  have D: "fmon 53 ?D ?D" "1 / 2 ^ 30 \<le> fval ?D" using fmon_secs[of "e - s" "e - s"] secs_pos[of "e - s"] s by simp_all
  have two: "holds_int (flit 2) 2" by (simp add: holds_flit)
  have "fval (fmul (flit 2) ?D) = srnd (2 * fval ?D)" and c: "is_fin (fmul (flit 2) ?D)" "f64_wf (fmul (flit 2) ?D)"
  proof -
    have "in_range (2 * fval ?D)"
      using D by (intro in_range_small) (simp add: fmon_def)
    then show "fval (fmul (flit 2) ?D) = srnd (2 * fval ?D)" "is_fin (fmul (flit 2) ?D)" "f64_wf (fmul (flit 2) ?D)"
      using two D by (simp_all add: fmul_fin holds_int_def fmon_def)
  qed
  moreover have "fval ?D \<le> srnd (2 * fval ?D)"
    using D by (intro srnd_ge_repr repr_fval) (auto simp: fmon_def)
  ultimately have c2: "1 / 2 ^ 30 \<le> fval (fmul (flit 2) ?D)" using D(2) by linarith
  have q: "fmon (32 + 53 + 53 + 30) (fdiv (fmul (fmul (fsub b a) (as_secs_f64 (min t e - s))) (as_secs_f64 (min t e - s))) (fmul (flit 2) ?D))
      (fdiv (fmul (fmul (fsub b a) (as_secs_f64 (min t' e - s))) (as_secs_f64 (min t' e - s))) (fmul (flit 2) ?D))"
    using fmon_div[OF fmon_mul[OF fmon_mul[OF fd fu] fu] c c2] by simp
  have l: "fmon (32 + 53) (fmul a (as_secs_f64 (min t e - s))) (fmul a (as_secs_f64 (min t' e - s)))"
    using fmon_mul[OF fa fu] by simp
  have "fmon 169 x y" if "fmon k x y" "k \<le> 169" for k x y
    using that power_increasing[of k 169 "2::rat"] by (auto simp: fmon_def)
  from fmon_add[OF this[OF l] this[OF q]] show ?thesis by (simp add: stage_area_def Let_def)
qed


definition amon :: "nat \<Rightarrow> f64 \<Rightarrow> f64 \<Rightarrow> bool" where
  "amon n x y \<longleftrightarrow> is_fin x \<and> f64_wf x \<and> is_fin y \<and> f64_wf y \<and> 0 \<le> fval x \<and> fval x \<le> fval y \<and> fval y \<le> of_nat n * 2 ^ 170"

lemma amon_add:
  assumes "amon n x y" "fmon 170 x' y'" "Suc n \<le> 2 ^ 53" shows "amon (Suc n) (fadd x x') (fadd y y')"
proof -
  have f: "is_fin x" "is_fin y" "is_fin x'" "is_fin y'" and o: "0 \<le> fval x + fval x'" "fval x + fval x' \<le> fval y + fval y'"
    "fval y + fval y' \<le> of_nat (Suc n) * 2 ^ 170" using assms(1,2) by (auto simp: amon_def fmon_def algebra_simps)
  have "(of_nat (Suc n) :: rat) \<le> of_nat (2 ^ 53)" using assms(3) by (simp only: of_nat_le_iff)
  then have "(of_nat (Suc n) :: rat) * 2 ^ 170 \<le> of_nat (2 ^ 53) * 2 ^ 170" by (rule mult_right_mono) simp
  also have "\<dots> \<le> 2 ^ 1023" by simp
  finally have "of_nat (Suc n) * 2 ^ 170 \<le> (2 ^ 1023 :: rat)" .
  from fround_mono[OF o repr_scaled[OF assms(3)] this] show ?thesis
    unfolding amon_def fadd_fin[OF f(1,3)] fadd_fin[OF f(2,4)] by blast
qed

lemma amon_grow:
  assumes "amon n x y" "fmon 170 x' y'" "Suc n \<le> 2 ^ 53" shows "amon (Suc n) x (fadd y y')"
proof -
  have "fmon 170 f0 y'" using assms(2) by (simp add: fmon_def)
  moreover have "fval (fadd x f0) = fval x" "is_fin (fadd x f0)"
    using assms(1) by (simp_all add: fadd_fin amon_def in_range_fval srnd_exact repr_fval)
  ultimately show ?thesis using amon_add[OF assms(1) _ assms(3), of f0 y'] assms(1) by (simp add: amon_def)
qed

lemma area_loop_before: "chained off prev segs stop \<Longrightarrow> t \<le> off \<Longrightarrow> area_loop t x segs = x"
  by (cases segs) auto

lemma empty_stage: "0 \<le> d \<Longrightarrow> d < secs_limit \<Longrightarrow> fle (as_secs_f64 d) f0 \<longleftrightarrow> d = 0"
  using secs_pos[of d] secs_facts(1)[of d] secs_0 by (cases "d = 0") (auto simp: fle_fin)

lemma area_loop_mono:
  assumes "chained off prev segs stop" "\<forall>(s, e, a, b) \<in> set segs. rising a b" "0 \<le> off" "stop < secs_limit" "t \<le> t'"
    "amon n x y" "n + length segs \<le> 2 ^ 53"
  shows "amon (n + length segs) (area_loop t x segs) (area_loop t' y segs)"
  using assms
proof (induction off prev segs stop arbitrary: n x y rule: chained.induct)
  case (2 off prev s e a b segs stop)
  have c: "s = off" "s \<le> e" "chained e b segs stop" using "2.prems"(1) by auto
  have up: "amon (Suc (n + length segs)) v w" if "amon k v w" "k \<le> Suc (n + length segs)" for k v w
  proof -
    have "(of_nat k :: rat) * 2 ^ 170 \<le> of_nat (Suc (n + length segs)) * 2 ^ 170" using that(2) by (intro mult_right_mono) simp_all
    then show ?thesis using that(1) by (auto simp: amon_def)
  qed
  have IH: "amon (k + length segs) (area_loop t v segs) (area_loop t' w segs)" if "amon k v w" "k \<le> Suc n" for k v w
    using "2.IH"[OF c(3), of k v w] that "2.prems" c by auto
  have skip: "fle (as_secs_f64 (e - s)) f0 \<longleftrightarrow> e = s" using empty_stage[of "e - s"] c "2.prems"(3,4) chained_mono[OF c(3)] by auto
  have seg: "fmon 170 (stage_area u (s, e, a, b)) (stage_area t' (s, e, a, b))" if "s \<le> u" "u \<le> t'" "e \<noteq> s" for u
    using that "2.prems"(2-4) c chained_mono[OF c(3)] by (intro stage_area_mono) auto
  have len: "Suc n \<le> 2 ^ 53" using "2.prems"(7) by simp
  consider "t' \<le> s" | "t \<le> s" "s < t'" | "s < t" "s < t'" using "2.prems"(5) by linarith
  then show ?case
  proof cases
    case 1
    then show ?thesis using "2.prems"(5,6) up[of n x y] by simp
  next
    case 2
    then have x: "area_loop t x segs = x" using area_loop_before[OF c(3)] c(2) by simp
    show ?thesis
    proof (cases "e = s")
      case True
      then show ?thesis using 2 x up[OF IH[OF "2.prems"(6)]] secs_0 by (simp add: fle_fin)
    next
      case False
      then have "amon (Suc n) x (fadd y (stage_area t' (s, e, a, b)))" using seg[of t'] 2 by (intro amon_grow[OF "2.prems"(6) _ len]) auto
      from IH[OF this] show ?thesis using 2 x False skip by simp
    qed
  next
    case 3
    show ?thesis
    proof (cases "e = s")
      case True
      then show ?thesis using 3 up[OF IH[OF "2.prems"(6)]] secs_0 by (simp add: fle_fin)
    next
      case False
      then have "amon (Suc n) (fadd x (stage_area t (s, e, a, b))) (fadd y (stage_area t' (s, e, a, b)))"
        using seg[of t] 3 "2.prems"(5) by (intro amon_add[OF "2.prems"(6) _ len]) auto
      from IH[OF this] show ?thesis using 3 False skip by simp
    qed
  qed
qed simp

lemma arrival_new_segments:
  assumes "arrival_new r stages u = Some c" "\<forall>st \<in> set stages. 0 \<le> st_duration st"
  shows "chained 0 r (ac_timeline c) (ac_total_duration c)" "ac_total_duration c = sum_list (map st_duration stages)"
    "map (\<lambda>(s, e, a, b). b) (ac_timeline c) = map (\<lambda>st. f_of_u32 (st_target st)) stages" "ac_time_unit_secs c = as_secs_f64 u"
proof -
  obtain tl' off where "arrival_loop stages 0 r [] = Some (tl', off)"
    and s: "c = \<lparr>ac_timeline = tl', ac_total_duration = off, ac_time_unit_secs = as_secs_f64 u\<rparr>"
    using assms(1) by (auto simp: arrival_new_def split: option.splits)
  from arrival.loop_segments[OF this(1) assms(2)] s
  show "chained 0 r (ac_timeline c) (ac_total_duration c)" "ac_total_duration c = sum_list (map st_duration stages)"
    "map (\<lambda>(s, e, a, b). b) (ac_timeline c) = map (\<lambda>st. f_of_u32 (st_target st)) stages" "ac_time_unit_secs c = as_secs_f64 u"
    by auto
qed

lemma rising_segments:
  "chained off (f_of_u32 r) segs stop \<Longrightarrow> map (\<lambda>(s, e, a, b). b) segs = map f_of_u32 rs \<Longrightarrow> sorted (r # rs) \<Longrightarrow>
     \<forall>(s, e, a, b) \<in> set segs. rising a b"
proof (induction segs arbitrary: off r rs)
  case (Cons g segs)
  obtain s e a b r' rs' where g: "g = (s, e, a, b)" "rs = r' # rs'" using Cons.prems(2) by (cases g; cases rs) auto
  have "rising (f_of_u32 r) (f_of_u32 r')"
    using u32_holds[of r] u32_holds[of r'] Cons.prems(3) g(2) by (auto simp: rising_def word_le_def)
  then show ?case using Cons.IH[of e r' rs'] Cons.prems g by auto
qed simp

text \<open>The area and the division by the time unit keep the order on a curve whose rate never falls.\<close>

lemma expected_arrivals_fmon:
  assumes "arrival_new (f_of_u32 rate) stages time_unit = Some c" "\<forall>st \<in> set stages. 0 \<le> st_duration st"
    and "sorted (rate # map st_target stages)" "length stages \<le> 2 ^ 53"
    and "ac_total_duration c < secs_limit" "0 < time_unit" "time_unit < secs_limit" "t \<le> t'"
  shows "fmon 253 (expected_arrivals c t) (expected_arrivals c t')"
proof -
  note n = arrival_new_segments[OF assms(1,2)]
  have ri: "\<forall>(s, e, a, b) \<in> set (ac_timeline c). rising a b"
    using rising_segments[OF n(1), of "map st_target stages"] n(3) assms(3) by (simp add: comp_def)
  have len: "length (ac_timeline c) \<le> 2 ^ 53" using arg_cong[OF n(3), of length] assms(4) by simp
  have f0: "amon 0 f0 f0" by (simp add: amon_def)
  let ?x = "area_loop t f0 (ac_timeline c)" and ?y = "area_loop t' f0 (ac_timeline c)"
  have a: "amon (length (ac_timeline c)) ?x ?y"
    using area_loop_mono[OF n(1) ri _ assms(5,8) f0] len by simp
  moreover have "(of_nat (length (ac_timeline c)) :: rat) * 2 ^ 170 \<le> of_nat (2 ^ 53) * 2 ^ 170"
    using len by (intro mult_right_mono) (simp_all only: of_nat_le_iff zero_le_power zero_le_numeral)
  ultimately have "fmon 223 ?x ?y" by (simp add: amon_def fmon_def)
  from fmon_div[OF this, of "as_secs_f64 time_unit" 30] show ?thesis
    using secs_facts(1,2)[of time_unit] secs_pos[of time_unit] assms(6,7) n(4) by (simp add: expected_arrivals_def)
qed

text \<open>On an arrival curve whose rate never falls, the expected number of arrivals is finite, never
  negative and never falls as time passes, with all the \<open>f64\<close> rounding of the code: a coordinator that
  starts iterations up to this number never has to take one back.
\<close>

lemma expected_arrivals_mono:
  assumes "arrival_new (f_of_u32 rate) stages time_unit = Some c" "\<forall>st \<in> set stages. 0 \<le> st_duration st"
    and "sorted (rate # map st_target stages)" "length stages \<le> 2 ^ 53"
    and "ac_total_duration c < secs_limit" "0 < time_unit" "time_unit < secs_limit" "t \<le> t'"
  shows "is_fin (expected_arrivals c t) \<and> fle f0 (expected_arrivals c t) \<and> fle (expected_arrivals c t) (expected_arrivals c t')"
  using expected_arrivals_fmon[OF assms] by (simp add: fmon_def fle_fin)

definition curve_example :: arrival_curve where
  "curve_example = \<lparr>ac_timeline = [(0, 2000000000, f_of_u32 0, f_of_u32 10), (2000000000, 3000000000, f_of_u32 10, f_of_u32 20)],
     ac_total_duration = 3000000000, ac_time_unit_secs = as_secs_f64 1000000000\<rparr>"

text \<open>On a constant arrival curve the expected number of arrivals at an instant of the run is the
  rate times the elapsed seconds over the time unit, as the floats multiply and divide.
\<close>

lemma constant_arrivals:
  assumes "arrival_constant rate time_unit dur = Some c" "0 < t" "t \<le> dur" "dur < secs_limit" "0 < time_unit" "time_unit < secs_limit"
  shows "feq (expected_arrivals c t) (fdiv (fmul (f_of_u32 rate) (as_secs_f64 t)) (as_secs_f64 time_unit))"
proof -
  let ?r = "f_of_u32 rate" and ?u = "as_secs_f64 t" and ?D = "as_secs_f64 dur"
  have c: "ac_timeline c = [(0, dur, ?r, ?r)]" "ac_time_unit_secs c = as_secs_f64 time_unit"
    using assms(1) by (auto simp: arrival_constant_def arrival_new_def dur_add_def split: option.splits if_splits)
  have r: "fmon 32 ?r ?r" using fmon_int[OF u32_holds(1)] u32_holds(2,3)[of rate] by simp
  have u: "fmon 53 ?u ?u" and D: "fmon 53 ?D ?D" "0 < fval ?D" using fmon_secs[of t t] fmon_secs[of dur dur] secs_pos[of dur] assms(2-5) by auto
  have p: "fmon 85 (fmul ?r ?u) (fmul ?r ?u)" using fmon_mul[OF r u] by simp
  define z where "z = fdiv (fmul (fmul (fsub ?r ?r) ?u) ?u) (fmul (flit 2) ?D)"
  have d0: "is_fin (fsub ?r ?r)" "fval (fsub ?r ?r) = 0" using r by (simp_all add: fmon_def fsub_fin in_range_small)
  have m0: "is_fin (fmul x ?u)" "fval (fmul x ?u) = 0" if "is_fin x" "fval x = 0" for x
    using that u by (simp_all add: fmon_def fmul_fin in_range_small)
  have "in_range (2 * fval ?D)" using D by (intro in_range_small) (simp add: fmon_def)
  then have c2: "is_fin (fmul (flit 2) ?D)" "fval (fmul (flit 2) ?D) = srnd (2 * fval ?D)"
    using D holds_flit[of "num.Bit0 num.One"] by (simp_all add: fmul_fin holds_int_def fmon_def)
  have "fval ?D \<le> srnd (2 * fval ?D)" using D by (intro srnd_ge_repr repr_fval) (auto simp: fmon_def)
  then have z: "is_fin z" "fval z = 0" using m0[OF m0[OF d0]] c2 D(2) by (simp_all add: z_def fdiv_fin in_range_small)
  have add0: "is_fin (fadd x y)" "fval (fadd x y) = fval x" "fval (fadd y x) = fval x" "is_fin (fadd y x)"
    if "fmon 85 x x" "is_fin y" "fval y = 0" for x y
    using that by (simp_all add: fmon_def fadd_fin in_range_fval srnd_exact repr_fval)
  let ?a = "fadd f0 (fadd (fmul ?r ?u) z)"
  have "fmon 85 (fadd (fmul ?r ?u) z) (fadd (fmul ?r ?u) z)"
    using p z by (auto simp: fmon_def fadd_fin in_range_fval srnd_exact repr_fval)
  from add0[OF this, of f0] add0[OF p z] have a: "is_fin ?a" "fval ?a = fval (fmul ?r ?u)" by simp_all
  have "expected_arrivals c t = fdiv ?a (as_secs_f64 time_unit)"
    using empty_stage[of dur] assms(2-5) by (simp add: expected_arrivals_def c stage_area_def Let_def z_def min_def)
  moreover have "is_fin (as_secs_f64 time_unit)" "fval (as_secs_f64 time_unit) \<noteq> 0" "in_range (fval (fmul ?r ?u) / fval (as_secs_f64 time_unit))"
  proof -
    have q: "0 < fval (as_secs_f64 time_unit)" "0 \<le> fval (fmul ?r ?u) / fval (as_secs_f64 time_unit)"
      "fval (fmul ?r ?u) / fval (as_secs_f64 time_unit) \<le> 2 ^ (85 + 30)"
      using div_bound[of "fval (fmul ?r ?u)" 85 30 "fval (as_secs_f64 time_unit)"] p secs_pos[of time_unit] assms(5,6) by (simp_all add: fmon_def)
    then show "fval (as_secs_f64 time_unit) \<noteq> 0" "in_range (fval (fmul ?r ?u) / fval (as_secs_f64 time_unit))"
      by (simp_all add: in_range_small)
    show "is_fin (as_secs_f64 time_unit)" using secs_facts(1)[of time_unit] assms(5,6) by simp
  qed
  ultimately show ?thesis using a p by (simp add: fdiv_fin feq_fin fmon_def)
qed


end
