(* ===== verification/VuSched.thy ===== *)
theory VuSched
  imports K6_Prelude "HOL-Library.Multiset"
begin

text \<open>
  One virtual user: its coroutine (the iteration loop of \<open>build_coroutine_vu_spec\<close>,
  \<open>crates/k6-js/src/coroutine_vu.rs\<close>) and the driver that runs its I/O (\<open>drive_vu\<close> and \<open>run_op\<close>,
  \<open>crates/k6-js/src/vu_sched.rs\<close>), as one step relation.  Both run on one thread, so a step is what happens
  between two points where control passes between the script, the coroutine's loop and the driver.  The
  JavaScript engine is outside: while the script runs it may call the host functions in any order, and it
  leaves any values in the globals the loop reads.  What a request or a stream may answer is the
  parameter \<open>net\<close>; a wait for a backpressure permit is part of the time an operation takes.
\<close>

section \<open>Operations and shared state\<close>

type_synonym op_id = u64

datatype ('q, 'f) host_op = HostHttp 'q | HostSleep int | HostStreaming 'f

datatype ('r, 'a) op_done = DoneHttp 'r | Slept | DoneStream 'a

record ('q, 'r, 'f, 'a) net =
  net_send :: "'q \<Rightarrow> 'r \<Rightarrow> bool"
  net_stream :: "'f \<Rightarrow> 'a \<Rightarrow> bool"

fun run_op :: "('q, 'r, 'f, 'a) net \<Rightarrow> ('q, 'f) host_op \<Rightarrow> ('r, 'a) op_done \<Rightarrow> bool" where
  "run_op N (HostHttp q) (DoneHttp r) \<longleftrightarrow> net_send N q r"
| "run_op N (HostSleep d) Slept \<longleftrightarrow> True"
| "run_op N (HostStreaming f) (DoneStream a) \<longleftrightarrow> net_stream N f a"
| "run_op N _ _ \<longleftrightarrow> False"

record ('q, 'r, 'f, 'a, 'm) vu_shared =
  next_op :: op_id
  outstanding :: u64
  registered :: "(op_id \<times> ('q, 'f) host_op) list"
  completed :: "(op_id \<times> ('r, 'a) op_done) list"
  async_meta :: "op_id \<Rightarrow> 'm option"

definition shared_new :: "('q, 'r, 'f, 'a, 'm) vu_shared" where
  "shared_new = \<lparr>next_op = 0, outstanding = 0, registered = [], completed = [], async_meta = (\<lambda>_. None)\<rparr>"

definition register_async :: "('q, 'f) host_op \<Rightarrow> 'm option \<Rightarrow> ('q, 'r, 'f, 'a, 'm) vu_shared \<Rightarrow> ('q, 'r, 'f, 'a, 'm) vu_shared \<times> op_id" where
  "register_async host_op meta s =
     (let oid = next_op s;
          s = s\<lparr>next_op := next_op s + 1, outstanding := outstanding s + 1, registered := registered s @ [(oid, host_op)]\<rparr>
      in ((case meta of None \<Rightarrow> s | Some m \<Rightarrow> s\<lparr>async_meta := (async_meta s)(oid \<mapsto> m)\<rparr>), oid))"

text \<open>The reset at the start of an iteration.\<close>

definition shared_clear :: "('q, 'r, 'f, 'a, 'm) vu_shared \<Rightarrow> ('q, 'r, 'f, 'a, 'm) vu_shared" where
  "shared_clear s = s\<lparr>outstanding := 0, registered := [], completed := [], async_meta := (\<lambda>_. None)\<rparr>"

section \<open>The driver loop of an iteration\<close>

text \<open>Resolving the drained results: a stream result is unreachable code and a missing entry of
  \<open>async_meta\<close> fails an \<open>expect\<close>; both panic (\<open>None\<close>).\<close>

fun resolve_all :: "(op_id \<times> ('r, 'a) op_done) list \<Rightarrow> (op_id \<Rightarrow> 'm option) \<Rightarrow> (op_id \<Rightarrow> 'm option) option" where
  "resolve_all [] meta = Some meta"
| "resolve_all ((oid, Slept) # ds) meta = resolve_all ds meta"
| "resolve_all ((oid, DoneStream a) # ds) meta = None"
| "resolve_all ((oid, DoneHttp r) # ds) meta =
     (case meta oid of None \<Rightarrow> None | Some m \<Rightarrow> resolve_all ds (meta(oid := None)))"

definition saturating_sub :: "u64 \<Rightarrow> u64 \<Rightarrow> u64" where
  "saturating_sub a b = (if b \<le> a then a - b else 0)"

definition drain_completed :: "('q, 'r, 'f, 'a, 'm) vu_shared \<Rightarrow> ('q, 'r, 'f, 'a, 'm) vu_shared option" where
  "drain_completed s =
     (if completed s = [] then Some s
      else case resolve_all (completed s) (async_meta s) of
             None \<Rightarrow> None
           | Some meta \<Rightarrow> Some (s\<lparr>completed := [], async_meta := meta,
               outstanding := saturating_sub (outstanding s) (of_nat (length (completed s)))\<rparr>))"

text \<open>The globals the loop reads, and the outcome it publishes.\<close>

record js_globals =
  g_done :: bool
  g_failed :: bool
  g_ret :: string
  g_err :: string

datatype iteration_outcome = Completed string | Errored string | Interrupted

definition iteration_outcome_of :: "bool \<Rightarrow> js_globals \<Rightarrow> iteration_outcome" where
  "iteration_outcome_of hard_cancelled g =
     (if hard_cancelled \<and> (g_failed g \<or> \<not> g_done g) then Interrupted
      else if g_failed g then Errored (g_err g)
      else Completed (g_ret g))"

section \<open>The virtual user\<close>

text \<open>Where control is: the script (called for an iteration, or running queued jobs), the loop of the
  coroutine (about to drain results, about to decide), or the driver (waiting for the operation or the
  batch the script is parked on, for any pending operation, or at the iteration boundary).\<close>

datatype script_call = ExecCall | JobsCall

datatype ('q, 'r, 'f, 'a) vu_phase =
    Script script_call
  | Drain
  | Decide
  | ParkOne "('q, 'f) host_op" script_call
  | ParkAll "('q, 'f) host_op list" "('r, 'a) op_done option list" script_call
  | ParkPending
  | Boundary
  | Ended
  | Panicked

record ('q, 'r, 'f, 'a, 'm) vu =
  vu_phase_of :: "('q, 'r, 'f, 'a) vu_phase"
  vu_sh :: "('q, 'r, 'f, 'a, 'm) vu_shared"
  pending :: "(op_id \<times> ('q, 'f) host_op) list"
  done_iters :: u32
  globals :: js_globals
  hard_cancelled :: bool
  interrupted :: u64
  outcomes :: "iteration_outcome list"
  iterations_recorded :: nat
  issued :: nat
  resolved :: "op_id list"
  batches :: "(('q, 'f) host_op list \<times> ('r, 'a) op_done list) list"

text \<open>The driver takes over the registered operations whenever the coroutine yields.\<close>

definition pull_registered :: "('q, 'r, 'f, 'a, 'm) vu \<Rightarrow> ('q, 'r, 'f, 'a, 'm) vu" where
  "pull_registered v = v\<lparr>vu_sh := (vu_sh v)\<lparr>registered := []\<rparr>, pending := pending v @ registered (vu_sh v)\<rparr>"

text \<open>Whether the driver waits in a \<open>select!\<close>; the loop of a batch ends with its last operation.\<close>

definition parked :: "('q, 'r, 'f, 'a) vu_phase \<Rightarrow> bool" where
  "parked p \<longleftrightarrow> (case p of ParkOne _ _ \<Rightarrow> True | ParkAll _ results _ \<Rightarrow> None \<in> set results | ParkPending \<Rightarrow> True | _ \<Rightarrow> False)"

definition start_iteration :: "('q, 'r, 'f, 'a, 'm) vu \<Rightarrow> ('q, 'r, 'f, 'a, 'm) vu" where
  "start_iteration v = v\<lparr>vu_sh := shared_clear (vu_sh v), vu_phase_of := Script ExecCall\<rparr>"

text \<open>Publishing the outcome: only a completed iteration is recorded in the metrics.\<close>

definition publish :: "('q, 'r, 'f, 'a, 'm) vu \<Rightarrow> ('q, 'r, 'f, 'a, 'm) vu" where
  "publish v =
     (let oc = iteration_outcome_of (hard_cancelled v) (globals v)
      in pull_registered (v\<lparr>outcomes := outcomes v @ [oc],
           iterations_recorded := iterations_recorded v + (case oc of Completed _ \<Rightarrow> 1 | _ \<Rightarrow> 0),
           vu_phase_of := Boundary\<rparr>))"

definition decide :: "('q, 'r, 'f, 'a, 'm) vu \<Rightarrow> ('q, 'r, 'f, 'a, 'm) vu" where
  "decide v =
     (let settled = g_done (globals v); idle = (outstanding (vu_sh v) = 0)
      in if settled \<and> idle then publish v
         else if hard_cancelled v then publish v
         else pull_registered (v\<lparr>vu_phase_of := ParkPending\<rparr>))"

text \<open>The control of the executor is asked once up front and then at every iteration boundary, with the number of
  finished iterations; \<open>control n hard b\<close> tells that it may answer \<open>b\<close> when the hard stop has fired (\<open>hard\<close>) or
  not.  Which answers each executor gives is in \<open>Stopping\<close>.\<close>

definition vu_initial :: "bool \<Rightarrow> bool \<Rightarrow> js_globals \<Rightarrow> ('q, 'r, 'f, 'a, 'm) vu" where
  "vu_initial run hard g =
     \<lparr>vu_phase_of = (if run then Script ExecCall else Ended), vu_sh = shared_new, pending = [], done_iters = 0,
      globals = g, hard_cancelled = hard, interrupted = 0, outcomes = [], iterations_recorded = 0,
      issued = 0, resolved = [], batches = []\<rparr>"

inductive vu_step :: "('q, 'r, 'f, 'a) net \<Rightarrow> (u32 \<Rightarrow> bool \<Rightarrow> bool \<Rightarrow> bool) \<Rightarrow> ('q, 'r, 'f, 'a, 'm) vu \<Rightarrow> ('q, 'r, 'f, 'a, 'm) vu \<Rightarrow> bool"
  for N control where
  async_request: "vu_phase_of v = Script c \<Longrightarrow> register_async (HostHttp q) (Some m) (vu_sh v) = (s, oid) \<Longrightarrow>
     vu_step N control v (v\<lparr>vu_sh := s, issued := Suc (issued v)\<rparr>)"
| await_one: "vu_phase_of v = Script c \<Longrightarrow>
     vu_step N control v (pull_registered (v\<lparr>vu_phase_of := ParkOne host_op c\<rparr>))"
| await_all: "vu_phase_of v = Script c \<Longrightarrow>
     vu_step N control v (pull_registered (v\<lparr>vu_phase_of := ParkAll ops (map (\<lambda>_. None) ops) c\<rparr>))"
| script_returns: "vu_phase_of v = Script c \<Longrightarrow>
     vu_step N control v (v\<lparr>vu_phase_of := (if c = ExecCall then Drain else Decide), globals := g\<rparr>)"
| drain: "vu_phase_of v = Drain \<Longrightarrow> drain_completed (vu_sh v) = Some s \<Longrightarrow>
     vu_step N control v (v\<lparr>vu_sh := s, resolved := resolved v @ map fst (completed (vu_sh v)), vu_phase_of := Script JobsCall\<rparr>)"
| drain_panics: "vu_phase_of v = Drain \<Longrightarrow> drain_completed (vu_sh v) = None \<Longrightarrow>
     vu_step N control v (v\<lparr>vu_phase_of := Panicked\<rparr>)"
| decide: "vu_phase_of v = Decide \<Longrightarrow> vu_step N control v (decide v)"
| async_completes: "parked (vu_phase_of v) \<Longrightarrow> (oid, host_op) \<in> set (pending v) \<Longrightarrow> run_op N host_op d \<Longrightarrow>
     vu_step N control v (v\<lparr>vu_sh := (vu_sh v)\<lparr>completed := completed (vu_sh v) @ [(oid, d)]\<rparr>,
       pending := remove1 (oid, host_op) (pending v),
       vu_phase_of := (if vu_phase_of v = ParkPending then Drain else vu_phase_of v)\<rparr>)"
| one_completes: "vu_phase_of v = ParkOne host_op c \<Longrightarrow> run_op N host_op d \<Longrightarrow>
     vu_step N control v (v\<lparr>vu_phase_of := Script c\<rparr>)"
| one_of_all_completes: "vu_phase_of v = ParkAll ops results c \<Longrightarrow> i < length ops \<Longrightarrow> results ! i = None \<Longrightarrow> run_op N (ops ! i) d \<Longrightarrow>
     vu_step N control v (v\<lparr>vu_phase_of := ParkAll ops (results[i := Some d]) c\<rparr>)"
| all_completed: "vu_phase_of v = ParkAll ops results c \<Longrightarrow> None \<notin> set results \<Longrightarrow>
     vu_step N control v (v\<lparr>vu_phase_of := Script c, batches := batches v @ [(ops, map the results)]\<rparr>)"
| hard_cancel: "parked (vu_phase_of v) \<Longrightarrow> hard_cancelled v \<Longrightarrow>
     vu_step N control v (v\<lparr>vu_phase_of := Ended, interrupted := interrupted v + 1\<rparr>)"
| boundary: "vu_phase_of v = Boundary \<Longrightarrow> control (done_iters v + 1) (hard_cancelled v) run \<Longrightarrow>
     vu_step N control v
       (let v = v\<lparr>done_iters := done_iters v + 1\<rparr> in if run then start_iteration v else v\<lparr>vu_phase_of := Ended\<rparr>)"
| cancel: "vu_step N control v (v\<lparr>hard_cancelled := True\<rparr>)"

inductive vu_reach :: "('q, 'r, 'f, 'a) net \<Rightarrow> (u32 \<Rightarrow> bool \<Rightarrow> bool \<Rightarrow> bool) \<Rightarrow> ('q, 'r, 'f, 'a, 'm) vu \<Rightarrow> bool" for N control where
  init: "control 0 hard run \<Longrightarrow> vu_reach N control (vu_initial run hard g)"
| step: "vu_reach N control v \<Longrightarrow> vu_step N control v v' \<Longrightarrow> vu_reach N control v'"


section \<open>Bookkeeping\<close>

fun is_http :: "('q, 'f) host_op \<Rightarrow> bool" where
  "is_http (HostHttp q) = True"
| "is_http _ = False"

fun is_http_done :: "('r, 'a) op_done \<Rightarrow> bool" where
  "is_http_done (DoneHttp r) = True"
| "is_http_done _ = False"

lemma run_op_http: "run_op N x d \<Longrightarrow> is_http x \<Longrightarrow> is_http_done d"
  by (cases x; cases d) auto

definition op_ids :: "('q, 'r, 'f, 'a, 'm) vu \<Rightarrow> op_id list" where
  "op_ids v = map fst (registered (vu_sh v)) @ map fst (pending v) @ map fst (completed (vu_sh v))"

text \<open>The shared state agrees with the operations that are under way, and every id handed out is either
  under way once or resolved once.\<close>

definition clean :: "('q, 'r, 'f, 'a, 'm) vu \<Rightarrow> bool" where
  "clean v \<longleftrightarrow>
     next_op (vu_sh v) = of_nat (issued v) \<and>
     mset (resolved v) + mset (op_ids v) = mset (map of_nat [0..<issued v]) \<and>
     outstanding (vu_sh v) = of_nat (length (op_ids v)) \<and>
     dom (async_meta (vu_sh v)) = set (op_ids v) \<and>
     list_all (is_http \<circ> snd) (registered (vu_sh v) @ pending v) \<and>
     list_all (is_http_done \<circ> snd) (completed (vu_sh v))"

lemma clean_cong:
  assumes "vu_sh v' = vu_sh v" "pending v' = pending v" "issued v' = issued v" "resolved v' = resolved v"
  shows "clean v' = clean v"
  using assms by (simp add: clean_def op_ids_def)

lemma pull_simps [simp]:
  "vu_phase_of (pull_registered v) = vu_phase_of v" "hard_cancelled (pull_registered v) = hard_cancelled v"
  "op_ids (pull_registered v) = [] \<longleftrightarrow> op_ids v = []" "registered (vu_sh (pull_registered v)) = []"
  "completed (vu_sh (pull_registered v)) = completed (vu_sh v)" "resolved (pull_registered v) = resolved v"
  "issued (pull_registered v) = issued v" "batches (pull_registered v) = batches v" "globals (pull_registered v) = globals v"
  "outcomes (pull_registered v) = outcomes v" "done_iters (pull_registered v) = done_iters v"
  "iterations_recorded (pull_registered v) = iterations_recorded v"
  by (auto simp: pull_registered_def op_ids_def)

lemma clean_pull: "clean v \<Longrightarrow> clean (pull_registered v)"
  by (auto simp: clean_def op_ids_def pull_registered_def list_all_iff add.assoc add.left_commute)

lemma clean_ids:
  assumes "clean v" "issued v < 2 ^ 64"
  shows "distinct (resolved v @ op_ids v)" "length (op_ids v) < 2 ^ 64" "next_op (vu_sh v) \<notin> set (op_ids v)"
proof -
  have m: "mset (resolved v @ op_ids v) = mset (map of_nat [0..<issued v])" using assms(1) by (simp add: clean_def)
  have inj: "inj_on (of_nat :: nat \<Rightarrow> u64) {..<2 ^ 64}" by (rule inj_onI) (auto dest: arg_cong[of _ _ unat] simp: unat_of_nat)
  have "distinct (map (of_nat :: nat \<Rightarrow> u64) [0..<issued v])"
    using assms(2) by (auto simp: distinct_map intro: inj_on_subset[OF inj])
  then show "distinct (resolved v @ op_ids v)" using m mset_eq_imp_distinct_iff by blast
  have "length (resolved v @ op_ids v) = issued v" using arg_cong[OF m, of size] by simp
  then show "length (op_ids v) < 2 ^ 64" using assms(2) by simp
  have "set (op_ids v) \<subseteq> of_nat ` {..<issued v}" using arg_cong[OF m, of set_mset] by (auto simp: atLeast0LessThan)
  moreover have "of_nat (issued v) \<notin> (of_nat ` {..<issued v} :: u64 set)"
    using inj assms(2) by (auto dest!: inj_onD)
  ultimately show "next_op (vu_sh v) \<notin> set (op_ids v)" using assms(1) by (auto simp: clean_def)
qed

lemma clean_request:
  assumes "clean v" "register_async (HostHttp q) (Some m) (vu_sh v) = (s, oid)"
  shows "clean (v\<lparr>vu_sh := s, issued := Suc (issued v)\<rparr>)"
proof -
  have s: "s = (vu_sh v)\<lparr>next_op := next_op (vu_sh v) + 1, outstanding := outstanding (vu_sh v) + 1,
      registered := registered (vu_sh v) @ [(next_op (vu_sh v), HostHttp q)], async_meta := (async_meta (vu_sh v))(next_op (vu_sh v) \<mapsto> m)\<rparr>"
    using assms(2) by (auto simp: register_async_def Let_def)
  show ?thesis using assms(1) by (auto simp: clean_def op_ids_def s add.commute)
qed

lemma resolve_all_http:
  assumes "list_all (is_http_done \<circ> snd) ds" "distinct (map fst ds)" "set (map fst ds) \<subseteq> dom meta"
  shows "resolve_all ds meta = Some (meta |` (- set (map fst ds)))"
  using assms
proof (induction ds arbitrary: meta)
  case (Cons e ds)
  obtain oid r where e: "e = (oid, DoneHttp r)" using Cons.prems(1) by (cases e; cases "snd e") auto
  obtain m where m: "meta oid = Some m" using Cons.prems(3) e by auto
  have "resolve_all ds (meta(oid := None)) = Some ((meta(oid := None)) |` (- set (map fst ds)))"
    using Cons.prems e by (intro Cons.IH) (auto simp: subset_iff dom_def image_iff)
  moreover have "(meta(oid := None)) |` (- set (map fst ds)) = meta |` (- set (map fst (e # ds)))"
    by (auto simp: restrict_map_def e fun_eq_iff)
  ultimately show ?case by (simp add: e m)
qed (simp add: restrict_map_def)

lemma clean_drain:
  assumes "clean v" "issued v < 2 ^ 64"
  shows "\<exists>s. drain_completed (vu_sh v) = Some s \<and> clean (v\<lparr>vu_sh := s, resolved := resolved v @ map fst (completed (vu_sh v)), vu_phase_of := p\<rparr>)"
proof (cases "completed (vu_sh v) = []")
  case True
  then show ?thesis using assms(1) by (auto simp: drain_completed_def clean_def op_ids_def)
next
  case False
  note ids = clean_ids[OF assms]
  let ?c = "completed (vu_sh v)" and ?m = "async_meta (vu_sh v)"
  let ?rest = "map fst (registered (vu_sh v)) @ map fst (pending v)"
  have r: "resolve_all ?c ?m = Some (?m |` (- set (map fst ?c)))"
    using ids(1) assms(1) by (intro resolve_all_http) (auto simp: clean_def op_ids_def)
  have o: "outstanding (vu_sh v) = of_nat (length ?rest + length ?c)" using assms(1) by (simp add: clean_def op_ids_def)
  have l: "length ?rest + length ?c < 2 ^ 64" using ids(2) by (simp add: op_ids_def)
  then have "unat (outstanding (vu_sh v)) = length ?rest + length ?c" by (simp only: o unat_of_nat) simp
  moreover have "length ?c < 2 ^ 64" using l by linarith
  ultimately have "of_nat (length ?c) \<le> outstanding (vu_sh v)" by (simp add: word_le_nat_alt unat_of_nat)
  then have "saturating_sub (outstanding (vu_sh v)) (of_nat (length ?c)) = of_nat (length ?rest)"
    by (simp add: saturating_sub_def o)
  moreover have "dom (?m |` (- set (map fst ?c))) = set ?rest"
    using ids(1) assms(1) by (auto simp: clean_def op_ids_def)
  moreover have "mset (resolved v @ map fst ?c) + mset ?rest = mset (map of_nat [0..<issued v])"
  proof -
    have "mset (resolved v @ map fst ?c) + mset ?rest = mset (resolved v) + mset (op_ids v)" by (simp add: op_ids_def)
    then show ?thesis using assms(1) by (simp only: clean_def)
  qed
  ultimately show ?thesis using assms(1) False r by (simp add: drain_completed_def clean_def op_ids_def)
qed

lemma clean_completes:
  assumes "clean v" "(oid, x) \<in> set (pending v)" "run_op N x d"
  shows "clean (v\<lparr>vu_sh := (vu_sh v)\<lparr>completed := completed (vu_sh v) @ [(oid, d)]\<rparr>, pending := remove1 (oid, x) (pending v), vu_phase_of := p\<rparr>)"
proof -
  have "list_all (is_http \<circ> snd) (pending v)" using assms(1) by (simp add: clean_def)
  then have "is_http x" using assms(2) by (auto simp: list_all_iff)
  then have d: "is_http_done d" using run_op_http[OF assms(3)] by simp
  have m: "mset (pending v) = add_mset (oid, x) (mset (remove1 (oid, x) (pending v)))" using assms(2) by simp
  then have f: "mset (map fst (pending v)) = add_mset oid (mset (map fst (remove1 (oid, x) (pending v))))"
    by (metis fst_conv image_mset_add_mset mset_map)
  let ?v = "v\<lparr>vu_sh := (vu_sh v)\<lparr>completed := completed (vu_sh v) @ [(oid, d)]\<rparr>, pending := remove1 (oid, x) (pending v), vu_phase_of := p\<rparr>"
  have "mset (op_ids ?v) = mset (op_ids v)" using f by (simp add: op_ids_def)
  then have "mset (op_ids ?v) = mset (op_ids v)" "length (op_ids ?v) = length (op_ids v)" "set (op_ids ?v) = set (op_ids v)"
    by (auto dest: mset_eq_length mset_eq_setD)
  then show ?thesis using assms(1) d by (auto simp: clean_def list_all_iff dest: set_remove1_subset[THEN subsetD])
qed

section \<open>Invariant\<close>

definition vu_inv :: "('q, 'r, 'f, 'a, 'm) vu \<Rightarrow> bool" where
  "vu_inv v \<longleftrightarrow>
     (case vu_phase_of v of
        Panicked \<Rightarrow> False
      | Ended \<Rightarrow> True
      | Boundary \<Rightarrow> hard_cancelled v \<or> (clean v \<and> op_ids v = [])
      | _ \<Rightarrow> clean v)"

lemma decide_inv:
  assumes "clean v" "issued v < 2 ^ 64" shows "vu_inv (decide v)"
proof -
  have idle: "op_ids v = []" if "outstanding (vu_sh v) = 0"
  proof -
    have "unat (of_nat (length (op_ids v)) :: u64) = 0" using that assms(1) by (simp add: clean_def)
    then show ?thesis using clean_ids(2)[OF assms] by (simp add: unat_of_nat)
  qed
  have c: "clean (v\<lparr>outcomes := os, iterations_recorded := k, vu_phase_of := p\<rparr>)" for p os k
    using assms(1) by (subst clean_cong[of _ v]) simp_all
  have c': "clean (v\<lparr>vu_phase_of := p\<rparr>)" for p using assms(1) by (subst clean_cong[of _ v]) simp_all
  have pub: "vu_inv (publish v)" if "op_ids v = [] \<or> hard_cancelled v"
    using that clean_pull[OF c] by (auto simp: publish_def Let_def vu_inv_def) (auto simp: op_ids_def)
  show ?thesis using pub idle clean_pull[OF c'[of ParkPending]] by (auto simp: decide_def Let_def vu_inv_def[of "pull_registered _"])
qed


lemma vu_step_issued: "vu_step N control v v' \<Longrightarrow> issued v \<le> issued v'"
  by (induction rule: vu_step.induct) (auto simp: decide_def publish_def start_iteration_def Let_def)

lemma start_inv:
  assumes "clean v" "op_ids v = []" shows "vu_inv (start_iteration v)"
proof -
  have "async_meta (vu_sh v) = (\<lambda>_. None)" using assms by (simp add: clean_def)
  then show ?thesis using assms by (auto simp: vu_inv_def start_iteration_def clean_def op_ids_def shared_clear_def)
qed

lemma vu_step_inv:
  assumes "vu_step N control v v'" "vu_inv v" "issued v' < 2 ^ 64" "\<And>n. hard_cancelled v \<Longrightarrow> \<not> control n True True"
  shows "vu_inv v'"
  using assms(1)
proof cases
  case (async_request c q m s oid)
  then show ?thesis using assms(2) clean_request[of v q m s oid] by (simp add: vu_inv_def)
next
  case (await_one c x)
  have "clean (v\<lparr>vu_phase_of := ParkOne x c\<rparr>)" using assms(2) await_one(2) by (subst clean_cong[of _ v]) (simp_all add: vu_inv_def)
  from clean_pull[OF this] show ?thesis by (simp add: await_one(1) vu_inv_def)
next
  case (await_all c ops)
  have "clean (v\<lparr>vu_phase_of := ParkAll ops (map (\<lambda>_. None) ops) c\<rparr>)"
    using assms(2) await_all(2) by (subst clean_cong[of _ v]) (simp_all add: vu_inv_def)
  from clean_pull[OF this] show ?thesis by (simp add: await_all(1) vu_inv_def)
next
  case (script_returns c g)
  have "clean (v\<lparr>vu_phase_of := p, globals := g\<rparr>)" for p
    using assms(2) script_returns(2) by (subst clean_cong[of _ v]) (simp_all add: vu_inv_def)
  then show ?thesis by (simp add: script_returns(1) vu_inv_def)
next
  case (drain s)
  have "clean v" "issued v < 2 ^ 64" using assms(2,3) drain vu_step_issued[OF assms(1)] by (simp_all add: vu_inv_def)
  from clean_drain[OF this] show ?thesis using drain by (auto simp: vu_inv_def)
next
  case drain_panics
  have "clean v" "issued v < 2 ^ 64" using assms(2,3) drain_panics vu_step_issued[OF assms(1)] by (simp_all add: vu_inv_def)
  from clean_drain[OF this] show ?thesis using drain_panics by auto
next
  case decide
  have "clean v" "issued v < 2 ^ 64" using assms(2,3) decide vu_step_issued[OF assms(1)] by (simp_all add: vu_inv_def)
  from decide_inv[OF this] show ?thesis by (simp add: decide(1))
next
  case (async_completes oid x d)
  have "clean v" using assms(2) async_completes(2) by (auto simp: vu_inv_def parked_def split: vu_phase.splits)
  from clean_completes[OF this async_completes(3,4)] show ?thesis
    using async_completes(1,2) by (auto simp: vu_inv_def parked_def split: vu_phase.splits)
next
  case (one_completes x c d)
  have "clean (v\<lparr>vu_phase_of := p\<rparr>)" for p using assms(2) one_completes(2) by (subst clean_cong[of _ v]) (simp_all add: vu_inv_def)
  then show ?thesis by (simp add: one_completes(1) vu_inv_def)
next
  case (one_of_all_completes ops results c i d)
  have "clean (v\<lparr>vu_phase_of := p\<rparr>)" for p using assms(2) one_of_all_completes(2) by (subst clean_cong[of _ v]) (simp_all add: vu_inv_def)
  then show ?thesis by (simp add: one_of_all_completes(1) vu_inv_def)
next
  case (all_completed ops results c)
  have "clean (v\<lparr>vu_phase_of := p, batches := b\<rparr>)" for p b
    using assms(2) all_completed(2) by (subst clean_cong[of _ v]) (simp_all add: vu_inv_def)
  then show ?thesis by (simp add: all_completed(1) vu_inv_def)
next
  case hard_cancel
  then show ?thesis by (simp add: vu_inv_def)
next
  case (boundary run)
  have "clean (v\<lparr>done_iters := k\<rparr>)" "op_ids (v\<lparr>done_iters := k\<rparr>) = []" if "\<not> hard_cancelled v" for k
    using assms(2) boundary(2) that clean_cong[of "v\<lparr>done_iters := k\<rparr>" v] by (simp_all add: vu_inv_def op_ids_def)
  then have "vu_inv (start_iteration (v\<lparr>done_iters := k\<rparr>))" if "\<not> hard_cancelled v" for k using start_inv that by blast
  moreover have "\<not> hard_cancelled v" if run using that boundary(3) assms(4) by (cases "hard_cancelled v") auto
  ultimately show ?thesis by (auto simp: boundary(1) Let_def vu_inv_def[of "_\<lparr>vu_phase_of := Ended\<rparr>"])
next
  case cancel
  have "clean (v\<lparr>hard_cancelled := True\<rparr>) = clean v" by (rule clean_cong) simp_all
  then show ?thesis using assms(2) by (auto simp: cancel(1) vu_inv_def split: vu_phase.splits)
qed


lemma vu_step_hard: "vu_step N control v v' \<Longrightarrow> hard_cancelled v \<Longrightarrow> hard_cancelled v'"
  by (induction rule: vu_step.induct) (auto simp: decide_def publish_def start_iteration_def Let_def)

lemma vu_step_hard_only:
  "vu_step N control v v' \<Longrightarrow> hard_cancelled v' \<noteq> hard_cancelled v \<Longrightarrow> \<not> hard_cancelled v \<and> v' = v\<lparr>hard_cancelled := True\<rparr>"
  by (induction rule: vu_step.induct) (auto simp: decide_def publish_def start_iteration_def Let_def split: if_splits)

text \<open>The invariant holds unless a control ran another iteration after the hard stop.\<close>

lemma vu_reach_inv:
  assumes "vu_reach N control v" "issued v < 2 ^ 64"
  shows "vu_inv v \<or> hard_cancelled v \<and> (\<exists>n. control n True True)"
  using assms
proof (induction rule: vu_reach.induct)
  case (init hard run g)
  then show ?case by (auto simp: vu_inv_def vu_initial_def clean_def op_ids_def shared_new_def)
next
  case (step v v')
  then show ?case using vu_step_inv[OF step.hyps(2) _ step.prems] vu_step_issued[OF step.hyps(2)] vu_step_hard[OF step.hyps(2)]
    by (meson le_less_trans)
qed

text \<open>Fewer answers of the control, fewer runs.\<close>

lemma vu_step_mono:
  assumes "vu_step N control v v'" "\<And>n b. control n (hard_cancelled v) b \<Longrightarrow> control' n (hard_cancelled v) b"
  shows "vu_step N control' v v'"
  using assms by cases (blast intro: vu_step.intros)+

text \<open>While the driver waits, everything registered has been handed to it.\<close>

lemma vu_reach_parked:
  assumes "vu_reach N control v" "vu_phase_of v = ParkPending \<or> (\<exists>x c. vu_phase_of v = ParkOne x c) \<or> (\<exists>ops rs c. vu_phase_of v = ParkAll ops rs c)"
  shows "registered (vu_sh v) = []"
  using assms
proof (induction rule: vu_reach.induct)
  case (step v v')
  from step.hyps(2) step show ?case
    by cases (auto simp: decide_def publish_def start_iteration_def Let_def parked_def split: if_splits vu_phase.splits)
qed (simp add: vu_initial_def shared_new_def)

section \<open>Batches and counts\<close>

definition batch_inv :: "('q, 'r, 'f, 'a) net \<Rightarrow> ('q, 'r, 'f, 'a, 'm) vu \<Rightarrow> bool" where
  "batch_inv N v \<longleftrightarrow>
     (\<forall>(ops, ds) \<in> set (batches v). list_all2 (run_op N) ops ds) \<and>
     (case vu_phase_of v of
        ParkAll ops results c \<Rightarrow> list_all2 (\<lambda>x res. case res of None \<Rightarrow> True | Some d \<Rightarrow> run_op N x d) ops results
      | _ \<Rightarrow> True)"

lemma list_all2_the:
  "list_all2 (\<lambda>x res. case res of None \<Rightarrow> True | Some d \<Rightarrow> P x d) xs rs \<Longrightarrow> None \<notin> set rs \<Longrightarrow> list_all2 P xs (map the rs)"
  by (induction xs rs rule: list_all2_induct) (auto split: option.splits)

lemma vu_step_batch: "vu_step N control v v' \<Longrightarrow> batch_inv N v \<Longrightarrow> batch_inv N v'"
proof (induction rule: vu_step.induct)
  case (await_all v c ops)
  then show ?case by (auto simp: batch_inv_def list_all2_conv_all_nth)
next
  case (one_of_all_completes v ops results c i d)
  then show ?case by (auto simp: batch_inv_def list_all2_conv_all_nth nth_list_update)
next
  case (all_completed v ops results c)
  then show ?case using list_all2_the[of "run_op N" ops results] by (auto simp: batch_inv_def)
next
  case (async_completes v oid x d)
  then show ?case by (auto simp: batch_inv_def parked_def split: vu_phase.splits)
qed (auto simp: batch_inv_def decide_def publish_def start_iteration_def Let_def split: vu_phase.splits if_splits)

fun is_completed :: "iteration_outcome \<Rightarrow> bool" where
  "is_completed (Completed s) = True"
| "is_completed _ = False"

definition count_inv :: "('q, 'r, 'f, 'a, 'm) vu \<Rightarrow> bool" where
  "count_inv v \<longleftrightarrow>
     iterations_recorded v = length (filter is_completed (outcomes v)) \<and>
     (Interrupted \<in> set (outcomes v) \<longrightarrow> hard_cancelled v) \<and>
     of_nat (length (outcomes v)) = done_iters v + (if vu_phase_of v = Boundary then 1 else 0)"

lemma publish_count: "count_inv v \<Longrightarrow> vu_phase_of v \<noteq> Boundary \<Longrightarrow> count_inv (publish v)"
  by (cases "iteration_outcome_of (hard_cancelled v) (globals v)")
    (auto simp: publish_def Let_def count_inv_def iteration_outcome_of_def split: if_splits)

lemma vu_step_count: "vu_step N control v v' \<Longrightarrow> count_inv v \<Longrightarrow> count_inv v'"
proof (induction rule: vu_step.induct)
  case (decide v)
  then show ?case using publish_count[of v] by (auto simp: decide_def Let_def) (auto simp: count_inv_def)
next
  case (boundary v)
  then show ?case by (auto simp: count_inv_def start_iteration_def Let_def)
next
  case (async_completes v oid x d)
  then show ?case by (auto simp: count_inv_def parked_def)
qed (auto simp: count_inv_def parked_def)


section \<open>Properties\<close>

text \<open>Bookkeeping of asynchronous requests, whatever the control: the driver loop panics on a missing entry only
  when the control let another iteration start after the hard stop; and whenever an iteration ends without
  a hard stop nothing is left over.  (Ids are 64 bits wide; \<open>issued\<close> counts them.)\<close>

definition nothing_left :: "('q, 'r, 'f, 'a, 'm) vu \<Rightarrow> bool" where
  "nothing_left v \<longleftrightarrow>
     outstanding (vu_sh v) = 0 \<and> registered (vu_sh v) = [] \<and> pending v = [] \<and> completed (vu_sh v) = [] \<and>
     async_meta (vu_sh v) = (\<lambda>_. None) \<and> mset (resolved v) = mset (map of_nat [0..<issued v]) \<and> distinct (resolved v)"

lemma bookkeeping_any:
  assumes "vu_reach N control v" "issued v < 2 ^ 64"
  shows "(vu_phase_of v = Panicked \<longrightarrow> hard_cancelled v \<and> (\<exists>n. control n True True)) \<and>
    (vu_phase_of v = Boundary \<and> \<not> hard_cancelled v \<longrightarrow> nothing_left v)"
proof -
  note i = vu_reach_inv[OF assms]
  have "clean v" "op_ids v = []" if "vu_phase_of v = Boundary" "\<not> hard_cancelled v" using that i by (simp_all add: vu_inv_def)
  then have "nothing_left v" if "vu_phase_of v = Boundary" "\<not> hard_cancelled v"
    using that clean_ids(1)[OF _ assms(2)] by (auto simp: nothing_left_def clean_def op_ids_def)
  then show ?thesis using i by (auto simp: vu_inv_def)
qed

text \<open>A script that sends one asynchronous request and then, from a job, waits for another one.\<close>

definition any_net :: "(unit, unit, unit, unit) net" where
  "any_net = \<lparr>net_send = (\<lambda>_ _. True), net_stream = (\<lambda>_ _. True)\<rparr>"

definition until_cancelled :: "u32 \<Rightarrow> bool \<Rightarrow> bool \<Rightarrow> bool" where
  "until_cancelled n hard run = (run = (\<not> hard))"

definition no_globals :: js_globals where
  "no_globals = \<lparr>g_done = False, g_failed = False, g_ret = [], g_err = []\<rparr>"

lemma async_pending_reached:
  assumes "control 0 False True"
  shows "vu_reach N control
    ((vu_initial True False no_globals :: ('q, 'r, 'f, 'a, 'm) vu)\<lparr>vu_phase_of := Script JobsCall, issued := 1, globals := g,
       vu_sh := shared_new\<lparr>next_op := 1, outstanding := 1, registered := [(0, HostHttp q)], async_meta := (\<lambda>_. None)(0 \<mapsto> m)\<rparr>\<rparr>)"
    (is "vu_reach N control ?v3")
proof -
  let ?v0 = "vu_initial True False no_globals :: ('q, 'r, 'f, 'a, 'm) vu"
  let ?s1 = "shared_new\<lparr>next_op := 1, outstanding := 1, registered := [(0, HostHttp q)], async_meta := (\<lambda>_. None)(0 \<mapsto> m)\<rparr>"
  let ?v1 = "?v0\<lparr>vu_sh := ?s1, issued := 1\<rparr>" and ?v2 = "?v0\<lparr>vu_sh := ?s1, issued := 1, globals := g, vu_phase_of := Drain\<rparr>"
  have r0: "vu_reach N control ?v0" by (rule vu_reach.init[where control = control, OF assms])
  have "vu_step N control ?v0 ?v1"
    using vu_step.async_request[of ?v0 ExecCall q m ?s1 0] assms by (simp add: vu_initial_def register_async_def shared_new_def Let_def)
  moreover have "vu_step N control ?v1 ?v2"
    using vu_step.script_returns[of ?v1 ExecCall N control g] assms by (simp add: vu_initial_def)
  moreover have "vu_step N control ?v2 ?v3"
    using vu_step.drain[of ?v2 ?s1] assms by (simp add: vu_initial_def drain_completed_def shared_new_def)
  ultimately show ?thesis using r0 by (blast intro: vu_reach.step)
qed

definition done_globals :: js_globals where
  "done_globals = \<lparr>g_done = True, g_failed = False, g_ret = ''undefined'', g_err = []\<rparr>"

text \<open>The same script at its iteration boundary, the request resolved.\<close>

definition boundary_example :: "(unit, unit, unit, unit, unit) vu" where
  "boundary_example = (vu_initial True False no_globals)\<lparr>vu_phase_of := Boundary, issued := 1, globals := done_globals,
     vu_sh := shared_new\<lparr>next_op := 1\<rparr>, resolved := [0], outcomes := [Completed ''undefined''], iterations_recorded := 1\<rparr>"

lemma boundary_reached: "vu_reach any_net until_cancelled boundary_example"
proof -
  let ?N = any_net and ?C = until_cancelled
  let ?i = "vu_initial True False no_globals :: (unit, unit, unit, unit, unit) vu"
  let ?sh = "shared_new\<lparr>next_op := 1, outstanding := 1, async_meta := (\<lambda>_. None)(0 \<mapsto> ())\<rparr> :: (unit, unit, unit, unit, unit) vu_shared"
  define v where "v p s = ?i\<lparr>issued := 1, globals := done_globals, vu_sh := s, vu_phase_of := p\<rparr>" for p s
  note d = v_def vu_initial_def shared_new_def until_cancelled_def
  have s0: "vu_reach ?N ?C (v (Script JobsCall) (?sh\<lparr>registered := [(0, HostHttp ())]\<rparr>))"
    using async_pending_reached[where control = ?C and N = ?N and g = done_globals and q = "()" and m = "()"] by (simp add: d)
  have s1: "vu_step ?N ?C (v (Script JobsCall) (?sh\<lparr>registered := [(0, HostHttp ())]\<rparr>)) (v Decide (?sh\<lparr>registered := [(0, HostHttp ())]\<rparr>))"
    using vu_step.script_returns[of "v (Script JobsCall) (?sh\<lparr>registered := [(0, HostHttp ())]\<rparr>)" JobsCall ?N ?C done_globals] by (simp add: d)
  have s2: "vu_step ?N ?C (v Decide (?sh\<lparr>registered := [(0, HostHttp ())]\<rparr>)) ((v ParkPending ?sh)\<lparr>pending := [(0, HostHttp ())]\<rparr>)"
    using vu_step.decide[of "v Decide (?sh\<lparr>registered := [(0, HostHttp ())]\<rparr>)" ?N ?C]
    by (simp add: d decide_def Let_def pull_registered_def)
  have s3: "vu_step ?N ?C ((v ParkPending ?sh)\<lparr>pending := [(0, HostHttp ())]\<rparr>) (v Drain (?sh\<lparr>completed := [(0, DoneHttp ())]\<rparr>))"
    using vu_step.async_completes[of "(v ParkPending ?sh)\<lparr>pending := [(0, HostHttp ())]\<rparr>" 0 "HostHttp ()" ?N "DoneHttp ()" ?C]
    by (simp add: d parked_def any_net_def)
  have s4: "vu_step ?N ?C (v Drain (?sh\<lparr>completed := [(0, DoneHttp ())]\<rparr>)) ((v (Script JobsCall) (shared_new\<lparr>next_op := 1\<rparr>))\<lparr>resolved := [0]\<rparr>)"
    using vu_step.drain[of "v Drain (?sh\<lparr>completed := [(0, DoneHttp ())]\<rparr>)" "shared_new\<lparr>next_op := 1\<rparr>" ?N ?C]
    by (simp add: d drain_completed_def saturating_sub_def fun_upd_idem)
  have s5: "vu_step ?N ?C ((v (Script JobsCall) (shared_new\<lparr>next_op := 1\<rparr>))\<lparr>resolved := [0]\<rparr>) ((v Decide (shared_new\<lparr>next_op := 1\<rparr>))\<lparr>resolved := [0]\<rparr>)"
    using vu_step.script_returns[of "(v (Script JobsCall) (shared_new\<lparr>next_op := 1\<rparr>))\<lparr>resolved := [0]\<rparr>" JobsCall ?N ?C done_globals] by (simp add: d)
  have s6: "vu_step ?N ?C ((v Decide (shared_new\<lparr>next_op := 1\<rparr>))\<lparr>resolved := [0]\<rparr>) boundary_example"
    using vu_step.decide[of "(v Decide (shared_new\<lparr>next_op := 1\<rparr>))\<lparr>resolved := [0]\<rparr>" ?N ?C]
    by (simp add: d boundary_example_def decide_def publish_def iteration_outcome_of_def done_globals_def Let_def pull_registered_def)
  show ?thesis by (rule vu_reach.step[OF vu_reach.step[OF vu_reach.step[OF vu_reach.step[OF vu_reach.step[OF vu_reach.step[OF s0 s1] s2] s3] s4] s5] s6])
qed

text \<open>A control that does let an iteration start after the hard stop can make the loop panic: the first iteration
  leaves a request behind, the next one forgets its entry, and its result arrives while the script waits.\<close>

lemma late_grant_panics:
  assumes "control 0 False True" "control 1 True True" "net_send N q r"
  shows "\<exists>v :: ('q, 'r, 'f, 'a, 'm) vu. vu_reach N control v \<and> vu_phase_of v = Panicked"
proof -
  obtain m :: 'm where True by blast
  let ?i = "vu_initial True True no_globals :: ('q, 'r, 'f, 'a, 'm) vu"
  let ?sh = "shared_new\<lparr>next_op := 1, outstanding := 1, async_meta := (\<lambda>_. None)(0 \<mapsto> m)\<rparr> :: ('q, 'r, 'f, 'a, 'm) vu_shared"
  let ?sh' = "shared_new\<lparr>next_op := 1\<rparr> :: ('q, 'r, 'f, 'a, 'm) vu_shared"
  define v where "v p s = ?i\<lparr>issued := 1, vu_sh := s, vu_phase_of := p\<rparr>" for p s
  define u where "u p s = (v p s)\<lparr>done_iters := 1, outcomes := [Interrupted]\<rparr>" for p s
  note d = u_def v_def vu_initial_def shared_new_def no_globals_def
  let ?w0 = "v (Script JobsCall) (?sh\<lparr>registered := [(0, HostHttp q)]\<rparr>)" and ?w1 = "v Decide (?sh\<lparr>registered := [(0, HostHttp q)]\<rparr>)"
  let ?w2 = "(v Boundary ?sh)\<lparr>pending := [(0, HostHttp q)], outcomes := [Interrupted]\<rparr>"
  let ?w3 = "(u (Script ExecCall) ?sh')\<lparr>pending := [(0, HostHttp q)]\<rparr>" and ?w4 = "(u (ParkOne (HostHttp q) ExecCall) ?sh')\<lparr>pending := [(0, HostHttp q)]\<rparr>"
  let ?w5 = "u (ParkOne (HostHttp q) ExecCall) (?sh'\<lparr>completed := [(0, DoneHttp r)]\<rparr>)" and ?w6 = "u (Script ExecCall) (?sh'\<lparr>completed := [(0, DoneHttp r)]\<rparr>)"
  let ?w7 = "u Drain (?sh'\<lparr>completed := [(0, DoneHttp r)]\<rparr>)" and ?w8 = "u Panicked (?sh'\<lparr>completed := [(0, DoneHttp r)]\<rparr>)"
  have a: "vu_reach N control (?w0\<lparr>hard_cancelled := False\<rparr>)"
    using async_pending_reached[where control = control and N = N and g = no_globals and q = q and m = m] assms(1) by (simp add: d)
  have s0: "vu_step N control (?w0\<lparr>hard_cancelled := False\<rparr>) ?w0"
    using vu_step.cancel[of N control "?w0\<lparr>hard_cancelled := False\<rparr>"] by (simp add: d)
  have s1: "vu_step N control ?w0 ?w1" using vu_step.script_returns[of ?w0 JobsCall N control no_globals] by (simp add: d)
  have s2: "vu_step N control ?w1 ?w2"
    using vu_step.decide[of ?w1 N control] by (simp add: d decide_def publish_def iteration_outcome_of_def pull_registered_def Let_def)
  have s3: "vu_step N control ?w2 ?w3"
    using vu_step.boundary[of ?w2 control True N] assms(2) by (simp add: d start_iteration_def shared_clear_def Let_def)
  have s4: "vu_step N control ?w3 ?w4"
    using vu_step.await_one[of ?w3 ExecCall N control "HostHttp q"] by (simp add: d pull_registered_def)
  have s5: "vu_step N control ?w4 ?w5"
    using vu_step.async_completes[of ?w4 0 "HostHttp q" N "DoneHttp r" control] assms(3) by (simp add: d parked_def)
  have s6: "vu_step N control ?w5 ?w6"
    using vu_step.one_completes[of ?w5 "HostHttp q" ExecCall N "DoneHttp r" control] assms(3) by (simp add: d)
  have s7: "vu_step N control ?w6 ?w7" using vu_step.script_returns[of ?w6 ExecCall N control no_globals] by (simp add: d)
  have s8: "vu_step N control ?w7 ?w8" using vu_step.drain_panics[of ?w7 N control] by (simp add: d drain_completed_def)
  have "vu_reach N control ?w4"
    by (rule vu_reach.step[OF vu_reach.step[OF vu_reach.step[OF vu_reach.step[OF vu_reach.step[OF a s0] s1] s2] s3] s4])
  then have "vu_reach N control ?w8"
    by (rule vu_reach.step[OF vu_reach.step[OF vu_reach.step[OF vu_reach.step[OF _ s5] s6] s7] s8])
  then show ?thesis by (intro exI[of _ ?w8]) (simp add: d)
qed

text \<open>Batches.  The results a script gets back from a synchronous batch are, in input order, answers to
  the operations of the batch, one for each, whatever the order in which they came in.\<close>

lemma batch_in_order:
  assumes "vu_reach N control v" "(ops, ds) \<in> set (batches v)"
  shows "list_all2 (run_op N) ops ds"
proof -
  have "batch_inv N v" using assms(1)
  proof (induction rule: vu_reach.induct)
    case (init hard run g)
    show ?case by (simp add: batch_inv_def vu_initial_def)
  qed (blast intro: vu_step_batch)
  then show ?thesis using assms(2) by (auto simp: batch_inv_def)
qed

text \<open>Iteration counts.  The iterations recorded in the metrics are exactly the completed ones (thrown and
  interrupted iterations are not recorded), an iteration is published as interrupted only after a hard
  stop, and the driver has counted every published iteration whose boundary is behind it.\<close>

lemma iteration_counts:
  assumes "vu_reach N control v"
  shows "iterations_recorded v = length (filter is_completed (outcomes v)) \<and>
    (Interrupted \<in> set (outcomes v) \<longrightarrow> hard_cancelled v) \<and>
    (vu_phase_of v \<noteq> Boundary \<longrightarrow> done_iters v = of_nat (length (outcomes v)))"
proof -
  have "count_inv v" using assms
  proof (induction rule: vu_reach.induct)
    case (init hard run g)
    show ?case by (simp add: count_inv_def vu_initial_def)
  qed (blast intro: vu_step_count)
  then show ?thesis by (simp add: count_inv_def)
qed

text \<open>From \<open>v\<close> on nothing happens but the hard stop, which ends the virtual user.\<close>

definition only_hard_stop :: "('q, 'r, 'f, 'a) net \<Rightarrow> (u32 \<Rightarrow> bool \<Rightarrow> bool \<Rightarrow> bool) \<Rightarrow> ('q, 'r, 'f, 'a, 'm) vu \<Rightarrow> bool" where
  "only_hard_stop N control v \<longleftrightarrow>
     (\<forall>v'. (vu_step N control)\<^sup>*\<^sup>* v v' \<longrightarrow>
        v' = v \<or> v' = v\<lparr>hard_cancelled := True\<rparr> \<or>
        v' = v\<lparr>hard_cancelled := True, vu_phase_of := Ended, interrupted := interrupted v + 1\<rparr>)"

lemma park_pending_step:
  assumes "vu_step N control v v'" "vu_phase_of v = ParkPending" "pending v = []"
  shows "v' = v\<lparr>hard_cancelled := True\<rparr> \<or> hard_cancelled v \<and> v' = v\<lparr>vu_phase_of := Ended, interrupted := interrupted v + 1\<rparr>"
  using assms by cases auto

lemma ended_step: "vu_step N control v v' \<Longrightarrow> vu_phase_of v = Ended \<Longrightarrow> v' = v\<lparr>hard_cancelled := True\<rparr>"
  by (cases rule: vu_step.cases) (auto simp: parked_def)

lemma park_pending_stuck:
  assumes "vu_phase_of v = ParkPending" "pending v = []" "\<not> hard_cancelled v"
  shows "only_hard_stop N control v"
  unfolding only_hard_stop_def
proof (intro allI impI)
  fix v' assume "(vu_step N control)\<^sup>*\<^sup>* v v'"
  then show "v' = v \<or> v' = v\<lparr>hard_cancelled := True\<rparr> \<or>
      v' = v\<lparr>hard_cancelled := True, vu_phase_of := Ended, interrupted := interrupted v + 1\<rparr>"
  proof (induction rule: rtranclp_induct)
    case (step a b)
    let ?h = "v\<lparr>hard_cancelled := True\<rparr>" and ?e = "v\<lparr>hard_cancelled := True, vu_phase_of := Ended, interrupted := interrupted v + 1\<rparr>"
    consider "a = v" | "a = ?h" | "a = ?e" using step.IH by blast
    then show ?case
    proof cases
      case 1
      then show ?thesis using park_pending_step[OF step.hyps(2)] assms by auto
    next
      case 2
      then show ?thesis using park_pending_step[OF step.hyps(2)] assms by auto
    next
      case 3
      then show ?thesis using ended_step[OF step.hyps(2)] by simp
    qed
  qed simp
qed

text \<open>C20.  A lost wake-up.  In any reachable state, before a hard stop, in which a job of the script waits for a
  synchronous operation \<open>x\<close> while one asynchronous request is pending: if that request completes during the
  wait, the synchronous operation then completes and the job returns without issuing another request
  (leaving any globals \<open>g\<close>), then the result has been queued after the loop drained the queue, and the loop
  waits for a pending operation though none is left.  From there on nothing can happen but the hard stop: the
  queued result is never delivered.\<close>

theorem await_pending_lost_wakeup:
  assumes "vu_reach N control v" "issued v < 2 ^ 64" "\<not> hard_cancelled v"
    and "vu_phase_of v = ParkOne x JobsCall" "pending v = [(oid, h)]"
    and "run_op N h d" "run_op N x e"
  shows "\<exists>v1 v2 v3 v4.
    vu_step N control v v1 \<and> vu_phase_of v1 = ParkOne x JobsCall \<and> completed (vu_sh v1) = completed (vu_sh v) @ [(oid, d)] \<and>
    vu_step N control v1 v2 \<and> vu_phase_of v2 = Script JobsCall \<and>
    vu_step N control v2 v3 \<and> vu_phase_of v3 = Decide \<and> globals v3 = g \<and>
    vu_step N control v3 v4 \<and> vu_phase_of v4 = ParkPending \<and> pending v4 = [] \<and>
    completed (vu_sh v4) = completed (vu_sh v) @ [(oid, d)] \<and> oid \<notin> set (resolved v4) \<and> only_hard_stop N control v4"
proof -
  let ?v1 = "v\<lparr>vu_sh := (vu_sh v)\<lparr>completed := completed (vu_sh v) @ [(oid, d)]\<rparr>, pending := [], vu_phase_of := ParkOne x JobsCall\<rparr>"
  let ?v2 = "?v1\<lparr>vu_phase_of := Script JobsCall\<rparr>" and ?v3 = "?v1\<lparr>vu_phase_of := Decide, globals := g\<rparr>"
  have c: "clean v" using vu_reach_inv[OF assms(1,2)] assms(3,4) by (auto simp: vu_inv_def)
  have s1: "vu_step N control v ?v1"
    using vu_step.async_completes[of v oid h N d control] assms by (simp add: parked_def)
  have s2: "vu_step N control ?v1 ?v2" using vu_step.one_completes[of ?v1 x JobsCall N e control] assms by simp
  have s3: "vu_step N control ?v2 ?v3" using vu_step.script_returns[of ?v2 JobsCall N control g] by simp
  have s4: "vu_step N control ?v3 (decide ?v3)" by (rule vu_step.decide) simp
  have "length (op_ids v) \<noteq> 0" using assms(5) by (simp add: op_ids_def)
  then have o: "outstanding (vu_sh v) \<noteq> 0"
    using c clean_ids(2)[OF c assms(2)] by (auto simp: clean_def word_eq_iff_unsigned unat_of_nat dest!: arg_cong[of _ _ unat])
  have "registered (vu_sh v) = []" using vu_reach_parked[OF assms(1)] assms(4) by simp
  then have d4: "decide ?v3 = ?v3\<lparr>vu_phase_of := ParkPending, vu_sh := (vu_sh ?v3)\<lparr>registered := []\<rparr>\<rparr>"
    using o assms(3) by (simp add: decide_def Let_def pull_registered_def)
  have "oid \<in> set (op_ids v)" using assms(5) by (simp add: op_ids_def)
  then have r: "oid \<notin> set (resolved v)" using clean_ids(1)[OF c assms(2)] by auto
  have st: "only_hard_stop N control (decide ?v3)" using d4 assms(3) by (intro park_pending_stuck) simp_all
  show ?thesis
    by (rule exI[of _ ?v1], rule exI[of _ ?v2], rule exI[of _ ?v3], rule exI[of _ "decide ?v3"], intro conjI s1 s2 s3 s4 st)
      (unfold d4, use assms(4) r in simp_all)
qed

text \<open>A job that waits for one request while another one is pending.\<close>

definition waiting_job :: "(unit, unit, unit, unit, unit) vu" where
  "waiting_job = (vu_initial True False no_globals)\<lparr>issued := 1, vu_phase_of := ParkOne (HostHttp ()) JobsCall, pending := [(0, HostHttp ())],
     vu_sh := shared_new\<lparr>next_op := 1, outstanding := 1, async_meta := (\<lambda>_. None)(0 \<mapsto> ())\<rparr>\<rparr>"

lemma waiting_job_reached: "vu_reach any_net until_cancelled waiting_job"
proof -
  let ?v = "(vu_initial True False no_globals)\<lparr>issued := 1, vu_phase_of := Script JobsCall,
     vu_sh := shared_new\<lparr>next_op := 1, outstanding := 1, registered := [(0, HostHttp ())], async_meta := (\<lambda>_. None)(0 \<mapsto> ())\<rparr>\<rparr> :: (unit, unit, unit, unit, unit) vu"
  have "vu_reach any_net until_cancelled ?v"
    using async_pending_reached[where control = until_cancelled and N = any_net and g = no_globals and q = "()" and m = "()"]
    by (simp add: until_cancelled_def vu_initial_def no_globals_def)
  moreover have "vu_step any_net until_cancelled ?v waiting_job"
    using vu_step.await_one[of ?v JobsCall any_net until_cancelled "HostHttp ()"]
    by (simp add: waiting_job_def pull_registered_def vu_initial_def shared_new_def)
  ultimately show ?thesis by (rule vu_reach.step)
qed

theorem await_pending_lost_wakeup_witness:
  "\<exists>v1 v2 v3 v4. vu_step any_net until_cancelled waiting_job v1 \<and> vu_step any_net until_cancelled v1 v2 \<and>
     vu_step any_net until_cancelled v2 v3 \<and> globals v3 = done_globals \<and> vu_step any_net until_cancelled v3 v4 \<and>
     completed (vu_sh v4) = [(0, DoneHttp ())] \<and> only_hard_stop any_net until_cancelled v4"
proof -
  have "issued waiting_job < 2 ^ 64" "\<not> hard_cancelled waiting_job" "vu_phase_of waiting_job = ParkOne (HostHttp ()) JobsCall"
    "pending waiting_job = [(0, HostHttp ())]" "run_op any_net (HostHttp ()) (DoneHttp ())" "completed (vu_sh waiting_job) = []"
    by (simp_all add: waiting_job_def vu_initial_def any_net_def shared_new_def)
  with await_pending_lost_wakeup[OF waiting_job_reached, of "HostHttp ()" 0 "HostHttp ()" "DoneHttp ()" "DoneHttp ()" done_globals]
  show ?thesis by auto
qed

end
