(* ===== verification/Pool.thy ===== *)
theory Pool
  imports Schedule VuSched
begin

text \<open>
  The executors of \<open>crates/k6-js/src/pool.rs\<close>: the placement of virtual users on loop threads, the control
  each executor hangs on its virtual users, and the coordinator of the arrival-rate executors.  An
  executor is a step relation over its virtual users; what an iteration does is the model of
  \<open>VuSched\<close>, of which only the published outcome matters here.  Threads interleave at the atomic
  operations and channel operations of the code.  The results: every virtual user runs on exactly one
  thread, no iteration is lost or counted twice, a shared budget is never overdrawn, and the
  coordinator fires exactly the arrivals its curve asks for.
\<close>

section \<open>Loop threads\<close>

definition loop_thread_count :: "nat \<Rightarrow> nat \<Rightarrow> nat" where
  "loop_thread_count cores num_vus = (if num_vus = 0 then 0 else max (min cores num_vus) 1)"

definition my_ids :: "nat \<Rightarrow> nat \<Rightarrow> nat \<Rightarrow> nat list" where
  "my_ids num_threads num_vus t = filter (\<lambda>vu. vu mod num_threads = t) [0..<num_vus]"

text \<open>The arrival-rate executor deals the receivers out one by one.\<close>

fun deal_receivers :: "nat \<Rightarrow> nat list \<Rightarrow> nat list list \<Rightarrow> nat list list" where
  "deal_receivers num_threads [] per_thread = per_thread"
| "deal_receivers num_threads (vu # vus) per_thread =
     deal_receivers num_threads vus
       (per_thread[vu mod num_threads := per_thread ! (vu mod num_threads) @ [vu]])"

section \<open>Lanes and summaries\<close>

record lanes =
  l_completed :: u64
  l_errored :: u64
  l_interrupted :: u64

definition tally_outcome :: "iteration_outcome option \<Rightarrow> lanes \<Rightarrow> lanes" where
  "tally_outcome result l =
     (case result of
        Some (Completed _) \<Rightarrow> l\<lparr>l_completed := l_completed l + 1\<rparr>
      | Some (Errored _) \<Rightarrow> l\<lparr>l_errored := l_errored l + 1\<rparr>
      | Some Interrupted \<Rightarrow> l\<lparr>l_interrupted := l_interrupted l + 1\<rparr>
      | None \<Rightarrow> l)"

record run_summary =
  iterations_completed :: u64
  iterations_dropped :: u64
  iterations_errored :: u64
  iterations_interrupted :: u64
  run_duration :: duration
  vus_degraded :: u64

definition no_lanes :: lanes where
  "no_lanes = \<lparr>l_completed = 0, l_errored = 0, l_interrupted = 0\<rparr>"

definition l_ran :: "lanes \<Rightarrow> u64" where
  "l_ran l = l_completed l + l_errored l + l_interrupted l"

text \<open>The summaries of the executors: those without arrivals drop nothing, the counted ones drop what was
  planned and did not run, the arrival-rate executors what the coordinator dropped.\<close>

definition summary_of :: "lanes \<Rightarrow> u64 \<Rightarrow> u64 \<Rightarrow> duration \<Rightarrow> run_summary" where
  "summary_of l dropped degraded elapsed =
     \<lparr>iterations_completed = l_completed l, iterations_dropped = dropped, iterations_errored = l_errored l,
      iterations_interrupted = l_interrupted l, run_duration = elapsed, vus_degraded = degraded\<rparr>"

definition constant_summary :: "lanes \<Rightarrow> u64 \<Rightarrow> duration \<Rightarrow> run_summary" where
  "constant_summary l degraded elapsed = summary_of l 0 degraded elapsed"

definition per_vu_summary :: "u32 \<Rightarrow> u64 \<Rightarrow> lanes \<Rightarrow> u64 \<Rightarrow> duration \<Rightarrow> run_summary" where
  "per_vu_summary iterations_per_vu num_vus l degraded elapsed =
     (let planned = ucast iterations_per_vu * num_vus in summary_of l (saturating_sub planned (l_ran l)) degraded elapsed)"

definition shared_summary :: "u32 \<Rightarrow> lanes \<Rightarrow> u64 \<Rightarrow> duration \<Rightarrow> run_summary" where
  "shared_summary total_iterations l degraded elapsed =
     summary_of l (saturating_sub (ucast total_iterations) (l_ran l)) degraded elapsed"

section \<open>Controls\<close>

text \<open>\<open>stop\<close> is the deadline or the cancellation, read when the control is asked; \<open>n\<close> the iterations the virtual
  user has finished.\<close>

definition constant_control :: "bool \<Rightarrow> iteration_outcome option \<Rightarrow> u32 \<Rightarrow> lanes \<Rightarrow> lanes \<times> bool" where
  "constant_control stop result n l = ((if 1 \<le> n then tally_outcome result l else l), \<not> stop)"

definition per_vu_control :: "u32 \<Rightarrow> bool \<Rightarrow> iteration_outcome option \<Rightarrow> u32 \<Rightarrow> lanes \<Rightarrow> lanes \<times> bool" where
  "per_vu_control iterations_per_vu stop result n l =
     ((if 1 \<le> n then tally_outcome result l else l), n < iterations_per_vu \<and> \<not> stop)"

text \<open>The ramping control decides by the broadcast count; an inactive virtual user waits (\<open>None\<close>) for the
  next broadcast or the stop.\<close>

definition ramping_control :: "bool \<Rightarrow> u32 \<Rightarrow> u64 \<Rightarrow> bool option" where
  "ramping_control stop desired my_index =
     (if stop then Some False else if (ucast my_index :: u32) < desired then Some True else None)"

text \<open>Keeping the number of active virtual users of the REST observer.\<close>

definition ramping_active :: "bool \<Rightarrow> bool \<Rightarrow> u32 \<Rightarrow> bool \<times> u32" where
  "ramping_active new old active_vus =
     (new, if new \<noteq> old then (if new then active_vus + 1 else active_vus - 1) else active_vus)"

section \<open>Shared iterations\<close>

text \<open>A virtual user of the shared-iterations executor: not built yet, at its control, claiming, holding the budget it
  read, in an iteration, or stopped.\<close>

datatype claim_state = NotBuilt | AtControl | Claiming | Read u32 | Running | Stopped

record claim_sys =
  remaining :: u32
  claim_vus :: "claim_state list"
  claim_lanes :: lanes
  claim_lost :: nat
  claim_degraded :: u64

inductive claim_step :: "claim_sys \<Rightarrow> claim_sys \<Rightarrow> bool" where
  vu_built: "i < length (claim_vus s) \<Longrightarrow> claim_vus s ! i = NotBuilt \<Longrightarrow>
     claim_step s (s\<lparr>claim_vus := (claim_vus s)[i := AtControl]\<rparr>)"
| vu_build_fails: "i < length (claim_vus s) \<Longrightarrow> claim_vus s ! i = NotBuilt \<Longrightarrow>
     claim_step s (s\<lparr>claim_vus := (claim_vus s)[i := Stopped], claim_degraded := claim_degraded s + 1\<rparr>)"
| stops: "i < length (claim_vus s) \<Longrightarrow> claim_vus s ! i = AtControl \<Longrightarrow>
     claim_step s (s\<lparr>claim_vus := (claim_vus s)[i := Stopped]\<rparr>)"
| goes_on: "i < length (claim_vus s) \<Longrightarrow> claim_vus s ! i = AtControl \<Longrightarrow>
     claim_step s (s\<lparr>claim_vus := (claim_vus s)[i := Claiming]\<rparr>)"
| load: "i < length (claim_vus s) \<Longrightarrow> claim_vus s ! i = Claiming \<Longrightarrow>
     claim_step s (s\<lparr>claim_vus := (claim_vus s)[i := (if remaining s = 0 then Stopped else Read (remaining s))]\<rparr>)"
| exchange: "i < length (claim_vus s) \<Longrightarrow> claim_vus s ! i = Read cur \<Longrightarrow> remaining s = cur \<Longrightarrow>
     claim_step s (s\<lparr>remaining := cur - 1, claim_vus := (claim_vus s)[i := Running]\<rparr>)"
| exchange_fails: "i < length (claim_vus s) \<Longrightarrow> claim_vus s ! i = Read cur \<Longrightarrow>
     claim_step s (s\<lparr>claim_vus := (claim_vus s)[i := Claiming]\<rparr>)"
| iteration_ends: "i < length (claim_vus s) \<Longrightarrow> claim_vus s ! i = Running \<Longrightarrow>
     claim_step s (s\<lparr>claim_vus := (claim_vus s)[i := AtControl], claim_lanes := tally_outcome (Some oc) (claim_lanes s)\<rparr>)"
| unwound: "i < length (claim_vus s) \<Longrightarrow> claim_vus s ! i = Running \<Longrightarrow>
     claim_step s (s\<lparr>claim_vus := (claim_vus s)[i := Stopped],
                     claim_lanes := (claim_lanes s)\<lparr>l_interrupted := l_interrupted (claim_lanes s) + 1\<rparr>\<rparr>)"
| panics: "i < length (claim_vus s) \<Longrightarrow> claim_vus s ! i = Running \<Longrightarrow>
     claim_step s (s\<lparr>claim_vus := (claim_vus s)[i := Stopped], claim_lost := Suc (claim_lost s), claim_degraded := claim_degraded s + 1\<rparr>)"

inductive claim_reach :: "u32 \<Rightarrow> nat \<Rightarrow> claim_sys \<Rightarrow> bool" for total_iterations n where
  init: "claim_reach total_iterations n
     \<lparr>remaining = total_iterations, claim_vus = replicate n NotBuilt, claim_lanes = no_lanes, claim_lost = 0, claim_degraded = 0\<rparr>"
| step: "claim_reach total_iterations n s \<Longrightarrow> claim_step s s' \<Longrightarrow> claim_reach total_iterations n s'"

section \<open>The coordinator\<close>

record coordinator =
  co_idle :: "nat list"
  co_dispatched :: u64
  co_dropped :: u64

text \<open>One arrival: dispatch to the longest idle virtual user, or drop; \<open>open_rx\<close> tells whose dispatch channel
  is still open.  The virtual user a message was sent to is returned.\<close>

definition fire_one :: "(nat \<Rightarrow> bool) \<Rightarrow> coordinator \<Rightarrow> coordinator \<times> nat option" where
  "fire_one open_rx c =
     (let c = c\<lparr>co_dispatched := co_dispatched c + 1\<rparr>
      in case co_idle c of
           [] \<Rightarrow> (c\<lparr>co_dropped := co_dropped c + 1\<rparr>, None)
         | vu # rest \<Rightarrow>
             if open_rx vu then (c\<lparr>co_idle := rest\<rparr>, Some vu)
             else (c\<lparr>co_idle := rest, co_dropped := co_dropped c + 1\<rparr>, None))"

definition arrival_due :: "f64 \<Rightarrow> coordinator \<Rightarrow> bool" where
  "arrival_due target c \<longleftrightarrow> fle (fadd (f_of_u64 (co_dispatched c)) (flit 1)) target"

text \<open>The catch-up loop of one tick, which a target that is not finite would keep running.\<close>

partial_function (option) fire_loop :: "f64 \<Rightarrow> (nat \<Rightarrow> bool) \<Rightarrow> coordinator \<Rightarrow> nat list \<Rightarrow> (coordinator \<times> nat list) option" where
  "fire_loop target open_rx c sent =
     (if arrival_due target c
      then case fire_one open_rx c of (c', r) \<Rightarrow> fire_loop target open_rx c' (sent @ (case r of None \<Rightarrow> [] | Some vu \<Rightarrow> [vu]))
      else Some (c, sent))"

text \<open>The main loop over the instants at which the coordinator wakes, with the idle reports it finds
  there; it ends at the end of the curve, or when it is cancelled (no more instants).\<close>

fun coordinate :: "arrival_curve \<Rightarrow> (nat \<Rightarrow> bool) \<Rightarrow> (duration \<times> nat list) list \<Rightarrow> coordinator \<Rightarrow> coordinator option" where
  "coordinate curve open_rx [] c = Some c"
| "coordinate curve open_rx ((elapsed, reports) # ticks) c =
     (let c = c\<lparr>co_idle := co_idle c @ reports\<rparr>;
          clamped = min elapsed (ac_total_duration curve);
          target = expected_arrivals curve clamped
      in case fire_loop target open_rx c [] of
           None \<Rightarrow> None
         | Some (c, sent) \<Rightarrow> if ac_total_duration curve \<le> elapsed then Some c else coordinate curve open_rx ticks c)"

section \<open>The arrival-rate executor\<close>

text \<open>A virtual user of the arrival-rate executor: not built yet, at its control, waiting for a dispatch, in
  an iteration, or stopped; the coordinator: collecting the first reports, pacing, or gone.\<close>

datatype arrival_vu = Unbuilt | Port | Waiting | InIteration | Gone

datatype coord_phase = Startup | Pacing | Exited

record arrival_sys =
  ar_vus :: "arrival_vu list"
  inbox :: "nat list"
  idle_chan :: "nat list"
  coord :: coordinator
  coord_at :: coord_phase
  ar_lanes :: lanes
  ar_lost :: nat
  ar_degraded :: u64

inductive arrival_step :: "arrival_sys \<Rightarrow> arrival_sys \<Rightarrow> bool" where
  built: "i < length (ar_vus s) \<Longrightarrow> ar_vus s ! i = Unbuilt \<Longrightarrow> arrival_step s (s\<lparr>ar_vus := (ar_vus s)[i := Port]\<rparr>)"
| build_fails: "i < length (ar_vus s) \<Longrightarrow> ar_vus s ! i = Unbuilt \<Longrightarrow>
     arrival_step s (s\<lparr>ar_vus := (ar_vus s)[i := Gone], ar_degraded := ar_degraded s + 1\<rparr>)"
| report_idle: "i < length (ar_vus s) \<Longrightarrow> ar_vus s ! i = Port \<Longrightarrow> coord_at s \<noteq> Exited \<Longrightarrow>
     arrival_step s (s\<lparr>ar_vus := (ar_vus s)[i := Waiting], idle_chan := idle_chan s @ [i]\<rparr>)"
| report_fails: "i < length (ar_vus s) \<Longrightarrow> ar_vus s ! i = Port \<Longrightarrow> coord_at s = Exited \<Longrightarrow>
     arrival_step s (s\<lparr>ar_vus := (ar_vus s)[i := Gone]\<rparr>)"
| run_next: "i < length (ar_vus s) \<Longrightarrow> ar_vus s ! i = Waiting \<Longrightarrow> inbox s ! i = Suc k \<Longrightarrow>
     arrival_step s (s\<lparr>ar_vus := (ar_vus s)[i := InIteration], inbox := (inbox s)[i := k]\<rparr>)"
| channel_closed: "i < length (ar_vus s) \<Longrightarrow> ar_vus s ! i = Waiting \<Longrightarrow> inbox s ! i = 0 \<Longrightarrow> coord_at s = Exited \<Longrightarrow>
     arrival_step s (s\<lparr>ar_vus := (ar_vus s)[i := Gone]\<rparr>)"
| iteration_ends: "i < length (ar_vus s) \<Longrightarrow> ar_vus s ! i = InIteration \<Longrightarrow>
     arrival_step s (s\<lparr>ar_vus := (ar_vus s)[i := Port], ar_lanes := tally_outcome (Some oc) (ar_lanes s)\<rparr>)"
| unwound: "i < length (ar_vus s) \<Longrightarrow> ar_vus s ! i = InIteration \<Longrightarrow>
     arrival_step s (s\<lparr>ar_vus := (ar_vus s)[i := Gone],
                       ar_lanes := (ar_lanes s)\<lparr>l_interrupted := l_interrupted (ar_lanes s) + 1\<rparr>\<rparr>)"
| panics: "i < length (ar_vus s) \<Longrightarrow> ar_vus s ! i = InIteration \<Longrightarrow>
     arrival_step s (s\<lparr>ar_vus := (ar_vus s)[i := Gone], ar_lost := Suc (ar_lost s), ar_degraded := ar_degraded s + 1\<rparr>)"
| collect: "coord_at s \<noteq> Exited \<Longrightarrow> idle_chan s = i # rest \<Longrightarrow>
     arrival_step s (s\<lparr>idle_chan := rest, coord := (coord s)\<lparr>co_idle := co_idle (coord s) @ [i]\<rparr>\<rparr>)"
| start_clock: "coord_at s = Startup \<Longrightarrow> co_idle (coord s) \<noteq> [] \<Longrightarrow> arrival_step s (s\<lparr>coord_at := Pacing\<rparr>)"
| arrival: "coord_at s = Pacing \<Longrightarrow> arrival_due target (coord s) \<Longrightarrow>
     fire_one (\<lambda>vu. ar_vus s ! vu \<noteq> Gone) (coord s) = (c, r) \<Longrightarrow>
     arrival_step s (s\<lparr>coord := c, inbox := (case r of None \<Rightarrow> inbox s | Some vu \<Rightarrow> (inbox s)[vu := Suc (inbox s ! vu)])\<rparr>)"
| coordinator_exits: "coord_at s = Pacing \<or> co_idle (coord s) = [] \<Longrightarrow>
     arrival_step s (s\<lparr>coord_at := Exited, idle_chan := [], coord := (coord s)\<lparr>co_idle := []\<rparr>\<rparr>)"

definition arrival_init :: "nat \<Rightarrow> arrival_sys" where
  "arrival_init n =
     \<lparr>ar_vus = replicate n Unbuilt, inbox = replicate n 0, idle_chan = [],
      coord = \<lparr>co_idle = [], co_dispatched = 0, co_dropped = 0\<rparr>, coord_at = Startup, ar_lanes = no_lanes, ar_lost = 0, ar_degraded = 0\<rparr>"

inductive arrival_reach :: "nat \<Rightarrow> arrival_sys \<Rightarrow> bool" for n where
  init: "arrival_reach n (arrival_init n)"
| step: "arrival_reach n s \<Longrightarrow> arrival_step s s' \<Longrightarrow> arrival_reach n s'"

definition arrival_summary :: "arrival_sys \<Rightarrow> duration \<Rightarrow> run_summary" where
  "arrival_summary s elapsed = summary_of (ar_lanes s) (co_dropped (coord s)) (ar_degraded s) elapsed"


section \<open>Placement\<close>

lemma my_ids_snoc: "my_ids n (Suc v) t = my_ids n v t @ (if v mod n = t then [v] else [])"
  by (simp add: my_ids_def)

lemma deal_receivers_append:
  "deal_receivers n (xs @ ys) p = deal_receivers n ys (deal_receivers n xs p)"
  by (induction n xs p rule: deal_receivers.induct) simp_all

lemma deal_receivers_my_ids:
  assumes "0 < n" shows "deal_receivers n [0..<v] (replicate n []) = map (my_ids n v) [0..<n]"
proof (induction v)
  case 0
  show ?case by (simp add: my_ids_def map_replicate_const)
next
  case (Suc v)
  have "v mod n < n" using assms by simp
  then have "(map (my_ids n v) [0..<n])[v mod n := my_ids n v (v mod n) @ [v]] = map (my_ids n (Suc v)) [0..<n]"
    by (intro nth_equalityI) (auto simp: my_ids_snoc nth_list_update)
  then show ?case using Suc \<open>v mod n < n\<close> by (simp add: deal_receivers_append)
qed

lemma filter_mod_partition:
  assumes "0 < n" shows "mset (concat (map (\<lambda>t. filter (\<lambda>vu. vu mod n = t) xs) [0..<n])) = mset (xs :: nat list)"
proof (induction xs)
  case (Cons x xs)
  have "x mod n < n" using assms by simp
  moreover have "mset (concat (map (\<lambda>t. filter (\<lambda>vu. vu mod n = t) (x # xs)) ts)) =
      (if x mod n \<in> set ts then {#x#} else {#}) + mset (concat (map (\<lambda>t. filter (\<lambda>vu. vu mod n = t) xs) ts))" if "distinct ts" for ts
    using that by (induction ts) auto
  ultimately show ?case using Cons by simp
qed simp

section \<open>Shared budget\<close>

lemma count_update:
  assumes "i < length xs"
  shows "count_list (xs[i := y]) z + (if xs ! i = z then 1 else 0) = count_list xs z + (if y = z then 1 else 0)"
  using assms
proof (induction xs arbitrary: i)
  case (Cons x xs)
  show ?case
  proof (cases i)
    case (Suc j)
    then show ?thesis using Cons.IH[of j] Cons.prems by auto
  qed auto
qed simp

lemma unat_plus1: "unat (w :: u64) < k \<Longrightarrow> k \<le> 2 ^ 64 - 1 \<Longrightarrow> unat (w + 1) = unat w + 1"
  by (simp add: unat_word_ariths)

definition lane_sum :: "lanes \<Rightarrow> nat" where
  "lane_sum l = unat (l_completed l) + unat (l_errored l) + unat (l_interrupted l)"

lemma lane_sum_tally:
  assumes "lane_sum l < 2 ^ 32"
  shows "lane_sum (tally_outcome (Some oc) l) = Suc (lane_sum l)" "lane_sum (l\<lparr>l_interrupted := l_interrupted l + 1\<rparr>) = Suc (lane_sum l)"
  using assms unat_plus1[of "l_completed l" "2 ^ 32"] unat_plus1[of "l_errored l" "2 ^ 32"] unat_plus1[of "l_interrupted l" "2 ^ 32"]
  by (cases oc; simp add: lane_sum_def tally_outcome_def)+

definition claim_inv :: "u32 \<Rightarrow> claim_sys \<Rightarrow> bool" where
  "claim_inv tot s \<longleftrightarrow> lane_sum (claim_lanes s) + count_list (claim_vus s) Running + claim_lost s + unat (remaining s) = unat tot"

lemma claim_step_inv:
  assumes "claim_step s s'" "claim_inv tot s" "\<forall>c. Read c \<in> set (claim_vus s) \<longrightarrow> 0 < c"
  shows "claim_inv tot s' \<and> (\<forall>c. Read c \<in> set (claim_vus s') \<longrightarrow> 0 < c)"
proof -
  have t: "unat tot < 2 ^ LENGTH(32)" by (rule unsigned_less)
  then have b: "lane_sum (claim_lanes s) < 2 ^ 32" using assms(2) by (simp add: claim_inv_def)
  have reads: "\<forall>c. Read c \<in> set ((claim_vus s)[i := x]) \<longrightarrow> 0 < c" if "\<And>c. x = Read c \<Longrightarrow> 0 < c" for i x
    using that assms(3) set_update_subset_insert[of "claim_vus s" i x] by blast
  from assms(1) show ?thesis
  proof cases
    case (vu_built i)
    then show ?thesis using assms(2) reads[of AtControl i] count_update[of i "claim_vus s" AtControl Running] by (simp add: claim_inv_def)
  next
    case (vu_build_fails i)
    then show ?thesis using assms(2) reads[of Stopped i] count_update[of i "claim_vus s" Stopped Running] by (simp add: claim_inv_def)
  next
    case (stops i)
    then show ?thesis using assms(2) reads[of Stopped i] count_update[of i "claim_vus s" Stopped Running] by (simp add: claim_inv_def)
  next
    case (goes_on i)
    then show ?thesis using assms(2) reads[of Claiming i] count_update[of i "claim_vus s" Claiming Running] by (simp add: claim_inv_def)
  next
    case (load i)
    then show ?thesis using assms(2) reads[of Stopped i] reads[of "Read (remaining s)" i] count_update[of i "claim_vus s" Stopped Running]
        count_update[of i "claim_vus s" "Read (remaining s)" Running] by (auto simp: claim_inv_def word_gt_0)
  next
    case (exchange i cur)
    have "0 < cur" using assms(3) exchange by (metis nth_mem)
    then have "unat (cur - 1) = unat cur - 1" "0 < unat cur" using unat_minus_one[of cur] by (auto simp: word_gt_0 unat_gt_0)
    then show ?thesis using assms(2) exchange reads[of Running i] count_update[of i "claim_vus s" Running Running] by (simp add: claim_inv_def)
  next
    case (exchange_fails i cur)
    then show ?thesis using assms(2) reads[of Claiming i] count_update[of i "claim_vus s" Claiming Running] by (simp add: claim_inv_def)
  next
    case (iteration_ends i oc)
    then show ?thesis using assms(2) reads[of AtControl i] lane_sum_tally(1)[OF b] count_update[of i "claim_vus s" AtControl Running]
      by (simp add: claim_inv_def)
  next
    case (unwound i)
    then show ?thesis using assms(2) reads[of Stopped i] lane_sum_tally(2)[OF b] count_update[of i "claim_vus s" Stopped Running]
      by (simp add: claim_inv_def)
  next
    case (panics i)
    then show ?thesis using assms(2) reads[of Stopped i] count_update[of i "claim_vus s" Stopped Running] by (simp add: claim_inv_def)
  qed
qed

lemma claim_reach_inv:
  assumes "claim_reach tot n s" shows "claim_inv tot s \<and> (\<forall>c. Read c \<in> set (claim_vus s) \<longrightarrow> 0 < c)"
  using assms
proof (induction rule: claim_reach.induct)
  case init
  show ?case by (auto simp: claim_inv_def no_lanes_def lane_sum_def count_list_0_iff)
qed (use claim_step_inv in blast)


section \<open>Arrival executor\<close>

definition occurrences :: "arrival_sys \<Rightarrow> nat \<Rightarrow> nat" where
  "occurrences s i = count_list (idle_chan s) i + count_list (co_idle (coord s)) i"

text \<open>Every virtual user has at most one place: a report, an idle entry or a dispatch only while it waits.\<close>

definition place_ok :: "arrival_sys \<Rightarrow> nat \<Rightarrow> bool" where
  "place_ok s i \<longleftrightarrow>
     (if i < length (ar_vus s) then occurrences s i + inbox s ! i \<le> (if ar_vus s ! i = Waiting then 1 else 0)
      else occurrences s i = 0)"

definition places_inv :: "arrival_sys \<Rightarrow> bool" where
  "places_inv s \<longleftrightarrow>
     length (inbox s) = length (ar_vus s) \<and> (\<forall>i. place_ok s i) \<and>
     (coord_at s = Exited \<longrightarrow> idle_chan s = [] \<and> co_idle (coord s) = [])"

definition lanes_inv :: "arrival_sys \<Rightarrow> bool" where
  "lanes_inv s \<longleftrightarrow>
     co_dispatched (coord s) =
       co_dropped (coord s) + of_nat (sum_list (inbox s)) + of_nat (count_list (ar_vus s) InIteration) +
       l_ran (ar_lanes s) + of_nat (ar_lost s)"

lemma count_list_snoc: "count_list (xs @ ys) z = count_list xs z + count_list ys z"
  by (induction xs) auto

lemma places_vu:
  assumes "places_inv s" "i < length (ar_vus s)" "ar_vus s ! i \<noteq> Waiting"
  shows "places_inv (s\<lparr>ar_vus := (ar_vus s)[i := x]\<rparr>)"
proof -
  have ok: "place_ok s j" for j using assms(1) by (simp add: places_inv_def)
  have "place_ok (s\<lparr>ar_vus := (ar_vus s)[i := x]\<rparr>) j" for j
    using ok[of j] ok[of i] assms(2,3) by (cases "j = i") (auto simp: place_ok_def occurrences_def split: if_splits)
  then show ?thesis using assms(1) by (simp add: places_inv_def)
qed

lemma places_irrelevant:
  "places_inv (s\<lparr>ar_lanes := l\<rparr>) = places_inv s" "places_inv (s\<lparr>ar_lost := k\<rparr>) = places_inv s" "places_inv (s\<lparr>ar_degraded := d\<rparr>) = places_inv s"
  by (simp_all add: places_inv_def place_ok_def occurrences_def)

lemma places_other:
  assumes "places_inv s" "i < length (ar_vus s)" "ar_vus s ! i \<noteq> Waiting"
  shows "places_inv (s\<lparr>ar_vus := (ar_vus s)[i := x], ar_lanes := l\<rparr>)" "places_inv (s\<lparr>ar_vus := (ar_vus s)[i := x], ar_degraded := d\<rparr>)"
    "places_inv (s\<lparr>ar_vus := (ar_vus s)[i := x], ar_lost := k, ar_degraded := d\<rparr>)"
  using places_vu[OF assms, of x] by (simp_all add: places_irrelevant)

lemma arrival_step_places:
  assumes "arrival_step s s'" "places_inv s" shows "places_inv s'"
proof -
  have ok: "place_ok s j" for j using assms(2) by (simp add: places_inv_def)
  have len: "length (inbox s) = length (ar_vus s)" and ex: "coord_at s = Exited \<Longrightarrow> idle_chan s = [] \<and> co_idle (coord s) = []"
    using assms(2) by (simp_all add: places_inv_def)
  from assms(1) show ?thesis
  proof cases
    case (report_idle i)
    have "place_ok s' j" for j
      using ok[of j] ok[of i] report_idle by (cases "j = i") (auto simp: place_ok_def occurrences_def count_list_snoc split: if_splits)
    then show ?thesis using len report_idle by (simp add: places_inv_def)
  next
    case (run_next i k)
    have "place_ok s' j" for j
      using ok[of j] ok[of i] run_next len by (cases "j = i") (auto simp: place_ok_def occurrences_def split: if_splits)
    then show ?thesis using len ex run_next by (simp add: places_inv_def)
  next
    case (channel_closed i)
    have "place_ok s' j" for j
      using ok[of j] ok[of i] channel_closed ex by (cases "j = i") (auto simp: place_ok_def occurrences_def split: if_splits)
    then show ?thesis using len ex channel_closed by (simp add: places_inv_def)
  next
    case (collect i rest)
    have "place_ok s' j" for j using ok[of j] collect by (cases "j = i") (auto simp: place_ok_def occurrences_def count_list_snoc split: if_splits)
    then show ?thesis using len ex collect by (simp add: places_inv_def)
  next
    case start_clock
    have "place_ok s' j" for j using ok[of j] start_clock by (auto simp: place_ok_def occurrences_def)
    then show ?thesis using len start_clock by (simp add: places_inv_def)
  next
    case (arrival target c r)
    show ?thesis
    proof (cases "co_idle (coord s)")
      case Nil
      then have "place_ok s' j" for j using ok[of j] arrival by (auto simp: place_ok_def occurrences_def fire_one_def Let_def)
      then show ?thesis using len arrival Nil by (auto simp: places_inv_def fire_one_def Let_def)
    next
      case (Cons vu rest)
      have w: "vu < length (ar_vus s)" "ar_vus s ! vu = Waiting" "inbox s ! vu = 0"
        using ok[of vu] Cons by (auto simp: place_ok_def occurrences_def split: if_splits)
      then have f: "c = (coord s)\<lparr>co_dispatched := co_dispatched (coord s) + 1, co_idle := rest\<rparr>" "r = Some vu"
        using arrival(4) by (auto simp: fire_one_def Let_def Cons)
      have "place_ok s' j" for j
        using ok[of j] ok[of vu] w len Cons by (cases "j = vu") (auto simp: arrival(1) f place_ok_def occurrences_def split: if_splits)
      then show ?thesis using len arrival f by (simp add: places_inv_def)
    qed
  next
    case coordinator_exits
    have "place_ok s' j" for j using ok[of j] coordinator_exits by (auto simp: place_ok_def occurrences_def split: if_splits)
    then show ?thesis using len coordinator_exits by (simp add: places_inv_def)
  qed (auto simp: assms(2) intro: places_vu places_other)
qed


lemma count_update_u64:
  assumes "i < length xs"
  shows "(of_nat (count_list (xs[i := y]) z) :: u64) = of_nat (count_list xs z) + (if y = z then 1 else 0) - (if xs ! i = z then 1 else 0)"
  using arg_cong[OF count_update[OF assms, of y z], of "of_nat :: nat \<Rightarrow> u64"] by (simp add: algebra_simps split: if_splits)

lemma sum_update_u64:
  "i < length xs \<Longrightarrow> (of_nat (sum_list (xs[i := y])) :: u64) = of_nat (sum_list xs) + of_nat y - of_nat (xs ! i)"
proof (induction xs arbitrary: i)
  case (Cons x xs)
  then show ?case by (cases i) (simp_all add: algebra_simps)
qed simp

lemma ran_tally: "l_ran (tally_outcome (Some oc) l) = l_ran l + 1" "l_ran (l\<lparr>l_interrupted := l_interrupted l + 1\<rparr>) = l_ran l + 1"
  "l_ran (l\<lparr>l_interrupted := 1 + l_interrupted l\<rparr>) = l_ran l + 1"
  by (cases oc; simp add: tally_outcome_def l_ran_def)+

lemma arrival_step_lanes:
  assumes "arrival_step s s'" "places_inv s" "lanes_inv s" shows "lanes_inv s'"
proof -
  have len: "length (inbox s) = length (ar_vus s)" and ok: "place_ok s j" for j using assms(2) by (simp_all add: places_inv_def)
  from assms(1) show ?thesis
  proof cases
    case (run_next i k)
    then show ?thesis using assms(3) len by (simp add: lanes_inv_def count_update_u64 sum_update_u64 algebra_simps)
  next
    case (arrival target c r)
    show ?thesis
    proof (cases "co_idle (coord s)")
      case Nil
      then show ?thesis using assms(3) arrival by (auto simp: lanes_inv_def fire_one_def Let_def algebra_simps)
    next
      case (Cons vu rest)
      have w: "vu < length (ar_vus s)" using ok[of vu] Cons by (auto simp: place_ok_def occurrences_def split: if_splits)
      then show ?thesis using assms(3) arrival Cons len
        by (auto simp: lanes_inv_def fire_one_def Let_def sum_update_u64 algebra_simps split: if_splits)
    qed
  qed (use assms(3) in \<open>auto simp: lanes_inv_def count_update_u64 ran_tally algebra_simps\<close>)
qed

lemma arrival_reach_inv: "arrival_reach n s \<Longrightarrow> places_inv s \<and> lanes_inv s \<and> length (ar_vus s) = n"
proof (induction rule: arrival_reach.induct)
  case init
  have "count_list (replicate n Unbuilt) InIteration = 0" by (induction n) auto
  then show ?case
    by (auto simp: sum_list_replicate arrival_init_def places_inv_def place_ok_def occurrences_def lanes_inv_def no_lanes_def l_ran_def)
next
  case (step s s')
  have "length (ar_vus s') = length (ar_vus s)" using step.hyps(2) by (induction rule: arrival_step.induct) auto
  then show ?case using step arrival_step_places arrival_step_lanes by simp
qed

section \<open>The catch-up loop\<close>

lemma due_iff:
  assumes "is_fin target" "f64_wf target" "uint (co_dispatched c) < 2 ^ 53"
  shows "arrival_due target c \<longleftrightarrow> uint (co_dispatched c) + 1 \<le> \<lfloor>fval target\<rfloor>"
proof -
  have d: "holds_int (f_of_u64 (co_dispatched c)) (uint (co_dispatched c))"
    using assms(3) holds_of_int[of "uint (co_dispatched c)"] by (simp add: f_of_u64_def)
  have o: "holds_int (flit 1) 1" using holds_of_int[of 1] by (simp add: flit_def f_of_int_def)
  have "holds_int (fadd (f_of_u64 (co_dispatched c)) (flit 1)) (uint (co_dispatched c) + 1)"
    using holds_add[OF d o] assms(3) by simp
  then show ?thesis using assms(1) by (simp add: arrival_due_def holds_int_def fle_fin le_floor_iff)
qed


lemma fire_one_dispatched: "co_dispatched (fst (fire_one open_rx c)) = co_dispatched c + 1"
  by (simp add: fire_one_def Let_def split: list.splits)

lemma fire_loop_returns:
  assumes "is_fin target" "f64_wf target" "fval target < 2 ^ 53" "uint (co_dispatched c) < 2 ^ 53"
  shows "\<exists>c' sent'. fire_loop target open_rx c sent = Some (c', sent') \<and>
    uint (co_dispatched c') = max (uint (co_dispatched c)) \<lfloor>fval target\<rfloor>"
  using assms(4)
proof (induction "nat (\<lfloor>fval target\<rfloor> - uint (co_dispatched c))" arbitrary: c sent rule: less_induct)
  case less
  note due = due_iff[OF assms(1,2) less.prems]
  have fl: "\<lfloor>fval target\<rfloor> < 2 ^ 53" using assms(3) by (simp add: floor_less_iff)
  show ?case
  proof (cases "arrival_due target c")
    case False
    then have "fire_loop target open_rx c sent = Some (c, sent)" by (simp add: fire_loop.simps)
    moreover have "max (uint (co_dispatched c)) \<lfloor>fval target\<rfloor> = uint (co_dispatched c)" using False due by simp
    ultimately show ?thesis by simp
  next
    case True
    obtain c' r where f: "fire_one open_rx c = (c', r)" by fastforce
    have "uint (co_dispatched c + 1) = uint (co_dispatched c) + 1" using less.prems by (simp add: uint_word_ariths)
    then have u: "uint (co_dispatched c') = uint (co_dispatched c) + 1" using fire_one_dispatched[of open_rx c] f by simp
    have lt: "uint (co_dispatched c) + 1 \<le> \<lfloor>fval target\<rfloor>" using True due by simp
    have "\<exists>c'' sent'. fire_loop target open_rx c' (sent @ (case r of None \<Rightarrow> [] | Some vu \<Rightarrow> [vu])) = Some (c'', sent') \<and>
      uint (co_dispatched c'') = max (uint (co_dispatched c')) \<lfloor>fval target\<rfloor>"
    proof (rule less.hyps)
      show "nat (\<lfloor>fval target\<rfloor> - uint (co_dispatched c')) < nat (\<lfloor>fval target\<rfloor> - uint (co_dispatched c))" using u lt by simp
      show "uint (co_dispatched c') < 2 ^ 53" using u lt fl by linarith
    qed
    then show ?thesis using True f u lt by (simp add: fire_loop.simps[of target open_rx c])
  qed
qed

text \<open>On a curve whose rate never falls no tick asks for more than the end of the curve does.\<close>

lemma coordinate_fires:
  assumes mono: "\<And>t. t \<le> ac_total_duration curve \<Longrightarrow> fmon 253 (expected_arrivals curve t) (expected_arrivals curve (ac_total_duration curve))"
    and "fval (expected_arrivals curve (ac_total_duration curve)) < 2 ^ 53"
    and "list_ex (\<lambda>(t, r). ac_total_duration curve \<le> t) ticks"
    and "uint (co_dispatched c) \<le> \<lfloor>fval (expected_arrivals curve (ac_total_duration curve))\<rfloor>"
  shows "\<exists>c'. coordinate curve open_rx ticks c = Some c' \<and>
    uint (co_dispatched c') = \<lfloor>fval (expected_arrivals curve (ac_total_duration curve))\<rfloor>"
  using assms(3,4)
proof (induction ticks arbitrary: c)
  case (Cons tick ticks)
  obtain t r where tick: "tick = (t, r)" by fastforce
  let ?tot = "ac_total_duration curve" and ?c = "c\<lparr>co_idle := co_idle c @ r\<rparr>"
  let ?E = "expected_arrivals curve (min t ?tot)" and ?F = "expected_arrivals curve ?tot"
  have m: "is_fin ?E" "f64_wf ?E" "fval ?E \<le> fval ?F" using mono[of "min t ?tot"] by (auto simp: fmon_def)
  have F: "\<lfloor>fval ?F\<rfloor> < 2 ^ 53" using assms(2) by (simp add: floor_less_iff)
  have "uint (co_dispatched c) < 2 ^ 53" using Cons.prems(2) F by linarith
  then have d: "uint (co_dispatched ?c) < 2 ^ 53" by simp
  have "fval ?E < 2 ^ 53" using m(3) assms(2) by linarith
  from fire_loop_returns[OF m(1,2) this d, of open_rx "[]"] obtain c' sent where
    f: "fire_loop ?E open_rx ?c [] = Some (c', sent)" and u: "uint (co_dispatched c') = max (uint (co_dispatched c)) \<lfloor>fval ?E\<rfloor>" by auto
  have le: "uint (co_dispatched c') \<le> \<lfloor>fval ?F\<rfloor>" using u Cons.prems(2) floor_mono[OF m(3)] by linarith
  show ?case
  proof (cases "?tot \<le> t")
    case True
    then have "min t ?tot = ?tot" by simp
    then show ?thesis using f u Cons.prems(2) True by (simp add: tick Let_def)
  next
    case False
    then have "list_ex (\<lambda>(t, r). ?tot \<le> t) ticks" using Cons.prems(1) by (simp add: tick)
    from Cons.IH[OF this le] show ?thesis using f False by (simp add: tick Let_def)
  qed
qed simp

section \<open>Properties\<close>

text \<open>Placement of virtual users.  With at least one core and one virtual user there is at least one
  loop thread and at most one per core and per virtual user; dealing the receivers out and filtering the
  ids give the same shards; and every virtual user is in exactly one shard.\<close>

lemma vu_placement:
  assumes "0 < num_vus" "0 < cores"
  defines "n \<equiv> loop_thread_count cores num_vus"
  shows "0 < n \<and> n \<le> cores \<and> n \<le> num_vus \<and>
    deal_receivers n [0..<num_vus] (replicate n []) = map (my_ids n num_vus) [0..<n] \<and>
    mset (concat (map (my_ids n num_vus) [0..<n])) = mset [0..<num_vus] \<and> distinct (concat (map (my_ids n num_vus) [0..<n]))"
proof -
  have n: "0 < n" "n \<le> cores" "n \<le> num_vus" using assms by (auto simp: loop_thread_count_def)
  have m: "mset (concat (map (my_ids n num_vus) [0..<n])) = mset [0..<num_vus]"
    using filter_mod_partition[OF n(1), of "[0..<num_vus]"] by (simp add: my_ids_def[abs_def])
  then have "distinct (concat (map (my_ids n num_vus) [0..<n]))" using mset_eq_imp_distinct_iff[OF m] by simp
  then show ?thesis using n m deal_receivers_my_ids[OF n(1)] by simp
qed


definition claim_example :: claim_sys where
  "claim_example = \<lparr>remaining = 0, claim_vus = [AtControl], claim_lanes = \<lparr>l_completed = 1, l_errored = 0, l_interrupted = 0\<rparr>,
     claim_lost = 0, claim_degraded = 0\<rparr>"

lemma claim_example_reached: "claim_reach 1 1 claim_example"
proof -
  define v where "v r x l = \<lparr>remaining = r, claim_vus = [x], claim_lanes = l, claim_lost = 0, claim_degraded = 0\<rparr>" for r x l
  have s0: "claim_reach 1 1 (v 1 NotBuilt no_lanes)" using claim_reach.init[of 1 1] by (simp add: v_def)
  have s1: "claim_step (v 1 NotBuilt no_lanes) (v 1 AtControl no_lanes)" using claim_step.vu_built[of 0 "v 1 NotBuilt no_lanes"] by (simp add: v_def)
  have s2: "claim_step (v 1 AtControl no_lanes) (v 1 Claiming no_lanes)" using claim_step.goes_on[of 0 "v 1 AtControl no_lanes"] by (simp add: v_def)
  have s3: "claim_step (v 1 Claiming no_lanes) (v 1 (Read 1) no_lanes)" using claim_step.load[of 0 "v 1 Claiming no_lanes"] by (simp add: v_def)
  have s4: "claim_step (v 1 (Read 1) no_lanes) (v 0 Running no_lanes)" using claim_step.exchange[of 0 "v 1 (Read 1) no_lanes" 1] by (simp add: v_def)
  have s5: "claim_step (v 0 Running no_lanes) claim_example"
    using claim_step.iteration_ends[of 0 "v 0 Running no_lanes" "Completed []"]
    by (simp add: v_def claim_example_def tally_outcome_def no_lanes_def)
  show ?thesis by (rule claim_reach.step[OF claim_reach.step[OF claim_reach.step[OF claim_reach.step[OF claim_reach.step[OF s0 s1] s2] s3] s4] s5])
qed



definition arrival_example :: arrival_sys where
  "arrival_example = (arrival_init 1)\<lparr>ar_vus := [InIteration], coord := \<lparr>co_idle = [], co_dispatched = 1, co_dropped = 0\<rparr>, coord_at := Pacing\<rparr>"

lemma arrival_example_reached: "arrival_reach 1 arrival_example"
proof -
  define v where "v x k ch q d p = (arrival_init 1)\<lparr>ar_vus := [x], inbox := [k], idle_chan := ch,
    coord := \<lparr>co_idle = q, co_dispatched = d, co_dropped = 0\<rparr>, coord_at := p\<rparr>" for x k ch q d p
  have due: "arrival_due (f_of_int 1) \<lparr>co_idle = [0], co_dispatched = 0, co_dropped = 0\<rparr>"
    unfolding arrival_due_def by code_simp
  note d = v_def arrival_init_def
  have s0: "arrival_reach 1 (v Unbuilt 0 [] [] 0 Startup)" using arrival_reach.init[of 1] by (simp add: d)
  have s1: "arrival_step (v Unbuilt 0 [] [] 0 Startup) (v Port 0 [] [] 0 Startup)"
    using arrival_step.built[of 0 "v Unbuilt 0 [] [] 0 Startup"] by (simp add: d)
  have s2: "arrival_step (v Port 0 [] [] 0 Startup) (v Waiting 0 [0] [] 0 Startup)"
    using arrival_step.report_idle[of 0 "v Port 0 [] [] 0 Startup"] by (simp add: d)
  have s3: "arrival_step (v Waiting 0 [0] [] 0 Startup) (v Waiting 0 [] [0] 0 Startup)"
    using arrival_step.collect[of "v Waiting 0 [0] [] 0 Startup" 0 "[]"] by (simp add: d)
  have s4: "arrival_step (v Waiting 0 [] [0] 0 Startup) (v Waiting 0 [] [0] 0 Pacing)"
    using arrival_step.start_clock[of "v Waiting 0 [] [0] 0 Startup"] by (simp add: d)
  have s5: "arrival_step (v Waiting 0 [] [0] 0 Pacing) (v Waiting 1 [] [] 1 Pacing)"
    using arrival_step.arrival[of "v Waiting 0 [] [0] 0 Pacing" "f_of_int 1" "\<lparr>co_idle = [], co_dispatched = 1, co_dropped = 0\<rparr>" "Some 0"] due
    by (simp add: d fire_one_def Let_def)
  have s6: "arrival_step (v Waiting 1 [] [] 1 Pacing) arrival_example"
    using arrival_step.run_next[of 0 "v Waiting 1 [] [] 1 Pacing" 0] by (simp add: d arrival_example_def)
  show ?thesis
    by (rule arrival_reach.step[OF arrival_reach.step[OF arrival_reach.step[OF arrival_reach.step[OF arrival_reach.step[OF arrival_reach.step[OF s0 s1] s2] s3] s4] s5] s6])
qed


text \<open>C25.  The catch-up loop.  For every finite target below \<open>2\<^sup>5\<^sup>3\<close> the loop of a tick ends, and the number of
  arrivals it has fired by then is the whole part of the target (or what it was, if that is more).\<close>

theorem catch_up_fires:
  assumes "is_fin target" "f64_wf target" "fval target < 2 ^ 53" "uint (co_dispatched c) < 2 ^ 53"
  shows "\<exists>c' sent. fire_loop target open_rx c [] = Some (c', sent) \<and>
    uint (co_dispatched c') = max (uint (co_dispatched c)) \<lfloor>fval target\<rfloor>"
  by (rule fire_loop_returns[OF assms])


theorem catch_up_fires_witness:
  "\<exists>c' sent. fire_loop (f_of_int 3) (\<lambda>_. True) \<lparr>co_idle = [4, 2], co_dispatched = 0, co_dropped = 0\<rparr> [] = Some (c', sent) \<and>
    uint (co_dispatched c') = 3"
  using catch_up_fires[of "f_of_int 3" "\<lparr>co_idle = [4, 2], co_dispatched = 0, co_dropped = 0\<rparr>" "\<lambda>_. True"] f_of_int_exact[of 3]
  by simp

text \<open>C6.  The coordinator follows its curve.  On an arrival curve whose rate never falls and that asks for
  fewer than \<open>2\<^sup>5\<^sup>3\<close> arrivals, a coordinator that runs to the end of the curve fires exactly the whole part of
  the expected number of arrivals at the end, whatever the instants at which it wakes, the idle reports
  it finds and the channels that are open.\<close>

theorem coordinator_fires_curve:
  assumes "arrival_new (f_of_u32 rate) stages time_unit = Some curve" "\<forall>st \<in> set stages. 0 \<le> st_duration st"
    and "sorted (rate # map st_target stages)" "length stages \<le> 2 ^ 53"
    and "ac_total_duration curve < secs_limit" "0 < time_unit" "time_unit < secs_limit"
    and "fval (expected_arrivals curve (ac_total_duration curve)) < 2 ^ 53"
    and "list_ex (\<lambda>(t, r). ac_total_duration curve \<le> t) ticks" "co_dispatched c = 0"
  shows "\<exists>c'. coordinate curve open_rx ticks c = Some c' \<and>
    uint (co_dispatched c') = \<lfloor>fval (expected_arrivals curve (ac_total_duration curve))\<rfloor>"
proof -
  have m: "fmon 253 (expected_arrivals curve t) (expected_arrivals curve (ac_total_duration curve))" if "t \<le> ac_total_duration curve" for t
    using expected_arrivals_fmon[OF assms(1-7) that] .
  have "0 \<le> fval (expected_arrivals curve (ac_total_duration curve))" using m[OF order_refl] by (simp add: fmon_def)
  then show ?thesis using assms(10) by (intro coordinate_fires[OF m assms(8,9)]) simp_all
qed


text \<open>The example curve, operation by operation.\<close>

lemma curve_seconds: "as_secs_f64 1000000000 = flit 1" "as_secs_f64 2000000000 = flit 2"
  by code_simp+

lemma curve_rates: "f_of_u32 0 = f0" "f_of_u32 10 = flit 10" "f_of_u32 20 = flit 20"
  by (simp_all add: f_of_u32_def f_of_int_def flit_def f0_def fround_def)

lemma curve_first_stage:
  "fmul f0 (flit 2) = f0" "fsub (flit 10) f0 = flit 10" "fmul (flit 10) (flit 2) = flit 20" "fmul (flit 20) (flit 2) = flit 40"
  "fmul (flit 2) (flit 2) = flit 4" "fdiv (flit 40) (flit 4) = flit 10" "fadd f0 (flit 10) = flit 10" "fle (flit 2) f0 = False"
  by code_simp+

lemma curve_second_stage:
  "fmul (flit 10) (flit 1) = flit 10" "fsub (flit 20) (flit 10) = flit 10" "fmul (flit 2) (flit 1) = flit 2"
  "fdiv (flit 10) (flit 2) = flit 5" "fadd (flit 10) (flit 5) = flit 15" "fadd (flit 10) (flit 15) = flit 25" "fdiv (flit 25) (flit 1) = flit 25"
  "fle (flit 1) f0 = False" "fval (flit 25) < 2 ^ 53"
  by code_simp+

lemma curve_example_total: "expected_arrivals curve_example (ac_total_duration curve_example) = flit 25"
proof -
  have "stage_area 3000000000 (0, 2000000000, f_of_u32 0, f_of_u32 10) = flit 10"
    by (simp add: stage_area_def curve_seconds curve_rates curve_first_stage)
  moreover have "stage_area 3000000000 (2000000000, 3000000000, f_of_u32 10, f_of_u32 20) = flit 15"
    by (simp add: stage_area_def curve_seconds curve_rates curve_second_stage)
  ultimately show ?thesis
    by (simp add: expected_arrivals_def curve_example_def curve_seconds curve_first_stage(7,8) curve_second_stage(6,7,8))
qed
theorem coordinator_fires_curve_witness:
  "\<exists>c'. coordinate curve_example (\<lambda>_. True) [(1000000000, [0]), (3000000000, [])] \<lparr>co_idle = [], co_dispatched = 0, co_dropped = 0\<rparr> = Some c' \<and>
    uint (co_dispatched c') = \<lfloor>fval (expected_arrivals curve_example (ac_total_duration curve_example))\<rfloor>"
proof (rule coordinator_fires_curve)
  let ?ss = "[\<lparr>st_duration = 2000000000, st_target = 10\<rparr>, \<lparr>st_duration = 1000000000, st_target = 20\<rparr>]"
  show "arrival_new (f_of_u32 0) ?ss 1000000000 = Some curve_example"
    by (simp add: arrival_new_def dur_add_def dur_max_def curve_example_def)
  show "fval (expected_arrivals curve_example (ac_total_duration curve_example)) < 2 ^ 53"
    unfolding curve_example_total by (rule curve_second_stage(9))
qed (simp_all add: curve_example_def secs_limit_def)

end
