(* ===== verification/Ramp.thy ===== *)
theory Ramp
  imports Pool
begin

text \<open>
  The threads around the executors of \<open>crates/k6-js/src/pool.rs\<close>: the controller of the ramping executor
  with the virtual users that watch its broadcast, and the two watchdogs that arm the hard stop.  A step
  relation interleaves them at the atomic operations, the operations of the watch channel and the reads
  of the cancellation tokens.  The results: the gauge of active virtual users is exact, a virtual user
  sleeps only while its index is not below the number last broadcast, after the stop the executor runs
  down in a bounded number of steps, and a watchdog fires only after the whole grace period.
\<close>

section \<open>The ramping executor\<close>

text \<open>A virtual user: not built yet, at the head of the loop of \<open>RampingControl::next\<close>, past its check of the
  stop token, asleep until the broadcast changes, in an iteration, or gone.\<close>

datatype ramp_vu = NotYet | LoopHead | PastStop | Asleep | Iterating | Left

text \<open>The controller: following the schedule, past its \<open>stop.cancel()\<close>, or returned (its sender dropped).\<close>

datatype ramp_controller = Following | Cancelled | Returned

record ramp_sys =
  ra_desired :: u32
  ra_version :: nat
  ra_last :: u32
  ra_stop :: bool
  ra_controller :: ramp_controller
  ra_vus :: "ramp_vu list"
  ra_seen :: "nat list"
  ra_active :: "bool list"
  ra_gauge :: u32
  ra_lanes :: lanes
  ra_lost :: nat
  ra_degraded :: u64

text \<open>The controller reads the clock once to see that the schedule is not over and again to ask for the number
  wanted, and broadcasts it only when it has changed.\<close>

definition broadcast :: "u32 \<Rightarrow> ramp_sys \<Rightarrow> ramp_sys" where
  "broadcast want s =
     (if want \<noteq> ra_last s then s\<lparr>ra_desired := want, ra_version := Suc (ra_version s), ra_last := want\<rparr> else s)"

text \<open>\<open>RampingControl::active\<close> for the virtual user \<open>i\<close>, and its \<open>drop\<close>.\<close>

definition set_active :: "nat \<Rightarrow> bool \<Rightarrow> ramp_sys \<Rightarrow> ramp_sys" where
  "set_active i active s =
     (case ramping_active active (ra_active s ! i) (ra_gauge s) of
        (flag, gauge) \<Rightarrow> s\<lparr>ra_active := (ra_active s)[i := flag], ra_gauge := gauge\<rparr>)"

definition move_to :: "nat \<Rightarrow> ramp_vu \<Rightarrow> ramp_sys \<Rightarrow> ramp_sys" where
  "move_to i v s = s\<lparr>ra_vus := (ra_vus s)[i := v]\<rparr>"

definition leave :: "nat \<Rightarrow> ramp_sys \<Rightarrow> ramp_sys" where
  "leave i s = set_active i False (move_to i Left s)"

text \<open>Reading the broadcast marks its version seen.\<close>

definition read_desired :: "nat \<Rightarrow> ramp_sys \<Rightarrow> ramp_sys" where
  "read_desired i s =
     (let s = s\<lparr>ra_seen := (ra_seen s)[i := ra_version s]\<rparr>
      in case ramping_control False (ra_desired s) (of_nat i) of
           Some b \<Rightarrow> move_to i Iterating (set_active i b s)
         | None \<Rightarrow> move_to i Asleep (set_active i False s))"

definition vu_at :: "nat \<Rightarrow> ramp_vu \<Rightarrow> ramp_sys \<Rightarrow> bool" where
  "vu_at i v s \<longleftrightarrow> i < length (ra_vus s) \<and> ra_vus s ! i = v"

inductive ramp_step :: "vu_ramp_schedule \<Rightarrow> ramp_sys \<Rightarrow> ramp_sys \<Rightarrow> bool" for sch where
  follow: "ra_controller s = Following \<Longrightarrow> elapsed < vr_total_duration sch \<Longrightarrow> elapsed \<le> t \<Longrightarrow>
     ramp_step sch s (broadcast (interpolate sch t) s)"
| controller_ends: "ra_controller s = Following \<Longrightarrow> ramp_step sch s (s\<lparr>ra_controller := Cancelled, ra_stop := True\<rparr>)"
| controller_returns: "ra_controller s = Cancelled \<Longrightarrow> ramp_step sch s (s\<lparr>ra_controller := Returned\<rparr>)"
| builds: "vu_at i NotYet s \<Longrightarrow> ramp_step sch s (move_to i LoopHead s)"
| build_panics: "vu_at i NotYet s \<Longrightarrow> ramp_step sch s (move_to i Left (s\<lparr>ra_degraded := ra_degraded s + 1\<rparr>))"
| sees_stop: "vu_at i LoopHead s \<Longrightarrow> ra_stop s \<Longrightarrow> ramp_step sch s (leave i s)"
| sees_no_stop: "vu_at i LoopHead s \<Longrightarrow> \<not> ra_stop s \<Longrightarrow> ramp_step sch s (move_to i PastStop s)"
| reads: "vu_at i PastStop s \<Longrightarrow> ramp_step sch s (read_desired i s)"
| wakes: "vu_at i Asleep s \<Longrightarrow> ra_seen s ! i < ra_version s \<or> ra_controller s = Returned \<Longrightarrow> ramp_step sch s (move_to i LoopHead s)"
| stops_asleep: "vu_at i Asleep s \<Longrightarrow> ra_stop s \<Longrightarrow> ramp_step sch s (leave i s)"
| finishes: "vu_at i Iterating s \<Longrightarrow>
     ramp_step sch s (move_to i LoopHead (s\<lparr>ra_lanes := tally_outcome (Some oc) (ra_lanes s)\<rparr>))"
| hard_stopped: "vu_at i Iterating s \<Longrightarrow>
     ramp_step sch s (leave i (s\<lparr>ra_lanes := (ra_lanes s)\<lparr>l_interrupted := l_interrupted (ra_lanes s) + 1\<rparr>\<rparr>))"
| panicked: "vu_at i Iterating s \<Longrightarrow>
     ramp_step sch s (leave i (s\<lparr>ra_lost := Suc (ra_lost s), ra_degraded := ra_degraded s + 1\<rparr>))"

definition ramp_init :: "nat \<Rightarrow> ramp_sys" where
  "ramp_init n =
     \<lparr>ra_desired = 0, ra_version = 0, ra_last = -1, ra_stop = False, ra_controller = Following, ra_vus = replicate n NotYet,
      ra_seen = replicate n 0, ra_active = replicate n False, ra_gauge = 0, ra_lanes = no_lanes, ra_lost = 0, ra_degraded = 0\<rparr>"

inductive ramp_reach :: "vu_ramp_schedule \<Rightarrow> nat \<Rightarrow> ramp_sys \<Rightarrow> bool" for sch n where
  init: "ramp_reach sch n (ramp_init n)"
| step: "ramp_reach sch n s \<Longrightarrow> ramp_step sch s s' \<Longrightarrow> ramp_reach sch n s'"

definition ramping_summary :: "ramp_sys \<Rightarrow> duration \<Rightarrow> run_summary" where
  "ramping_summary s elapsed = summary_of (ra_lanes s) 0 (ra_degraded s) elapsed"

section \<open>The watchdogs\<close>

text \<open>The thread of \<open>spawn_hard_stop_watchdog_at\<close>: waiting for the grace period to begin, checking that the
  run has not finished, waiting for the grace period to end, about to check once more, or returned (with
  or without cancelling the token).  Its environment may finish the run or cancel it at any time; when it
  was cancelled is recorded.\<close>

datatype watch_at = AwaitGrace | GraceBegins | AwaitHard duration | LastLook | Armed | Quit

record watchdog =
  wd_at :: watch_at
  wd_done :: bool
  wd_cancelled :: "duration option"
  wd_now :: duration
  wd_token :: bool

definition wd_goto :: "watch_at \<Rightarrow> watchdog \<Rightarrow> watchdog" where
  "wd_goto p w = w\<lparr>wd_at := p\<rparr>"

inductive watch_step :: "duration \<Rightarrow> duration \<Rightarrow> watchdog \<Rightarrow> watchdog \<Rightarrow> bool" for deadline graceful_stop where
  time_passes: "wd_now w \<le> t \<Longrightarrow> watch_step deadline graceful_stop w (w\<lparr>wd_now := t\<rparr>)"
| run_done: "watch_step deadline graceful_stop w (w\<lparr>wd_done := True\<rparr>)"
| run_cancelled: "watch_step deadline graceful_stop w (w\<lparr>wd_cancelled := (case wd_cancelled w of None \<Rightarrow> Some (wd_now w) | Some t \<Rightarrow> Some t)\<rparr>)"
| grace_begins: "wd_at w = AwaitGrace \<Longrightarrow> wd_done w \<or> wd_cancelled w \<noteq> None \<or> deadline \<le> wd_now w \<Longrightarrow>
     watch_step deadline graceful_stop w (wd_goto GraceBegins w)"
| done_early: "wd_at w = GraceBegins \<Longrightarrow> wd_done w \<Longrightarrow> watch_step deadline graceful_stop w (wd_goto Quit w)"
| grace_runs: "wd_at w = GraceBegins \<Longrightarrow> \<not> wd_done w \<Longrightarrow>
     watch_step deadline graceful_stop w (wd_goto (AwaitHard (wd_now w + graceful_stop)) w)"
| grace_over: "wd_at w = AwaitHard hard_at \<Longrightarrow> wd_done w \<or> hard_at \<le> wd_now w \<Longrightarrow>
     watch_step deadline graceful_stop w (wd_goto LastLook w)"
| done_in_time: "wd_at w = LastLook \<Longrightarrow> wd_done w \<Longrightarrow> watch_step deadline graceful_stop w (wd_goto Quit w)"
| arms: "wd_at w = LastLook \<Longrightarrow> \<not> wd_done w \<Longrightarrow>
     watch_step deadline graceful_stop w (wd_goto Armed w\<lparr>wd_token := True\<rparr>)"

definition watch_init :: "duration \<Rightarrow> watchdog" where
  "watch_init now = \<lparr>wd_at = AwaitGrace, wd_done = False, wd_cancelled = None, wd_now = now, wd_token = False\<rparr>"

inductive watch_reach :: "duration \<Rightarrow> duration \<Rightarrow> duration \<Rightarrow> watchdog \<Rightarrow> bool" for deadline graceful_stop now where
  init: "watch_reach deadline graceful_stop now (watch_init now)"
| step: "watch_reach deadline graceful_stop now w \<Longrightarrow> watch_step deadline graceful_stop w w' \<Longrightarrow> watch_reach deadline graceful_stop now w'"

text \<open>The watchdog of the arrival-rate executor starts its grace period at once; what it reads at each turn
  is whether the run has finished and the time.\<close>

fun arrival_watchdog :: "duration \<Rightarrow> (bool \<times> duration) list \<Rightarrow> bool option" where
  "arrival_watchdog hard_at [] = None"
| "arrival_watchdog hard_at ((finished, now) # turns) =
     (if finished then Some False else if hard_at \<le> now then Some True else arrival_watchdog hard_at turns)"

definition spawn_hard_stop_watchdog :: "duration \<Rightarrow> duration \<Rightarrow> (bool \<times> duration) list \<Rightarrow> bool option" where
  "spawn_hard_stop_watchdog graceful_stop spawned turns = arrival_watchdog (spawned + graceful_stop) turns"

section \<open>Invariant\<close>

definition ramp_inv :: "ramp_sys \<Rightarrow> bool" where
  "ramp_inv s \<longleftrightarrow>
     length (ra_seen s) = length (ra_vus s) \<and> length (ra_active s) = length (ra_vus s) \<and>
     ra_gauge s = of_nat (count_list (ra_active s) True) \<and>
     (ra_desired s = ra_last s \<or> ra_last s = -1 \<and> ra_desired s = 0) \<and>
     (ra_stop s \<longleftrightarrow> ra_controller s \<noteq> Following)"

text \<open>What holds of the virtual user \<open>i\<close>, whose control last saw the version \<open>sn\<close> and is flagged active when \<open>on\<close>.\<close>

fun ramp_vu_ok :: "u32 \<Rightarrow> nat \<Rightarrow> nat \<Rightarrow> ramp_vu \<Rightarrow> nat \<Rightarrow> bool \<Rightarrow> bool" where
  "ramp_vu_ok desired version i v sn on =
     (sn \<le> version \<and>
      (case v of
         Iterating \<Rightarrow> on \<and> (sn = version \<longrightarrow> of_nat i < desired)
       | Asleep \<Rightarrow> \<not> on \<and> (sn = version \<longrightarrow> desired \<le> of_nat i)
       | LoopHead \<Rightarrow> True | PastStop \<Rightarrow> True
       | NotYet \<Rightarrow> \<not> on | Left \<Rightarrow> \<not> on))"

definition ramp_vus_ok :: "ramp_sys \<Rightarrow> bool" where
  "ramp_vus_ok s \<longleftrightarrow>
     (\<forall>i < length (ra_vus s). ramp_vu_ok (ra_desired s) (ra_version s) i (ra_vus s ! i) (ra_seen s ! i) (ra_active s ! i))"

lemma ramp_inv_fields:
  assumes "ramp_inv s"
  shows "ramp_inv (move_to i v s)" "i < length (ra_vus s) \<Longrightarrow> ramp_inv (set_active i b s)"
    "ramp_inv (s\<lparr>ra_lanes := l\<rparr>)" "ramp_inv (s\<lparr>ra_lost := k\<rparr>)" "ramp_inv (s\<lparr>ra_degraded := d\<rparr>)" "ramp_inv (s\<lparr>ra_seen := (ra_seen s)[i := m]\<rparr>)"
    "ramp_inv (broadcast want s)"
proof -
  show "ramp_inv (set_active i b s)" if "i < length (ra_vus s)"
  proof -
    have "i < length (ra_active s)" using that assms by (simp add: ramp_inv_def)
    from count_update[OF this, of b True] have
      "int (count_list ((ra_active s)[i := b]) True) = int (count_list (ra_active s) True) + (if b then 1 else 0) - (if ra_active s ! i then 1 else 0)"
      by (auto split: if_splits)
    then have "(of_nat (count_list ((ra_active s)[i := b]) True) :: u32) =
        of_int (int (count_list (ra_active s) True) + (if b then 1 else 0) - (if ra_active s ! i then 1 else 0))"
      by (metis of_int_of_nat_eq)
    then show ?thesis using assms by (auto simp: ramp_inv_def set_active_def ramping_active_def)
  qed
qed (use assms in \<open>simp_all add: ramp_inv_def move_to_def broadcast_def\<close>)

lemma ramp_vus_okI:
  assumes "ramp_vus_ok s" "ramp_inv s" "i < length (ra_vus s)"
    and "ra_vus s' = (ra_vus s)[i := v]" "ra_seen s' = (ra_seen s)[i := m]" "ra_active s' = (ra_active s)[i := b]"
    and "ra_desired s' = ra_desired s" "ra_version s' = ra_version s"
    and "ramp_vu_ok (ra_desired s) (ra_version s) i v m b"
  shows "ramp_vus_ok s'"
  using assms by (auto simp: ramp_vus_ok_def ramp_inv_def nth_list_update simp del: ramp_vu_ok.simps)

lemma set_active_fields [simp]:
  "ra_vus (set_active i b s) = ra_vus s" "ra_seen (set_active i b s) = ra_seen s" "ra_active (set_active i b s) = (ra_active s)[i := b]"
  "ra_desired (set_active i b s) = ra_desired s" "ra_version (set_active i b s) = ra_version s"
  "ra_stop (set_active i b s) = ra_stop s" "ra_controller (set_active i b s) = ra_controller s"
  by (simp_all add: set_active_def ramping_active_def)

lemma move_to_fields [simp]:
  "ra_vus (move_to i v s) = (ra_vus s)[i := v]" "ra_seen (move_to i v s) = ra_seen s" "ra_active (move_to i v s) = ra_active s"
  "ra_desired (move_to i v s) = ra_desired s" "ra_version (move_to i v s) = ra_version s"
  "ra_stop (move_to i v s) = ra_stop s" "ra_controller (move_to i v s) = ra_controller s"
  by (simp_all add: move_to_def)

lemma broadcast_vus_ok: "ramp_vus_ok s \<Longrightarrow> ramp_vus_ok (broadcast want s)"
  by (auto simp: ramp_vus_ok_def broadcast_def split: ramp_vu.splits)

lemma leave_ok:
  assumes "ramp_inv s" "ramp_vus_ok s" "i < length (ra_vus s)"
  shows "ramp_inv (leave i s) \<and> ramp_vus_ok (leave i s)"
proof
  show "ramp_inv (leave i s)" using ramp_inv_fields(1,2) assms by (simp add: leave_def)
  have "ra_seen s ! i \<le> ra_version s" using assms by (simp add: ramp_vus_ok_def)
  then show "ramp_vus_ok (leave i s)"
    by (intro ramp_vus_okI[OF assms(2,1,3), of _ Left "ra_seen s ! i" False]) (simp_all add: leave_def)
qed

lemma move_ok:
  assumes "ramp_inv s" "ramp_vus_ok s" "vu_at i v s" "ramp_vu_ok (ra_desired s) (ra_version s) i v' (ra_seen s ! i) (ra_active s ! i)"
  shows "ramp_inv (move_to i v' s) \<and> ramp_vus_ok (move_to i v' s)"
  using ramp_inv_fields(1)[OF assms(1)] assms
  by (auto simp: vu_at_def intro!: ramp_vus_okI[OF assms(2,1), of i "move_to i v' s" v' "ra_seen s ! i" "ra_active s ! i"] simp del: ramp_vu_ok.simps)

lemma read_desired_ok:
  assumes "ramp_inv s" "ramp_vus_ok s" "i < length (ra_vus s)"
  shows "ramp_inv (read_desired i s) \<and> ramp_vus_ok (read_desired i s)"
proof -
  let ?b = "(of_nat i :: u32) < ra_desired s"
  have idx: "(ucast (of_nat i :: u64) :: u32) = of_nat i" by (simp add: unsigned_of_nat word_of_nat_eq_iff min_def)
  have "read_desired i s = move_to i (if ?b then Iterating else Asleep) (set_active i ?b (s\<lparr>ra_seen := (ra_seen s)[i := ra_version s]\<rparr>))"
    by (simp add: read_desired_def ramping_control_def idx)
  then show ?thesis
    using ramp_inv_fields(6)[OF assms(1), of i "ra_version s"] assms(3)
    by (auto intro!: ramp_inv_fields ramp_vus_okI[OF assms(2,1,3), of _ "if ?b then Iterating else Asleep" "ra_version s" ?b])
qed

lemma ramp_step_ok:
  assumes "ramp_step sch s s'" "ramp_inv s" "ramp_vus_ok s"
  shows "ramp_inv s' \<and> ramp_vus_ok s'"
  using assms(1)
proof cases
  case (follow elapsed t)
  then show ?thesis using ramp_inv_fields(7)[OF assms(2)] broadcast_vus_ok[OF assms(3)] by simp
next
  case (builds i)
  then show ?thesis using move_ok[OF assms(2,3), of i NotYet LoopHead] assms(3) by (auto simp: vu_at_def ramp_vus_ok_def)
next
  case (build_panics i)
  have "ramp_inv (move_to i Left s) \<and> ramp_vus_ok (move_to i Left s)"
    using move_ok[OF assms(2,3) build_panics(2), of Left] build_panics(2) assms(3) by (auto simp: vu_at_def ramp_vus_ok_def)
  then show ?thesis using build_panics(1) by (simp add: ramp_inv_def ramp_vus_ok_def move_to_def)
next
  case (sees_stop i)
  then show ?thesis using leave_ok[OF assms(2,3)] by (simp add: vu_at_def)
next
  case (sees_no_stop i)
  then show ?thesis using move_ok[OF assms(2,3), of i LoopHead PastStop] assms(3) by (auto simp: vu_at_def ramp_vus_ok_def)
next
  case (reads i)
  then show ?thesis using read_desired_ok[OF assms(2,3)] by (simp add: vu_at_def)
next
  case (wakes i)
  then show ?thesis using move_ok[OF assms(2,3), of i Asleep LoopHead] assms(3) by (auto simp: vu_at_def ramp_vus_ok_def)
next
  case (stops_asleep i)
  then show ?thesis using leave_ok[OF assms(2,3)] by (simp add: vu_at_def)
next
  case (finishes i oc)
  have "ramp_inv (move_to i LoopHead s) \<and> ramp_vus_ok (move_to i LoopHead s)"
    using move_ok[OF assms(2,3) finishes(2), of LoopHead] finishes(2) assms(3) by (auto simp: vu_at_def ramp_vus_ok_def)
  then show ?thesis using finishes(1) by (simp add: ramp_inv_def ramp_vus_ok_def move_to_def)
next
  case (hard_stopped i)
  let ?s = "s\<lparr>ra_lanes := (ra_lanes s)\<lparr>l_interrupted := l_interrupted (ra_lanes s) + 1\<rparr>\<rparr>"
  have "ramp_inv ?s" "ramp_vus_ok ?s" using assms(2,3) by (simp_all add: ramp_inv_def ramp_vus_ok_def)
  then show ?thesis using hard_stopped leave_ok[of ?s i] by (simp add: vu_at_def)
next
  case (panicked i)
  let ?s = "s\<lparr>ra_lost := Suc (ra_lost s), ra_degraded := ra_degraded s + 1\<rparr>"
  have "ramp_inv ?s" "ramp_vus_ok ?s" using assms(2,3) by (simp_all add: ramp_inv_def ramp_vus_ok_def)
  then show ?thesis using panicked leave_ok[of ?s i] by (simp add: vu_at_def)
qed (use assms in \<open>auto simp: ramp_inv_def ramp_vus_ok_def\<close>)

lemma ramp_reach_ok:
  assumes "ramp_reach sch n s" shows "ramp_inv s \<and> ramp_vus_ok s \<and> length (ra_vus s) = n"
  using assms
proof (induction rule: ramp_reach.induct)
  case init
  show ?case by (auto simp: ramp_init_def ramp_inv_def ramp_vus_ok_def count_list_0_iff)
next
  case (step s s')
  moreover have "length (ra_vus s') = length (ra_vus s)"
    using step(2) by cases (simp_all add: broadcast_def leave_def read_desired_def Let_def split: option.splits)
  ultimately show ?case using ramp_step_ok by metis
qed

section \<open>Running down\<close>

text \<open>After the stop every step of the executor lowers this number.\<close>

fun vu_rank :: "ramp_vu \<Rightarrow> nat" where
  "vu_rank Left = 0"
| "vu_rank LoopHead = 1"
| "vu_rank NotYet = 2"
| "vu_rank Asleep = 2"
| "vu_rank Iterating = 2"
| "vu_rank PastStop = 3"

definition ramp_work :: "ramp_sys \<Rightarrow> nat" where
  "ramp_work s = sum_list (map vu_rank (ra_vus s)) + (if ra_controller s = Cancelled then 1 else 0)"

lemma rank_update:
  assumes "vu_at i v s" "vu_rank v' < vu_rank v"
  shows "sum_list (map vu_rank ((ra_vus s)[i := v'])) < sum_list (map vu_rank (ra_vus s))"
proof -
  let ?r = "map vu_rank (ra_vus s)"
  have i: "i < length ?r" "?r ! i = vu_rank v" using assms(1) by (simp_all add: vu_at_def)
  then have "sum_list (?r[i := vu_rank v']) < sum_list ?r"
    using Groups_List.sum_list_update[OF i(1), of "vu_rank v'"] elem_le_sum_list[OF i(1)] assms(2) by linarith
  then show ?thesis by (simp add: map_update)
qed

lemma ramp_step_work:
  assumes "ramp_step sch s s'" "ra_stop s" "ra_controller s \<noteq> Following"
  shows "ramp_work s' < ramp_work s"
  using assms(1)
proof cases
  case (reads i)
  then show ?thesis using rank_update[OF reads(2), of Iterating] rank_update[OF reads(2), of Asleep]
    by (auto simp: ramp_work_def read_desired_def Let_def split: option.splits)
next
  case (build_panics i)
  then show ?thesis using rank_update[OF build_panics(2), of Left] by (simp add: ramp_work_def move_to_def)
next
  case (builds i)
  then show ?thesis using rank_update[OF builds(2), of LoopHead] by (simp add: ramp_work_def)
next
  case (finishes i oc)
  then show ?thesis using rank_update[OF finishes(2), of LoopHead] by (simp add: ramp_work_def move_to_def)
next
  case (wakes i)
  then show ?thesis using rank_update[OF wakes(2), of LoopHead] by (simp add: ramp_work_def)
qed (use assms rank_update[of _ _ s Left] in \<open>fastforce simp: ramp_work_def leave_def\<close>)+

lemma ramp_progress:
  assumes "ra_stop s" "i < length (ra_vus s)" "ra_vus s ! i \<noteq> Left" shows "\<exists>s'. ramp_step sch s s'"
proof (cases "ra_vus s ! i")
  case NotYet
  then show ?thesis using assms ramp_step.builds[of i s] by (auto simp: vu_at_def)
next
  case LoopHead
  then show ?thesis using assms ramp_step.sees_stop[of i s] by (auto simp: vu_at_def)
next
  case PastStop
  then show ?thesis using assms ramp_step.reads[of i s] by (auto simp: vu_at_def)
next
  case Asleep
  then show ?thesis using assms ramp_step.stops_asleep[of i s] by (auto simp: vu_at_def)
next
  case Iterating
  then show ?thesis using assms ramp_step.finishes[of i s] by (auto simp: vu_at_def)
qed (use assms in simp)

section \<open>Grace periods\<close>

text \<open>The grace period has begun by \<open>b\<close>: the run was cancelled or its deadline reached by then.\<close>

definition grace_by :: "duration \<Rightarrow> watchdog \<Rightarrow> duration \<Rightarrow> bool" where
  "grace_by deadline w b \<longleftrightarrow> b \<le> wd_now w \<and> (deadline \<le> b \<or> (\<exists>t. wd_cancelled w = Some t \<and> t \<le> b))"

definition watch_inv :: "duration \<Rightarrow> duration \<Rightarrow> watchdog \<Rightarrow> bool" where
  "watch_inv deadline graceful_stop w \<longleftrightarrow>
     (\<forall>t. wd_cancelled w = Some t \<longrightarrow> t \<le> wd_now w) \<and>
     (wd_token w \<longleftrightarrow> wd_at w = Armed) \<and>
     (case wd_at w of
        AwaitGrace \<Rightarrow> True
      | GraceBegins \<Rightarrow> wd_done w \<or> grace_by deadline w (wd_now w)
      | AwaitHard hard_at \<Rightarrow> \<exists>b. grace_by deadline w b \<and> hard_at = b + graceful_stop
      | LastLook \<Rightarrow> wd_done w \<or> (\<exists>b. grace_by deadline w b \<and> b + graceful_stop \<le> wd_now w)
      | Armed \<Rightarrow> \<exists>b. grace_by deadline w b \<and> b + graceful_stop \<le> wd_now w
      | Quit \<Rightarrow> wd_done w)"

lemma grace_by_mono:
  "grace_by deadline w b \<Longrightarrow> wd_now w \<le> wd_now w' \<Longrightarrow> (\<And>t. wd_cancelled w = Some t \<Longrightarrow> wd_cancelled w' = Some t) \<Longrightarrow> grace_by deadline w' b"
  by (auto simp: grace_by_def)

lemma watch_step_inv:
  assumes "watch_step deadline graceful_stop w w'" "watch_inv deadline graceful_stop w"
  shows "watch_inv deadline graceful_stop w'"
  using assms(1)
proof cases
  case (time_passes t)
  then have "grace_by deadline w b \<Longrightarrow> grace_by deadline w' b" for b by (auto intro: grace_by_mono)
  moreover have "grace_by deadline w (wd_now w) \<Longrightarrow> grace_by deadline w' (wd_now w')" using time_passes by (auto simp: grace_by_def)
  ultimately show ?thesis using time_passes assms(2) by (auto simp: watch_inv_def split: watch_at.splits option.splits intro: order_trans)
next
  case run_done
  then have "grace_by deadline w b \<Longrightarrow> grace_by deadline w' b" for b by (auto intro: grace_by_mono)
  then show ?thesis using run_done assms(2) by (auto simp: watch_inv_def split: watch_at.splits option.splits)
next
  case run_cancelled
  then have "grace_by deadline w b \<Longrightarrow> grace_by deadline w' b" for b by (auto intro: grace_by_mono)
  then show ?thesis using run_cancelled assms(2) by (auto simp: watch_inv_def split: watch_at.splits option.splits)
next
  case grace_begins
  then show ?thesis using assms(2) by (auto simp: watch_inv_def grace_by_def wd_goto_def split: option.splits)
qed (use assms(2) in \<open>auto simp: watch_inv_def grace_by_def wd_goto_def\<close>)

lemma watch_reach_inv: "watch_reach deadline graceful_stop now w \<Longrightarrow> watch_inv deadline graceful_stop w"
  by (induction rule: watch_reach.induct) (use watch_step_inv in \<open>auto simp: watch_inv_def watch_init_def\<close>)

text \<open>The hard stop is armed only after a whole grace period since the deadline or the cancellation, and the
  watchdog returns without arming it only when the run has finished.\<close>

lemma watchdog_grace:
  assumes "watch_reach deadline graceful_stop now w"
  shows "(wd_token w \<longrightarrow> (\<exists>b. (deadline \<le> b \<or> (\<exists>t. wd_cancelled w = Some t \<and> t \<le> b)) \<and> b + graceful_stop \<le> wd_now w)) \<and>
    (wd_at w = Quit \<longrightarrow> wd_done w \<and> \<not> wd_token w)"
proof -
  have i: "watch_inv deadline graceful_stop w" by (rule watch_reach_inv[OF assms])
  have "\<exists>b. grace_by deadline w b \<and> b + graceful_stop \<le> wd_now w" if "wd_token w" using i that by (auto simp: watch_inv_def)
  moreover have "wd_done w \<and> \<not> wd_token w" if "wd_at w = Quit" using i that by (auto simp: watch_inv_def)
  ultimately show ?thesis by (meson grace_by_def)
qed

text \<open>A watchdog never waits for more than time: once the deadline and the grace period are over it goes on to
  the end, and arms the hard stop unless the run has finished.\<close>

lemma watchdog_arms:
  assumes "wd_at w = AwaitGrace" "deadline \<le> wd_now w" "\<not> wd_done w" "wd_now w + graceful_stop \<le> t" "0 \<le> graceful_stop"
  shows "\<exists>w'. (watch_step deadline graceful_stop)\<^sup>*\<^sup>* w w' \<and> wd_token w' \<and> wd_now w' = t"
proof -
  let ?R = "watch_step deadline graceful_stop"
  have s1: "?R w (wd_goto GraceBegins w)" using assms by (intro watch_step.grace_begins) auto
  have s2: "?R (wd_goto GraceBegins w) (w\<lparr>wd_at := AwaitHard (wd_now w + graceful_stop)\<rparr>)"
    using watch_step.grace_runs[of "wd_goto GraceBegins w" deadline graceful_stop] assms by (simp add: wd_goto_def)
  have s3: "?R (w\<lparr>wd_at := AwaitHard (wd_now w + graceful_stop)\<rparr>) (w\<lparr>wd_at := AwaitHard (wd_now w + graceful_stop), wd_now := t\<rparr>)"
    using watch_step.time_passes[of "w\<lparr>wd_at := AwaitHard (wd_now w + graceful_stop)\<rparr>" t deadline graceful_stop] assms by simp
  have s4: "?R (w\<lparr>wd_at := AwaitHard (wd_now w + graceful_stop), wd_now := t\<rparr>) (w\<lparr>wd_at := LastLook, wd_now := t\<rparr>)"
    using watch_step.grace_over[of "w\<lparr>wd_at := AwaitHard (wd_now w + graceful_stop), wd_now := t\<rparr>" "wd_now w + graceful_stop" deadline graceful_stop] assms
    by (cases w) (simp add: wd_goto_def)
  have s5: "?R (w\<lparr>wd_at := LastLook, wd_now := t\<rparr>) (w\<lparr>wd_at := Armed, wd_now := t, wd_token := True\<rparr>)"
    using watch_step.arms[of "w\<lparr>wd_at := LastLook, wd_now := t\<rparr>" deadline graceful_stop] assms by (cases w) (simp add: wd_goto_def)
  have "?R\<^sup>*\<^sup>* w (w\<lparr>wd_at := Armed, wd_now := t, wd_token := True\<rparr>)"
    by (rule converse_rtranclp_into_rtranclp[OF s1 converse_rtranclp_into_rtranclp[OF s2 converse_rtranclp_into_rtranclp[OF s3
          converse_rtranclp_into_rtranclp[where r = ?R, OF s4 r_into_rtranclp[where r = ?R, OF s5]]]]])
  then show ?thesis by force
qed

text \<open>The watchdog of the arrival-rate executor cancels at the first turn at or after the end of the grace period,
  unless the run has finished by then.\<close>

lemma arrival_watchdog_spec:
  "arrival_watchdog hard_at turns =
     (case dropWhile (\<lambda>(finished, t). \<not> finished \<and> t < hard_at) turns of [] \<Rightarrow> None | (finished, _) # _ \<Rightarrow> Some (\<not> finished))"
  by (induction hard_at turns rule: arrival_watchdog.induct) auto

section \<open>Properties\<close>

text \<open>C11.  The ramping executor follows its broadcast.  In every interleaving of the controller and the virtual
  users the gauge of active virtual users is the number of those flagged active, which includes every one
  in an iteration; a virtual user is asleep only when it has yet to look at a newer broadcast or its
  index is not below the number broadcast last, so no broadcast is missed; one in an iteration that has
  seen the last broadcast has an index below it; and the number broadcast last is the one the controller
  read from the schedule last (none yet, or the sentinel, while it is zero).\<close>

theorem ramping_follows:
  assumes "ramp_reach sch n s"
  shows "ra_gauge s = of_nat (count_list (ra_active s) True) \<and>
    (\<forall>i < n. ra_vus s ! i = Asleep \<longrightarrow> \<not> ra_active s ! i \<and> (ra_seen s ! i < ra_version s \<or> ra_desired s \<le> of_nat i)) \<and>
    (\<forall>i < n. ra_vus s ! i = Iterating \<longrightarrow> ra_active s ! i \<and> (ra_seen s ! i < ra_version s \<or> of_nat i < ra_desired s)) \<and>
    (ra_desired s = ra_last s \<or> ra_last s = -1 \<and> ra_desired s = 0)"
proof -
  have inv: "ramp_inv s" "ramp_vus_ok s" "length (ra_vus s) = n" using ramp_reach_ok[OF assms] by auto
  have vu: "ramp_vu_ok (ra_desired s) (ra_version s) i (ra_vus s ! i) (ra_seen s ! i) (ra_active s ! i)" if "i < n" for i
    using inv(2,3) that by (simp add: ramp_vus_ok_def)
  have "\<not> ra_active s ! i \<and> (ra_seen s ! i < ra_version s \<or> ra_desired s \<le> of_nat i)" if "i < n" "ra_vus s ! i = Asleep" for i
    using vu[OF that(1)] that(2) by auto
  moreover have "ra_active s ! i \<and> (ra_seen s ! i < ra_version s \<or> of_nat i < ra_desired s)" if "i < n" "ra_vus s ! i = Iterating" for i
    using vu[OF that(1)] that(2) by auto
  ultimately show ?thesis using inv(1) by (simp add: ramp_inv_def)
qed

definition ramp_now :: ramp_sys where
  "ramp_now = (ramp_init 1)\<lparr>ra_desired := 5, ra_version := 1, ra_last := 5, ra_vus := [Iterating], ra_seen := [1], ra_active := [True], ra_gauge := 1\<rparr>"

lemma ramp_now_reached: "ramp_reach ramp_example 1 ramp_now"
proof -
  let ?v = "\<lambda>x m b g. (ramp_init 1)\<lparr>ra_desired := 5, ra_version := 1, ra_last := 5, ra_vus := [x], ra_seen := [m], ra_active := [b], ra_gauge := g\<rparr>"
  have at: "interpolate ramp_example 1000000000 = 5" by code_simp
  have s1: "ramp_step ramp_example (ramp_init 1) (?v NotYet 0 False 0)"
    using ramp_step.follow[of "ramp_init 1" 1000000000 ramp_example 1000000000] by (simp add: at broadcast_def ramp_init_def) (simp add: ramp_example_def)
  have s2: "ramp_step ramp_example (?v NotYet 0 False 0) (?v LoopHead 0 False 0)"
    using ramp_step.builds[of 0 "?v NotYet 0 False 0"] by (simp add: vu_at_def move_to_def ramp_init_def)
  have s3: "ramp_step ramp_example (?v LoopHead 0 False 0) (?v PastStop 0 False 0)"
    using ramp_step.sees_no_stop[of 0 "?v LoopHead 0 False 0"] by (simp add: vu_at_def move_to_def ramp_init_def)
  have s4: "ramp_step ramp_example (?v PastStop 0 False 0) ramp_now"
    using ramp_step.reads[of 0 "?v PastStop 0 False 0"]
    by (simp add: vu_at_def move_to_def read_desired_def ramping_control_def set_active_def ramping_active_def ramp_now_def ramp_init_def)
  show ?thesis using ramp_reach.step[OF ramp_reach.step[OF ramp_reach.step[OF ramp_reach.step[OF ramp_reach.init s1] s2] s3] s4] .
qed

theorem ramping_follows_witness: "ra_gauge ramp_now = 1 \<and> ra_active ramp_now ! 0"
  using ramping_follows[OF ramp_now_reached] by (simp add: ramp_now_def)

text \<open>C12.  The ramping executor runs down.  Once the controller has fired the stop, every step of the executor, in
  any order, lowers the work left, and as long as a virtual user is left one of them can be taken; so
  the executor ends after at most that many steps, three for each virtual user and one more.  (An iteration itself ends, is unwound by the hard stop, or panics.)\<close>

theorem ramping_ends:
  assumes "ramp_reach sch n s" "ra_stop s"
  shows "(\<forall>s'. ramp_step sch s s' \<longrightarrow> ra_stop s' \<and> ramp_work s' < ramp_work s) \<and>
    ((\<exists>s'. ramp_step sch s s') \<or> (\<forall>i < n. ra_vus s ! i = Left)) \<and> ramp_work s \<le> 3 * n + 1"
proof -
  have inv: "ramp_inv s" "length (ra_vus s) = n" using ramp_reach_ok[OF assms(1)] by auto
  then have c: "ra_controller s \<noteq> Following" using assms(2) by (simp add: ramp_inv_def)
  have "ra_stop s'" if "ramp_step sch s s'" for s'
    using that assms(2) by cases (simp_all add: broadcast_def leave_def read_desired_def Let_def split: option.splits)
  moreover have r: "sum_list (map vu_rank vs) \<le> 3 * length vs" for vs
  proof (induction vs)
    case (Cons v vs)
    then show ?case by (cases v) auto
  qed simp
  then have "ramp_work s \<le> 3 * n + 1" using r[of "ra_vus s"] inv(2) by (simp add: ramp_work_def)
  ultimately show ?thesis
    using ramp_step_work[OF _ assms(2) c] ramp_progress[OF assms(2)] inv(2) by blast
qed

definition ramp_stopping :: ramp_sys where
  "ramp_stopping = ramp_now\<lparr>ra_controller := Cancelled, ra_stop := True\<rparr>"

theorem ramping_ends_witness: "\<exists>s'. ramp_step ramp_example ramp_stopping s'"
proof -
  have "ramp_step ramp_example ramp_now ramp_stopping"
    using ramp_step.controller_ends[of ramp_now] by (simp add: ramp_stopping_def ramp_now_def ramp_init_def)
  then have "ramp_reach ramp_example 1 ramp_stopping" by (rule ramp_reach.step[OF ramp_now_reached])
  moreover have "ra_stop ramp_stopping" "ra_vus ramp_stopping ! 0 \<noteq> Left" by (simp_all add: ramp_stopping_def ramp_now_def)
  ultimately show ?thesis using ramping_ends by (metis less_one)
qed

end
