(* ===== verification/Stopping.thy ===== *)
theory Stopping
  imports Ramp
begin

text \<open>
  A virtual user (\<open>VuSched\<close>) under the control of its executor, the watchdog that arms the hard stop and the
  stop request of the REST interface, as one step relation.  The question it answers is when the control may
  let an iteration start after the hard stop, which the loop of the virtual user does not survive: never for
  the executors whose control reads the cancellation and the deadline (\<open>constant-vus\<close>,
  \<open>per-vu-iterations\<close>, \<open>shared-iterations\<close>), whatever the timing.  For \<open>ramping-vus\<close>, whose virtual users watch a stop
  token that the controller fires up to 50 ms later, and the arrival-rate executors, whose virtual users
  wait for a dispatch, it is possible.
\<close>

section \<open>The executors' controls\<close>

datatype pool_executor = RunConstantVus | RunPerVuIterations u32 | RunSharedIterations | RunRampingVus | RunArrivalRate

text \<open>What the control of an executor may answer after \<open>n\<close> iterations, when the cancellation and the deadline read
  \<open>stop\<close>.  The answer does not depend on the tally; a shared budget may be used up at any time; the stop
  token and the broadcast of the ramping executor and the dispatch of the arrival-rate executor may be
  anything.\<close>

fun control_may :: "pool_executor \<Rightarrow> bool \<Rightarrow> u32 \<Rightarrow> bool \<Rightarrow> bool" where
  "control_may RunConstantVus stop n b \<longleftrightarrow> b = snd (constant_control stop None n no_lanes)"
| "control_may (RunPerVuIterations k) stop n b \<longleftrightarrow> b = snd (per_vu_control k stop None n no_lanes)"
| "control_may RunSharedIterations stop n b \<longleftrightarrow> (stop \<longrightarrow> \<not> b)"
| "control_may RunRampingVus stop n b \<longleftrightarrow> (\<exists>stopped desired i. ramping_control stopped desired i = Some b)"
| "control_may RunArrivalRate stop n b \<longleftrightarrow> True"

definition reads_stop :: "pool_executor \<Rightarrow> bool" where
  "reads_stop e \<longleftrightarrow> e \<noteq> RunRampingVus \<and> e \<noteq> RunArrivalRate"

lemma control_may_stop: "reads_stop e \<Longrightarrow> control_may e True n b \<Longrightarrow> \<not> b"
  by (cases e) (auto simp: reads_stop_def constant_control_def per_vu_control_def)

lemma control_may_any: "\<not> reads_stop e \<Longrightarrow> control_may e stop n b"
proof (cases e)
  case RunRampingVus
  have "ramping_control (\<not> b) 1 0 = Some b" by (cases b) (simp_all add: ramping_control_def)
  then show ?thesis using RunRampingVus by auto
qed (simp_all add: reads_stop_def)

section \<open>The system\<close>

text \<open>The virtual user, the watchdog, whether a REST stop has cancelled the run and then aborted it, and whether
  the watchdog of the arrival-rate executor, which starts when its coordinator has returned, has fired.\<close>

record ('q, 'r, 'f, 'a, 'm) stop_sys =
  st_vu :: "('q, 'r, 'f, 'a, 'm) vu"
  st_watch :: watchdog
  st_rest :: bool
  st_abort :: bool
  st_arrival_token :: bool

definition stop_seen :: "duration \<Rightarrow> watchdog \<Rightarrow> bool" where
  "stop_seen deadline w \<longleftrightarrow> wd_cancelled w \<noteq> None \<or> deadline \<le> wd_now w"

text \<open>The hard token is a child of the abort token.\<close>

definition hard_fired :: "('q, 'r, 'f, 'a, 'm) stop_sys \<Rightarrow> bool" where
  "hard_fired s \<longleftrightarrow> wd_token (st_watch s) \<or> st_abort s \<or> st_arrival_token s"

definition tell_vu :: "('q, 'r, 'f, 'a, 'm) stop_sys \<Rightarrow> ('q, 'r, 'f, 'a, 'm) stop_sys" where
  "tell_vu s = s\<lparr>st_vu := (st_vu s)\<lparr>hard_cancelled := hard_fired s\<rparr>\<rparr>"

definition cancel_run :: "watchdog \<Rightarrow> watchdog" where
  "cancel_run w = w\<lparr>wd_cancelled := (case wd_cancelled w of None \<Rightarrow> Some (wd_now w) | Some t \<Rightarrow> Some t)\<rparr>"

inductive stop_step ::
    "('q, 'r, 'f, 'a) net \<Rightarrow> pool_executor \<Rightarrow> duration \<Rightarrow> duration \<Rightarrow>
       ('q, 'r, 'f, 'a, 'm) stop_sys \<Rightarrow> ('q, 'r, 'f, 'a, 'm) stop_sys \<Rightarrow> bool"
  for N e deadline graceful_stop where
  vu_moves: "vu_step N (\<lambda>n hard b. control_may e (stop_seen deadline (st_watch s)) n b) (st_vu s) v \<Longrightarrow>
     hard_cancelled v = hard_cancelled (st_vu s) \<Longrightarrow> stop_step N e deadline graceful_stop s (s\<lparr>st_vu := v\<rparr>)"
| watch_moves: "watch_step deadline graceful_stop (st_watch s) w \<Longrightarrow> stop_step N e deadline graceful_stop s (tell_vu (s\<lparr>st_watch := w\<rparr>))"
| rest_cancels: "stop_step N e deadline graceful_stop s (s\<lparr>st_watch := cancel_run (st_watch s), st_rest := True\<rparr>)"
| rest_aborts: "st_rest s \<Longrightarrow> stop_step N e deadline graceful_stop s (tell_vu (s\<lparr>st_abort := True\<rparr>))"
| arrival_watchdog_fires: "e = RunArrivalRate \<Longrightarrow> stop_step N e deadline graceful_stop s (tell_vu (s\<lparr>st_arrival_token := True\<rparr>))"

text \<open>A virtual user is built, and its control asked for the first time, at any time of the run.\<close>

definition stop_start :: "bool \<Rightarrow> js_globals \<Rightarrow> watchdog \<Rightarrow> bool \<Rightarrow> bool \<Rightarrow> bool \<Rightarrow> ('q, 'r, 'f, 'a, 'm) stop_sys" where
  "stop_start run g w rest ab tok =
     tell_vu \<lparr>st_vu = vu_initial run False g, st_watch = w, st_rest = rest, st_abort = ab, st_arrival_token = tok\<rparr>"

inductive stop_reach ::
    "('q, 'r, 'f, 'a) net \<Rightarrow> pool_executor \<Rightarrow> duration \<Rightarrow> duration \<Rightarrow> duration \<Rightarrow> ('q, 'r, 'f, 'a, 'm) stop_sys \<Rightarrow> bool"
  for N e deadline graceful_stop now where
  start: "watch_reach deadline graceful_stop now w \<Longrightarrow> (ab \<longrightarrow> rest) \<Longrightarrow> (rest \<longrightarrow> wd_cancelled w \<noteq> None) \<Longrightarrow>
     (tok \<longrightarrow> e = RunArrivalRate) \<Longrightarrow> control_may e (stop_seen deadline w) 0 run \<Longrightarrow>
     stop_reach N e deadline graceful_stop now (stop_start run g w rest ab tok)"
| step: "stop_reach N e deadline graceful_stop now s \<Longrightarrow> stop_step N e deadline graceful_stop s s' \<Longrightarrow>
     stop_reach N e deadline graceful_stop now s'"

section \<open>Invariant\<close>

text \<open>The answers possible in a run: none to go on after the hard stop, when the control reads the stop.\<close>

definition late_answers :: "pool_executor \<Rightarrow> u32 \<Rightarrow> bool \<Rightarrow> bool \<Rightarrow> bool" where
  "late_answers e n hard b \<longleftrightarrow> \<not> (reads_stop e \<and> hard \<and> b)"

definition stop_env :: "pool_executor \<Rightarrow> duration \<Rightarrow> duration \<Rightarrow> duration \<Rightarrow> ('q, 'r, 'f, 'a, 'm) stop_sys \<Rightarrow> bool" where
  "stop_env e deadline graceful_stop now s \<longleftrightarrow>
     watch_reach deadline graceful_stop now (st_watch s) \<and> (st_abort s \<longrightarrow> st_rest s) \<and>
     (st_rest s \<longrightarrow> wd_cancelled (st_watch s) \<noteq> None) \<and> (st_arrival_token s \<longrightarrow> e = RunArrivalRate) \<and>
     hard_cancelled (st_vu s) = hard_fired s"

text \<open>The hard stop comes after the cancellation or the deadline.\<close>

lemma hard_after_stop:
  assumes "stop_env e deadline graceful_stop now s" "e \<noteq> RunArrivalRate" "hard_fired s"
  shows "stop_seen deadline (st_watch s)"
proof (cases "wd_token (st_watch s)")
  case True
  have "watch_inv deadline graceful_stop (st_watch s)" using assms(1) watch_reach_inv by (auto simp: stop_env_def)
  then obtain b where "grace_by deadline (st_watch s) b" using True by (auto simp: watch_inv_def)
  then show ?thesis by (auto simp: grace_by_def stop_seen_def)
next
  case False
  then show ?thesis using assms by (auto simp: stop_env_def hard_fired_def stop_seen_def)
qed

lemma tell_vu_fields [simp]:
  "st_watch (tell_vu s) = st_watch s" "st_rest (tell_vu s) = st_rest s" "st_abort (tell_vu s) = st_abort s"
  "st_arrival_token (tell_vu s) = st_arrival_token s" "hard_fired (tell_vu s) = hard_fired s"
  "st_vu (tell_vu s) = (st_vu s)\<lparr>hard_cancelled := hard_fired s\<rparr>"
  by (simp_all add: tell_vu_def hard_fired_def)

lemma watch_step_sticky:
  "watch_step deadline graceful_stop w w' \<Longrightarrow> (wd_token w \<longrightarrow> wd_token w') \<and> (wd_cancelled w \<noteq> None \<longrightarrow> wd_cancelled w' \<noteq> None)"
  by (induction rule: watch_step.induct) (auto simp: wd_goto_def split: option.splits)

lemma cancel_run_step: "watch_step deadline graceful_stop w (cancel_run w)"
  unfolding cancel_run_def by (rule watch_step.run_cancelled)

lemma stop_step_env:
  assumes "stop_step N e deadline graceful_stop s s'" "stop_env e deadline graceful_stop now s"
  shows "stop_env e deadline graceful_stop now s'"
  using assms(1)
proof cases
  case (watch_moves w)
  have "watch_reach deadline graceful_stop now w" using assms(2) watch_moves(2) watch_reach.step by (auto simp: stop_env_def)
  then show ?thesis using assms(2) watch_step_sticky[OF watch_moves(2)] by (auto simp: stop_env_def watch_moves(1) hard_fired_def)
next
  case rest_cancels
  have "watch_reach deadline graceful_stop now (cancel_run (st_watch s))"
    using assms(2) watch_reach.step[OF _ cancel_run_step] by (auto simp: stop_env_def)
  then show ?thesis using assms(2) by (auto simp: stop_env_def rest_cancels hard_fired_def cancel_run_def split: option.splits)
qed (use assms(2) in \<open>auto simp: stop_env_def hard_fired_def\<close>)

lemma hard_set: "vu_step N control v (v\<lparr>hard_cancelled := b\<rparr>) \<or> v\<lparr>hard_cancelled := b\<rparr> = v" if "hard_cancelled v \<longrightarrow> b" for v :: "('q, 'r, 'f, 'a, 'm) vu"
  using that vu_step.cancel[of N control v] by (cases b) simp_all

text \<open>The virtual user in the system behaves as in \<open>VuSched\<close>, under a control that never answers late when it
  reads the stop.\<close>

lemma stop_step_vu:
  assumes "stop_step N e deadline graceful_stop s s'" "stop_env e deadline graceful_stop now s"
  shows "vu_step N (late_answers e) (st_vu s) (st_vu s') \<or> st_vu s' = st_vu s"
  using assms(1)
proof cases
  case (vu_moves v)
  have "late_answers e n (hard_cancelled (st_vu s)) b" if "control_may e (stop_seen deadline (st_watch s)) n b" for n b
    using that hard_after_stop[OF assms(2)] assms(2) control_may_stop[of e n b] by (auto simp: late_answers_def reads_stop_def stop_env_def)
  from vu_step_mono[where control' = "late_answers e", OF vu_moves(2) this] show ?thesis by (simp add: vu_moves(1))
next
  case (watch_moves w)
  have "hard_cancelled (st_vu s) \<longrightarrow> hard_fired (s\<lparr>st_watch := w\<rparr>)"
    using watch_step_sticky[OF watch_moves(2)] assms(2) by (auto simp: hard_fired_def stop_env_def)
  from hard_set[OF this] show ?thesis by (simp add: watch_moves(1))
next
  case rest_aborts
  show ?thesis using hard_set[of "st_vu s" True] by (simp add: rest_aborts(1) hard_fired_def)
next
  case arrival_watchdog_fires
  show ?thesis using hard_set[of "st_vu s" True] by (simp add: arrival_watchdog_fires(1) hard_fired_def)
qed simp

lemma stop_reach_vu:
  fixes s :: "('q, 'r, 'f, 'a, 'm) stop_sys"
  assumes "stop_reach N e deadline graceful_stop now s"
  shows "stop_env e deadline graceful_stop now s \<and> vu_reach N (late_answers e) (st_vu s)"
  using assms
proof (induction rule: stop_reach.induct)
  case (start w ab rest tok run g)
  let ?s = "stop_start run g w rest ab tok :: ('q, 'r, 'f, 'a, 'm) stop_sys"
  have env: "stop_env e deadline graceful_stop now ?s" using start by (simp add: stop_env_def stop_start_def)
  have "late_answers e 0 (hard_fired ?s) run"
  proof (cases "reads_stop e \<and> hard_fired ?s")
    case True
    then have "stop_seen deadline (st_watch ?s)" using hard_after_stop[OF env] by (auto simp: reads_stop_def)
    then show ?thesis using True start(5) control_may_stop[of e 0 run] by (simp add: late_answers_def stop_start_def)
  qed (auto simp: late_answers_def)
  then have "vu_reach N (late_answers e) (vu_initial run (hard_fired ?s) g)" by (rule vu_reach.init)
  moreover have "st_vu ?s = vu_initial run (hard_fired ?s) g"
    unfolding stop_start_def tell_vu_fields by (simp add: vu_initial_def)
  ultimately show ?case using env by simp
next
  case (step s s')
  then have env: "stop_env e deadline graceful_stop now s" and r: "vu_reach N (late_answers e) (st_vu s)" by simp_all
  show ?case using stop_step_env[OF step.hyps(2) env] stop_step_vu[OF step.hyps(2) env] vu_reach.step[OF r] r by auto
qed

section \<open>Properties\<close>


text \<open>Every run of a virtual user whose control may answer anything is possible under the executors whose
  control does not read the stop.\<close>

lemma free_runs:
  fixes v :: "('q, 'r, 'f, 'a, 'm) vu"
  assumes "vu_reach N (\<lambda>_ _ _. True) v" "\<not> reads_stop e"
  shows "\<exists>s. stop_reach N e deadline graceful_stop now s \<and> st_vu s = v"
proof -
  define env where "env h v = \<lparr>st_vu = v, st_watch = (if h then cancel_run (watch_init now) else watch_init now),
      st_rest = h, st_abort = h, st_arrival_token = False\<rparr>" for h and v :: "('q, 'r, 'f, 'a, 'm) vu"
  have w: "watch_reach deadline graceful_stop now (cancel_run (watch_init now))" by (rule watch_reach.step[OF watch_reach.init cancel_run_step])
  have "stop_reach N e deadline graceful_stop now (env (hard_cancelled v) v)"
    using assms(1)
  proof (induction rule: vu_reach.induct)
    case (init hard run g)
    have "stop_reach N e deadline graceful_stop now (stop_start run g (if hard then cancel_run (watch_init now) else watch_init now) hard hard False)"
      using w by (intro stop_reach.start) (auto intro: watch_reach.init control_may_any[OF assms(2)] simp: cancel_run_def split: option.splits)
    then show ?case by (cases hard) (simp_all add: stop_start_def tell_vu_def env_def hard_fired_def vu_initial_def cancel_run_def watch_init_def)
  next
    case (step v v')
    show ?case
    proof (cases "hard_cancelled v' = hard_cancelled v")
      case True
      have "vu_step N (\<lambda>n hard b. control_may e (stop_seen deadline (st_watch (env (hard_cancelled v) v))) n b) v v'"
        by (rule vu_step_mono[OF step.hyps(2)]) (rule control_may_any[OF assms(2)])
      then show ?thesis using stop_reach.step[OF step.IH, OF stop_step.vu_moves] True by (simp add: env_def)
    next
      case False
      then have h: "\<not> hard_cancelled v" "v' = v\<lparr>hard_cancelled := True\<rparr>" using step.hyps(2) vu_step_hard_only by blast+
      let ?s = "(env False v)\<lparr>st_watch := cancel_run (watch_init now), st_rest := True\<rparr>"
      have "stop_reach N e deadline graceful_stop now ?s"
        using stop_reach.step[OF step.IH stop_step.rest_cancels] h(1) by (simp add: env_def)
      from stop_reach.step[OF this stop_step.rest_aborts] show ?thesis
        by (simp add: env_def h(2) tell_vu_def hard_fired_def)
    qed
  qed
  then show ?thesis by (auto simp: env_def)
qed

text \<open>So under the ramping and the arrival-rate executors the panic is possible.\<close>

lemma late_panic:
  assumes "net_send N q r" "\<not> reads_stop e"
  shows "\<exists>s :: ('q, 'r, 'f, 'a, 'm) stop_sys. stop_reach N e deadline graceful_stop now s \<and> vu_phase_of (st_vu s) = Panicked"
proof -
  obtain v :: "('q, 'r, 'f, 'a, 'm) vu" where "vu_reach N (\<lambda>_ _ _. True) v" "vu_phase_of v = Panicked"
    using late_grant_panics[of "\<lambda>_ _ _. True" N q r] assms(1) by blast
  then show ?thesis using free_runs[OF _ assms(2)] by blast
qed

text \<open>The example script of \<open>VuSched\<close> at its iteration boundary, under the constant executor and before its deadline.\<close>

definition unstopped :: "duration \<Rightarrow> ('q, 'r, 'f, 'a, 'm) vu \<Rightarrow> ('q, 'r, 'f, 'a, 'm) stop_sys" where
  "unstopped now v = \<lparr>st_vu = v, st_watch = watch_init now, st_rest = False, st_abort = False, st_arrival_token = False\<rparr>"

lemma unstopped_runs:
  assumes "vu_reach N until_cancelled v" "now < deadline"
  shows "\<not> hard_cancelled v \<Longrightarrow> stop_reach N RunConstantVus deadline graceful_stop now (unstopped now v)"
  using assms(1)
proof (induction rule: vu_reach.induct)
  case (init hard run g)
  have "stop_reach N RunConstantVus deadline graceful_stop now (stop_start True g (watch_init now) False False False)"
    using assms(2) by (intro stop_reach.start watch_reach.init) (auto simp: stop_seen_def watch_init_def constant_control_def)
  then show ?case using init by (simp add: until_cancelled_def vu_initial_def stop_start_def tell_vu_def unstopped_def hard_fired_def watch_init_def)
next
  case (step v v')
  have h: "\<not> hard_cancelled v" using vu_step_hard[OF step.hyps(2)] step.prems by blast
  have "vu_step N (\<lambda>n hard b. control_may RunConstantVus (stop_seen deadline (st_watch (unstopped now v))) n b) v v'"
    by (rule vu_step_mono[OF step.hyps(2)])
      (use h assms(2) in \<open>simp add: until_cancelled_def stop_seen_def unstopped_def watch_init_def constant_control_def\<close>)
  then show ?case using stop_reach.step[OF step.IH[OF h], OF stop_step.vu_moves] h step.prems by (simp add: unstopped_def)
qed


end
