(* ===== verification/Rust_Str.thy ===== *)
theory Rust_Str
  imports K6_Prelude
begin

text \<open>
  String methods that several components call: \<open>lines\<close>, \<open>contains\<close>, \<open>strip_prefix\<close> and the \<open>split\<close> at any
  of several characters.
\<close>

text \<open>\<open>str::lines\<close>: a carriage return is removed only before a line feed, and the text after the last line
  feed is a line only when it is not empty.\<close>

definition strip_cr :: "string \<Rightarrow> string" where
  "strip_cr l = (if l \<noteq> [] \<and> last l = CHR 0x0D then butlast l else l)"

definition lines_of :: "string \<Rightarrow> string list" where
  "lines_of s =
     (let ls = split_on (CHR 0x0A) s
      in map strip_cr (butlast ls) @ (if last ls = [] then [] else [last ls]))"

definition contains_str :: "string \<Rightarrow> string \<Rightarrow> bool" where
  "contains_str p s \<longleftrightarrow> find_str p s \<noteq> None"

definition strip_prefix :: "string \<Rightarrow> string \<Rightarrow> string option" where
  "strip_prefix p s = (if starts_with p s then Some (drop (length p) s) else None)"

text \<open>The first piece of a \<open>split\<close>: there always is one.\<close>

definition first_piece :: "(char \<Rightarrow> bool) \<Rightarrow> string \<Rightarrow> string" where
  "first_piece p s = takeWhile (\<lambda>c. \<not> p c) s"

lemma starts_with_iff: "starts_with p s \<longleftrightarrow> (\<exists>t. s = p @ t)"
  by (auto simp: starts_with_def) (metis append_take_drop_id)

lemma starts_with_append [simp]: "starts_with p (p @ s)"
  by (auto simp: starts_with_iff)

lemma strip_prefix_Some: "strip_prefix p s = Some t \<longleftrightarrow> s = p @ t"
  by (auto simp: strip_prefix_def starts_with_iff)

lemma contains_str_iff: "contains_str p s \<longleftrightarrow> (\<exists>a b. s = a @ p @ b)"
proof (induction s)
  case Nil
  then show ?case by (auto simp: contains_str_def)
next
  case (Cons c s)
  show ?case
  proof (cases "starts_with p (c # s)")
    case True
    then have "\<exists>b. c # s = [] @ p @ b" by (auto simp: starts_with_iff)
    with True show ?thesis unfolding contains_str_def by (simp only: find_str.simps if_True option.simps) blast
  next
    case False
    have "contains_str p (c # s) \<longleftrightarrow> contains_str p s" using False by (simp add: contains_str_def)
    also have "\<dots> \<longleftrightarrow> (\<exists>a b. s = a @ p @ b)" by (rule Cons.IH)
    also have "\<dots> \<longleftrightarrow> (\<exists>a b. c # s = a @ p @ b)"
    proof
      assume "\<exists>a b. s = a @ p @ b"
      then show "\<exists>a b. c # s = a @ p @ b" by (metis append_Cons)
    next
      assume "\<exists>a b. c # s = a @ p @ b"
      then obtain a b where ab: "c # s = a @ p @ b" by blast
      with False have "a \<noteq> []" by (auto simp: starts_with_iff)
      then show "\<exists>a b. s = a @ p @ b" using ab by (cases a) auto
    qed
    finally show ?thesis .
  qed
qed

text \<open>Lines written one by one are the lines read.\<close>

lemma split_on_lines:
  assumes "\<forall>t\<in>set ts. CHR 0x0A \<notin> set t"
  shows "split_on (CHR 0x0A) (concat (map (\<lambda>t. t @ [CHR 0x0A]) ts)) = ts @ [[]]"
  using assms by (induction ts) (auto simp: str_simps)

lemma lines_of_terminated:
  assumes "\<forall>t\<in>set ts. CHR 0x0A \<notin> set t \<and> (t = [] \<or> last t \<noteq> CHR 0x0D)"
  shows "lines_of (concat (map (\<lambda>t. t @ [CHR 0x0A]) ts)) = ts"
proof -
  have s: "split_on (CHR 0x0A) (concat (map (\<lambda>t. t @ [CHR 0x0A]) ts)) = ts @ [[]]" using assms by (intro split_on_lines) blast
  have "map strip_cr ts = ts" using assms by (intro map_idI) (auto simp: strip_cr_def)
  then show ?thesis by (simp add: lines_of_def s)
qed

lemma lines_of_no_newline: "l \<in> set (lines_of s) \<Longrightarrow> CHR 0x0A \<notin> set l"
proof -
  assume l: "l \<in> set (lines_of s)"
  have piece: "CHR 0x0A \<notin> set w" if "w \<in> set (split_on (CHR 0x0A) s)" for w by (rule split_on_pieces[OF that])
  have cr: "set (strip_cr w) \<subseteq> set w" for w by (auto simp: strip_cr_def dest: in_set_butlastD)
  have "last (split_on (CHR 0x0A) s) \<in> set (split_on (CHR 0x0A) s)" by simp
  then show ?thesis using l piece cr by (auto simp: lines_of_def Let_def split: if_splits dest!: in_set_butlastD)
qed

end
