(* ===== verification/Summary.thy ===== *)
theory Summary
  imports Thresholds "HOL-Library.Sublist"
begin

text \<open>
  The end-of-test summary (\<open>crates/k6-core/src/summary.rs\<close>): the data object for \<open>handleSummary()\<close> with its
  filter on tagged metrics and the metrics synthesized for thresholds, the tree of groups, and the text
  summary.  The digest of the \<open>md5\<close> crate is a parameter.  The results: which metrics the object holds, that
  it shows for every tagged threshold the values the threshold was judged on, that the tree keeps every
  group and check, and that the text has one line for each metric.
\<close>

section \<open>Data\<close>

record summary_metric =
  sm_type :: string
  sm_contains :: string
  sm_values :: "(string, f64) hm"

record summary_check =
  sck_name :: string
  sck_path :: string
  sck_id :: string
  sck_passes :: u64
  sck_fails :: u64

datatype summary_group = SummaryGroup (sg_name: string) (sg_path: string) (sg_id: string)
  (sg_groups: "(string \<times> summary_group) list") (sg_checks: "(string \<times> summary_check) list")

record summary_state =
  is_std_out_tty :: bool
  test_run_duration_ms :: f64

record summary_data =
  sd_metrics :: "(string, summary_metric) hm"
  sd_root_group :: summary_group
  sd_state :: summary_state

definition values_of :: "(string \<times> f64) list \<Rightarrow> (string, f64) hm" where
  "values_of kvs = fold (\<lambda>(k, v) m. hm_put k v m) kvs []"

section \<open>Groups\<close>

definition convert_check :: "(string \<Rightarrow> string) \<Rightarrow> string \<Rightarrow> string \<times> (u64 \<times> u64) \<Rightarrow> string \<times> summary_check" where
  "convert_check md5 path entry =
     (case entry of (name, passes, failed) \<Rightarrow>
        let check_path = path @ ''::'' @ name
        in (name, \<lparr>sck_name = name, sck_path = check_path, sck_id = md5 check_path, sck_passes = passes, sck_fails = failed\<rparr>))"

text \<open>Both maps of a node are ordered by key and are built in that order.\<close>

fun convert_group :: "(string \<Rightarrow> string) \<Rightarrow> group_snapshot \<Rightarrow> summary_group" where
  "convert_group md5 (GroupSnapshot name path children checks dur) =
     SummaryGroup name path (md5 path)
       (map (\<lambda>(k, c). (k, convert_group md5 c)) children) (map (convert_check md5 path) checks)"

section \<open>Synthesized metrics\<close>

definition time_or_default :: "string \<Rightarrow> string" where
  "time_or_default name = (if starts_with ''http_req'' name \<or> find_str ''duration'' name \<noteq> None then ''time'' else ''default'')"

definition synth_matches :: "metric_selector \<Rightarrow> string \<Rightarrow> bool" where
  "synth_matches target stored =
     (case selector_parse stored of
        Inl e \<Rightarrow> False
      | Inr s \<Rightarrow> sel_name s = sel_name target \<and> list_all (\<lambda>(k, v). map_of (sel_tags s) k = Some v) (sel_tags target))"

record 'h synth_acc =
  sa_had :: bool
  sa_count :: u64
  sa_sum :: f64
  sa_min :: f64
  sa_max :: f64
  sa_hist :: "'h option"

definition synth_step :: "'h hdr \<Rightarrow> metric_selector \<Rightarrow> 'h metrics_snapshot \<Rightarrow> string \<times> trend_stats \<Rightarrow> 'h synth_acc \<Rightarrow> 'h synth_acc" where
  "synth_step H target snap row a =
     (case row of (stored, stats) \<Rightarrow>
        if \<not> synth_matches target stored then a
        else \<lparr>sa_had = True,
              sa_count = sa_count a + ts_count stats,
              sa_sum = fadd (sa_sum a) (fmul (ts_avg stats) (f_of_u64 (ts_count stats))),
              sa_min = (if flt (ts_min stats) (sa_min a) then ts_min stats else sa_min a),
              sa_max = (if flt (sa_max a) (ts_max stats) then ts_max stats else sa_max a),
              sa_hist = (case map_of (snap_hists snap) stored of
                           None \<Rightarrow> sa_hist a
                         | Some h \<Rightarrow> Some (case sa_hist a of Some m \<Rightarrow> hdr_add H m h | None \<Rightarrow> h))\<rparr>)"

definition synth_quantile :: "'h hdr \<Rightarrow> 'h option \<Rightarrow> rat \<Rightarrow> f64" where
  "synth_quantile H hist_opt q =
     (case hist_opt of
        Some h \<Rightarrow> if 0 < hdr_len H h then fdiv (f_of_u64 (hdr_quantile H (flit q) h)) (flit 1000) else f0
      | None \<Rightarrow> f0)"

definition synth_trend :: "'h hdr \<Rightarrow> metric_selector \<Rightarrow> 'h synth_acc \<Rightarrow> summary_metric" where
  "synth_trend H target a =
     \<lparr>sm_type = ''trend'', sm_contains = time_or_default (sel_name target),
      sm_values = values_of
        [(''avg'', if 0 < sa_count a then fdiv (sa_sum a) (f_of_u64 (sa_count a)) else f0),
         (''min'', if feq (sa_min a) f64_max then f0 else sa_min a),
         (''med'', synth_quantile H (sa_hist a) (1 / 2)),
         (''max'', if feq (sa_max a) f64_min then f0 else sa_max a),
         (''p(90)'', synth_quantile H (sa_hist a) (9 / 10)),
         (''p(95)'', synth_quantile H (sa_hist a) (95 / 100)),
         (''p(99)'', synth_quantile H (sa_hist a) (99 / 100)),
         (''count'', f_of_u64 (sa_count a))]\<rparr>"

definition counter_metric :: "u64 \<Rightarrow> f64 \<Rightarrow> summary_metric" where
  "counter_metric value rate =
     \<lparr>sm_type = ''counter'', sm_contains = ''default'', sm_values = values_of [(''count'', f_of_u64 value), (''rate'', rate)]\<rparr>"

definition gauge_summary :: "f64 \<Rightarrow> f64 \<Rightarrow> f64 \<Rightarrow> summary_metric" where
  "gauge_summary value lo hi =
     \<lparr>sm_type = ''gauge'', sm_contains = ''default'', sm_values = values_of [(''value'', value), (''min'', lo), (''max'', hi)]\<rparr>"

definition rate_summary :: "f64 \<Rightarrow> u64 \<Rightarrow> u64 \<Rightarrow> summary_metric" where
  "rate_summary rate passes tot =
     \<lparr>sm_type = ''rate'', sm_contains = ''default'',
      sm_values = values_of [(''rate'', rate), (''passes'', f_of_u64 passes), (''fails'', f_of_u64 (tot - passes))]\<rparr>"

definition trend_summary :: "string \<Rightarrow> trend_stats \<Rightarrow> summary_metric" where
  "trend_summary name stats =
     \<lparr>sm_type = ''trend'', sm_contains = time_or_default name,
      sm_values = values_of
        [(''avg'', ts_avg stats), (''min'', ts_min stats), (''med'', ts_med stats), (''max'', ts_max stats), (''p(90)'', ts_p90 stats),
         (''p(95)'', ts_p95 stats), (''p(99)'', ts_p99 stats), (''count'', f_of_u64 (ts_count stats))]\<rparr>"

definition synthesize_subset_metric :: "'h hdr \<Rightarrow> metric_selector \<Rightarrow> 'h metrics_snapshot \<Rightarrow> summary_metric option" where
  "synthesize_subset_metric H target snap =
     (let a = fold (synth_step H target snap) (snap_trends snap)
            \<lparr>sa_had = False, sa_count = 0, sa_sum = f0, sa_min = f64_max, sa_max = f64_min, sa_hist = None\<rparr>;
          cs = filter (\<lambda>(stored, _). synth_matches target stored) (snap_counters snap);
          rs = filter (\<lambda>(stored, _). synth_matches target stored) (snap_rates snap)
      in if sa_had a then Some (synth_trend H target a)
         else if cs \<noteq> [] then
           Some (counter_metric (fold (\<lambda>(_, v, _) s. s + v) cs 0) (fold (\<lambda>(_, _, r) s. fadd s r) cs f0))
         else if rs \<noteq> [] then
           (let r_passes = fold (\<lambda>(_, _, p, _) s. s + p) rs 0; r_total = fold (\<lambda>(_, _, _, t) s. s + t) rs 0
            in Some (rate_summary (if 0 < r_total then fdiv (f_of_u64 r_passes) (f_of_u64 r_total) else f0) r_passes r_total))
         else None)"

section \<open>The data object\<close>

definition auto_selector :: metric_selector where
  "auto_selector = \<lparr>sel_name = ''http_req_duration'', sel_tags = [(''expected_response'', ''true'')]\<rparr>"

fun parsed_selectors :: "string list \<Rightarrow> metric_selector list" where
  "parsed_selectors [] = []"
| "parsed_selectors (k # ks) =
     (case selector_parse k of
        Inl e \<Rightarrow> parsed_selectors ks
      | Inr s \<Rightarrow> if sel_tags s = [] then parsed_selectors ks else s # parsed_selectors ks)"

definition threshold_selectors :: "thresholds option \<Rightarrow> metric_selector list" where
  "threshold_selectors ths =
     (case ths of None \<Rightarrow> [] | Some t \<Rightarrow> parsed_selectors (map fst t)) @ [auto_selector]"

definition include_tagged :: "thresholds option \<Rightarrow> string \<Rightarrow> bool" where
  "include_tagged ths name =
     (if CHR ''{'' \<notin> set name then True
      else if ths = None then True
      else name \<in> canonical ` set (threshold_selectors ths))"

definition insert_synth :: "'h hdr \<Rightarrow> 'h metrics_snapshot \<Rightarrow> metric_selector \<Rightarrow> (string, summary_metric) hm \<Rightarrow> (string, summary_metric) hm" where
  "insert_synth H snap sel m =
     (case synthesize_subset_metric H sel snap of None \<Rightarrow> m | Some synth \<Rightarrow> hm_put (canonical sel) synth m)"

definition plain_rows :: "thresholds option \<Rightarrow> 'h metrics_snapshot \<Rightarrow> (string \<times> summary_metric) list" where
  "plain_rows ths snap = filter (\<lambda>(name, _). include_tagged ths name)
     (map (\<lambda>(name, value, rate). (name, counter_metric value rate)) (snap_counters snap) @
      map (\<lambda>(name, value, lo, hi). (name, gauge_summary value lo hi)) (snap_gauges snap) @
      map (\<lambda>(name, rate, passes, tot). (name, rate_summary rate passes tot)) (snap_rates snap) @
      map (\<lambda>(name, stats). (name, trend_summary name stats)) (snap_trends snap))"

definition build_summary_data ::
    "(string \<Rightarrow> string) \<Rightarrow> bool \<Rightarrow> 'h hdr \<Rightarrow> 'h metrics_snapshot \<Rightarrow> duration \<Rightarrow> thresholds option \<Rightarrow> summary_data" where
  "build_summary_data md5 tty H snap dur ths =
     \<lparr>sd_metrics = fold (insert_synth H snap) (threshold_selectors ths)
        (fold (\<lambda>(name, metric) m. hm_put name metric m) (plain_rows ths snap) []),
      sd_root_group = convert_group md5 (snap_tree snap),
      sd_state = \<lparr>is_std_out_tty = tty, test_run_duration_ms = fmul (as_secs_f64 dur) (flit 1000)\<rparr>\<rparr>"


section \<open>The text summary\<close>

text \<open>A float with a fixed number of decimals, rounded half to even, and padding on the right.\<close>

definition zero_pad :: "nat \<Rightarrow> string \<Rightarrow> string" where
  "zero_pad n s = replicate (n - length s) (CHR ''0'') @ s"

definition fmt_fixed :: "nat \<Rightarrow> f64 \<Rightarrow> string" where
  "fmt_fixed n x =
     (case x of
        F64_NaN \<Rightarrow> ''NaN''
      | F64_Inf s \<Rightarrow> (if s then ''-inf'' else ''inf'')
      | F64_Fin s _ _ \<Rightarrow>
          (let d = rne (\<bar>fval x\<bar> * 10 ^ n)
           in (if s then ''-'' else []) @ dec (d div 10 ^ n) @ (if n = 0 then [] else ''.'' @ zero_pad n (dec (d mod 10 ^ n)))))"

definition pad_right :: "nat \<Rightarrow> string \<Rightarrow> string" where
  "pad_right n s = s @ replicate (n - length s) (CHR '' '')"

definition dots :: "string \<Rightarrow> nat \<Rightarrow> string" where
  "dots name total_width =
     (let name_len = length name
      in if total_width \<le> name_len then ''.: ''
         else replicate (total_width - name_len) (CHR ''.'') @ '': '')"

definition format_ms :: "f64 \<Rightarrow> string" where
  "format_ms ms =
     (if flt ms (flit 1) then fmt_fixed 0 (fmul ms (flit 1000)) @ [CHR 0xC2, CHR 0xB5, CHR ''s'']
      else if flt ms (flit 1000) then fmt_fixed 2 ms @ ''ms''
      else fmt_fixed 2 (fdiv ms (flit 1000)) @ ''s'')"

definition format_data :: "u64 \<Rightarrow> string" where
  "format_data bytes =
     (if bytes < 1024 then dec (uint bytes) @ '' B''
      else if bytes < 1024 * 1024 then fmt_fixed 1 (fdiv (f_of_u64 bytes) (flit 1024)) @ '' kB''
      else if bytes < 1024 * 1024 * 1024 then fmt_fixed 1 (fdiv (f_of_u64 bytes) (fmul (flit 1024) (flit 1024))) @ '' MB''
      else fmt_fixed 1 (fdiv (f_of_u64 bytes) (fmul (fmul (flit 1024) (flit 1024)) (flit 1024))) @ '' GB'')"

fun build_threshold_map_loop :: "threshold_result list \<Rightarrow> (string, bool) hm \<Rightarrow> (string, bool) hm" where
  "build_threshold_map_loop [] m = m"
| "build_threshold_map_loop (r # rs) m =
     build_threshold_map_loop rs
       (let e = (case map_of m (res_metric r) of None \<Rightarrow> True | Some b \<Rightarrow> b)
        in hm_put (res_metric r) (if \<not> res_passed r then False else e) m)"

definition build_threshold_map :: "threshold_result list option \<Rightarrow> (string, bool) hm" where
  "build_threshold_map ths = (case ths of None \<Rightarrow> [] | Some results \<Rightarrow> build_threshold_map_loop results [])"

definition tick_mark :: string where
  "tick_mark = [CHR 0xE2, CHR 0x9C, CHR 0x93]"

definition cross_mark :: string where
  "cross_mark = [CHR 0xE2, CHR 0x9C, CHR 0x97]"

definition threshold_mark :: "(string, bool) hm \<Rightarrow> string \<Rightarrow> string" where
  "threshold_mark m metric =
     (case map_of m metric of Some True \<Rightarrow> '' '' @ tick_mark | Some False \<Rightarrow> '' '' @ cross_mark | None \<Rightarrow> [])"

text \<open>One line of each kind; every line starts with five blanks and its name, dotted to a fixed column.\<close>

definition line_of :: "string \<Rightarrow> string \<Rightarrow> string" where
  "line_of name rest = ''     '' @ name @ dots name 33 @ '' '' @ rest @ [CHR 0x0A]"

definition rate_line :: "(string, bool) hm \<Rightarrow> string \<times> f64 \<times> u64 \<times> u64 \<Rightarrow> string" where
  "rate_line tm row =
     (case row of (name, rate, passes, tot) \<Rightarrow>
        line_of name (fmt_fixed 2 (fmul rate (flit 100)) @ ''% '' @ tick_mark @ '' '' @ pad_right 6 (dec (uint passes)) @ '' '' @
          cross_mark @ '' '' @ dec (uint (tot - passes)) @ threshold_mark tm name))"

definition data_line :: "(string, bool) hm \<Rightarrow> string \<times> u64 \<times> f64 \<Rightarrow> string" where
  "data_line tm row =
     (case row of (name, value, rate) \<Rightarrow>
        line_of name (format_data value @ '' '' @ format_data (f_to_u64 rate) @ ''/s'' @ threshold_mark tm name))"

definition trend_line :: "(string, bool) hm \<Rightarrow> string \<times> trend_stats \<Rightarrow> string" where
  "trend_line tm row =
     (case row of (name, stats) \<Rightarrow>
        line_of name (''avg='' @ format_ms (ts_avg stats) @ '' min='' @ format_ms (ts_min stats) @ '' med='' @ format_ms (ts_med stats) @
          '' max='' @ format_ms (ts_max stats) @ '' p(90)='' @ format_ms (ts_p90 stats) @ '' p(95)='' @ format_ms (ts_p95 stats) @
          threshold_mark tm name))"

definition counter_line :: "(string, bool) hm \<Rightarrow> string \<times> u64 \<times> f64 \<Rightarrow> string" where
  "counter_line tm row =
     (case row of (name, value, rate) \<Rightarrow>
        line_of name (pad_right 7 (dec (uint value)) @ '' '' @ fmt_fixed 6 rate @ ''/s'' @ threshold_mark tm name))"

definition dropped_line :: "string \<times> u64 \<times> f64 \<Rightarrow> string" where
  "dropped_line row = (case row of (name, value, rate) \<Rightarrow> if 0 < value then line_of name (dec (uint value)) else [])"

definition gauge_line :: "string \<times> f64 \<times> f64 \<times> f64 \<Rightarrow> string" where
  "gauge_line row =
     (case row of (name, value, lo, hi) \<Rightarrow>
        line_of name (dec (uint (f_to_u32 value)) @ '' min='' @ dec (uint (f_to_u32 lo)) @ '' max='' @ dec (uint (f_to_u32 hi))))"

definition http_order :: "string list" where
  "http_order = [''http_req_blocked'', ''http_req_connecting'', ''http_req_duration'', ''http_req_failed'', ''http_req_receiving'',
     ''http_req_sending'', ''http_req_tls_handshaking'', ''http_req_waiting'']"

definition printed :: "string list" where
  "printed = [''checks'', ''data_received'', ''data_sent'', ''http_req_blocked'', ''http_req_connecting'', ''http_req_duration'',
     ''http_req_failed'', ''http_req_receiving'', ''http_req_sending'', ''http_req_tls_handshaking'', ''http_req_waiting'',
     ''http_reqs'', ''iteration_duration'', ''iterations'', ''dropped_iterations'', ''vus'', ''vus_max'']"

definition find_row :: "string \<Rightarrow> (string \<times> 'v) list \<Rightarrow> (string \<times> 'v) option" where
  "find_row name rows = find (\<lambda>(n, _). n = name) rows"

definition opt_line :: "('r \<Rightarrow> string) \<Rightarrow> 'r option \<Rightarrow> string" where
  "opt_line f row = (case row of None \<Rightarrow> [] | Some r \<Rightarrow> f r)"

definition format_summary :: "'h metrics_snapshot \<Rightarrow> threshold_result list option \<Rightarrow> string" where
  "format_summary snap ths =
     (let tm = build_threshold_map ths
      in concat (map (rate_line tm) (filter (\<lambda>(n, _). n = ''checks'') (snap_rates snap))) @
         (if list_ex (\<lambda>(n, _). n = ''checks'') (snap_rates snap) then [CHR 0x0A] else []) @
         concat (map (data_line tm) (filter (\<lambda>(n, _). n = ''data_received'' \<or> n = ''data_sent'') (snap_counters snap))) @
         concat (map (\<lambda>name. opt_line (trend_line tm) (find_row name (snap_trends snap)) @
                              opt_line (rate_line tm) (find_row name (snap_rates snap))) http_order) @
         opt_line (counter_line tm) (find_row ''http_reqs'' (snap_counters snap)) @
         opt_line (trend_line tm) (find_row ''iteration_duration'' (snap_trends snap)) @
         opt_line (counter_line tm) (find_row ''iterations'' (snap_counters snap)) @
         opt_line dropped_line (find_row ''dropped_iterations'' (snap_counters snap)) @
         concat (map gauge_line (snap_gauges snap)) @
         concat (map (trend_line tm) (filter (\<lambda>(n, _). n \<notin> set printed) (snap_trends snap))) @
         concat (map (rate_line tm) (filter (\<lambda>(n, _). n \<notin> set printed) (snap_rates snap))) @
         concat (map (counter_line tm) (filter (\<lambda>(n, _). n \<notin> set printed) (snap_counters snap))))"


section \<open>Groups\<close>

text \<open>The group of the data object under a path of names.\<close>

fun summary_at :: "string list \<Rightarrow> summary_group \<Rightarrow> summary_group option" where
  "summary_at [] g = Some g"
| "summary_at (seg # segs) g = (case map_of (sg_groups g) seg of None \<Rightarrow> None | Some c \<Rightarrow> summary_at segs c)"

lemma map_of_values: "map_of (map (\<lambda>x. (fst x, f (snd x))) cs) k = map_option f (map_of cs k)"
  by (induction cs) auto

lemma summary_at_convert:
  "summary_at segs (convert_group md5 (group_snapshot_of H n)) =
     map_option (\<lambda>m. convert_group md5 (group_snapshot_of H m)) (cursor_get segs n)"
proof (induction segs arbitrary: n)
  case (Cons seg segs)
  obtain nm p cs ks d where n: "n = GroupNode nm p cs ks d" by (cases n)
  have "map_of (sg_groups (convert_group md5 (group_snapshot_of H n))) seg =
      map_option (\<lambda>m. convert_group md5 (group_snapshot_of H m)) (map_of (gn_children n) seg)"
    using map_of_values[of "\<lambda>m. convert_group md5 (group_snapshot_of H m)" cs seg]
    by (simp add: n comp_def case_prod_beta)
  then show ?case using Cons by (simp split: option.splits)
qed simp

lemma summary_checks_convert:
  "map_of (sg_checks (convert_group md5 (group_snapshot_of H n))) name =
     map_option (\<lambda>r. \<lparr>sck_name = name, sck_path = gn_path n @ ''::'' @ name, sck_id = md5 (gn_path n @ ''::'' @ name),
       sck_passes = chk_passes r, sck_fails = chk_fails r\<rparr>) (map_of (gn_checks n) name)"
proof -
  have "map_of (map (convert_check md5 p) (map (\<lambda>(k, r). (k, (chk_passes r, chk_fails r))) ks)) name =
      map_option (\<lambda>r. \<lparr>sck_name = name, sck_path = p @ ''::'' @ name, sck_id = md5 (p @ ''::'' @ name),
        sck_passes = chk_passes r, sck_fails = chk_fails r\<rparr>) (map_of ks name)" for p ks
    by (induction ks) (auto simp: convert_check_def Let_def)
  then show ?thesis by (cases n) (simp del: map_map)
qed

section \<open>Synthesized metrics\<close>

lemma matches_eq:
  "selector_parse key = Inr sel \<Longrightarrow> stored_is_subset_match key stored = synth_matches sel stored"
  by (auto simp: stored_is_subset_match_def synth_matches_def tags_superset_def split: sum.splits)

definition acc_agree :: "'h synth_acc \<Rightarrow> 'h trend_acc \<Rightarrow> bool" where
  "acc_agree a t \<longleftrightarrow> sa_count a = ta_count t \<and> sa_sum a = ta_sum t \<and> sa_min a = ta_min t \<and> sa_max a = ta_max t \<and>
     sa_hist a = ta_hist t \<and> (sa_had a \<longleftrightarrow> ta_fallback t \<noteq> None)"

lemma fold_agree:
  assumes "selector_parse key = Inr sel" "acc_agree a t"
  shows "acc_agree (fold (synth_step H sel snap) rows a) (fold (trend_acc_step H key snap) rows t)"
  using assms(2)
proof (induction rows arbitrary: a t)
  case (Cons row rows)
  have "acc_agree (synth_step H sel snap row a) (trend_acc_step H key snap row t)"
    using Cons.prems matches_eq[OF assms(1)]
    by (cases row) (auto simp: acc_agree_def synth_step_def trend_acc_step_def Let_def split: option.splits)
  then show ?case using Cons.IH by simp
qed simp

lemma merged_counter_loop_fold:
  assumes "selector_parse key = Inr sel"
  shows "merged_counter_loop key (v, x, b) rows =
    (let cs = filter (\<lambda>(stored, _). synth_matches sel stored) rows
     in (fold (\<lambda>(_, v, _) s. s + v) cs v, fold (\<lambda>(_, _, r) s. fadd s r) cs x, b \<or> cs \<noteq> []))"
proof (induction rows arbitrary: v x b)
  case (Cons row rows)
  then show ?case by (cases row) (auto simp: Let_def matches_eq[OF assms])
qed simp

lemma merged_rate_loop_fold:
  assumes "selector_parse key = Inr sel"
  shows "merged_rate_loop key (p, t, b) rows =
    (let rs = filter (\<lambda>(stored, _). synth_matches sel stored) rows
     in (fold (\<lambda>(_, _, p, _) s. s + p) rs p, fold (\<lambda>(_, _, _, t) s. s + t) rs t, b \<or> rs \<noteq> []))"
proof (induction rows arbitrary: p t b)
  case (Cons row rows)
  then show ?case by (cases row) (auto simp: Let_def matches_eq[OF assms])
qed simp

text \<open>The synthesized metric of a threshold key in terms of what the threshold evaluation merges.\<close>

definition merged_metric :: "'h hdr \<Rightarrow> metric_selector \<Rightarrow> 'h merged_trend \<Rightarrow> summary_metric" where
  "merged_metric H sel t =
     \<lparr>sm_type = ''trend'', sm_contains = time_or_default (sel_name sel),
      sm_values = values_of
        [(''avg'', mt_avg t), (''min'', mt_min t), (''med'', synth_quantile H (mt_histogram t) (1 / 2)), (''max'', mt_max t),
         (''p(90)'', synth_quantile H (mt_histogram t) (9 / 10)), (''p(95)'', synth_quantile H (mt_histogram t) (95 / 100)),
         (''p(99)'', synth_quantile H (mt_histogram t) (99 / 100)), (''count'', f_of_u64 (mt_count t))]\<rparr>"

lemma synthesize_merged:
  assumes "selector_parse key = Inr sel"
  shows "synthesize_subset_metric H sel snap =
    (case merged_trend_for_threshold H key snap of Some t \<Rightarrow> Some (merged_metric H sel t)
     | None \<Rightarrow> (case merged_counter_for_threshold key snap of Some (value, rate) \<Rightarrow> Some (counter_metric value rate)
     | None \<Rightarrow> (case merged_rate_for_threshold key snap of Some (rate, passes, tot) \<Rightarrow> Some (rate_summary rate passes tot)
     | None \<Rightarrow> None)))"
proof -
  let ?a = "fold (synth_step H sel snap) (snap_trends snap) \<lparr>sa_had = False, sa_count = 0, sa_sum = f0, sa_min = f64_max, sa_max = f64_min, sa_hist = None\<rparr>"
  let ?t = "fold (trend_acc_step H key snap) (snap_trends snap) \<lparr>ta_count = 0, ta_sum = f0, ta_min = f64_max, ta_max = f64_min, ta_hist = None, ta_fallback = None\<rparr>"
  have ag: "acc_agree ?a ?t" by (rule fold_agree[OF assms]) (simp add: acc_agree_def)
  show ?thesis
  proof (cases "ta_fallback ?t")
    case None
    then have "\<not> sa_had ?a" "merged_trend_for_threshold H key snap = None" using ag by (simp_all add: acc_agree_def merged_trend_for_threshold_def Let_def)
    then show ?thesis
      by (auto simp: synthesize_subset_metric_def Let_def merged_counter_for_threshold_def merged_rate_for_threshold_def
          merged_counter_loop_fold[OF assms] merged_rate_loop_fold[OF assms] rate_ratio_def)
  next
    case (Some fb)
    then have "sa_had ?a" using ag by (simp add: acc_agree_def)
    moreover obtain t where t: "merged_trend_for_threshold H key snap = Some t" using Some by (simp add: merged_trend_for_threshold_def Let_def)
    moreover have "synth_trend H sel ?a = merged_metric H sel t"
      using t Some ag by (auto simp: merged_trend_for_threshold_def Let_def synth_trend_def merged_metric_def acc_agree_def)
    ultimately show ?thesis by (simp add: synthesize_subset_metric_def Let_def)
  qed
qed


section \<open>The metrics of the data object\<close>

lemma parsed_selectors_in: "key \<in> set ks \<Longrightarrow> selector_parse key = Inr sel \<Longrightarrow> sel_tags sel \<noteq> [] \<Longrightarrow> sel \<in> set (parsed_selectors ks)"
  by (induction ks) (auto split: sum.splits)

lemma auto_selector_parse: "selector_parse ''http_req_duration{expected_response:true}'' = Inr auto_selector"
  unfolding auto_selector_def by code_simp

lemma parsed_selectors_wf: "sel \<in> set (parsed_selectors ks) \<Longrightarrow> selector_wf sel"
  by (induction ks) (auto split: sum.splits if_splits dest: selector_parse_ok)

lemma threshold_selectors_wf: "sel \<in> set (threshold_selectors ths) \<Longrightarrow> selector_wf sel"
  using selector_parse_ok[OF auto_selector_parse] by (auto simp: threshold_selectors_def dest: parsed_selectors_wf split: option.splits)

lemma synth_fold_other:
  "\<forall>x \<in> set sels. canonical x \<noteq> name \<Longrightarrow> map_of (fold (insert_synth H snap) sels m) name = map_of m name"
  by (induction sels arbitrary: m) (auto simp: insert_synth_def hm_get_put split: option.splits)

lemma synth_fold_found:
  assumes "\<forall>x \<in> set sels. selector_wf x" "sel \<in> set sels" "synthesize_subset_metric H sel snap = Some y"
  shows "map_of (fold (insert_synth H snap) sels m) (canonical sel) = Some y"
  using assms(1,2)
proof (induction sels arbitrary: m)
  case (Cons s sels)
  show ?case
  proof (cases "sel \<in> set sels")
    case True
    then show ?thesis using Cons by simp
  next
    case False
    then have s: "s = sel" using Cons.prems(2) by simp
    have "canonical x \<noteq> canonical sel" if "x \<in> set sels" for x
      using canonical_inj[of x sel] that Cons.prems False by auto
    then show ?thesis using assms(3) synth_fold_other[of sels "canonical sel" H snap] s by (simp add: insert_synth_def[of H snap sel] hm_get_put)
  qed
qed simp

lemma synth_fold_keys:
  "map_of (fold (insert_synth H snap) sels m) name \<noteq> None \<longleftrightarrow>
     map_of m name \<noteq> None \<or> (\<exists>x \<in> set sels. canonical x = name \<and> synthesize_subset_metric H x snap \<noteq> None)"
  by (induction sels arbitrary: m) (auto simp: insert_synth_def hm_get_put split: option.splits if_splits)

lemma put_rows_keys:
  "map_of (fold (\<lambda>(name, metric) m. hm_put name metric m) rows m) name \<noteq> None \<longleftrightarrow> map_of m name \<noteq> None \<or> name \<in> fst ` set rows"
  by (induction rows arbitrary: m) (auto simp: hm_get_put split: if_splits)

definition row_names :: "'h metrics_snapshot \<Rightarrow> string set" where
  "row_names snap = fst ` set (snap_counters snap) \<union> fst ` set (snap_gauges snap) \<union> fst ` set (snap_rates snap) \<union> fst ` set (snap_trends snap)"

lemma plain_rows_names: "fst ` set (plain_rows ths snap) = {n \<in> row_names snap. include_tagged ths n}"
proof -
  have f: "fst ` set (filter (\<lambda>(n, _). P n) xs) = {n \<in> fst ` set xs. P n}" for P and xs :: "(string \<times> summary_metric) list" by force
  have i: "fst ` set (map (\<lambda>r. (fst r, g r)) xs) = fst ` set xs" for g :: "_ \<Rightarrow> summary_metric" and xs :: "(string \<times> _) list" by force
  show ?thesis unfolding plain_rows_def f row_names_def by (simp add: image_Un case_prod_beta image_image)
qed

lemma values_of_get: "distinct (map fst kvs) \<Longrightarrow> map_of (values_of kvs) k = map_of kvs k"
proof -
  have "map_of (fold (\<lambda>(k, v) m. hm_put k v m) kvs m) k = (case map_of kvs k of None \<Rightarrow> map_of m k | Some v \<Rightarrow> Some v)"
    if "distinct (map fst kvs)" for m
    using that
  proof (induction kvs arbitrary: m)
    case (Cons kv kvs)
    then have "map_of kvs (fst kv) = None" by (simp add: map_of_eq_None_iff)
    then show ?case using Cons by (cases kv) (auto simp: hm_get_put split: option.splits)
  qed simp
  then show "distinct (map fst kvs) \<Longrightarrow> map_of (values_of kvs) k = map_of kvs k" by (simp add: values_of_def split: option.splits)
qed

lemma percent_quotients:
  "fdiv (flit 50) (flit 100) = flit (1 / 2)" "fdiv (flit 90) (flit 100) = flit (9 / 10)"
  "fdiv (flit 95) (flit 100) = flit (95 / 100)" "fdiv (flit 99) (flit 100) = flit (99 / 100)"
  by code_simp+

lemma percent_clamped:
  "fclamp (flit (1 / 2)) f0 (flit 1) = flit (1 / 2)" "fclamp (flit (9 / 10)) f0 (flit 1) = flit (9 / 10)"
  "fclamp (flit (95 / 100)) f0 (flit 1) = flit (95 / 100)" "fclamp (flit (99 / 100)) f0 (flit 1) = flit (99 / 100)"
  by code_simp+

lemma percent_literals:
  "fclamp (fdiv (flit 50) (flit 100)) f0 (flit 1) = flit (1 / 2)" "fclamp (fdiv (flit 90) (flit 100)) f0 (flit 1) = flit (9 / 10)"
  "fclamp (fdiv (flit 95) (flit 100)) f0 (flit 1) = flit (95 / 100)" "fclamp (fdiv (flit 99) (flit 100)) f0 (flit 1) = flit (99 / 100)"
  by (simp_all only: percent_quotients percent_clamped)

lemma percentile_quantile:
  assumes "mt_histogram t = Some h" "0 < hdr_len H h"
  shows "percentile_from H t (flit 50) = synth_quantile H (mt_histogram t) (1 / 2)" "percentile_from H t (flit 90) = synth_quantile H (mt_histogram t) (9 / 10)"
    "percentile_from H t (flit 95) = synth_quantile H (mt_histogram t) (95 / 100)" "percentile_from H t (flit 99) = synth_quantile H (mt_histogram t) (99 / 100)"
  using assms by (simp_all add: percentile_from_def synth_quantile_def percent_literals)

lemma summary_dom:
  "name \<in> dom (map_of (sd_metrics (build_summary_data md5 tty H snap dur ths))) \<longleftrightarrow>
     name \<in> row_names snap \<and> (CHR ''{'' \<notin> set name \<or> ths = None \<or> name \<in> canonical ` set (threshold_selectors ths)) \<or>
     (\<exists>sel \<in> set (threshold_selectors ths). canonical sel = name \<and> synthesize_subset_metric H sel snap \<noteq> None)"
proof -
  have "name \<in> dom (map_of (sd_metrics (build_summary_data md5 tty H snap dur ths))) \<longleftrightarrow>
      name \<in> fst ` set (plain_rows ths snap) \<or>
      (\<exists>sel \<in> set (threshold_selectors ths). canonical sel = name \<and> synthesize_subset_metric H sel snap \<noteq> None)"
    unfolding build_summary_data_def by (simp only: summary_data.simps domIff synth_fold_keys put_rows_keys) simp
  then show ?thesis unfolding plain_rows_names by (auto simp: include_tagged_def)
qed

lemma summary_metrics_wf: "hm_wf (sd_metrics (build_summary_data md5 tty H snap dur ths))"
proof -
  have "hm_wf (fold (insert_synth H snap) sels m)" if "hm_wf m" for sels m
    using that by (induction sels arbitrary: m) (auto simp: insert_synth_def split: option.splits)
  moreover have "hm_wf (fold (\<lambda>(name, metric) m. hm_put name metric m) rows [])" for rows :: "(string \<times> summary_metric) list"
    by (rule hm.wf_puts[OF hm.wf_Nil])
  ultimately show ?thesis by (simp add: build_summary_data_def)
qed

section \<open>Properties\<close>

text \<open>The statistics of a summary metric under their names.\<close>

definition stat_names :: "string \<Rightarrow> (string \<times> threshold_stat) list" where
  "stat_names kind =
     (if kind = ''trend'' then
        [(''avg'', SAvg), (''min'', SMin), (''med'', SMed), (''max'', SMax), (''p(90)'', SPercentile (flit 90)),
         (''p(95)'', SPercentile (flit 95)), (''p(99)'', SPercentile (flit 99)), (''count'', SCount)]
      else if kind = ''counter'' then [(''count'', SCount), (''rate'', SRate)]
      else [(''rate'', SRate)])"

text \<open>C24.  The summary shows what a threshold was judged on.  For a threshold on a tagged metric that some
  stored entry matches (with a non-empty histogram, when it is a trend), the data object has an entry
  under the canonical text of the key, and each of its statistics is the value to which the threshold
  evaluation resolves that statistic.\<close>

theorem summary_shows_threshold_values:
  assumes "map_of ths key = Some conds" "selector_parse key = Inr sel" "sel_tags sel \<noteq> []"
    and "case merged_trend_for_threshold (hist D) key snap of
           Some t \<Rightarrow> (case mt_histogram t of None \<Rightarrow> False | Some h \<Rightarrow> 0 < hdr_len (hist D) h)
         | None \<Rightarrow> \<not> (merged_counter_for_threshold key snap = None \<and> merged_rate_for_threshold key snap = None)"
  shows "\<exists>x. map_of (sd_metrics (build_summary_data md5 tty (hist D) snap dur (Some ths))) (canonical sel) = Some x \<and>
    list_all (\<lambda>(n, st). map_of (sm_values x) n = Some (resolve_stat D key st snap)) (stat_names (sm_type x))"
proof -
  have "key \<in> set (map fst ths)" using assms(1) by (force dest: map_of_SomeD)
  then have sel: "sel \<in> set (threshold_selectors (Some ths))" using parsed_selectors_in assms(2,3) by (simp add: threshold_selectors_def)
  have lookup: "map_of (sd_metrics (build_summary_data md5 tty (hist D) snap dur (Some ths))) (canonical sel) = Some y"
    if "synthesize_subset_metric (hist D) sel snap = Some y" for y
    using synth_fold_found[OF _ sel that] threshold_selectors_wf by (simp add: build_summary_data_def)
  note syn = synthesize_merged[OF assms(2), of "hist D" snap]
  show ?thesis
  proof (cases "merged_trend_for_threshold (hist D) key snap")
    case (Some t)
    then obtain h where h: "mt_histogram t = Some h" "0 < hdr_len (hist D) h" using assms(4) by (auto split: option.splits)
    have "map_of (sd_metrics (build_summary_data md5 tty (hist D) snap dur (Some ths))) (canonical sel) = Some (merged_metric (hist D) sel t)"
      by (rule lookup) (simp add: syn Some)
    then show ?thesis using percentile_quantile[OF h] by (simp add: merged_metric_def values_of_get stat_names_def resolve_stat_def Some)
  next
    case nt: None
    show ?thesis
    proof (cases "merged_counter_for_threshold key snap")
      case (Some vr)
      obtain v r where vr: "vr = (v, r)" by fastforce
      have "map_of (sd_metrics (build_summary_data md5 tty (hist D) snap dur (Some ths))) (canonical sel) = Some (counter_metric v r)"
        by (rule lookup) (simp add: syn nt Some vr)
      then show ?thesis by (simp add: counter_metric_def values_of_get stat_names_def resolve_stat_def nt Some vr stat_of_counter_def)
    next
      case None
      then obtain r p t where rp: "merged_rate_for_threshold key snap = Some (r, p, t)" using assms(4) nt by auto
      have "map_of (sd_metrics (build_summary_data md5 tty (hist D) snap dur (Some ths))) (canonical sel) = Some (rate_summary r p t)"
        by (rule lookup) (simp add: syn nt None rp)
      then show ?thesis by (simp add: rate_summary_def values_of_get stat_names_def resolve_stat_def nt None rp stat_of_rate_def)
    qed
  qed
qed


definition example_rows :: "u64 list metrics_snapshot" where
  "example_rows = empty_snapshot\<lparr>snap_counters := [(''m'', 9, flit 3), (''m{a:1,b:2}'', 4, flit 2), (''m{a:1}'', 5, flit 1)],
     snap_gauges := [(''level'', flit (5 / 2), flit (- 3), flit (5 / 2))]\<rparr>"

theorem summary_shows_threshold_values_witness:
  "selector_parse ''m{a:1}'' = Inr \<lparr>sel_name = ''m'', sel_tags = [(''a'', ''1'')]\<rparr> \<and>
   (\<exists>x. map_of (sd_metrics (build_summary_data (\<lambda>_. []) False list_hdr example_rows 1 (Some [(''m{a:1}'', [])]))) ''m{a:1}'' = Some x \<and>
      list_all (\<lambda>(n, st). map_of (sm_values x) n = Some (resolve_stat example_deps ''m{a:1}'' st example_rows)) (stat_names (sm_type x))) \<and>
   resolve_stat example_deps ''m{a:1}'' SCount example_rows = flit 9"
proof -
  let ?sel = "\<lparr>sel_name = ''m'', sel_tags = [(''a'', ''1'')]\<rparr>"
  have p: "selector_parse ''m{a:1}'' = Inr ?sel" by code_simp
  have c: "canonical ?sel = ''m{a:1}''" by code_simp
  have h: "hist example_deps = list_hdr" by (simp add: example_deps_def)
  have m: "case merged_trend_for_threshold (hist example_deps) ''m{a:1}'' example_rows of
           Some t \<Rightarrow> (case mt_histogram t of None \<Rightarrow> False | Some h \<Rightarrow> 0 < hdr_len (hist example_deps) h)
         | None \<Rightarrow> \<not> (merged_counter_for_threshold ''m{a:1}'' example_rows = None \<and> merged_rate_for_threshold ''m{a:1}'' example_rows = None)"
    by code_simp
  have v: "resolve_stat example_deps ''m{a:1}'' SCount example_rows = flit 9" by code_simp
  show ?thesis
    using p v summary_shows_threshold_values[OF _ p _ m, of "[(''m{a:1}'', [])]" "[]" "\<lambda>_. []" False 1] by (simp add: c h)
qed


text \<open>Which metrics the summary holds.  With thresholds given, the data object has every metric of the
  snapshot whose name has no tags, and the tagged metrics in it are those named by a tagged threshold
  (or the one that is always tracked) and held by the snapshot or merged from it; without
  thresholds it has every metric of the snapshot.\<close>

lemma summary_metric_names:
  "name \<in> dom (map_of (sd_metrics (build_summary_data md5 tty H snap dur ths))) \<longleftrightarrow>
     name \<in> row_names snap \<and> (CHR ''{'' \<notin> set name \<or> ths = None \<or> name \<in> canonical ` set (threshold_selectors ths)) \<or>
     (\<exists>sel \<in> set (threshold_selectors ths). canonical sel = name \<and> synthesize_subset_metric H sel snap \<noteq> None)"
  by (rule summary_dom)

text \<open>The summary shows every check.  Looking up a group path and a check name in the tree of the data
  object gives the counters the registry holds for that check, and the entry carries the path of its
  group and the digest of its own path.\<close>

lemma summary_shows_checks:
  "case summary_at (group_path_segments path) (convert_group md5 (group_snapshot_of H tree)) of
     None \<Rightarrow> cursor_get (group_path_segments path) tree = None \<and> check_get path name tree = (0, 0)
   | Some g \<Rightarrow>
       (case map_of (sg_checks g) name of
          None \<Rightarrow> check_get path name tree = (0, 0)
        | Some c \<Rightarrow> check_get path name tree = (sck_passes c, sck_fails c) \<and> sck_path c = sg_path g @ ''::'' @ name \<and>
            sck_id c = md5 (sck_path c))"
proof -
  have p: "sg_path (convert_group md5 (group_snapshot_of H m)) = gn_path m" for m by (cases m) simp
  show ?thesis
    by (auto simp: summary_at_convert summary_checks_convert check_get_def p split: option.splits)
qed

section \<open>The text\<close>

text \<open>Names shorter than the column are dotted to it.\<close>

lemma dots_column: "length name < 33 \<Longrightarrow> length (name @ dots name 33) = 35"
  by (simp add: dots_def Let_def)

lemma sublist_concat_map: "x \<in> set xs \<Longrightarrow> sublist (f x) (concat (map f xs))"
  by (induction xs) (auto intro: sublist_appendI sublist_order.order.trans[OF _ sublist_append_leftI] simp: sublist_append)

lemma sublist_app: "sublist x a \<Longrightarrow> sublist x (a @ b)" "sublist x b \<Longrightarrow> sublist x (a @ b)"
  by (simp_all add: sublist_append)


lemma find_row_in: "distinct (map fst rows) \<Longrightarrow> r \<in> set rows \<Longrightarrow> find_row (fst r) rows = Some r"
  by (induction rows) (auto simp: find_row_def)

lemma opt_line_row: "distinct (map fst rows) \<Longrightarrow> r \<in> set rows \<Longrightarrow> fst r = n \<Longrightarrow> opt_line f (find_row n rows) = f r"
  by (auto simp: opt_line_def find_row_in)

lemma sublist_filtered: "r \<in> set rows \<Longrightarrow> P r \<Longrightarrow> sublist (f r) (concat (map f (filter P rows)))"
  by (rule sublist_concat_map) simp

lemma http_order_printed: "set http_order \<subseteq> set printed" by (simp add: http_order_def printed_def)

text \<open>The names that have a line of their own for each kind of metric.\<close>

definition trend_shown :: "string \<Rightarrow> bool" where
  "trend_shown n \<longleftrightarrow> n \<notin> set printed \<or> n \<in> set http_order \<or> n = ''iteration_duration''"

definition rate_shown :: "string \<Rightarrow> bool" where
  "rate_shown n \<longleftrightarrow> n \<notin> set printed \<or> n \<in> set http_order \<or> n = ''checks''"

definition counter_text :: "(string, bool) hm \<Rightarrow> string \<times> u64 \<times> f64 \<Rightarrow> string" where
  "counter_text tm row =
     (if fst row = ''data_received'' \<or> fst row = ''data_sent'' then data_line tm row
      else if fst row = ''dropped_iterations'' then dropped_line row else counter_line tm row)"

definition counter_shown :: "string \<Rightarrow> bool" where
  "counter_shown n \<longleftrightarrow> n \<notin> set printed \<or> n \<in> {''data_received'', ''data_sent'', ''http_reqs'', ''iterations'', ''dropped_iterations''}"

lemma trend_line_shown:
  assumes "distinct (map fst (snap_trends snap))" "r \<in> set (snap_trends snap)" "trend_shown (fst r)"
  shows "sublist (trend_line (build_threshold_map ths) r) (format_summary snap ths)"
proof -
  let ?t = "trend_line (build_threshold_map ths)"
  consider "fst r \<notin> set printed" | "fst r \<in> set http_order" | "fst r = ''iteration_duration''" using assms(3) by (auto simp: trend_shown_def)
  then show ?thesis
  proof cases
    case 1
    then have "sublist (?t r) (concat (map ?t (filter (\<lambda>(n, _). n \<notin> set printed) (snap_trends snap))))"
      by (intro sublist_filtered[OF assms(2)]) auto
    then show ?thesis unfolding format_summary_def Let_def by (intro sublist_app)
  next
    case 2
    let ?f = "\<lambda>name. opt_line ?t (find_row name (snap_trends snap)) @ opt_line (rate_line (build_threshold_map ths)) (find_row name (snap_rates snap))"
    have "sublist (?t r) (?f (fst r))" using opt_line_row[OF assms(1,2) refl, of ?t] by simp
    then have "sublist (?t r) (concat (map ?f http_order))" using sublist_concat_map[OF 2, of ?f] by (blast intro: sublist_order.order.trans)
    then show ?thesis unfolding format_summary_def Let_def by (simp add: sublist_app)
  next
    case 3
    then show ?thesis using opt_line_row[OF assms(1,2) 3, of ?t] unfolding format_summary_def Let_def by (simp add: sublist_app)
  qed
qed

lemma rate_line_shown:
  assumes "distinct (map fst (snap_rates snap))" "r \<in> set (snap_rates snap)" "rate_shown (fst r)"
  shows "sublist (rate_line (build_threshold_map ths) r) (format_summary snap ths)"
proof -
  let ?t = "rate_line (build_threshold_map ths)"
  consider "fst r \<notin> set printed" | "fst r \<in> set http_order" | "fst r = ''checks''" using assms(3) by (auto simp: rate_shown_def)
  then show ?thesis
  proof cases
    case 1
    then have "sublist (?t r) (concat (map ?t (filter (\<lambda>(n, _). n \<notin> set printed) (snap_rates snap))))"
      by (intro sublist_filtered[OF assms(2)]) auto
    then show ?thesis unfolding format_summary_def Let_def by (intro sublist_app)
  next
    case 2
    let ?f = "\<lambda>name. opt_line (trend_line (build_threshold_map ths)) (find_row name (snap_trends snap)) @ opt_line ?t (find_row name (snap_rates snap))"
    have "sublist (?t r) (?f (fst r))" using opt_line_row[OF assms(1,2) refl, of ?t] by simp
    then have "sublist (?t r) (concat (map ?f http_order))" using sublist_concat_map[OF 2, of ?f] by (blast intro: sublist_order.order.trans)
    then show ?thesis unfolding format_summary_def Let_def by (simp add: sublist_app)
  next
    case 3
    then have "sublist (?t r) (concat (map ?t (filter (\<lambda>(n, _). n = ''checks'') (snap_rates snap))))"
      by (intro sublist_filtered[OF assms(2)]) auto
    then show ?thesis unfolding format_summary_def Let_def by (intro sublist_app)
  qed
qed

lemma counter_line_shown:
  assumes "distinct (map fst (snap_counters snap))" "r \<in> set (snap_counters snap)" "counter_shown (fst r)"
  shows "sublist (counter_text (build_threshold_map ths) r) (format_summary snap ths)"
proof -
  let ?t = "counter_line (build_threshold_map ths)" and ?d = "data_line (build_threshold_map ths)"
  consider "fst r \<notin> set printed" | "fst r = ''data_received'' \<or> fst r = ''data_sent''"
    | "fst r = ''http_reqs''" | "fst r = ''iterations''" | "fst r = ''dropped_iterations''"
    using assms(3) by (auto simp: counter_shown_def)
  then show ?thesis
  proof cases
    case 1
    then have "sublist (?t r) (concat (map ?t (filter (\<lambda>(n, _). n \<notin> set printed) (snap_counters snap))))"
      by (intro sublist_filtered[OF assms(2)]) auto
    moreover have "counter_text (build_threshold_map ths) r = ?t r" using 1 by (auto simp: counter_text_def printed_def)
    ultimately show ?thesis unfolding format_summary_def Let_def by (simp add: sublist_app)
  next
    case 2
    then have "sublist (?d r) (concat (map ?d (filter (\<lambda>(n, _). n = ''data_received'' \<or> n = ''data_sent'') (snap_counters snap))))"
      by (intro sublist_filtered[OF assms(2)]) auto
    then show ?thesis using 2 unfolding format_summary_def Let_def counter_text_def by (simp add: sublist_app)
  next
    case 3
    then show ?thesis using opt_line_row[OF assms(1,2) 3, of ?t] unfolding format_summary_def Let_def by (simp add: sublist_app counter_text_def)
  next
    case 4
    then show ?thesis using opt_line_row[OF assms(1,2) 4, of ?t] unfolding format_summary_def Let_def by (simp add: sublist_app counter_text_def)
  next
    case 5
    then show ?thesis using opt_line_row[OF assms(1,2) 5, of dropped_line] unfolding format_summary_def Let_def by (simp add: sublist_app counter_text_def)
  qed
qed

lemma gauge_line_shown:
  assumes "r \<in> set (snap_gauges snap)"
  shows "sublist (gauge_line r) (format_summary snap ths)"
  using sublist_concat_map[OF assms, of gauge_line] unfolding format_summary_def Let_def by (simp add: sublist_app)

text \<open>The text summary has a line for every metric.  In a snapshot whose names are distinct per kind,
  every trend, rate and counter outside the names reserved for another kind, and every gauge, has its
  line in the text, with the mark of its thresholds.\<close>

lemma summary_text_lines:
  assumes "distinct (map fst (snap_trends snap))" "distinct (map fst (snap_rates snap))" "distinct (map fst (snap_counters snap))"
  shows "list_all (\<lambda>r. trend_shown (fst r) \<longrightarrow> sublist (trend_line (build_threshold_map ths) r) (format_summary snap ths)) (snap_trends snap) \<and>
    list_all (\<lambda>r. rate_shown (fst r) \<longrightarrow> sublist (rate_line (build_threshold_map ths) r) (format_summary snap ths)) (snap_rates snap) \<and>
    list_all (\<lambda>r. counter_shown (fst r) \<longrightarrow> sublist (counter_text (build_threshold_map ths) r) (format_summary snap ths)) (snap_counters snap) \<and>
    list_all (\<lambda>r. sublist (gauge_line r) (format_summary snap ths)) (snap_gauges snap)"
  using trend_line_shown[OF assms(1)] rate_line_shown[OF assms(2)] counter_line_shown[OF assms(3)] gauge_line_shown
  by (auto simp: list_all_iff)

text \<open>A gauge is cut to a 32-bit integer in the text: the gauge with the value two and a half and the
  minimum minus three is shown as two with the minimum zero.\<close>

lemma gauge_line_cut:
  "gauge_line (''level'', flit (5 / 2), flit (- 3), flit (5 / 2)) = line_of ''level'' ''2 min=0 max=2''"
  by code_simp

text \<open>The text shows a metric as failed exactly when one of its thresholds failed, as passed when it has
  thresholds and all passed, and with no mark when it has none.\<close>

lemma build_threshold_map_get:
  "map_of (build_threshold_map_loop rs m) n =
     (if \<exists>r \<in> set rs. res_metric r = n
      then Some ((case map_of m n of None \<Rightarrow> True | Some b \<Rightarrow> b) \<and> list_all res_passed (filter (\<lambda>r. res_metric r = n) rs))
      else map_of m n)"
proof (induction rs arbitrary: m)
  case (Cons r rs)
  have "\<forall>r \<in> set rs. res_metric r \<noteq> n \<Longrightarrow> filter (\<lambda>r. res_metric r = n) rs = []" by (simp add: filter_empty_conv)
  then show ?case using Cons by (auto simp: Let_def hm_get_put split: option.splits)
qed simp

lemma threshold_marks:
  "threshold_mark (build_threshold_map (Some results)) n =
     (let rs = filter (\<lambda>r. res_metric r = n) results
      in if rs = [] then [] else if list_all res_passed rs then '' '' @ tick_mark else '' '' @ cross_mark)"
  by (auto simp: threshold_mark_def build_threshold_map_def build_threshold_map_get Let_def filter_empty_conv split: bool.splits)

end
