(* ===== verification/Control.thy ===== *)
theory Control
  imports Rust_Str Summary Json
begin

text \<open>
  The REST control surface (\<open>crates/k6-core/src/control.rs\<close>): the execution state with pause, resume
  and stop, the lifecycle hooks and their lock, the taint of thresholds, the parser of status patches, and
  the request dispatcher with the metric and group resources.  Parameters are \<open>serde_json\<close>, the digest of
  \<open>md5\<close>, tokio's \<open>Notify\<close> and the lifecycle hooks of the script; a \<open>CancellationToken\<close> is the flag it shows,
  and an \<open>Instant\<close> a number of nanoseconds.
\<close>

section \<open>State\<close>

record execution =
  ex_status :: u32
  ex_paused :: bool
  ex_started :: "int option"
  ex_ended :: "int option"
  ex_stopped :: bool

record ('n, 'c, 'h) control =
  execution_of :: execution
  active_vus :: u32
  initialized_vus :: u32
  cancel :: bool
  abort :: bool
  resume :: 'n
  ct_executor :: string
  ct_scenario :: string
  ct_registry :: "('c, 'h) registry"
  ct_thresholds :: thresholds
  tainted_metrics :: "(string, bool) hm"
  setup_data :: "string option"
  closing :: bool

text \<open>The library calls.  \<open>js_from_slice\<close> gives on an error whether the input ended and its message;
  \<open>ntf_poll\<close> is the wait of the one task that waits: the notification it consumes, if there is one.\<close>

record json_lib =
  js_from_slice :: "string \<Rightarrow> (bool \<times> string) + json"
  js_to_string :: "json \<Rightarrow> string"

record 'n notify =
  ntf_new :: 'n
  notify_one :: "'n \<Rightarrow> 'n"
  ntf_poll :: "'n \<Rightarrow> 'n option"

record ('n, 'c, 'h) control_deps =
  cd_deps :: "('c, 'h) deps"
  cd_notify :: "'n notify"
  cd_json :: json_lib
  cd_md5 :: "string \<Rightarrow> string"
  cd_tty :: bool
  cd_lifecycle :: "bool \<Rightarrow> string option \<Rightarrow> string + string option"

definition control_new ::
    "('n, 'c, 'h) control_deps \<Rightarrow> bool \<Rightarrow> u32 \<Rightarrow> string \<Rightarrow> string \<Rightarrow> ('c, 'h) registry \<Rightarrow> thresholds \<Rightarrow> bool \<Rightarrow> ('n, 'c, 'h) control" where
  "control_new X paused max_vus executor scenario registry ths cancelled =
     \<lparr>execution_of = \<lparr>ex_status = (if paused then 4 else 3), ex_paused = paused, ex_started = None, ex_ended = None, ex_stopped = False\<rparr>,
      active_vus = 0, initialized_vus = max_vus, cancel = cancelled, abort = False, resume = ntf_new (cd_notify X),
      ct_executor = executor, ct_scenario = scenario, ct_registry = registry, ct_thresholds = ths, tainted_metrics = [],
      setup_data = None, closing = False\<rparr>"

section \<open>Execution\<close>

text \<open>One round of \<open>wait_for_start\<close> under the execution lock: \<open>None\<close> when it goes on to wait.\<close>

definition start_check :: "int \<Rightarrow> ('n, 'c, 'h) control \<Rightarrow> ('n, 'c, 'h) control \<times> bool option" where
  "start_check now c =
     (if cancel c then (c, Some False)
      else if \<not> ex_paused (execution_of c)
      then (c\<lparr>execution_of := (execution_of c)\<lparr>ex_started := Some now, ex_status := 5\<rparr>\<rparr>, Some True)
      else (c, None))"

definition phase :: "u32 \<Rightarrow> ('n, 'c, 'h) control \<Rightarrow> ('n, 'c, 'h) control" where
  "phase p c = c\<lparr>execution_of := (execution_of c)\<lparr>ex_status := p\<rparr>\<rparr>"

definition stopped :: "('n, 'c, 'h) control \<Rightarrow> bool" where
  "stopped c = ex_stopped (execution_of c)"

definition elapsed :: "int \<Rightarrow> ('n, 'c, 'h) control \<Rightarrow> duration" where
  "elapsed now c =
     (let e = execution_of c
      in case ex_started e of
           None \<Rightarrow> 0
         | Some s \<Rightarrow> max 0 ((case ex_ended e of None \<Rightarrow> now | Some t \<Rightarrow> t) - s))"

section \<open>Taints\<close>

definition taints :: "('n, 'c, 'h) control_deps \<Rightarrow> 'h metrics_snapshot \<Rightarrow> ('n, 'c, 'h) control \<Rightarrow> (string, bool) hm" where
  "taints X snap c =
     fold (\<lambda>r m. hm_put (res_metric r) ((case map_of m (res_metric r) of None \<Rightarrow> False | Some b \<Rightarrow> b) \<or> \<not> res_passed r) m)
       (evaluate (cd_deps X) (ct_thresholds c) snap) []"

definition control_snapshot :: "('n, 'c, 'h) control_deps \<Rightarrow> int \<Rightarrow> ('n, 'c, 'h) control \<Rightarrow> 'h metrics_snapshot" where
  "control_snapshot X now c = snapshot (cd_deps X) (as_secs_f64 (elapsed now c)) (ct_registry c)"

definition update_taints :: "('n, 'c, 'h) control_deps \<Rightarrow> int \<Rightarrow> ('n, 'c, 'h) control \<Rightarrow> ('n, 'c, 'h) control" where
  "update_taints X now c =
     (if ct_thresholds c = [] then c
      else let snap = control_snapshot X now c;
               observed = sd_metrics (build_summary_data (cd_md5 X) (cd_tty X) (hist (cd_deps X)) snap 0 (Some (ct_thresholds c)))
           in c\<lparr>tainted_metrics := filter (\<lambda>(name, _). map_of observed name \<noteq> None) (taints X snap c)\<rparr>)"

definition end_run :: "('n, 'c, 'h) control_deps \<Rightarrow> int \<Rightarrow> ('n, 'c, 'h) control \<Rightarrow> ('n, 'c, 'h) control" where
  "end_run X now c =
     (let c = update_taints X now c; e = execution_of c
      in c\<lparr>execution_of := e\<lparr>ex_ended := Some now, ex_status := (if ex_stopped e then 10 else 9)\<rparr>, active_vus := 0\<rparr>)"

section \<open>JSON\<close>

text \<open>The \<open>json!\<close> object with its entries in source order.\<close>

definition jobj :: "(string \<times> json) list \<Rightarrow> json" where
  "jobj kvs = JObject (fold (\<lambda>(k, v) m. bt_put k v m) kvs [])"

definition jnat :: "'w::len word \<Rightarrow> json" where
  "jnat n = JNumber (PosInt (word_of_int (uint n)))"

definition jfloat :: "f64 \<Rightarrow> json" where
  "jfloat x = (case x of F64_Fin _ _ _ \<Rightarrow> JNumber (Float x) | _ \<Rightarrow> JNull)"

fun as_i64 :: "json \<Rightarrow> int option" where
  "as_i64 (JNumber (PosInt n)) = (if uint n < 2 ^ 63 then Some (uint n) else None)"
| "as_i64 (JNumber (NegInt n)) = Some n"
| "as_i64 _ = None"

definition parse_i64 :: "string \<Rightarrow> int option" where
  "parse_i64 s =
     (let (neg, d) = split_sign s; v = (if neg then - digits_val 0 d else digits_val 0 d)
      in if d \<noteq> [] \<and> list_all is_digit d \<and> - (2 ^ 63) \<le> v \<and> v < 2 ^ 63 then Some v else None)"

definition hex_digit :: "int \<Rightarrow> char" where
  "hex_digit n = (if n < 10 then char_of (48 + n) else char_of (87 + n))"

text \<open>The format \<open>{:?}\<close> of a string; bytes outside ASCII are kept, as printable characters are.\<close>

definition debug_char :: "char \<Rightarrow> string" where
  "debug_char c =
     (let n = (of_char c :: int)
      in if c = CHR 0x22 \<or> c = CHR 0x5C then [CHR 0x5C, c]
         else if n = 0 then [CHR 0x5C, CHR ''0'']
         else if n = 9 then [CHR 0x5C, CHR ''t'']
         else if n = 10 then [CHR 0x5C, CHR ''n'']
         else if n = 13 then [CHR 0x5C, CHR ''r'']
         else if n < 32 \<or> n = 127
         then [CHR 0x5C] @ ''u{'' @ (if n < 16 then [hex_digit n] else [hex_digit (n div 16), hex_digit (n mod 16)]) @ ''}''
         else [c])"

definition debug_str :: "string \<Rightarrow> string" where
  "debug_str s = [CHR 0x22] @ concat (map debug_char s) @ [CHR 0x22]"

section \<open>Status patches\<close>

record api_error =
  ae_status :: int
  ae_title :: string
  ae_detail :: string

record patch_req =
  pt_stopped :: bool
  pt_paused :: "bool option"
  pt_scale :: bool

definition parse_json :: "json_lib \<Rightarrow> string \<Rightarrow> string + json" where
  "parse_json J body =
     (case js_from_slice J body of
        Inr v \<Rightarrow> Inr v
      | Inl (eof, msg) \<Rightarrow> Inl (if eof then ''unexpected end of JSON input'' else msg))"

definition eq_ignore_ascii_case :: "string \<Rightarrow> string \<Rightarrow> bool" where
  "eq_ignore_ascii_case a b \<longleftrightarrow> map to_lower a = map to_lower b"

definition field :: "json \<Rightarrow> string \<Rightarrow> json" where
  "field v name =
     (case as_object v of
        None \<Rightarrow> JNull
      | Some obj \<Rightarrow> (case find (\<lambda>(k, _). eq_ignore_ascii_case k name) obj of None \<Rightarrow> JNull | Some (_, x) \<Rightarrow> x))"

fun json_kind :: "json \<Rightarrow> string" where
  "json_kind (JString _) = ''string''"
| "json_kind (JNumber _) = ''number''"
| "json_kind (JBool _) = ''bool''"
| "json_kind (JArray _) = ''array''"
| "json_kind _ = ''object''"

fun null_or :: "(json \<Rightarrow> bool) \<Rightarrow> json \<Rightarrow> bool" where
  "null_or P JNull = True"
| "null_or P v = P v"

definition is_object :: "json \<Rightarrow> bool" where "is_object v \<longleftrightarrow> as_object v \<noteq> None"
definition is_string :: "json \<Rightarrow> bool" where "is_string v \<longleftrightarrow> as_str v \<noteq> None"
definition is_boolean :: "json \<Rightarrow> bool" where "is_boolean v \<longleftrightarrow> as_bool v \<noteq> None"

definition unmarshal :: "json \<Rightarrow> string \<Rightarrow> string" where
  "unmarshal v what = ''json: cannot unmarshal '' @ json_kind v @ '' into Go '' @ what"

text \<open>The first entry of a list that fails its test gives the error.\<close>

fun check_all :: "(json \<times> (json \<Rightarrow> bool) \<times> string) list \<Rightarrow> string + unit" where
  "check_all [] = Inr ()"
| "check_all ((v, P, what) # rest) = (if null_or P v then check_all rest else Inl (unmarshal v what))"

definition parse_paused :: "json \<Rightarrow> string + bool option" where
  "parse_paused v =
     (case v of
        JNull \<Rightarrow> Inr None
      | JBool b \<Rightarrow> Inr (Some b)
      | JObject _ \<Rightarrow>
          (case check_all (map (\<lambda>name. (field v name, is_boolean, ''struct field NullBool.'' @ name @ '' of type bool'')) [''Bool'', ''Valid'']) of
             Inl e \<Rightarrow> Inl e
           | Inr _ \<Rightarrow> Inr (Some (case as_bool (field v ''Bool'') of None \<Rightarrow> False | Some b \<Rightarrow> b)))
      | x \<Rightarrow> Inl (unmarshal x ''value of type null.Bool''))"

definition parse_scale :: "json \<Rightarrow> string + bool" where
  "parse_scale v =
     (case v of
        JNull \<Rightarrow> Inr False
      | JString s \<Rightarrow>
          if s = [] then Inr False
          else (case parse_i64 s of
                  None \<Rightarrow> Inl (''strconv.ParseInt: parsing '' @ debug_str s @ '': invalid syntax'')
                | Some _ \<Rightarrow> Inr True)
      | JObject _ \<Rightarrow>
          if \<not> null_or (\<lambda>x. as_i64 x \<noteq> None) (field v ''Int64'') then Inl ''json: invalid Int64 in null.Int''
          else if \<not> null_or is_boolean (field v ''Valid'') then Inl ''json: invalid Valid in null.Int''
          else Inr True
      | x \<Rightarrow> if as_i64 x \<noteq> None then Inr True else Inl (unmarshal x ''value of type null.Int''))"

definition parse_patch :: "json_lib \<Rightarrow> string \<Rightarrow> string + patch_req" where
  "parse_patch J body =
     (case parse_json J body of
        Inl e \<Rightarrow> Inl e
      | Inr v \<Rightarrow>
          (let d = field v ''data''; a = field d ''attributes''
           in case check_all [(v, is_object, ''value of type v1.StatusJSONAPI''), (d, is_object, ''value of type v1.statusData''),
                              (a, is_object, ''value of type v1.Status''),
                              (field d ''type'', is_string, ''struct field statusData.data.type of type string''),
                              (field d ''id'', is_string, ''struct field statusData.data.id of type string''),
                              (field a ''status'', \<lambda>x. case as_u64 x of None \<Rightarrow> False | Some n \<Rightarrow> n \<le> 2 ^ 32 - 1,
                                 ''struct field Status.data.attributes.status of type lib.ExecutionStatus'')] of
                Inl e \<Rightarrow> Inl e
              | Inr _ \<Rightarrow>
          (case parse_paused (field a ''paused'') of
             Inl e \<Rightarrow> Inl e
           | Inr paused \<Rightarrow>
          (case parse_scale (field a ''vus'') of
             Inl e \<Rightarrow> Inl e
           | Inr s1 \<Rightarrow>
          (case parse_scale (field a ''vus-max'') of
             Inl e \<Rightarrow> Inl e
           | Inr s2 \<Rightarrow>
          (case check_all (map (\<lambda>name. (field a name, is_boolean, ''struct field Status.data.attributes.'' @ name @ '' of type bool''))
                  [''stopped'', ''running'', ''tainted'']) of
             Inl e \<Rightarrow> Inl e
           | Inr _ \<Rightarrow>
               Inr \<lparr>pt_stopped = (case as_bool (field a ''stopped'') of None \<Rightarrow> False | Some b \<Rightarrow> b),
                    pt_paused = paused, pt_scale = (s1 \<or> s2)\<rparr>))))))"

section \<open>Status\<close>

definition status_with :: "execution \<Rightarrow> bool \<Rightarrow> ('n, 'c, 'h) control \<Rightarrow> json" where
  "status_with e tainted c =
     jobj [(''data'', jobj [(''type'', JString ''status''), (''id'', JString ''default''),
       (''attributes'', jobj [(''status'', jnat (ex_status e)), (''paused'', JBool (ex_paused e)), (''vus'', jnat (active_vus c)),
         (''vus-max'', jnat (initialized_vus c)), (''stopped'', JBool (ex_stopped e \<or> cancel c)),
         (''running'', JBool (ex_started e \<noteq> None \<and> ex_ended e = None)), (''tainted'', JBool tainted)])])]"

definition is_tainted :: "('n, 'c, 'h) control \<Rightarrow> bool" where
  "is_tainted c = list_ex snd (tainted_metrics c)"

definition status :: "('n, 'c, 'h) control \<Rightarrow> json" where
  "status c = status_with (execution_of c) (is_tainted c) c"

definition pause_error :: "string \<Rightarrow> api_error" where
  "pause_error detail = \<lparr>ae_status = 500, ae_title = ''Pause error'', ae_detail = detail\<rparr>"

text \<open>The effect of a parsed patch, all of it under the execution lock.\<close>

definition apply_patch :: "'n notify \<Rightarrow> patch_req \<Rightarrow> ('n, 'c, 'h) control \<Rightarrow> ('n, 'c, 'h) control \<times> (api_error + json)" where
  "apply_patch N p c =
     (let e = execution_of c
      in if pt_stopped p
         then (let e = e\<lparr>ex_stopped := True\<rparr>
               in (c\<lparr>execution_of := e, cancel := True, abort := True, resume := notify_one N (resume c)\<rparr>,
                   Inr (status_with e (is_tainted c) c)))
         else
           (let resumed = (case pt_paused p of
                  None \<Rightarrow> Inr c
                | Some paused \<Rightarrow>
                    if ex_started e = None \<and> ex_paused e
                    then if paused then Inl (pause_error ''execution is already paused'')
                         else Inr (c\<lparr>execution_of := e\<lparr>ex_paused := False\<rparr>, resume := notify_one N (resume c)\<rparr>)
                    else Inl (pause_error (ct_executor c @ '' executor '' @ [CHR 0x27] @ ct_scenario c @ [CHR 0x27] @
                      '' doesn'' @ [CHR 0x27] @ ''t support pause and resume operations after its start'')))
            in case resumed of
                 Inl err \<Rightarrow> (c, Inl err)
               | Inr c \<Rightarrow>
                   if pt_scale p
                   then (c, Inl \<lparr>ae_status = 500, ae_title = ''Execution config error'',
                                 ae_detail = ''live VU configuration updates are not supported''\<rparr>)
                   else (c, Inr (status c))))"

definition patch :: "('n, 'c, 'h) control_deps \<Rightarrow> string \<Rightarrow> ('n, 'c, 'h) control \<Rightarrow> ('n, 'c, 'h) control \<times> (api_error + json)" where
  "patch X body c =
     (case parse_patch (cd_json X) body of
        Inl e \<Rightarrow> (c, Inl \<lparr>ae_status = 400, ae_title = ''Invalid data'', ae_detail = e\<rparr>)
      | Inr p \<Rightarrow> apply_patch (cd_notify X) p c)"

section \<open>Lifecycle\<close>

definition shutting_down :: string where
  "shutting_down = ''execution is shutting down''"

text \<open>A hook and a \<open>PUT\<close> that run without interruption.\<close>

definition hook :: "('n, 'c, 'h) control_deps \<Rightarrow> bool \<Rightarrow> ('n, 'c, 'h) control \<Rightarrow> ('n, 'c, 'h) control \<times> (string + string option)" where
  "hook X setup c =
     (if closing c then (c, Inl shutting_down)
      else case cd_lifecycle X setup (setup_data c) of
             Inl e \<Rightarrow> (c, Inl e)
           | Inr data \<Rightarrow> (if setup then c\<lparr>setup_data := data\<rparr> else c, Inr data))"

definition put_setup :: "string option \<Rightarrow> ('n, 'c, 'h) control \<Rightarrow> ('n, 'c, 'h) control \<times> (string + unit)" where
  "put_setup data c = (if closing c then (c, Inl shutting_down) else (c\<lparr>setup_data := data\<rparr>, Inr ()))"


text \<open>Tasks that share the lifecycle lock and the flags.  A task is asked for a hook, a \<open>PUT\<close> or the closing; it
  takes the lock, tests the flag, and acts; between its steps the other tasks run and the run may be
  aborted.  The lock is free when \<open>lock_holder\<close> is \<open>None\<close>.\<close>

datatype lc_task =
  Queued "bool + string option"
| Running bool bool
| Returned bool "string option"
| Storing "string option"
| Closing
| Finished bool

record lc_state =
  lc_setup_data :: "string option"
  lc_closing :: bool
  lc_abort :: bool
  lock_holder :: "nat option"
  lc_tasks :: "(nat \<times> lc_task) list"

definition set_task :: "nat \<Rightarrow> lc_task \<Rightarrow> lc_state \<Rightarrow> lc_state" where
  "set_task t p s = s\<lparr>lc_tasks := hm_put t p (lc_tasks s)\<rparr>"

definition release :: "lc_state \<Rightarrow> lc_state" where
  "release s = s\<lparr>lock_holder := None\<rparr>"

text \<open>The steps: \<open>Finished b\<close> is a task that ended, with success if \<open>b\<close>.  \<open>Running setup cancelled\<close> is a hook under
  way, which may return anything; a setup hook is cancelled when the run is aborted.  The closing task
  raises the flag and then waits for the lock, or gives up after its timeout (\<open>Finished False\<close>).\<close>

inductive lc_step :: "lc_state \<Rightarrow> lc_state \<Rightarrow> bool" where
  request: "map_of (lc_tasks s) t = None \<Longrightarrow> lc_step s (set_task t (Queued req) s)"
| refused: "map_of (lc_tasks s) t = Some (Queued req) \<Longrightarrow> lock_holder s = None \<Longrightarrow> lc_closing s \<Longrightarrow>
    lc_step s (set_task t (Finished False) s)"
| invoke: "map_of (lc_tasks s) t = Some (Queued (Inl setup)) \<Longrightarrow> lock_holder s = None \<Longrightarrow> \<not> lc_closing s \<Longrightarrow>
    lc_step s (set_task t (Running setup False) (s\<lparr>lock_holder := Some t\<rparr>))"
| put: "map_of (lc_tasks s) t = Some (Queued (Inr data)) \<Longrightarrow> lock_holder s = None \<Longrightarrow> \<not> lc_closing s \<Longrightarrow>
    lc_step s (set_task t (Storing data) (s\<lparr>lock_holder := Some t\<rparr>))"
| hook_cancel: "map_of (lc_tasks s) t = Some (Running True False) \<Longrightarrow> lc_abort s \<Longrightarrow> lc_step s (set_task t (Running True True) s)"
| hook_error: "map_of (lc_tasks s) t = Some (Running setup cancelled) \<Longrightarrow> lc_step s (set_task t (Finished False) (release s))"
| hook_return: "map_of (lc_tasks s) t = Some (Running setup cancelled) \<Longrightarrow> lc_step s (set_task t (Returned setup data) s)"
| hook_late: "map_of (lc_tasks s) t = Some (Returned setup data) \<Longrightarrow> lc_closing s \<Longrightarrow> lc_step s (set_task t (Finished False) (release s))"
| hook_done: "map_of (lc_tasks s) t = Some (Returned False data) \<Longrightarrow> \<not> lc_closing s \<Longrightarrow> lc_step s (set_task t (Finished True) (release s))"
| hook_store: "map_of (lc_tasks s) t = Some (Returned True data) \<Longrightarrow> \<not> lc_closing s \<Longrightarrow> lc_step s (set_task t (Storing data) s)"
| store: "map_of (lc_tasks s) t = Some (Storing data) \<Longrightarrow>
    lc_step s (set_task t (Finished True) (release (s\<lparr>lc_setup_data := data\<rparr>)))"
| abort_run: "lc_step s (s\<lparr>lc_abort := True\<rparr>)"
| close: "map_of (lc_tasks s) t = None \<Longrightarrow> lc_step s (set_task t Closing (s\<lparr>lc_closing := True\<rparr>))"
| close_locked: "map_of (lc_tasks s) t = Some Closing \<Longrightarrow> lock_holder s = None \<Longrightarrow> lc_step s (set_task t (Finished True) s)"
| close_timeout: "map_of (lc_tasks s) t = Some Closing \<Longrightarrow> lc_step s (set_task t (Finished False) s)"

inductive lc_reach :: "lc_state \<Rightarrow> bool" where
  lc_init: "lc_reach \<lparr>lc_setup_data = None, lc_closing = False, lc_abort = False, lock_holder = None, lc_tasks = []\<rparr>"
| lc_next: "lc_reach s \<Longrightarrow> lc_step s s' \<Longrightarrow> lc_reach s'"

text \<open>The task that waits for the start beside the requests: it tests the state under the execution lock
  (\<open>Checking\<close>), waits for a notification or the cancellation (\<open>Parked\<close>), and returns.\<close>

datatype waiter = Checking | Parked | Started bool

inductive ct_step ::
    "('n, 'c, 'h) control_deps \<Rightarrow> ('n, 'c, 'h) control \<times> waiter \<Rightarrow> ('n, 'c, 'h) control \<times> waiter \<Rightarrow> bool" for X where
  check_park: "start_check now c = (c', None) \<Longrightarrow> ct_step X (c, Checking) (c', Parked)"
| check_return: "start_check now c = (c', Some b) \<Longrightarrow> ct_step X (c, Checking) (c', Started b)"
| woken: "ntf_poll (cd_notify X) (resume c) = Some n \<Longrightarrow> ct_step X (c, Parked) (c\<lparr>resume := n\<rparr>, Checking)"
| cancelled: "cancel c \<Longrightarrow> ct_step X (c, Parked) (c, Started False)"
| patched: "patch X body c = (c', r) \<Longrightarrow> ct_step X (c, w) (c', w)"
| interrupt: "ct_step X (c, w) (c\<lparr>cancel := True\<rparr>, w)"
| vus: "ct_step X (c, w) (c\<lparr>active_vus := n\<rparr>, w)"
| set_phase: "ct_step X (c, Started b) (phase p c, Started b)"
| run_end: "ct_step X (c, Started b) (end_run X now c, Started b)"
| observe: "ct_step X (c, w) (update_taints X now c, w)"

inductive ct_reach :: "('n, 'c, 'h) control_deps \<Rightarrow> ('n, 'c, 'h) control \<Rightarrow> ('n, 'c, 'h) control \<times> waiter \<Rightarrow> bool" for X c0 where
  ct_init: "ct_reach X c0 (c0, Checking)"
| ct_next: "ct_reach X c0 s \<Longrightarrow> ct_step X s s' \<Longrightarrow> ct_reach X c0 s'"

section \<open>Resources\<close>

definition group_ref :: "string \<Rightarrow> json" where
  "group_ref gid = jobj [(''type'', JString ''groups''), (''id'', JString gid)]"

definition check_json :: "(string \<Rightarrow> string) \<Rightarrow> string \<Rightarrow> string \<times> u64 \<times> u64 \<Rightarrow> json" where
  "check_json md5 gpath entry =
     (case entry of (name, passes, failed) \<Rightarrow>
        let path = gpath @ ''::'' @ name
        in jobj [(''id'', JString (md5 path)), (''name'', JString name), (''path'', JString path), (''passes'', jnat passes), (''fails'', jnat failed)])"

fun flatten_groups :: "(string \<Rightarrow> string) \<Rightarrow> group_snapshot \<Rightarrow> string option \<Rightarrow> json list" where
  "flatten_groups md5 (GroupSnapshot name path children checks dur) parent =
     jobj [(''type'', JString ''groups''), (''id'', JString (md5 path)),
       (''attributes'', jobj [(''name'', JString name), (''path'', JString path),
         (''checks'', if checks = [] then JNull else JArray (map (check_json md5 path) checks))]),
       (''relationships'', jobj [(''groups'', jobj [(''data'', JArray (map (\<lambda>(_, g). group_ref (md5 (gs_path g))) children))]),
         (''parent'', jobj [(''data'', case parent of None \<Rightarrow> JNull | Some gid \<Rightarrow> group_ref gid)])])] #
     concat (map (\<lambda>(_, g). flatten_groups md5 g (Some (md5 path))) children)"

definition sample_keys :: "string \<Rightarrow> string \<Rightarrow> bool" where
  "sample_keys kind k =
     (if kind = ''trend'' then k \<in> set [''avg'', ''min'', ''max'', ''med'', ''p(90)'', ''p(95)'']
      else if kind = ''rate'' then k = ''rate''
      else if kind = ''gauge'' then k = ''value''
      else True)"

definition metric_json :: "(string, bool) hm \<Rightarrow> ('c, 'h) registry \<Rightarrow> string \<Rightarrow> summary_metric \<Rightarrow> json" where
  "metric_json taint registry name mt =
     jobj [(''type'', JString ''metrics''), (''id'', JString name),
       (''attributes'', jobj [(''type'', JString (sm_type mt)), (''contains'', JString (registry_contains name registry)),
         (''tainted'', case map_of taint name of None \<Rightarrow> JNull | Some b \<Rightarrow> JBool b),
         (''sample'', jobj (filter (\<lambda>(k, _). sample_keys (sm_type mt) k) (map (\<lambda>(k, v). (k, jfloat v)) (sm_values mt))))])]"

text \<open>The resources are sorted by their identifier, the name of the metric.\<close>

definition metric_resources ::
    "('n, 'c, 'h) control_deps \<Rightarrow> 'h metrics_snapshot \<Rightarrow> (string, bool) hm \<Rightarrow> thresholds \<Rightarrow> ('c, 'h) registry \<Rightarrow> json list" where
  "metric_resources X snap taint ths registry =
     (let auto = ''http_req_duration{expected_response:true}'';
          selectors = (case map_of ths auto of None \<Rightarrow> hm_put auto [] ths | Some _ \<Rightarrow> ths);
          summary = build_summary_data (cd_md5 X) (cd_tty X) (hist (cd_deps X)) snap 0 (Some selectors)
      in map (\<lambda>(name, mt). metric_json taint registry name mt) (sort_key fst (sd_metrics summary)))"

section \<open>Requests\<close>

text \<open>\<open>String::from_utf8_lossy\<close>: each maximal broken piece becomes the replacement character.\<close>

definition cont_byte :: "char \<Rightarrow> bool" where
  "cont_byte c \<longleftrightarrow> 128 \<le> (of_char c :: int) \<and> (of_char c :: int) < 192"

definition second_byte :: "int \<Rightarrow> char \<Rightarrow> bool" where
  "second_byte b c =
     (let n = (of_char c :: int)
      in (if b = 224 then 160 else if b = 240 then 144 else 128) \<le> n \<and> n \<le> (if b = 237 then 159 else if b = 244 then 143 else 191))"

definition utf8_width :: "int \<Rightarrow> nat" where
  "utf8_width b = (if b < 128 then 1 else if 194 \<le> b \<and> b \<le> 223 then 2 else if 224 \<le> b \<and> b \<le> 239 then 3
     else if 240 \<le> b \<and> b \<le> 244 then 4 else 0)"

text \<open>The length of the piece at the front of a text and whether it is a character.\<close>

fun utf8_piece :: "string \<Rightarrow> nat \<times> bool" where
  "utf8_piece [] = (0, True)"
| "utf8_piece (c # s) =
     (let b = of_char c; w = utf8_width b
      in if w = 1 then (1, True)
         else if w = 0 then (1, False)
         else case s of
                [] \<Rightarrow> (1, False)
              | c2 # s2 \<Rightarrow>
                  if \<not> second_byte b c2 then (1, False)
                  else let k = length (takeWhile cont_byte (take (w - 2) s2))
                       in (2 + k, k = w - 2))"

function utf8_lossy :: "string \<Rightarrow> string" where
  "utf8_lossy s =
     (if s = [] then []
      else (let (n, ok) = utf8_piece s
            in (if ok then take n s else [CHR 0xEF, CHR 0xBF, CHR 0xBD]) @ utf8_lossy (drop n s)))"
  by pat_completeness auto

lemma utf8_piece_pos: "s \<noteq> [] \<Longrightarrow> 0 < fst (utf8_piece s)"
  by (cases s) (auto simp: Let_def split: list.splits)

termination utf8_lossy
proof (relation "measure length")
  fix s :: string and x n ok
  assume "s \<noteq> []" "x = utf8_piece s" "(n, ok) = x"
  then have "0 < n" using utf8_piece_pos[of s] by (metis fst_conv)
  then show "(drop n s, s) \<in> measure length" using \<open>s \<noteq> []\<close> by simp
qed simp

definition hex_val :: "char \<Rightarrow> int option" where
  "hex_val c =
     (let n = of_char c
      in if 48 \<le> n \<and> n \<le> 57 then Some (n - 48) else if 97 \<le> n \<and> n \<le> 102 then Some (n - 87)
         else if 65 \<le> n \<and> n \<le> 70 then Some (n - 55) else None)"

text \<open>\<open>u8::from_str_radix(s, 16)\<close> on two bytes, which takes a leading plus.\<close>

definition radix16 :: "char \<Rightarrow> char \<Rightarrow> int option" where
  "radix16 a b =
     (if a = CHR ''+'' then hex_val b
      else case (hex_val a, hex_val b) of (Some x, Some y) \<Rightarrow> Some (16 * x + y) | _ \<Rightarrow> None)"

fun decode_bytes :: "string \<Rightarrow> string" where
  "decode_bytes (c # a # b # s) =
     (if c = CHR ''%'' then (case radix16 a b of Some v \<Rightarrow> char_of v # decode_bytes s | None \<Rightarrow> c # decode_bytes (a # b # s))
      else c # decode_bytes (a # b # s))"
| "decode_bytes s = s"

definition decode_path :: "string \<Rightarrow> string" where
  "decode_path path = utf8_lossy (decode_bytes path)"

record request =
  rq_method :: string
  rq_path :: string
  rq_body :: "string + string"

record response =
  rs_status :: int
  rs_content_type :: "string option"
  rs_body :: string

definition json_ct :: string where "json_ct = ''application/json; charset=utf-8''"
definition text_ct :: string where "text_ct = ''text/plain; charset=utf-8''"

definition response_of :: "json_lib \<Rightarrow> int \<Rightarrow> string \<Rightarrow> json \<Rightarrow> response" where
  "response_of J code ct value = \<lparr>rs_status = code, rs_content_type = Some ct, rs_body = js_to_string J value\<rparr>"

definition error_response :: "json_lib \<Rightarrow> string \<Rightarrow> api_error \<Rightarrow> response" where
  "error_response J ct e =
     response_of J (ae_status e) ct (jobj [(''errors'', JArray [jobj [(''status'', JString (dec (ae_status e))),
       (''title'', JString (ae_title e)), (''detail'', JString (ae_detail e))]])])"

definition setup_json :: "json_lib \<Rightarrow> string option \<Rightarrow> json" where
  "setup_json J data =
     jobj [(''data'', jobj [(''type'', JString ''setupData''), (''id'', JString ''default''),
       (''attributes'', case data of
          None \<Rightarrow> jobj []
        | Some s \<Rightarrow> jobj [(''data'', case js_from_slice J s of Inr v \<Rightarrow> v | Inl _ \<Rightarrow> JNull)])])]"

definition setup_response :: "json_lib \<Rightarrow> string option \<Rightarrow> response" where
  "setup_response J data = response_of J 200 ''application/json'' (setup_json J data)"

definition known :: "string \<Rightarrow> bool" where
  "known path \<longleftrightarrow> path \<in> set [''/v1/status'', ''/v1/metrics'', ''/v1/groups'', ''/v1/setup'', ''/v1/teardown''] \<or>
     starts_with ''/v1/metrics/'' path \<or> starts_with ''/v1/groups/'' path"

definition allowed :: "string \<Rightarrow> string \<Rightarrow> bool" where
  "allowed path verb =
     (if path = ''/v1/status'' then verb = ''GET'' \<or> verb = ''PATCH''
      else if path = ''/v1/setup'' then verb \<in> set [''GET'', ''PUT'', ''POST'']
      else if path = ''/v1/teardown'' then verb = ''POST''
      else verb = ''GET'')"

definition has_id :: "string \<Rightarrow> json \<Rightarrow> bool" where
  "has_id ident v = (case v of JObject m \<Rightarrow> map_of m ''id'' = Some (JString ident) | _ \<Rightarrow> False)"

definition collection_of :: "('n, 'c, 'h) control_deps \<Rightarrow> int \<Rightarrow> string \<Rightarrow> ('n, 'c, 'h) control \<Rightarrow> json list \<times> string option \<times> string" where
  "collection_of X now path c =
     (let snap = control_snapshot X now c
      in if starts_with ''/v1/metrics'' path
         then (metric_resources X snap (tainted_metrics c) (ct_thresholds c) (ct_registry c), strip_prefix ''/v1/metrics/'' path,
               ''No metric with that ID was found'')
         else (flatten_groups (cd_md5 X) (snap_tree snap) None, strip_prefix ''/v1/groups/'' path, ''No group with that ID was found''))"

definition get_resource :: "('n, 'c, 'h) control_deps \<Rightarrow> int \<Rightarrow> string \<Rightarrow> ('n, 'c, 'h) control \<Rightarrow> response" where
  "get_resource X now path c =
     (let (collection, item, title) = collection_of X now path c; J = cd_json X
      in case item of
           None \<Rightarrow> response_of J 200 text_ct (jobj [(''data'', JArray collection)])
         | Some ident \<Rightarrow>
             (case find (has_id ident) collection of
                Some v \<Rightarrow> response_of J 200 text_ct (jobj [(''data'', v)])
              | None \<Rightarrow> error_response J text_ct \<lparr>ae_status = 404, ae_title = ''Not Found'', ae_detail = title\<rparr>))"

definition put_setup_request :: "json_lib \<Rightarrow> string + string \<Rightarrow> ('n, 'c, 'h) control \<Rightarrow> ('n, 'c, 'h) control \<times> response" where
  "put_setup_request J body c =
     (case body of
        Inl e \<Rightarrow> (c, error_response J text_ct \<lparr>ae_status = 400, ae_title = ''Error reading request body'', ae_detail = e\<rparr>)
      | Inr b \<Rightarrow>
          (case (if b = [] then Inr None else case parse_json J b of Inr v \<Rightarrow> Inr (Some (js_to_string J v)) | Inl e \<Rightarrow> Inl e) of
             Inl e \<Rightarrow> (c, error_response J text_ct \<lparr>ae_status = 400, ae_title = ''Error parsing request body'', ae_detail = e\<rparr>)
           | Inr data \<Rightarrow>
               (case put_setup data c of
                  (c, Inr _) \<Rightarrow> (c, setup_response J (setup_data c))
                | (c, Inl e) \<Rightarrow> (c, error_response J text_ct \<lparr>ae_status = 500, ae_title = ''Error setting setup data'', ae_detail = e\<rparr>))))"

definition hook_request :: "('n, 'c, 'h) control_deps \<Rightarrow> bool \<Rightarrow> ('n, 'c, 'h) control \<Rightarrow> ('n, 'c, 'h) control \<times> response" where
  "hook_request X setup c =
     (case hook X setup c of
        (c, Inr data) \<Rightarrow> (c, if setup then setup_response (cd_json X) data else \<lparr>rs_status = 200, rs_content_type = None, rs_body = []\<rparr>)
      | (c, Inl e) \<Rightarrow> (c, error_response (cd_json X) text_ct \<lparr>ae_status = 500,
          ae_title = (if setup then ''Error executing setup'' else ''Error executing teardown''), ae_detail = e\<rparr>))"

definition patch_request :: "('n, 'c, 'h) control_deps \<Rightarrow> string + string \<Rightarrow> ('n, 'c, 'h) control \<Rightarrow> ('n, 'c, 'h) control \<times> response" where
  "patch_request X body c =
     (case body of
        Inl e \<Rightarrow> (c, error_response (cd_json X) json_ct \<lparr>ae_status = 400, ae_title = ''Couldn'' @ [CHR 0x27] @ ''t read request'', ae_detail = e\<rparr>)
      | Inr b \<Rightarrow>
          (case patch X b c of
             (c, Inr v) \<Rightarrow> (c, response_of (cd_json X) 200 json_ct v)
           | (c, Inl e) \<Rightarrow> (c, error_response (cd_json X) json_ct e)))"

definition dispatch :: "('n, 'c, 'h) control_deps \<Rightarrow> int \<Rightarrow> request \<Rightarrow> ('n, 'c, 'h) control \<Rightarrow> ('n, 'c, 'h) control \<times> response" where
  "dispatch X now rq c =
     (let path = decode_path (rq_path rq); verb = rq_method rq
      in if known path \<and> \<not> allowed path verb then (c, \<lparr>rs_status = 405, rs_content_type = None, rs_body = []\<rparr>)
         else if \<not> known path then
           (c, if starts_with ''/v1/'' path
               then \<lparr>rs_status = 404, rs_content_type = Some text_ct, rs_body = ''404 page not found'' @ [CHR 0x0A]\<rparr>
               else \<lparr>rs_status = 200, rs_content_type = Some text_ct, rs_body = ''ok''\<rparr>)
         else if verb = ''GET'' \<and> path = ''/v1/status'' then (c, response_of (cd_json X) 200 json_ct (status c))
         else if verb = ''PATCH'' \<and> path = ''/v1/status'' then patch_request X (rq_body rq) c
         else if verb = ''GET'' \<and> path = ''/v1/setup'' then (c, setup_response (cd_json X) (setup_data c))
         else if verb = ''PUT'' \<and> path = ''/v1/setup'' then put_setup_request (cd_json X) (rq_body rq) c
         else if verb = ''POST'' \<and> (path = ''/v1/setup'' \<or> path = ''/v1/teardown'') then hook_request X (path = ''/v1/setup'') c
         else (c, get_resource X now path c))"

section \<open>Reporter\<close>

text \<open>One tick of the reporter task of the server, the \<open>n\<close>-th from one.\<close>

definition report_tick :: "('n, 'c, 'h) control_deps \<Rightarrow> int \<Rightarrow> int \<Rightarrow> ('n, 'c, 'h) control \<Rightarrow> ('n, 'c, 'h) control option" where
  "report_tick X n now c =
     (let c = (if n mod 2 = 0 then update_taints X now c else c); D = cd_deps X; active = active_vus c
      in Option.bind (gauge_set D ''vus'' (f_of_int (uint active)) (ct_registry c)) (\<lambda>r.
         Option.bind (gauge_set D ''vus_max'' (f_of_int (uint (initialized_vus c))) r) (\<lambda>r.
         Option.bind (if 0 < active then Option.bind (counter_add D ''data_sent'' 0 r) (counter_add D ''data_received'' 0) else Some r)
           (\<lambda>r. Some (c\<lparr>ct_registry := r\<rparr>)))))"


section \<open>The start of the run\<close>

lemmas control_fields = control_new_def phase_def end_run_def update_taints_def Let_def

lemma start_check_cases:
  "start_check now c = (c', r) \<Longrightarrow>
     (r = None \<and> c' = c \<and> ex_paused (execution_of c) \<and> \<not> cancel c) \<or> (r = Some False \<and> c' = c \<and> cancel c) \<or>
     (r = Some True \<and> \<not> cancel c \<and> \<not> ex_paused (execution_of c) \<and>
      c' = c\<lparr>execution_of := (execution_of c)\<lparr>ex_started := Some now, ex_status := 5\<rparr>\<rparr>)"
  by (auto simp: start_check_def split: if_splits)

text \<open>The outcomes of a patch: nothing, a resume, or a stop.\<close>

lemma patch_cases:
  assumes "patch X body c = (c', r)"
  obtains (same) "c' = c"
    | (resume) "ex_started (execution_of c) = None" "ex_paused (execution_of c)"
        "c' = c\<lparr>execution_of := (execution_of c)\<lparr>ex_paused := False\<rparr>, resume := notify_one (cd_notify X) (resume c)\<rparr>"
    | (stop) "c' = c\<lparr>execution_of := (execution_of c)\<lparr>ex_stopped := True\<rparr>, cancel := True, abort := True,
        resume := notify_one (cd_notify X) (resume c)\<rparr>" "\<exists>v. r = Inr v"
proof (cases "parse_patch (cd_json X) body")
  case (Inl e)
  then show ?thesis using assms same by (simp add: patch_def)
next
  case (Inr p)
  then have a: "apply_patch (cd_notify X) p c = (c', r)" using assms by (simp add: patch_def)
  show ?thesis
  proof (cases "pt_stopped p")
    case True
    then show ?thesis using a stop by (auto simp: apply_patch_def Let_def)
  next
    case running: False
    show ?thesis
    proof (cases "pt_paused p = Some False \<and> ex_started (execution_of c) = None \<and> ex_paused (execution_of c)")
      case True
      then show ?thesis using a running resume by (auto simp: apply_patch_def Let_def split: if_splits)
    next
      case False
      then have "c' = c" using a running by (auto simp: apply_patch_def Let_def split: if_splits option.splits)
      then show ?thesis by (rule same)
    qed
  qed
qed

definition start_inv :: "('n, 'c, 'h) control_deps \<Rightarrow> ('n, 'c, 'h) control \<times> waiter \<Rightarrow> bool" where
  "start_inv X s \<longleftrightarrow>
     (case s of (c, w) \<Rightarrow>
        let e = execution_of c
        in (w = Parked \<longrightarrow> ex_paused e \<or> cancel c \<or> ntf_poll (cd_notify X) (resume c) \<noteq> None) \<and>
           (ex_started e \<noteq> None \<longleftrightarrow> w = Started True) \<and> (ex_started e \<noteq> None \<longrightarrow> \<not> ex_paused e) \<and>
           (w = Started False \<longrightarrow> cancel c) \<and> (abort c \<longleftrightarrow> ex_stopped e) \<and> (ex_stopped e \<longrightarrow> cancel c))"

lemma start_inv_step:
  assumes n: "\<forall>n. ntf_poll (cd_notify X) (notify_one (cd_notify X) n) \<noteq> None"
  shows "ct_step X s s' \<Longrightarrow> start_inv X s \<Longrightarrow> start_inv X s'"
proof (induction rule: ct_step.induct)
  case (patched body c c' r w)
  from patched(1) show ?case using patched(2) n by (cases rule: patch_cases) (auto simp: start_inv_def Let_def)
qed (auto simp: start_inv_def control_fields dest!: start_check_cases)

lemma start_inv_reach:
  assumes n: "\<forall>n. ntf_poll (cd_notify X) (notify_one (cd_notify X) n) \<noteq> None"
    and "ct_reach X (control_new X paused max_vus ex sc reg ths cancelled) s"
  shows "start_inv X s"
  using assms(2)
proof induction
  case ct_init
  then show ?case by (simp add: start_inv_def control_new_def)
next
  case (ct_next s s')
  then show ?case using start_inv_step[OF n] by blast
qed

text \<open>The steps of the waiting task alone.\<close>

definition waiter_next :: "('n, 'c, 'h) control_deps \<Rightarrow> int \<Rightarrow> ('n, 'c, 'h) control \<times> waiter \<Rightarrow> ('n, 'c, 'h) control \<times> waiter" where
  "waiter_next X now s =
     (case s of (c, w) \<Rightarrow>
        (case w of
           Checking \<Rightarrow> (case start_check now c of (c', None) \<Rightarrow> (c', Parked) | (c', Some b) \<Rightarrow> (c', Started b))
         | Parked \<Rightarrow> (case ntf_poll (cd_notify X) (resume c) of
                        Some n \<Rightarrow> (c\<lparr>resume := n\<rparr>, Checking)
                      | None \<Rightarrow> if cancel c then (c, Started False) else (c, Parked))
         | Started b \<Rightarrow> (c, Started b)))"

lemma waiter_next_step: "waiter_next X now s = s \<or> ct_step X s (waiter_next X now s)"
  by (cases s) (auto simp: waiter_next_def split: waiter.splits prod.splits option.splits intro: ct_step.intros)

text \<open>C9.  The start of the run.  In every interleaving of the waiting task with requests, cancellation and
  the reporter: the run has started exactly when the task returned \<open>True\<close>, and then it is not paused; a stop
  has cancelled and aborted the run; and no wake-up is lost: whenever the run is resumed or cancelled, two
  steps of the waiting task suffice for it to return, with \<open>False\<close> exactly when the run is cancelled.\<close>

theorem start_protocol:
  assumes "\<forall>n. ntf_poll (cd_notify X) (notify_one (cd_notify X) n) \<noteq> None"
    and "ct_reach X (control_new X paused max_vus executor scenario registry ths cancelled) (c, w)"
  shows "(ex_started (execution_of c) \<noteq> None \<longleftrightarrow> w = Started True) \<and>
    (w = Started True \<longrightarrow> \<not> ex_paused (execution_of c)) \<and>
    (abort c \<longleftrightarrow> stopped c) \<and> (stopped c \<longrightarrow> cancel c) \<and>
    ((\<forall>b. w \<noteq> Started b) \<and> (cancel c \<or> \<not> ex_paused (execution_of c)) \<longrightarrow>
       snd (waiter_next X now (waiter_next X now (c, w))) = Started (\<not> cancel c))"
proof -
  have "start_inv X (c, w)" by (rule start_inv_reach[OF assms])
  then show ?thesis
    by (cases w) (auto simp: start_inv_def Let_def stopped_def waiter_next_def start_check_def split: option.splits)
qed

text \<open>A run whose \<open>Notify\<close> is one stored permit, whose metrics are a counter with two tags, and whose threshold
  names that counter with its tags in another order; and a JSON reader of three texts.\<close>

definition permit :: "bool notify" where
  "permit = \<lparr>ntf_new = False, notify_one = (\<lambda>_. True), ntf_poll = (\<lambda>n. if n then Some False else None)\<rparr>"

definition three_texts :: json_lib where
  "three_texts = \<lparr>js_from_slice = (\<lambda>s.
       if s = ''true'' then Inr (JBool True)
       else if s = ''resume'' then Inr (JObject [(''data'', JObject [(''attributes'', JObject [(''paused'', JBool False)])])])
       else if s = ''resume and scale'' then
         Inr (JObject [(''data'', JObject [(''attributes'', JObject [(''paused'', JBool False), (''vus'', JNumber (PosInt 9))])])])
       else Inl (True, [])),
     js_to_string = (\<lambda>v. if v = JBool True then ''true'' else ''?'')\<rparr>"

definition example_control_deps :: "(bool, sink_event list, u64 list) control_deps" where
  "example_control_deps = \<lparr>cd_deps = example_deps, cd_notify = permit, cd_json = three_texts, cd_md5 = (\<lambda>s. s), cd_tty = False,
     cd_lifecycle = (\<lambda>_ d. Inr d)\<rparr>"

definition order_thresholds :: thresholds where
  "order_thresholds = [(''m{b:2,a:1}'', [from_expression ''count<1''])]"

definition tagged_registry :: "(sink_event list, u64 list) registry" where
  "tagged_registry = (registry_new example_deps int)\<lparr>counters := [(''m{a:1,b:2}'', 5)]\<rparr>"

definition example_control :: "(bool, sink_event list, u64 list) control" where
  "example_control = control_new example_control_deps True 4 ''shared-iterations'' ''default'' tagged_registry order_thresholds False"

lemma permit_kept: "\<forall>n. ntf_poll (cd_notify example_control_deps) (notify_one (cd_notify example_control_deps) n) \<noteq> None"
  by (simp add: example_control_deps_def permit_def)

definition resumed_control :: "(bool, sink_event list, u64 list) control" where
  "resumed_control = example_control\<lparr>execution_of := (execution_of example_control)\<lparr>ex_paused := False\<rparr>, resume := True\<rparr>"

lemma patch_fields:
  "cd_json example_control_deps = three_texts" "cd_notify example_control_deps = permit"
  "notify_one permit n = True" "ntf_poll permit True = Some False" "ntf_new permit = False"
  by (simp_all add: example_control_deps_def permit_def)

lemma parse_resume:
  "parse_patch three_texts ''resume'' = Inr \<lparr>pt_stopped = False, pt_paused = Some False, pt_scale = False\<rparr>"
  "parse_patch three_texts ''resume and scale'' = Inr \<lparr>pt_stopped = False, pt_paused = Some False, pt_scale = True\<rparr>"
  by code_simp+

lemma patch_resume:
  "\<exists>v. patch example_control_deps ''resume'' example_control = (resumed_control, Inr v)"
  by (simp add: patch_def apply_patch_def patch_fields parse_resume resumed_control_def example_control_def control_new_def)

theorem start_protocol_witness:
  "\<exists>c. ct_reach example_control_deps example_control (c, Parked) \<and> resume c \<and> \<not> stopped c \<and>
     snd (waiter_next example_control_deps 7 (waiter_next example_control_deps 7 (c, Parked))) = Started True"
proof -
  have "start_check 3 example_control = (example_control, None)"
    by (simp add: start_check_def example_control_def control_new_def)
  then have "ct_reach example_control_deps example_control (example_control, Parked)" by (blast intro: ct_reach.intros ct_step.intros)
  then have r: "ct_reach example_control_deps example_control (resumed_control, Parked)"
    using patch_resume by (blast intro: ct_reach.intros ct_step.intros)
  have f: "\<not> cancel resumed_control" "\<not> ex_paused (execution_of resumed_control)" "resume resumed_control" "\<not> stopped resumed_control"
    by (simp_all add: resumed_control_def example_control_def control_new_def stopped_def)
  have "snd (waiter_next example_control_deps 7 (waiter_next example_control_deps 7 (resumed_control, Parked))) = Started True"
    using start_protocol[OF permit_kept r[unfolded example_control_def]] f by simp
  with r f show ?thesis by blast
qed


section \<open>Patches\<close>

text \<open>A rejected patch.  A patch that is answered with an error never stops, cancels or aborts the run
  and touches neither its status nor its scaling; its one possible effect is that a paused run which
  has not started is resumed, when the rejected field is the scaling after the resume.  The errors carry
  the status 400 for a body that is no patch and 500 otherwise.\<close>

lemma patch_rejected:
  assumes "patch X body c = (c', Inl e)"
  shows "cancel c' = cancel c \<and> abort c' = abort c \<and> stopped c' = stopped c \<and>
    (c' = c \<or>
       (\<exists>p. parse_patch (cd_json X) body = Inr p \<and> pt_paused p = Some False \<and> pt_scale p \<and> \<not> pt_stopped p) \<and>
       ex_paused (execution_of c) \<and> ex_started (execution_of c) = None \<and>
       c' = c\<lparr>execution_of := (execution_of c)\<lparr>ex_paused := False\<rparr>, resume := notify_one (cd_notify X) (resume c)\<rparr>) \<and>
    (if \<exists>d. parse_patch (cd_json X) body = Inl d then ae_status e = 400 else ae_status e = 500)"
  using assms
  by (auto simp: patch_def apply_patch_def pause_error_def stopped_def Let_def split: sum.splits if_splits option.splits)

section \<open>The lifecycle lock\<close>

text \<open>Only the holder of the lock is past the test of the flag.\<close>

fun holds_lock :: "lc_task \<Rightarrow> bool" where
  "holds_lock (Running _ _) = True"
| "holds_lock (Returned _ _) = True"
| "holds_lock (Storing _) = True"
| "holds_lock _ = False"

definition lock_inv :: "lc_state \<Rightarrow> bool" where
  "lock_inv s \<longleftrightarrow> (\<forall>t p. map_of (lc_tasks s) t = Some p \<and> holds_lock p \<longrightarrow> lock_holder s = Some t)"

lemma set_task_simps [simp]:
  "map_of (lc_tasks (set_task t p s)) u = (if u = t then Some p else map_of (lc_tasks s) u)"
  "lock_holder (set_task t p s) = lock_holder s" "lc_setup_data (set_task t p s) = lc_setup_data s"
  "lc_closing (set_task t p s) = lc_closing s" "lock_holder (release s) = None" "lc_tasks (release s) = lc_tasks s"
  "lc_setup_data (release s) = lc_setup_data s" "lc_closing (release s) = lc_closing s"
  by (simp_all add: set_task_def release_def hm_get_put)

lemma lock_inv_set:
  "lock_inv (set_task t p s) \<longleftrightarrow> (holds_lock p \<longrightarrow> lock_holder s = Some t) \<and>
     (\<forall>u q. u \<noteq> t \<and> map_of (lc_tasks s) u = Some q \<and> holds_lock q \<longrightarrow> lock_holder s = Some u)"
  by (auto simp: lock_inv_def)

lemma lock_invD: "lock_inv s \<Longrightarrow> map_of (lc_tasks s) t = Some p \<Longrightarrow> holds_lock p \<Longrightarrow> lock_holder s = Some t"
  by (simp add: lock_inv_def)

lemma lock_holders:
  "lock_inv s \<Longrightarrow> map_of (lc_tasks s) t = Some (Running a b) \<Longrightarrow> lock_holder s = Some t"
  "lock_inv s \<Longrightarrow> map_of (lc_tasks s) t = Some (Returned a d) \<Longrightarrow> lock_holder s = Some t"
  "lock_inv s \<Longrightarrow> map_of (lc_tasks s) t = Some (Storing d) \<Longrightarrow> lock_holder s = Some t"
  by (auto dest: lock_invD)

lemma lock_inv_release:
  "lock_inv s \<Longrightarrow> lock_holder s = Some t \<Longrightarrow> \<not> holds_lock p \<Longrightarrow> lc_tasks s' = lc_tasks s \<Longrightarrow> lock_inv (set_task t p (release s'))"
  unfolding lock_inv_set by (simp add: lock_inv_def) (metis option.inject)

lemma lock_inv_step: "lc_step s s' \<Longrightarrow> lock_inv s \<Longrightarrow> lock_inv s'"
proof (induction rule: lc_step.induct)
  case (abort_run s)
  then show ?case by (simp add: lock_inv_def)
next
  case (hook_error s t h cancelled)
  then show ?case by (intro lock_inv_release[of s]) (auto dest: lock_holders)
next
  case (hook_late s t h data)
  then show ?case by (intro lock_inv_release[of s]) (auto dest: lock_holders)
next
  case (hook_done s t data)
  then show ?case by (intro lock_inv_release[of s]) (auto dest: lock_holders)
next
  case (store s t data)
  then show ?case by (intro lock_inv_release[of s]) (auto dest: lock_holders)
qed (auto simp: lock_inv_set dest: lock_invD lock_holders)

lemma lock_inv_reach: "lc_reach s \<Longrightarrow> lock_inv s"
proof (induction rule: lc_reach.induct)
  case lc_init
  then show ?case by (simp add: lock_inv_def)
next
  case (lc_next s s')
  then show ?case using lock_inv_step by blast
qed

lemma closed_step:
  "lc_step s s' \<Longrightarrow> lock_inv s \<Longrightarrow> lc_closing s \<Longrightarrow> lock_holder s = None \<Longrightarrow>
     lc_closing s' \<and> lock_holder s' = None \<and> lc_setup_data s' = lc_setup_data s"
  by (induction rule: lc_step.induct) (auto dest: lock_holders)

text \<open>C18.  Closing the lifecycle.  In every interleaving of hooks, \<open>PUT\<close> requests, aborts and closings: once
  the closing flag is up and the lock is found free, as when \<open>close_lifecycle\<close> returns within its timeout,
  no task takes the lock again and the setup data never change.\<close>

theorem closed_setup_data:
  assumes "lc_reach s" "lc_closing s" "lock_holder s = None" "lc_step\<^sup>*\<^sup>* s s'"
  shows "lc_setup_data s' = lc_setup_data s \<and> lock_holder s' = None \<and>
    (\<forall>t setup cancelled. map_of (lc_tasks s') t \<noteq> Some (Running setup cancelled))"
proof -
  have "lock_inv s' \<and> lc_closing s' \<and> lock_holder s' = None \<and> lc_setup_data s' = lc_setup_data s"
    using assms(4)
  proof (induction rule: rtranclp_induct)
    case base
    then show ?case using assms lock_inv_reach by blast
  next
    case (step y z)
    then show ?case using closed_step[OF step.hyps(2)] lock_inv_step[OF step.hyps(2)] by simp
  qed
  then show ?thesis by (fastforce simp: lock_inv_def)
qed

definition closed_state :: lc_state where
  "closed_state = \<lparr>lc_setup_data = None, lc_closing = True, lc_abort = False, lock_holder = None, lc_tasks = [(0, Closing)]\<rparr>"

theorem closed_setup_data_witness:
  "lc_reach closed_state \<and> lc_step\<^sup>*\<^sup>* closed_state (set_task 1 (Finished False) (set_task 1 (Queued (Inr (Some ''late''))) closed_state)) \<and>
   lc_setup_data (set_task 1 (Finished False) (set_task 1 (Queued (Inr (Some ''late''))) closed_state)) = lc_setup_data closed_state"
proof -
  have r: "lc_reach closed_state"
    using lc_next[OF lc_init lc_step.close[of _ 0]] by (simp add: set_task_def hm_put_def closed_state_def)
  let ?q = "set_task 1 (Queued (Inr (Some ''late''))) closed_state"
  have "lc_step closed_state ?q" by (rule lc_step.request) (simp add: closed_state_def)
  moreover have "lc_step ?q (set_task 1 (Finished False) ?q)"
    by (rule lc_step.refused) (simp_all, simp_all add: closed_state_def)
  ultimately have s: "lc_step\<^sup>*\<^sup>* closed_state (set_task 1 (Finished False) ?q)" by auto
  show ?thesis using r s closed_setup_data[OF r _ _ s] by (simp add: closed_state_def)
qed



section \<open>Taints\<close>

lemma taints_fold:
  "map_of (fold (\<lambda>r m. hm_put (res_metric r) ((case map_of m (res_metric r) of None \<Rightarrow> False | Some b \<Rightarrow> b) \<or> \<not> res_passed r) m) rs m) n =
     (if \<exists>r \<in> set rs. res_metric r = n
      then Some ((case map_of m n of None \<Rightarrow> False | Some b \<Rightarrow> b) \<or> (\<exists>r \<in> set rs. res_metric r = n \<and> \<not> res_passed r))
      else map_of m n)"
  by (induction rs arbitrary: m) (auto simp: hm_get_put split: option.splits)

lemma taints_wf: "hm_wf (taints X snap c)"
proof -
  have w: "hm_wf m \<Longrightarrow> hm_wf (fold (\<lambda>r m. hm_put (res_metric r) (f r m) m) rs m)" for f rs and m :: "(string, bool) hm"
    by (induction rs arbitrary: m) auto
  show ?thesis unfolding taints_def by (rule w) (rule hm.wf_Nil)
qed

lemma evaluate_set: "set (evaluate D ths snap) = (\<lambda>x. evaluate_one D (fst x) (th_expression (snd x)) snap) ` set (pairs_of ths)"
  unfolding evaluate_def pairs_of_def by (auto simp: case_prod_beta image_iff) (metis fst_conv snd_conv)+

lemma taints_get:
  "map_of (taints X snap c) n = Some True \<longleftrightarrow> (\<exists>x \<in> set (pairs_of (ct_thresholds c)). fails (cd_deps X) x snap \<and> fst x = n)"
  unfolding taints_def taints_fold evaluate_set by (auto simp: fails_def)

definition shown :: "('n, 'c, 'h) control_deps \<Rightarrow> int \<Rightarrow> ('n, 'c, 'h) control \<Rightarrow> string set" where
  "shown X now c = dom (map_of (sd_metrics (build_summary_data (cd_md5 X) (cd_tty X) (hist (cd_deps X)) (control_snapshot X now c) 0
     (Some (ct_thresholds c)))))"

lemma update_taints_filter:
  "ct_thresholds c \<noteq> [] \<Longrightarrow>
     tainted_metrics (update_taints X now c) = filter (\<lambda>(n, _). n \<in> shown X now c) (taints X (control_snapshot X now c) c)"
  by (simp add: update_taints_def Let_def shown_def domIff case_prod_beta)

lemma list_ex_true: "hm_wf m \<Longrightarrow> list_ex snd (filter (\<lambda>(n, _). P n) m) \<longleftrightarrow> (\<exists>n. map_of m n = Some True \<and> P n)"
  by (force simp: hm_wf_def list_ex_iff)

text \<open>C19.  The taint of the status.  After an update with thresholds configured, the status is tainted exactly
  when some threshold fails whose key names a metric of the summary; so a threshold whose key has tags and
  is not canonical (another order of the tags, other blanks) never taints the status.\<close>

theorem taint_status:
  assumes "ct_thresholds c \<noteq> []"
  shows "(is_tainted (update_taints X now c) \<longleftrightarrow>
      (\<exists>x \<in> set (pairs_of (ct_thresholds c)). fails (cd_deps X) x (control_snapshot X now c) \<and> fst x \<in> shown X now c)) \<and>
    (\<forall>x \<in> set (pairs_of (ct_thresholds c)). CHR ''{'' \<in> set (fst x) \<and> fst x \<notin> canonical ` set (threshold_selectors (Some (ct_thresholds c))) \<longrightarrow> fst x \<notin> shown X now c)"
proof
  have "is_tainted (update_taints X now c) \<longleftrightarrow>
      (\<exists>n. map_of (taints X (control_snapshot X now c) c) n = Some True \<and> n \<in> shown X now c)"
    by (simp only: is_tainted_def update_taints_filter[OF assms] list_ex_true[OF taints_wf])
  then show "is_tainted (update_taints X now c) \<longleftrightarrow>
      (\<exists>x \<in> set (pairs_of (ct_thresholds c)). fails (cd_deps X) x (control_snapshot X now c) \<and> fst x \<in> shown X now c)"
    by (auto simp: taints_get)
  show "\<forall>x \<in> set (pairs_of (ct_thresholds c)). CHR ''{'' \<in> set (fst x) \<and> fst x \<notin> canonical ` set (threshold_selectors (Some (ct_thresholds c))) \<longrightarrow> fst x \<notin> shown X now c"
    by (auto simp: shown_def summary_dom simp del: dom_map_of_conv_image_fst)
qed

theorem taint_status_witness:
  "fails example_deps (''m{b:2,a:1}'', from_expression ''count<1'') (control_snapshot example_control_deps 9 example_control) \<and>
   resolve_stat example_deps ''m{b:2,a:1}'' SCount (control_snapshot example_control_deps 9 example_control) = flit 5 \<and>
   \<not> is_tainted (update_taints example_control_deps 9 example_control)"
proof -
  have t: "ct_thresholds example_control = order_thresholds" by (simp add: example_control_def control_new_def)
  have e: "order_thresholds \<noteq> []" "pairs_of order_thresholds = [(''m{b:2,a:1}'', from_expression ''count<1'')]"
    by (simp_all add: order_thresholds_def pairs_of_def)
  have c: "''m{b:2,a:1}'' \<notin> canonical ` set (threshold_selectors (Some order_thresholds))" by code_simp
  have f: "fails example_deps (''m{b:2,a:1}'', from_expression ''count<1'') (control_snapshot example_control_deps 9 example_control)"
      "resolve_stat example_deps ''m{b:2,a:1}'' SCount (control_snapshot example_control_deps 9 example_control) = flit 5" by code_simp+
  show ?thesis using f c taint_status[of example_control example_control_deps 9] by (simp add: t e)
qed


section \<open>Requests\<close>

lemma jobj_get: "distinct (map fst kvs) \<Longrightarrow> (k, v) \<in> set kvs \<Longrightarrow> as_object (jobj kvs) = Some m \<Longrightarrow> map_of m k = Some v"
  using bt.get_puts[OF bt_wf_Nil, of kvs k] map_of_is_SomeI[of "rev kvs" k v] by (simp add: jobj_def flip: rev_map)

text \<open>The identifier of a metric resource is its name.\<close>

lemma has_id_metric: "has_id ident (metric_json taint registry name mt) \<longleftrightarrow> name = ident"
proof -
  define a where "a = (jobj [(''type'', JString (sm_type mt)), (''contains'', JString (registry_contains name registry)),
         (''tainted'', case map_of taint name of None \<Rightarrow> JNull | Some b \<Rightarrow> JBool b),
         (''sample'', jobj (filter (\<lambda>(k, _). sample_keys (sm_type mt) k) (map (\<lambda>(k, v). (k, jfloat v)) (sm_values mt))))])"
  have "map_of (fold (\<lambda>(k, v). bt_put k v) [(''type'', JString ''metrics''), (''id'', JString name), (''attributes'', a)] []) ''id'' = Some (JString name)"
    by (simp only: bt.get_puts[OF bt_wf_Nil]) simp
  then show ?thesis by (simp add: metric_json_def has_id_def jobj_def[of "(''type'', JString ''metrics'') # _"] flip: a_def)
qed

lemma find_sorted:
  assumes "hm_wf m"
  shows "find (\<lambda>(k, _). k = n) (sort_key fst m) = map_option (Pair n) (map_of m n)"
proof -
  have d: "distinct (map fst (sort_key fst m))" using assms by (simp add: hm_wf_def distinct_map inj_on_def)
  have "find (\<lambda>(k, _). k = n) xs = map_option (Pair n) (map_of xs n)" for xs :: "('a \<times> 'b) list" by (induction xs) auto
  moreover have "map_of (sort_key fst m) = map_of m" using assms d by (intro map_of_inject_set[THEN iffD2]) (auto simp: hm_wf_def)
  ultimately show ?thesis by simp
qed

lemma find_map: "find P (map f xs) = map_option f (find (P \<circ> f) xs)"
  by (induction xs) auto

text \<open>The thresholds that select the metrics of the resources: those configured and the one always tracked.\<close>

definition resource_selectors :: "thresholds \<Rightarrow> thresholds" where
  "resource_selectors ths =
     (let auto = ''http_req_duration{expected_response:true}''
      in case map_of ths auto of None \<Rightarrow> hm_put auto [] ths | Some _ \<Rightarrow> ths)"

lemma find_resource:
  "find (has_id name) (metric_resources X snap taint ths registry) =
     map_option (metric_json taint registry name)
       (map_of (sd_metrics (build_summary_data (cd_md5 X) (cd_tty X) (hist (cd_deps X)) snap 0 (Some (resource_selectors ths)))) name)"
proof -
  have e: "has_id name \<circ> (\<lambda>(name, mt). metric_json taint registry name mt) = (\<lambda>(k, _). k = name)"
    by (auto simp: fun_eq_iff has_id_metric)
  show ?thesis
    unfolding metric_resources_def Let_def resource_selectors_def find_map e
    by (simp add: find_sorted summary_metrics_wf option.map_comp comp_def)
qed

text \<open>A metric by its name.  A \<open>GET\<close> for the metric with some name is answered with the resource of that
  metric as the summary holds it at this moment, or with 404 when the summary has none, and leaves the
  state as it is.\<close>

lemma get_metric:
  assumes "rq_method rq = ''GET''" "decode_path (rq_path rq) = ''/v1/metrics/'' @ name"
  shows "dispatch X now rq c = (c,
    (case map_of (sd_metrics (build_summary_data (cd_md5 X) (cd_tty X) (hist (cd_deps X)) (control_snapshot X now c) 0
         (Some (resource_selectors (ct_thresholds c))))) name of
       Some mt \<Rightarrow> response_of (cd_json X) 200 text_ct (jobj [(''data'', metric_json (tainted_metrics c) (ct_registry c) name mt)])
     | None \<Rightarrow> error_response (cd_json X) text_ct
         \<lparr>ae_status = 404, ae_title = ''Not Found'', ae_detail = ''No metric with that ID was found''\<rparr>))"
proof -
  have p: "known (''/v1/metrics/'' @ name)" "allowed (''/v1/metrics/'' @ name) ''GET''" "starts_with ''/v1/metrics'' (''/v1/metrics/'' @ name)"
      "strip_prefix ''/v1/metrics/'' (''/v1/metrics/'' @ name) = Some name"
    by (simp_all add: known_def allowed_def starts_with_def strip_prefix_def)
  show ?thesis
    unfolding dispatch_def Let_def assms get_resource_def collection_of_def
    using p by (simp add: find_resource split: option.splits)
qed

text \<open>Setup data over REST.  While the run is not shutting down, the JSON value sent with a \<open>PUT\<close> to
  \<open>/v1/setup\<close> is the one in the answer of the next \<open>GET\<close>.\<close>

lemma setup_put_get:
  assumes "\<not> closing c" "decode_path (rq_path put) = ''/v1/setup''" "rq_method put = ''PUT''" "rq_body put = Inr b" "b \<noteq> []"
    and "decode_path (rq_path get) = ''/v1/setup''" "rq_method get = ''GET''"
    and "js_from_slice (cd_json X) b = Inr v" "js_from_slice (cd_json X) (js_to_string (cd_json X) v) = Inr v"
  shows "\<exists>c'. dispatch X now put c = (c', setup_response (cd_json X) (Some (js_to_string (cd_json X) v))) \<and>
    dispatch X later get c' = (c', \<lparr>rs_status = 200, rs_content_type = Some ''application/json'',
      rs_body = js_to_string (cd_json X) (jobj [(''data'', jobj [(''type'', JString ''setupData''), (''id'', JString ''default''),
        (''attributes'', jobj [(''data'', v)])])])\<rparr>)"
proof -
  have p: "known ''/v1/setup''" "allowed ''/v1/setup'' ''PUT''" "allowed ''/v1/setup'' ''GET''" by (simp_all add: known_def allowed_def)
  have "dispatch X now put c = (c\<lparr>setup_data := Some (js_to_string (cd_json X) v)\<rparr>, setup_response (cd_json X) (Some (js_to_string (cd_json X) v)))"
    using p assms by (simp add: dispatch_def put_setup_request_def parse_json_def put_setup_def)
  moreover have "dispatch X later get (c\<lparr>setup_data := Some (js_to_string (cd_json X) v)\<rparr>) =
      (c\<lparr>setup_data := Some (js_to_string (cd_json X) v)\<rparr>, setup_response (cd_json X) (Some (js_to_string (cd_json X) v)))"
    using p assms by (simp add: dispatch_def)
  ultimately show ?thesis using assms(9) by (simp add: setup_response_def response_of_def setup_json_def)
qed

text \<open>Requests that only read leave the state as it is, and so do those that are not routed.\<close>

lemma dispatch_reads:
  assumes "rq_method rq \<notin> {''PATCH'', ''PUT'', ''POST''} \<or> \<not> known (decode_path (rq_path rq))"
  shows "fst (dispatch X now rq c) = c"
  using assms by (auto simp: dispatch_def Let_def)

text \<open>The path decoder takes a plus for the first digit of an escape.\<close>

lemma decode_plus: "decode_path ''%+4x'' = [CHR 0x04, CHR ''x'']"
  by code_simp

text \<open>The group resources list every group of the tree once, a parent before its children.\<close>

fun tree_paths :: "group_snapshot \<Rightarrow> string list" where
  "tree_paths (GroupSnapshot name path children checks dur) = path # concat (map (\<lambda>(_, g). tree_paths g) children)"

definition id_of :: "json \<Rightarrow> string option" where
  "id_of v = (case v of JObject m \<Rightarrow> Option.bind (map_of m ''id'') as_str | _ \<Rightarrow> None)"

lemma flatten_ids: "map id_of (flatten_groups md5 g parent) = map (\<lambda>p. Some (md5 p)) (tree_paths g)"
proof (induction g arbitrary: parent rule: tree_paths.induct)
  case (1 name path children checks dur)
  have h: "id_of (jobj [(''type'', a), (''id'', JString i), (''attributes'', b), (''relationships'', d)]) = Some i" for a i b d
  proof -
    have "map_of (fold (\<lambda>(k, v). bt_put k v) [(''type'', a), (''id'', JString i), (''attributes'', b), (''relationships'', d)] []) ''id'' = Some (JString i)"
      by (simp only: bt.get_puts[OF bt_wf_Nil]) simp
    then show ?thesis by (simp add: jobj_def id_of_def)
  qed
  have "map id_of (concat (map (\<lambda>(_, g). flatten_groups md5 g (Some (md5 path))) cs)) =
      map (\<lambda>p. Some (md5 p)) (concat (map (\<lambda>(_, g). tree_paths g) cs))" if "set cs \<subseteq> set children" for cs
    using that 1 by (induction cs) (auto simp: map_concat)
  then show ?case by (simp add: h)
qed

end
