(* ===== verification/Hyper.thy ===== *)
theory Hyper
  imports Config
begin

text \<open>
  The HTTP client over hyper (\<open>crates/k6-js/src/hyper_client.rs\<close>): routes and proxies, the filters on hosts
  and addresses, the pool of connections, the exchange of one request with its byte counts and timings,
  and the redirect loop.  Parameters are the parsers of URLs, addresses, networks and headers
  (\<open>web_lib\<close>) and the network (\<open>net\<close>), whose operations change a world and give the results and the reads
  and writes they made on the counted stream.  Logging to standard error is left out.
\<close>

section \<open>Data\<close>

type_synonym u16 = "16 word"

datatype http_method = Get | Post | Put | Patch | Delete | Head | Options

record http_request =
  hq_method :: http_method
  hq_url :: string
  hq_headers :: "(string \<times> string) list"
  hq_body :: "string option"
  hq_timeout :: "duration option"

datatype response_body = Buffered string | Discarded

record http_response =
  hs_status :: u16
  hs_headers :: "(string \<times> string) list"
  hs_body :: response_body
  hs_timings :: timings
  hs_url :: string
  hs_data_sent :: u64
  hs_data_received :: u64

datatype ip_addr = V4 "32 word" | V6 "128 word"

type_synonym socket_addr = "ip_addr \<times> u16"

datatype transport = Http | Https

record proxy_route =
  px_scheme :: string
  px_host :: string
  px_port :: u16

record route_key =
  rk_transport :: transport
  rk_target_host :: string
  rk_target_port :: u16
  rk_source_ip :: "ip_addr option"
  rk_proxy :: "proxy_route option"

datatype connect_target = Host string | Ip socket_addr

record hyper_request =
  hr_method :: http_method
  hr_url :: string
  hr_headers :: "(string \<times> string) list"
  hr_body :: "string option"

datatype tls_version = TLS12 | TLS13

record 'net hyper_config =
  hc_discard_response_bodies :: bool
  hc_max_response_body_size :: nat
  hc_request_timeout :: duration
  hc_no_connection_reuse :: bool
  hc_user_agent_override :: "string option"
  hc_blacklist_ips :: "'net list"
  hc_block_hostnames :: "string list"
  hc_hosts :: "(string, string) hm"
  hc_max_redirects :: u32
  hc_local_ips :: "ip_addr list"
  hc_http_proxy :: "proxy_route option"
  hc_https_proxy :: "proxy_route option"
  hc_no_proxy :: "string list"
  hc_insecure_skip_tls_verify :: bool
  hc_tls_versions :: "tls_version list option"
  hc_http_debug :: "string option"

datatype protocol = Http1 | Http2

record wire_metrics =
  wm_written :: u64
  wm_read :: u64
  wm_last_write :: "int option"

record pooled_conn =
  pc_conn :: nat
  pc_protocol :: protocol
  pc_wire :: wire_metrics

record 'net hyper_client =
  hy_config :: "'net hyper_config"
  hy_user_agent :: string
  hy_local_ip_index :: u64
  hy_pool :: "(route_key, pooled_conn list) hm"

datatype http_error =
  InvalidUrl | UnsupportedScheme string | MissingHost | BlockedHost string | BlockedIp ip_addr
| DnsFailed string | NoAddress | FamilyMismatch ip_addr socket_addr | CreateSocket | BindFailed ip_addr | ConnectFailed
| TunnelWrite | TunnelRead | TunnelClosed | TunnelTooLong | TunnelNoStatus | TunnelRefused string
| BadServerName string | TlsFailed | HandshakeFailed | BadRequest | SendFailed | BodyFailed
| BadRedirectBase | BadLocation string | TooManyRedirects u32 | TimedOut duration
| InvalidUserAgent string | InvalidLocalIp string | BadProxyUrl string | ProxyScheme string | ProxyNoHost | ProxyNoPort
| TlsRange "string option" "string option"

section \<open>Parameters\<close>

record uri =
  uri_scheme :: "string option"
  uri_host :: "string option"
  uri_port :: "u16 option"
  uri_path_and_query :: "string option"

record url =
  url_scheme :: string
  url_host :: "string option"
  url_port_or_default :: "u16 option"

record wire_request =
  wr_method :: http_method
  wr_uri :: string
  wr_headers :: "(string \<times> string) list"
  wr_body :: string

text \<open>\<open>url_join base location\<close> parses the base and then resolves the location against it.\<close>

datatype join_error = BaseError | LocationError

record 'net web_lib =
  uri_parse :: "string \<Rightarrow> uri option"
  url_parse :: "string \<Rightarrow> url option"
  url_join :: "string \<Rightarrow> string \<Rightarrow> join_error + string"
  ip_parse :: "string \<Rightarrow> ip_addr option"
  ip_text :: "ip_addr \<Rightarrow> string"
  net_parse :: "string \<Rightarrow> 'net option"
  net_contains :: "'net \<Rightarrow> ip_addr \<Rightarrow> bool"
  header_value_ok :: "string \<Rightarrow> bool"
  server_name_ok :: "string \<Rightarrow> bool"
  request_ok :: "wire_request \<Rightarrow> bool"

text \<open>A write or a read of the counted stream, with the instant of the write.\<close>

datatype io_event = Wrote nat int | Got nat

datatype frame = Data string | Trailers | FrameError

datatype connect_error = CannotCreate | CannotBind | CannotConnect

record response_head =
  rh_status :: u16
  rh_headers :: "(string \<times> string) list"

record 'w net =
  net_now :: "'w \<Rightarrow> int"
  net_lookup :: "string \<Rightarrow> 'w \<Rightarrow> 'w \<times> socket_addr list option"
  net_connect :: "socket_addr \<Rightarrow> ip_addr option \<Rightarrow> 'w \<Rightarrow> 'w \<times> (connect_error + nat)"
  net_write :: "nat \<Rightarrow> string \<Rightarrow> 'w \<Rightarrow> 'w \<times> io_event list \<times> bool"
  net_read :: "nat \<Rightarrow> 'w \<Rightarrow> 'w \<times> io_event list \<times> string option"
  net_tls :: "nat \<Rightarrow> string \<Rightarrow> 'w \<Rightarrow> 'w \<times> io_event list \<times> bool option"
  net_handshake :: "nat \<Rightarrow> protocol \<Rightarrow> 'w \<Rightarrow> 'w \<times> io_event list \<times> bool"
  net_send :: "nat \<Rightarrow> wire_request \<Rightarrow> 'w \<Rightarrow> 'w \<times> io_event list \<times> response_head option"
  net_body :: "nat \<Rightarrow> 'w \<Rightarrow> 'w \<times> io_event list \<times> frame list"

section \<open>Strings\<close>

definition eq_ignore_case :: "string \<Rightarrow> string \<Rightarrow> bool" where
  "eq_ignore_case a b \<longleftrightarrow> map to_lower a = map to_lower b"

definition header_value :: "(string \<times> string) list \<Rightarrow> string \<Rightarrow> string option" where
  "header_value headers name = map_option snd (find (\<lambda>(k, _). eq_ignore_case k name) headers)"

definition connection_close_requested :: "(string \<times> string) list \<Rightarrow> bool" where
  "connection_close_requested headers =
     (case header_value headers ''connection'' of
        None \<Rightarrow> False
      | Some v \<Rightarrow> list_ex (\<lambda>part. eq_ignore_case (trim part) ''close'') (split_on (CHR '','') v))"

definition authority :: "proxy_route \<Rightarrow> string" where
  "authority p = px_host p @ '':'' @ dec (uint (px_port p))"

definition method_text :: "http_method \<Rightarrow> string" where
  "method_text mth = (case mth of Get \<Rightarrow> ''GET'' | Post \<Rightarrow> ''POST'' | Put \<Rightarrow> ''PUT'' | Patch \<Rightarrow> ''PATCH''
     | Delete \<Rightarrow> ''DELETE'' | Head \<Rightarrow> ''HEAD'' | Options \<Rightarrow> ''OPTIONS'')"

section \<open>Configuration\<close>

definition parse_http_proxy :: "'net web_lib \<Rightarrow> string \<Rightarrow> http_error + proxy_route" where
  "parse_http_proxy L raw =
     (let proxy_url = (if find_str ''://'' raw \<noteq> None then raw else ''http://'' @ raw)
      in case url_parse L proxy_url of
           None \<Rightarrow> Inl (BadProxyUrl raw)
         | Some parsed \<Rightarrow>
             if url_scheme parsed \<noteq> ''http'' then Inl (ProxyScheme (url_scheme parsed))
             else (case url_host parsed of
                     None \<Rightarrow> Inl ProxyNoHost
                   | Some host \<Rightarrow>
                       (case url_port_or_default parsed of
                          None \<Rightarrow> Inl ProxyNoPort
                        | Some port \<Rightarrow> Inr \<lparr>px_scheme = url_scheme parsed, px_host = host, px_port = port\<rparr>)))"

text \<open>\<open>env\<close> is the process environment.\<close>

definition env_either :: "(string \<Rightarrow> string option) \<Rightarrow> string \<Rightarrow> string \<Rightarrow> string option" where
  "env_either env upper lower = (case env upper of Some v \<Rightarrow> Some v | None \<Rightarrow> env lower)"

definition proxy_from_env :: "'net web_lib \<Rightarrow> (string \<Rightarrow> string option) \<Rightarrow> string \<Rightarrow> string \<Rightarrow> http_error + proxy_route option" where
  "proxy_from_env L env upper lower =
     (case env_either env upper lower of
        None \<Rightarrow> Inr None
      | Some raw \<Rightarrow> (case parse_http_proxy L raw of Inl e \<Rightarrow> Inl e | Inr p \<Rightarrow> Inr (Some p)))"

definition no_proxy_from_env :: "(string \<Rightarrow> string option) \<Rightarrow> string list" where
  "no_proxy_from_env env =
     (case env_either env ''NO_PROXY'' ''no_proxy'' of
        None \<Rightarrow> []
      | Some raw \<Rightarrow> filter (\<lambda>part. part \<noteq> []) (map trim (split_on (CHR '','') raw)))"

definition supported_tls_version_rank :: "string \<Rightarrow> nat option" where
  "supported_tls_version_rank v = (if v = ''tls1.2'' then Some 2 else if v = ''tls1.3'' then Some 3 else None)"

definition tls_protocol_versions :: "tls_version_config option \<Rightarrow> http_error + tls_version list option" where
  "tls_protocol_versions tls =
     (case tls of
        None \<Rightarrow> Inr None
      | Some t \<Rightarrow>
          (let lo = Option.bind (tls_min t) supported_tls_version_rank; hi = Option.bind (tls_max t) supported_tls_version_rank
           in if (case (lo, hi) of (Some l, Some h) \<Rightarrow> h < l | _ \<Rightarrow> False) then Inl (TlsRange (tls_min t) (tls_max t))
              else (let versions = map snd (filter (\<lambda>(rank, _). (case lo of None \<Rightarrow> True | Some l \<Rightarrow> l \<le> rank) \<and>
                                                            (case hi of None \<Rightarrow> True | Some h \<Rightarrow> rank \<le> h))
                                              [(3, TLS13), (2 :: nat, TLS12)])
                    in Inr (if versions = [] then None else Some versions))))"

definition DEFAULT_REQUEST_TIMEOUT :: duration where
  "DEFAULT_REQUEST_TIMEOUT = from_secs 30"

definition DEFAULT_MAX_RESPONSE_BODY_SIZE :: nat where
  "DEFAULT_MAX_RESPONSE_BODY_SIZE = 10 * 1024 * 1024"

definition DEFAULT_MAX_REDIRECTS :: u32 where
  "DEFAULT_MAX_REDIRECTS = 10"

text \<open>\<open>version\<close> is the package version the build puts into the default user agent.\<close>

definition hyper_from_config ::
    "'net web_lib \<Rightarrow> string \<Rightarrow> (string \<Rightarrow> string option) \<Rightarrow> test_config \<Rightarrow> http_error + 'net hyper_client" where
  "hyper_from_config L version env config =
     bind_r (case cfg_user_agent config of
               None \<Rightarrow> Inr None
             | Some ua \<Rightarrow> if header_value_ok L ua then Inr (Some ua) else Inl (InvalidUserAgent ua)) (\<lambda>ua.
     bind_r (collect_r (map (\<lambda>s. case ip_parse L s of None \<Rightarrow> Inl (InvalidLocalIp s) | Some a \<Rightarrow> Inr a) (cfg_local_ips config))) (\<lambda>local_ips.
     bind_r (proxy_from_env L env ''HTTP_PROXY'' ''http_proxy'') (\<lambda>http_proxy.
     bind_r (proxy_from_env L env ''HTTPS_PROXY'' ''https_proxy'') (\<lambda>https_proxy.
     bind_r (tls_protocol_versions (cfg_tls_version config)) (\<lambda>versions.
       Inr \<lparr>hy_config =
              \<lparr>hc_discard_response_bodies = cfg_discard_response_bodies config,
               hc_max_response_body_size = DEFAULT_MAX_RESPONSE_BODY_SIZE,
               hc_request_timeout = DEFAULT_REQUEST_TIMEOUT,
               hc_no_connection_reuse = cfg_no_connection_reuse config,
               hc_user_agent_override = ua,
               hc_blacklist_ips = List.map_filter (net_parse L) (cfg_blacklist_ips config),
               hc_block_hostnames = cfg_block_hostnames config,
               hc_hosts = cfg_hosts config,
               hc_max_redirects = (case cfg_max_redirects config of None \<Rightarrow> DEFAULT_MAX_REDIRECTS | Some n \<Rightarrow> n),
               hc_local_ips = local_ips,
               hc_http_proxy = http_proxy, hc_https_proxy = https_proxy, hc_no_proxy = no_proxy_from_env env,
               hc_insecure_skip_tls_verify = cfg_insecure_skip_tls_verify config,
               hc_tls_versions = versions,
               hc_http_debug = cfg_http_debug config\<rparr>,
            hy_user_agent = (case ua of Some v \<Rightarrow> v | None \<Rightarrow> ''k6-rs/'' @ version),
            hy_local_ip_index = 0, hy_pool = []\<rparr>)))))"

section \<open>Filters and routes\<close>

definition hostname_matches :: "string \<Rightarrow> string \<Rightarrow> bool" where
  "hostname_matches host pattern =
     (if starts_with ''*.'' pattern
      then (let suffix = drop 1 pattern in ends_with suffix host \<and> length suffix < length host)
      else host = pattern)"

definition check_blocked_hostname :: "'net hyper_config \<Rightarrow> string \<Rightarrow> http_error + unit" where
  "check_blocked_hostname cfg host =
     (if list_ex (hostname_matches host) (hc_block_hostnames cfg) then Inl (BlockedHost host) else Inr ())"

definition check_ip_blacklist :: "'net web_lib \<Rightarrow> 'net hyper_config \<Rightarrow> ip_addr \<Rightarrow> http_error + unit" where
  "check_ip_blacklist L cfg ip = (if list_ex (\<lambda>n. net_contains L n ip) (hc_blacklist_ips cfg) then Inl (BlockedIp ip) else Inr ())"

definition check_literal_ip_blacklist :: "'net web_lib \<Rightarrow> 'net hyper_config \<Rightarrow> string \<Rightarrow> http_error + unit" where
  "check_literal_ip_blacklist L cfg host = (case ip_parse L host of None \<Rightarrow> Inr () | Some ip \<Rightarrow> check_ip_blacklist L cfg ip)"

definition strip_either :: "string \<Rightarrow> string \<Rightarrow> string \<Rightarrow> string" where
  "strip_either p q s = (if starts_with p s then drop (length p) s else if starts_with q s then drop (length q) s else s)"

definition no_proxy_matches :: "string list \<Rightarrow> string \<Rightarrow> bool" where
  "no_proxy_matches patterns host =
     list_ex (\<lambda>pattern.
       let p = trim pattern
       in if p = ''*'' then True
          else (let p = strip_either ''http://'' ''https://'' p;
                    p = dropWhile (\<lambda>c. c = CHR ''.'') (hd (split_on (CHR '':'') p))
                in host = p \<or> ends_with (''.'' @ p) host)) patterns"

definition proxy_for :: "'net hyper_config \<Rightarrow> string \<Rightarrow> string \<Rightarrow> proxy_route option" where
  "proxy_for cfg scheme host =
     (if no_proxy_matches (hc_no_proxy cfg) host then None
      else if scheme = ''http'' then hc_http_proxy cfg
      else if scheme = ''https'' then hc_https_proxy cfg
      else None)"

definition transport_for_scheme :: "string \<Rightarrow> http_error + transport" where
  "transport_for_scheme scheme =
     (if scheme = ''http'' then Inr Http else if scheme = ''https'' then Inr Https else Inl (UnsupportedScheme scheme))"

definition host_port :: "string \<Rightarrow> u16 \<Rightarrow> string" where
  "host_port host port = host @ '':'' @ dec (uint port)"

definition resolve_connect_target ::
    "'net web_lib \<Rightarrow> 'net hyper_config \<Rightarrow> string \<Rightarrow> u16 \<Rightarrow> http_error + string \<times> connect_target" where
  "resolve_connect_target L cfg host port =
     (case Option.bind (map_of (hc_hosts cfg) host) (ip_parse L) of
        Some ip \<Rightarrow> bind_r (check_ip_blacklist L cfg ip) (\<lambda>_. Inr (ip_text L ip, Ip (ip, port)))
      | None \<Rightarrow> Inr (host, Host (host_port host port)))"

text \<open>Where a request goes: what \<open>send_once\<close> derives from its URL before it touches the network.\<close>

record route =
  rt_uri :: uri
  rt_transport :: transport
  rt_host :: string
  rt_port :: u16
  rt_proxy :: "proxy_route option"
  rt_target_host :: string
  rt_target :: connect_target

definition plan_route :: "'net web_lib \<Rightarrow> 'net hyper_config \<Rightarrow> string \<Rightarrow> http_error + route" where
  "plan_route L cfg address =
     (case uri_parse L address of
        None \<Rightarrow> Inl InvalidUrl
      | Some uri \<Rightarrow>
          (let scheme = (case uri_scheme uri of None \<Rightarrow> ''http'' | Some s \<Rightarrow> s)
           in bind_r (transport_for_scheme scheme) (\<lambda>tr.
              (case uri_host uri of
                 None \<Rightarrow> Inl MissingHost
               | Some host \<Rightarrow>
                   (let port = (case uri_port uri of Some p \<Rightarrow> p | None \<Rightarrow> (case tr of Http \<Rightarrow> 80 | Https \<Rightarrow> 443))
                    in bind_r (check_blocked_hostname cfg host) (\<lambda>_.
                       bind_r (check_literal_ip_blacklist L cfg host) (\<lambda>_.
                         (let proxy = proxy_for cfg scheme host
                          in bind_r (case proxy of
                                       Some p \<Rightarrow> Inr (host, Host (authority p))
                                     | None \<Rightarrow> resolve_connect_target L cfg host port) (\<lambda>(target_host, target).
                             Inr \<lparr>rt_uri = uri, rt_transport = tr, rt_host = host, rt_port = port, rt_proxy = proxy,
                                  rt_target_host = target_host, rt_target = target\<rparr>)))))))))"

definition route_key_of :: "route \<Rightarrow> ip_addr option \<Rightarrow> route_key" where
  "route_key_of r src =
     \<lparr>rk_transport = rt_transport r, rk_target_host = rt_target_host r, rk_target_port = rt_port r, rk_source_ip = src, rk_proxy = rt_proxy r\<rparr>"

section \<open>The pool\<close>

definition next_source_ip :: "'net hyper_client \<Rightarrow> 'net hyper_client \<times> ip_addr option" where
  "next_source_ip c =
     (let ips = hc_local_ips (hy_config c)
      in if ips = [] then (c, None)
         else (c\<lparr>hy_local_ip_index := hy_local_ip_index c + 1\<rparr>, Some (ips ! (unat (hy_local_ip_index c) mod length ips))))"

definition try_acquire :: "route_key \<Rightarrow> 'net hyper_client \<Rightarrow> 'net hyper_client \<times> pooled_conn option" where
  "try_acquire key c =
     (case map_of (hy_pool c) key of
        None \<Rightarrow> (c, None)
      | Some v \<Rightarrow> (if v = [] then (c, None) else (c\<lparr>hy_pool := hm_put key (butlast v) (hy_pool c)\<rparr>, Some (last v))))"

definition release_conn :: "route_key \<Rightarrow> pooled_conn \<Rightarrow> 'net hyper_client \<Rightarrow> 'net hyper_client" where
  "release_conn key conn c =
     c\<lparr>hy_pool := hm_put key ((case map_of (hy_pool c) key of None \<Rightarrow> [] | Some v \<Rightarrow> v) @ [conn]) (hy_pool c)\<rparr>"

section \<open>The counted stream\<close>

definition wire_new :: wire_metrics where
  "wire_new = \<lparr>wm_written = 0, wm_read = 0, wm_last_write = None\<rparr>"

fun count_io :: "io_event \<Rightarrow> wire_metrics \<Rightarrow> wire_metrics" where
  "count_io (Wrote n t) m = (if 0 < n then m\<lparr>wm_written := wm_written m + of_nat n, wm_last_write := Some t\<rparr> else m)"
| "count_io (Got n) m = (if 0 < n then m\<lparr>wm_read := wm_read m + of_nat n\<rparr> else m)"

definition count_all :: "io_event list \<Rightarrow> wire_metrics \<Rightarrow> wire_metrics" where
  "count_all evs m = fold count_io evs m"

section \<open>Opening a connection\<close>

definition connect_tcp :: "'w net \<Rightarrow> socket_addr \<Rightarrow> ip_addr option \<Rightarrow> 'w \<Rightarrow> 'w \<times> (http_error + nat)" where
  "connect_tcp N addr src w =
     (case src of
        None \<Rightarrow> (case net_connect N addr None w of (w, Inr conn) \<Rightarrow> (w, Inr conn) | (w, Inl _) \<Rightarrow> (w, Inl ConnectFailed))
      | Some ip \<Rightarrow>
          if (case ip of V4 _ \<Rightarrow> True | V6 _ \<Rightarrow> False) \<noteq> (case fst addr of V4 _ \<Rightarrow> True | V6 _ \<Rightarrow> False)
          then (w, Inl (FamilyMismatch ip addr))
          else (case net_connect N addr (Some ip) w of
                  (w, Inr conn) \<Rightarrow> (w, Inr conn)
                | (w, Inl e) \<Rightarrow> (w, Inl (case e of CannotCreate \<Rightarrow> CreateSocket | CannotBind \<Rightarrow> BindFailed ip | CannotConnect \<Rightarrow> ConnectFailed))))"

definition crlf :: string where "crlf = [CHR 0x0D, CHR 0x0A]"

definition connect_request :: "string \<Rightarrow> string" where
  "connect_request origin =
     ''CONNECT '' @ origin @ '' HTTP/1.1'' @ crlf @ ''Host: '' @ origin @ crlf @ ''Proxy-Connection: Keep-Alive'' @ crlf @ crlf"

lemma chunk_grows: "chunk \<noteq> [] \<Longrightarrow> \<not> 8192 < length response + length chunk \<Longrightarrow>
    8192 - (length response + length chunk) < 8192 - length response"
  by (cases chunk) (simp_all add: diff_less_mono2)

text \<open>The reads until the end of the head; each read gives at least one byte or ends the loop.\<close>

function read_connect_response ::
    "'w net \<Rightarrow> nat \<Rightarrow> string \<Rightarrow> wire_metrics \<Rightarrow> 'w \<Rightarrow> 'w \<times> wire_metrics \<times> (http_error + string)" where
  "read_connect_response N conn response m w =
     (if find_str (crlf @ crlf) response \<noteq> None then (w, m, Inr response)
      else (case net_read N conn w of
              (w, evs, got) \<Rightarrow>
                (let m = count_all evs m
                 in case got of
                      None \<Rightarrow> (w, m, Inl TunnelRead)
                    | Some chunk \<Rightarrow>
                        if chunk = [] then (w, m, Inl TunnelClosed)
                        else if 8192 < length (response @ chunk) then (w, m, Inl TunnelTooLong)
                        else read_connect_response N conn (response @ chunk) m w)))"
  by pat_completeness auto
termination by (relation "measure (\<lambda>(N, conn, response, m, w). 8192 - length response)") (auto intro: chunk_grows)

declare read_connect_response.simps [simp del]

definition connect_status :: "string \<Rightarrow> http_error + unit" where
  "connect_status response =
     (case find_str crlf response of
        None \<Rightarrow> Inl TunnelNoStatus
      | Some n \<Rightarrow>
          (let line = take n response
           in if starts_with ''HTTP/1.1 200'' line \<or> starts_with ''HTTP/1.0 200'' line then Inr () else Inl (TunnelRefused line)))"

definition establish_connect_tunnel ::
    "'w net \<Rightarrow> nat \<Rightarrow> string \<Rightarrow> wire_metrics \<Rightarrow> 'w \<Rightarrow> 'w \<times> wire_metrics \<times> (http_error + unit)" where
  "establish_connect_tunnel N conn origin m w =
     (case net_write N conn (connect_request origin) w of
        (w, evs, ok) \<Rightarrow>
          (let m = count_all evs m
           in if \<not> ok then (w, m, Inl TunnelWrite)
              else (case read_connect_response N conn [] m w of
                      (w, m, Inl e) \<Rightarrow> (w, m, Inl e)
                    | (w, m, Inr response) \<Rightarrow> (w, m, connect_status response))))"

definition millis :: "int \<Rightarrow> f64" where
  "millis d = fmul (as_secs_f64 d) (flit 1000)"

definition since :: "int \<Rightarrow> int \<Rightarrow> int" where
  "since a b = max 0 (b - a)"

definition connect_address ::
    "'net web_lib \<Rightarrow> 'w net \<Rightarrow> 'net hyper_config \<Rightarrow> connect_target \<Rightarrow> 'w \<Rightarrow> 'w \<times> (http_error + socket_addr)" where
  "connect_address L N cfg target w =
     (case target of
        Ip addr \<Rightarrow> (w, Inr addr)
      | Host name \<Rightarrow>
          (case net_lookup N name w of
             (w, None) \<Rightarrow> (w, Inl (DnsFailed name))
           | (w, Some []) \<Rightarrow> (w, Inl NoAddress)
           | (w, Some (addr # _)) \<Rightarrow> (w, bind_r (check_ip_blacklist L cfg (fst addr)) (\<lambda>_. Inr addr))))"

text \<open>The handshakes on a fresh stream: the protocol and the duration of the TLS part.\<close>

definition shake_hands ::
    "'net web_lib \<Rightarrow> 'w net \<Rightarrow> transport \<Rightarrow> string \<Rightarrow> nat \<Rightarrow> wire_metrics \<Rightarrow> 'w \<Rightarrow> 'w \<times> wire_metrics \<times> (http_error + protocol \<times> f64)" where
  "shake_hands L N tr server_name conn m w =
     (let plain = (\<lambda>proto tls_ms m w. case net_handshake N conn proto w of
            (w, evs, ok) \<Rightarrow> (w, count_all evs m, if ok then Inr (proto, tls_ms) else Inl HandshakeFailed))
      in case tr of
           Http \<Rightarrow> plain Http1 f0 m w
         | Https \<Rightarrow>
             (let tls_start = net_now N w
              in if \<not> server_name_ok L server_name then (w, m, Inl (BadServerName server_name))
                 else (case net_tls N conn server_name w of
                         (w, evs, None) \<Rightarrow> (w, count_all evs m, Inl TlsFailed)
                       | (w, evs, Some is_h2) \<Rightarrow>
                           plain (if is_h2 then Http2 else Http1) (millis (net_now N w - tls_start)) (count_all evs m) w)))"

definition open_connection ::
    "'net web_lib \<Rightarrow> 'w net \<Rightarrow> 'net hyper_config \<Rightarrow> connect_target \<Rightarrow> ip_addr option \<Rightarrow> transport \<Rightarrow> string \<Rightarrow> string option \<Rightarrow> 'w \<Rightarrow>
     'w \<times> (http_error + pooled_conn \<times> f64 \<times> f64 \<times> f64)" where
  "open_connection L N cfg target src tr server_name tunnel w =
     (let blocked_start = net_now N w
      in case connect_address L N cfg target w of
           (w, Inl e) \<Rightarrow> (w, Inl e)
         | (w, Inr addr) \<Rightarrow>
     (let blocked_done = net_now N w; connect_start = net_now N w
      in case connect_tcp N addr src w of
           (w, Inl e) \<Rightarrow> (w, Inl e)
         | (w, Inr conn) \<Rightarrow>
     (let connect_done = net_now N w
      in case (case tunnel of
                 None \<Rightarrow> (w, wire_new, Inr ())
               | Some origin \<Rightarrow> establish_connect_tunnel N conn origin wire_new w) of
           (w, m, Inl e) \<Rightarrow> (w, Inl e)
         | (w, m, Inr _) \<Rightarrow>
     (case shake_hands L N tr server_name conn m w of
        (w, m, Inl e) \<Rightarrow> (w, Inl e)
      | (w, m, Inr (proto, tls_ms)) \<Rightarrow>
          (w, Inr (\<lparr>pc_conn = conn, pc_protocol = proto, pc_wire = m\<rparr>,
                   millis (since blocked_start blocked_done), millis (since connect_start connect_done), tls_ms))))))"

section \<open>One request\<close>

text \<open>The body: read to its end, kept up to the cap; the first error ends the loop.\<close>

fun read_frames :: "nat \<Rightarrow> frame list \<Rightarrow> string \<Rightarrow> string option" where
  "read_frames cap [] buffer = Some buffer"
| "read_frames cap (FrameError # fs) buffer = None"
| "read_frames cap (Trailers # fs) buffer = read_frames cap fs buffer"
| "read_frames cap (Data d # fs) buffer =
     read_frames cap fs (if length buffer < cap then buffer @ take (min (cap - length buffer) (length d)) d else buffer)"

fun drain_frames :: "frame list \<Rightarrow> bool" where
  "drain_frames [] = True"
| "drain_frames (FrameError # fs) = False"
| "drain_frames (_ # fs) = drain_frames fs"

definition read_body_with_cap_and_drain :: "frame list \<Rightarrow> bool \<Rightarrow> nat \<Rightarrow> response_body option" where
  "read_body_with_cap_and_drain frames discard cap =
     (if discard then (if drain_frames frames then Some Discarded else None) else map_option Buffered (read_frames cap frames []))"

definition build_request :: "route \<Rightarrow> protocol \<Rightarrow> hyper_request \<Rightarrow> string \<Rightarrow> wire_request" where
  "build_request r proto req user_agent =
     \<lparr>wr_method = hr_method req,
      wr_uri = (if proto = Http2 then hr_url req
                else if rt_proxy r \<noteq> None then hr_url req
                else (case uri_path_and_query (rt_uri r) of Some p \<Rightarrow> p | None \<Rightarrow> ''/'')),
      wr_headers = [(''host'', host_port (rt_host r) (rt_port r))] @
        (if list_ex (\<lambda>(k, _). eq_ignore_case k ''user-agent'') (hr_headers req) then [] else [(''user-agent'', user_agent)]) @ hr_headers req,
      wr_body = (case hr_body req of None \<Rightarrow> [] | Some b \<Rightarrow> b)\<rparr>"

text \<open>The instants of a request: start, before the send, last write, head of the response, end of the body, return.\<close>

definition timings_of :: "f64 \<times> f64 \<times> f64 \<Rightarrow> int \<Rightarrow> int \<Rightarrow> int option \<Rightarrow> int \<Rightarrow> int \<Rightarrow> int \<Rightarrow> timings" where
  "timings_of opening start send_start last_write waiting_done receive_done finish =
     (case opening of (blocked, connecting, tls) \<Rightarrow>
        let lw = (case last_write of None \<Rightarrow> send_start | Some t \<Rightarrow> t)
        in \<lparr>tm_duration = millis (finish - start), tm_blocked = blocked, tm_connecting = connecting, tm_tls_handshaking = tls,
            tm_sending = millis (since send_start lw), tm_waiting = millis (since lw waiting_done),
            tm_receiving = millis (since waiting_done receive_done)\<rparr>)"

text \<open>The exchange on a connection: the response and the connection as it is afterwards, or an error that drops it.\<close>

definition exchange ::
    "'net web_lib \<Rightarrow> 'w net \<Rightarrow> 'net hyper_config \<Rightarrow> route \<Rightarrow> hyper_request \<Rightarrow> string \<Rightarrow> int \<Rightarrow> pooled_conn \<Rightarrow> f64 \<times> f64 \<times> f64 \<Rightarrow> 'w \<Rightarrow>
     'w \<times> (http_error + http_response \<times> pooled_conn)" where
  "exchange L N cfg r req user_agent start p opening w =
     (let sent_before = wm_written (pc_wire p); recv_before = wm_read (pc_wire p);
          m = (pc_wire p)\<lparr>wm_last_write := None\<rparr>;
          wreq = build_request r (pc_protocol p) req user_agent
      in if \<not> request_ok L wreq then (w, Inl BadRequest)
         else (let send_start = net_now N w
               in case net_send N (pc_conn p) wreq w of
                    (w, evs, None) \<Rightarrow> (w, Inl SendFailed)
                  | (w, evs, Some head) \<Rightarrow>
     (let waiting_done = net_now N w; m = count_all evs m
      in case net_body N (pc_conn p) w of
           (w, evs, frames) \<Rightarrow>
     (let m = count_all evs m
      in case read_body_with_cap_and_drain frames (hc_discard_response_bodies cfg) (hc_max_response_body_size cfg) of
           None \<Rightarrow> (w, Inl BodyFailed)
         | Some body \<Rightarrow>
             (w, Inr (\<lparr>hs_status = rh_status head, hs_headers = rh_headers head, hs_body = body,
                      hs_timings = timings_of opening start send_start (wm_last_write m) waiting_done (net_now N w) (net_now N w),
                      hs_url = hr_url req, hs_data_sent = wm_written m - sent_before, hs_data_received = wm_read m - recv_before\<rparr>,
                     p\<lparr>pc_wire := m\<rparr>))))))"

definition tunnel_for :: "route \<Rightarrow> string option" where
  "tunnel_for r = (if rt_proxy r \<noteq> None \<and> rt_transport r = Https then Some (host_port (rt_host r) (rt_port r)) else None)"

text \<open>A pooled connection, or a new one.\<close>

definition obtain_connection ::
    "'net web_lib \<Rightarrow> 'w net \<Rightarrow> route \<Rightarrow> ip_addr option \<Rightarrow> 'w \<Rightarrow> 'net hyper_client \<Rightarrow>
     'w \<times> 'net hyper_client \<times> (http_error + pooled_conn \<times> f64 \<times> f64 \<times> f64)" where
  "obtain_connection L N r src w c =
     (let fresh = (\<lambda>c. case open_connection L N (hy_config c) (rt_target r) src (rt_transport r) (rt_host r) (tunnel_for r) w of (w, res) \<Rightarrow> (w, c, res))
      in if hc_no_connection_reuse (hy_config c) then fresh c
         else (case try_acquire (route_key_of r src) c of
                 (c, Some p) \<Rightarrow> (w, c, Inr (p, f0, f0, f0))
               | (c, None) \<Rightarrow> fresh c))"

definition settle :: "route_key \<Rightarrow> http_response \<Rightarrow> pooled_conn \<Rightarrow> 'net hyper_client \<Rightarrow> 'net hyper_client" where
  "settle key resp p c =
     (if hc_no_connection_reuse (hy_config c) \<or> connection_close_requested (hs_headers resp) then c else release_conn key p c)"

definition send_once ::
    "'net web_lib \<Rightarrow> 'w net \<Rightarrow> hyper_request \<Rightarrow> string \<Rightarrow> 'w \<Rightarrow> 'net hyper_client \<Rightarrow> 'w \<times> 'net hyper_client \<times> (http_error + http_response)" where
  "send_once L N req user_agent w c =
     (let start = net_now N w
      in case plan_route L (hy_config c) (hr_url req) of
           Inl e \<Rightarrow> (w, c, Inl e)
         | Inr r \<Rightarrow>
     (case next_source_ip c of (c, src) \<Rightarrow>
     (case obtain_connection L N r src w c of
        (w, c, Inl e) \<Rightarrow> (w, c, Inl e)
      | (w, c, Inr (p, opening)) \<Rightarrow>
     (case exchange L N (hy_config c) r req user_agent start p opening w of
        (w, Inl e) \<Rightarrow> (w, c, Inl e)
      | (w, Inr (resp, p)) \<Rightarrow> (w, settle (route_key_of r src) resp p c, Inr resp)))))"

section \<open>Redirects\<close>

definition redirect_target :: "'net web_lib \<Rightarrow> http_response \<Rightarrow> string \<Rightarrow> http_error + string option" where
  "redirect_target L resp base =
     (if hs_status resp \<notin> set [301, 302, 303, 307, 308] then Inr None
      else case header_value (hs_headers resp) ''location'' of
             None \<Rightarrow> Inr None
           | Some location \<Rightarrow>
               (case url_join L base location of
                  Inl BaseError \<Rightarrow> Inl BadRedirectBase
                | Inl LocationError \<Rightarrow> Inl (BadLocation location)
                | Inr next_url \<Rightarrow> Inr (Some next_url)))"

definition redirected_request :: "hyper_request \<Rightarrow> string \<Rightarrow> u16 \<Rightarrow> hyper_request" where
  "redirected_request req next_url status =
     (let req = (if status \<in> set [301, 302, 303] \<and> hr_method req = Post
                 then req\<lparr>hr_method := Get, hr_body := None,
                          hr_headers := filter (\<lambda>(k, _). \<not> eq_ignore_case k ''content-length'' \<and> \<not> eq_ignore_case k ''content-type'') (hr_headers req)\<rparr>
                 else req)
      in req\<lparr>hr_url := next_url\<rparr>)"

lemma redirects_left: "(followed :: u32) < limit \<Longrightarrow> unat (limit - (followed + 1)) < unat (limit - followed)"
proof -
  assume "followed < limit"
  then have "limit - followed \<noteq> 0" by auto
  then have "unat (limit - followed - 1) < unat (limit - followed)" by (simp add: unat_minus_one) (simp add: unat_gt_0)
  then show ?thesis by (simp add: algebra_simps)
qed

text \<open>The loop of \<open>send_inner\<close>; \<open>followed\<close> counts the redirects and never passes the limit of the client, which no
  request changes.\<close>

function send_loop ::
    "'net web_lib \<Rightarrow> 'w net \<Rightarrow> u32 \<Rightarrow> hyper_request \<Rightarrow> string \<Rightarrow> u32 \<Rightarrow> 'w \<Rightarrow> 'net hyper_client \<Rightarrow>
     'w \<times> 'net hyper_client \<times> (http_error + http_response)" where
  "send_loop L N limit req user_agent followed w c =
     (case send_once L N req user_agent w c of
        (w, c, Inl e) \<Rightarrow> (w, c, Inl e)
      | (w, c, Inr resp) \<Rightarrow>
          (case redirect_target L resp (hr_url req) of
             Inl e \<Rightarrow> (w, c, Inl e)
           | Inr None \<Rightarrow> (w, c, Inr resp)
           | Inr (Some next_url) \<Rightarrow>
               if limit = 0 then (w, c, Inr resp)
               else if limit \<le> followed then (w, c, Inl (TooManyRedirects limit))
               else send_loop L N limit (redirected_request req next_url (hs_status resp)) user_agent (followed + 1) w c))"
  by pat_completeness auto
termination
  by (relation "measure (\<lambda>(L, N, limit, req, ua, followed, w, c). unat (limit - followed))") (auto simp: not_le redirects_left)

declare send_loop.simps [simp del]

definition send_inner ::
    "'net web_lib \<Rightarrow> 'w net \<Rightarrow> http_request \<Rightarrow> string \<Rightarrow> 'w \<Rightarrow> 'net hyper_client \<Rightarrow> 'w \<times> 'net hyper_client \<times> (http_error + http_response)" where
  "send_inner L N req user_agent w c =
     send_loop L N (hc_max_redirects (hy_config c))
       \<lparr>hr_method = hq_method req, hr_url = hq_url req, hr_headers = hq_headers req, hr_body = hq_body req\<rparr> user_agent 0 w c"

definition request_timeout :: "http_request \<Rightarrow> 'net hyper_client \<Rightarrow> duration" where
  "request_timeout req c = (case hq_timeout req of Some t \<Rightarrow> t | None \<Rightarrow> hc_request_timeout (hy_config c))"


section \<open>An example network\<close>

text \<open>Every name is an HTTPS host, two names are mapped to one address, one name is blocked; the network logs its
  connections and requests and answers each request with a redirect to the blocked name.\<close>

definition tiny_lib :: "unit web_lib" where
  "tiny_lib = \<lparr>uri_parse = (\<lambda>s. Some \<lparr>uri_scheme = Some ''https'', uri_host = Some s, uri_port = None, uri_path_and_query = None\<rparr>),
     url_parse = (\<lambda>_. None), url_join = (\<lambda>b l. Inr l), ip_parse = (\<lambda>s. if s = ''10.0.0.1'' then Some (V4 167772161) else None),
     ip_text = (\<lambda>_. ''10.0.0.1''), net_parse = (\<lambda>_. None), net_contains = (\<lambda>_ _. False), header_value_ok = (\<lambda>_. True),
     server_name_ok = (\<lambda>_. True), request_ok = (\<lambda>_. True)\<rparr>"

definition tiny_config :: "unit hyper_config" where
  "tiny_config = \<lparr>hc_discard_response_bodies = False, hc_max_response_body_size = 4, hc_request_timeout = 0, hc_no_connection_reuse = False,
     hc_user_agent_override = None, hc_blacklist_ips = [], hc_block_hostnames = [''bad.test''],
     hc_hosts = [(''a.test'', ''10.0.0.1''), (''b.test'', ''10.0.0.1'')], hc_max_redirects = 1, hc_local_ips = [],
     hc_http_proxy = None, hc_https_proxy = None, hc_no_proxy = [], hc_insecure_skip_tls_verify = False, hc_tls_versions = None,
     hc_http_debug = None\<rparr>"

definition log_net :: "(ip_addr list \<times> wire_request list) net" where
  "log_net = \<lparr>net_now = (\<lambda>_. 0), net_lookup = (\<lambda>h w. (w, Some [(V4 7, 443)])),
     net_connect = (\<lambda>a src (cs, qs). ((cs @ [fst a], qs), Inr (length cs))), net_write = (\<lambda>n b w. (w, [Wrote (length b) 0], True)),
     net_read = (\<lambda>n w. (w, [], None)), net_tls = (\<lambda>n h w. (w, [Wrote 3 0, Got 5], Some False)),
     net_handshake = (\<lambda>n p w. (w, [], True)),
     net_send = (\<lambda>n q (cs, qs). ((cs, qs @ [q]), [Wrote 20 0, Got 9], Some \<lparr>rh_status = 302, rh_headers = [(''location'', ''bad.test'')]\<rparr>)),
     net_body = (\<lambda>n w. (w, [Got 6], [Data ''abc'', Trailers, Data ''def'']))\<rparr>"

definition tiny_client :: "unit hyper_client" where
  "tiny_client = \<lparr>hy_config = tiny_config, hy_user_agent = ''ua'', hy_local_ip_index = 0, hy_pool = []\<rparr>"

definition tiny_request :: http_request where
  "tiny_request = \<lparr>hq_method = Get, hq_url = ''a.test'', hq_headers = [], hq_body = None, hq_timeout = None\<rparr>"

section \<open>What reaches the network\<close>

text \<open>Histories of a network: the addresses connected to and the requests sent, in order.\<close>

definition logged :: "'w net \<Rightarrow> ('w \<Rightarrow> ip_addr list) \<Rightarrow> ('w \<Rightarrow> wire_request list) \<Rightarrow> bool" where
  "logged N cl sl \<longleftrightarrow>
     (\<forall>a src w. cl (fst (net_connect N a src w)) = cl w @ [fst a] \<and> sl (fst (net_connect N a src w)) = sl w) \<and>
     (\<forall>n q w. cl (fst (net_send N n q w)) = cl w \<and> sl (fst (net_send N n q w)) = sl w @ [q]) \<and>
     (\<forall>h w. cl (fst (net_lookup N h w)) = cl w \<and> sl (fst (net_lookup N h w)) = sl w) \<and>
     (\<forall>n b w. cl (fst (net_write N n b w)) = cl w \<and> sl (fst (net_write N n b w)) = sl w) \<and>
     (\<forall>n w. cl (fst (net_read N n w)) = cl w \<and> sl (fst (net_read N n w)) = sl w) \<and>
     (\<forall>n h w. cl (fst (net_tls N n h w)) = cl w \<and> sl (fst (net_tls N n h w)) = sl w) \<and>
     (\<forall>n p w. cl (fst (net_handshake N n p w)) = cl w \<and> sl (fst (net_handshake N n p w)) = sl w) \<and>
     (\<forall>n w. cl (fst (net_body N n w)) = cl w \<and> sl (fst (net_body N n w)) = sl w)"

lemma loggedD:
  assumes "logged N cl sl"
  shows "net_connect N a src w = (w', r1) \<Longrightarrow> cl w' = cl w @ [fst a] \<and> sl w' = sl w"
    "net_send N n q w = (w', r2) \<Longrightarrow> cl w' = cl w \<and> sl w' = sl w @ [q]"
    "net_lookup N h w = (w', r3) \<Longrightarrow> cl w' = cl w \<and> sl w' = sl w"
    "net_write N n b w = (w', r4) \<Longrightarrow> cl w' = cl w \<and> sl w' = sl w"
    "net_read N n w = (w', r5) \<Longrightarrow> cl w' = cl w \<and> sl w' = sl w"
    "net_tls N n h w = (w', r6) \<Longrightarrow> cl w' = cl w \<and> sl w' = sl w"
    "net_handshake N n p w = (w', r7) \<Longrightarrow> cl w' = cl w \<and> sl w' = sl w"
    "net_body N n w = (w', r8) \<Longrightarrow> cl w' = cl w \<and> sl w' = sl w"
  using assms unfolding logged_def by (metis fst_conv)+

text \<open>A request whose \<open>Host\<close> passes the filters on names and on literal addresses.\<close>

definition permitted :: "'net web_lib \<Rightarrow> 'net hyper_config \<Rightarrow> wire_request \<Rightarrow> bool" where
  "permitted L cfg q \<longleftrightarrow>
     (\<exists>h p. hd (wr_headers q) = (''host'', host_port h p) \<and> check_blocked_hostname cfg h = Inr () \<and> check_literal_ip_blacklist L cfg h = Inr ())"

text \<open>The histories grow by at most \<open>k\<close> connections and \<open>k\<close> requests, all within the filters.\<close>

definition grows ::
    "'net web_lib \<Rightarrow> 'net hyper_config \<Rightarrow> ('w \<Rightarrow> ip_addr list) \<Rightarrow> ('w \<Rightarrow> wire_request list) \<Rightarrow> nat \<Rightarrow> 'w \<Rightarrow> 'w \<Rightarrow> bool" where
  "grows L cfg cl sl k w w' \<longleftrightarrow>
     (\<exists>new sent. cl w' = cl w @ new \<and> list_all (\<lambda>ip. check_ip_blacklist L cfg ip = Inr ()) new \<and> length new \<le> k \<and>
        sl w' = sl w @ sent \<and> list_all (permitted L cfg) sent \<and> length sent \<le> k)"

lemma grows_same: "cl w' = cl w \<Longrightarrow> sl w' = sl w \<Longrightarrow> grows L cfg cl sl k w w'"
  by (simp add: grows_def)

lemma grows_trans: "grows L cfg cl sl j w w1 \<Longrightarrow> grows L cfg cl sl k w1 w' \<Longrightarrow> grows L cfg cl sl (j + k) w w'"
proof -
  assume "grows L cfg cl sl j w w1" "grows L cfg cl sl k w1 w'"
  then obtain n1 s1 n2 s2 where
    "cl w1 = cl w @ n1" "list_all (\<lambda>ip. check_ip_blacklist L cfg ip = Inr ()) n1" "length n1 \<le> j"
    "sl w1 = sl w @ s1" "list_all (permitted L cfg) s1" "length s1 \<le> j"
    "cl w' = cl w1 @ n2" "list_all (\<lambda>ip. check_ip_blacklist L cfg ip = Inr ()) n2" "length n2 \<le> k"
    "sl w' = sl w1 @ s2" "list_all (permitted L cfg) s2" "length s2 \<le> k"
    unfolding grows_def by metis
  then show "grows L cfg cl sl (j + k) w w'"
    unfolding grows_def by (intro exI[of _ "n1 @ n2"] exI[of _ "s1 @ s2"]) simp
qed

lemma grows_le: "grows L cfg cl sl j w w' \<Longrightarrow> j \<le> k \<Longrightarrow> grows L cfg cl sl k w w'"
  unfolding grows_def by (meson order.trans)

lemma bind_r_Inr_iff: "bind_r x f = Inr y \<longleftrightarrow> (\<exists>a. x = Inr a \<and> f a = Inr y)"
  by (cases x) auto

lemma connect_address_ok:
  assumes "logged N cl sl" "connect_address L N cfg target w = (w', r)"
    and "\<forall>ip port. target = Ip (ip, port) \<longrightarrow> check_ip_blacklist L cfg ip = Inr ()"
  shows "cl w' = cl w \<and> sl w' = sl w \<and> (\<forall>addr. r = Inr addr \<longrightarrow> check_ip_blacklist L cfg (fst addr) = Inr ())"
  using assms loggedD(3)[OF assms(1)]
  by (auto simp: connect_address_def bind_r_Inr_iff split: connect_target.splits prod.splits option.splits list.splits)

lemma connect_tcp_log:
  assumes "logged N cl sl" "connect_tcp N addr src w = (w', r)"
  shows "(cl w' = cl w \<or> cl w' = cl w @ [fst addr]) \<and> sl w' = sl w"
  using assms(2) loggedD(1)[OF assms(1)]
  by (auto simp: connect_tcp_def split: option.splits prod.splits sum.splits if_splits)

lemma read_connect_response_log:
  "logged N cl sl \<Longrightarrow> read_connect_response N conn response m w = (w', m', r) \<Longrightarrow> cl w' = cl w \<and> sl w' = sl w"
proof (induction N conn response m w rule: read_connect_response.induct)
  case (1 N conn response m w)
  show ?case
  proof (cases "find_str (crlf @ crlf) response")
    case (Some n)
    then show ?thesis using "1.prems"(2) by (simp add: read_connect_response.simps)
  next
    case None
    obtain w1 evs got where r: "net_read N conn w = (w1, evs, got)" by (metis prod.exhaust)
    show ?thesis
    proof (cases "\<exists>chunk. got = Some chunk \<and> chunk \<noteq> [] \<and> \<not> 8192 < length (response @ chunk)")
      case True
      then obtain chunk where c: "got = Some chunk" "chunk \<noteq> []" "\<not> 8192 < length (response @ chunk)" by blast
      have "read_connect_response N conn (response @ chunk) (count_all evs m) w1 = (w', m', r)"
        using "1.prems"(2) None r c by (subst (asm) read_connect_response.simps) simp
      then have "cl w' = cl w1 \<and> sl w' = sl w1" using "1.IH"[OF _ r[symmetric]] None c "1.prems"(1) by simp
      then show ?thesis using loggedD(5)[OF "1.prems"(1) r] by simp
    next
      case False
      then have "w' = w1" using "1.prems"(2) None r
        by (subst (asm) read_connect_response.simps) (auto simp: Let_def split: option.splits if_splits)
      then show ?thesis using loggedD(5)[OF "1.prems"(1) r] by simp
    qed
  qed
qed

lemma tunnel_log:
  assumes "logged N cl sl" "establish_connect_tunnel N conn origin m w = (w', m', r)"
  shows "cl w' = cl w \<and> sl w' = sl w"
  using assms(2) loggedD(4)[OF assms(1)] read_connect_response_log[OF assms(1)]
  by (fastforce simp: establish_connect_tunnel_def Let_def split: prod.splits sum.splits if_splits)

lemma shake_hands_log:
  assumes "logged N cl sl" "shake_hands L N tr server_name conn m w = (w', m', r)"
  shows "cl w' = cl w \<and> sl w' = sl w"
  using assms(2) loggedD(6,7)[OF assms(1)]
  by (fastforce simp: shake_hands_def Let_def split: transport.splits prod.splits option.splits if_splits)

lemma open_connection_grows:
  assumes l: "logged N cl sl" and "open_connection L N cfg target src tr server_name tunnel w = (w', r)"
    and "\<forall>ip port. target = Ip (ip, port) \<longrightarrow> check_ip_blacklist L cfg ip = Inr ()"
  shows "grows L cfg cl sl 1 w w' \<and> sl w' = sl w"
proof -
  obtain w1 ra where a: "connect_address L N cfg target w = (w1, ra)" by fastforce
  note ca = connect_address_ok[OF l a assms(3)]
  show ?thesis
  proof (cases ra)
    case (Inl e)
    then show ?thesis using assms(2) a ca by (auto simp: open_connection_def Let_def intro: grows_same)
  next
    case (Inr addr)
    obtain w2 rt where t: "connect_tcp N addr src w1 = (w2, rt)" by fastforce
    have g: "grows L cfg cl sl 1 w w2" "sl w2 = sl w"
      using connect_tcp_log[OF l t] ca Inr unfolding grows_def by (auto intro: exI[of _ "[]"] exI[of _ "[fst addr]"])
    have "cl w' = cl w2 \<and> sl w' = sl w2"
      using assms(2) a t Inr tunnel_log[OF l] shake_hands_log[OF l]
      by (fastforce simp: open_connection_def Let_def split: sum.splits prod.splits option.splits)
    then show ?thesis using g by (simp add: grows_def)
  qed
qed


definition scheme_of :: "uri \<Rightarrow> string" where
  "scheme_of u = (case uri_scheme u of None \<Rightarrow> ''http'' | Some s \<Rightarrow> s)"

lemma plan_route_Inr:
  assumes "plan_route L cfg address = Inr r"
  shows "uri_parse L address = Some (rt_uri r)" "uri_host (rt_uri r) = Some (rt_host r)"
    "transport_for_scheme (scheme_of (rt_uri r)) = Inr (rt_transport r)"
    "check_blocked_hostname cfg (rt_host r) = Inr ()" "check_literal_ip_blacklist L cfg (rt_host r) = Inr ()"
    "rt_proxy r = proxy_for cfg (scheme_of (rt_uri r)) (rt_host r)"
    "(case rt_proxy r of Some p \<Rightarrow> Inr (rt_host r, Host (authority p)) | None \<Rightarrow> resolve_connect_target L cfg (rt_host r) (rt_port r)) =
       Inr (rt_target_host r, rt_target r)"
proof -
  obtain u where u: "uri_parse L address = Some u" using assms by (cases "uri_parse L address") (simp_all add: plan_route_def)
  obtain tr where tr: "transport_for_scheme (scheme_of u) = Inr tr"
    using assms u by (cases "transport_for_scheme (scheme_of u)") (simp_all add: plan_route_def Let_def scheme_of_def)
  obtain h where h: "uri_host u = Some h" using assms u tr by (cases "uri_host u") (simp_all add: plan_route_def Let_def scheme_of_def)
  define port where "port = (case uri_port u of Some p \<Rightarrow> p | None \<Rightarrow> (case tr of Http \<Rightarrow> 80 | Https \<Rightarrow> 443))"
  define proxy where "proxy = proxy_for cfg (scheme_of u) h"
  have e: "bind_r (check_blocked_hostname cfg h) (\<lambda>_. bind_r (check_literal_ip_blacklist L cfg h) (\<lambda>_.
      bind_r (case proxy of Some p \<Rightarrow> Inr (h, Host (authority p)) | None \<Rightarrow> resolve_connect_target L cfg h port) (\<lambda>(target_host, target).
        Inr \<lparr>rt_uri = u, rt_transport = tr, rt_host = h, rt_port = port, rt_proxy = proxy,
             rt_target_host = target_host, rt_target = target\<rparr>))) = Inr r"
    using assms u tr h unfolding port_def proxy_def by (simp add: plan_route_def Let_def scheme_of_def)
  then obtain th tg where "check_blocked_hostname cfg h = Inr ()" "check_literal_ip_blacklist L cfg h = Inr ()"
      "(case proxy of Some p \<Rightarrow> Inr (h, Host (authority p)) | None \<Rightarrow> resolve_connect_target L cfg h port) = Inr (th, tg)"
      "r = \<lparr>rt_uri = u, rt_transport = tr, rt_host = h, rt_port = port, rt_proxy = proxy, rt_target_host = th, rt_target = tg\<rparr>"
    unfolding bind_r_Inr_iff by auto
  then show "uri_parse L address = Some (rt_uri r)" "uri_host (rt_uri r) = Some (rt_host r)"
    "transport_for_scheme (scheme_of (rt_uri r)) = Inr (rt_transport r)"
    "check_blocked_hostname cfg (rt_host r) = Inr ()" "check_literal_ip_blacklist L cfg (rt_host r) = Inr ()"
    "rt_proxy r = proxy_for cfg (scheme_of (rt_uri r)) (rt_host r)"
    "(case rt_proxy r of Some p \<Rightarrow> Inr (rt_host r, Host (authority p)) | None \<Rightarrow> resolve_connect_target L cfg (rt_host r) (rt_port r)) =
       Inr (rt_target_host r, rt_target r)"
    using u tr h by (simp_all add: proxy_def split: option.splits)
qed

lemma resolve_ok: "resolve_connect_target L cfg host port = Inr (th, Ip (ip, port')) \<Longrightarrow> check_ip_blacklist L cfg ip = Inr ()"
  by (auto simp: resolve_connect_target_def bind_r_Inr_iff split: option.splits)

lemma plan_route_ok:
  assumes "plan_route L cfg address = Inr r"
  shows "check_blocked_hostname cfg (rt_host r) = Inr () \<and> check_literal_ip_blacklist L cfg (rt_host r) = Inr () \<and>
    (\<forall>ip port. rt_target r = Ip (ip, port) \<longrightarrow> check_ip_blacklist L cfg ip = Inr ())"
  using plan_route_Inr(4,5,7)[OF assms] by (auto split: option.splits dest: resolve_ok)

lemma exchange_grows:
  assumes l: "logged N cl sl" and p: "plan_route L cfg address = Inr r"
    and e: "exchange L N cfg r req ua start p0 opening w = (w', res)"
  shows "grows L cfg cl sl 1 w w' \<and> cl w' = cl w"
proof -
  let ?q = "build_request r (pc_protocol p0) req ua"
  have q: "permitted L cfg ?q" using plan_route_ok[OF p] by (auto simp: permitted_def build_request_def)
  show ?thesis
  proof (cases "request_ok L ?q")
    case False
    then have "w' = w" using e by (simp add: exchange_def Let_def)
    then show ?thesis by (simp add: grows_same)
  next
    case True
    obtain w1 evs head where s: "net_send N (pc_conn p0) ?q w = (w1, evs, head)" by (metis prod.exhaust)
    obtain w2 evs2 fs where b: "net_body N (pc_conn p0) w1 = (w2, evs2, fs)" by (metis prod.exhaust)
    have "w' = w1 \<or> w' = w2" using e True s b by (auto simp: exchange_def Let_def split: option.splits)
    then have "cl w' = cl w \<and> sl w' = sl w @ [?q]" using loggedD(2)[OF l s] loggedD(8)[OF l b] by auto
    then show ?thesis using q by (auto simp: grows_def intro: exI[of _ "[?q]"])
  qed
qed

lemma next_source_config: "next_source_ip c = (c', src) \<Longrightarrow> hy_config c' = hy_config c"
  by (auto simp: next_source_ip_def Let_def split: if_splits)

lemma try_acquire_config: "try_acquire key c = (c', p) \<Longrightarrow> hy_config c' = hy_config c"
  by (auto simp: try_acquire_def split: option.splits if_splits)

lemma settle_config: "hy_config (settle key resp p c) = hy_config c"
  by (simp add: settle_def release_conn_def)

lemma obtain_grows:
  assumes l: "logged N cl sl" and p: "plan_route L (hy_config c) address = Inr r"
    and o: "obtain_connection L N r src w c = (w', c', res)"
  shows "grows L (hy_config c) cl sl 1 w w' \<and> sl w' = sl w \<and> hy_config c' = hy_config c"
proof -
  note t = plan_route_ok[OF p, THEN conjunct2, THEN conjunct2]
  have f: "grows L (hy_config c) cl sl 1 w w' \<and> sl w' = sl w"
    if "open_connection L N (hy_config c) (rt_target r) src (rt_transport r) (rt_host r) (tunnel_for r) w = (w', res)"
    using open_connection_grows[OF l that t] .
  obtain wf rf where opn: "open_connection L N (hy_config c) (rt_target r) src (rt_transport r) (rt_host r) (tunnel_for r) w = (wf, rf)" by fastforce
  obtain ca pa where acq: "try_acquire (route_key_of r src) c = (ca, pa)" by fastforce
  have ca: "hy_config ca = hy_config c" by (rule try_acquire_config[OF acq])
  show ?thesis
  proof (cases "hc_no_connection_reuse (hy_config c) \<or> pa = None")
    case True
    then have "w' = wf" "res = rf" "hy_config c' = hy_config c"
      using o opn acq ca by (auto simp: obtain_connection_def Let_def split: if_splits)
    then show ?thesis using f opn by simp
  next
    case False
    then have "w' = w" "c' = ca" using o opn acq ca by (auto simp: obtain_connection_def Let_def)
    then show ?thesis using ca by (simp add: grows_same)
  qed
qed

lemma send_once_grows:
  assumes l: "logged N cl sl" and s: "send_once L N req ua w c = (w', c', res)"
  shows "grows L (hy_config c) cl sl 1 w w' \<and> hy_config c' = hy_config c"
proof (cases "plan_route L (hy_config c) (hr_url req)")
  case (Inl e)
  then show ?thesis using s by (simp add: send_once_def Let_def grows_same)
next
  case (Inr r)
  obtain c1 src where n: "next_source_ip c = (c1, src)" by fastforce
  have c1: "hy_config c1 = hy_config c" using next_source_config[OF n] .
  obtain w2 c2 ro where o: "obtain_connection L N r src w c1 = (w2, c2, ro)" by (metis prod.exhaust)
  have g: "grows L (hy_config c) cl sl 1 w w2" "sl w2 = sl w" "hy_config c2 = hy_config c"
    using obtain_grows[OF l _ o, of "hr_url req"] Inr c1 by auto
  show ?thesis
  proof (cases ro)
    case (Inl e)
    then show ?thesis using s Inr n o g by (simp add: send_once_def Let_def)
  next
    case ro: (Inr po)
    obtain p tms where po: "po = (p, tms)" by (cases po)
    obtain w3 rx where x: "exchange L N (hy_config c2) r req ua (net_now N w) p tms w2 = (w3, rx)" by fastforce
    have "grows L (hy_config c) cl sl 1 w2 w3" "cl w3 = cl w2"
      using exchange_grows[OF l, of L "hy_config c2"] Inr x g(3) by auto
    then have g3: "grows L (hy_config c) cl sl 1 w w3" using g(1,2) by (auto simp: grows_def)
    show ?thesis using s Inr n o ro po x g g3
      by (auto simp: send_once_def Let_def settle_config split: sum.splits)
  qed
qed

lemma redirects_step: "(followed :: u32) < limit \<Longrightarrow> 1 + (unat (limit - (followed + 1)) + 1) \<le> unat (limit - followed) + 1"
  using redirects_left[of followed limit] by simp

lemma send_loop_grows:
  "logged N cl sl \<Longrightarrow> send_loop L N limit req ua followed w c = (w', c', res) \<Longrightarrow>
    grows L (hy_config c) cl sl (unat (limit - followed) + 1) w w'"
proof (induction L N limit req ua followed w c rule: send_loop.induct)
  case (1 L N limit req ua followed w c)
  obtain w1 c1 r1 where s: "send_once L N req ua w c = (w1, c1, r1)" by (metis prod.exhaust)
  have g: "grows L (hy_config c) cl sl 1 w w1" "hy_config c1 = hy_config c" using send_once_grows[OF "1.prems"(1) s] by auto
  show ?case
  proof (cases "\<exists>resp next_url. r1 = Inr resp \<and> redirect_target L resp (hr_url req) = Inr (Some next_url) \<and> limit \<noteq> 0 \<and> \<not> limit \<le> followed")
    case True
    then obtain resp next_url where t: "r1 = Inr resp" "redirect_target L resp (hr_url req) = Inr (Some next_url)" "limit \<noteq> 0" "\<not> limit \<le> followed"
      by blast
    then have "send_loop L N limit (redirected_request req next_url (hs_status resp)) ua (followed + 1) w1 c1 = (w', c', res)"
      using "1.prems"(2) s by (subst (asm) send_loop.simps) simp
    then have "grows L (hy_config c) cl sl (unat (limit - (followed + 1)) + 1) w1 w'"
      using "1.IH"[OF s[symmetric] refl _ t(2) refl t(3,4) "1.prems"(1)] t(1) g(2) by (simp add: s)
    from grows_le[OF grows_trans[OF g(1) this] redirects_step] show ?thesis using t(4) by simp
  next
    case False
    then have "w' = w1" using "1.prems"(2) s by (subst (asm) send_loop.simps) (auto split: sum.splits option.splits if_splits)
    then show ?thesis using g(1) by (auto intro: grows_le)
  qed
qed

section \<open>The pool\<close>

text \<open>Requests in flight beside the pool: \<open>hy_active\<close> are the connections requests hold with their route keys, and
  \<open>hy_opened\<close> the route key for which each connection was opened.  A step takes a connection from the pool,
  opens a new one, uses one, and returns or drops it; a timeout drops it too.\<close>

record 'net http_sys =
  hy_client :: "'net hyper_client"
  hy_active :: "(nat \<times> (route_key \<times> pooled_conn)) list"
  hy_opened :: "(nat \<times> route_key) list"

inductive hy_step :: "'net http_sys \<Rightarrow> 'net http_sys \<Rightarrow> bool" where
  reuse: "try_acquire key (hy_client s) = (c, Some p) \<Longrightarrow> t \<notin> fst ` set (hy_active s) \<Longrightarrow>
    hy_step s (s\<lparr>hy_client := c, hy_active := (t, key, p) # hy_active s\<rparr>)"
| opened: "pc_conn p \<notin> fst ` set (hy_opened s) \<Longrightarrow> t \<notin> fst ` set (hy_active s) \<Longrightarrow>
    hy_step s (s\<lparr>hy_active := (t, key, p) # hy_active s, hy_opened := (pc_conn p, key) # hy_opened s\<rparr>)"
| finished: "(t, key, p) \<in> set (hy_active s) \<Longrightarrow>
    hy_step s (s\<lparr>hy_client := settle key resp (p\<lparr>pc_wire := m\<rparr>) (hy_client s), hy_active := remove1 (t, key, p) (hy_active s)\<rparr>)"
| dropped: "(t, key, p) \<in> set (hy_active s) \<Longrightarrow> hy_step s (s\<lparr>hy_active := remove1 (t, key, p) (hy_active s)\<rparr>)"

inductive hy_reach :: "'net hyper_client \<Rightarrow> 'net http_sys \<Rightarrow> bool" for c0 where
  hy_init: "hy_reach c0 \<lparr>hy_client = c0\<lparr>hy_pool := []\<rparr>, hy_active = [], hy_opened = []\<rparr>"
| hy_next: "hy_reach c0 s \<Longrightarrow> hy_step s s' \<Longrightarrow> hy_reach c0 s'"

text \<open>All connections with the route they are kept under: those in the pool and those in use.\<close>

definition pooled :: "(route_key, pooled_conn list) hm \<Rightarrow> (nat \<times> route_key) multiset" where
  "pooled m = (\<Sum>(key, ps) \<in># mset m. image_mset (\<lambda>p. (pc_conn p, key)) (mset ps))"

definition active :: "(nat \<times> (route_key \<times> pooled_conn)) list \<Rightarrow> (nat \<times> route_key) multiset" where
  "active as = image_mset (\<lambda>(t, key, p). (pc_conn p, key)) (mset as)"

definition pool_inv :: "'net http_sys \<Rightarrow> bool" where
  "pool_inv s \<longleftrightarrow> hm_wf (hy_pool (hy_client s)) \<and> distinct (map fst (hy_opened s)) \<and>
     pooled (hy_pool (hy_client s)) + active (hy_active s) \<subseteq># mset (hy_opened s)"

lemma pooled_put:
  assumes "hm_wf m"
  shows "pooled (hm_put key ps m) + image_mset (\<lambda>p. (pc_conn p, key)) (mset (case map_of m key of None \<Rightarrow> [] | Some v \<Rightarrow> v)) =
    pooled m + image_mset (\<lambda>p. (pc_conn p, key)) (mset ps)"
  using assms
proof (induction m)
  case Nil
  then show ?case by (simp add: pooled_def hm_put_def)
next
  case (Cons kv m)
  obtain k v where kv: "kv = (k, v)" by fastforce
  have w: "hm_wf m" "k \<notin> fst ` set m" using Cons.prems by (simp_all add: kv hm_wf_def)
  show ?case
  proof (cases "k = key")
    case True
    then show ?thesis by (simp add: kv pooled_def hm_put_def)
  next
    case False
    have "pooled (hm_put key ps (kv # m)) = image_mset (\<lambda>p. (pc_conn p, k)) (mset v) + pooled (hm_put key ps m)"
      using False by (simp add: kv pooled_def hm_put_def)
    then show ?thesis using Cons.IH[OF w(1)] False by (simp add: kv pooled_def ac_simps)
  qed
qed


lemma pooled_acquire:
  assumes "hm_wf (hy_pool c)" "try_acquire key c = (c', Some p)"
  shows "pooled (hy_pool c) = add_mset (pc_conn p, key) (pooled (hy_pool c'))" "hm_wf (hy_pool c')"
proof -
  obtain v where v: "map_of (hy_pool c) key = Some v" "v \<noteq> []" "c' = c\<lparr>hy_pool := hm_put key (butlast v) (hy_pool c)\<rparr>" "p = last v"
    using assms(2) by (auto simp: try_acquire_def split: option.splits if_splits)
  have "mset v = add_mset (last v) (mset (butlast v))" using v(2) by (metis append_butlast_last_id mset.simps(2) mset_append add_mset_add_single mset_single_iff_right)
  then show "pooled (hy_pool c) = add_mset (pc_conn p, key) (pooled (hy_pool c'))"
    using pooled_put[OF assms(1), of key "butlast v"] v by simp
  show "hm_wf (hy_pool c')" using v assms(1) by simp
qed

lemma pooled_settle:
  assumes "hm_wf (hy_pool c)"
  shows "pooled (hy_pool (settle key resp p c)) \<subseteq># add_mset (pc_conn p, key) (pooled (hy_pool c))" "hm_wf (hy_pool (settle key resp p c))"
proof -
  have "pooled (hy_pool (release_conn key p c)) = add_mset (pc_conn p, key) (pooled (hy_pool c))"
    using pooled_put[OF assms, of key "(case map_of (hy_pool c) key of None \<Rightarrow> [] | Some v \<Rightarrow> v) @ [p]"] by (simp add: release_conn_def)
  then show "pooled (hy_pool (settle key resp p c)) \<subseteq># add_mset (pc_conn p, key) (pooled (hy_pool c))" by (simp add: settle_def)
  show "hm_wf (hy_pool (settle key resp p c))" using assms by (simp add: settle_def release_conn_def)
qed

lemma active_remove: "(t, key, p) \<in> set as \<Longrightarrow> active as = add_mset (pc_conn p, key) (active (remove1 (t, key, p) as))"
proof -
  assume "(t, key, p) \<in> set as"
  then have m: "mset as = add_mset (t, key, p) (mset (remove1 (t, key, p) as))" by simp
  show ?thesis unfolding active_def by (subst m) simp
qed

lemma pool_inv_step: "hy_step s s' \<Longrightarrow> pool_inv s \<Longrightarrow> pool_inv s'"
proof (induction rule: hy_step.induct)
  case (reuse key s c p t)
  then show ?case using pooled_acquire[of "hy_client s" key c p] by (simp add: pool_inv_def active_def)
next
  case (opened p s t key)
  then show ?case by (simp add: pool_inv_def active_def)
next
  case (finished t key p s resp m)
  have a: "active (hy_active s) = add_mset (pc_conn p, key) (active (remove1 (t, key, p) (hy_active s)))" using active_remove[OF finished(1)] .
  have w: "hm_wf (hy_pool (hy_client s))" using finished(2) by (simp add: pool_inv_def)
  have "pooled (hy_pool (settle key resp (p\<lparr>pc_wire := m\<rparr>) (hy_client s))) + active (remove1 (t, key, p) (hy_active s)) \<subseteq>#
      add_mset (pc_conn p, key) (pooled (hy_pool (hy_client s))) + active (remove1 (t, key, p) (hy_active s))"
    using pooled_settle(1)[OF w, of key resp "p\<lparr>pc_wire := m\<rparr>"] by (intro subset_mset.add_mono) simp_all
  also have "\<dots> = pooled (hy_pool (hy_client s)) + active (hy_active s)" by (simp add: a)
  also have "\<dots> \<subseteq># mset (hy_opened s)" using finished(2) by (simp add: pool_inv_def)
  finally show ?case using finished(2) pooled_settle(2)[OF w] by (simp add: pool_inv_def)
next
  case (dropped t key p s)
  have a: "active (hy_active s) = add_mset (pc_conn p, key) (active (remove1 (t, key, p) (hy_active s)))" using active_remove[OF dropped(1)] .
  have "pooled (hy_pool (hy_client s)) + active (remove1 (t, key, p) (hy_active s)) \<subseteq># pooled (hy_pool (hy_client s)) + active (hy_active s)"
    by (simp add: a)
  also have "\<dots> \<subseteq># mset (hy_opened s)" using dropped(2) by (simp add: pool_inv_def)
  finally show ?case using dropped(2) by (simp add: pool_inv_def)
qed

lemma pool_inv_reach: "hy_reach c0 s \<Longrightarrow> pool_inv s"
proof (induction rule: hy_reach.induct)
  case hy_init
  show ?case by (simp add: pool_inv_def pooled_def active_def hm_wf_def)
next
  case (hy_next s s')
  then show ?case using pool_inv_step by blast
qed

text \<open>All connection handles of the system, with how often they occur.\<close>

definition handles :: "'net http_sys \<Rightarrow> nat multiset" where
  "handles s = image_mset fst (pooled (hy_pool (hy_client s)) + active (hy_active s))"

lemma image_subset: "A \<subseteq># mset xs \<Longrightarrow> distinct (map fst xs) \<Longrightarrow> count (image_mset fst A) n \<le> 1"
proof -
  assume a: "A \<subseteq># mset xs" "distinct (map fst xs)"
  then have "image_mset fst A \<subseteq># mset (map fst xs)" by (simp add: image_mset_subseteq_mono)
  then have "count (image_mset fst A) n \<le> count (mset (map fst xs)) n" by (rule mset_subset_eq_count)
  also have "\<dots> \<le> 1" using a(2) by (simp add: distinct_count_atmost_1)
  finally show ?thesis .
qed

text \<open>C7.  A connection serves one request at a time.  In every interleaving of requests, timeouts included,
  no connection is in the pool or in use twice, and every connection in use is used for the route it
  was opened for.\<close>

theorem connection_exclusive:
  assumes "hy_reach c0 s"
  shows "count (handles s) n \<le> 1 \<and> list_all (\<lambda>(t, key, p). map_of (hy_opened s) (pc_conn p) = Some key) (hy_active s)"
proof
  have i: "pool_inv s" by (rule pool_inv_reach[OF assms])
  then show "count (handles s) n \<le> 1" unfolding handles_def pool_inv_def by (blast intro: image_subset)
  have "map_of (hy_opened s) (pc_conn p) = Some key" if "(t, key, p) \<in> set (hy_active s)" for t key p
  proof -
    have "(pc_conn p, key) \<in># active (hy_active s)" using that by (force simp: active_def)
    then have "(pc_conn p, key) \<in> set (hy_opened s)" using i unfolding pool_inv_def by (metis mset_subset_eqD set_mset_mset union_iff)
    then show ?thesis using i by (simp add: pool_inv_def)
  qed
  then show "list_all (\<lambda>(t, key, p). map_of (hy_opened s) (pc_conn p) = Some key) (hy_active s)" by (auto simp: list_all_iff)
qed

definition key_a :: route_key where
  "key_a = \<lparr>rk_transport = Https, rk_target_host = ''a.test'', rk_target_port = 443, rk_source_ip = None, rk_proxy = None\<rparr>"

definition conn_a :: pooled_conn where
  "conn_a = \<lparr>pc_conn = 7, pc_protocol = Http1, pc_wire = wire_new\<rparr>"

theorem connection_exclusive_witness:
  "\<exists>s. hy_reach tiny_client s \<and> hy_active s = [(1, key_a, conn_a)] \<and> count (handles s) 7 \<le> 1 \<and> map_of (hy_opened s) 7 = Some key_a"
proof -
  have "hy_reach tiny_client \<lparr>hy_client = tiny_client, hy_active = [], hy_opened = []\<rparr>"
    using hy_init[of tiny_client] by (simp add: tiny_client_def)
  from hy_next[OF this opened[of conn_a _ 1 key_a]]
  have r: "hy_reach tiny_client \<lparr>hy_client = tiny_client, hy_active = [(1, key_a, conn_a)], hy_opened = [(7, key_a)]\<rparr>"
    by (simp add: conn_a_def)
  show ?thesis using r connection_exclusive[OF r, of 7] by (auto simp: conn_a_def)
qed


text \<open>C8.  The filters hold for everything a request does.  Whatever redirects the servers answer and whatever
  the name service returns, every address the client connects to is outside \<open>blacklistIPs\<close>, every request
  it sends goes to a host that \<open>blockHostnames\<close> and \<open>blacklistIPs\<close> allow, and it sends at most one request
  more than the limit of redirects.\<close>

theorem filters_hold:
  assumes "logged N cl sl" "send_inner L N req ua w c = (w', c', res)"
  shows "\<exists>new sent. cl w' = cl w @ new \<and> list_all (\<lambda>ip. check_ip_blacklist L (hy_config c) ip = Inr ()) new \<and>
    sl w' = sl w @ sent \<and> list_all (permitted L (hy_config c)) sent \<and> length sent \<le> unat (hc_max_redirects (hy_config c)) + 1"
proof -
  have "grows L (hy_config c) cl sl (unat (hc_max_redirects (hy_config c)) + 1) w w'"
    using send_loop_grows[OF assms(1) assms(2)[unfolded send_inner_def]] by simp
  then show ?thesis unfolding grows_def by blast
qed

lemma log_net_logged: "logged log_net fst snd"
  unfolding logged_def by (auto simp: log_net_def split: prod.splits)

theorem filters_hold_witness:
  "\<exists>w' c'. send_inner tiny_lib log_net tiny_request ''ua'' ([], []) tiny_client = (w', c', Inl (BlockedHost ''bad.test'')) \<and>
     list_all (\<lambda>ip. check_ip_blacklist tiny_lib tiny_config ip = Inr ()) (fst w') \<and> list_all (permitted tiny_lib tiny_config) (snd w') \<and>
     length (snd w') \<le> 2"
proof -
  obtain w' c' res where e: "send_inner tiny_lib log_net tiny_request ''ua'' ([], []) tiny_client = (w', c', res)" by (metis prod.exhaust)
  have r: "snd (snd (send_inner tiny_lib log_net tiny_request ''ua'' ([], []) tiny_client)) = Inl (BlockedHost ''bad.test'')" by code_simp
  have "unat (hc_max_redirects (hy_config tiny_client)) + 1 = 2" "hy_config tiny_client = tiny_config"
    by (simp_all add: tiny_client_def tiny_config_def)
  then show ?thesis using filters_hold[OF log_net_logged e] e r by auto
qed

section \<open>Bodies, bytes and routes\<close>

fun data_of :: "frame \<Rightarrow> string" where
  "data_of (Data d) = d"
| "data_of _ = []"

lemma read_frames_take:
  "length buffer \<le> cap \<Longrightarrow> read_frames cap fs buffer =
     (if FrameError \<in> set fs then None else Some (buffer @ take (cap - length buffer) (concat (map data_of fs))))"
proof (induction cap fs buffer rule: read_frames.induct)
  case (4 cap d fs buffer)
  then show ?case by (auto simp: min_def not_less)
qed auto

lemma drain_frames_iff: "drain_frames fs \<longleftrightarrow> FrameError \<notin> set fs"
  by (induction fs rule: drain_frames.induct) auto

text \<open>The body of a response.  It is the first bytes of all its data up to the cap, or nothing when bodies
  are discarded; in both cases every frame is read, and an error in any frame, even past the cap,
  is an error.\<close>

lemma body_capped:
  "read_body_with_cap_and_drain fs discard cap =
     (if FrameError \<in> set fs then None
      else Some (if discard then Discarded else Buffered (take cap (concat (map data_of fs)))))"
  by (simp add: read_body_with_cap_and_drain_def read_frames_take drain_frames_iff)

fun written :: "io_event \<Rightarrow> nat" where
  "written (Wrote n t) = n"
| "written (Got n) = 0"

fun got :: "io_event \<Rightarrow> nat" where
  "got (Wrote n t) = 0"
| "got (Got n) = n"

lemma count_all_bytes:
  "wm_written (count_all evs m) = wm_written m + of_nat (sum_list (map written evs)) \<and>
   wm_read (count_all evs m) = wm_read m + of_nat (sum_list (map got evs))"
proof (induction evs arbitrary: m)
  case (Cons e evs)
  then show ?case by (cases e) (auto simp: count_all_def)
qed (simp add: count_all_def)

text \<open>Bytes per request.  The byte counts of a response are the bytes written and read while its own request
  was sent and its body read (modulo \<open>2 ^ 64\<close>), whatever the connection carried before.\<close>

lemma request_bytes:
  assumes "exchange L N cfg r req ua start p tms w = (w', Inr (resp, p'))"
    and "net_send N (pc_conn p) (build_request r (pc_protocol p) req ua) w = (w1, evs1, hd1)"
    and "net_body N (pc_conn p) w1 = (w2, evs2, fs)"
  shows "hs_data_sent resp = of_nat (sum_list (map written (evs1 @ evs2))) \<and>
    hs_data_received resp = of_nat (sum_list (map got (evs1 @ evs2))) \<and> pc_conn p' = pc_conn p \<and>
    (if hc_discard_response_bodies cfg then hs_body resp = Discarded
     else hs_body resp = Buffered (take (hc_max_response_body_size cfg) (concat (map data_of fs))))"
  using assms
  by (auto simp: exchange_def Let_def count_all_bytes read_body_with_cap_and_drain_def read_frames_take
      split: if_splits option.splits)

definition route_a :: route where
  "route_a = \<lparr>rt_uri = \<lparr>uri_scheme = None, uri_host = Some ''a.test'', uri_port = None, uri_path_and_query = Some ''/''\<rparr>, rt_transport = Http,
     rt_host = ''a.test'', rt_port = 80, rt_proxy = None, rt_target_host = ''a.test'', rt_target = Host ''a.test:80''\<rparr>"

definition used_conn :: pooled_conn where
  "used_conn = \<lparr>pc_conn = 0, pc_protocol = Http1, pc_wire = \<lparr>wm_written = 2 ^ 64 - 1, wm_read = 3, wm_last_write = Some 5\<rparr>\<rparr>"

definition request_a :: hyper_request where
  "request_a = \<lparr>hr_method = Get, hr_url = ''http://a.test/'', hr_headers = [], hr_body = None\<rparr>"

text \<open>A connection is reused for the host it was opened for.  Two requests that fall under the same pool key
  have the same transport, port and proxy, and if neither host has an entry in \<open>hosts\<close> they also have the
  same host and, with it, the same TLS server name.\<close>

lemma same_key_same_host:
  assumes "plan_route L cfg a = Inr r" "plan_route L cfg b = Inr r'" "route_key_of r src = route_key_of r' src'"
    and "map_of (hc_hosts cfg) (rt_host r) = None" "map_of (hc_hosts cfg) (rt_host r') = None"
  shows "rt_host r = rt_host r' \<and> rt_transport r = rt_transport r' \<and> rt_port r = rt_port r' \<and> rt_proxy r = rt_proxy r' \<and>
    tunnel_for r = tunnel_for r' \<and> src = src'"
proof -
  have h: "rt_target_host q = rt_host q" if "plan_route L cfg u = Inr q" "map_of (hc_hosts cfg) (rt_host q) = None" for u q
    using plan_route_Inr(7)[OF that(1)] that(2) by (auto simp: resolve_connect_target_def split: option.splits)
  show ?thesis using h[OF assms(1,4)] h[OF assms(2,5)] assms(3) by (auto simp: route_key_of_def tunnel_for_def)
qed

text \<open>With \<open>hosts\<close> this fails: over HTTPS, two names with the same address share the pool key, so a request to the
  second is sent on a connection whose certificate was checked for the first.\<close>

lemma hosts_share_connections:
  "\<exists>r r'. plan_route tiny_lib tiny_config ''a.test'' = Inr r \<and> plan_route tiny_lib tiny_config ''b.test'' = Inr r' \<and>
     route_key_of r None = route_key_of r' None \<and> rt_transport r = Https \<and> rt_host r \<noteq> rt_host r'"
  by (simp add: plan_route_def tiny_lib_def tiny_config_def transport_for_scheme_def check_blocked_hostname_def hostname_matches_def
      check_literal_ip_blacklist_def proxy_for_def no_proxy_matches_def resolve_connect_target_def check_ip_blacklist_def route_key_of_def
      starts_with_def Let_def)

text \<open>A redirect keeps all headers but those of the body, whatever host it leads to.\<close>

lemma redirect_keeps_headers:
  "(k, v) \<in> set (hr_headers req) \<Longrightarrow> \<not> eq_ignore_case k ''content-length'' \<Longrightarrow> \<not> eq_ignore_case k ''content-type'' \<Longrightarrow>
     (k, v) \<in> set (hr_headers (redirected_request req next_url status)) \<and> hr_url (redirected_request req next_url status) = next_url"
  by (auto simp: redirected_request_def Let_def)

text \<open>A version range below what the TLS library has is no restriction.\<close>

lemma tls_range_ignored:
  "tls_protocol_versions (Some \<lparr>tls_min = Some ''tls1.0'', tls_max = Some ''tls1.1''\<rparr>) = Inr (Some [TLS13, TLS12])"
  by code_simp

text \<open>The source addresses are used in turn.\<close>

lemma source_ips_in_turn:
  assumes "hc_local_ips (hy_config c) \<noteq> []"
  shows "snd (next_source_ip c) = Some (hc_local_ips (hy_config c) ! (unat (hy_local_ip_index c) mod length (hc_local_ips (hy_config c)))) \<and>
    hy_local_ip_index (fst (next_source_ip c)) = hy_local_ip_index c + 1"
  using assms by (simp add: next_source_ip_def Let_def)

end
