(* ===== verification/Reqwest.thy ===== *)
theory Reqwest
  imports Hyper
begin

text \<open>
  The fallback HTTP client over reqwest (\<open>crates/k6-js/src/http_client.rs\<close>): the settings it builds its clients
  with, the filter on URLs, the choice of the client, one request, and the byte counts it derives from
  requests and responses.  The crate itself is a parameter: it validates settings and requests and
  executes requests.  Logging to standard error is left out.
\<close>

section \<open>Clients\<close>

datatype redirect_policy = DefaultPolicy | NoRedirects | Limited nat

record client_settings =
  cs_timeout :: duration
  cs_pool_max_idle :: nat
  cs_user_agent :: "string option"
  cs_redirect :: redirect_policy
  cs_accept_invalid_certs :: bool
  cs_min_tls :: "tls_version option"
  cs_max_tls :: "tls_version option"
  cs_resolve :: "(string \<times> socket_addr) list"
  cs_local_address :: "ip_addr option"

definition plain_settings :: client_settings where
  "plain_settings = \<lparr>cs_timeout = from_secs 30, cs_pool_max_idle = 100, cs_user_agent = None, cs_redirect = DefaultPolicy,
     cs_accept_invalid_certs = False, cs_min_tls = None, cs_max_tls = None, cs_resolve = [], cs_local_address = None\<rparr>"

definition tls_named :: "string option \<Rightarrow> tls_version option" where
  "tls_named v = (case v of None \<Rightarrow> None | Some s \<Rightarrow> if s = ''tls1.2'' then Some TLS12 else if s = ''tls1.3'' then Some TLS13 else None)"

definition main_settings :: "'net web_lib \<Rightarrow> test_config \<Rightarrow> client_settings" where
  "main_settings L config =
     plain_settings\<lparr>cs_pool_max_idle := (if cfg_no_connection_reuse config then 0 else 100),
       cs_user_agent := cfg_user_agent config,
       cs_redirect := (case cfg_max_redirects config of None \<Rightarrow> DefaultPolicy
                       | Some n \<Rightarrow> if n = 0 then NoRedirects else Limited (unat n)),
       cs_accept_invalid_certs := cfg_insecure_skip_tls_verify config,
       cs_min_tls := Option.bind (cfg_tls_version config) (\<lambda>t. tls_named (tls_min t)),
       cs_max_tls := Option.bind (cfg_tls_version config) (\<lambda>t. tls_named (tls_max t)),
       cs_resolve := List.map_filter (\<lambda>(hostname, ip). map_option (\<lambda>a. (hostname, (a, 0))) (ip_parse L ip)) (cfg_hosts config)\<rparr>"

text \<open>The client bound to one of the \<open>localIPs\<close>.\<close>

definition local_settings :: "test_config \<Rightarrow> ip_addr \<Rightarrow> client_settings" where
  "local_settings config addr =
     plain_settings\<lparr>cs_local_address := Some addr,
       cs_pool_max_idle := (if cfg_no_connection_reuse config then 0 else 100),
       cs_accept_invalid_certs := cfg_insecure_skip_tls_verify config,
       cs_user_agent := cfg_user_agent config\<rparr>"

datatype reqwest_error = BuildFailed | InvalidLocal string | RequestBuild | ExecuteFailed | ChunkFailed | Blocked http_error

record local_ip_pool =
  lp_clients :: "client_settings list"
  lp_index :: u64

record 'net reqwest_client =
  rc_client :: client_settings
  rc_local_ip_clients :: "local_ip_pool option"
  rc_discard_response_bodies :: bool
  rc_max_response_body_size :: nat
  rc_http_debug :: "string option"
  rc_should_throw :: bool
  rc_blacklist_ips :: "'net list"
  rc_block_hostnames :: "string list"
  rc_hosts :: "(string, string) hm"

definition reqwest_new :: "(client_settings \<Rightarrow> bool) \<Rightarrow> bool \<Rightarrow> reqwest_error + 'net reqwest_client" where
  "reqwest_new build_ok discard =
     (if \<not> build_ok plain_settings then Inl BuildFailed
      else Inr \<lparr>rc_client = plain_settings, rc_local_ip_clients = None, rc_discard_response_bodies = discard,
             rc_max_response_body_size = 10 * 1024 * 1024, rc_http_debug = None, rc_should_throw = False,
             rc_blacklist_ips = [], rc_block_hostnames = [], rc_hosts = []\<rparr>)"

definition reqwest_from_config :: "'net web_lib \<Rightarrow> (client_settings \<Rightarrow> bool) \<Rightarrow> test_config \<Rightarrow> reqwest_error + 'net reqwest_client" where
  "reqwest_from_config L build_ok config =
     (let main = main_settings L config
      in if \<not> build_ok main then Inl BuildFailed
         else bind_r (if cfg_local_ips config = [] then Inr None
                      else bind_r (collect_r (map (\<lambda>ip_str.
                               case ip_parse L ip_str of
                                 None \<Rightarrow> Inl (InvalidLocal ip_str)
                               | Some addr \<Rightarrow> if build_ok (local_settings config addr) then Inr (local_settings config addr) else Inl BuildFailed)
                             (cfg_local_ips config)))
                       (\<lambda>clients. Inr (Some \<lparr>lp_clients = clients, lp_index = 0\<rparr>))) (\<lambda>locals.
           Inr \<lparr>rc_client = main, rc_local_ip_clients = locals,
                rc_discard_response_bodies = cfg_discard_response_bodies config, rc_max_response_body_size = 10 * 1024 * 1024,
                rc_http_debug = cfg_http_debug config, rc_should_throw = cfg_throw config,
                rc_blacklist_ips = List.map_filter (net_parse L) (cfg_blacklist_ips config),
                rc_block_hostnames = cfg_block_hostnames config, rc_hosts = cfg_hosts config\<rparr>))"

definition next_client :: "local_ip_pool \<Rightarrow> local_ip_pool \<times> client_settings" where
  "next_client p = (p\<lparr>lp_index := lp_index p + 1\<rparr>, lp_clients p ! (unat (lp_index p) mod length (lp_clients p)))"

text \<open>The filter before a request is sent.\<close>

definition check_blocked :: "'net web_lib \<Rightarrow> 'net reqwest_client \<Rightarrow> string \<Rightarrow> http_error + unit" where
  "check_blocked L c address =
     (if rc_blacklist_ips c = [] \<and> rc_block_hostnames c = [] then Inr ()
      else case url_parse L address of
             None \<Rightarrow> Inr ()
           | Some parsed \<Rightarrow>
               (case url_host parsed of
                  None \<Rightarrow> Inr ()
                | Some host \<Rightarrow>
                    if list_ex (hostname_matches host) (rc_block_hostnames c) then Inl (BlockedHost host)
                    else (case ip_parse L host of
                            None \<Rightarrow> Inr ()
                          | Some ip \<Rightarrow> if list_ex (\<lambda>n. net_contains L n ip) (rc_blacklist_ips c) then Inl (BlockedIp ip) else Inr ())))"

section \<open>Byte counts\<close>

record reqwest_request =
  rr_method :: string
  rr_path :: string
  rr_query :: "string option"
  rr_host :: "string option"
  rr_port :: "u16 option"
  rr_headers :: "(string \<times> string) list"
  rr_body :: "string option"

definition header_bytes :: "(string \<times> string) list \<Rightarrow> u64" where
  "header_bytes headers = fold (\<lambda>(name, value) bytes. bytes + (of_nat (length name) + 2 + of_nat (length value) + 2)) headers 0"

definition estimate_request_bytes :: "reqwest_request \<Rightarrow> u64" where
  "estimate_request_bytes r =
     (let query_len = (case rr_query r of None \<Rightarrow> 0 | Some q \<Rightarrow> length q + 1);
          line = (of_nat (length (rr_method r) + 1 + length (rr_path r) + query_len + 1 + 8 + 2) :: u64);
          host = (if list_ex (\<lambda>(k, _). eq_ignore_case k ''host'') (rr_headers r) then 0
                  else case rr_host r of
                         None \<Rightarrow> 0
                       | Some h \<Rightarrow> 4 + 2 + of_nat (case rr_port r of Some p \<Rightarrow> length h + 1 + length (dec (uint p)) | None \<Rightarrow> length h) + 2)
      in line + host + header_bytes (rr_headers r) + 2 + (case rr_body r of None \<Rightarrow> 0 | Some b \<Rightarrow> of_nat (length b)))"

definition estimate_response_header_bytes :: "string \<Rightarrow> (string \<times> string) list \<Rightarrow> u64" where
  "estimate_response_header_bytes reason headers =
     of_nat (8 + 1 + 3 + 1 + length reason + 2) + header_bytes headers + 2"

section \<open>Sending\<close>

record reqwest_response =
  rp_status :: u16
  rp_reason :: string
  rp_headers :: "(string \<times> string) list"
  rp_url :: string
  rp_chunks :: "string option list"

text \<open>\<open>rq_build\<close> makes the request, \<open>rq_execute\<close> sends it with the given client; a chunk of the body is \<open>None\<close> where
  reading it fails.\<close>

record 'w reqwest_lib =
  rq_build :: "http_request \<Rightarrow> reqwest_request option"
  rq_execute :: "client_settings \<Rightarrow> reqwest_request \<Rightarrow> 'w \<Rightarrow> 'w \<times> reqwest_response option"
  rq_now :: "'w \<Rightarrow> int"

definition append_capped_chunk :: "string \<Rightarrow> string \<Rightarrow> nat \<Rightarrow> string" where
  "append_capped_chunk buffer chunk cap =
     (if cap \<le> length buffer then buffer else buffer @ take (min (cap - length buffer) (length chunk)) chunk)"

fun buffer_response_body :: "string option list \<Rightarrow> nat \<Rightarrow> string \<Rightarrow> string option" where
  "buffer_response_body [] cap buffer = Some buffer"
| "buffer_response_body (None # cs) cap buffer = None"
| "buffer_response_body (Some chunk # cs) cap buffer = buffer_response_body cs cap (append_capped_chunk buffer chunk cap)"

fun drain_response_body :: "string option list \<Rightarrow> u64 \<Rightarrow> u64 option" where
  "drain_response_body [] n = Some n"
| "drain_response_body (None # cs) n = None"
| "drain_response_body (Some chunk # cs) n = drain_response_body cs (n + of_nat (length chunk))"

definition read_response :: "'net reqwest_client \<Rightarrow> string option list \<Rightarrow> (response_body \<times> u64) option" where
  "read_response c chunks =
     (if rc_discard_response_bodies c
      then map_option (\<lambda>n. (Discarded, n)) (drain_response_body chunks 0)
      else map_option (\<lambda>b. (Buffered b, of_nat (length b))) (buffer_response_body chunks (rc_max_response_body_size c) []))"

definition choose_client :: "'net reqwest_client \<Rightarrow> 'net reqwest_client \<times> client_settings" where
  "choose_client c =
     (case rc_local_ip_clients c of
        None \<Rightarrow> (c, rc_client c)
      | Some p \<Rightarrow> (case next_client p of (p, s) \<Rightarrow> (c\<lparr>rc_local_ip_clients := Some p\<rparr>, s)))"

definition reqwest_send ::
    "'net web_lib \<Rightarrow> 'w reqwest_lib \<Rightarrow> http_request \<Rightarrow> 'w \<Rightarrow> 'net reqwest_client \<Rightarrow> 'w \<times> 'net reqwest_client \<times> (reqwest_error + http_response)" where
  "reqwest_send L R req w c =
     (case check_blocked L c (hq_url req) of
        Inl e \<Rightarrow> (w, c, Inl (Blocked e))
      | Inr _ \<Rightarrow>
          (let start = rq_now R w
           in case choose_client c of
                (c, client) \<Rightarrow>
                  (case rq_build R req of
                     None \<Rightarrow> (w, c, Inl RequestBuild)
                   | Some request \<Rightarrow>
                       (let data_sent = estimate_request_bytes request; send_start = rq_now R w
                        in case rq_execute R client request w of
                             (w, None) \<Rightarrow> (w, c, Inl ExecuteFailed)
                           | (w, Some resp) \<Rightarrow>
                               (let waiting_done = rq_now R w
                                in case read_response c (rp_chunks resp) of
                                     None \<Rightarrow> (w, c, Inl ChunkFailed)
                                   | Some (body, body_len) \<Rightarrow>
                                       (let receive_done = rq_now R w
                                        in (w, c, Inr \<lparr>hs_status = rp_status resp, hs_headers = rp_headers resp, hs_body = body,
                                              hs_timings = \<lparr>tm_duration = millis (since start (rq_now R w)), tm_blocked = f0, tm_connecting = f0,
                                                tm_tls_handshaking = f0, tm_sending = f0, tm_waiting = millis (since send_start waiting_done),
                                                tm_receiving = millis (since waiting_done receive_done)\<rparr>,
                                              hs_url = rp_url resp, hs_data_sent = data_sent,
                                              hs_data_received = estimate_response_header_bytes (rp_reason resp) (rp_headers resp) + body_len\<rparr>)))))))"


section \<open>The text of a request\<close>

text \<open>A request as HTTP/1.1 writes it, with a \<open>Host\<close> line added when the headers have none.\<close>

definition header_text :: "(string \<times> string) list \<Rightarrow> string" where
  "header_text headers = concat (map (\<lambda>(name, value). name @ '': '' @ value @ crlf) headers)"

definition request_text :: "reqwest_request \<Rightarrow> string" where
  "request_text r =
     rr_method r @ '' '' @ rr_path r @ (case rr_query r of None \<Rightarrow> [] | Some q \<Rightarrow> ''?'' @ q) @ '' HTTP/1.1'' @ crlf @
     (if list_ex (\<lambda>(k, _). eq_ignore_case k ''host'') (rr_headers r) then []
      else case rr_host r of None \<Rightarrow> [] | Some h \<Rightarrow> header_text [(''Host'', h @ (case rr_port r of None \<Rightarrow> [] | Some p \<Rightarrow> '':'' @ dec (uint p)))]) @
     header_text (rr_headers r) @ crlf @ (case rr_body r of None \<Rightarrow> [] | Some b \<Rightarrow> b)"

definition response_text :: "string \<Rightarrow> string \<Rightarrow> (string \<times> string) list \<Rightarrow> string" where
  "response_text code reason headers = ''HTTP/1.1 '' @ code @ '' '' @ reason @ crlf @ header_text headers @ crlf"

lemma header_bytes_text: "header_bytes headers = of_nat (length (header_text headers))"
proof -
  have "fold (\<lambda>(name, value) bytes. bytes + (of_nat (length name) + 2 + of_nat (length value) + 2)) headers n =
      n + (of_nat (length (header_text headers)) :: u64)" for n
    by (induction headers arbitrary: n) (auto simp: header_text_def crlf_def algebra_simps)
  then show ?thesis by (simp add: header_bytes_def)
qed

text \<open>The byte count of a request.  The estimate is the length of the request as HTTP/1.1 writes it (modulo
  \<open>2 ^ 64\<close>), and that of a response head is the length of its status line and headers.\<close>

lemma estimate_is_length:
  "estimate_request_bytes r = of_nat (length (request_text r))"
  by (auto simp: estimate_request_bytes_def request_text_def header_bytes_text Let_def header_text_def crlf_def split: option.splits)

lemma response_estimate: "length code = 3 \<Longrightarrow> estimate_response_header_bytes reason headers = of_nat (length (response_text code reason headers))"
  by (simp add: estimate_response_header_bytes_def response_text_def header_bytes_text crlf_def)

lemma append_capped: "length buffer \<le> cap \<Longrightarrow> append_capped_chunk buffer chunk cap = take cap (buffer @ chunk)"
  by (simp add: append_capped_chunk_def min_def)

lemma take_take_app: "take n (take n a @ b) = take n (a @ b)"
  by (cases "length a \<le> n") simp_all

lemma buffer_response_take:
  "length buffer \<le> cap \<Longrightarrow> buffer_response_body cs cap buffer =
     (if None \<in> set cs then None else Some (take cap (buffer @ concat (map the cs))))"
proof (induction cs cap buffer rule: buffer_response_body.induct)
  case (3 chunk cs cap buffer)
  have "append_capped_chunk buffer chunk cap = take cap (buffer @ chunk)" by (rule append_capped[OF "3.prems"])
  moreover have "take cap (take cap (buffer @ chunk) @ concat (map the cs)) = take cap (buffer @ chunk @ concat (map the cs))"
    using take_take_app[of cap "buffer @ chunk" "concat (map the cs)"] by (simp only: append_assoc)
  ultimately show ?case using "3.IH" by (simp del: take_append)
qed auto

lemma drain_response_sum:
  "drain_response_body cs n = (if None \<in> set cs then None else Some (n + of_nat (length (concat (map the cs)))))"
  by (induction cs n rule: drain_response_body.induct) (auto simp: algebra_simps)

text \<open>With bodies kept, the bytes past the cap are not counted as received, with bodies discarded they are.\<close>

lemma received_bytes:
  assumes "None \<notin> set cs"
  shows "read_response c cs = Some
    (if rc_discard_response_bodies c then (Discarded, of_nat (length (concat (map the cs))))
     else (Buffered (take (rc_max_response_body_size c) (concat (map the cs))),
           of_nat (min (length (concat (map the cs))) (rc_max_response_body_size c))))"
  using assms by (simp add: read_response_def buffer_response_take drain_response_sum min.commute)

text \<open>A client bound to a local address ignores the limit of redirects, the TLS versions and the static hosts.\<close>

lemma local_clients_differ:
  "cs_redirect (local_settings config addr) = DefaultPolicy" "cs_min_tls (local_settings config addr) = None"
  "cs_max_tls (local_settings config addr) = None" "cs_resolve (local_settings config addr) = []"
  "cfg_max_redirects config = Some 0 \<Longrightarrow> cs_redirect (main_settings L config) = NoRedirects"
  by (simp_all add: local_settings_def plain_settings_def main_settings_def)

text \<open>Both clients refuse the same URLs before they send, where both parsers read the URL alike.\<close>

lemma filters_agree:
  assumes "url_parse L address = Some u" "url_host u = Some (rt_host r)" "plan_route L cfg address = Inr r"
    and "rc_blacklist_ips c = hc_blacklist_ips cfg" "rc_block_hostnames c = hc_block_hostnames cfg"
  shows "check_blocked L c address = Inr ()"
  using plan_route_ok[OF assms(3)] assms(1,2,4,5)
  by (auto simp: check_blocked_def check_blocked_hostname_def check_literal_ip_blacklist_def check_ip_blacklist_def split: option.splits if_splits)

end
