(* ===== verification/Adapters.thy ===== *)
theory Adapters
  imports Rust_Str Summary EventStream Config
begin

text \<open>
  The conformance harness reads what a run leaves behind (\<open>crates/k6-conformance/src/canonical.rs\<close> and
  \<open>adapters/\<close>): the summary export of either program, the event stream and the file with its drop counts.
  A parser of JSON texts is a parameter; the derived decoders of \<open>serde\<close> are written out over its values
  (unknown fields ignored, a missing field without default or a field of another type an error).
\<close>

section \<open>The canonical model\<close>

datatype kind_tag = TagCounter | TagGauge | TagRate | TagTrend

fun kind_tag_parse :: "string \<Rightarrow> kind_tag option" where
  "kind_tag_parse s =
     (if s = ''counter'' then Some TagCounter
      else if s = ''gauge'' then Some TagGauge
      else if s = ''rate'' then Some TagRate
      else if s = ''trend'' then Some TagTrend
      else None)"

fun kind_tag_str :: "kind_tag \<Rightarrow> string" where
  "kind_tag_str TagCounter = ''counter''"
| "kind_tag_str TagGauge = ''gauge''"
| "kind_tag_str TagRate = ''rate''"
| "kind_tag_str TagTrend = ''trend''"

record canonical_trend =
  ct_count :: "u64 option"
  ct_avg :: f64
  ct_min :: f64
  ct_med :: f64
  ct_max :: f64
  ct_p90 :: f64
  ct_p95 :: f64
  ct_p99 :: "f64 option"

datatype canonical_kind =
  CCounter f64 f64 \<comment> \<open>count, rate\<close>
| CGauge f64 f64 f64 \<comment> \<open>value, min, max\<close>
| CRate f64 u64 u64 \<comment> \<open>rate, passes, fails\<close>
| CTrend canonical_trend

record canonical_metric =
  cm_name :: string
  cm_tags :: tag_map
  cm_kind :: canonical_kind

record canonical_check =
  cc_name :: string
  cc_group_path :: string
  cc_id :: string
  cc_passes :: u64
  cc_fails :: u64

record canonical_group =
  cg_name :: string
  cg_path :: string
  cg_id :: string

record canonical_metric_def =
  cd_name :: string
  cd_kind :: kind_tag
  cd_contains :: string

record canonical_event_stream =
  es_metric_defs :: "(string, canonical_metric_def) btm"
  es_sample_counts :: "(string, u64) btm"

record side_reliability =
  sr_capacity :: u64
  sr_peak_occupancy :: u64
  sr_drops_total :: u64
  sr_drops_per_metric :: "(string, u64) btm"
  sr_error :: "string option"

record reliability =
  rel_upstream :: side_reliability
  rel_k6rs :: side_reliability

text \<open>The fields \<open>thresholds\<close> (always empty) and \<open>reliability\<close> (always \<open>None\<close>) of a run are never read and left out.\<close>

record canonical_run =
  cr_metrics :: "(string, canonical_metric) btm"
  cr_duration_ms :: f64
  cr_exit_code :: int
  cr_checks :: "(string, canonical_check) btm"
  cr_groups :: "(string, canonical_group) btm"
  cr_event_stream :: "canonical_event_stream option"

definition side_default :: side_reliability where
  "side_default = \<lparr>sr_capacity = 0, sr_peak_occupancy = 0, sr_drops_total = 0, sr_drops_per_metric = [], sr_error = None\<rparr>"

definition side_unreliable :: "side_reliability \<Rightarrow> bool" where
  "side_unreliable s \<longleftrightarrow> 0 < sr_drops_total s \<or> sr_error s \<noteq> None"

definition is_unreliable :: "reliability \<Rightarrow> bool" where
  "is_unreliable r \<longleftrightarrow> side_unreliable (rel_upstream r) \<or> side_unreliable (rel_k6rs r)"

definition selector_string :: "string \<Rightarrow> tag_map \<Rightarrow> string" where
  "selector_string name tags = canonical \<lparr>sel_name = name, sel_tags = tags\<rparr>"

section \<open>The tree of groups\<close>

definition str_or_empty :: "json_map \<Rightarrow> string \<Rightarrow> string" where
  "str_or_empty obj key = (case get_as as_str obj key of None \<Rightarrow> [] | Some s \<Rightarrow> s)"

definition u64_or_zero :: "json_map \<Rightarrow> string \<Rightarrow> u64" where
  "u64_or_zero obj key = (case get_as as_u64 obj key of None \<Rightarrow> 0 | Some n \<Rightarrow> n)"

definition objects_of :: "json_map \<Rightarrow> string \<Rightarrow> json_map" where
  "objects_of obj key = (case get_as as_object obj key of None \<Rightarrow> [] | Some m \<Rightarrow> m)"

definition walk_check :: "string \<Rightarrow> json \<Rightarrow> (string, canonical_check) btm \<Rightarrow> (string, canonical_check) btm" where
  "walk_check group_path raw_check checks =
     (case as_object raw_check of
        None \<Rightarrow> checks
      | Some c \<Rightarrow>
          (let name = str_or_empty c ''name'';
               path = (case get_as as_str c ''path'' of Some p \<Rightarrow> p | None \<Rightarrow> group_path @ ''::'' @ name)
           in bt_put path \<lparr>cc_name = name, cc_group_path = group_path, cc_id = str_or_empty c ''id'',
                cc_passes = u64_or_zero c ''passes'', cc_fails = u64_or_zero c ''fails''\<rparr> checks))"

definition walk_self :: "json_map \<Rightarrow> (string, canonical_group) btm \<Rightarrow> (string, canonical_group) btm" where
  "walk_self obj groups =
     bt_put (str_or_empty obj ''path'')
       \<lparr>cg_name = str_or_empty obj ''name'', cg_path = str_or_empty obj ''path'', cg_id = str_or_empty obj ''id''\<rparr> groups"

lemma objects_of_size:
  assumes "(k, c) \<in> set (objects_of obj key)" shows "size c < size (JObject obj)"
proof -
  obtain m where m: "map_of obj key = Some (JObject m)" and k: "(k, c) \<in> set m"
    using assms by (cases "map_of obj key"; cases "the (map_of obj key)") (auto simp: objects_of_def get_as_def)
  have "size_prod (\<lambda>_. 0) size (k, c) \<le> size_list (size_prod (\<lambda>_. 0) size) m"
    by (rule size_list_estimation'[OF k]) simp
  moreover have "size_prod (\<lambda>_. 0) size (key, JObject m) \<le> size_list (size_prod (\<lambda>_. 0) size) obj"
    by (rule size_list_estimation'[OF map_of_SomeD[OF m]]) simp
  ultimately show ?thesis by simp
qed

function walk_group ::
    "json \<Rightarrow> bool \<Rightarrow> (string, canonical_group) btm \<times> (string, canonical_check) btm \<Rightarrow>
     (string, canonical_group) btm \<times> (string, canonical_check) btm" where
  "walk_group (JObject obj) is_root maps =
     (let groups = (if is_root then fst maps else walk_self obj (fst maps));
          checks = fold (\<lambda>(_, c). walk_check (str_or_empty obj ''path'') c) (objects_of obj ''checks'') (snd maps)
      in fold (\<lambda>p. walk_group (snd p) False) (objects_of obj ''groups'') (groups, checks))"
| "walk_group JNull is_root maps = maps"
| "walk_group (JBool b) is_root maps = maps"
| "walk_group (JNumber n) is_root maps = maps"
| "walk_group (JString s) is_root maps = maps"
| "walk_group (JArray xs) is_root maps = maps"
  by pat_completeness auto
termination
  by (relation "measure (\<lambda>(j, r, m). size j)") (use objects_of_size in fastforce)+

definition collect_root_group_tree ::
    "json \<Rightarrow> (string, canonical_group) btm \<times> (string, canonical_check) btm \<Rightarrow>
     (string, canonical_group) btm \<times> (string, canonical_check) btm" where
  "collect_root_group_tree root_group maps = walk_group root_group True maps"

section \<open>Summaries\<close>

definition split_selector :: "string \<Rightarrow> string \<times> tag_map" where
  "split_selector raw = (case selector_parse raw of Inr s \<Rightarrow> (sel_name s, sel_tags s) | Inl _ \<Rightarrow> (raw, []))"

definition value_or_zero :: "(string, f64) btm \<Rightarrow> string \<Rightarrow> f64" where
  "value_or_zero values k = (case map_of values k of None \<Rightarrow> f0 | Some v \<Rightarrow> v)"

definition infer_kind :: "(string, f64) btm \<Rightarrow> canonical_kind option" where
  "infer_kind values =
     (let has = (\<lambda>k. map_of values k \<noteq> None); got = value_or_zero values
      in if has ''passes'' \<and> has ''fails'' then Some (CRate (got ''value'') (f_to_u64 (got ''passes'')) (f_to_u64 (got ''fails'')))
         else if has ''count'' \<and> has ''rate'' \<and> \<not> has ''passes'' then Some (CCounter (got ''count'') (got ''rate''))
         else if has ''avg'' \<and> has ''p(90)'' then
           Some (CTrend \<lparr>ct_count = None, ct_avg = got ''avg'', ct_min = got ''min'', ct_med = got ''med'', ct_max = got ''max'',
                         ct_p90 = got ''p(90)'', ct_p95 = got ''p(95)'', ct_p99 = map_of values ''p(99)''\<rparr>)
         else if has ''value'' \<and> has ''min'' \<and> has ''max'' \<and> \<not> has ''avg'' then Some (CGauge (got ''value'') (got ''min'') (got ''max''))
         else None)"

definition k6rs_kind :: "string \<Rightarrow> (string, f64) btm \<Rightarrow> canonical_kind option" where
  "k6rs_kind metric_type values =
     (let got = value_or_zero values
      in if metric_type = ''counter'' then Some (CCounter (got ''count'') (got ''rate''))
         else if metric_type = ''trend'' then
           Some (CTrend \<lparr>ct_count = map_option f_to_u64 (map_of values ''count''), ct_avg = got ''avg'', ct_min = got ''min'',
                         ct_med = got ''med'', ct_max = got ''max'', ct_p90 = got ''p(90)'', ct_p95 = got ''p(95)'',
                         ct_p99 = map_of values ''p(99)''\<rparr>)
         else if metric_type = ''rate'' then Some (CRate (got ''rate'') (f_to_u64 (got ''passes'')) (f_to_u64 (got ''fails'')))
         else if metric_type = ''gauge'' then Some (CGauge (got ''value'') (got ''min'') (got ''max''))
         else None)"

text \<open>The derived decoders: \<open>BTreeMap\<close> fields are read into ordered maps.\<close>

fun decode_map :: "(json \<Rightarrow> 'a option) \<Rightarrow> json_map \<Rightarrow> (string, 'a) btm option" where
  "decode_map de [] = Some []"
| "decode_map de ((k, j) # m) =
     (case (de j, decode_map de m) of
        (Some x, Some r) \<Rightarrow> Some (bt_put k x r)
      | _ \<Rightarrow> None)"

definition decode_object :: "(json \<Rightarrow> 'a option) \<Rightarrow> json \<Rightarrow> (string, 'a) btm option" where
  "decode_object de j = Option.bind (as_object j) (decode_map de)"

text \<open>A field with \<open>#[serde(default)]\<close>.\<close>

definition field_or :: "'a \<Rightarrow> (json \<Rightarrow> 'a option) \<Rightarrow> json_map \<Rightarrow> string \<Rightarrow> 'a option" where
  "field_or d de obj key = (case map_of obj key of None \<Rightarrow> Some d | Some j \<Rightarrow> de j)"

fun decode_option :: "(json \<Rightarrow> 'a option) \<Rightarrow> json \<Rightarrow> 'a option option" where
  "decode_option de JNull = Some None"
| "decode_option de j = map_option Some (de j)"

record k6rs_metric_entry =
  ke_metric_type :: string
  ke_values :: "(string, f64) btm"

record k6rs_summary =
  ks_metrics :: "(string, k6rs_metric_entry) btm"
  ks_test_run_duration_ms :: f64
  ks_root_group :: "json option"

definition decode_k6rs_entry :: "json \<Rightarrow> k6rs_metric_entry option" where
  "decode_k6rs_entry j =
     Option.bind (as_object j) (\<lambda>obj.
     Option.bind (get_as as_str obj ''type'') (\<lambda>t.
     Option.bind (field_or [] (decode_object as_f64) obj ''values'') (\<lambda>vs.
       Some \<lparr>ke_metric_type = t, ke_values = vs\<rparr>)))"

definition decode_k6rs_state :: "json \<Rightarrow> f64 option" where
  "decode_k6rs_state j = Option.bind (as_object j) (\<lambda>obj. field_or f0 as_f64 obj ''test_run_duration_ms'')"

definition decode_k6rs_summary :: "json \<Rightarrow> k6rs_summary option" where
  "decode_k6rs_summary j =
     Option.bind (as_object j) (\<lambda>obj.
     Option.bind (Option.bind (map_of obj ''metrics'') (decode_object decode_k6rs_entry)) (\<lambda>ms.
     Option.bind (field_or f0 decode_k6rs_state obj ''state'') (\<lambda>d.
     Option.bind (field_or None (decode_option Some) obj ''root_group'') (\<lambda>r.
       Some \<lparr>ks_metrics = ms, ks_test_run_duration_ms = d, ks_root_group = r\<rparr>))))"

definition k6rs_metric :: "string \<times> k6rs_metric_entry \<Rightarrow> (string, canonical_metric) btm \<Rightarrow> (string, canonical_metric) btm" where
  "k6rs_metric p out =
     (case p of (raw_name, entry) \<Rightarrow>
      case split_selector raw_name of (name, tags) \<Rightarrow>
        (case k6rs_kind (ke_metric_type entry) (ke_values entry) of
           None \<Rightarrow> out
         | Some kind \<Rightarrow> bt_put (selector_string name tags) \<lparr>cm_name = name, cm_tags = tags, cm_kind = kind\<rparr> out))"

datatype adapt_error = CannotRead string | CannotDecode

definition k6rs_parse :: "(string \<Rightarrow> json option) \<Rightarrow> string \<Rightarrow>
    (f64 \<times> (string, canonical_metric) btm \<times> (string, canonical_check) btm \<times> (string, canonical_group) btm) option" where
  "k6rs_parse from_str s =
     (case Option.bind (from_str s) decode_k6rs_summary of
        None \<Rightarrow> None
      | Some parsed \<Rightarrow>
          (let maps = (case ks_root_group parsed of None \<Rightarrow> ([], []) | Some r \<Rightarrow> collect_root_group_tree r ([], []))
           in Some (ks_test_run_duration_ms parsed, fold k6rs_metric (ks_metrics parsed) [], snd maps, fst maps)))"

text \<open>The artifacts of a run; \<open>fs\<close> gives the text of a file or the error of reading it.\<close>

record run_artifacts =
  ra_out_json_path :: string
  ra_summary_export_path :: string
  ra_exit_code :: int

type_synonym files = "string \<Rightarrow> string + string"

definition k6rs_adapt :: "(string \<Rightarrow> json option) \<Rightarrow> files \<Rightarrow> run_artifacts \<Rightarrow> adapt_error + canonical_run" where
  "k6rs_adapt from_str fs a =
     (case fs (ra_summary_export_path a) of
        Inl e \<Rightarrow> Inl (CannotRead e)
      | Inr raw \<Rightarrow>
          (case k6rs_parse from_str raw of
             None \<Rightarrow> Inl CannotDecode
           | Some (duration, metrics, checks, groups) \<Rightarrow>
               Inr \<lparr>cr_metrics = metrics, cr_duration_ms = duration, cr_exit_code = ra_exit_code a, cr_checks = checks,
                    cr_groups = groups, cr_event_stream = None\<rparr>))"

record upstream_summary =
  us_metrics :: "(string, (string, json) btm) btm"
  us_root_group :: "json option"

definition decode_upstream_summary :: "json \<Rightarrow> upstream_summary option" where
  "decode_upstream_summary j =
     Option.bind (as_object j) (\<lambda>obj.
     Option.bind (field_or [] (decode_object (decode_object Some)) obj ''metrics'') (\<lambda>ms.
     Option.bind (field_or None (decode_option Some) obj ''root_group'') (\<lambda>r.
       Some \<lparr>us_metrics = ms, us_root_group = r\<rparr>)))"

definition numeric_fields :: "(string, json) btm \<Rightarrow> (string, f64) btm" where
  "numeric_fields entry = List.map_filter (\<lambda>(k, v). map_option (\<lambda>n. (k, n)) (as_f64 v)) entry"

definition upstream_metric :: "string \<times> (string, json) btm \<Rightarrow> (string, canonical_metric) btm \<Rightarrow> (string, canonical_metric) btm" where
  "upstream_metric p out =
     (case p of (raw_name, entry) \<Rightarrow>
      case split_selector raw_name of (name, tags) \<Rightarrow>
        (case infer_kind (numeric_fields entry) of
           None \<Rightarrow> out
         | Some kind \<Rightarrow> bt_put (selector_string name tags) \<lparr>cm_name = name, cm_tags = tags, cm_kind = kind\<rparr> out))"

definition upstream_adapt :: "(string \<Rightarrow> json option) \<Rightarrow> files \<Rightarrow> run_artifacts \<Rightarrow> adapt_error + canonical_run" where
  "upstream_adapt from_str fs a =
     (case fs (ra_summary_export_path a) of
        Inl e \<Rightarrow> Inl (CannotRead e)
      | Inr raw \<Rightarrow>
          (case Option.bind (from_str raw) decode_upstream_summary of
             None \<Rightarrow> Inl CannotDecode
           | Some parsed \<Rightarrow>
               (let maps = (case us_root_group parsed of None \<Rightarrow> ([], []) | Some r \<Rightarrow> collect_root_group_tree r ([], []))
                in Inr \<lparr>cr_metrics = fold upstream_metric (us_metrics parsed) [], cr_duration_ms = f0,
                        cr_exit_code = ra_exit_code a, cr_checks = snd maps, cr_groups = fst maps, cr_event_stream = None\<rparr>)))"

section \<open>The event stream and its sidecar\<close>

record wire_metric_data =
  wd_metric_type :: string
  wd_contains :: "string option"

record wire_event =
  we_event_type :: string
  we_metric :: string
  we_data :: "wire_metric_data option"

definition decode_metric_data :: "json \<Rightarrow> wire_metric_data option" where
  "decode_metric_data j =
     Option.bind (as_object j) (\<lambda>obj.
     Option.bind (field_or [] as_str obj ''type'') (\<lambda>t.
     Option.bind (field_or None (decode_option as_str) obj ''contains'') (\<lambda>c.
       Some \<lparr>wd_metric_type = t, wd_contains = c\<rparr>)))"

definition decode_event :: "json \<Rightarrow> wire_event option" where
  "decode_event j =
     Option.bind (as_object j) (\<lambda>obj.
     Option.bind (get_as as_str obj ''type'') (\<lambda>t.
     Option.bind (get_as as_str obj ''metric'') (\<lambda>metric.
     Option.bind (field_or None (decode_option decode_metric_data) obj ''data'') (\<lambda>d.
       Some \<lparr>we_event_type = t, we_metric = metric, we_data = d\<rparr>))))"

definition read_event :: "wire_event \<Rightarrow> canonical_event_stream \<Rightarrow> canonical_event_stream" where
  "read_event ev s =
     (if we_event_type ev = ''Metric'' then
        (case we_data ev of
           None \<Rightarrow> s
         | Some d \<Rightarrow>
             (case kind_tag_parse (wd_metric_type d) of
                None \<Rightarrow> s
              | Some kind \<Rightarrow>
                  (if map_of (es_metric_defs s) (we_metric ev) \<noteq> None then s
                   else s\<lparr>es_metric_defs := bt_put (we_metric ev)
                          \<lparr>cd_name = we_metric ev, cd_kind = kind, cd_contains = (case wd_contains d of None \<Rightarrow> [] | Some c \<Rightarrow> c)\<rparr>
                          (es_metric_defs s)\<rparr>)))
      else if we_event_type ev = ''Point'' then
        s\<lparr>es_sample_counts := bt_put (we_metric ev)
            ((case map_of (es_sample_counts s) (we_metric ev) of None \<Rightarrow> 0 | Some n \<Rightarrow> n) + 1) (es_sample_counts s)\<rparr>
      else s)"

definition read_line :: "(string \<Rightarrow> json option) \<Rightarrow> string \<Rightarrow> canonical_event_stream \<Rightarrow> canonical_event_stream" where
  "read_line from_str line s =
     (let line = trim line
      in if line = [] then s
         else case Option.bind (from_str line) decode_event of None \<Rightarrow> s | Some ev \<Rightarrow> read_event ev s)"

definition empty_stream :: canonical_event_stream where
  "empty_stream = \<lparr>es_metric_defs = [], es_sample_counts = []\<rparr>"

definition read_event_stream :: "(string \<Rightarrow> json option) \<Rightarrow> files \<Rightarrow> string \<Rightarrow> string + canonical_event_stream" where
  "read_event_stream from_str fs path =
     (case fs path of
        Inl e \<Rightarrow> Inl e
      | Inr raw \<Rightarrow> Inr (fold (read_line from_str) (lines_of raw) empty_stream))"

record wire_sidecar =
  ws_capacity :: u64
  ws_peak_occupancy :: u64
  ws_drops :: u64
  ws_per_metric :: "(string, u64) btm"

definition decode_drops :: "json \<Rightarrow> (u64 \<times> (string, u64) btm) option" where
  "decode_drops j =
     Option.bind (as_object j) (\<lambda>obj.
     Option.bind (field_or 0 as_u64 obj ''total'') (\<lambda>n.
     Option.bind (field_or [] (decode_object as_u64) obj ''per_metric'') (\<lambda>m. Some (n, m))))"

definition decode_sidecar :: "json \<Rightarrow> wire_sidecar option" where
  "decode_sidecar j =
     Option.bind (as_object j) (\<lambda>obj.
     Option.bind (field_or 0 as_u64 obj ''capacity'') (\<lambda>c.
     Option.bind (field_or 0 as_u64 obj ''peak_occupancy'') (\<lambda>p.
     Option.bind (Option.bind (map_of obj ''dropped_samples'') decode_drops) (\<lambda>(n, m).
       Some \<lparr>ws_capacity = c, ws_peak_occupancy = p, ws_drops = n, ws_per_metric = m\<rparr>))))"

definition read_sidecar_inner :: "(string \<Rightarrow> json option) \<Rightarrow> files \<Rightarrow> string \<Rightarrow> string + side_reliability" where
  "read_sidecar_inner from_str fs stream_path =
     (let p = stream_path @ ''.diagnostics.json''
      in case fs p of
           Inl e \<Rightarrow> Inl (''reading sidecar '' @ p @ '': '' @ e)
         | Inr content \<Rightarrow>
             (case Option.bind (from_str content) decode_sidecar of
                None \<Rightarrow> Inl (''parsing sidecar '' @ p)
              | Some parsed \<Rightarrow>
                  Inr \<lparr>sr_capacity = ws_capacity parsed, sr_peak_occupancy = ws_peak_occupancy parsed,
                       sr_drops_total = ws_drops parsed, sr_drops_per_metric = ws_per_metric parsed, sr_error = None\<rparr>))"

definition read_sidecar_tolerant :: "(string \<Rightarrow> json option) \<Rightarrow> files \<Rightarrow> string \<Rightarrow> side_reliability" where
  "read_sidecar_tolerant from_str fs path = (case read_sidecar_inner from_str fs path of Inr side \<Rightarrow> side | Inl _ \<Rightarrow> side_default)"

definition read_sidecar_required :: "(string \<Rightarrow> json option) \<Rightarrow> files \<Rightarrow> string \<Rightarrow> string + side_reliability" where
  "read_sidecar_required from_str fs path = read_sidecar_inner from_str fs path"

section \<open>What k6-rs writes\<close>

text \<open>The values \<open>serde\<close> derives for the tree of groups and for the lines of the event stream, as they are read
  back: objects are ordered by key.\<close>

definition summary_check_json :: "summary_check \<Rightarrow> json" where
  "summary_check_json c =
     JObject [(''fails'', JNumber (PosInt (sck_fails c))), (''id'', JString (sck_id c)), (''name'', JString (sck_name c)),
              (''passes'', JNumber (PosInt (sck_passes c))), (''path'', JString (sck_path c))]"

fun group_json :: "summary_group \<Rightarrow> json" where
  "group_json (SummaryGroup name path ident groups checks) =
     JObject [(''checks'', JObject (map (\<lambda>(k, c). (k, summary_check_json c)) checks)),
              (''groups'', JObject (map (\<lambda>(k, g). (k, group_json g)) groups)),
              (''id'', JString ident), (''name'', JString name), (''path'', JString path)]"

fun line_json :: "(int \<Rightarrow> string) \<Rightarrow> stream_line \<Rightarrow> json" where
  "line_json rfc3339 (MetricLine d) =
     JObject [(''data'', JObject [(''contains'', JString (def_contains d)), (''name'', JString (def_name d)),
                (''submetrics'', JNull), (''thresholds'', JArray []), (''type'', JString (kind_str (def_kind d)))]),
              (''metric'', JString (def_name d)), (''type'', JString ''Metric'')]"
| "line_json rfc3339 (PointLine e) =
     JObject [(''data'', JObject [(''tags'', JObject (map (\<lambda>(k, v). (k, JString v)) (ev_tags e))), (''time'', JString (rfc3339 (ev_time e))),
                (''value'', if is_finite (ev_value e) then JNumber (Float (ev_value e)) else JNull)]),
              (''metric'', JString (ev_name e)), (''type'', JString ''Point'')]"

section \<open>Reading the tree of groups\<close>

fun all_checks :: "summary_group \<Rightarrow> (string \<times> canonical_check) list" where
  "all_checks (SummaryGroup name path ident groups checks) =
     map (\<lambda>(k, c). (sck_path c, \<lparr>cc_name = sck_name c, cc_group_path = path, cc_id = sck_id c, cc_passes = sck_passes c, cc_fails = sck_fails c\<rparr>)) checks @
     concat (map (\<lambda>(k, g). all_checks g) groups)"

fun all_groups :: "bool \<Rightarrow> summary_group \<Rightarrow> (string \<times> canonical_group) list" where
  "all_groups is_root (SummaryGroup name path ident groups checks) =
     (if is_root then [] else [(path, \<lparr>cg_name = name, cg_path = path, cg_id = ident\<rparr>)]) @
     concat (map (\<lambda>(k, g). all_groups False g) groups)"

definition puts :: "(string \<times> 'a) list \<Rightarrow> (string, 'a) btm \<Rightarrow> (string, 'a) btm" where
  "puts ps m = fold (\<lambda>(k, v). bt_put k v) ps m"

lemma puts_simps [simp]: "puts [] m = m" "puts ((k, v) # ps) m = puts ps (bt_put k v m)" "puts (ps @ qs) m = puts qs (puts ps m)"
  by (simp_all add: puts_def)

lemma walk_check_json:
  "walk_check p (summary_check_json c) m =
     bt_put (sck_path c) \<lparr>cc_name = sck_name c, cc_group_path = p, cc_id = sck_id c, cc_passes = sck_passes c, cc_fails = sck_fails c\<rparr> m"
  by (simp add: walk_check_def summary_check_json_def str_or_empty_def u64_or_zero_def get_as_def Let_def)

lemma fold_checks:
  "fold (\<lambda>(_, c). walk_check p c) (map (\<lambda>(k, c). (k, summary_check_json c)) checks) m =
     puts (map (\<lambda>(k, c). (sck_path c, \<lparr>cc_name = sck_name c, cc_group_path = p, cc_id = sck_id c, cc_passes = sck_passes c, cc_fails = sck_fails c\<rparr>)) checks) m"
  by (induction checks arbitrary: m) (auto simp: walk_check_json)

lemma walk_group_json: "walk_group (group_json g) r (gm, cm) = (puts (all_groups r g) gm, puts (all_checks g) cm)"
proof (induction g arbitrary: r gm cm)
  case (SummaryGroup name path ident groups checks)
  let ?obj = "[(''checks'', JObject (map (\<lambda>(k, c). (k, summary_check_json c)) checks)),
              (''groups'', JObject (map (\<lambda>(k, g). (k, group_json g)) groups)),
              (''id'', JString ident), (''name'', JString name), (''path'', JString path)]"
  have o: "objects_of ?obj ''checks'' = map (\<lambda>(k, c). (k, summary_check_json c)) checks" "objects_of ?obj ''groups'' = map (\<lambda>(k, g). (k, group_json g)) groups"
    "str_or_empty ?obj ''path'' = path" "walk_self ?obj gm = bt_put path \<lparr>cg_name = name, cg_path = path, cg_id = ident\<rparr> gm"
    by (simp_all add: objects_of_def str_or_empty_def get_as_def walk_self_def)
  have "fold (\<lambda>p. walk_group (snd p) False) (map (\<lambda>(k, g). (k, group_json g)) gs) (gm', cm') =
      (puts (concat (map (\<lambda>(k, g). all_groups False g) gs)) gm', puts (concat (map (\<lambda>(k, g). all_checks g) gs)) cm')"
    if "set gs \<subseteq> set groups" for gs gm' cm'
    using that
  proof (induction gs arbitrary: gm' cm')
    case (Cons p gs)
    obtain k g where p: "p = (k, g)" by fastforce
    have "walk_group (group_json g) False (gm', cm') = (puts (all_groups False g) gm', puts (all_checks g) cm')"
      using SummaryGroup[of p g] Cons.prems by (simp add: p)
    then show ?case using Cons by (simp add: p)
  qed simp
  then show ?case by (simp add: o fold_checks Let_def)
qed


section \<open>From the registry to the canonical run\<close>

fun plain :: "'h group_node \<Rightarrow> bool" where
  "plain (GroupNode name path children checks dur) \<longleftrightarrow>
     list_all (\<lambda>(k, r). CHR '':'' \<notin> set k) checks \<and> list_all (\<lambda>(k, c). CHR '':'' \<notin> set k \<and> plain c) children"

definition check_of :: "(string \<Rightarrow> string) \<Rightarrow> string \<Rightarrow> string \<Rightarrow> check_record \<Rightarrow> canonical_check" where
  "check_of md5 path name r =
     \<lparr>cc_name = name, cc_group_path = path, cc_id = md5 (path @ ''::'' @ name), cc_passes = chk_passes r, cc_fails = chk_fails r\<rparr>"

definition tree_group :: "'h hdr \<Rightarrow> (string \<Rightarrow> string) \<Rightarrow> 'h group_node \<Rightarrow> summary_group" where
  "tree_group H md5 n = convert_group md5 (group_snapshot_of H n)"

lemma tree_group_node:
  "tree_group H md5 (GroupNode name path children checks dur) =
     SummaryGroup name path (md5 path) (map (\<lambda>(k, c). (k, tree_group H md5 c)) children)
       (map (\<lambda>(k, r). (k, \<lparr>sck_name = k, sck_path = path @ ''::'' @ k, sck_id = md5 (path @ ''::'' @ k), sck_passes = chk_passes r, sck_fails = chk_fails r\<rparr>)) checks)"
  by (simp add: tree_group_def comp_def case_prod_beta convert_check_def Let_def)

lemma in_map_concat:
  "(k, c) \<in> set (map (\<lambda>(s, r). (p s, q s r)) xs @ concat (map (\<lambda>(s, g). h g) ys)) \<longleftrightarrow>
     (\<exists>s r. (s, r) \<in> set xs \<and> k = p s \<and> c = q s r) \<or> (\<exists>s g. (s, g) \<in> set ys \<and> (k, c) \<in> set (h g))"
  by force

lemma all_checks_node:
  "all_checks (tree_group H md5 (GroupNode name path children checks dur)) =
     map (\<lambda>(s, r). (path @ ''::'' @ s, check_of md5 path s r)) checks @
     concat (map (\<lambda>(s, g). all_checks (tree_group H md5 g)) children)"
  by (simp add: tree_group_node check_of_def comp_def case_prod_unfold)

text \<open>The checks of a tree, each under the path of its group and its name.\<close>

lemma all_checks_iff:
  assumes "group_wf n"
  shows "(k, c) \<in> set (all_checks (tree_group H md5 n)) \<longleftrightarrow>
    (\<exists>segs m name r. cursor_get segs n = Some m \<and> map_of (gn_checks m) name = Some r \<and>
       k = gn_path m @ ''::'' @ name \<and> c = check_of md5 (gn_path m) name r)"
  using assms
proof (induction n)
  case (GroupNode name path children checks dur)
  have ih: "(k, c) \<in> set (all_checks (tree_group H md5 g)) \<longleftrightarrow>
      (\<exists>segs m name r. cursor_get segs g = Some m \<and> map_of (gn_checks m) name = Some r \<and>
         k = gn_path m @ ''::'' @ name \<and> c = check_of md5 (gn_path m) name r)" if "(s, g) \<in> set children" for s g
  proof -
    have "group_wf g" using GroupNode.prems that by auto
    then show ?thesis using GroupNode.IH[OF that, of g] by simp
  qed
  have d: "distinct (map fst children)" "distinct (map fst checks)" using GroupNode.prems bt_wf_distinct by auto
  have "(k, c) \<in> set (all_checks (tree_group H md5 (GroupNode name path children checks dur))) \<longleftrightarrow>
      (\<exists>s r. (s, r) \<in> set checks \<and> k = path @ ''::'' @ s \<and> c = check_of md5 path s r) \<or>
      (\<exists>s g. (s, g) \<in> set children \<and> (k, c) \<in> set (all_checks (tree_group H md5 g)))"
    by (simp only: all_checks_node in_map_concat)
  also have "\<dots> \<longleftrightarrow> (\<exists>s r. map_of checks s = Some r \<and> k = path @ ''::'' @ s \<and> c = check_of md5 path s r) \<or>
      (\<exists>s g. map_of children s = Some g \<and> (k, c) \<in> set (all_checks (tree_group H md5 g)))"
    using d by (simp add: map_of_eq_Some_iff)
  also have "\<dots> \<longleftrightarrow> (\<exists>segs m name' r. cursor_get segs (GroupNode name path children checks dur) = Some m \<and> map_of (gn_checks m) name' = Some r \<and>
       k = gn_path m @ ''::'' @ name' \<and> c = check_of md5 (gn_path m) name' r)" (is "?a \<or> ?b \<longleftrightarrow> ?c")
  proof
    assume "?a \<or> ?b"
    then show ?c
    proof
      assume ?a
      then show ?c by (intro exI[of _ "[]"]) auto
    next
      assume ?b
      then obtain s g where g: "map_of children s = Some g" "(k, c) \<in> set (all_checks (tree_group H md5 g))" by blast
      then obtain segs m name' r where "cursor_get segs g = Some m" "map_of (gn_checks m) name' = Some r"
        "k = gn_path m @ ''::'' @ name'" "c = check_of md5 (gn_path m) name' r" using ih[OF map_of_SomeD[OF g(1)]] by auto
      then show ?c using g(1) by (intro exI[of _ "s # segs"] exI[of _ m] exI[of _ name'] exI[of _ r]) simp
    qed
  next
    assume ?c
    then obtain segs m name' r where c: "cursor_get segs (GroupNode name path children checks dur) = Some m" "map_of (gn_checks m) name' = Some r"
      "k = gn_path m @ ''::'' @ name'" "c = check_of md5 (gn_path m) name' r" by auto
    show "?a \<or> ?b"
    proof (cases segs)
      case Nil
      then show ?thesis using c by auto
    next
      case (Cons s ss)
      then obtain g where g: "map_of children s = Some g" "cursor_get ss g = Some m" using c(1) by (auto split: option.splits)
      have "(k, c) \<in> set (all_checks (tree_group H md5 g))"
        unfolding ih[OF map_of_SomeD[OF g(1)]] using g(2) c(2-4) by blast
      then show ?thesis using g(1) by blast
    qed
  qed
  finally show ?case .
qed


lemma all_groups_iff:
  assumes "group_wf n"
  shows "(k, g) \<in> set (all_groups b (tree_group H md5 n)) \<longleftrightarrow>
    (\<exists>segs m. cursor_get segs n = Some m \<and> (b \<longrightarrow> segs \<noteq> []) \<and>
       k = gn_path m \<and> g = \<lparr>cg_name = gn_name m, cg_path = gn_path m, cg_id = md5 (gn_path m)\<rparr>)"
  using assms
proof (induction n arbitrary: b)
  case (GroupNode name path children checks dur)
  have ih: "(k, g) \<in> set (all_groups False (tree_group H md5 x)) \<longleftrightarrow>
      (\<exists>segs m. cursor_get segs x = Some m \<and> k = gn_path m \<and> g = \<lparr>cg_name = gn_name m, cg_path = gn_path m, cg_id = md5 (gn_path m)\<rparr>)"
    if "(s, x) \<in> set children" for s x
  proof -
    have "group_wf x" using GroupNode.prems that by auto
    then show ?thesis using GroupNode.IH[OF that, of x False] by simp
  qed
  let ?n = "GroupNode name path children checks dur"
  have d: "distinct (map fst children)" using GroupNode.prems bt_wf_distinct by auto
  have "(k, g) \<in> set (all_groups b (tree_group H md5 ?n)) \<longleftrightarrow>
      \<not> b \<and> k = path \<and> g = \<lparr>cg_name = name, cg_path = path, cg_id = md5 path\<rparr> \<or>
      (\<exists>s x. map_of children s = Some x \<and> (k, g) \<in> set (all_groups False (tree_group H md5 x)))"
    using map_of_eq_Some_iff[OF d] by (force simp: tree_group_node)
  also have "\<dots> \<longleftrightarrow> (\<exists>segs m. cursor_get segs ?n = Some m \<and> (b \<longrightarrow> segs \<noteq> []) \<and>
       k = gn_path m \<and> g = \<lparr>cg_name = gn_name m, cg_path = gn_path m, cg_id = md5 (gn_path m)\<rparr>)" (is "?a \<or> ?b \<longleftrightarrow> ?c")
  proof
    assume "?a \<or> ?b"
    then show ?c
    proof
      assume ?a
      then show ?c by (intro exI[of _ "[]"]) auto
    next
      assume ?b
      then obtain s x where x: "map_of children s = Some x" "(k, g) \<in> set (all_groups False (tree_group H md5 x))" by blast
      then obtain segs m where "cursor_get segs x = Some m" "k = gn_path m" "g = \<lparr>cg_name = gn_name m, cg_path = gn_path m, cg_id = md5 (gn_path m)\<rparr>"
        using ih[OF map_of_SomeD[OF x(1)]] by auto
      then show ?c using x(1) by (intro exI[of _ "s # segs"] exI[of _ m]) simp
    qed
  next
    assume ?c
    then obtain segs m where c: "cursor_get segs ?n = Some m" "b \<longrightarrow> segs \<noteq> []" "k = gn_path m"
      "g = \<lparr>cg_name = gn_name m, cg_path = gn_path m, cg_id = md5 (gn_path m)\<rparr>" by auto
    show "?a \<or> ?b"
    proof (cases segs)
      case Nil
      then show ?thesis using c by auto
    next
      case (Cons s ss)
      then obtain x where x: "map_of children s = Some x" "cursor_get ss x = Some m" using c(1) by (auto split: option.splits)
      have "(k, g) \<in> set (all_groups False (tree_group H md5 x))"
        unfolding ih[OF map_of_SomeD[OF x(1)]] using x(2) c(3,4) by blast
      then show ?thesis using x(1) by blast
    qed
  qed
  finally show ?case .
qed

text \<open>Names without colons make the path of a check or group unambiguous.\<close>

lemma path_text_inj:
  "list_all (\<lambda>s. CHR '':'' \<notin> set s) as \<Longrightarrow> list_all (\<lambda>s. CHR '':'' \<notin> set s) bs \<Longrightarrow> path_text as = path_text bs \<Longrightarrow> as = bs"
proof (induction as arbitrary: bs)
  case (Cons a as)
  then obtain b bs' where b: "bs = b # bs'" by (cases bs) (auto simp: path_text_def)
  have e: "a @ path_text as = b @ path_text bs'" using Cons.prems(3) by (simp add: b path_text_def)
  have h: "path_text xs = [] \<or> (\<exists>r. path_text xs = CHR '':'' # r)" for xs by (cases xs) (auto simp: path_text_def)
  have t: "takeWhile (\<lambda>c. c \<noteq> CHR '':'') (x @ path_text xs) = x" if "CHR '':'' \<notin> set x" for x xs
    using that h[of xs] by (auto simp: takeWhile_append2 takeWhile_absent takeWhile_sep)
  have "a = b" using t[of a as] t[of b bs'] e Cons.prems by (simp add: b)
  then show ?case using Cons.IH[of bs'] Cons.prems e by (simp add: b)
next
  case Nil
  then show ?case by (cases bs) (auto simp: path_text_def)
qed

lemma plain_cursor:
  "plain n \<Longrightarrow> cursor_get segs n = Some m \<Longrightarrow>
     list_all (\<lambda>s. CHR '':'' \<notin> set s) segs \<and> plain m"
proof (induction segs arbitrary: n)
  case (Cons s ss)
  obtain name path children checks dur where n: "n = GroupNode name path children checks dur" by (cases n)
  then obtain c where "map_of children s = Some c" "cursor_get ss c = Some m" using Cons.prems(2) by (auto split: option.splits)
  then have "cursor_get ss c = Some m" "CHR '':'' \<notin> set s \<and> plain c"
    using Cons.prems(1) by (auto simp: n list_all_iff dest!: map_of_SomeD)
  then show ?case using Cons.IH[of c] by simp
qed simp

lemma plain_check: "plain m \<Longrightarrow> map_of (gn_checks m) name = Some r \<Longrightarrow> CHR '':'' \<notin> set name"
  by (cases m) (auto simp: list_all_iff dest: map_of_SomeD)

lemma path_text_snoc: "path_text (segs @ [name]) = path_text segs @ ''::'' @ name"
  by (simp add: path_text_def)

lemma map_of_unique:
  assumes "\<And>c c'. (k, c) \<in> set ps \<Longrightarrow> (k, c') \<in> set ps \<Longrightarrow> c = c'"
  shows "map_of (puts ps []) k = Some c \<longleftrightarrow> (k, c) \<in> set ps"
proof -
  have "map_of (puts ps []) k = map_of (rev ps) k"
    unfolding puts_def by (simp add: bt.get_puts split: option.splits)
  also have "map_of (rev ps) k = Some c \<longleftrightarrow> (k, c) \<in> set ps"
  proof
    assume "(k, c) \<in> set ps"
    moreover from this obtain c' where c': "map_of (rev ps) k = Some c'" by (cases "map_of (rev ps) k") (force simp: map_of_eq_None_iff)+
    ultimately have "c' = c" using assms[of c' c] map_of_SomeD[OF c'] by simp
    then show "map_of (rev ps) k = Some c" using c' by simp
  qed (auto dest: map_of_SomeD)
  finally show ?thesis .
qed

lemma option_ext: "(\<And>v. x = Some v \<longleftrightarrow> y = Some v) \<Longrightarrow> x = y"
  by (cases x; cases y) auto

definition plain_tree :: "'h group_node \<Rightarrow> bool" where
  "plain_tree n \<longleftrightarrow> group_wf n \<and> gn_path n = [] \<and> plain n"

lemma tree_path: "plain_tree n \<Longrightarrow> cursor_get segs n = Some m \<Longrightarrow> gn_path m = path_text segs"
  using cursor_path[of n segs m] by (simp add: plain_tree_def)

lemma check_at_path:
  assumes "plain_tree n" "list_all (\<lambda>s. CHR '':'' \<notin> set s) (segs @ [name])"
  shows "(path_text (segs @ [name]), c) \<in> set (all_checks (tree_group H md5 n)) \<longleftrightarrow>
      Option.bind (cursor_get segs n) (\<lambda>m. map_option (check_of md5 (path_text segs) name) (map_of (gn_checks m) name)) = Some c"
    (is "?l \<longleftrightarrow> ?r")
proof
  assume ?l
  then obtain ss m nm r where m: "cursor_get ss n = Some m" "map_of (gn_checks m) nm = Some r"
    "path_text (segs @ [name]) = gn_path m @ ''::'' @ nm" "c = check_of md5 (gn_path m) nm r"
    using all_checks_iff[of n] assms(1) unfolding plain_tree_def by blast
  have "list_all (\<lambda>s. CHR '':'' \<notin> set s) (ss @ [nm])"
    using assms(1) plain_cursor[OF _ m(1)] plain_check[OF _ m(2)] by (simp add: plain_tree_def)
  moreover have "path_text (ss @ [nm]) = path_text (segs @ [name])" using m(3) tree_path[OF assms(1) m(1)] by (simp add: path_text_snoc)
  ultimately have "ss @ [nm] = segs @ [name]" using path_text_inj assms(2) by blast
  then show ?r using m tree_path[OF assms(1) m(1)] by simp
next
  assume ?r
  then obtain m r where m: "cursor_get segs n = Some m" "map_of (gn_checks m) name = Some r" "c = check_of md5 (path_text segs) name r"
    by (cases "cursor_get segs n"; cases "map_of (gn_checks (the (cursor_get segs n))) name") auto
  have "path_text (segs @ [name]) = gn_path m @ ''::'' @ name" "c = check_of md5 (gn_path m) name r"
    using m(3) tree_path[OF assms(1) m(1)] by (simp_all add: path_text_snoc)
  then show ?l using m(1,2) all_checks_iff[of n] assms(1) unfolding plain_tree_def by blast
qed

definition group_of :: "(string \<Rightarrow> string) \<Rightarrow> 'h group_node \<Rightarrow> canonical_group" where
  "group_of md5 m = \<lparr>cg_name = gn_name m, cg_path = gn_path m, cg_id = md5 (gn_path m)\<rparr>"

lemma group_at_path:
  assumes "plain_tree n" "list_all (\<lambda>s. CHR '':'' \<notin> set s) segs" "segs \<noteq> []"
  shows "(path_text segs, g) \<in> set (all_groups True (tree_group H md5 n)) \<longleftrightarrow> map_option (group_of md5) (cursor_get segs n) = Some g"
    (is "?l \<longleftrightarrow> ?r")
proof
  assume ?l
  then obtain ss m where m: "cursor_get ss n = Some m" "path_text segs = gn_path m" "g = group_of md5 m"
    using all_groups_iff[of n _ _ True] assms(1) unfolding plain_tree_def group_of_def by blast
  have "list_all (\<lambda>s. CHR '':'' \<notin> set s) ss" using assms(1) plain_cursor[OF _ m(1)] by (simp add: plain_tree_def)
  moreover have "path_text ss = path_text segs" using m(2) tree_path[OF assms(1) m(1)] by simp
  ultimately have "ss = segs" using path_text_inj assms(2) by blast
  then show ?r using m by simp
next
  assume ?r
  then obtain m where "cursor_get segs n = Some m" "g = group_of md5 m" by auto
  then show ?l
    using all_groups_iff[of n _ _ True] assms(1,3) tree_path[OF assms(1)] unfolding plain_tree_def group_of_def by metis
qed

text \<open>The harness sees the checks and groups the registry holds.  Reading back the tree of groups k6-rs writes into
  its summary, each check is found under the path of its group and its name, with the counters of the
  registry, and each group under its path, when no name contains a colon.\<close>

lemma adapter_reads_registry:
  assumes "plain_tree tree" "list_all (\<lambda>s. CHR '':'' \<notin> set s) (segs @ [name])"
    and "collect_root_group_tree (group_json (convert_group md5 (group_snapshot_of H tree))) ([], []) = (groups, checks)"
  shows "map_of checks (path_text (segs @ [name])) =
      Option.bind (cursor_get segs tree) (\<lambda>m. map_option (check_of md5 (path_text segs) name) (map_of (gn_checks m) name)) \<and>
    map_of groups (path_text (segs @ [name])) = map_option (group_of md5) (cursor_get (segs @ [name]) tree)"
proof -
  have r: "groups = puts (all_groups True (tree_group H md5 tree)) []" "checks = puts (all_checks (tree_group H md5 tree)) []"
    using assms(3) by (simp_all add: collect_root_group_tree_def walk_group_json tree_group_def)
  have "map_of checks (path_text (segs @ [name])) = Some v \<longleftrightarrow> (path_text (segs @ [name]), v) \<in> set (all_checks (tree_group H md5 tree))" for v
    unfolding r by (rule map_of_unique) (simp add: check_at_path[OF assms(1,2)])
  moreover have "map_of groups (path_text (segs @ [name])) = Some v \<longleftrightarrow> (path_text (segs @ [name]), v) \<in> set (all_groups True (tree_group H md5 tree))" for v
    unfolding r by (rule map_of_unique) (auto simp: group_at_path[OF assms(1,2)])
  ultimately show ?thesis
    by (intro conjI option_ext) (simp_all only: check_at_path[OF assms(1,2)] group_at_path[OF assms(1,2)] snoc_eq_iff_butlast not_False_eq_True append_is_Nil_conv list.distinct simp_thms)
qed

definition sample_tree :: "u64 list group_node" where
  "sample_tree = check_add list_hdr ''::g'' ''ok'' True (check_add list_hdr [] ''ok'' False (group_root list_hdr))"

text \<open>With colons in names two checks can share a path, and the canonical run keeps one of them: \<open>x::y\<close> at the root and
  \<open>y\<close> in the group \<open>x\<close>.\<close>

lemma colliding_checks:
  "let tree = check_add list_hdr ''::x'' ''y'' True (check_add list_hdr [] ''x::y'' False (group_root list_hdr));
       checks = snd (collect_root_group_tree (group_json (convert_group (\<lambda>p. p) (group_snapshot_of list_hdr tree))) ([], []))
   in check_get [] ''x::y'' tree = (0, 1) \<and> check_get ''::x'' ''y'' tree = (1, 0) \<and> length checks = 1"
  by code_simp

section \<open>From the writer to the canonical stream\<close>

definition sidecar_json :: "drop_state \<Rightarrow> json" where
  "sidecar_json d =
     JObject [(''capacity'', JNumber (PosInt (drop_capacity d))),
              (''dropped_samples'', JObject [(''per_metric'', JObject (map (\<lambda>(k, n). (k, JNumber (PosInt n))) (drop_per_metric d))),
                                             (''total'', JNumber (PosInt (drop_total d)))]),
              (''peak_occupancy'', JNumber (PosInt (peak_occupancy d)))]"

text \<open>A printed line reads back as the same event (numbers may differ in the last digit), has no line break in it and
  no white space at its ends.\<close>

definition carried :: "(string \<Rightarrow> json option) \<Rightarrow> (json \<Rightarrow> string) \<Rightarrow> json \<Rightarrow> bool" where
  "carried from_str print j \<longleftrightarrow> Option.bind (from_str (print j)) decode_event = decode_event j \<and>
     CHR 0x0A \<notin> set (print j) \<and> print j \<noteq> [] \<and> trim (print j) = print j"

lemma trimmed_last: "trim s = s \<Longrightarrow> s \<noteq> [] \<Longrightarrow> last s \<noteq> CHR 0x0D"
proof
  assume a: "trim s = s" "s \<noteq> []" "last s = CHR 0x0D"
  have "ws_front p q (CHR 0x0D # r)" for p q r by (cases r; cases "tl r") (simp_all add: ascii_ws_def neq_Nil_conv)
  then have "back_ws s" using a(2,3) by (cases s rule: rev_cases) simp_all
  moreover have "\<not> back_ws s" using trim_back[of s] a(1) by simp
  ultimately show False by simp
qed

lemma lines_of_written:
  assumes "\<forall>t \<in> set ts. CHR 0x0A \<notin> set t \<and> t \<noteq> [] \<and> trim t = t"
  shows "lines_of (concat (map (\<lambda>t. t @ [CHR 0x0A]) ts)) = ts"
  using assms trimmed_last by (intro lines_of_terminated) auto

fun wire_of :: "stream_line \<Rightarrow> wire_event" where
  "wire_of (MetricLine d) = \<lparr>we_event_type = ''Metric'', we_metric = def_name d,
     we_data = Some \<lparr>wd_metric_type = kind_str (def_kind d), wd_contains = Some (def_contains d)\<rparr>\<rparr>"
| "wire_of (PointLine e) = \<lparr>we_event_type = ''Point'', we_metric = ev_name e, we_data = Some \<lparr>wd_metric_type = [], wd_contains = None\<rparr>\<rparr>"

lemma decode_line: "decode_event (line_json rfc3339 l) = Some (wire_of l)"
  by (cases l) (simp_all add: decode_event_def decode_metric_data_def get_as_def field_or_def)

lemma read_lines:
  assumes "\<forall>l \<in> set ls. carried from_str print (line_json rfc3339 l)"
  shows "fold (read_line from_str) (map (\<lambda>l. print (line_json rfc3339 l)) ls) st = fold (\<lambda>l. read_event (wire_of l)) ls st"
  using assms by (induction ls arbitrary: st) (auto simp: read_line_def carried_def decode_line Let_def)

definition kind_tag_of :: "metric_kind \<Rightarrow> kind_tag" where
  "kind_tag_of k = (case k of Counter \<Rightarrow> TagCounter | Gauge \<Rightarrow> TagGauge | Rate \<Rightarrow> TagRate | Trend \<Rightarrow> TagTrend)"

lemma kind_tag_parse_str: "kind_tag_parse (kind_str k) = Some (kind_tag_of k)" "kind_tag_parse (kind_tag_str t) = Some t"
  by (cases k; simp add: kind_tag_of_def) (cases t; simp)

declare kind_tag_parse.simps [simp del]

text \<open>The counts and definitions a list of lines gives.\<close>

definition samples_of :: "string \<Rightarrow> sink_event list \<Rightarrow> nat" where
  "samples_of name es = length (filter (\<lambda>e. ev_name e = name) es)"

definition count_entry :: "nat \<Rightarrow> u64 option" where
  "count_entry n = (if n = 0 then None else Some (of_nat n))"

lemma counts_read:
  assumes "bt_wf (es_sample_counts st)" "map_of (es_sample_counts st) name = count_entry n"
  shows "map_of (es_sample_counts (fold (\<lambda>l. read_event (wire_of l)) ls st)) name = count_entry (n + samples_of name (file_points ls))"
  using assms
proof (induction ls arbitrary: st n)
  case (Cons l ls)
  show ?case
  proof (cases l)
    case (MetricLine d)
    have "es_sample_counts (read_event (wire_of l) st) = es_sample_counts st"
      by (simp add: MetricLine read_event_def kind_tag_parse_str)
    then show ?thesis using Cons.IH[of "read_event (wire_of l) st" n] Cons.prems by (simp add: MetricLine file_points_def)
  next
    case (PointLine e)
    have c: "es_sample_counts (read_event (wire_of l) st) =
        bt_put (ev_name e) ((case map_of (es_sample_counts st) (ev_name e) of None \<Rightarrow> 0 | Some n \<Rightarrow> n) + 1) (es_sample_counts st)"
      by (simp add: PointLine read_event_def)
    have "map_of (es_sample_counts (read_event (wire_of l) st)) name = count_entry (n + (if ev_name e = name then 1 else 0))"
      using Cons.prems by (auto simp: c bt_get_put count_entry_def)
    moreover have "bt_wf (es_sample_counts (read_event (wire_of l) st))" using Cons.prems(1) by (simp add: c)
    ultimately have "map_of (es_sample_counts (fold (\<lambda>l. read_event (wire_of l)) ls (read_event (wire_of l) st))) name =
        count_entry (n + (if ev_name e = name then 1 else 0) + samples_of name (file_points ls))" by (rule Cons.IH[rotated])
    moreover have "samples_of name (file_points (l # ls)) = (if ev_name e = name then 1 else 0) + samples_of name (file_points ls)"
      by (simp add: PointLine file_points_def samples_of_def)
    ultimately show ?thesis by (simp only: fold_simps ac_simps)
  qed
qed (simp add: samples_of_def)

lemma defs_read:
  assumes "bt_wf (es_metric_defs st)"
  shows "dom (map_of (es_metric_defs (fold (\<lambda>l. read_event (wire_of l)) ls st))) = dom (map_of (es_metric_defs st)) \<union> set (file_defs ls)"
  using assms
proof (induction ls arbitrary: st)
  case (Cons l ls)
  have "bt_wf (es_metric_defs (read_event (wire_of l) st)) \<and>
      dom (map_of (es_metric_defs (read_event (wire_of l) st))) = dom (map_of (es_metric_defs st)) \<union> set (line_def l)"
    using Cons.prems by (cases l) (auto simp: read_event_def kind_tag_parse_str bt_get_put)
  then show ?case using Cons.IH[of "read_event (wire_of l) st"] by (auto simp: file_defs_def)
qed simp

lemma offered_bound:
  assumes "\<forall>ev ch. snd (mp_try_send M ev ch) \<noteq> Closed"
  shows "stream_reach M c cap s \<Longrightarrow> mset (accepted s) + mset (in_flight s) \<subseteq># mset (offered s)"
proof (induction rule: stream_reach.induct)
  case init
  show ?case by (simp add: stream_init_def)
next
  case (step s t)
  from step.hyps(2) show ?case
  proof cases
    case (record_point ev k r)
    then have f: "mset (in_flight s) = add_mset ev (mset (remove1 ev (in_flight s)))" by simp
    have "mset (accepted t) + mset (in_flight t) \<subseteq># mset (accepted s) + mset (in_flight s)"
      unfolding record_point(1) f by simp
    then show ?thesis using subset_mset.order_trans[OF _ step.IH] record_point(1) by simp
  qed (use step.IH in auto)
qed

lemma defs_cover: "defs_precede S ls \<Longrightarrow> ev_name ` set (file_points ls) \<subseteq> S \<union> set (file_defs ls)"
  by (induction S ls rule: defs_precede.induct) (auto simp: file_points_def file_defs_def)


lemma complete_without_drops:
  assumes "\<forall>ev ch. snd (mp_try_send M ev ch) \<noteq> Closed" "stream_reach M c cap s" "in_flight s = []" "length (offered s) < 2 ^ 64"
    and "drop_total (snk_drops (sys_sink s)) = 0"
  shows "mset (accepted s) = mset (offered s)"
proof -
  have sub: "mset (accepted s) \<subseteq># mset (offered s)" using offered_bound[OF assms(1,2)] assms(3) by simp
  then have le: "length (accepted s) \<le> length (offered s)" using size_mset_mono by fastforce
  have "(of_nat (length (offered s)) :: u64) = of_nat (length (accepted s))"
    using account_inv_reach[OF assms(1,2)] assms(3,5) by (simp add: account_inv_def)
  then have "length (offered s) = length (accepted s)"
    using le assms(4) unfolding word_of_nat_eq_iff by (simp add: take_bit_nat_eq_self)
  then show ?thesis using sub by (metis mset_subset_size size_mset subset_mset.le_imp_less_or_eq less_irrefl)
qed

lemma decode_counts: "\<exists>r. decode_map as_u64 (map (\<lambda>(k, n). (k, JNumber (PosInt n))) m) = Some r"
  by (induction m) auto

lemma sidecar_read:
  assumes "fs (path @ ''.diagnostics.json'') = Inr (print_pretty (sidecar_json d))"
    and "Option.bind (from_str (print_pretty (sidecar_json d))) decode_sidecar = decode_sidecar (sidecar_json d)"
  shows "\<exists>side. read_sidecar_required from_str fs path = Inr side \<and> sr_drops_total side = drop_total d \<and> sr_error side = None"
proof -
  obtain r where r: "decode_map as_u64 (map (\<lambda>(k, n). (k, JNumber (PosInt n))) (drop_per_metric d)) = Some r" using decode_counts by blast
  have "decode_sidecar (sidecar_json d) =
      Some \<lparr>ws_capacity = drop_capacity d, ws_peak_occupancy = peak_occupancy d, ws_drops = drop_total d, ws_per_metric = r\<rparr>"
    by (simp add: decode_sidecar_def sidecar_json_def decode_drops_def field_or_def decode_object_def r)
  then show ?thesis using assms by (simp add: read_sidecar_required_def read_sidecar_inner_def Let_def)
qed

text \<open>C16.  A stream that counts as reliable is complete.  When the writer of k6-rs has stopped, in whatever interleaving
  with the producers, the harness reads from its file exactly the accepted samples of each metric and a
  definition for each, and from the sidecar the number of dropped samples; if it takes the side for
  reliable, every sample offered was accepted, so its counts are those of the run.\<close>

theorem reliable_stream_complete:
  assumes ch: "fifo_channel M buf" "buf c = []" "\<forall>ev ch. snd (mp_try_send M ev ch) \<noteq> Closed"
    and run: "stream_reach M c cap s" "phase s = Done" "length (offered s) < 2 ^ 64"
    and files: "fs path = Inr (concat (map (\<lambda>l. print (line_json rfc3339 l) @ [CHR 0x0A]) (out_file s)))"
      "fs (path @ ''.diagnostics.json'') = Inr (print_pretty (sidecar_json (snk_drops (sys_sink s))))"
    and wire: "list_all (\<lambda>l. carried from_str print (line_json rfc3339 l)) (out_file s)"
      "Option.bind (from_str (print_pretty (sidecar_json (snk_drops (sys_sink s))))) decode_sidecar = decode_sidecar (sidecar_json (snk_drops (sys_sink s)))"
  shows "\<exists>st side. read_event_stream from_str fs path = Inr st \<and> read_sidecar_required from_str fs path = Inr side \<and>
    map_of (es_sample_counts st) name = count_entry (samples_of name (accepted s)) \<and>
    ev_name ` set (accepted s) \<subseteq> dom (map_of (es_metric_defs st)) \<and>
    sr_drops_total side = drop_total (snk_drops (sys_sink s)) \<and>
    (if side_unreliable side then True else mset (accepted s) = mset (offered s))"
proof -
  let ?d = "snk_drops (sys_sink s)"
  let ?st = "fold (\<lambda>l. read_event (wire_of l)) (out_file s) empty_stream"
  have pts: "file_points (out_file s) = accepted s" "in_flight s = []"
    using flow_inv_reach[OF ch(1,2) run(1)] run(2) by (auto simp: flow_inv_def)
  have lines: "lines_of (concat (map (\<lambda>l. print (line_json rfc3339 l) @ [CHR 0x0A]) (out_file s))) = map (\<lambda>l. print (line_json rfc3339 l)) (out_file s)"
    using lines_of_written[of "map (\<lambda>l. print (line_json rfc3339 l)) (out_file s)"] wire(1) by (simp add: comp_def carried_def list_all_iff)
  have st: "read_event_stream from_str fs path = Inr ?st"
    using read_lines[of "out_file s" from_str print rfc3339] wire(1) by (simp add: read_event_stream_def files(1) lines list_all_iff)
  obtain side where side: "read_sidecar_required from_str fs path = Inr side" "sr_drops_total side = drop_total ?d" "sr_error side = None"
    using sidecar_read[of fs path print_pretty ?d from_str] files(2) wire(2) by blast
  have "map_of (es_sample_counts ?st) name = count_entry (samples_of name (accepted s))"
    using counts_read[of empty_stream name 0 "out_file s"] by (simp add: empty_stream_def count_entry_def pts)
  moreover have "ev_name ` set (accepted s) \<subseteq> dom (map_of (es_metric_defs ?st))"
    using def_inv_reach[OF ch(1,2) run(1)] defs_cover[of "{}" "out_file s"] defs_read[of empty_stream "out_file s"]
    by (simp add: def_inv_def Let_def pts empty_stream_def)
  moreover have "mset (accepted s) = mset (offered s)" if "\<not> side_unreliable side"
    using complete_without_drops[OF ch(3) run(1) pts(2) run(3)] that side by (simp add: side_unreliable_def word_gt_0)
  ultimately show ?thesis using st side by auto
qed


definition example_print :: "json \<Rightarrow> string" where
  "example_print j = (if j = line_json (\<lambda>_. ''t'') (PointLine example_event) then ''p'' else ''d'')"

definition example_from_str :: "string \<Rightarrow> json option" where
  "example_from_str s =
     (if s = ''p'' then Some (line_json (\<lambda>_. ''t'') (PointLine example_event))
      else if s = ''d'' then Some (line_json (\<lambda>_. ''t'') (hd (out_file example_final)))
      else if s = ''s'' then Some (sidecar_json (drop_state_new 1))
      else None)"

definition example_files :: files where
  "example_files path =
     (if path = ''o'' then Inr (''d'' @ [CHR 0x0A] @ ''p'' @ [CHR 0x0A]) else if path = ''o.diagnostics.json'' then Inr ''s'' else Inl ''missing'')"

theorem reliable_stream_complete_witness:
  "\<exists>st side. read_event_stream example_from_str example_files ''o'' = Inr st \<and> read_sidecar_required example_from_str example_files ''o'' = Inr side \<and>
     map_of (es_sample_counts st) ''vus'' = Some 1 \<and> sr_drops_total side = 0"
proof -
  let ?line = "line_json (\<lambda>_. ''t'')"
  have d: "phase example_final = Done" "length (offered example_final) < 2 ^ 64" "snk_drops (sys_sink example_final) = drop_state_new 1"
    "accepted example_final = [example_event]" by (simp_all add: example_final_def)
  have o: "out_file example_final = [MetricLine \<lparr>def_name = ''vus'', def_kind = Gauge, def_contains = ''default''\<rparr>, PointLine example_event]"
    by (simp add: example_final_def)
  have ne: "example_print (?line (hd (out_file example_final))) = ''d''" "example_print (?line (PointLine example_event)) = ''p''"
    by (simp_all add: example_print_def o)
  have f: "example_files ''o'' = Inr (concat (map (\<lambda>l. example_print (?line l) @ [CHR 0x0A]) (out_file example_final)))"
    using ne by (simp add: example_files_def o)
  have t: "trim ''d'' = ''d''" "trim ''p'' = ''p''" by code_simp+
  have w: "list_all (\<lambda>l. carried example_from_str example_print (?line l)) (out_file example_final)"
    using ne t by (simp add: o carried_def example_from_str_def)
  have sc: "example_files (''o'' @ ''.diagnostics.json'') = Inr ((\<lambda>_. ''s'') (sidecar_json (snk_drops (sys_sink example_final))))"
    by (simp add: example_files_def)
  have dc: "Option.bind (example_from_str ((\<lambda>_. ''s'') (sidecar_json (snk_drops (sys_sink example_final))))) decode_sidecar = decode_sidecar (sidecar_json (snk_drops (sys_sink example_final)))"
    unfolding d(3) by (simp add: example_from_str_def)
  have n: "count_entry (samples_of ''vus'' [example_event]) = Some 1" by (simp add: count_entry_def samples_of_def example_event_def)
  show ?thesis
    using reliable_stream_complete[OF list_channel_fifo id_apply list_channel_open example_reach d(1,2) f sc w dc, of "''vus''"]
    unfolding d(3,4) n by (auto simp: drop_state_new_def)
qed

end
