(* ===== verification/Conform.thy ===== *)
theory Conform
  imports Adapters
begin

text \<open>
  The conformance harness (\<open>crates/k6-conformance/src/\<close>): tolerances and expectations (\<open>expectations.rs\<close>), the
  comparison of two runs (\<open>diff/\<close>), the verdict and the report (\<open>report.rs\<close>) and the runner (\<open>runner.rs\<close>).
  The texts of findings are kept as data; the TOML reader, the file system and the two programs are
  parameters.
\<close>

section \<open>Expectations\<close>

datatype tolerance = Exact | Relative f64 | Ignore

datatype conform_error = BadTolerance string | BadToml | BadFile string | AdaptFailed adapt_error | NoScripts

definition tolerance_parse :: "string \<Rightarrow> conform_error + tolerance" where
  "tolerance_parse s =
     (if s = ''exact'' then Inr Exact
      else if s = ''ignore'' then Inr Ignore
      else if starts_with ''relative:'' s then
        (case parse_f64 (drop (length ''relative:'') s) of None \<Rightarrow> Inl (BadTolerance s) | Some v \<Rightarrow> Inr (Relative v))
      else Inl (BadTolerance s))"

record tolerance_profile =
  tp_count :: tolerance
  tp_rate :: tolerance
  tp_trend :: tolerance

record raw_override =
  ro_count :: "string option"
  ro_rate :: "string option"
  ro_trend :: "string option"

record expectations =
  ex_exit_code :: int
  ex_vus :: "u32 option"
  ex_iterations :: "u64 option"
  ex_duration :: "string option"
  ex_default_counter :: tolerance
  ex_default_trend :: tolerance
  ex_overrides :: "(string, raw_override) btm"
  ex_known_drift :: "(string, string) btm"

record raw_expectations =
  rx_exit_code :: "int option"
  rx_vus :: "u32 option"
  rx_iterations :: "u64 option"
  rx_duration :: "string option"
  rx_default_counter :: "string option"
  rx_default_trend :: "string option"
  rx_overrides :: "(string, raw_override) btm option"
  rx_known_drift :: "(string, string) btm option"

definition or_else :: "'a \<Rightarrow> 'a option \<Rightarrow> 'a" where
  "or_else d x = (case x of None \<Rightarrow> d | Some v \<Rightarrow> v)"

definition expectations_load :: "(string \<Rightarrow> raw_expectations option) \<Rightarrow> files \<Rightarrow> string \<Rightarrow> conform_error + expectations" where
  "expectations_load toml fs path =
     (case fs path of
        Inl e \<Rightarrow> Inl (BadFile e)
      | Inr raw \<Rightarrow>
          (case toml raw of
             None \<Rightarrow> Inl BadToml
           | Some parsed \<Rightarrow>
               bind_r (tolerance_parse (or_else ''exact'' (rx_default_counter parsed))) (\<lambda>counter.
               bind_r (tolerance_parse (or_else ''relative:0.05'' (rx_default_trend parsed))) (\<lambda>trend.
                 Inr \<lparr>ex_exit_code = or_else 0 (rx_exit_code parsed), ex_vus = rx_vus parsed, ex_iterations = rx_iterations parsed,
                      ex_duration = rx_duration parsed, ex_default_counter = counter, ex_default_trend = trend,
                      ex_overrides = or_else [] (rx_overrides parsed), ex_known_drift = or_else [] (rx_known_drift parsed)\<rparr>))))"

definition override_or :: "tolerance \<Rightarrow> string option \<Rightarrow> tolerance" where
  "override_or d s = (case s of None \<Rightarrow> d | Some v \<Rightarrow> (case tolerance_parse v of Inr t \<Rightarrow> t | Inl _ \<Rightarrow> d))"

definition tolerance_for :: "expectations \<Rightarrow> string \<Rightarrow> tolerance_profile" where
  "tolerance_for e selector =
     (let ov = map_of (ex_overrides e) selector
      in \<lparr>tp_count = override_or (ex_default_counter e) (Option.bind ov ro_count),
          tp_rate = override_or (ex_default_trend e) (Option.bind ov ro_rate),
          tp_trend = override_or (ex_default_trend e) (Option.bind ov ro_trend)\<rparr>)"

definition is_known_drift :: "expectations \<Rightarrow> string \<Rightarrow> bool" where
  "is_known_drift e selector \<longleftrightarrow> map_of (ex_known_drift e) selector \<noteq> None"

section \<open>Comparison\<close>

datatype finding_kind =
  MissingMetric | Drift | ExitCode | KindMismatch | MissingCheck | CheckCountMismatch | CheckIdMismatch | MissingGroup
| GroupIdMismatch | MissingMetricDef | MetricKindMismatch | MetricContainsMismatch | SampleCountMismatch | StreamFileError
| SidecarUnreadable

text \<open>What a finding reports, in place of its text.\<close>

datatype detail =
  ExitCodes int int | OneSided | KindsDiffer | OutOfTolerance string f64 f64 tolerance
| Counts u64 u64 u64 u64 | Ids string string | Tags kind_tag kind_tag | ContainsDiffer string string
| Problem string | Unexpected int int

record diff_finding =
  df_kind :: finding_kind
  df_selector :: string
  df_detail :: detail

definition finding :: "finding_kind \<Rightarrow> string \<Rightarrow> detail \<Rightarrow> diff_finding" where
  "finding k s d = \<lparr>df_kind = k, df_selector = s, df_detail = d\<rparr>"

definition f_epsilon :: f64 where
  "f_epsilon = flit (1 / 2 ^ 52)"

text \<open>\<open>f64::max\<close>: the other operand where one is NaN.\<close>

definition f_max_of :: "f64 \<Rightarrow> f64 \<Rightarrow> f64" where
  "f_max_of a b = (if a = F64_NaN then b else if b = F64_NaN then a else if flt a b then b else a)"

definition relative_drift :: "f64 \<Rightarrow> f64 \<Rightarrow> f64" where
  "relative_drift a b =
     (let mag = f_max_of (f_abs a) (f_abs b)
      in if flt mag f_epsilon then f0 else fdiv (f_abs (fsub a b)) mag)"

definition check_tolerance :: "string \<Rightarrow> f64 \<Rightarrow> f64 \<Rightarrow> tolerance \<Rightarrow> detail option" where
  "check_tolerance fld a b tol =
     (case tol of
        Exact \<Rightarrow> if flt f_epsilon (f_abs (fsub a b)) then Some (OutOfTolerance fld a b tol) else None
      | Relative eps \<Rightarrow> if flt eps (relative_drift a b) then Some (OutOfTolerance fld a b tol) else None
      | Ignore \<Rightarrow> None)"

definition drift :: "string \<Rightarrow> detail option \<Rightarrow> diff_finding list" where
  "drift selector d = (case d of None \<Rightarrow> [] | Some x \<Rightarrow> [finding Drift selector x])"

definition counters_diff :: "string \<Rightarrow> f64 \<times> f64 \<Rightarrow> f64 \<times> f64 \<Rightarrow> tolerance_profile \<Rightarrow> diff_finding list" where
  "counters_diff selector a b tol =
     drift selector (check_tolerance ''count'' (fst a) (fst b) (tp_count tol)) @
     drift selector (check_tolerance ''rate'' (snd a) (snd b) (tp_rate tol))"

definition both :: "'a option \<Rightarrow> 'b option \<Rightarrow> ('a \<times> 'b) option" where
  "both x y = (case (x, y) of (Some a, Some b) \<Rightarrow> Some (a, b) | _ \<Rightarrow> None)"

definition trends_diff :: "string \<Rightarrow> canonical_trend \<Rightarrow> canonical_trend \<Rightarrow> tolerance_profile \<Rightarrow> diff_finding list" where
  "trends_diff selector a b tol =
     (case both (ct_count a) (ct_count b) of
        None \<Rightarrow> []
      | Some (ac, bc) \<Rightarrow> drift selector (check_tolerance ''count'' (f_of_u64 ac) (f_of_u64 bc) (tp_count tol))) @
     concat (map (\<lambda>(fld, av, bv). drift selector (check_tolerance fld av bv (tp_trend tol)))
       [(''avg'', ct_avg a, ct_avg b), (''med'', ct_med a, ct_med b), (''p90'', ct_p90 a, ct_p90 b), (''p95'', ct_p95 a, ct_p95 b)]) @
     (case both (ct_p99 a) (ct_p99 b) of
        None \<Rightarrow> []
      | Some (ap, bp) \<Rightarrow> drift selector (check_tolerance ''p99'' ap bp (tp_trend tol)))"

text \<open>The sorted union of the keys of two maps.\<close>

definition union_keys :: "(string, 'a) btm \<Rightarrow> (string, 'b) btm \<Rightarrow> string list" where
  "union_keys l r = remdups_adj (sort (map fst l @ map fst r))"

text \<open>The walk over the union: keys with known drift are skipped, a key on one side only gives the finding \<open>missing\<close>.\<close>

definition walk_union ::
    "expectations \<Rightarrow> finding_kind \<Rightarrow> (string \<Rightarrow> 'a \<Rightarrow> 'a \<Rightarrow> diff_finding list) \<Rightarrow> (string, 'a) btm \<Rightarrow> (string, 'a) btm \<Rightarrow> diff_finding list" where
  "walk_union e missing cmp l r =
     concat (map (\<lambda>k. if is_known_drift e k then []
                      else case (map_of l k, map_of r k) of
                        (Some a, Some b) \<Rightarrow> cmp k a b
                      | (None, None) \<Rightarrow> []
                      | _ \<Rightarrow> [finding missing k OneSided])
       (union_keys l r))"

definition compare_metrics :: "expectations \<Rightarrow> string \<Rightarrow> canonical_metric \<Rightarrow> canonical_metric \<Rightarrow> diff_finding list" where
  "compare_metrics e sel l r =
     (case (cm_kind l, cm_kind r) of
        (CCounter lc lr, CCounter rc rr) \<Rightarrow> counters_diff sel (lc, lr) (rc, rr) (tolerance_for e sel)
      | (CTrend lt, CTrend rt) \<Rightarrow> trends_diff sel lt rt (tolerance_for e sel)
      | (CGauge _ _ _, CGauge _ _ _) \<Rightarrow> []
      | (CRate _ _ _, CRate _ _ _) \<Rightarrow> []
      | _ \<Rightarrow> [finding KindMismatch sel KindsDiffer])"

definition id_mismatch :: "finding_kind \<Rightarrow> string \<Rightarrow> string \<Rightarrow> string \<Rightarrow> diff_finding list" where
  "id_mismatch k path l r = (if l \<noteq> [] \<and> r \<noteq> [] \<and> l \<noteq> r then [finding k path (Ids l r)] else [])"

definition compare_checks :: "string \<Rightarrow> canonical_check \<Rightarrow> canonical_check \<Rightarrow> diff_finding list" where
  "compare_checks path l r =
     (if cc_passes l \<noteq> cc_passes r \<or> cc_fails l \<noteq> cc_fails r
      then [finding CheckCountMismatch path (Counts (cc_passes l) (cc_fails l) (cc_passes r) (cc_fails r))] else []) @
     id_mismatch CheckIdMismatch path (cc_id l) (cc_id r)"

definition compare_groups :: "string \<Rightarrow> canonical_group \<Rightarrow> canonical_group \<Rightarrow> diff_finding list" where
  "compare_groups path l r = id_mismatch GroupIdMismatch path (cg_id l) (cg_id r)"

definition compare_defs :: "string \<Rightarrow> canonical_metric_def \<Rightarrow> canonical_metric_def \<Rightarrow> diff_finding list" where
  "compare_defs name l r =
     (if cd_kind l \<noteq> cd_kind r then [finding MetricKindMismatch name (Tags (cd_kind l) (cd_kind r))] else []) @
     (if cd_contains l \<noteq> cd_contains r then [finding MetricContainsMismatch name (ContainsDiffer (cd_contains l) (cd_contains r))] else [])"

definition compare_counts :: "expectations \<Rightarrow> (string, u64) btm \<Rightarrow> (string, u64) btm \<Rightarrow> diff_finding list" where
  "compare_counts e l r =
     concat (map (\<lambda>name. if is_known_drift e name then []
                         else (case check_tolerance ''sample_count'' (f_of_u64 (or_else 0 (map_of l name)))
                                      (f_of_u64 (or_else 0 (map_of r name))) (tp_count (tolerance_for e name)) of
                                 None \<Rightarrow> []
                               | Some d \<Rightarrow> [finding SampleCountMismatch name d]))
       (union_keys l r))"

definition diff_event_streams :: "canonical_event_stream \<Rightarrow> canonical_event_stream \<Rightarrow> expectations \<Rightarrow> diff_finding list" where
  "diff_event_streams l r e =
     walk_union e MissingMetricDef compare_defs (es_metric_defs l) (es_metric_defs r) @
     compare_counts e (es_sample_counts l) (es_sample_counts r)"

definition diff :: "canonical_run \<Rightarrow> canonical_run \<Rightarrow> expectations \<Rightarrow> diff_finding list" where
  "diff l r e =
     (if cr_exit_code l \<noteq> cr_exit_code r then [finding ExitCode ''<run>'' (ExitCodes (cr_exit_code l) (cr_exit_code r))] else []) @
     walk_union e MissingMetric (compare_metrics e) (cr_metrics l) (cr_metrics r) @
     walk_union e MissingCheck compare_checks (cr_checks l) (cr_checks r) @
     (case both (cr_event_stream l) (cr_event_stream r) of None \<Rightarrow> [] | Some (ls, rs) \<Rightarrow> diff_event_streams ls rs e) @
     walk_union e MissingGroup compare_groups (cr_groups l) (cr_groups r)"

section \<open>Report\<close>

datatype script_result = Pass | Fail | Unreliable

definition from_findings_and_reliability :: "diff_finding list \<Rightarrow> reliability option \<Rightarrow> script_result" where
  "from_findings_and_reliability findings rel =
     (if (case rel of None \<Rightarrow> False | Some r \<Rightarrow> is_unreliable r) then Unreliable
      else if findings = [] then Pass else Fail)"

fun result_label :: "script_result \<Rightarrow> string" where
  "result_label Pass = ''PASS''"
| "result_label Fail = ''FAIL''"
| "result_label Unreliable = ''UNRELIABLE''"

record script_report =
  sp_name :: string
  sp_findings :: "diff_finding list"
  sp_reliability :: "reliability option"

definition report_result :: "script_report \<Rightarrow> script_result" where
  "report_result r = from_findings_and_reliability (sp_findings r) (sp_reliability r)"

fun finding_tag :: "finding_kind \<Rightarrow> string" where
  "finding_tag ExitCode = ''exit''"
| "finding_tag MissingMetric = ''missing''"
| "finding_tag Drift = ''drift''"
| "finding_tag KindMismatch = ''kind''"
| "finding_tag MissingCheck = ''check-missing''"
| "finding_tag CheckCountMismatch = ''check-counts''"
| "finding_tag CheckIdMismatch = ''check-id''"
| "finding_tag MissingGroup = ''group-missing''"
| "finding_tag GroupIdMismatch = ''group-id''"
| "finding_tag MissingMetricDef = ''stream-missing-def''"
| "finding_tag MetricKindMismatch = ''stream-kind''"
| "finding_tag MetricContainsMismatch = ''stream-contains''"
| "finding_tag SampleCountMismatch = ''stream-count''"
| "finding_tag StreamFileError = ''stream-file-error''"
| "finding_tag SidecarUnreadable = ''sidecar-unreadable''"

text \<open>The lines of the printed report.\<close>

datatype report_line =
  Verdict string string
| Overflow
| SideDrops string u64 u64 u64 "string list"
| FindingLine string string detail

definition side_line :: "string \<Rightarrow> side_reliability \<Rightarrow> report_line list" where
  "side_line side s =
     (if 0 < sr_drops_total s
      then [SideDrops side (sr_drops_total s) (sr_peak_occupancy s) (sr_capacity s) (map fst (sr_drops_per_metric s))] else [])"

definition format_reliability_block :: "reliability \<Rightarrow> report_line list" where
  "format_reliability_block r = [Overflow] @ side_line ''upstream'' (rel_upstream r) @ side_line ''k6rs'' (rel_k6rs r)"

definition print_script :: "script_report \<Rightarrow> report_line list" where
  "print_script r =
     [Verdict (result_label (report_result r)) (sp_name r)] @
     (case sp_reliability r of Some rel \<Rightarrow> if is_unreliable rel then format_reliability_block rel else [] | None \<Rightarrow> []) @
     map (\<lambda>f. FindingLine (finding_tag (df_kind f)) (df_selector f) (df_detail f)) (sp_findings r)"

definition print_reports :: "script_report list \<Rightarrow> report_line list \<times> bool" where
  "print_reports reports =
     fold (\<lambda>r (out, all_clean). (out @ print_script r, if report_result r \<noteq> Pass then False else all_clean)) reports ([], True)"

record json_side =
  js_capacity :: u64
  js_peak_occupancy :: u64
  js_drops_total :: u64
  js_drops_per_metric :: "(string, u64) btm"

record json_script_report =
  jr_name :: string
  jr_status :: script_result
  jr_reliability :: "(json_side \<times> json_side) option"
  jr_findings :: "(string \<times> string \<times> detail) list"

record json_report =
  jp_overall_status :: script_result
  jp_scripts :: "json_script_report list"

definition json_side_of :: "side_reliability \<Rightarrow> json_side" where
  "json_side_of s =
     \<lparr>js_capacity = sr_capacity s, js_peak_occupancy = sr_peak_occupancy s, js_drops_total = sr_drops_total s,
      js_drops_per_metric = sr_drops_per_metric s\<rparr>"

fun dominate :: "script_result \<Rightarrow> script_result \<Rightarrow> script_result" where
  "dominate a b = (if a = Unreliable \<or> b = Unreliable then Unreliable else if a = Fail \<or> b = Fail then Fail else Pass)"

definition build_json_report :: "script_report list \<Rightarrow> json_report" where
  "build_json_report reports =
     (let scripts = map (\<lambda>r. \<lparr>jr_name = sp_name r, jr_status = report_result r,
            jr_reliability = map_option (\<lambda>rel. (json_side_of (rel_upstream rel), json_side_of (rel_k6rs rel))) (sp_reliability r),
            jr_findings = map (\<lambda>f. (finding_tag (df_kind f), df_selector f, df_detail f)) (sp_findings r)\<rparr>) reports
      in \<lparr>jp_overall_status = fold (\<lambda>s a. dominate a (jr_status s)) scripts Pass, jp_scripts = scripts\<rparr>)"

section \<open>Runner\<close>

text \<open>An entry of the scripts directory: its name, whether it is a directory, and the files in it that exist.\<close>

record dir_entry =
  de_name :: string
  de_is_dir :: bool
  de_has :: "string \<Rightarrow> bool"

record script_def =
  sd_name :: string
  sd_script_path :: string
  sd_expectations_path :: string

definition discover_scripts :: "string \<Rightarrow> string option \<Rightarrow> dir_entry list \<Rightarrow> script_def list" where
  "discover_scripts root_dir filt entries =
     sort_key sd_name
       (map (\<lambda>d. let dir = root_dir @ ''/'' @ de_name d
                 in \<lparr>sd_name = de_name d, sd_script_path = dir @ ''/script.js'', sd_expectations_path = dir @ ''/expectations.toml''\<rparr>)
         (filter (\<lambda>d. de_is_dir d \<and> (case filt of None \<Rightarrow> True | Some f \<Rightarrow> find_str f (de_name d) \<noteq> None) \<and>
                      de_has d ''script.js'' \<and> de_has d ''expectations.toml'') entries))"

text \<open>The command line of a run and the variable added to its environment.\<close>

definition invoke_args :: "string \<Rightarrow> string \<Rightarrow> string \<Rightarrow> string \<Rightarrow> expectations \<Rightarrow> string list" where
  "invoke_args script base_url workdir tag e =
     [''run'', ''--out'', ''json='' @ workdir @ ''/'' @ tag @ ''.out.json'', ''--summary-export'', workdir @ ''/'' @ tag @ ''.summary.json''] @
     (case ex_vus e of None \<Rightarrow> [] | Some v \<Rightarrow> [''-u'', dec (uint v)]) @
     (case ex_iterations e of None \<Rightarrow> [] | Some i \<Rightarrow> [''-i'', dec (uint i)]) @
     (case ex_duration e of None \<Rightarrow> [] | Some d \<Rightarrow> [''-d'', d]) @
     [''--env'', ''K6_TEST_URL='' @ base_url, script]"

definition invoke_env :: "string \<Rightarrow> string option \<Rightarrow> (string \<times> string) list" where
  "invoke_env tag client =
     (if tag = ''k6rs'' then (case client of None \<Rightarrow> [] | Some c \<Rightarrow> [(''K6RS_HTTP_CLIENT'', c)]) else [])"

definition artifacts_of :: "string \<Rightarrow> string \<Rightarrow> int option \<Rightarrow> run_artifacts" where
  "artifacts_of workdir tag code =
     \<lparr>ra_out_json_path = workdir @ ''/'' @ tag @ ''.out.json'', ra_summary_export_path = workdir @ ''/'' @ tag @ ''.summary.json'',
      ra_exit_code = or_else (-1) code\<rparr>"

record sink_artifacts =
  sa_upstream_stream :: "canonical_event_stream option"
  sa_k6rs_stream :: "canonical_event_stream option"
  sa_reliability :: reliability
  sa_pre_diff_findings :: "diff_finding list"

definition load_stream :: "(string \<Rightarrow> json option) \<Rightarrow> files \<Rightarrow> string \<Rightarrow> string \<Rightarrow> canonical_event_stream option \<times> diff_finding list" where
  "load_stream from_str fs selector path =
     (case read_event_stream from_str fs path of
        Inr s \<Rightarrow> (Some s, [])
      | Inl e \<Rightarrow> (None, [finding StreamFileError selector (Problem e)]))"

definition load_sink_artifacts :: "(string \<Rightarrow> json option) \<Rightarrow> files \<Rightarrow> string \<Rightarrow> string \<Rightarrow> sink_artifacts" where
  "load_sink_artifacts from_str fs upstream_path k6rs_path =
     (let (us, uf) = load_stream from_str fs ''<upstream-stream>'' upstream_path;
          (ks, kf) = load_stream from_str fs ''<k6rs-stream>'' k6rs_path;
          (kr, sf) = (case read_sidecar_required from_str fs k6rs_path of
                        Inr r \<Rightarrow> (r, [])
                      | Inl e \<Rightarrow> (side_default\<lparr>sr_error := Some e\<rparr>, [finding SidecarUnreadable ''<k6rs-sidecar>'' (Problem e)]))
      in \<lparr>sa_upstream_stream = us, sa_k6rs_stream = ks,
          sa_reliability = \<lparr>rel_upstream = read_sidecar_tolerant from_str fs upstream_path, rel_k6rs = kr\<rparr>,
          sa_pre_diff_findings = uf @ kf @ sf\<rparr>)"

definition exit_finding :: "string \<Rightarrow> int \<Rightarrow> int \<Rightarrow> diff_finding list" where
  "exit_finding selector got want = (if got \<noteq> want then [finding ExitCode selector (Unexpected got want)] else [])"

definition adapted :: "adapt_error + 'a \<Rightarrow> conform_error + 'a" where
  "adapted x = (case x of Inl e \<Rightarrow> Inl (AdaptFailed e) | Inr r \<Rightarrow> Inr r)"

text \<open>\<open>run_one\<close> after both programs have run.\<close>

definition run_one ::
    "(string \<Rightarrow> json option) \<Rightarrow> files \<Rightarrow> string \<Rightarrow> expectations \<Rightarrow> run_artifacts \<Rightarrow> run_artifacts \<Rightarrow> conform_error + script_report" where
  "run_one from_str fs name e ua ka =
     bind_r (adapted (upstream_adapt from_str fs ua)) (\<lambda>l.
     bind_r (adapted (k6rs_adapt from_str fs ka)) (\<lambda>r.
       (let s = load_sink_artifacts from_str fs (ra_out_json_path ua) (ra_out_json_path ka);
            l = l\<lparr>cr_event_stream := sa_upstream_stream s\<rparr>; r = r\<lparr>cr_event_stream := sa_k6rs_stream s\<rparr>
        in Inr \<lparr>sp_name = name,
                sp_findings = sa_pre_diff_findings s @ diff l r e @
                  exit_finding ''<upstream>'' (cr_exit_code l) (ex_exit_code e) @ exit_finding ''<k6rs>'' (cr_exit_code r) (ex_exit_code e),
                sp_reliability = Some (sa_reliability s)\<rparr>)))"

text \<open>\<open>exec\<close> runs a program with its arguments and extra variables: the files afterwards and, unless it could not
  be started, its exit code.  \<open>url\<close> is the address of the fixture started for the run.\<close>

definition invoke_binary ::
    "(string \<Rightarrow> string list \<Rightarrow> (string \<times> string) list \<Rightarrow> files \<Rightarrow> files \<times> int option option) \<Rightarrow> string \<Rightarrow> string \<Rightarrow> string \<Rightarrow> string \<Rightarrow> string \<Rightarrow>
     expectations \<Rightarrow> string option \<Rightarrow> files \<Rightarrow> files \<times> (conform_error + run_artifacts)" where
  "invoke_binary exec bin script url workdir tag e client fs =
     (case exec bin (invoke_args script url workdir tag e) (invoke_env tag client) fs of
        (fs, None) \<Rightarrow> (fs, Inl (BadFile bin))
      | (fs, Some code) \<Rightarrow> (fs, Inr (artifacts_of workdir tag code)))"

definition run_script ::
    "(string \<Rightarrow> json option) \<Rightarrow> (string \<Rightarrow> raw_expectations option) \<Rightarrow>
     (string \<Rightarrow> string list \<Rightarrow> (string \<times> string) list \<Rightarrow> files \<Rightarrow> files \<times> int option option) \<Rightarrow>
     string \<Rightarrow> string \<Rightarrow> string \<Rightarrow> (string \<Rightarrow> string) \<Rightarrow> string \<Rightarrow> files \<Rightarrow> script_def \<Rightarrow> conform_error + script_report" where
  "run_script from_str toml exec upstream_bin k6rs_bin client url workdir fs s =
     bind_r (expectations_load toml fs (sd_expectations_path s)) (\<lambda>e.
       (case invoke_binary exec upstream_bin (sd_script_path s) (url ''upstream'') workdir ''upstream'' e None fs of
          (fs, Inl err) \<Rightarrow> Inl err
        | (fs, Inr ua) \<Rightarrow>
            (case invoke_binary exec k6rs_bin (sd_script_path s) (url ''k6rs'') workdir ''k6rs'' e (Some client) fs of
               (fs, Inl err) \<Rightarrow> Inl err
             | (fs, Inr ka) \<Rightarrow> run_one from_str fs (sd_name s) e ua ka)))"

text \<open>\<open>run\<close> over the reports of its scripts, one after the other: the first error ends it; otherwise the report
  and the exit code.\<close>

definition run_all :: "(script_def \<Rightarrow> conform_error + script_report) \<Rightarrow> script_def list \<Rightarrow> conform_error + json_report \<times> report_line list \<times> int" where
  "run_all run1 scripts =
     (if scripts = [] then Inl NoScripts
      else bind_r (collect_r (map run1 scripts)) (\<lambda>reports.
        Inr (build_json_report reports, fst (print_reports reports), if snd (print_reports reports) then 0 else 1)))"

section \<open>The comparison\<close>

lemma abs_round_sign: "f_abs (fround z x) = f_abs (fround z' (- x))"
  by (auto simp: fround_def Let_def f64_pack_def)

lemma f_abs_fin [simp]: "is_fin (f_abs a) = is_fin a" "f_abs a = F64_NaN \<longleftrightarrow> a = F64_NaN" "is_fin a \<Longrightarrow> fsign (f_abs a) = False"
  by (cases a; simp)+

lemma abs_sub_swap: "f_abs (fsub a b) = f_abs (fsub b a)"
proof (cases "is_fin a \<and> is_fin b")
  case True
  then show ?thesis
    using abs_round_sign[of "fsign a \<and> fsign (fneg b)" "fval a - fval b" "fsign b \<and> fsign (fneg a)"] by (simp add: fsub_fin)
next
  case False
  then show ?thesis by (cases a; cases b) (auto simp: fsub_def)
qed

lemma max_abs_swap:
  "f_max_of (f_abs a) (f_abs b) = f_max_of (f_abs b) (f_abs a) \<or>
   is_fin a \<and> is_fin b \<and> fval (f_abs a) = fval (f_abs b) \<and> f_max_of (f_abs a) (f_abs b) = f_abs a \<and> f_max_of (f_abs b) (f_abs a) = f_abs b"
proof (cases "is_fin a \<and> is_fin b")
  case True
  moreover then have "a \<noteq> F64_NaN" "b \<noteq> F64_NaN" by auto
  ultimately show ?thesis by (auto simp: f_max_of_def flt_fin)
next
  case False
  then show ?thesis by (cases a; cases b) (auto simp: f_max_of_def flt_def)
qed

lemma fdiv_same_value:
  assumes "is_fin y" "is_fin y'" "fval y = fval y'" "fsign y = fsign y'"
  shows "fdiv x y = fdiv x y'" "flt y c = flt y' c"
proof -
  obtain s m t m' t' where y: "y = F64_Fin s m t" "y' = F64_Fin s m' t'" using assms by (cases y; cases y') auto
  show "fdiv x y = fdiv x y'" using assms(3) unfolding y by (cases x) (simp_all del: fval.simps)
  show "flt y c = flt y' c" using assms(3) unfolding y by (simp add: flt_def del: fval.simps)
qed

lemma relative_drift_swap: "relative_drift a b = relative_drift b a"
  using max_abs_swap[of a b]
proof
  assume "f_max_of (f_abs a) (f_abs b) = f_max_of (f_abs b) (f_abs a)"
  then show ?thesis by (simp add: relative_drift_def abs_sub_swap[of b a] Let_def)
next
  assume a: "is_fin a \<and> is_fin b \<and> fval (f_abs a) = fval (f_abs b) \<and> f_max_of (f_abs a) (f_abs b) = f_abs a \<and> f_max_of (f_abs b) (f_abs a) = f_abs b"
  then have "is_fin (f_abs a)" "is_fin (f_abs b)" "fval (f_abs a) = fval (f_abs b)" "fsign (f_abs a) = fsign (f_abs b)" by simp_all
  note fdiv_same_value[OF this]
  then show ?thesis using a by (simp add: relative_drift_def Let_def abs_sub_swap[of b a])
qed

lemma check_tolerance_swap: "check_tolerance fld a b t = None \<longleftrightarrow> check_tolerance fld b a t = None"
  by (simp add: check_tolerance_def abs_sub_swap[of a b] relative_drift_swap[of a b] split: tolerance.splits)

definition heads :: "diff_finding list \<Rightarrow> (finding_kind \<times> string) list" where
  "heads fs = map (\<lambda>f. (df_kind f, df_selector f)) fs"

lemma heads_simps [simp]:
  "heads [] = []" "heads (a @ b) = heads a @ heads b" "heads (concat (map g ks)) = concat (map (\<lambda>k. heads (g k)) ks)"
  "heads [finding k s d] = [(k, s)]"
  by (simp_all add: heads_def finding_def map_concat comp_def)

lemma union_keys_swap: "union_keys l r = union_keys r l"
  proof -
  have "sort (map fst l @ map fst r) = sort (map fst r @ map fst l)"
    by (metis mset_append sorted_list_of_multiset_mset union_commute)
  then show ?thesis by (simp add: union_keys_def)
qed

lemma union_keys_set: "set (union_keys l r) = fst ` set l \<union> fst ` set r"
  by (simp add: union_keys_def image_Un)

lemma walk_union_swap:
  assumes "\<And>k a b. heads (cmp k a b) = heads (cmp k b a)"
  shows "heads (walk_union e m cmp l r) = heads (walk_union e m cmp r l)"
proof -
  have "heads (if is_known_drift e k then [] else case (map_of l k, map_of r k) of
            (Some a, Some b) \<Rightarrow> cmp k a b | (None, None) \<Rightarrow> [] | _ \<Rightarrow> [finding m k OneSided]) =
        heads (if is_known_drift e k then [] else case (map_of r k, map_of l k) of
            (Some a, Some b) \<Rightarrow> cmp k a b | (None, None) \<Rightarrow> [] | _ \<Rightarrow> [finding m k OneSided])" for k
    using assms by (simp split: option.splits)
  then show ?thesis by (simp add: walk_union_def union_keys_swap[of r l])
qed

lemma drift_swap: "heads (drift s (check_tolerance fld a b t)) = heads (drift s (check_tolerance fld b a t))"
  using check_tolerance_swap[of fld a b t] by (cases "check_tolerance fld a b t") (auto simp: drift_def split: option.splits)

lemma both_swap: "both y x = map_option (\<lambda>(a, b). (b, a)) (both x y)"
  by (simp add: both_def split: option.splits)

lemma compare_swap:
  "heads (compare_metrics e k l r) = heads (compare_metrics e k r l)"
  "heads (compare_checks k c d) = heads (compare_checks k d c)"
  "heads (compare_groups k g h) = heads (compare_groups k h g)"
  "heads (compare_defs k m n) = heads (compare_defs k n m)"
  "heads (compare_counts e sl sr) = heads (compare_counts e sr sl)"
proof -
  have t: "heads (trends_diff k a b p) = heads (trends_diff k b a p)" for a b p
    unfolding trends_diff_def by (simp add: both_swap[of "ct_count b"] both_swap[of "ct_p99 b"] drift_swap split: option.splits)
  show "heads (compare_metrics e k l r) = heads (compare_metrics e k r l)"
    by (cases "cm_kind l"; cases "cm_kind r") (simp_all add: compare_metrics_def counters_diff_def drift_swap t)
  show "heads (compare_checks k c d) = heads (compare_checks k d c)" by (auto simp: compare_checks_def id_mismatch_def)
  show "heads (compare_groups k g h) = heads (compare_groups k h g)" by (auto simp: compare_groups_def id_mismatch_def)
  show "heads (compare_defs k m n) = heads (compare_defs k n m)" by (auto simp: compare_defs_def)
  have "heads (if is_known_drift e n then [] else case check_tolerance f a b t of None \<Rightarrow> [] | Some d \<Rightarrow> [finding SampleCountMismatch n d]) =
        heads (if is_known_drift e n then [] else case check_tolerance f b a t of None \<Rightarrow> [] | Some d \<Rightarrow> [finding SampleCountMismatch n d])" for n f a b t
    using check_tolerance_swap[of f a b t] by (auto split: option.splits)
  then show "heads (compare_counts e sl sr) = heads (compare_counts e sr sl)"
    by (simp add: compare_counts_def union_keys_swap[of sr sl])
qed

text \<open>The comparison is symmetric: exchanging the two runs gives the same findings, kind and selector, in the
  same order, for all runs and expectations, NaN and infinite values included.\<close>

lemma diff_symmetric: "heads (diff l r e) = heads (diff r l e)"
proof -
  have s: "heads (diff_event_streams a b e) = heads (diff_event_streams b a e)" for a b
    by (simp add: diff_event_streams_def walk_union_swap[of compare_defs] compare_swap)
  then have "heads (case both (cr_event_stream l) (cr_event_stream r) of None \<Rightarrow> [] | Some (ls, rs) \<Rightarrow> diff_event_streams ls rs e) =
      heads (case both (cr_event_stream r) (cr_event_stream l) of None \<Rightarrow> [] | Some (ls, rs) \<Rightarrow> diff_event_streams ls rs e)"
    by (auto simp: both_def split: option.splits)
  moreover have "heads (walk_union e MissingMetric (compare_metrics e) (cr_metrics l) (cr_metrics r)) =
      heads (walk_union e MissingMetric (compare_metrics e) (cr_metrics r) (cr_metrics l))"
    "heads (walk_union e MissingCheck compare_checks (cr_checks l) (cr_checks r)) = heads (walk_union e MissingCheck compare_checks (cr_checks r) (cr_checks l))"
    "heads (walk_union e MissingGroup compare_groups (cr_groups l) (cr_groups r)) = heads (walk_union e MissingGroup compare_groups (cr_groups r) (cr_groups l))"
    by (intro walk_union_swap compare_swap)+
  ultimately show ?thesis by (simp add: diff_def)
qed


section \<open>A run against itself\<close>

text \<open>A tolerance that two equal numbers stay within: any but a negative relative one.\<close>

fun sane :: "tolerance \<Rightarrow> bool" where
  "sane (Relative eps) = (\<not> flt eps f0)"
| "sane _ = True"

lemma sub_self: "fsub a a = F64_NaN \<or> is_fin (fsub a a) \<and> fval (fsub a a) = 0"
  by (cases a) (auto simp: fsub_def fround_def)

lemma zero_cmp: "is_fin z \<Longrightarrow> fval z = 0 \<Longrightarrow> flt eps z = flt eps f0" "is_fin z \<Longrightarrow> fval z = 0 \<Longrightarrow> is_fin (f_abs z) \<and> fval (f_abs z) = 0"
   apply (cases z; cases eps; simp add: flt_def f0_def del: fval.simps; simp)
  by (cases z) (auto split: if_splits)

lemma fdiv_zero:
  assumes "is_fin x" "fval x = 0" shows "fdiv x m = F64_NaN \<or> is_fin (fdiv x m) \<and> fval (fdiv x m) = 0"
proof (cases m)
  case (F64_Fin t c d)
  then have "fdiv x m = (if fval m = 0 then F64_NaN else fround (fsign x \<noteq> t) 0)"
    using assms by (cases x) (simp_all only: fdiv.simps is_fin.simps, auto)
  then show ?thesis by (simp add: fround_def)
qed (use assms in \<open>cases x; simp\<close>)+

lemma relative_self: "relative_drift a a = F64_NaN \<or> is_fin (relative_drift a a) \<and> fval (relative_drift a a) = 0"
proof -
  have "f_abs (fsub a a) = F64_NaN \<or> is_fin (f_abs (fsub a a)) \<and> fval (f_abs (fsub a a)) = 0"
    using sub_self[of a] zero_cmp(2) by auto
  then have "fdiv (f_abs (fsub a a)) m = F64_NaN \<or> is_fin (fdiv (f_abs (fsub a a)) m) \<and> fval (fdiv (f_abs (fsub a a)) m) = 0" for m
    using fdiv_zero[of "f_abs (fsub a a)" m] fdiv.simps(1)[of m] by metis
  then show ?thesis by (simp add: relative_drift_def Let_def)
qed

lemma nan_cmp [simp]: "\<not> flt eps F64_NaN"
  by (simp add: flt_def)

lemma flit_unit: assumes "0 \<le> x" "x \<le> 1" shows "is_fin (flit x)" "fval (flit x) = srnd x"
proof -
  have "x \<le> 2 ^ 1023" using assms(2) by (rule order_trans) simp
  then have "in_range x" using assms by (intro in_range_small) simp
  then show "is_fin (flit x)" "fval (flit x) = srnd x" by (simp_all add: flit_def)
qed

lemma epsilon_pos: "\<not> flt f_epsilon f0"
proof -
  have r: "(0 :: rat) \<le> 1 / 2 ^ 52" "(1 / 2 ^ 52 :: rat) \<le> 1" by simp_all
  show ?thesis using srnd_nonneg[OF r(1)] unfolding f_epsilon_def by (simp only: flt_fin[OF flit_unit(1)[OF r] f0_fin(1)] flit_unit(2)[OF r] f0_fin(2) not_less)
qed

lemma check_self: "sane t \<Longrightarrow> check_tolerance fld a a t = None"
proof (cases t)
  case Exact
  have "\<not> flt f_epsilon f0" by (rule epsilon_pos)
  then have "\<not> flt f_epsilon (f_abs (fsub a a))"
    using sub_self[of a] zero_cmp(2)[of "fsub a a"] zero_cmp(1)[of "f_abs (fsub a a)" f_epsilon] nan_cmp[of f_epsilon] by auto
  then show ?thesis by (simp add: check_tolerance_def Exact)
next
  case (Relative eps)
  assume "sane t"
  then show ?thesis using relative_self[of a] zero_cmp(1)[of "relative_drift a a" eps] by (auto simp: check_tolerance_def Relative)
qed (simp add: check_tolerance_def)

text \<open>Expectations whose tolerances, defaults and overrides, are all of that kind.\<close>

definition sane_text :: "string option \<Rightarrow> bool" where
  "sane_text s \<longleftrightarrow> (case Option.bind s (\<lambda>v. ok_r (tolerance_parse v)) of None \<Rightarrow> True | Some t \<Rightarrow> sane t)"

definition sane_expectations :: "expectations \<Rightarrow> bool" where
  "sane_expectations e \<longleftrightarrow> sane (ex_default_counter e) \<and> sane (ex_default_trend e) \<and>
     list_all (\<lambda>(k, ov). sane_text (ro_count ov) \<and> sane_text (ro_rate ov) \<and> sane_text (ro_trend ov)) (ex_overrides e)"

lemma sane_profile:
  assumes "sane_expectations e"
  shows "sane (tp_count (tolerance_for e k))" "sane (tp_rate (tolerance_for e k))" "sane (tp_trend (tolerance_for e k))"
proof -
  have o: "sane (override_or d s)" if "sane d" "sane_text s" for d s
    using that by (auto simp: override_or_def sane_text_def ok_r_def split: option.splits sum.splits)
  have m: "sane_text (Option.bind (map_of (ex_overrides e) k) f)"
    if "\<And>ov. (k, ov) \<in> set (ex_overrides e) \<Longrightarrow> sane_text (f ov)" for f
    using that by (cases "map_of (ex_overrides e) k") (auto simp: sane_text_def dest: map_of_SomeD)
  show "sane (tp_count (tolerance_for e k))" "sane (tp_rate (tolerance_for e k))" "sane (tp_trend (tolerance_for e k))"
    using assms by (auto simp: tolerance_for_def Let_def sane_expectations_def list_all_iff intro!: o m)
qed

lemma walk_union_self:
  assumes "\<And>k a. cmp k a a = []" shows "walk_union e m cmp l l = []"
proof -
  have "map_of l k \<noteq> None" if "k \<in> set (union_keys l l)" for k
    using that by (simp add: union_keys_set map_of_eq_None_iff)
  then show ?thesis using assms by (auto simp: walk_union_def split: option.splits)
qed

text \<open>A run compared with itself has no findings, whatever its values are, unless a relative tolerance is
  negative.\<close>

lemma run_against_itself:
  assumes "sane_expectations e" shows "diff r r e = []"
proof -
  note ck [simp] = sane_profile[OF assms, THEN check_self]
  have t: "trends_diff k t t (tolerance_for e k) = []" for k t
    by (auto simp: trends_diff_def drift_def both_def split: option.splits)
  have c: "compare_metrics e k m m = []" for k m
    by (cases "cm_kind m") (simp_all add: compare_metrics_def counters_diff_def drift_def t)
  have s: "diff_event_streams x x e = []" for x
    by (auto simp: diff_event_streams_def compare_counts_def compare_defs_def walk_union_self)
  show ?thesis
    by (auto simp: diff_def walk_union_self c compare_checks_def compare_groups_def id_mismatch_def both_def s split: option.splits)
qed

text \<open>Defaults of an empty expectations file, one override and one tag of the harness's own scripts.\<close>

definition sample_expectations :: expectations where
  "sample_expectations = \<lparr>ex_exit_code = 0, ex_vus = None, ex_iterations = None, ex_duration = None, ex_default_counter = Exact,
     ex_default_trend = Ignore, ex_overrides = [(''http_reqs'', \<lparr>ro_count = Some ''exact'', ro_rate = Some ''ignore'', ro_trend = Some ''five''\<rparr>)],
     ex_known_drift = []\<rparr>"

definition sample_run :: canonical_run where
  "sample_run = \<lparr>cr_metrics = [(''http_reqs'', \<lparr>cm_name = ''http_reqs'', cm_tags = [], cm_kind = CCounter (F64_Inf False) F64_NaN\<rparr>)],
     cr_duration_ms = f0, cr_exit_code = 0, cr_checks = [(''::ok'', \<lparr>cc_name = ''ok'', cc_group_path = [], cc_id = ''1'', cc_passes = 3, cc_fails = 1\<rparr>)],
     cr_groups = [], cr_event_stream = Some empty_stream\<rparr>"

lemma epsilon_value: "is_fin f_epsilon" "fval f_epsilon = 1 / 2 ^ 52"
proof -
  have r: "(0 :: rat) \<le> 1 / 2 ^ 52" "(1 / 2 ^ 52 :: rat) \<le> 1" by simp_all
  have "repr (1 / 2 ^ 52)" unfolding repr_def by (rule exI[of _ 1], rule exI[of _ "- 52"]) (simp add: power_int_minus)
  then have "srnd (1 / 2 ^ 52) = (1 / 2 ^ 52 :: rat)" by (rule srnd_exact)
  then show "is_fin f_epsilon" "fval f_epsilon = 1 / 2 ^ 52"
    unfolding f_epsilon_def by (simp_all only: flit_unit[OF r])
qed

lemma in_range_int: "\<bar>n\<bar> \<le> 2 ^ 53 \<Longrightarrow> in_range (of_int n)"
proof -
  assume "\<bar>n\<bar> \<le> 2 ^ 53"
  then have "\<bar>of_int n\<bar> \<le> (of_int (2 ^ 53) :: rat)" by (simp only: of_int_abs [symmetric] of_int_le_iff)
  also have "\<dots> \<le> 2 ^ 1023" by simp
  finally show ?thesis by (rule in_range_small)
qed

lemma abs_value: "f64_wf a \<Longrightarrow> is_fin a \<Longrightarrow> fval (f_abs a) = \<bar>fval a\<bar>"
  by (cases a) (simp_all add: abs_mult)

text \<open>An exact count tolerance distinguishes all counts up to \<open>2\<^sup>5\<^sup>3\<close>: two sample counts are reported exactly when
  they differ.\<close>

lemma exact_counts:
  assumes "unat m \<le> 2 ^ 53" "unat n \<le> 2 ^ 53"
  shows "check_tolerance fld (f_of_u64 m) (f_of_u64 n) Exact = None \<longleftrightarrow> m = n"
proof -
  have i: "\<bar>uint w\<bar> \<le> 2 ^ 53" if "unat w \<le> 2 ^ 53" for w :: u64
  proof -
    have "int (unat w) \<le> int (2 ^ 53)" using that by (simp only: of_nat_le_iff)
    then show ?thesis by (simp only: uint_nat of_nat_power of_nat_numeral abs_of_nat)
  qed
  note fm = f_of_int_exact[OF i[OF assms(1)]] and fn = f_of_int_exact[OF i[OF assms(2)]]
  have d: "\<bar>uint m - uint n\<bar> \<le> 2 ^ 53"
    using i[OF assms(1)] i[OF assms(2)] uint_ge_0[of m] uint_ge_0[of n] unfolding abs_le_iff by (intro conjI) linarith+
  have r: "repr (of_int (uint m - uint n))" by (rule repr_of_int[OF d])
  have ir: "in_range (of_int (uint m - uint n))" by (rule in_range_int[OF d])
  let ?d = "fsub (f_of_u64 m) (f_of_u64 n)"
  have fd: "is_fin ?d" "fval ?d = of_int (uint m - uint n)" "f64_wf ?d"
    using ir srnd_exact[OF r] by (simp_all add: f_of_u64_def fsub_fin fm fn)
  have ad: "is_fin (f_abs ?d)" "fval (f_abs ?d) = of_int \<bar>uint m - uint n\<bar>" using fd abs_value by (simp_all add: of_int_abs)
  have "flt f_epsilon (f_abs ?d) \<longleftrightarrow> 1 / 2 ^ 52 < (of_int \<bar>uint m - uint n\<bar> :: rat)"
    using epsilon_value ad by (simp only: flt_fin)
  also have "\<dots> \<longleftrightarrow> uint m \<noteq> uint n"
  proof
    assume "uint m \<noteq> uint n"
    then have "1 \<le> \<bar>uint m - uint n\<bar>" by linarith
    then have "(1 :: rat) \<le> of_int \<bar>uint m - uint n\<bar>" by (metis of_int_1 of_int_le_iff)
    moreover have "(1 / 2 ^ 52 :: rat) < 1" by simp
    ultimately show "1 / 2 ^ 52 < (of_int \<bar>uint m - uint n\<bar> :: rat)" by (rule order_less_le_trans[rotated])
  next
    assume a: "1 / 2 ^ 52 < (of_int \<bar>uint m - uint n\<bar> :: rat)"
    show "uint m \<noteq> uint n"
    proof
      assume "uint m = uint n"
      then have "(of_int \<bar>uint m - uint n\<bar> :: rat) = 0" by (simp only: diff_self abs_zero of_int_0)
      then show False using a by simp
    qed
  qed
  finally show ?thesis by (simp add: check_tolerance_def word_uint_eq_iff)
qed


text \<open>Above that bound the conversion to \<open>f64\<close> loses it.\<close>

lemma large_counts: "check_tolerance ''count'' (f_of_u64 (2 ^ 53)) (f_of_u64 (2 ^ 53 + 1)) Exact = None"
  by code_simp

section \<open>The verdict\<close>

lemma collect_r_map: "collect_r (map f xs) = Inr ys \<Longrightarrow> list_all2 (\<lambda>x y. f x = Inr y) xs ys"
proof (induction xs arbitrary: ys)
  case (Cons x xs)
  then show ?case by (cases "f x"; cases "collect_r (map f xs)") auto
qed simp

lemma print_clean: "snd (print_reports reports) \<longleftrightarrow> list_all (\<lambda>r. report_result r = Pass) reports"
proof -
  have "snd (fold (\<lambda>r (out, all_clean). (out @ print_script r, if report_result r \<noteq> Pass then False else all_clean)) rs (o0, c)) \<longleftrightarrow>
      c \<and> list_all (\<lambda>r. report_result r = Pass) rs" for rs o0 c
    by (induction rs arbitrary: o0 c) auto
  then show ?thesis by (simp add: print_reports_def)
qed

lemma overall_fold:
  "fold (\<lambda>s a. dominate a (jr_status s)) ss a =
     (if a = Unreliable \<or> Unreliable \<in> jr_status ` set ss then Unreliable
      else if a = Fail \<or> Fail \<in> jr_status ` set ss then Fail else Pass)"
  by (induction ss arbitrary: a) (auto intro: script_result.exhaust)

text \<open>When one script ends with the verdict \<open>Pass\<close>: everything it is judged on was readable, nothing was dropped, both
  programs ended as expected and the two runs agree.\<close>

definition passes :: "(string \<Rightarrow> json option) \<Rightarrow> files \<Rightarrow> expectations \<Rightarrow> run_artifacts \<Rightarrow> run_artifacts \<Rightarrow> bool" where
  "passes from_str fs e ua ka \<longleftrightarrow>
     (\<exists>l r ls rs side.
        upstream_adapt from_str fs ua = Inr l \<and> k6rs_adapt from_str fs ka = Inr r \<and>
        read_event_stream from_str fs (ra_out_json_path ua) = Inr ls \<and> read_event_stream from_str fs (ra_out_json_path ka) = Inr rs \<and>
        read_sidecar_required from_str fs (ra_out_json_path ka) = Inr side \<and> sr_drops_total side = 0 \<and>
        sr_drops_total (read_sidecar_tolerant from_str fs (ra_out_json_path ua)) = 0 \<and>
        ra_exit_code ua = ex_exit_code e \<and> ra_exit_code ka = ex_exit_code e \<and>
        diff (l\<lparr>cr_event_stream := Some ls\<rparr>) (r\<lparr>cr_event_stream := Some rs\<rparr>) e = [])"

lemma adapt_exit:
  "upstream_adapt from_str fs a = Inr l \<Longrightarrow> cr_exit_code l = ra_exit_code a"
  "k6rs_adapt from_str fs a = Inr r \<Longrightarrow> cr_exit_code r = ra_exit_code a"
  by (auto simp: upstream_adapt_def k6rs_adapt_def Let_def split: sum.splits option.splits prod.splits)

lemma sidecar_errors:
  "read_sidecar_required from_str fs p = Inr side \<Longrightarrow> sr_error side = None"
  "sr_error (read_sidecar_tolerant from_str fs p) = None"
  by (auto simp: read_sidecar_required_def read_sidecar_tolerant_def read_sidecar_inner_def side_default_def Let_def
      split: sum.splits option.splits)

text \<open>C17.  The verdict of a script.  It is \<open>Pass\<close> exactly when both summaries, both streams and the drop counts of
  k6-rs could be read, neither side dropped samples, both exit codes are the expected one and the comparison is
  empty; so a missing stream or a missing sidecar of k6-rs is never taken for agreement.\<close>

theorem pass_iff:
  assumes "run_one from_str fs name e ua ka = Inr rep"
  shows "report_result rep = Pass \<longleftrightarrow> passes from_str fs e ua ka"
proof -
  obtain l r where lr: "upstream_adapt from_str fs ua = Inr l" "k6rs_adapt from_str fs ka = Inr r"
    using assms by (cases "upstream_adapt from_str fs ua"; cases "k6rs_adapt from_str fs ka") (auto simp: run_one_def adapted_def)
  have t: "0 < x \<longleftrightarrow> x \<noteq> 0" for x :: u64 by (simp add: word_gt_0)
  show ?thesis
    using assms
    by (cases "read_event_stream from_str fs (ra_out_json_path ua)"; cases "read_event_stream from_str fs (ra_out_json_path ka)";
        cases "read_sidecar_required from_str fs (ra_out_json_path ka)")
      (auto simp: run_one_def adapted_def lr load_sink_artifacts_def load_stream_def Let_def report_result_def passes_def exit_finding_def
        from_findings_and_reliability_def is_unreliable_def side_unreliable_def sidecar_errors t adapt_exit(1)[OF lr(1)] adapt_exit(2)[OF lr(2)] split: if_splits)
qed


text \<open>Files of a run that agrees: two summaries without metrics, empty streams, a sidecar without drops.\<close>

definition tiny_json :: "string \<Rightarrow> json option" where
  "tiny_json s =
     (if s = ''summary'' then Some (JObject [(''metrics'', JObject [])])
      else if s = ''drops'' then Some (JObject [(''dropped_samples'', JObject [(''total'', JNumber (PosInt 0))])])
      else None)"

definition tiny_files :: "bool \<Rightarrow> files" where
  "tiny_files sidecar path =
     (if path = ''u.sum'' \<or> path = ''k.sum'' then Inr ''summary''
      else if path = ''u.out'' \<or> path = ''k.out'' then Inr []
      else if path = ''k.out.diagnostics.json'' \<and> sidecar then Inr ''drops''
      else Inl ''no such file'')"

definition tiny_artifacts :: "string \<Rightarrow> run_artifacts" where
  "tiny_artifacts side = \<lparr>ra_out_json_path = side @ ''.out'', ra_summary_export_path = side @ ''.sum'', ra_exit_code = 0\<rparr>"

theorem pass_iff_witness:
  "passes tiny_json (tiny_files True) sample_expectations (tiny_artifacts ''u'') (tiny_artifacts ''k'') \<and>
   \<not> passes tiny_json (tiny_files False) sample_expectations (tiny_artifacts ''u'') (tiny_artifacts ''k'')"
proof -
  let ?run = "\<lambda>b. run_one tiny_json (tiny_files b) ''s'' sample_expectations (tiny_artifacts ''u'') (tiny_artifacts ''k'')"
  have t: "map_option report_result (ok_r (?run True)) = Some Pass" by code_simp
  have f: "map_option report_result (ok_r (?run False)) = Some Unreliable" by code_simp
  obtain r1 where r1: "?run True = Inr r1" "report_result r1 = Pass" using t by (cases "?run True") (auto simp: ok_r_def)
  obtain r2 where r2: "?run False = Inr r2" "report_result r2 = Unreliable" using f by (cases "?run False") (auto simp: ok_r_def)
  show ?thesis using pass_iff[OF r1(1)] pass_iff[OF r2(1)] r1(2) r2(2) by simp
qed

text \<open>The verdict of a whole run.  The harness exits with code zero exactly when every script has the verdict
  \<open>Pass\<close>, and the overall status is \<open>Unreliable\<close> when one script is, otherwise \<open>Fail\<close> when one failed: the exit code and
  the JSON report agree.\<close>

lemma overall_verdict:
  assumes "run_all run1 scripts = Inr (json, ls, code)"
  shows "(code = 0 \<longleftrightarrow> list_all (\<lambda>s. map_option report_result (ok_r (run1 s)) = Some Pass) scripts) \<and>
    (code = 0 \<longleftrightarrow> jp_overall_status json = Pass) \<and>
    (jp_overall_status json = Unreliable \<longleftrightarrow> list_ex (\<lambda>s. map_option report_result (ok_r (run1 s)) = Some Unreliable) scripts)"
proof -
  obtain reports where c: "collect_r (map run1 scripts) = Inr reports"
    using assms by (cases "collect_r (map run1 scripts)") (auto simp: run_all_def split: if_splits)
  have j: "json = build_json_report reports" "code = (if snd (print_reports reports) then 0 else 1)"
    using assms by (auto simp: run_all_def c split: if_splits)
  have l: "list_all2 (\<lambda>s r. run1 s = Inr r) scripts reports" by (rule collect_r_map[OF c])
  have a: "list_all (\<lambda>s. map_option report_result (ok_r (run1 s)) = Some v) scripts \<longleftrightarrow> list_all (\<lambda>r. report_result r = v) reports"
    "list_ex (\<lambda>s. map_option report_result (ok_r (run1 s)) = Some v) scripts \<longleftrightarrow> list_ex (\<lambda>r. report_result r = v) reports" for v
    using l by (induction rule: list_all2_induct) (auto simp: ok_r_def)
  have st: "jp_overall_status json =
      (if Unreliable \<in> report_result ` set reports then Unreliable else if Fail \<in> report_result ` set reports then Fail else Pass)"
    unfolding j(1) build_json_report_def Let_def by (simp add: overall_fold image_image del: dominate.simps)
  have p: "list_all (\<lambda>r. report_result r = Pass) reports \<longleftrightarrow> Unreliable \<notin> report_result ` set reports \<and> Fail \<notin> report_result ` set reports"
  proof -
    have "v = Pass \<longleftrightarrow> Unreliable \<noteq> v \<and> Fail \<noteq> v" for v by (cases v) auto
    then show ?thesis by (simp only: list_all_iff image_iff) blast
  qed
  have e: "list_ex (\<lambda>r. report_result r = v) reports \<longleftrightarrow> v \<in> report_result ` set reports" for v by (auto simp: list_ex_iff)
  show ?thesis unfolding a j(2) print_clean st p e by simp
qed


definition verdict_of :: "script_def \<Rightarrow> conform_error + script_report" where
  "verdict_of s = Inr \<lparr>sp_name = sd_name s, sp_findings = (if sd_name s = ''b'' then [finding Drift ''m'' OneSided] else []), sp_reliability = None\<rparr>"

definition script_named :: "string \<Rightarrow> script_def" where
  "script_named n = \<lparr>sd_name = n, sd_script_path = [], sd_expectations_path = []\<rparr>"

text \<open>What the printed report leaves out: a run that is unreliable only because the sidecar of k6-rs could not be read is
  announced as an overflow, without a line for either side.\<close>

lemma unreadable_sidecar_report:
  "sr_drops_total (rel_upstream rel) = 0 \<Longrightarrow> sr_drops_total (rel_k6rs rel) = 0 \<Longrightarrow> sr_error (rel_k6rs rel) = Some e \<Longrightarrow>
     is_unreliable rel \<and> format_reliability_block rel = [Overflow]"
  by (simp add: is_unreliable_def side_unreliable_def format_reliability_block_def side_line_def)

text \<open>An override whose text is no tolerance is ignored without a message, although the same text as a default is an error.\<close>

lemma bad_override_ignored:
  "tolerance_parse v = Inl err \<Longrightarrow> override_or d (Some v) = d"
  "tolerance_parse v = Inl err \<Longrightarrow> toml raw = Some x \<Longrightarrow> rx_default_counter x = Some v \<Longrightarrow> fs path = Inr raw \<Longrightarrow>
     expectations_load toml fs path = Inl err"
  by (simp_all add: override_or_def expectations_load_def or_else_def)

end
