(* ===== verification/Outputs.thy ===== *)
theory Outputs
  imports Summary
begin

text \<open>
  The output plugins, \<open>crates/k6-core/src/output/\<close> (\<open>mod.rs\<close>, \<open>json.rs\<close>, \<open>csv.rs\<close>, \<open>duckdb.rs\<close>, \<open>influxdb.rs\<close>,
  \<open>prometheus.rs\<close>): what each makes of the snapshots of the metrics registry, how \<open>--out\<close> creates them and how the
  run drives them (\<open>crates/k6-cli/src/main.rs\<close>).  A file is the text written to it, and the errors of the file system
  are left out; the iteration order of a \<open>HashMap\<close> of tags is the parameter \<open>order\<close>, the URL parser the parameter
  \<open>parse\<close>, and the making of a bounded channel the parameter \<open>mk_chan\<close>, where \<open>None\<close> is its panic.  The result
  \<open>None\<close> of an operation is a panic.  The stream behind \<open>json\<close> is the theory \<open>EventStream\<close>.
\<close>

section \<open>Samples\<close>

datatype metric_type = CounterType | GaugeType | RateType | TrendType

datatype metric_value =
  CounterValue u64 f64
| GaugeValue f64 f64 f64
| RateValue f64 u64 u64
| TrendValue f64 f64 f64 f64 f64 f64 u64

record metric_sample =
  ms_metric :: string
  ms_type :: metric_type
  ms_timestamp :: f64
  ms_value :: metric_value
  ms_tags :: "(string, string) hm"

text \<open>A byte inside a character of UTF-8, where a string cannot be sliced.\<close>

definition inside_char :: "char \<Rightarrow> bool" where
  "inside_char c \<longleftrightarrow> 128 \<le> (of_char c :: int) \<and> (of_char c :: int) < 192"

definition slice :: "string \<Rightarrow> nat \<Rightarrow> nat \<Rightarrow> string option" where
  "slice s a b =
     (if a \<le> b \<and> b \<le> length s \<and> (a < length s \<longrightarrow> \<not> inside_char (s ! a)) \<and> (b < length s \<longrightarrow> \<not> inside_char (s ! b))
      then Some (drop a (take b s)) else None)"

definition tag_pair :: "string \<Rightarrow> (string, string) hm \<Rightarrow> (string, string) hm" where
  "tag_pair p m = (case find_char (CHR '':'') p of None \<Rightarrow> m | Some i \<Rightarrow> hm_put (take i p) (drop (i + 1) p) m)"

text \<open>\<open>None\<close> is a panic of the slice.\<close>

definition parse_metric_name :: "string \<Rightarrow> (string \<times> (string, string) hm) option" where
  "parse_metric_name name =
     (case selector_parse name of
        Inr s \<Rightarrow> Some (sel_name s, sel_tags s)
      | Inl _ \<Rightarrow>
          (case find_char (CHR ''{'') name of
             None \<Rightarrow> Some (name, [])
           | Some b \<Rightarrow>
               (case slice name (b + 1) (length name - 1) of
                  None \<Rightarrow> None
                | Some tag_str \<Rightarrow> Some (take b name, fold tag_pair (split_on (CHR '','') tag_str) []))))"

definition sample_of :: "f64 \<Rightarrow> metric_type \<Rightarrow> string \<Rightarrow> metric_value \<Rightarrow> metric_sample option" where
  "sample_of timestamp t name v =
     (case parse_metric_name name of
        None \<Rightarrow> None
      | Some (metric, tags) \<Rightarrow> Some \<lparr>ms_metric = metric, ms_type = t, ms_timestamp = timestamp, ms_value = v, ms_tags = tags\<rparr>)"

fun all_some :: "'a option list \<Rightarrow> 'a list option" where
  "all_some [] = Some []"
| "all_some (None # xs) = None"
| "all_some (Some x # xs) = map_option (\<lambda>ys. x # ys) (all_some xs)"

definition trend_value :: "trend_stats \<Rightarrow> metric_value" where
  "trend_value s = TrendValue (ts_avg s) (ts_min s) (ts_med s) (ts_max s) (ts_p90 s) (ts_p95 s) (ts_count s)"

definition snapshot_to_samples :: "'h metrics_snapshot \<Rightarrow> f64 \<Rightarrow> metric_sample list option" where
  "snapshot_to_samples snap elapsed_secs =
     (let timestamp = fmul elapsed_secs (flit 1000)
      in all_some
           (map (\<lambda>(name, cnt, rate). sample_of timestamp CounterType name (CounterValue cnt rate)) (snap_counters snap) @
            map (\<lambda>(name, v, lo, hi). sample_of timestamp GaugeType name (GaugeValue v lo hi)) (snap_gauges snap) @
            map (\<lambda>(name, rate, passes, tot). sample_of timestamp RateType name (RateValue rate passes tot)) (snap_rates snap) @
            map (\<lambda>(name, stats). sample_of timestamp TrendType name (trend_value stats)) (snap_trends snap)))"

section \<open>Texts of numbers\<close>

text \<open>\<open>Display\<close> of \<open>f64\<close>: the shortest decimal that is read as the same number, written without an exponent.  A
  number in \<open>[10 ^ (k - 1), 10 ^ k)\<close> is tried with one to seventeen digits, the nearer of the two neighbours first.\<close>

definition magnitude :: "rat \<Rightarrow> int" where
  "magnitude a = (if 1 \<le> a then int (length (dec \<lfloor>a\<rfloor>)) else 1 - int (length (dec (\<lceil>1 / a\<rceil> - 1))))"

definition candidate :: "rat \<Rightarrow> int \<Rightarrow> nat \<Rightarrow> int option" where
  "candidate a k n =
     (let u = pow10 (k - int n); q = a / u; lo = \<lfloor>q\<rfloor>; hi = lo + 1;
          order = (if q - of_int lo \<le> of_int hi - q then [lo, hi] else [hi, lo])
      in find (\<lambda>d. fround False (of_int d * u) = fround False a) order)"

fun shortest :: "nat \<Rightarrow> rat \<Rightarrow> int \<Rightarrow> nat \<Rightarrow> int \<times> int" where
  "shortest 0 a k n = (\<lfloor>a / pow10 (k - int n)\<rfloor>, k - int n)"
| "shortest (Suc m) a k n = (case candidate a k n of Some d \<Rightarrow> (d, k - int n) | None \<Rightarrow> shortest m a k (Suc n))"

definition decimal_text :: "int \<Rightarrow> int \<Rightarrow> string" where
  "decimal_text d e =
     (if 0 \<le> e then dec (d * 10 ^ nat e)
      else (let n = nat (- e); frac = zero_pad n (dec (d mod 10 ^ n))
            in dec (d div 10 ^ n) @ (case rev (dropWhile (\<lambda>c. c = CHR ''0'') (rev frac)) of [] \<Rightarrow> [] | f \<Rightarrow> ''.'' @ f)))"

definition f_display :: "f64 \<Rightarrow> string" where
  "f_display x =
     (case x of
        F64_NaN \<Rightarrow> ''NaN''
      | F64_Inf s \<Rightarrow> (if s then ''-inf'' else ''inf'')
      | F64_Fin s _ _ \<Rightarrow>
          (let a = \<bar>fval x\<bar>
           in (if s then ''-'' else []) @
              (if a = 0 then ''0'' else (case shortest 17 a (magnitude a) 1 of (d, e) \<Rightarrow> decimal_text d e))))"

definition u64_text :: "u64 \<Rightarrow> string" where
  "u64_text n = dec (uint n)"

datatype output_error = NeedsUrl string | UnknownOutput string | NotStarted | BadUrl | NoDatabase | SecondSink

section \<open>JSON\<close>

record 'c json_output =
  jo_path :: string
  jo_capacity :: nat
  jo_sink :: "'c event_sink option"
  jo_writer :: bool

definition DEFAULT_CHANNEL_CAPACITY :: nat where
  "DEFAULT_CHANNEL_CAPACITY = 1048576"

definition json_with_capacity :: "string \<Rightarrow> nat \<Rightarrow> 'c json_output" where
  "json_with_capacity path capacity = \<lparr>jo_path = path, jo_capacity = capacity, jo_sink = None, jo_writer = False\<rparr>"

definition json_new :: "string \<Rightarrow> 'c json_output" where
  "json_new path = json_with_capacity path DEFAULT_CHANNEL_CAPACITY"

definition json_start :: "(nat \<Rightarrow> 'c option) \<Rightarrow> 'c json_output \<Rightarrow> 'c json_output option" where
  "json_start mk_chan o1 =
     map_option (\<lambda>c. o1\<lparr>jo_sink := Some (sink_build c (of_nat (jo_capacity o1))), jo_writer := True\<rparr>) (mk_chan (jo_capacity o1))"

definition json_stop :: "'c json_output \<Rightarrow> 'c json_output" where
  "json_stop o1 = o1\<lparr>jo_sink := None\<rparr>"

definition json_take_writer :: "'c json_output \<Rightarrow> 'c json_output \<times> bool" where
  "json_take_writer o1 = (o1\<lparr>jo_writer := False\<rparr>, jo_writer o1)"

section \<open>CSV\<close>

definition newline :: char where "newline = CHR 0x0A"

definition csv_special :: "char \<Rightarrow> bool" where
  "csv_special c \<longleftrightarrow> c = CHR '','' \<or> c = CHR 0x22 \<or> c = CHR 0x0A \<or> c = CHR 0x0D"

definition replace_char :: "char \<Rightarrow> string \<Rightarrow> string \<Rightarrow> string" where
  "replace_char c r s = concat (map (\<lambda>x. if x = c then r else [x]) s)"

definition csv_field :: "string \<Rightarrow> string" where
  "csv_field v = (if list_ex csv_special v then [CHR 0x22] @ replace_char (CHR 0x22) [CHR 0x22, CHR 0x22] v @ [CHR 0x22] else v)"

definition type_debug :: "metric_type \<Rightarrow> string" where
  "type_debug t = (case t of CounterType \<Rightarrow> ''Counter'' | GaugeType \<Rightarrow> ''Gauge'' | RateType \<Rightarrow> ''Rate'' | TrendType \<Rightarrow> ''Trend'')"

fun csv_value :: "metric_value \<Rightarrow> string" where
  "csv_value (CounterValue cnt rate) = join '','' [u64_text cnt, fmt_fixed 6 rate]"
| "csv_value (GaugeValue v lo hi) = join '','' [f_display v, f_display lo, f_display hi]"
| "csv_value (RateValue rate passes tot) = join '','' [fmt_fixed 6 rate, u64_text passes, u64_text tot]"
| "csv_value (TrendValue avg lo med hi p90 p95 cnt) =
     join '','' [fmt_fixed 2 avg, fmt_fixed 2 lo, fmt_fixed 2 med, fmt_fixed 2 hi, fmt_fixed 2 p90, fmt_fixed 2 p95, u64_text cnt]"

type_synonym tag_order = "(string, string) hm \<Rightarrow> (string \<times> string) list"

definition tags_text :: "tag_order \<Rightarrow> (string, string) hm \<Rightarrow> string" where
  "tags_text order tags = join '';'' (map (\<lambda>(k, v). k @ ''='' @ v) (order tags))"

definition csv_row :: "tag_order \<Rightarrow> metric_sample \<Rightarrow> string" where
  "csv_row order s =
     join '','' [csv_field (ms_metric s), fmt_fixed 3 (ms_timestamp s), type_debug (ms_type s), csv_field (csv_value (ms_value s)),
                 csv_field (tags_text order (ms_tags s))] @ [newline]"

record file_output =
  fo_path :: string
  fo_open :: bool
  fo_file :: string

definition csv_new :: "string \<Rightarrow> file_output" where
  "csv_new path = \<lparr>fo_path = path, fo_open = False, fo_file = []\<rparr>"

definition csv_header :: string where
  "csv_header = ''metric_name,timestamp,metric_type,metric_value,tags''"

definition csv_start :: "file_output \<Rightarrow> file_output" where
  "csv_start o1 = o1\<lparr>fo_open := True, fo_file := csv_header @ [newline]\<rparr>"

text \<open>The outer option is a panic.\<close>

definition file_add ::
    "(metric_sample \<Rightarrow> string) \<Rightarrow> 'h metrics_snapshot \<Rightarrow> f64 \<Rightarrow> file_output \<Rightarrow> (output_error + file_output) option" where
  "file_add row snap elapsed o1 =
     (if \<not> fo_open o1 then Some (Inl NotStarted)
      else map_option (\<lambda>samples. Inr (o1\<lparr>fo_file := fo_file o1 @ concat (map row samples)\<rparr>)) (snapshot_to_samples snap elapsed))"

definition csv_add_snapshot :: "tag_order \<Rightarrow> 'h metrics_snapshot \<Rightarrow> f64 \<Rightarrow> file_output \<Rightarrow> (output_error + file_output) option" where
  "csv_add_snapshot order snap elapsed o1 = file_add (csv_row order) snap elapsed o1"

definition csv_stop :: "file_output \<Rightarrow> file_output" where
  "csv_stop o1 = o1\<lparr>fo_open := False\<rparr>"

section \<open>DuckDB\<close>

text \<open>\<open>trim_end_matches\<close>.\<close>

function trim_end_matches :: "string \<Rightarrow> string \<Rightarrow> string" where
  "trim_end_matches p s = (if p \<noteq> [] \<and> ends_with p s then trim_end_matches p (take (length s - length p) s) else s)"
  by pat_completeness auto
termination
  proof (relation "measure (\<lambda>(p, s). length s)"; clarsimp)
  fix p s :: string assume "p \<noteq> []" "ends_with p s"
  then show "length s - length p < length s" by (cases s) (auto simp: ends_with_def starts_with_def)
qed

declare trim_end_matches.simps [simp del]

record duckdb_output =
  ddb_path :: string
  ddb_csv :: file_output
  ddb_sql_path :: string
  ddb_sql :: "string option"

definition duckdb_new :: "string \<Rightarrow> duckdb_output" where
  "duckdb_new path =
     (let base = trim_end_matches ''.duckdb'' path
      in \<lparr>ddb_path = path, ddb_csv = csv_new (base @ ''_metrics.csv''), ddb_sql_path = base @ ''_load.sql'', ddb_sql = None\<rparr>)"

definition duckdb_header :: string where
  "duckdb_header =
     ''metric_name,metric_type,timestamp_ms,value_avg,value_min,value_med,value_max,value_p90,value_p95,value_count,value_rate,tags''"

definition duckdb_start :: "duckdb_output \<Rightarrow> duckdb_output" where
  "duckdb_start o1 = o1\<lparr>ddb_csv := (ddb_csv o1)\<lparr>fo_open := True, fo_file := duckdb_header @ [newline]\<rparr>\<rparr>"

fun duckdb_columns :: "metric_value \<Rightarrow> f64 list \<times> u64 \<times> f64" where
  "duckdb_columns (CounterValue cnt rate) = ([f0, f0, f0, f0, f0, f0], cnt, rate)"
| "duckdb_columns (GaugeValue v lo hi) = ([v, lo, f0, hi, f0, f0], 0, f0)"
| "duckdb_columns (RateValue rate passes tot) = ([f0, f0, f0, f0, f0, f0], tot, rate)"
| "duckdb_columns (TrendValue avg lo med hi p90 p95 cnt) = ([avg, lo, med, hi, p90, p95], cnt, f0)"

definition duckdb_row :: "tag_order \<Rightarrow> metric_sample \<Rightarrow> string" where
  "duckdb_row order s =
     (case duckdb_columns (ms_value s) of (values, cnt, rate) \<Rightarrow>
        join '','' ([csv_field (ms_metric s), type_debug (ms_type s), fmt_fixed 3 (ms_timestamp s)] @ map (fmt_fixed 3) values @
                    [u64_text cnt, fmt_fixed 6 rate, csv_field (tags_text order (ms_tags s))]) @ [newline])"

definition duckdb_add_snapshot :: "tag_order \<Rightarrow> 'h metrics_snapshot \<Rightarrow> f64 \<Rightarrow> duckdb_output \<Rightarrow> (output_error + duckdb_output) option" where
  "duckdb_add_snapshot order snap elapsed o1 =
     map_option (map_sum id (\<lambda>f. o1\<lparr>ddb_csv := f\<rparr>)) (file_add (duckdb_row order) snap elapsed (ddb_csv o1))"

text \<open>\<open>Path::file_name\<close> of a path that does not end in a slash.\<close>

definition file_name :: "string \<Rightarrow> string" where
  "file_name path = (case rfind_char (CHR ''/'') path of None \<Rightarrow> path | Some i \<Rightarrow> drop (i + 1) path)"

definition duckdb_loader :: "duckdb_output \<Rightarrow> string" where
  "duckdb_loader o1 = concat (map (\<lambda>l. l @ [newline])
     [''-- Load k6-rs metrics into DuckDB'',
      ''-- Usage: duckdb '' @ ddb_path o1 @ '' < '' @ file_name (ddb_sql_path o1),
      [],
      ''CREATE TABLE IF NOT EXISTS metrics AS'',
      ''SELECT * FROM read_csv_auto('' @ [CHR 0x27] @ file_name (fo_path (ddb_csv o1)) @ [CHR 0x27] @ '');'',
      [],
      ''-- Useful queries:'',
      ''-- SELECT metric_name, AVG(value_avg) FROM metrics WHERE metric_type = '' @ [CHR 0x27] @ ''trend'' @ [CHR 0x27] @ '' GROUP BY metric_name;'',
      ''-- SELECT * FROM metrics WHERE metric_name = '' @ [CHR 0x27] @ ''http_req_duration'' @ [CHR 0x27] @ '' ORDER BY timestamp_ms;''])"

definition duckdb_stop :: "duckdb_output \<Rightarrow> duckdb_output" where
  "duckdb_stop o1 = o1\<lparr>ddb_csv := csv_stop (ddb_csv o1), ddb_sql := Some (duckdb_loader o1)\<rparr>"

section \<open>InfluxDB\<close>

record influx_url =
  iu_scheme :: string
  iu_host :: "string option"
  iu_port :: "16 word option"
  iu_path :: string

record influx_output =
  io_base_url :: string
  io_database :: string
  io_write_url :: string
  io_buffer :: "string list"

text \<open>\<open>parse\<close> is the URL parser.\<close>

definition influx_new :: "(string \<Rightarrow> influx_url option) \<Rightarrow> string \<Rightarrow> output_error + influx_output" where
  "influx_new parse address =
     (case parse address of
        None \<Rightarrow> Inl BadUrl
      | Some u \<Rightarrow>
          (let database = dropWhile (\<lambda>c. c = CHR ''/'') (iu_path u)
           in if database = [] then Inl NoDatabase
              else (let base = iu_scheme u @ ''://'' @ (case iu_host u of None \<Rightarrow> ''localhost'' | Some h \<Rightarrow> h) @ '':'' @
                           dec (uint (case iu_port u of None \<Rightarrow> 8086 | Some p \<Rightarrow> p))
                    in Inr \<lparr>io_base_url = base, io_database = database, io_write_url = base @ ''/write?db='' @ database, io_buffer = []\<rparr>)))"

definition escape_measurement :: "string \<Rightarrow> string" where
  "escape_measurement v =
     replace_char (CHR '' '') [CHR 0x5C, CHR '' ''] (replace_char (CHR '','') [CHR 0x5C, CHR '',''] (replace_char (CHR 0x5C) [CHR 0x5C, CHR 0x5C] v))"

definition escape_tag_or_field_key :: "string \<Rightarrow> string" where
  "escape_tag_or_field_key v = replace_char (CHR ''='') [CHR 0x5C, CHR ''=''] (escape_measurement v)"

definition escape_tag_value :: "string \<Rightarrow> string" where
  "escape_tag_value v = escape_tag_or_field_key v"

definition influx_tags :: "(string \<times> string) list \<Rightarrow> string" where
  "influx_tags tags = concat (map (\<lambda>(k, v). '','' @ escape_tag_or_field_key k @ ''='' @ escape_tag_value v) tags)"

definition influx_field :: "string \<times> string \<Rightarrow> string" where
  "influx_field p = escape_tag_or_field_key (fst p) @ ''='' @ snd p"

fun influx_fields :: "metric_value \<Rightarrow> (string \<times> string) list" where
  "influx_fields (CounterValue cnt rate) = [(''count'', u64_text cnt @ ''i''), (''rate'', f_display rate)]"
| "influx_fields (GaugeValue v lo hi) = [(''value'', f_display v), (''min'', f_display lo), (''max'', f_display hi)]"
| "influx_fields (RateValue rate passes tot) = [(''rate'', f_display rate), (''passes'', u64_text passes @ ''i''), (''total'', u64_text tot @ ''i'')]"
| "influx_fields (TrendValue avg lo med hi p90 p95 cnt) =
     [(''avg'', f_display avg), (''min'', f_display lo), (''med'', f_display med), (''max'', f_display hi), (''p90'', f_display p90),
      (''p95'', f_display p95), (''count'', u64_text cnt @ ''i'')]"

definition influx_line :: "tag_order \<Rightarrow> u64 \<Rightarrow> metric_sample \<Rightarrow> string" where
  "influx_line order timestamp_ns s =
     escape_measurement (ms_metric s) @ influx_tags (order (ms_tags s)) @ '' '' @ join '','' (map influx_field (influx_fields (ms_value s))) @
     '' '' @ u64_text timestamp_ns"

definition influx_start :: "influx_output \<Rightarrow> influx_output" where
  "influx_start o1 = o1\<lparr>io_buffer := []\<rparr>"

definition influx_add_snapshot :: "tag_order \<Rightarrow> 'h metrics_snapshot \<Rightarrow> f64 \<Rightarrow> influx_output \<Rightarrow> influx_output option" where
  "influx_add_snapshot order snap elapsed_secs o1 =
     map_option (\<lambda>samples. o1\<lparr>io_buffer := io_buffer o1 @
         map (influx_line order (f_to_u64 (fmul elapsed_secs (flit 1000000000)))) samples\<rparr>) (snapshot_to_samples snap elapsed_secs)"

definition influx_stop :: "influx_output \<Rightarrow> influx_output" where
  "influx_stop o1 = o1\<lparr>io_buffer := []\<rparr>"

definition to_line_protocol :: "string \<Rightarrow> (string \<times> string) list \<Rightarrow> (string \<times> f64) list \<Rightarrow> u64 \<Rightarrow> string" where
  "to_line_protocol measurement tags field_list timestamp_ns =
     escape_measurement measurement @ influx_tags tags @ '' '' @ join '','' (map (\<lambda>(k, v). influx_field (k, f_display v)) field_list) @
     '' '' @ u64_text timestamp_ns"

section \<open>Prometheus\<close>

record time_series =
  pt_name :: string
  pt_labels :: "(string \<times> string) list"
  pt_value :: f64
  pt_timestamp_ms :: int

record prometheus_output =
  po_url :: string
  po_buffer :: "time_series list"

definition prometheus_labels :: "tag_order \<Rightarrow> (string, string) hm \<Rightarrow> (string \<times> string) list" where
  "prometheus_labels order tags = sort_key fst (filter (\<lambda>(k, v). k \<noteq> [] \<and> v \<noteq> []) (order tags))"

definition prom_name :: "string \<Rightarrow> string" where
  "prom_name metric = map (\<lambda>c. if c = CHR ''.'' \<or> c = CHR ''-'' then CHR ''_'' else c) metric"

fun prom_values :: "metric_value \<Rightarrow> (string \<times> f64) list" where
  "prom_values (CounterValue cnt rate) = [(''_total'', f_of_u64 cnt)]"
| "prom_values (GaugeValue v lo hi) = [([], v)]"
| "prom_values (RateValue rate passes tot) = [(''_rate'', rate)]"
| "prom_values (TrendValue avg lo med hi p90 p95 cnt) =
     [(''_avg'', avg), (''_min'', lo), (''_med'', med), (''_max'', hi), (''_p90'', p90), (''_p95'', p95), (''_count'', f_of_u64 cnt)]"

text \<open>The cast \<open>as i64\<close>.\<close>

definition f_to_i64 :: "f64 \<Rightarrow> int" where
  "f_to_i64 x =
     (case x of
        F64_NaN \<Rightarrow> 0
      | F64_Inf s \<Rightarrow> (if s then - (2 ^ 63) else 2 ^ 63 - 1)
      | F64_Fin s m e \<Rightarrow> (let t = \<lfloor>of_int m * (2::rat) powi e\<rfloor> in if s then max (- (2 ^ 63)) (- t) else min (2 ^ 63 - 1) t))"

definition prom_series :: "tag_order \<Rightarrow> int \<Rightarrow> metric_sample \<Rightarrow> time_series list" where
  "prom_series order timestamp_ms s =
     map (\<lambda>(suffix, v). \<lparr>pt_name = ''k6_'' @ prom_name (ms_metric s) @ suffix, pt_labels = prometheus_labels order (ms_tags s),
       pt_value = v, pt_timestamp_ms = timestamp_ms\<rparr>) (prom_values (ms_value s))"

definition prometheus_new :: "string \<Rightarrow> prometheus_output" where
  "prometheus_new address = \<lparr>po_url = address, po_buffer = []\<rparr>"

definition prometheus_start :: "prometheus_output \<Rightarrow> prometheus_output" where
  "prometheus_start o1 = o1\<lparr>po_buffer := []\<rparr>"

definition prometheus_add_snapshot :: "tag_order \<Rightarrow> 'h metrics_snapshot \<Rightarrow> f64 \<Rightarrow> prometheus_output \<Rightarrow> prometheus_output option" where
  "prometheus_add_snapshot order snap elapsed_secs o1 =
     map_option (\<lambda>samples. o1\<lparr>po_buffer := po_buffer o1 @ concat (map (prom_series order (f_to_i64 (fmul elapsed_secs (flit 1000)))) samples)\<rparr>)
       (snapshot_to_samples snap elapsed_secs)"

definition prometheus_stop :: "prometheus_output \<Rightarrow> prometheus_output" where
  "prometheus_stop o1 = o1\<lparr>po_buffer := []\<rparr>"

section \<open>The outputs of a run\<close>

datatype 'c outp =
  JsonOut "'c json_output" | CsvOut file_output | InfluxOut influx_output | PrometheusOut prometheus_output | DuckDbOut duckdb_output

definition parse_out_flag :: "string \<Rightarrow> string \<times> string option" where
  "parse_out_flag v =
     (case find_char (CHR ''='') v of Some idx \<Rightarrow> (take idx v, Some (drop (idx + 1) v)) | None \<Rightarrow> (v, None))"

definition create_output_with_buffer_size ::
    "(string \<Rightarrow> influx_url option) \<Rightarrow> string \<Rightarrow> string option \<Rightarrow> nat option \<Rightarrow> output_error + 'c outp" where
  "create_output_with_buffer_size parse name arg buffer_size =
     (if name = ''json'' then
        Inr (JsonOut (json_with_capacity (case arg of None \<Rightarrow> ''results.json'' | Some p \<Rightarrow> p)
               (case buffer_size of None \<Rightarrow> DEFAULT_CHANNEL_CAPACITY | Some n \<Rightarrow> n)))
      else if name = ''csv'' then Inr (CsvOut (csv_new (case arg of None \<Rightarrow> ''results.csv'' | Some p \<Rightarrow> p)))
      else if name = ''influxdb'' then
        (case arg of None \<Rightarrow> Inl (NeedsUrl name) | Some address \<Rightarrow> map_sum id InfluxOut (influx_new parse address))
      else if name = ''prometheus'' then
        (case arg of None \<Rightarrow> Inl (NeedsUrl name) | Some address \<Rightarrow> Inr (PrometheusOut (prometheus_new address)))
      else if name = ''duckdb'' then Inr (DuckDbOut (duckdb_new (case arg of None \<Rightarrow> ''results.duckdb'' | Some p \<Rightarrow> p)))
      else Inl (UnknownOutput name))"

definition create_output :: "(string \<Rightarrow> influx_url option) \<Rightarrow> string \<Rightarrow> string option \<Rightarrow> output_error + 'c outp" where
  "create_output parse name arg = create_output_with_buffer_size parse name arg None"

fun output_start :: "(nat \<Rightarrow> 'c option) \<Rightarrow> 'c outp \<Rightarrow> 'c outp option" where
  "output_start mk_chan (JsonOut o1) = map_option JsonOut (json_start mk_chan o1)"
| "output_start mk_chan (CsvOut o1) = Some (CsvOut (csv_start o1))"
| "output_start mk_chan (InfluxOut o1) = Some (InfluxOut (influx_start o1))"
| "output_start mk_chan (PrometheusOut o1) = Some (PrometheusOut (prometheus_start o1))"
| "output_start mk_chan (DuckDbOut o1) = Some (DuckDbOut (duckdb_start o1))"

fun output_add :: "tag_order \<Rightarrow> 'h metrics_snapshot \<Rightarrow> f64 \<Rightarrow> 'c outp \<Rightarrow> (output_error + 'c outp) option" where
  "output_add order snap elapsed (JsonOut o1) = Some (Inr (JsonOut o1))"
| "output_add order snap elapsed (CsvOut o1) = map_option (map_sum id CsvOut) (csv_add_snapshot order snap elapsed o1)"
| "output_add order snap elapsed (InfluxOut o1) = map_option (\<lambda>o2. Inr (InfluxOut o2)) (influx_add_snapshot order snap elapsed o1)"
| "output_add order snap elapsed (PrometheusOut o1) =
     map_option (\<lambda>o2. Inr (PrometheusOut o2)) (prometheus_add_snapshot order snap elapsed o1)"
| "output_add order snap elapsed (DuckDbOut o1) = map_option (map_sum id DuckDbOut) (duckdb_add_snapshot order snap elapsed o1)"

fun output_stop :: "'c outp \<Rightarrow> 'c outp" where
  "output_stop (JsonOut o1) = JsonOut (json_stop o1)"
| "output_stop (CsvOut o1) = CsvOut (csv_stop o1)"
| "output_stop (InfluxOut o1) = InfluxOut (influx_stop o1)"
| "output_stop (PrometheusOut o1) = PrometheusOut (prometheus_stop o1)"
| "output_stop (DuckDbOut o1) = DuckDbOut (duckdb_stop o1)"

fun output_sink :: "'c outp \<Rightarrow> 'c event_sink option" where
  "output_sink (JsonOut o1) = jo_sink o1"
| "output_sink _ = None"

fun output_description :: "'c outp \<Rightarrow> string" where
  "output_description (JsonOut o1) = ''json ('' @ jo_path o1 @ '')''"
| "output_description (CsvOut o1) = ''csv ('' @ fo_path o1 @ '')''"
| "output_description (InfluxOut o1) = ''influxdb ('' @ io_base_url o1 @ '':'' @ io_database o1 @ '')''"
| "output_description (PrometheusOut o1) = ''Prometheus ('' @ po_url o1 @ '')''"
| "output_description (DuckDbOut o1) = ''duckdb ('' @ ddb_path o1 @ '')''"

text \<open>The run creates and starts the outputs of its \<open>--out\<close> flags one after the other, installs the sinks, pushes
  a snapshot to each after every scenario, where an error is a warning only, and stops them at its end.\<close>

fun create_outputs ::
    "(string \<Rightarrow> influx_url option) \<Rightarrow> (nat \<Rightarrow> 'c option) \<Rightarrow> nat option \<Rightarrow> string list \<Rightarrow> (output_error + 'c outp list) option" where
  "create_outputs parse mk_chan buffer_size [] = Some (Inr [])"
| "create_outputs parse mk_chan buffer_size (spec # specs) =
     (case parse_out_flag spec of (name, arg) \<Rightarrow>
        (case create_output_with_buffer_size parse name arg buffer_size of
           Inl e \<Rightarrow> Some (Inl e)
         | Inr o1 \<Rightarrow>
             (case output_start mk_chan o1 of
                None \<Rightarrow> None
              | Some o2 \<Rightarrow> map_option (map_sum id (\<lambda>os. o2 # os)) (create_outputs parse mk_chan buffer_size specs))))"

fun install_sinks :: "'c outp list \<Rightarrow> 'c event_sink option \<Rightarrow> output_error + 'c event_sink option" where
  "install_sinks [] r = Inr r"
| "install_sinks (o1 # os) r =
     (case output_sink o1 of
        None \<Rightarrow> install_sinks os r
      | Some k \<Rightarrow> (case r of None \<Rightarrow> install_sinks os (Some k) | Some _ \<Rightarrow> Inl SecondSink))"

definition push_one :: "tag_order \<Rightarrow> 'h metrics_snapshot \<Rightarrow> f64 \<Rightarrow> 'c outp \<Rightarrow> 'c outp option" where
  "push_one order snap elapsed o1 =
     map_option (\<lambda>r. case r of Inl e \<Rightarrow> o1 | Inr o2 \<Rightarrow> o2) (output_add order snap elapsed o1)"

definition push_snapshot :: "tag_order \<Rightarrow> 'h metrics_snapshot \<Rightarrow> f64 \<Rightarrow> 'c outp list \<Rightarrow> 'c outp list option" where
  "push_snapshot order snap elapsed os = all_some (map (push_one order snap elapsed) os)"

text \<open>What one output sees of the run: the pushes of all its snapshots.\<close>

fun pushes :: "tag_order \<Rightarrow> ('h metrics_snapshot \<times> f64) list \<Rightarrow> 'c outp \<Rightarrow> 'c outp option" where
  "pushes order [] o1 = Some o1"
| "pushes order ((snap, elapsed) # ps) o1 = Option.bind (push_one order snap elapsed o1) (pushes order ps)"

section \<open>Reading a CSV file back\<close>

text \<open>A strict reader of RFC 4180: quotes only around a whole field, a quote in it doubled, every record ended.\<close>

datatype csv_mode = FieldStart | Plain | Quoted | QuoteSeen

fun csv_go :: "csv_mode \<Rightarrow> string \<Rightarrow> string list \<Rightarrow> string \<Rightarrow> string list list option" where
  "csv_go q f r [] = (if q = FieldStart \<and> r = [] then Some [] else None)"
| "csv_go q f r (c # cs) =
     (if q = Quoted then (if c = CHR 0x22 then csv_go QuoteSeen f r cs else csv_go Quoted (f @ [c]) r cs)
      else if c = CHR '','' then csv_go FieldStart [] (r @ [f]) cs
      else if c = newline then map_option (\<lambda>recs. (r @ [f]) # recs) (csv_go FieldStart [] [] cs)
      else if c = CHR 0x22 then
        (if q = FieldStart then csv_go Quoted [] r cs else if q = QuoteSeen then csv_go Quoted (f @ [c]) r cs else None)
      else if q = QuoteSeen \<or> c = CHR 0x0D then None
      else csv_go Plain (f @ [c]) r cs)"

definition csv_read :: "string \<Rightarrow> string list list option" where
  "csv_read s = csv_go FieldStart [] [] s"

lemma csv_special_chars [simp]: "csv_special (CHR '','')" "csv_special (CHR 0x22)" "csv_special newline" "csv_special (CHR 0x0D)"
  by (simp_all add: csv_special_def newline_def)

lemma csv_go_plain:
  "list_all (\<lambda>c. \<not> csv_special c) v \<Longrightarrow> v \<noteq> [] \<or> q = Plain \<Longrightarrow> q = FieldStart \<or> q = Plain \<Longrightarrow>
   csv_go q f r (v @ s) = csv_go Plain (f @ v) r s"
proof (induction v arbitrary: q f)
  case Nil then show ?case by simp
next
  case (Cons c v)
  then have "c \<noteq> CHR '',''" "c \<noteq> newline" "c \<noteq> CHR 0x22" "c \<noteq> CHR 0x0D" by (auto simp: csv_special_def newline_def)
  moreover have "csv_go Plain (f @ [c]) r (v @ s) = csv_go Plain (f @ c # v) r s" using Cons.IH[of Plain "f @ [c]"] Cons.prems(1) by simp
  ultimately show ?case using Cons.prems(3) by auto
qed

lemma csv_go_quoted: "csv_go Quoted f r (replace_char (CHR 0x22) [CHR 0x22, CHR 0x22] v @ CHR 0x22 # s) = csv_go QuoteSeen (f @ v) r s"
  by (induction v arbitrary: f) (auto simp: replace_char_def newline_def)

text \<open>A field and what ends it, a comma or the end of the line.\<close>

lemma csv_go_field:
  assumes "c = CHR '','' \<or> c = newline"
  shows "csv_go FieldStart [] r (csv_field v @ c # s) =
    (if c = CHR '','' then csv_go FieldStart [] (r @ [v]) s else map_option (\<lambda>recs. (r @ [v]) # recs) (csv_go FieldStart [] [] s))"
proof (cases "list_ex csv_special v")
  case True
  then have "csv_go FieldStart [] r (csv_field v @ c # s) = csv_go QuoteSeen v r (c # s)"
    using csv_go_quoted[of "[]" r v "c # s"] by (simp add: csv_field_def newline_def)
  then show ?thesis using assms by auto
next
  case False
  then have p: "list_all (\<lambda>c. \<not> csv_special c) v" by (simp add: list_all_iff list_ex_iff)
  show ?thesis
  proof (cases "v = []")
    case True then show ?thesis using assms by (auto simp: csv_field_def)
  next
    case nonempty: False
    show ?thesis using csv_go_plain[OF p, of FieldStart "[]" r "c # s"] nonempty False assms by (auto simp: csv_field_def)
  qed
qed

lemma csv_go_row: "vs \<noteq> [] \<Longrightarrow> csv_go FieldStart [] r (join '','' (map csv_field vs) @ newline # s) =
   map_option (\<lambda>recs. (r @ vs) # recs) (csv_go FieldStart [] [] s)"
proof (induction vs arbitrary: r)
  case Nil then show ?case by simp
next
  case (Cons v vs)
  have n: "newline \<noteq> CHR '',''" by (simp add: newline_def)
  show ?case
  proof (cases vs)
    case Nil then show ?thesis using csv_go_field[of newline r v s] n by simp
  next
    case (Cons w ws)
    then show ?thesis using csv_go_field[of "CHR '',''" r v "join '','' (map csv_field vs) @ newline # s"] Cons.IH[of "r @ [v]"] by simp
  qed
qed

text \<open>The writers of a file of rows: a row is the CSV text of its columns.\<close>

locale row_format =
  fixes row :: "'s \<Rightarrow> string" and cols :: "'s \<Rightarrow> string list"
  assumes row_text: "row s = join '','' (map csv_field (cols s)) @ [newline]"
    and some_column: "cols s \<noteq> []"
begin

lemma rows_read_back: "csv_go FieldStart [] [] (concat (map row ss)) = Some (map cols ss)"
  by (induction ss) (simp_all add: row_text some_column csv_go_row)

lemma file_reads_back:
  assumes "h \<noteq> []"
  shows "csv_read (join '','' (map csv_field h) @ newline # concat (map row ss)) = Some (h # map cols ss)"
  using assms by (simp add: csv_read_def csv_go_row rows_read_back)

end

section \<open>The rows of the two file formats\<close>

definition csv_columns :: "tag_order \<Rightarrow> metric_sample \<Rightarrow> string list" where
  "csv_columns order s =
     [ms_metric s, fmt_fixed 3 (ms_timestamp s), type_debug (ms_type s), csv_value (ms_value s), tags_text order (ms_tags s)]"

definition ddb_columns :: "tag_order \<Rightarrow> metric_sample \<Rightarrow> string list" where
  "ddb_columns order s =
     (case duckdb_columns (ms_value s) of (vals, cnt, rate) \<Rightarrow>
        [ms_metric s, type_debug (ms_type s), fmt_fixed 3 (ms_timestamp s)] @ map (fmt_fixed 3) vals @
        [u64_text cnt, fmt_fixed 6 rate, tags_text order (ms_tags s)])"

lemma digit_not_special: "is_digit c \<Longrightarrow> \<not> csv_special c"
  by (auto simp: is_digit_def csv_special_def)

lemma csv_field_plain: "list_all (\<lambda>c. \<not> csv_special c) v \<Longrightarrow> csv_field v = v"
  by (auto simp: csv_field_def list_all_iff list_ex_iff)

lemma dec_plain: "0 \<le> n \<Longrightarrow> list_all (\<lambda>c. \<not> csv_special c) (dec n)"
  using dec_facts[of n] by (auto simp: list_all_iff digit_not_special)

lemma zero_pad_plain: "list_all (\<lambda>c. \<not> csv_special c) v \<Longrightarrow> list_all (\<lambda>c. \<not> csv_special c) (zero_pad n v)"
proof -
  have "\<not> csv_special (CHR ''0'')" by (simp add: csv_special_def)
  then show "list_all (\<lambda>c. \<not> csv_special c) v \<Longrightarrow> list_all (\<lambda>c. \<not> csv_special c) (zero_pad n v)"
    by (auto simp: zero_pad_def list_all_iff)
qed

lemma fmt_fixed_plain: "list_all (\<lambda>c. \<not> csv_special c) (fmt_fixed n x)"
proof (cases x)
  case (F64_Fin s m e)
  define d where "d = rne (\<bar>fval x\<bar> * 10 ^ n)"
  have "0 \<le> d" unfolding d_def by (rule rne_nonneg) simp
  then have "list_all (\<lambda>c. \<not> csv_special c) (dec (d div 10 ^ n))"
    "list_all (\<lambda>c. \<not> csv_special c) (zero_pad n (dec (d mod 10 ^ n)))"
    by (auto intro!: dec_plain zero_pad_plain simp: pos_imp_zdiv_nonneg_iff)
  moreover have "fmt_fixed n x =
      (if s then ''-'' else []) @ dec (d div 10 ^ n) @ (if n = 0 then [] else ''.'' @ zero_pad n (dec (d mod 10 ^ n)))"
    unfolding fmt_fixed_def d_def[symmetric] Let_def by (simp only: F64_Fin f64.case)
  moreover have "\<not> csv_special (CHR ''-'')" "\<not> csv_special (CHR ''.'')" by (simp_all add: csv_special_def)
  ultimately show ?thesis by simp
qed (auto simp: fmt_fixed_def csv_special_def)

lemma plain_columns [simp]:
  "csv_field (fmt_fixed n x) = fmt_fixed n x" "csv_field (type_debug t) = type_debug t" "csv_field (u64_text w) = u64_text w"
  "map (csv_field \<circ> fmt_fixed n) xs = map (fmt_fixed n) xs"
proof -
  show f: "csv_field (fmt_fixed n x) = fmt_fixed n x" for n x by (rule csv_field_plain[OF fmt_fixed_plain])
  show "csv_field (type_debug t) = type_debug t" by (cases t) (simp_all add: type_debug_def csv_field_def csv_special_def)
  show "csv_field (u64_text w) = u64_text w" unfolding u64_text_def by (rule csv_field_plain[OF dec_plain]) simp
  show "map (csv_field \<circ> fmt_fixed n) xs = map (fmt_fixed n) xs" by (simp add: f)
qed

interpretation csv: row_format "csv_row order" "csv_columns order" for order
  by unfold_locales (simp_all add: csv_row_def csv_columns_def)

interpretation ddb: row_format "duckdb_row order" "ddb_columns order" for order
  by unfold_locales (simp_all add: duckdb_row_def ddb_columns_def split: prod.splits)


section \<open>What the outputs deliver\<close>

lemma all_some_bind: "all_some (x # xs) = Option.bind x (\<lambda>y. map_option (\<lambda>ys. y # ys) (all_some xs))"
  by (cases x) simp_all

abbreviation push_samples :: "('h metrics_snapshot \<times> f64) list \<Rightarrow> metric_sample list list option" where
  "push_samples ps \<equiv> all_some (map (\<lambda>(snap, elapsed). snapshot_to_samples snap elapsed) ps)"

lemma pushes_csv:
  "fo_open f \<Longrightarrow> pushes order ps (CsvOut f) =
     map_option (\<lambda>sss. CsvOut (f\<lparr>fo_file := fo_file f @ concat (map (csv_row order) (concat sss))\<rparr>)) (push_samples ps)"
proof (induction ps arbitrary: f)
  case Nil then show ?case by simp
next
  case (Cons p ps)
  obtain snap elapsed where p: "p = (snap, elapsed)" by force
  show ?case
  proof (cases "snapshot_to_samples snap elapsed")
    case None then show ?thesis using Cons.prems by (simp add: p push_one_def csv_add_snapshot_def file_add_def)
  next
    case (Some ss)
    then show ?thesis using Cons.prems
      by (simp add: p push_one_def csv_add_snapshot_def file_add_def Cons.IH option.map_comp comp_def)
  qed
qed

lemma pushes_duckdb:
  "fo_open (ddb_csv o1) \<Longrightarrow> pushes order ps (DuckDbOut o1) =
     map_option (\<lambda>sss. DuckDbOut (o1\<lparr>ddb_csv := (ddb_csv o1)\<lparr>fo_file := fo_file (ddb_csv o1) @ concat (map (duckdb_row order) (concat sss))\<rparr>\<rparr>))
       (push_samples ps)"
proof (induction ps arbitrary: o1)
  case Nil then show ?case by simp
next
  case (Cons p ps)
  obtain snap elapsed where p: "p = (snap, elapsed)" by force
  show ?case
  proof (cases "snapshot_to_samples snap elapsed")
    case None then show ?thesis using Cons.prems by (simp add: p push_one_def duckdb_add_snapshot_def file_add_def)
  next
    case (Some ss)
    then show ?thesis using Cons.prems
      by (simp add: p push_one_def duckdb_add_snapshot_def file_add_def Cons.IH option.map_comp comp_def)
  qed
qed

fun output_text :: "'c outp \<Rightarrow> string" where
  "output_text (CsvOut f) = fo_file f"
| "output_text (DuckDbOut o1) = fo_file (ddb_csv o1)"
| "output_text _ = []"

fun output_open :: "'c outp \<Rightarrow> bool" where
  "output_open (CsvOut f) = fo_open f"
| "output_open (DuckDbOut o1) = fo_open (ddb_csv o1)"
| "output_open _ = False"

definition csv_columns_header :: "string list" where
  "csv_columns_header = [''metric_name'', ''timestamp'', ''metric_type'', ''metric_value'', ''tags'']"

definition ddb_columns_header :: "string list" where
  "ddb_columns_header =
     [''metric_name'', ''metric_type'', ''timestamp_ms'', ''value_avg'', ''value_min'', ''value_med'', ''value_max'', ''value_p90'',
      ''value_p95'', ''value_count'', ''value_rate'', ''tags'']"

lemma header_texts:
  "csv_header = join '','' (map csv_field csv_columns_header)" "duckdb_header = join '','' (map csv_field ddb_columns_header)"
  by (code_simp, code_simp)

text \<open>C40.  The file of \<open>--out csv\<close> is a well-formed CSV file: whatever snapshots are pushed and whatever characters
  the metric names and tags contain, a strict RFC 4180 reader of the finished file gets the header and then, in the
  order of the pushes, one record of five columns for each sample.  The output panics exactly when a sample's name
  does.\<close>

theorem csv_file_reads_back:
  "map_option (\<lambda>o2. csv_read (output_text (output_stop o2))) (pushes order ps (CsvOut (csv_start (csv_new path)))) =
   map_option (\<lambda>sss. Some (csv_columns_header # map (csv_columns order) (concat sss))) (push_samples ps)"
proof -
  have "csv_read (csv_header @ newline # concat (map (csv_row order) ss)) = Some (csv_columns_header # map (csv_columns order) ss)" for ss
    unfolding header_texts by (rule csv.file_reads_back) (simp add: csv_columns_header_def)
  then show ?thesis by (simp add: pushes_csv csv_start_def csv_new_def csv_stop_def option.map_comp comp_def)
qed

text \<open>The same for the file of \<open>--out duckdb\<close>, whose records have the twelve columns of its header.\<close>

lemma duckdb_file_reads_back:
  "map_option (\<lambda>o2. csv_read (output_text (output_stop o2))) (pushes order ps (DuckDbOut (duckdb_start (duckdb_new path)))) =
   map_option (\<lambda>sss. Some (ddb_columns_header # map (ddb_columns order) (concat sss))) (push_samples ps) \<and>
   length ddb_columns_header = 12 \<and> length (ddb_columns order s) = 12"
proof -
  have "csv_read (duckdb_header @ newline # concat (map (duckdb_row order) ss)) = Some (ddb_columns_header # map (ddb_columns order) ss)" for ss
    unfolding header_texts by (rule ddb.file_reads_back) (simp add: ddb_columns_header_def)
  moreover have "length (ddb_columns order s) = 12" by (cases "ms_value s") (simp_all add: ddb_columns_def)
  ultimately show ?thesis
    by (simp add: pushes_duckdb duckdb_start_def duckdb_new_def duckdb_stop_def csv_stop_def option.map_comp comp_def Let_def ddb_columns_header_def)
qed

section \<open>Names of the registry\<close>

definition snapshot_names :: "'h metrics_snapshot \<Rightarrow> string list" where
  "snapshot_names snap = map fst (snap_counters snap) @ map fst (snap_gauges snap) @ map fst (snap_rates snap) @ map fst (snap_trends snap)"

definition sample_key :: "metric_sample \<Rightarrow> string" where
  "sample_key s = canonical \<lparr>sel_name = ms_metric s, sel_tags = ms_tags s\<rparr>"

lemma parse_metric_name_canonical:
  "selector_wf s \<Longrightarrow> parse_metric_name (canonical s) = Some (sel_name s, sel_tags s)"
  by (simp add: parse_metric_name_def selector_parse_canonical)

lemma sample_of_canonical:
  assumes "\<exists>s. selector_wf s \<and> canonical s = name"
  shows "\<exists>m. sample_of t k name v = Some m \<and> sample_key m = name \<and> ms_value m = v \<and> ms_timestamp m = t"
proof -
  obtain s where "selector_wf s" "canonical s = name" using assms by blast
  then show ?thesis by (cases s) (auto simp: sample_of_def sample_key_def dest: parse_metric_name_canonical)
qed

lemma all_some_append: "all_some (xs @ ys) = Option.bind (all_some xs) (\<lambda>a. map_option (\<lambda>b. a @ b) (all_some ys))"
  by (induction xs rule: all_some.induct) (auto simp: option.map_comp comp_def map_option_case split: option.splits Option.bind_splits)

lemma all_some_keys:
  assumes "\<And>x. x \<in> set xs \<Longrightarrow> \<exists>m. f x = Some m \<and> sample_key m = key x \<and> ms_timestamp m = t"
  shows "\<exists>ms. all_some (map f xs) = Some ms \<and> map sample_key ms = map key xs \<and> list_all (\<lambda>m. ms_timestamp m = t) ms"
  using assms
proof (induction xs)
  case Nil then show ?case by simp
next
  case (Cons x xs)
  obtain m where m: "f x = Some m" "sample_key m = key x" "ms_timestamp m = t" using Cons.prems[of x] by auto
  obtain ms where "all_some (map f xs) = Some ms" "map sample_key ms = map key xs" "list_all (\<lambda>m. ms_timestamp m = t) ms"
    using Cons.IH Cons.prems by auto
  then show ?case using m by simp
qed

text \<open>When the entries of a snapshot are named by the canonical text of well-formed selectors, as the registry
  names its tagged entries, the conversion does not panic, and the metric and tags of the samples, written as canonical
  text again, are the names of the snapshot one for one and in order, all at the same time stamp.\<close>

lemma samples_name_the_registry:
  assumes "\<forall>name\<in>set (snapshot_names snap). \<exists>s. selector_wf s \<and> canonical s = name"
  shows "\<exists>ms. snapshot_to_samples snap elapsed = Some ms \<and> map sample_key ms = snapshot_names snap \<and>
           list_all (\<lambda>m. ms_timestamp m = fmul elapsed (flit 1000)) ms"
proof -
  let ?t = "fmul elapsed (flit 1000)"
  have ok: "\<exists>m. sample_of ?t k name v = Some m \<and> sample_key m = name \<and> ms_timestamp m = ?t" if "name \<in> set (snapshot_names snap)" for name k v
    using sample_of_canonical[of name ?t k v] assms that by blast
  obtain a where a: "all_some (map (\<lambda>(name, cnt, rate). sample_of ?t CounterType name (CounterValue cnt rate)) (snap_counters snap)) = Some a"
    "map sample_key a = map fst (snap_counters snap)" "list_all (\<lambda>m. ms_timestamp m = ?t) a"
    using all_some_keys[of "snap_counters snap" "\<lambda>(name, cnt, rate). sample_of ?t CounterType name (CounterValue cnt rate)" fst ?t] ok
    by (force simp: snapshot_names_def)
  obtain b where b: "all_some (map (\<lambda>(name, v, lo, hi). sample_of ?t GaugeType name (GaugeValue v lo hi)) (snap_gauges snap)) = Some b"
    "map sample_key b = map fst (snap_gauges snap)" "list_all (\<lambda>m. ms_timestamp m = ?t) b"
    using all_some_keys[of "snap_gauges snap" "\<lambda>(name, v, lo, hi). sample_of ?t GaugeType name (GaugeValue v lo hi)" fst ?t] ok
    by (force simp: snapshot_names_def)
  obtain c where c: "all_some (map (\<lambda>(name, rate, passes, tot). sample_of ?t RateType name (RateValue rate passes tot)) (snap_rates snap)) = Some c"
    "map sample_key c = map fst (snap_rates snap)" "list_all (\<lambda>m. ms_timestamp m = ?t) c"
    using all_some_keys[of "snap_rates snap" "\<lambda>(name, rate, passes, tot). sample_of ?t RateType name (RateValue rate passes tot)" fst ?t] ok
    by (force simp: snapshot_names_def)
  obtain d where d: "all_some (map (\<lambda>(name, stats). sample_of ?t TrendType name (trend_value stats)) (snap_trends snap)) = Some d"
    "map sample_key d = map fst (snap_trends snap)" "list_all (\<lambda>m. ms_timestamp m = ?t) d"
    using all_some_keys[of "snap_trends snap" "\<lambda>(name, stats). sample_of ?t TrendType name (trend_value stats)" fst ?t] ok
    by (force simp: snapshot_names_def)
  show ?thesis
    by (intro exI[of _ "a @ b @ c @ d"]) (simp add: snapshot_to_samples_def Let_def all_some_append a b c d snapshot_names_def)
qed

definition example_snapshot :: "unit metrics_snapshot" where
  "example_snapshot = \<lparr>snap_counters = [(''http_reqs{method:GET,url:ws://h:{1}}'', 3, flit 1)], snap_gauges = [], snap_rates = [], snap_trends = [],
     snap_hists = [], snap_tree = undefined\<rparr>"

text \<open>A name that the selector parser refuses may panic the output: the slice of the tags ends before it begins.\<close>

lemma open_brace_panics: "parse_metric_name ''m{'' = None" "sample_of t k ''m{'' v = None"
proof -
  show p: "parse_metric_name ''m{'' = None" by code_simp
  show "sample_of t k ''m{'' v = None" by (simp add: sample_of_def p)
qed

lemma all_some_None: "all_some xs = None \<longleftrightarrow> None \<in> set xs"
  by (induction xs rule: all_some.induct) auto

lemma open_brace_counter_panics:
  assumes "(''m{'', n, r) \<in> set (snap_counters snap)"
  shows "pushes order ((snap, elapsed) # ps) (CsvOut (csv_start o1)) = None"
proof -
  have "None \<in> set (map (\<lambda>(name, cnt, rate). sample_of t CounterType name (CounterValue cnt rate)) (snap_counters snap))" for t
    using imageI[OF assms, of "\<lambda>(name, cnt, rate). sample_of t CounterType name (CounterValue cnt rate)"]
    by (simp add: open_brace_panics)
  then have "snapshot_to_samples snap elapsed = None" by (simp add: snapshot_to_samples_def Let_def all_some_None)
  then show ?thesis by (simp add: push_one_def csv_add_snapshot_def file_add_def csv_start_def)
qed

text \<open>The outputs \<open>influxdb\<close> and \<open>prometheus\<close> deliver nothing: whatever snapshots are pushed, stopping them
  leaves exactly the state they started in, with an empty buffer, and nothing else is done with it.\<close>

lemma buffered_outputs_send_nothing:
  "map_option output_stop (pushes order ps (InfluxOut (influx_start i))) = map_option (\<lambda>_. InfluxOut (influx_start i)) (push_samples ps) \<and>
   map_option output_stop (pushes order ps (PrometheusOut (prometheus_start p))) =
     map_option (\<lambda>_. PrometheusOut (prometheus_start p)) (push_samples ps)"
proof -
  have i: "map_option output_stop (pushes order ps (InfluxOut (i\<lparr>io_buffer := b\<rparr>))) = map_option (\<lambda>_. InfluxOut (i\<lparr>io_buffer := []\<rparr>)) (push_samples ps)" for b
  proof (induction ps arbitrary: b)
    case (Cons x ps)
    then show ?case
      by (cases x; cases "snapshot_to_samples (fst x) (snd x)")
        (simp_all add: push_one_def influx_add_snapshot_def option.map_comp comp_def)
  qed (simp add: influx_stop_def)
  have p: "map_option output_stop (pushes order ps (PrometheusOut (p\<lparr>po_buffer := b\<rparr>))) =
      map_option (\<lambda>_. PrometheusOut (p\<lparr>po_buffer := []\<rparr>)) (push_samples ps)" for b
  proof (induction ps arbitrary: b)
    case (Cons x ps)
    then show ?case
      by (cases x; cases "snapshot_to_samples (fst x) (snd x)")
        (simp_all add: push_one_def prometheus_add_snapshot_def option.map_comp comp_def)
  qed (simp add: prometheus_stop_def)
  show ?thesis using i[of "[]"] p[of "[]"] by (simp add: influx_start_def prometheus_start_def)
qed

section \<open>Prometheus labels\<close>

text \<open>Whatever order the tags are visited in, the labels are the same, sorted, with no empty text.\<close>

lemma prometheus_labels_deterministic:
  assumes "hm_wf tags" "mset (order tags) = mset tags" "mset (order' tags) = mset tags"
  shows "prometheus_labels order tags = prometheus_labels order' tags"
    and "sorted_wrt (<) (map fst (prometheus_labels order tags))"
    and "set (prometheus_labels order tags) = {(k, v). map_of tags k = Some v \<and> k \<noteq> [] \<and> v \<noteq> []}"
proof -
  let ?P = "\<lambda>(k, v). k \<noteq> [] \<and> v \<noteq> []"
  have d: "distinct (map fst (order tags))" using assms(1) mset_eq_imp_distinct_iff[of "map fst (order tags)" "map fst tags"] assms(2)
    by (simp add: hm_wf_def)
  then have df: "distinct (map fst (filter ?P (order tags)))" by (rule distinct_map_filter)
  then have inj: "inj_on fst (set (filter ?P (order tags)))" by (simp only: distinct_map)
  have m: "mset (filter ?P (order tags)) = mset (sort_key fst (filter ?P (order' tags)))" using assms by simp
  show "prometheus_labels order tags = prometheus_labels order' tags"
    unfolding prometheus_labels_def by (rule sort_key_inj_key_eq[OF m inj]) simp
  have "distinct (map fst (prometheus_labels order tags))" 
    using df mset_eq_imp_distinct_iff[of "map fst (prometheus_labels order tags)" "map fst (filter ?P (order tags))"]
    by (simp add: prometheus_labels_def)
  then show "sorted_wrt (<) (map fst (prometheus_labels order tags))"
    by (simp add: strict_sorted_iff prometheus_labels_def)
  have "set (order tags) = set tags" using assms(2) by (rule mset_eq_setD)
  then show "set (prometheus_labels order tags) = {(k, v). map_of tags k = Some v \<and> k \<noteq> [] \<and> v \<noteq> []}"
    using assms(1) by (auto simp: prometheus_labels_def hm_wf_def)
qed

section \<open>Creating the outputs\<close>

text \<open>Sinks are installed exactly when at most one output has one; a second one stops the run.\<close>

lemma install_sinks_result:
  "install_sinks os None = (case List.map_filter output_sink os of [] \<Rightarrow> Inr None | [k] \<Rightarrow> Inr (Some k) | _ \<Rightarrow> Inl SecondSink)"
proof -
  have second: "install_sinks os (Some k) = (if List.map_filter output_sink os = [] then Inr (Some k) else Inl SecondSink)" for k and os :: "'c outp list"
    by (induction os) (auto simp: map_filter_simps split: option.splits)
  show ?thesis
    by (induction os) (auto simp: map_filter_simps second split: option.splits list.splits)
qed

lemma flag_roundtrip: "CHR ''='' \<notin> set name \<Longrightarrow> parse_out_flag (name @ ''='' @ arg) = (name, Some arg)"
  by (simp add: parse_out_flag_def find_char_first)

lemma csv_flag: "create_output parse ''csv'' arg = Inr (CsvOut (csv_new (case arg of None \<Rightarrow> ''results.csv'' | Some p \<Rightarrow> p)))"
  by (simp add: create_output_def create_output_with_buffer_size_def)

section \<open>The escapes of the line protocol\<close>

text \<open>A reader for which a backslash quotes the next character, up to the first other character of \<open>stops\<close>.\<close>

fun unescape :: "char list \<Rightarrow> string \<Rightarrow> string \<times> string" where
  "unescape stops [] = ([], [])"
| "unescape stops [c] = (if c \<in> set stops then ([], [c]) else ([c], []))"
| "unescape stops (c # d # s) =
     (if c = CHR 0x5C then (case unescape stops s of (a, r) \<Rightarrow> (d # a, r))
      else if c \<in> set stops then ([], c # d # s)
      else (case unescape stops (d # s) of (a, r) \<Rightarrow> (c # a, r)))"

lemma replace_char_simps [simp]:
  "replace_char c r [] = []" "replace_char c r (x # s) = (if x = c then r else [x]) @ replace_char c r s"
  "replace_char c r (s @ t) = replace_char c r s @ replace_char c r t"
  by (simp_all add: replace_char_def)

lemma escape_tag_Cons:
  "escape_tag_or_field_key (x # v) =
     (if x = CHR 0x5C \<or> x = CHR '','' \<or> x = CHR '' '' \<or> x = CHR ''='' then [CHR 0x5C, x] else [x]) @ escape_tag_or_field_key v"
  by (simp add: escape_tag_or_field_key_def escape_measurement_def)

lemma unescape_tag:
  assumes "c \<in> set stops" "set stops = {CHR '','', CHR '' '', CHR ''=''}"
  shows "unescape stops (escape_tag_or_field_key v @ c # s) = (v, c # s)"
proof (induction v)
  case Nil
  have "c \<noteq> CHR 0x5C" using assms by auto
  then show ?case using assms(1) by (cases s) (simp_all add: escape_tag_or_field_key_def escape_measurement_def)
next
  case (Cons x v)
  obtain y z where yz: "escape_tag_or_field_key v @ c # s = y # z" by (cases "escape_tag_or_field_key v @ c # s") auto
  show ?case
  proof (cases "x = CHR 0x5C \<or> x = CHR '','' \<or> x = CHR '' '' \<or> x = CHR ''=''")
    case True then show ?thesis using Cons.IH by (simp add: escape_tag_Cons)
  next
    case False
    then have "x \<notin> set stops" "x \<noteq> CHR 0x5C" using assms(2) by auto
    then show ?thesis using False Cons.IH yz by (simp add: escape_tag_Cons)
  qed
qed

end
