(* ===== verification/Console.thy ===== *)
theory Console
  imports Outputs "HOL-Library.Multiset" "HOL-Library.Sublist"
begin

text \<open>
  The console of the scripts, \<open>crates/k6-core/src/console.rs\<close> and \<open>crates/k6-js/src/api/console.rs\<close>: the bounded
  queue between any number of emits and one writer thread, and the shutdown of the writer, as a step relation whose
  steps are the atomic operations of the source.  The queue is the standard library's \<open>sync_channel\<close>: it holds at most
  its capacity, and a send fails once the receiver is gone.  Counters that are read together at the end are read at one
  instant.  The fields \<open>con_offered\<close>, \<open>con_accepted\<close> and \<open>con_refused\<close> only record what happened.
\<close>

section \<open>Records and their text\<close>

definition CONSOLE_CAPACITY :: nat where "CONSOLE_CAPACITY = 1024"

definition MAX_MESSAGE_BYTES :: nat where "MAX_MESSAGE_BYTES = 16 * 1024"

datatype console_level = LogLevel | WarnLevel | ErrorLevel

fun level_prefix :: "console_level \<Rightarrow> string" where
  "level_prefix LogLevel = []"
| "level_prefix WarnLevel = ''WARN: ''"
| "level_prefix ErrorLevel = ''ERROR: ''"

record console_record =
  cr_level :: console_level
  cr_message :: string

definition is_char_boundary :: "string \<Rightarrow> nat \<Rightarrow> bool" where
  "is_char_boundary s i \<longleftrightarrow> i = 0 \<or> i = length s \<or> (i < length s \<and> \<not> inside_char (s ! i))"

fun boundary_below :: "string \<Rightarrow> nat \<Rightarrow> nat" where
  "boundary_below s 0 = 0"
| "boundary_below s (Suc i) = (if is_char_boundary s (Suc i) then Suc i else boundary_below s i)"

text \<open>The first part of \<open>emit\<close>: the record, and whether its message was truncated.\<close>

definition make_record :: "console_level \<Rightarrow> string \<Rightarrow> console_record \<times> bool" where
  "make_record level msg =
     (if MAX_MESSAGE_BYTES < length msg
      then (\<lparr>cr_level = level, cr_message = take (boundary_below msg MAX_MESSAGE_BYTES) msg\<rparr>, True)
      else (\<lparr>cr_level = level, cr_message = msg\<rparr>, False))"

definition write_record :: "console_record \<Rightarrow> string" where
  "write_record r = level_prefix (cr_level r) @ cr_message r @ [newline]"

datatype terminal = Stdout | Stderr

fun write_terminal :: "console_record \<Rightarrow> terminal \<times> string" where
  "write_terminal r = (case cr_level r of LogLevel \<Rightarrow> Stdout | _ \<Rightarrow> Stderr, write_record r)"

text \<open>An emit of a sink with no queue, and what the writer of \<open>start\<close> does with a record: \<open>None\<close> is its file.\<close>

definition emit_direct :: "console_level \<Rightarrow> string \<Rightarrow> terminal \<times> string" where
  "emit_direct level msg = write_terminal (fst (make_record level msg))"

definition writer_write :: "bool \<Rightarrow> console_record \<Rightarrow> terminal option \<times> string" where
  "writer_write has_file r = (if has_file then (None, write_record r) else (Some (fst (write_terminal r)), snd (write_terminal r)))"

record console_stats =
  cst_dropped :: u64
  cst_truncated :: u64
  cst_write_errors :: u64
  cst_timed_out :: bool

definition has_loss :: "console_stats \<Rightarrow> bool" where
  "has_loss st \<longleftrightarrow> cst_dropped st \<noteq> 0 \<or> cst_truncated st \<noteq> 0 \<or> cst_write_errors st \<noteq> 0 \<or> cst_timed_out st"

definition stats_text :: "console_stats \<Rightarrow> string" where
  "stats_text st =
     ''console output: '' @ u64_text (cst_dropped st) @ '' dropped, '' @ u64_text (cst_truncated st) @ '' truncated, '' @
     u64_text (cst_write_errors st) @ '' write errors'' @
     (if cst_timed_out st then ''; drain timed out (messages may remain unwritten)'' else [])"

section \<open>The script's side\<close>

text \<open>\<open>__console_emit\<close> and the arguments of a console call, each the UTF-16 text of its conversion.\<close>

definition emit_level :: "nat \<Rightarrow> console_level" where
  "emit_level n = (if n = 1 then WarnLevel else if n = 2 then ErrorLevel else LogLevel)"

type_synonym utf16 = "16 word list"

definition high_surrogate :: "16 word \<Rightarrow> bool" where
  "high_surrogate u \<longleftrightarrow> (0xD800 \<le> u \<and> u < 0xDC00)"

definition low_surrogate :: "16 word \<Rightarrow> bool" where
  "low_surrogate u \<longleftrightarrow> (0xDC00 \<le> u \<and> u < 0xE000)"

definition message_limit :: nat where
  "message_limit = MAX_MESSAGE_BYTES + 1"

definition add_part :: "nat \<Rightarrow> utf16 \<Rightarrow> utf16 \<Rightarrow> utf16" where
  "add_part i part message =
     (if length message < message_limit then
        (let message = (if 0 < i then message @ [0x20] else message);
             end0 = min (length part) (message_limit - length message);
             end1 = (if 0 < end0 \<and> end0 < length part \<and> high_surrogate (part ! (end0 - 1)) \<and> low_surrogate (part ! end0)
                     then end0 + 1 else end0)
         in message @ take end1 part)
      else message)"

definition console_message :: "utf16 list \<Rightarrow> utf16" where
  "console_message parts = fold (\<lambda>(i, part). add_part i part) (zip [0..<length parts] parts) []"

section \<open>The queue, the writer thread and its owner\<close>

datatype console_event = Rec console_record | Wake

datatype worker = WLoad | WRecv | WTry | WWrite console_record | WFailed | WBreak | WSignalled | WExited

datatype owner = OIdle | OClosed | OWaiting | OJoining | OFinished console_stats

record con_sys =
  con_cap :: nat
  con_queue :: "console_event list"
  con_closed :: bool
  con_dropped :: u64
  con_truncated :: u64
  con_errors :: u64
  con_worker :: worker
  con_owner :: owner
  con_ready :: "console_record multiset"
  con_sending :: "console_record multiset"
  con_output :: "(console_record \<times> bool) list"
  con_offered :: "console_record list"
  con_accepted :: "console_record list"
  con_refused :: "console_record list"
  con_emitted :: "(console_level \<times> string) list"

definition with_writer :: "nat \<Rightarrow> con_sys" where
  "with_writer cap = \<lparr>con_cap = cap, con_queue = [], con_closed = False, con_dropped = 0, con_truncated = 0, con_errors = 0,
     con_worker = WLoad, con_owner = OIdle, con_ready = {#}, con_sending = {#}, con_output = [], con_offered = [],
     con_accepted = [], con_refused = [], con_emitted = []\<rparr>"

definition con_try_send :: "console_event \<Rightarrow> con_sys \<Rightarrow> con_sys \<times> bool" where
  "con_try_send e s =
     (if con_worker s = WExited \<or> con_cap s \<le> length (con_queue s) then (s, False)
      else (s\<lparr>con_queue := con_queue s @ [e]\<rparr>, True))"

text \<open>The steps of one \<open>emit\<close> on a queued sink.\<close>

definition emit_begin :: "console_level \<Rightarrow> string \<Rightarrow> con_sys \<Rightarrow> con_sys" where
  "emit_begin level msg s =
     (case make_record level msg of (r, truncated) \<Rightarrow>
        s\<lparr>con_truncated := con_truncated s + (if truncated then 1 else 0), con_ready := add_mset r (con_ready s),
          con_offered := con_offered s @ [r], con_emitted := con_emitted s @ [(level, msg)]\<rparr>)"

definition emit_drop :: "console_record \<Rightarrow> con_sys \<Rightarrow> con_sys" where
  "emit_drop r s = s\<lparr>con_dropped := con_dropped s + 1, con_refused := con_refused s @ [r]\<rparr>"

definition emit_load :: "console_record \<Rightarrow> con_sys \<Rightarrow> con_sys" where
  "emit_load r s =
     (let s = s\<lparr>con_ready := con_ready s - {#r#}\<rparr>
      in if con_closed s then emit_drop r s else s\<lparr>con_sending := add_mset r (con_sending s)\<rparr>)"

definition emit_send :: "console_record \<Rightarrow> con_sys \<Rightarrow> con_sys" where
  "emit_send r s =
     (case con_try_send (Rec r) (s\<lparr>con_sending := con_sending s - {#r#}\<rparr>) of
        (s, True) \<Rightarrow> s\<lparr>con_accepted := con_accepted s @ [r]\<rparr>
      | (s, False) \<Rightarrow> emit_drop r s)"

text \<open>The steps of the writer thread; \<open>None\<close> where it waits.\<close>

definition handle_event :: "console_event \<Rightarrow> worker" where
  "handle_event e = (case e of Rec r \<Rightarrow> WWrite r | Wake \<Rightarrow> WLoad)"

fun worker_step :: "(console_record \<Rightarrow> bool) \<Rightarrow> con_sys \<Rightarrow> con_sys option" where
  "worker_step wok s =
     (case con_worker s of
        WLoad \<Rightarrow> Some (s\<lparr>con_worker := if con_closed s then WTry else WRecv\<rparr>)
      | WRecv \<Rightarrow> (case con_queue s of [] \<Rightarrow> None | e # q \<Rightarrow> Some (s\<lparr>con_queue := q, con_worker := handle_event e\<rparr>))
      | WTry \<Rightarrow>
          (case con_queue s of [] \<Rightarrow> Some (s\<lparr>con_worker := WBreak\<rparr>)
           | e # q \<Rightarrow> Some (s\<lparr>con_queue := q, con_worker := handle_event e\<rparr>))
      | WWrite r \<Rightarrow> Some (s\<lparr>con_output := con_output s @ [(r, wok r)], con_worker := if wok r then WLoad else WFailed\<rparr>)
      | WFailed \<Rightarrow> Some (s\<lparr>con_errors := con_errors s + 1, con_worker := WLoad\<rparr>)
      | WBreak \<Rightarrow> Some (s\<lparr>con_worker := WSignalled\<rparr>)
      | WSignalled \<Rightarrow> Some (s\<lparr>con_worker := WExited\<rparr>)
      | WExited \<Rightarrow> None)"

declare worker_step.simps [simp del]

text \<open>The steps of \<open>shutdown\<close>.\<close>

definition stats_of :: "bool \<Rightarrow> con_sys \<Rightarrow> console_stats" where
  "stats_of timed_out s =
     \<lparr>cst_dropped = con_dropped s, cst_truncated = con_truncated s, cst_write_errors = con_errors s, cst_timed_out = timed_out\<rparr>"

definition owner_close :: "con_sys \<Rightarrow> con_sys" where
  "owner_close s = s\<lparr>con_closed := True, con_owner := OClosed\<rparr>"

definition owner_wake :: "con_sys \<Rightarrow> con_sys" where
  "owner_wake s = (fst (con_try_send Wake s))\<lparr>con_owner := OWaiting\<rparr>"

definition done_sent :: "con_sys \<Rightarrow> bool" where
  "done_sent s \<longleftrightarrow> con_worker s = WSignalled \<or> con_worker s = WExited"

definition owner_finish :: "bool \<Rightarrow> con_sys \<Rightarrow> con_sys" where
  "owner_finish timed_out s = s\<lparr>con_owner := OFinished (stats_of timed_out s)\<rparr>"

inductive con_step :: "con_sys \<Rightarrow> con_sys \<Rightarrow> bool" where
  begin_emit: "con_step s (emit_begin level msg s)"
| load_closed: "r \<in># con_ready s \<Longrightarrow> con_step s (emit_load r s)"
| send_record: "r \<in># con_sending s \<Longrightarrow> con_step s (emit_send r s)"
| worker: "worker_step wok s = Some t \<Longrightarrow> con_step s t"
| close: "con_owner s = OIdle \<Longrightarrow> con_step s (owner_close s)"
| wake: "con_owner s = OClosed \<Longrightarrow> con_step s (owner_wake s)"
| done_seen: "con_owner s = OWaiting \<Longrightarrow> done_sent s \<Longrightarrow> con_step s (s\<lparr>con_owner := OJoining\<rparr>)"
| timeout: "con_owner s = OWaiting \<Longrightarrow> \<not> done_sent s \<Longrightarrow> con_step s (owner_finish True s)"
| join: "con_owner s = OJoining \<Longrightarrow> con_worker s = WExited \<Longrightarrow> con_step s (owner_finish False s)"

inductive con_reach :: "nat \<Rightarrow> con_sys \<Rightarrow> bool" for cap where
  start: "con_reach cap (with_writer cap)"
| step: "con_reach cap s \<Longrightarrow> con_step s t \<Longrightarrow> con_reach cap t"

section \<open>Nothing is lost or repeated\<close>

fun recs :: "console_event list \<Rightarrow> console_record list" where
  "recs [] = []"
| "recs (Rec r # q) = r # recs q"
| "recs (Wake # q) = recs q"

lemma recs_append [simp]: "recs (p @ q) = recs p @ recs q"
  by (induction p rule: recs.induct) simp_all

fun in_hand :: "worker \<Rightarrow> console_record list" where
  "in_hand (WWrite r) = [r]"
| "in_hand _ = []"

definition failed_count :: "con_sys \<Rightarrow> nat" where
  "failed_count s = length (filter (\<lambda>(r, good). \<not> good) (con_output s)) - (if con_worker s = WFailed then 1 else 0)"

text \<open>The messages longer than the bound.\<close>

definition too_long :: "(console_level \<times> string) list \<Rightarrow> (console_level \<times> string) list" where
  "too_long = filter (\<lambda>(level, msg). MAX_MESSAGE_BYTES < length msg)"

lemma make_record_truncated: "make_record level msg = (r, truncated) \<Longrightarrow> truncated \<longleftrightarrow> MAX_MESSAGE_BYTES < length msg"
  by (auto simp: make_record_def split: if_splits)

definition con_inv :: "nat \<Rightarrow> con_sys \<Rightarrow> bool" where
  "con_inv cap s \<longleftrightarrow>
     con_cap s = cap \<and> length (con_queue s) \<le> cap \<and>
     con_accepted s = map fst (con_output s) @ in_hand (con_worker s) @ recs (con_queue s) \<and>
     mset (con_offered s) = mset (con_accepted s) + mset (con_refused s) + con_ready s + con_sending s \<and>
     con_dropped s = of_nat (length (con_refused s)) \<and>
     (con_worker s = WFailed \<longrightarrow> (\<exists>r ws. con_output s = ws @ [(r, False)])) \<and>
     con_errors s = of_nat (failed_count s) \<and>
     con_offered s = map (\<lambda>(level, msg). fst (make_record level msg)) (con_emitted s) \<and>
     con_truncated s = of_nat (length (too_long (con_emitted s)))"

lemmas con_defs = emit_begin_def emit_load_def emit_send_def emit_drop_def con_try_send_def owner_close_def owner_wake_def
  owner_finish_def done_sent_def stats_of_def handle_event_def

lemma con_inv_worker:
  assumes "con_inv cap s" "worker_step wok s = Some t" shows "con_inv cap t"
proof (cases "con_worker s")
  case WFailed
  then obtain r ws where "con_output s = ws @ [(r, False)]" using assms(1) by (auto simp: con_inv_def)
  then show ?thesis using assms WFailed by (auto simp: con_inv_def worker_step.simps failed_count_def)
qed (use assms in \<open>auto simp: con_inv_def worker_step.simps failed_count_def handle_event_def split: list.splits console_event.splits if_splits\<close>)

lemma con_inv_step:
  assumes "con_step s t" "con_inv cap s" shows "con_inv cap t"
  using assms
proof (cases rule: con_step.cases)
  case (load_closed r)
  then show ?thesis using assms(2) by (auto simp: con_inv_def con_defs failed_count_def Let_def dest!: multi_member_split)
next
  case (send_record r)
  then show ?thesis using assms(2) by (auto simp: con_inv_def con_defs failed_count_def dest!: multi_member_split)
next
  case (worker wok)
  then show ?thesis using assms(2) con_inv_worker by blast
next
  case (begin_emit level msg)
  obtain r truncated where m: "make_record level msg = (r, truncated)" by fastforce
  then show ?thesis using begin_emit assms(2) make_record_truncated[OF m] by (auto simp: con_inv_def con_defs failed_count_def too_long_def)
qed (auto simp: con_inv_def con_defs failed_count_def split: prod.splits)

lemma con_reach_inv: "con_reach cap s \<Longrightarrow> con_inv cap s"
proof (induction rule: con_reach.induct)
  case start show ?case by (simp add: con_inv_def with_writer_def failed_count_def too_long_def)
next
  case (step s t) then show ?case using con_inv_step by blast
qed

lemma console_accounting_lemma:
  assumes "con_reach cap s"
  shows "con_accepted s = map fst (con_output s) @ in_hand (con_worker s) @ recs (con_queue s)"
    and "mset (con_offered s) = mset (con_accepted s) + mset (con_refused s) + con_ready s + con_sending s"
    and "length (con_queue s) \<le> cap"
    and "con_dropped s = of_nat (length (con_refused s))"
    and "con_errors s = of_nat (failed_count s)"
    and "con_offered s = map (\<lambda>(level, msg). fst (make_record level msg)) (con_emitted s)"
    and "con_truncated s = of_nat (length (too_long (con_emitted s)))"
  using con_reach_inv[OF assms] unfolding con_inv_def by blast+

text \<open>C27.  In every interleaving of emits, writer thread and shutdown, what the writer wrote, holds and still has
  queued is exactly the accepted records in the order of their acceptance; every record offered was accepted or refused
  or is still being emitted, and the records offered are those of the messages emitted, in order; the queue never
  exceeds its capacity; and the three counters (of 64 bits) are exact: of the records dropped, of the messages
  truncated, which are those longer than the bound, and of the write errors.\<close>

theorem console_accounting:
  assumes "con_reach cap s"
  shows "con_accepted s = map fst (con_output s) @ in_hand (con_worker s) @ recs (con_queue s) \<and>
         mset (con_offered s) = mset (con_accepted s) + mset (con_refused s) + con_ready s + con_sending s \<and>
         length (con_queue s) \<le> cap \<and>
         con_offered s = map (\<lambda>(level, msg). fst (make_record level msg)) (con_emitted s) \<and>
         con_dropped s = of_nat (length (con_refused s)) \<and>
         con_truncated s = of_nat (length (filter (\<lambda>(level, msg). MAX_MESSAGE_BYTES < length msg) (con_emitted s))) \<and>
         con_errors s = of_nat (failed_count s)"
  using console_accounting_lemma[OF assms] by (simp add: too_long_def)

definition example_record :: console_record where
  "example_record = \<lparr>cr_level = WarnLevel, cr_message = ''x''\<rparr>"

definition example_sent :: con_sys where
  "example_sent = emit_send example_record (emit_load example_record (emit_begin WarnLevel ''x'' (with_writer CONSOLE_CAPACITY)))"

lemma example_made: "make_record WarnLevel ''x'' = (example_record, False)"
  by (simp add: make_record_def MAX_MESSAGE_BYTES_def example_record_def)

lemma example_sent_eq:
  "example_sent = (with_writer CONSOLE_CAPACITY)\<lparr>con_queue := [Rec example_record], con_offered := [example_record],
     con_accepted := [example_record], con_emitted := [(WarnLevel, ''x'')]\<rparr>"
  by (simp add: example_sent_def con_defs example_made with_writer_def CONSOLE_CAPACITY_def Let_def)

lemma example_sent_reach: "con_reach CONSOLE_CAPACITY example_sent"
  unfolding example_sent_def
  by (rule con_reach.step[OF con_reach.step[OF con_reach.step[OF con_reach.start begin_emit] load_closed] send_record])
    (simp_all add: con_defs example_made with_writer_def Let_def)

theorem console_accounting_witness:
  "con_accepted example_sent = map fst (con_output example_sent) @ in_hand (con_worker example_sent) @ recs (con_queue example_sent) \<and>
   con_accepted example_sent = [example_record]"
  using console_accounting[OF example_sent_reach] by (simp add: example_sent_eq)

lemma capacity_pos: "0 < CONSOLE_CAPACITY"
  by (simp add: CONSOLE_CAPACITY_def)

section \<open>The shutdown\<close>

text \<open>Before the close no part of the shutdown has begun, and after its wake-up the writer is never left waiting.\<close>

fun past_close :: "worker \<Rightarrow> bool" where
  "past_close WTry = True"
| "past_close WBreak = True"
| "past_close WSignalled = True"
| "past_close WExited = True"
| "past_close _ = False"

definition owner_inv :: "con_sys \<Rightarrow> bool" where
  "owner_inv s \<longleftrightarrow> (con_closed s \<longleftrightarrow> con_owner s \<noteq> OIdle) \<and> (past_close (con_worker s) \<longrightarrow> con_closed s) \<and>
     (con_owner s \<noteq> OIdle \<and> con_owner s \<noteq> OClosed \<and> con_worker s = WRecv \<longrightarrow> con_queue s \<noteq> []) \<and>
     ((con_owner s = OJoining \<or> (\<exists>st. con_owner s = OFinished st \<and> \<not> cst_timed_out st)) \<longrightarrow> done_sent s)"

lemma owner_inv_step:
  assumes "con_step s t" "owner_inv s" "con_cap s > 0" shows "owner_inv t"
  using assms
proof (cases rule: con_step.cases)
  case (worker wok)
  then show ?thesis using assms(2)
    by (cases "con_worker s")
      (auto simp: owner_inv_def worker_step.simps handle_event_def done_sent_def split: list.splits console_event.splits if_splits)
qed (auto simp: owner_inv_def con_defs Let_def split: prod.splits)

lemma con_reach_owner:
  assumes "con_reach cap s" "0 < cap" shows "owner_inv s"
  using assms(1)
proof (induction rule: con_reach.induct)
  case start show ?case by (simp add: owner_inv_def with_writer_def)
next
  case (step s t)
  then show ?case using owner_inv_step con_reach_inv[of cap s] assms(2) by (simp add: con_inv_def)
qed

text \<open>Work left to the writer once the queue is closed: two rounds for each event it may still take.\<close>

fun worker_rank :: "worker \<Rightarrow> nat" where
  "worker_rank WExited = 0"
| "worker_rank WSignalled = 1"
| "worker_rank WBreak = 2"
| "worker_rank WTry = 3"
| "worker_rank WLoad = 4"
| "worker_rank WRecv = 4"
| "worker_rank WFailed = 5"
| "worker_rank (WWrite r) = 6"

definition work_left :: "con_sys \<Rightarrow> nat" where
  "work_left s = 4 * length (con_queue s) + 4 * size (con_sending s) + (if con_owner s = OClosed then 4 else 0) + worker_rank (con_worker s)"

lemma worker_progress:
  assumes "con_closed s" "worker_step wok s = Some t"
  shows "work_left t < work_left s"
  using assms
  by (cases "con_worker s") (auto simp: work_left_def worker_step.simps handle_event_def split: list.splits console_event.splits if_splits)

lemma no_more_work:
  assumes "con_step s t" "con_closed s" "owner_inv s"
  shows "work_left t \<le> work_left s"
  using assms
proof (cases rule: con_step.cases)
  case (worker wok)
  then show ?thesis using worker_progress[OF assms(2)] by fastforce
next
  case (send_record r)
  then obtain m where "con_sending s = add_mset r m" by (auto dest: multi_member_split)
  then show ?thesis using send_record assms(2) by (auto simp: con_defs work_left_def split: prod.splits)
qed (use assms in \<open>auto simp: owner_inv_def con_defs work_left_def Let_def split: prod.splits\<close>)

text \<open>C28.  The shutdown loses no wake-up: after it closed the queue and sent its wake-up, the writer thread can always
  take a step until it has exited, in every interleaving; every step of it then lowers the work left, a number that no
  step of an emit or of the owner raises, so the writer exits.\<close>

theorem console_writer_exits:
  assumes "con_reach cap s" "0 < cap" "con_owner s \<noteq> OIdle" "con_owner s \<noteq> OClosed" "con_worker s \<noteq> WExited"
  shows "(\<exists>t. worker_step wok s = Some t \<and> work_left t < work_left s) \<and> (\<forall>u. con_step s u \<longrightarrow> work_left u \<le> work_left s)"
proof -
  have i: "owner_inv s" by (rule con_reach_owner[OF assms(1,2)])
  then have c: "con_closed s" using assms(3) by (simp add: owner_inv_def)
  have "worker_step wok s \<noteq> None" using i assms(3-5)
    by (cases "con_worker s") (auto simp: owner_inv_def worker_step.simps split: list.splits)
  then have "\<exists>t. worker_step wok s = Some t \<and> work_left t < work_left s" using worker_progress[OF c] by blast
  then show ?thesis using no_more_work c i by blast
qed

definition example_waiting :: con_sys where
  "example_waiting = owner_wake (owner_close example_sent)"

lemma example_waiting_eq:
  "example_waiting = example_sent\<lparr>con_queue := [Rec example_record, Wake], con_closed := True, con_owner := OWaiting\<rparr>"
  by (simp add: example_waiting_def con_defs example_sent_eq with_writer_def CONSOLE_CAPACITY_def)

lemma example_waiting_reach: "con_reach CONSOLE_CAPACITY example_waiting"
  unfolding example_waiting_def
  by (rule con_reach.step[OF con_reach.step[OF example_sent_reach close] wake])
    (simp_all add: con_defs example_sent_eq with_writer_def)

theorem console_writer_exits_witness:
  "\<exists>t. worker_step (\<lambda>r. True) example_waiting = Some t \<and> work_left t < work_left example_waiting"
  using console_writer_exits[OF example_waiting_reach, of "\<lambda>r. True"]
  by (simp add: example_waiting_eq example_sent_eq with_writer_def CONSOLE_CAPACITY_def)

section \<open>What a finished console has written\<close>

text \<open>The runs from a state, and what holds along them when no emit was between its check and its send at the close.\<close>

inductive con_run :: "con_sys \<Rightarrow> con_sys \<Rightarrow> bool" for s where
  stay: "con_run s s"
| more: "con_run s t \<Longrightarrow> con_step t u \<Longrightarrow> con_run s u"

lemma con_run_reach: "con_run s t \<Longrightarrow> con_reach cap s \<Longrightarrow> con_reach cap t"
  by (induction rule: con_run.induct) (auto intro: con_reach.step)

fun drained :: "worker \<Rightarrow> bool" where
  "drained WBreak = True"
| "drained WSignalled = True"
| "drained WExited = True"
| "drained _ = False"

definition quiet_inv :: "con_sys \<Rightarrow> bool" where
  "quiet_inv s \<longleftrightarrow> con_closed s \<and> con_sending s = {#} \<and> (drained (con_worker s) \<longrightarrow> recs (con_queue s) = [])"

lemma quiet_step:
  assumes "con_step s t" "quiet_inv s" shows "quiet_inv t"
  using assms
proof (cases rule: con_step.cases)
  case (worker wok)
  then show ?thesis using assms(2)
    by (cases "con_worker s")
      (auto simp: quiet_inv_def worker_step.simps handle_event_def split: list.splits console_event.splits if_splits)
qed (auto simp: quiet_inv_def con_defs Let_def split: prod.splits)

lemma quiet_run:
  assumes "con_reach cap s" "0 < cap" "con_owner s = OIdle" "con_sending s = {#}" "con_run (owner_close s) t"
  shows "quiet_inv t"
  using assms(5)
proof (induction rule: con_run.induct)
  case stay
  have "\<not> past_close (con_worker s)" using con_reach_owner[OF assms(1,2)] assms(3) by (auto simp: owner_inv_def)
  then show ?case using assms(4) by (cases "con_worker s") (simp_all add: quiet_inv_def owner_close_def)
next
  case (more t u) then show ?case using quiet_step by blast
qed

text \<open>When no emit stands between its check of the closed flag and its send at the moment of the close, a shutdown
  that finishes without a time-out has written every accepted record, in order, and each record offered was written or
  counted as dropped, those apart that are still being emitted.\<close>

lemma console_drained:
  assumes "con_reach cap s" "0 < cap" "con_owner s = OIdle" "con_sending s = {#}" "con_run (owner_close s) t"
    and "con_owner t = OFinished st" "\<not> cst_timed_out st"
  shows "map fst (con_output t) = con_accepted t \<and>
         mset (con_offered t) = mset (map fst (con_output t)) + mset (con_refused t) + con_ready t \<and>
         con_dropped t = of_nat (length (con_refused t))"
proof -
  have r: "con_reach cap t"
    using con_run_reach[OF assms(5)] con_reach.step[OF assms(1) con_step.close[OF assms(3)]] by blast
  have q: "quiet_inv t" by (rule quiet_run[OF assms(1-5)])
  have "done_sent t" using con_reach_owner[OF r assms(2)] assms(6,7) by (auto simp: owner_inv_def)
  then have "in_hand (con_worker t) = []" "recs (con_queue t) = []" using q by (auto simp: done_sent_def quiet_inv_def)
  then have "map fst (con_output t) = con_accepted t" using console_accounting_lemma(1)[OF r] by simp
  then show ?thesis using console_accounting_lemma(2,4)[OF r] q by (simp add: quiet_inv_def)
qed

lemma run_worker: "con_run s t \<Longrightarrow> worker_step wok t \<noteq> None \<Longrightarrow> con_run s (the (worker_step wok t))"
  by (erule con_run.more, rule con_step.worker[of wok]) simp

fun worker_steps :: "nat \<Rightarrow> con_sys \<Rightarrow> con_sys" where
  "worker_steps 0 s = s"
| "worker_steps (Suc n) s = worker_steps n (the (worker_step (\<lambda>r. True) s))"

lemma run_workers: "con_run s t \<Longrightarrow> \<forall>k<n. worker_step (\<lambda>r. True) (worker_steps k t) \<noteq> None \<Longrightarrow> con_run s (worker_steps n t)"
proof (induction n arbitrary: t)
  case (Suc n)
  have "worker_step (\<lambda>r. True) t \<noteq> None" using Suc.prems(2)[rule_format, of 0] by simp
  moreover have "\<forall>k<n. worker_step (\<lambda>r. True) (worker_steps k (the (worker_step (\<lambda>r. True) t))) \<noteq> None"
    using Suc.prems(2) by (metis Suc_mono worker_steps.simps(2))
  ultimately show ?case using Suc.IH run_worker[OF Suc.prems(1)] by simp
qed simp

definition example_finished :: con_sys where
  "example_finished = owner_finish False ((worker_steps 9 example_waiting)\<lparr>con_owner := OJoining\<rparr>)"

lemma example_worker:
  "\<forall>k<9. worker_step (\<lambda>r. True) (worker_steps k example_waiting) \<noteq> None"
  "worker_steps 9 example_waiting = example_waiting\<lparr>con_queue := [], con_worker := WExited, con_output := [(example_record, True)]\<rparr>"
  by (simp_all add: All_less_Suc eval_nat_numeral worker_step.simps handle_event_def example_waiting_eq example_sent_eq with_writer_def)

lemma example_finished_run: "con_run (owner_close example_sent) example_finished"
proof -
  have "con_run (owner_close example_sent) example_waiting" unfolding example_waiting_def
    by (rule con_run.more[OF con_run.stay wake]) (simp add: owner_close_def)
  then have "con_run (owner_close example_sent) (worker_steps 9 example_waiting)" by (rule run_workers) (rule example_worker)
  then show ?thesis unfolding example_finished_def
    by (rule con_run.more[OF con_run.more[OF _ done_seen] join])
      (unfold example_worker(2) done_sent_def, simp_all, simp_all add: example_waiting_eq)
qed

section \<open>A record lost at the shutdown\<close>

text \<open>An emit that found the queue open and sends after the writer thread took its last look at the queue, but before the
  receiver is dropped, has its record accepted and thrown away: nothing is written and no counter shows a loss.\<close>

lemma reach_worker: "con_reach cap s \<Longrightarrow> worker_step wok s \<noteq> None \<Longrightarrow> con_reach cap (the (worker_step wok s))"
  by (erule con_reach.step, rule con_step.worker[of wok]) simp

lemma console_loses_record:
  "\<exists>s st. con_reach CONSOLE_CAPACITY s \<and> con_owner s = OFinished st \<and> \<not> has_loss st \<and>
     con_ready s = {#} \<and> con_sending s = {#} \<and> length (con_offered s) = 1 \<and> con_output s = []"
proof -
  let ?r = "\<lparr>cr_level = LogLevel, cr_message = ''x''\<rparr>"
  let ?w = "\<lambda>s. the (worker_step (\<lambda>_. True) s)"
  let ?a = "owner_wake (owner_close (emit_load ?r (emit_begin LogLevel ''x'' (with_writer CONSOLE_CAPACITY))))"
  let ?b = "?w (?w (?w (?w ?a)))"
  let ?c = "?w (?w (emit_send ?r ?b))"
  let ?d = "?c\<lparr>con_owner := OJoining\<rparr>"
  have 1: "con_reach CONSOLE_CAPACITY (emit_begin LogLevel ''x'' (with_writer CONSOLE_CAPACITY))"
    by (blast intro: con_reach.intros con_step.intros)
  have m: "make_record LogLevel ''x'' = (?r, False)" by (simp add: make_record_def MAX_MESSAGE_BYTES_def)
  note d = con_defs with_writer_def m worker_step.simps CONSOLE_CAPACITY_def Let_def
  have 2: "con_reach CONSOLE_CAPACITY ?a"
    by (rule con_reach.step[OF con_reach.step[OF con_reach.step[OF 1 load_closed] close] wake]) (simp_all add: d)
  have 3: "con_reach CONSOLE_CAPACITY ?b"
    by (rule reach_worker[OF reach_worker[OF reach_worker[OF reach_worker[OF 2]]]]) (simp_all add: d)
  have 4: "con_reach CONSOLE_CAPACITY ?c"
    by (rule reach_worker[OF reach_worker[OF con_reach.step[OF 3 send_record]]]) (simp_all add: d)
  have 5: "con_reach CONSOLE_CAPACITY (owner_finish False ?d)"
    by (rule con_reach.step[OF con_reach.step[OF 4 done_seen] join]) (simp_all add: d)
  show ?thesis
    by (rule exI[of _ "owner_finish False ?d"], rule exI[of _ "stats_of False ?d"]) (use 5 in \<open>simp add: d has_loss_def\<close>)
qed

section \<open>The bound of a message\<close>

lemma boundary_below: "boundary_below s i \<le> i" "is_char_boundary s (boundary_below s i)"
  by (induction i) (auto simp: is_char_boundary_def)

text \<open>A record holds at most the bound, the longest prefix of the message that ends between characters.\<close>

lemma make_record_bounded:
  assumes "make_record level msg = (r, truncated)"
  shows "length (cr_message r) \<le> MAX_MESSAGE_BYTES" "prefix (cr_message r) msg" "truncated \<longleftrightarrow> cr_message r \<noteq> msg"
    "is_char_boundary msg (length (cr_message r))"
proof -
  have b: "boundary_below msg MAX_MESSAGE_BYTES \<le> MAX_MESSAGE_BYTES" by (rule boundary_below(1))
  show "length (cr_message r) \<le> MAX_MESSAGE_BYTES" using assms b by (auto simp: make_record_def split: if_splits)
  show "prefix (cr_message r) msg" using assms by (auto simp: make_record_def take_is_prefix split: if_splits)
  show "truncated \<longleftrightarrow> cr_message r \<noteq> msg"
  proof -
    have "take (boundary_below msg MAX_MESSAGE_BYTES) msg \<noteq> msg" if "MAX_MESSAGE_BYTES < length msg"
    proof
      assume "take (boundary_below msg MAX_MESSAGE_BYTES) msg = msg"
      then have "length msg \<le> boundary_below msg MAX_MESSAGE_BYTES" by (metis length_take min.cobounded2)
      then show False using that b by linarith
    qed
    then show ?thesis using assms by (auto simp: make_record_def split: if_splits)
  qed
  show "is_char_boundary msg (length (cr_message r))"
  proof (cases "MAX_MESSAGE_BYTES < length msg")
    case True
    then have "length (cr_message r) = boundary_below msg MAX_MESSAGE_BYTES" using assms b by (auto simp: make_record_def)
    then show ?thesis using boundary_below(2) by simp
  next
    case False then show ?thesis using assms by (auto simp: make_record_def is_char_boundary_def)
  qed
qed

text \<open>The text of a console call before it is bounded, and what the bounded text is of it.\<close>

definition add_whole :: "nat \<Rightarrow> utf16 \<Rightarrow> utf16 \<Rightarrow> utf16" where
  "add_whole i part message = (if 0 < i then message @ [0x20] else message) @ part"

definition whole_message :: "utf16 list \<Rightarrow> utf16" where
  "whole_message parts = fold (\<lambda>(i, part). add_whole i part) (zip [0..<length parts] parts) []"

definition bounded_of :: "utf16 \<Rightarrow> utf16 \<Rightarrow> bool" where
  "bounded_of m f \<longleftrightarrow> prefix m f \<and> length m \<le> message_limit + 1 \<and> (m = f \<or> message_limit \<le> length m)"

lemma bounded_add:
  assumes "bounded_of m f" shows "bounded_of (add_part i part m) (add_whole i part f)"
proof (cases "length m < message_limit")
  case False
  then show ?thesis using assms by (auto simp: bounded_of_def add_part_def add_whole_def)
next
  case True
  then have mf: "m = f" using assms by (simp add: bounded_of_def)
  define m1 where "m1 = (if 0 < i then m @ [0x20] else m)"
  define e0 where "e0 = min (length part) (message_limit - length m1)"
  define e1 where "e1 = (if 0 < e0 \<and> e0 < length part \<and> high_surrogate (part ! (e0 - 1)) \<and> low_surrogate (part ! e0) then e0 + 1 else e0)"
  have a: "add_part i part m = m1 @ take e1 part" unfolding add_part_def m1_def e0_def e1_def Let_def by (simp only: True if_True)
  have w: "add_whole i part f = m1 @ part" by (simp add: add_whole_def m1_def mf)
  have l1: "length m1 \<le> message_limit" using True by (simp add: m1_def)
  have e: "e0 \<le> e1" "e1 \<le> e0 + 1" "e1 \<le> length part" by (auto simp: e1_def e0_def)
  have len: "length (take e1 part) = e1" using e(3) by simp
  show ?thesis
  proof (cases "e1 = length part")
    case True
    then show ?thesis using e l1 unfolding bounded_of_def a w by (auto simp: e0_def min_def split: if_splits)
  next
    case False
    then have "e0 = message_limit - length m1" using e by (auto simp: e0_def min_def split: if_splits)
    then show ?thesis using e l1 len unfolding bounded_of_def a w by (auto simp: take_is_prefix)
  qed
qed

lemma console_message_bounded: "bounded_of (console_message parts) (whole_message parts)"
proof -
  have "bounded_of (fold (\<lambda>(i, part). add_part i part) ps m) (fold (\<lambda>(i, part). add_whole i part) ps f)" if "bounded_of m f" for ps m f
    using that by (induction ps arbitrary: m f) (auto simp: bounded_add)
  moreover have "bounded_of [] []" by (simp add: bounded_of_def)
  ultimately show ?thesis by (simp add: console_message_def whole_message_def)
qed

text \<open>A message is counted as truncated exactly when its whole text exceeds the bound, although the script's side only
  passes on a part of it: \<open>enc\<close> is the conversion to UTF-8, no shorter than the UTF-16 text.\<close>

lemma truncation_counted:
  assumes "\<And>u. length u \<le> length (enc u)"
  shows "snd (make_record level (enc (console_message parts))) \<longleftrightarrow> MAX_MESSAGE_BYTES < length (enc (whole_message parts))"
proof (cases "console_message parts = whole_message parts")
  case True then show ?thesis by (simp add: make_record_def)
next
  case False
  then have "message_limit \<le> length (console_message parts)" "prefix (console_message parts) (whole_message parts)"
    using console_message_bounded[of parts] by (auto simp: bounded_of_def)
  then have "message_limit \<le> length (enc (console_message parts))" "message_limit \<le> length (enc (whole_message parts))"
    using assms[of "console_message parts"] assms[of "whole_message parts"] prefix_length_le[of "console_message parts" "whole_message parts"]
    by linarith+
  then show ?thesis by (simp add: make_record_def message_limit_def)
qed

end
