(* ===== verification/Cli.thy ===== *)
theory Cli
  imports Pool Outputs Console
begin

text \<open>
  The command line, \<open>crates/k6-cli/src/main.rs\<close> and \<open>env.rs\<close>: environment variables and their commands, the merging
  of options, the overrides of the flags, what each scenario is run with, the virtual user gauge shared by the
  scenarios, the end of the scenarios, and the order and exit status of a run.  The arguments are already split into
  fields (clap); the \<open>.env\<close> reader is the parameter \<open>dotenv\<close>, with \<open>None\<close> where it cannot open the file, and a
  shell command is the parameter \<open>shell\<close>.  Texts of bytes are taken as UTF-8.
\<close>

section \<open>Environment variables\<close>

datatype env_error = BadEnvFormat string | EmptyEnvName string | CommandFailed string string

type_synonym dotenv_items = "(string + string \<times> string) list"

definition load_dotenv_file :: "dotenv_items option \<Rightarrow> string list \<times> (string, string) hm" where
  "load_dotenv_file items =
     (case items of
        None \<Rightarrow> ([], [])
      | Some xs \<Rightarrow>
          (let m = fold (\<lambda>item m. case item of Inl e \<Rightarrow> m | Inr (key, v) \<Rightarrow> hm_put key v m) xs [];
               warnings = concat (map (\<lambda>item. case item of Inl e \<Rightarrow> [''  warning: skipping invalid .env entry: '' @ e] | Inr p \<Rightarrow> []) xs)
           in (warnings @ (if m = [] then [] else [''  reading '' @ dec (int (length m)) @ '' environment variable(s) from .env file'']), m)))"

definition hm_extend :: "('k, 'v) hm \<Rightarrow> ('k, 'v) hm \<Rightarrow> ('k, 'v) hm" where
  "hm_extend new m = fold (\<lambda>(k, v). hm_put k v) new m"

fun apply_cli_envs :: "string list \<Rightarrow> (string, string) hm \<Rightarrow> env_error + (string, string) hm" where
  "apply_cli_envs [] m = Inr m"
| "apply_cli_envs (s # ss) m =
     (case split_once (CHR ''='') s of
        (k, None) \<Rightarrow> Inl (BadEnvFormat s)
      | (k, Some v) \<Rightarrow> if k = [] then Inl (EmptyEnvName s) else apply_cli_envs ss (hm_put k v m))"

definition CMD_PREFIX :: string where "CMD_PREFIX = ''cmd:''"

definition resolved_mark :: string where
  "resolved_mark = '' '' @ [CHR 0xE2, CHR 0x86, CHR 0x90] @ '' cmd:***''"

fun resolve_keys ::
    "(string \<Rightarrow> string + string) \<Rightarrow> string list \<Rightarrow> string list \<Rightarrow> (string, string) hm \<Rightarrow> string list \<times> (env_error + (string, string) hm)" where
  "resolve_keys shell [] out m = (out, Inr m)"
| "resolve_keys shell (key # keys) out m =
     (case shell (drop (length CMD_PREFIX) (the (map_of m key))) of
        Inl e \<Rightarrow> (out, Inl (CommandFailed key e))
      | Inr v \<Rightarrow> resolve_keys shell keys (out @ [''    '' @ key @ resolved_mark]) (hm_put key v m))"

definition resolve_commands ::
    "(string \<Rightarrow> string + string) \<Rightarrow> string list \<Rightarrow> (string, string) hm \<Rightarrow> string list \<times> (env_error + (string, string) hm)" where
  "resolve_commands shell out m =
     (let cmd_keys = map fst (filter (\<lambda>(k, v). starts_with CMD_PREFIX v) m)
      in if cmd_keys = [] then (out, Inr m)
         else resolve_keys shell cmd_keys
                (out @ [''  resolving '' @ dec (int (length cmd_keys)) @ '' environment variable(s) via shell commands'']) m)"

fun load_dir :: "(string \<Rightarrow> dotenv_items option) \<Rightarrow> string \<Rightarrow> string list \<times> (string, string) hm \<Rightarrow> string list \<times> (string, string) hm" where
  "load_dir dotenv dir (out, m) = (case load_dotenv_file (dotenv dir) of (o1, d) \<Rightarrow> (out @ o1, hm_extend d m))"

definition resolve_env_vars_from_dirs ::
    "(string \<Rightarrow> dotenv_items option) \<Rightarrow> (string \<Rightarrow> string + string) \<Rightarrow> string list \<Rightarrow> string list \<Rightarrow>
     string list \<times> (env_error + (string, string) hm)" where
  "resolve_env_vars_from_dirs dotenv shell cli_envs dirs =
     (case fold (load_dir dotenv) (rev dirs) ([], []) of
        (out, m) \<Rightarrow>
          (case apply_cli_envs cli_envs m of
             Inl e \<Rightarrow> (out, Inl e)
           | Inr m \<Rightarrow> resolve_commands shell out m))"

definition resolve_env_vars ::
    "(string \<Rightarrow> dotenv_items option) \<Rightarrow> (string \<Rightarrow> string + string) \<Rightarrow> string list \<Rightarrow> string \<Rightarrow> string list \<times> (env_error + (string, string) hm)" where
  "resolve_env_vars dotenv shell cli_envs dir = resolve_env_vars_from_dirs dotenv shell cli_envs [dir]"

text \<open>The wait for a command: what the process or the time-out reports, and what is made of it.\<close>

datatype shell_outcome =
  SpawnFailed | Exited (so_success: bool) (so_status: string) (so_stdout: string) (so_stderr: string) | WaitFailed | ShellTimedOut

definition shell_exec :: "(string \<Rightarrow> shell_outcome) \<Rightarrow> string \<Rightarrow> string + string" where
  "shell_exec wait cmd =
     (case wait cmd of
        SpawnFailed \<Rightarrow> Inl (''failed to spawn shell for: '' @ cmd)
      | Exited success status out err \<Rightarrow>
          if \<not> success then Inl (''command exited with '' @ status @ '': '' @ cmd @ [newline] @ ''stderr: '' @ trim err) else Inr (trim out)
      | WaitFailed \<Rightarrow> Inl (''I/O error running command: '' @ cmd)
      | ShellTimedOut \<Rightarrow> Inl (''command timed out after 30s (is it prompting for a password?): '' @ cmd))"

text \<open>The directories looked at: one when the script lies in the working directory.\<close>

definition run_env ::
    "(string \<Rightarrow> dotenv_items option) \<Rightarrow> (string \<Rightarrow> string + string) \<Rightarrow> string list \<Rightarrow> string \<Rightarrow> string \<Rightarrow>
     string list \<times> (env_error + (string, string) hm)" where
  "run_env dotenv shell cli_envs cwd script_dir =
     (if cwd = script_dir then resolve_env_vars dotenv shell cli_envs cwd
      else resolve_env_vars_from_dirs dotenv shell cli_envs [cwd, script_dir])"

section \<open>Merging of options\<close>

fun bt_remove :: "'k \<Rightarrow> ('k, 'v) btm \<Rightarrow> ('k, 'v) btm" where
  "bt_remove k [] = []"
| "bt_remove k ((j, v) # m) = (if j = k then m else (j, v) # bt_remove k m)"

fun merge_json :: "json \<Rightarrow> json \<Rightarrow> json" and merge_entries :: "json_map \<Rightarrow> json_map \<Rightarrow> json_map" where
  "merge_json (JObject base_map) (JObject overlay_map) = JObject (merge_entries base_map overlay_map)"
| "merge_json base overlay = overlay"
| "merge_entries base_map [] = base_map"
| "merge_entries base_map ((key, overlay_val) # overlay_map) =
     merge_entries
       (bt_put key (case map_of base_map key of Some base_val \<Rightarrow> merge_json base_val overlay_val | None \<Rightarrow> overlay_val)
         (bt_remove key base_map)) overlay_map"

definition merged_options :: "json option \<Rightarrow> json \<Rightarrow> json" where
  "merged_options config_file script_options =
     (case config_file of Some config_value \<Rightarrow> merge_json config_value script_options | None \<Rightarrow> script_options)"

section \<open>Overrides\<close>

record cli_overrides =
  ov_address :: "string option"
  ov_paused :: bool
  ov_vus :: "u32 option"
  ov_duration :: "string option"
  ov_iterations :: "u32 option"
  ov_stages :: "string list"
  ov_insecure_skip_tls_verify :: bool
  ov_no_connection_reuse :: bool
  ov_no_vu_connection_reuse :: bool
  ov_max_redirects :: "u32 option"
  ov_user_agent :: "string option"
  ov_http_debug :: "string option"
  ov_rps :: "u32 option"
  ov_throw :: bool
  ov_discard_response_bodies :: bool
  ov_blacklist_ips :: "string list"
  ov_block_hostnames :: "string list"
  ov_local_ips :: "string option"
  ov_dns :: "string option"
  ov_no_setup :: bool
  ov_no_teardown :: bool
  ov_no_thresholds :: bool
  ov_no_summary :: bool
  ov_summary_export :: "string option"
  ov_console_output :: "string option"
  ov_envs :: "string list"
  ov_tags :: "string list"
  ov_out_buffer_size :: "nat option"

text \<open>What the arguments and the environment of the process make of two of them, and of the outputs.\<close>

definition effective_address :: "string option \<Rightarrow> string option \<Rightarrow> string option" where
  "effective_address arg k6_address =
     (case (case arg of Some a \<Rightarrow> Some a | None \<Rightarrow> k6_address) of None \<Rightarrow> None | Some a \<Rightarrow> if a = [] then None else Some a)"

definition effective_paused :: "bool \<Rightarrow> string option \<Rightarrow> bool" where
  "effective_paused paused k6_paused \<longleftrightarrow> paused \<or> k6_paused = Some ''true''"

definition with_influxdb :: "string list \<Rightarrow> string option \<Rightarrow> string list" where
  "with_influxdb outs influxdb = (case influxdb of None \<Rightarrow> outs | Some address \<Rightarrow> outs @ [''influxdb='' @ address])"

text \<open>\<open>str::parse::<u32>\<close>.\<close>

definition parse_u32 :: "string \<Rightarrow> u32 option" where
  "parse_u32 s =
     (let digits = (case s of c # t \<Rightarrow> if c = CHR ''+'' then t else s | [] \<Rightarrow> [])
      in if digits \<noteq> [] \<and> list_all is_digit digits \<and> digits_val 0 digits < 2 ^ 32
         then Some (word_of_int (digits_val 0 digits)) else None)"

definition parse_stage_flag :: "string \<Rightarrow> config_error + stage" where
  "parse_stage_flag s =
     (case split_once (CHR '':'') s of
        (dur_str, None) \<Rightarrow> Inl (Msg (''invalid --stage format '' @ quoted s @ '', expected duration:target''))
      | (dur_str, Some target_str) \<Rightarrow>
          bind_r (parse_duration dur_str) (\<lambda>d.
          bind_r (context_o (''invalid target VU count in --stage '' @ quoted s) (parse_u32 target_str)) (\<lambda>t.
          Inr \<lparr>st_duration = d, st_target = t\<rparr>)))"

definition parse_stage_flags :: "string list \<Rightarrow> config_error + stage list" where
  "parse_stage_flags stages = collect_r (map parse_stage_flag stages)"

definition default_scenario_with_executor :: "executor_type \<Rightarrow> scenario_config" where
  "default_scenario_with_executor e =
     \<lparr>sc_executor = e, sc_exec = None, sc_start_time = 0, sc_graceful_stop = from_secs 30, sc_env = [], sc_tags = []\<rparr>"

definition default_scenario_template :: "test_config \<Rightarrow> scenario_config" where
  "default_scenario_template c =
     (case map_of (cfg_scenarios c) ''default'' of
        Some s \<Rightarrow> s
      | None \<Rightarrow> default_scenario_with_executor (ConstantVus (cfg_vus c) (cfg_duration c)))"

definition replace_default_scenario :: "scenario_config \<Rightarrow> executor_type \<Rightarrow> test_config \<Rightarrow> test_config" where
  "replace_default_scenario template e c = c\<lparr>cfg_scenarios := hm_put ''default'' (template\<lparr>sc_executor := e\<rparr>) []\<rparr>"

definition override_constant :: "cli_overrides \<Rightarrow> test_config \<Rightarrow> scenario_config \<Rightarrow> scenario_config" where
  "override_constant cli c s =
     (case sc_executor s of
        ConstantVus vus d \<Rightarrow>
          s\<lparr>sc_executor := ConstantVus (case ov_vus cli of Some v \<Rightarrow> v | None \<Rightarrow> vus) (if ov_duration cli \<noteq> None then cfg_duration c else d)\<rparr>
      | _ \<Rightarrow> s)"

definition apply_execution_overrides :: "cli_overrides \<Rightarrow> test_config \<Rightarrow> config_error + test_config" where
  "apply_execution_overrides cli c =
     (case ov_iterations cli of
        Some iters \<Rightarrow>
          Inr (replace_default_scenario (default_scenario_template c) (SharedIterations (cfg_vus c) iters (cfg_duration c)) c)
      | None \<Rightarrow>
          if ov_stages cli \<noteq> [] then
            bind_r (parse_stage_flags (ov_stages cli)) (\<lambda>stages.
              let template = default_scenario_template c;
                  graceful_ramp_down = (case sc_executor template of RampingVus v ss g \<Rightarrow> g | _ \<Rightarrow> from_secs 30)
              in Inr (replace_default_scenario template (RampingVus (cfg_vus c) stages graceful_ramp_down) c))
          else
            (case map_of (cfg_scenarios c) ''default'' of
               None \<Rightarrow>
                 if cfg_scenarios c = [] \<and> 0 < cfg_vus c
                 then Inr (c\<lparr>cfg_scenarios := hm_put ''default''
                             (default_scenario_with_executor (ConstantVus (cfg_vus c) (cfg_duration c))) (cfg_scenarios c)\<rparr>)
                 else Inr c
             | Some s \<Rightarrow> Inr (c\<lparr>cfg_scenarios := hm_put ''default'' (override_constant cli c s) (cfg_scenarios c)\<rparr>)))"

definition dns_part :: "string \<Rightarrow> dns_config \<Rightarrow> config_error + dns_config" where
  "dns_part part dns =
     (case split_once (CHR ''='') (trim part) of
        (key, None) \<Rightarrow> Inr dns
      | (key, Some val) \<Rightarrow>
          (if trim key = ''ttl'' then Inr (dns\<lparr>dns_ttl := Some (trim val)\<rparr>)
           else if trim key = ''select'' then Inr (dns\<lparr>dns_select := Some (trim val)\<rparr>)
           else if trim key = ''policy'' then Inr (dns\<lparr>dns_policy := Some (trim val)\<rparr>)
           else Inl (Msg (''unknown DNS option: '' @ trim key))))"

fun dns_parts :: "string list \<Rightarrow> dns_config \<Rightarrow> config_error + dns_config" where
  "dns_parts [] dns = Inr dns"
| "dns_parts (p # ps) dns = bind_r (dns_part p dns) (dns_parts ps)"

definition parse_dns_flag :: "string \<Rightarrow> config_error + dns_config" where
  "parse_dns_flag s =
     bind_r (dns_parts (split_on (CHR '','') s) \<lparr>dns_ttl = None, dns_select = None, dns_policy = None\<rparr>) (\<lambda>dns.
     bind_r (dns_validate dns) (\<lambda>_. Inr dns))"

text \<open>\<open>if flag { config.field = true }\<close> and \<open>if let Some(v) = value { config.field = v }\<close>.\<close>

definition opt_set :: "'a option \<Rightarrow> ('a \<Rightarrow> 'c \<Rightarrow> 'c) \<Rightarrow> 'c \<Rightarrow> 'c" where
  "opt_set x upd c = (case x of None \<Rightarrow> c | Some v \<Rightarrow> upd v c)"

definition apply_flags :: "cli_overrides \<Rightarrow> test_config \<Rightarrow> test_config" where
  "apply_flags cli c =
     (let c = c\<lparr>cfg_insecure_skip_tls_verify := cfg_insecure_skip_tls_verify c \<or> ov_insecure_skip_tls_verify cli,
                cfg_no_connection_reuse := cfg_no_connection_reuse c \<or> ov_no_connection_reuse cli,
                cfg_no_vu_connection_reuse := cfg_no_vu_connection_reuse c \<or> ov_no_vu_connection_reuse cli\<rparr>;
          c = opt_set (ov_max_redirects cli) (\<lambda>v c. c\<lparr>cfg_max_redirects := Some v\<rparr>) c;
          c = opt_set (ov_user_agent cli) (\<lambda>v c. c\<lparr>cfg_user_agent := Some v\<rparr>) c;
          c = opt_set (ov_http_debug cli) (\<lambda>v c. c\<lparr>cfg_http_debug := Some v\<rparr>) c;
          c = opt_set (ov_rps cli) (\<lambda>v c. c\<lparr>cfg_rps := v\<rparr>) c;
          c = c\<lparr>cfg_throw := cfg_throw c \<or> ov_throw cli,
                cfg_discard_response_bodies := cfg_discard_response_bodies c \<or> ov_discard_response_bodies cli\<rparr>;
          c = (if ov_blacklist_ips cli \<noteq> [] then c\<lparr>cfg_blacklist_ips := ov_blacklist_ips cli\<rparr> else c);
          c = (if ov_block_hostnames cli \<noteq> [] then c\<lparr>cfg_block_hostnames := ov_block_hostnames cli\<rparr> else c)
      in opt_set (ov_local_ips cli) (\<lambda>v c. c\<lparr>cfg_local_ips := map trim (split_on (CHR '','') v)\<rparr>) c)"

definition tag_scenario :: "(string, string) hm \<Rightarrow> scenario_config \<Rightarrow> scenario_config" where
  "tag_scenario run_tags s = s\<lparr>sc_tags := hm_extend run_tags (sc_tags s)\<rparr>"

definition apply_cli_overrides :: "cli_overrides \<Rightarrow> (string, string) hm \<Rightarrow> test_config \<Rightarrow> config_error + test_config" where
  "apply_cli_overrides cli run_tags c =
     (let c = opt_set (ov_vus cli) (\<lambda>v c. c\<lparr>cfg_vus := v\<rparr>) c
      in bind_r (case ov_duration cli of None \<Rightarrow> Inr c | Some d \<Rightarrow> bind_r (parse_duration d) (\<lambda>d. Inr (c\<lparr>cfg_duration := d\<rparr>))) (\<lambda>c.
         let c = apply_flags cli c
         in bind_r (case ov_dns cli of None \<Rightarrow> Inr c | Some s \<Rightarrow> bind_r (parse_dns_flag s) (\<lambda>d. Inr (c\<lparr>cfg_dns := Some d\<rparr>))) (\<lambda>c.
            let c = opt_set (ov_console_output cli) (\<lambda>v c. c\<lparr>cfg_console_output := Some v\<rparr>) c
            in bind_r (apply_execution_overrides cli c) (\<lambda>c.
               Inr (if run_tags = [] then c
                    else c\<lparr>cfg_scenarios := map (\<lambda>(name, s). (name, tag_scenario run_tags s)) (cfg_scenarios c)\<rparr>)))))"

fun run_tags :: "string list \<Rightarrow> (string, string) hm \<Rightarrow> config_error + (string, string) hm" where
  "run_tags [] m = Inr m"
| "run_tags (s # ss) m =
     (case split_once (CHR ''='') s of
        (k, None) \<Rightarrow> Inl (Msg (''invalid --tag format '' @ quoted s @ '', expected name=value''))
      | (k, Some v) \<Rightarrow>
          (if k = [] then Inl (Msg (''empty tag name in --tag '' @ quoted s))
           else if v = [] then Inl (Msg (''empty tag value in --tag '' @ quoted s))
           else run_tags ss (hm_put k v m)))"

text \<open>From the options to the configuration of the run.\<close>

definition run_config :: "json option \<Rightarrow> json \<Rightarrow> cli_overrides \<Rightarrow> config_error + test_config" where
  "run_config config_file script_options cli =
     bind_r (parse_options (merged_options config_file script_options)) (\<lambda>c.
     bind_r (run_tags (ov_tags cli) []) (\<lambda>tags. apply_cli_overrides cli tags c))"

section \<open>What the scenarios are run with\<close>

text \<open>\<open>max().unwrap_or(d).max(d)\<close> of the stage targets.\<close>

definition max_target :: "u32 \<Rightarrow> stage list \<Rightarrow> u32" where
  "max_target d stages = (case map st_target stages of [] \<Rightarrow> d | t # ts \<Rightarrow> fold max ts t)"

definition scenario_max_vus :: "executor_type \<Rightarrow> u32" where
  "scenario_max_vus e =
     (case e of
        ConstantVus vus d \<Rightarrow> vus
      | RampingVus start_vus stages g \<Rightarrow> max (max_target start_vus stages) start_vus
      | ConstantArrivalRate r tu d pre max_vus \<Rightarrow> (case max_vus of None \<Rightarrow> pre | Some m \<Rightarrow> m)
      | RampingArrivalRate r stages tu pre max_vus \<Rightarrow> (case max_vus of None \<Rightarrow> pre | Some m \<Rightarrow> m)
      | PerVuIterations vus i d \<Rightarrow> vus
      | SharedIterations vus i d \<Rightarrow> vus)"

definition run_max_vus :: "test_config \<Rightarrow> u32" where
  "run_max_vus c = sum_list (map (\<lambda>(name, s). scenario_max_vus (sc_executor s)) (cfg_scenarios c))"

definition executor_name :: "executor_type \<Rightarrow> string" where
  "executor_name e =
     (case e of
        ConstantVus _ _ \<Rightarrow> ''constant-vus''
      | RampingVus _ _ _ \<Rightarrow> ''ramping-vus''
      | ConstantArrivalRate _ _ _ _ _ \<Rightarrow> ''constant-arrival-rate''
      | RampingArrivalRate _ _ _ _ _ \<Rightarrow> ''ramping-arrival-rate''
      | PerVuIterations _ _ _ \<Rightarrow> ''per-vu-iterations''
      | SharedIterations _ _ _ \<Rightarrow> ''shared-iterations'')"

text \<open>The specification of the virtual users of a scenario and the executor it is handed to, the number of virtual
  users as a \<open>usize\<close>; a schedule that cannot be built is a panic of the task.\<close>

record vu_spec =
  vs_script :: string
  vs_env :: "(string, string) hm"
  vs_setup_data :: "string option"
  vs_exec_fn :: "string option"

definition vu_spec_of :: "string \<Rightarrow> (string, string) hm \<Rightarrow> string option \<Rightarrow> scenario_config \<Rightarrow> vu_spec" where
  "vu_spec_of script env setup_data s = \<lparr>vs_script = script, vs_env = env, vs_setup_data = setup_data, vs_exec_fn = sc_exec s\<rparr>"

datatype pool_call =
  CallConstantVus (pc_vus: nat) duration
| CallArrivalRate (pc_vus: nat) arrival_curve
| CallRampingVus (pc_vus: nat) vu_ramp_schedule
| CallPerVuIterations (pc_vus: nat) u32 duration
| CallSharedIterations (pc_vus: nat) u32 duration

definition executor_call :: "executor_type \<Rightarrow> pool_call option" where
  "executor_call e =
     (case e of
        ConstantVus vus d \<Rightarrow> Some (CallConstantVus (unat vus) d)
      | ConstantArrivalRate rate time_unit d pre max_vus \<Rightarrow>
          map_option (CallArrivalRate (unat (case max_vus of None \<Rightarrow> pre | Some m \<Rightarrow> m))) (arrival_constant rate time_unit d)
      | RampingVus start_vus stages g \<Rightarrow>
          map_option (CallRampingVus (unat (max (max_target start_vus stages) start_vus))) (vu_ramp_new start_vus stages)
      | RampingArrivalRate start_rate stages time_unit pre max_vus \<Rightarrow>
          map_option (CallArrivalRate (unat (case max_vus of None \<Rightarrow> pre | Some m \<Rightarrow> m)))
            (arrival_new (f_of_u32 start_rate) stages time_unit)
      | PerVuIterations vus iterations d \<Rightarrow> Some (CallPerVuIterations (unat vus) iterations d)
      | SharedIterations vus iterations d \<Rightarrow> Some (CallSharedIterations (unat vus) iterations d))"

text \<open>The scenario whose executor the REST status shows: the one with the least name.\<close>

fun min_scenario :: "(string \<times> scenario_config) list \<Rightarrow> (string \<times> scenario_config) option" where
  "min_scenario [] = None"
| "min_scenario (p # ps) =
     (case min_scenario ps of None \<Rightarrow> Some p | Some q \<Rightarrow> if fst p \<le> fst q then Some p else Some q)"

section \<open>The banner\<close>

text \<open>\<open>{:?}\<close> of a duration.\<close>

definition decimal_debug :: "int \<Rightarrow> int \<Rightarrow> nat \<Rightarrow> string \<Rightarrow> string" where
  "decimal_debug whole part n unit_text =
     dec whole @ (if part = 0 then [] else ''.'' @ rev (dropWhile (\<lambda>c. c = CHR ''0'') (rev (zero_pad n (dec part))))) @ unit_text"

definition duration_debug :: "duration \<Rightarrow> string" where
  "duration_debug d =
     (if 1000000000 \<le> d then decimal_debug (d div 1000000000) (d mod 1000000000) 9 ''s''
      else if 1000000 \<le> d then decimal_debug (d div 1000000) (d mod 1000000) 6 ''ms''
      else if 1000 \<le> d then decimal_debug (d div 1000) (d mod 1000) 3 [CHR 0xC2, CHR 0xB5, CHR ''s'']
      else decimal_debug d 0 0 ''ns'')"

definition arrow :: string where "arrow = [CHR 0xE2, CHR 0x86, CHR 0x92]"

definition u32_text :: "u32 \<Rightarrow> string" where "u32_text n = dec (uint n)"

definition format_executor_desc :: "executor_type \<Rightarrow> string" where
  "format_executor_desc e =
     (case e of
        ConstantVus vus d \<Rightarrow> u32_text vus @ '' looping VUs for '' @ duration_debug d
      | RampingVus start_vus stages g \<Rightarrow>
          ''ramping '' @ u32_text start_vus @ arrow @ u32_text (max_target 0 stages) @ '' VUs over '' @
          duration_debug (sum_list (map st_duration stages))
      | ConstantArrivalRate rate tu d pre max_vus \<Rightarrow>
          u32_text rate @ '' iters/s for '' @ duration_debug d @ '' ('' @ u32_text pre @ '' pre-allocated VUs)''
      | RampingArrivalRate start_rate stages tu pre max_vus \<Rightarrow>
          ''ramping '' @ u32_text start_rate @ arrow @ u32_text (max_target 0 stages) @ '' iters/s over '' @
          duration_debug (sum_list (map st_duration stages)) @ '' ('' @ u32_text pre @ '' pre-allocated VUs)''
      | PerVuIterations vus iterations d \<Rightarrow>
          u32_text vus @ '' VUs '' @ [CHR 0xC3, CHR 0x97] @ '' '' @ u32_text iterations @ '' iterations each''
      | SharedIterations vus iterations d \<Rightarrow>
          u32_text iterations @ '' iterations shared across '' @ u32_text vus @ '' VUs'')"

definition memory_text :: "u32 \<Rightarrow> string" where
  "memory_text max_vus =
     (let estimated_mb = fadd (fmul (f_of_u32 max_vus) (flit 4)) (flit 50)
      in if fle (flit 1024) estimated_mb then fmt_fixed 1 (fdiv estimated_mb (flit 1024)) @ '' GB'' else fmt_fixed 0 estimated_mb @ '' MB'')"

definition print_banner :: "test_config \<Rightarrow> string \<Rightarrow> 'c outp list \<Rightarrow> string list" where
  "print_banner c script_path outs =
     [[],
      ''         /'' @ [CHR 0x5C] @ ''      k6-rs     /'' @ [CHR 0xE2, CHR 0x80, CHR 0xBE, CHR 0xE2, CHR 0x80, CHR 0xBE] @ ''/  '',
      ''    /'' @ [CHR 0x5C] @ ''  /  '' @ [CHR 0x5C] @ ''    |'' @ [CHR 0x5C] @ ''  __   /  /   '',
      ''   /  '' @ [CHR 0x5C] @ ''/    '' @ [CHR 0x5C] @ ''   | |/ /  /   '' @ [CHR 0xE2, CHR 0x80, CHR 0xBE, CHR 0xE2, CHR 0x80, CHR 0xBE] @ [CHR 0x5C] @ '' '',
      ''  /          '' @ [CHR 0x5C] @ ''   |   (  |  ('' @ [CHR 0xE2, CHR 0x80, CHR 0xBE] @ '')  |'',
      '' / __________ '' @ [CHR 0x5C] @ ''  |_|'' @ [CHR 0x5C] @ ''_'' @ [CHR 0x5C] @ ''  '' @ [CHR 0x5C] @ ''_____/ '',
      [],
      ''     execution: local'',
      ''        script: '' @ script_path,
      ''        output: '' @ (if outs = [] then ''-'' else join '', '' (map output_description outs)),
      ''     scenarios: '' @ dec (int (length (cfg_scenarios c))) @ '' scenario(s), '' @ u32_text (run_max_vus c) @ '' max VUs'',
      ''        memory: ~'' @ memory_text (run_max_vus c) @ '' (max '' @ u32_text (run_max_vus c) @ '' VUs)''] @
     map (\<lambda>(name, s). ''              * '' @ name @ '': '' @ format_executor_desc (sc_executor s)) (cfg_scenarios c) @ [[]]"

section \<open>The gauge of virtual users\<close>

text \<open>The total behind the mutex, and every value the gauge was set to under it.\<close>

record active_vus =
  av_total :: u32
  av_gauge :: "u32 list"

definition scenario_vus_new :: "u32 \<Rightarrow> active_vus \<Rightarrow> active_vus" where
  "scenario_vus_new cnt s = (let t = av_total s + cnt in \<lparr>av_total = t, av_gauge = av_gauge s @ [t]\<rparr>)"

definition scenario_vus_drop :: "u32 \<Rightarrow> active_vus \<Rightarrow> active_vus" where
  "scenario_vus_drop cnt s = (let t = av_total s - cnt in \<lparr>av_total = t, av_gauge = av_gauge s @ [t]\<rparr>)"

section \<open>The end of the scenarios\<close>

text \<open>What a scenario's task returns: its summary with the time since the start of the execution, nothing when the run
  was cancelled before it started (with the time when that is noticed), or an error.\<close>

datatype join_result = ScenarioDone string u32 run_summary duration | ScenarioCancelled duration | ScenarioFailed string

record drain_state =
  dr_error :: "string option"
  dr_duration :: duration
  dr_cancelled :: bool
  dr_lines :: "string list"
  dr_dropped :: "u64 list"
  dr_pushes :: nat

definition scenario_lines :: "string \<Rightarrow> u32 \<Rightarrow> run_summary \<Rightarrow> string list" where
  "scenario_lines name num_vus s =
     [''  scenario '' @ name @ '': '' @ u64_text (iterations_completed s) @ '' iterations in '' @ duration_debug (run_duration s)] @
     (if 0 < iterations_errored s then [''    errored: '' @ u64_text (iterations_errored s) @ '' iterations''] else []) @
     (if 0 < iterations_interrupted s
      then [''    interrupted: '' @ u64_text (iterations_interrupted s) @ '' iterations (force-stopped at shutdown)''] else []) @
     (if 0 < vus_degraded s
      then [''    WARNING: '' @ u64_text (vus_degraded s) @ '' of '' @ u32_text num_vus @ '' VUs DEGRADED (failed/panicked, isolated) '' @
            [CHR 0xE2, CHR 0x80, CHR 0x94] @ '' run undercounted''] else []) @
     (if 0 < iterations_dropped s then [''    dropped: '' @ u64_text (iterations_dropped s) @ '' iterations''] else [])"

definition drain_one :: "join_result \<Rightarrow> drain_state \<Rightarrow> drain_state" where
  "drain_one r d =
     (case r of
        ScenarioCancelled now \<Rightarrow> d\<lparr>dr_duration := max (dr_duration d) now\<rparr>
      | ScenarioFailed e \<Rightarrow> d\<lparr>dr_cancelled := True, dr_error := (case dr_error d of None \<Rightarrow> Some e | Some e0 \<Rightarrow> Some e0)\<rparr>
      | ScenarioDone name num_vus s finished_at \<Rightarrow>
          d\<lparr>dr_duration := max (dr_duration d) finished_at, dr_lines := dr_lines d @ scenario_lines name num_vus s,
            dr_dropped := dr_dropped d @ (if 0 < iterations_dropped s then [iterations_dropped s] else []),
            dr_pushes := dr_pushes d + 1\<rparr>)"

definition drain_start :: drain_state where
  "drain_start = \<lparr>dr_error = None, dr_duration = 0, dr_cancelled = False, dr_lines = [], dr_dropped = [], dr_pushes = 0\<rparr>"

definition drain_scenarios :: "join_result list \<Rightarrow> drain_state" where
  "drain_scenarios rs = fold drain_one rs drain_start"

section \<open>The order of a run\<close>

text \<open>What the run learns from its surroundings after the outputs are started: whether a control exists and started it,
  the outcomes of the hooks, of the executors and of the files, and whether the control was stopped.\<close>

datatype hook_run = HookMissing | HookOk "string option" | HookError string

record run_world =
  rw_control :: bool
  rw_started :: bool
  rw_early_data :: "string option"
  rw_setup :: hook_run
  rw_stopped_in_setup :: bool
  rw_results :: "join_result list"
  rw_teardown :: hook_run
  rw_threshold_results :: "threshold_result list"
  rw_export_error :: "string option"
  rw_summary_vu_error :: "string option"
  rw_handle_summary :: hook_run
  rw_server :: bool
  rw_stopped :: bool

datatype run_event =
  SetupRan | ScenariosRan "string option" | TeardownRan | LifecycleClosed | ThresholdsJudged | SummaryExported | HandleSummaryUsed
| DefaultSummaryShown | ConsoleFinished | OutputsStopped | SinkCleared | ServerShutDown

text \<open>The data of \<open>setup()\<close>: not run, run by the control's lifecycle, or run in a virtual user of its own.\<close>

definition setup_phase :: "cli_overrides \<Rightarrow> run_world \<Rightarrow> string + string option \<times> run_event list" where
  "setup_phase cli w =
     (if \<not> rw_started w \<or> ov_no_setup cli then Inr (if rw_control w then rw_early_data w else None, [])
      else if rw_control w then
        (case rw_setup w of
           HookMissing \<Rightarrow> Inr (None, [])
         | HookOk data \<Rightarrow> Inr (data, [SetupRan])
         | HookError e \<Rightarrow> if rw_stopped_in_setup w then Inr (None, [SetupRan]) else Inl e)
      else
        (case rw_setup w of
           HookMissing \<Rightarrow> Inr (None, [])
         | HookOk data \<Rightarrow> Inr (data, [SetupRan])
         | HookError e \<Rightarrow> Inl e))"

definition teardown_phase :: "cli_overrides \<Rightarrow> run_world \<Rightarrow> string + run_event list" where
  "teardown_phase cli w =
     (if rw_started w \<and> \<not> ov_no_teardown cli then
        (case rw_teardown w of HookMissing \<Rightarrow> Inr [] | HookOk data \<Rightarrow> Inr [TeardownRan] | HookError e \<Rightarrow> Inl e)
      else Inr [])"

definition judged :: "cli_overrides \<Rightarrow> thresholds \<Rightarrow> run_world \<Rightarrow> threshold_result list option" where
  "judged cli ths w = (if \<not> ov_no_thresholds cli \<and> ths \<noteq> [] then Some (rw_threshold_results w) else None)"

definition summary_phase :: "cli_overrides \<Rightarrow> run_world \<Rightarrow> string + run_event list" where
  "summary_phase cli w =
     (if ov_no_summary cli then Inr []
      else case rw_summary_vu_error w of
             Some e \<Rightarrow> Inl e
           | None \<Rightarrow> (case rw_handle_summary w of HookOk outs \<Rightarrow> Inr [HandleSummaryUsed] | _ \<Rightarrow> Inr [DefaultSummaryShown]))"

definition export_phase :: "cli_overrides \<Rightarrow> run_world \<Rightarrow> string + run_event list" where
  "export_phase cli w =
     (case ov_summary_export cli of
        None \<Rightarrow> Inr []
      | Some path \<Rightarrow> (case rw_export_error w of Some e \<Rightarrow> Inl e | None \<Rightarrow> Inr [SummaryExported]))"

definition exit_status :: "bool \<Rightarrow> threshold_result list option \<Rightarrow> int" where
  "exit_status stopped results =
     (if stopped then 103 else case results of Some rs \<Rightarrow> if all_passed rs then 0 else 99 | None \<Rightarrow> 0)"

definition run_from_setup :: "cli_overrides \<Rightarrow> thresholds \<Rightarrow> run_world \<Rightarrow> string + run_event list \<times> int" where
  "run_from_setup cli ths w =
     bind_r (setup_phase cli w) (\<lambda>(setup_data, ev1).
     let drained = drain_scenarios (rw_results w)
     in case dr_error drained of
          Some e \<Rightarrow> Inl e
        | None \<Rightarrow>
            bind_r (teardown_phase cli w) (\<lambda>ev2.
            let results = judged cli ths w
            in bind_r (export_phase cli w) (\<lambda>ev3.
            bind_r (summary_phase cli w) (\<lambda>ev4.
            Inr (ev1 @ [ScenariosRan setup_data] @ ev2 @ (if rw_control w then [LifecycleClosed] else []) @
                 (if results \<noteq> None then [ThresholdsJudged] else []) @ ev3 @ ev4 @ [ConsoleFinished, OutputsStopped, SinkCleared] @
                 (if rw_server w then [ServerShutDown] else []),
                 exit_status (rw_stopped w) results)))))"

text \<open>The status of the process: an error is 1, an unknown executor 104.\<close>

datatype run_error = ConfigFailed config_error | RunFailed string

fun is_unknown_executor :: "config_error \<Rightarrow> bool" where
  "is_unknown_executor (UnknownExecutor kind) = True"
| "is_unknown_executor (Ctx msg e) = is_unknown_executor e"
| "is_unknown_executor (CtxValue msg j e) = is_unknown_executor e"
| "is_unknown_executor _ = False"

definition main_status :: "run_error + int \<Rightarrow> int" where
  "main_status r =
     (case r of
        Inr status \<Rightarrow> status
      | Inl (ConfigFailed e) \<Rightarrow> if is_unknown_executor e then 104 else 1
      | Inl (RunFailed msg) \<Rightarrow> 1)"

text \<open>The whole run: what fails before the options are known (reading the script, its environment and the files,
  evaluating the script for its options), the configuration, what fails between it and the setup (the
  outputs, the client, the console file and the REST server), and the run from the setup on.\<close>

definition run_test ::
    "string option \<Rightarrow> json option \<Rightarrow> json \<Rightarrow> cli_overrides \<Rightarrow> (test_config \<Rightarrow> string option) \<Rightarrow> run_world \<Rightarrow> run_error + int" where
  "run_test early config_file script_options cli startup w =
     (case early of Some e \<Rightarrow> Inl (RunFailed e)
      | None \<Rightarrow>
     (case run_config config_file script_options cli of Inl e \<Rightarrow> Inl (ConfigFailed e)
      | Inr c \<Rightarrow>
     (case startup c of Some e \<Rightarrow> Inl (RunFailed e)
      | None \<Rightarrow>
     (case run_from_setup cli (cfg_thresholds c) w of Inl e \<Rightarrow> Inl (RunFailed e)
      | Inr (events, status) \<Rightarrow> Inr status))))"

section \<open>Which value a variable has\<close>

text \<open>The value a key has before commands are run: its last assignment on the command line, or else its last entry in
  the first directory that has one.\<close>

definition env_items :: "string list \<Rightarrow> (string \<times> string) list" where
  "env_items cli_envs = map (\<lambda>s. case split_once (CHR ''='') s of (k, v) \<Rightarrow> (k, case v of None \<Rightarrow> [] | Some x \<Rightarrow> x)) cli_envs"

definition dotenv_entries :: "dotenv_items option \<Rightarrow> (string \<times> string) list" where
  "dotenv_entries items = (case items of None \<Rightarrow> [] | Some xs \<Rightarrow> concat (map (\<lambda>i. case i of Inl e \<Rightarrow> [] | Inr p \<Rightarrow> [p]) xs))"

fun first_dir :: "(string \<Rightarrow> dotenv_items option) \<Rightarrow> string list \<Rightarrow> string \<Rightarrow> string option" where
  "first_dir dotenv [] k = None"
| "first_dir dotenv (d # ds) k =
     (case map_of (rev (dotenv_entries (dotenv d))) k of Some v \<Rightarrow> Some v | None \<Rightarrow> first_dir dotenv ds k)"

definition raw_value :: "(string \<Rightarrow> dotenv_items option) \<Rightarrow> string list \<Rightarrow> string list \<Rightarrow> string \<Rightarrow> string option" where
  "raw_value dotenv cli_envs dirs k =
     (case map_of (rev (env_items cli_envs)) k of Some v \<Rightarrow> Some v | None \<Rightarrow> first_dir dotenv dirs k)"

lemma hm_wf_Nil [simp]: "hm_wf []"
  by (simp add: hm_wf_def)

lemma load_dotenv_puts: "snd (load_dotenv_file items) = fold (\<lambda>(k, v). hm_put k v) (dotenv_entries items) []"
proof (cases items)
  case (Some xs)
  have "fold (\<lambda>item m. case item of Inl e \<Rightarrow> m | Inr (key, v) \<Rightarrow> hm_put key v m) xs m =
      fold (\<lambda>(k, v). hm_put k v) (concat (map (\<lambda>i. case i of Inl e \<Rightarrow> [] | Inr p \<Rightarrow> [p]) xs)) m" for m
    by (induction xs arbitrary: m) (auto split: sum.splits)
  then show ?thesis by (simp add: load_dotenv_file_def dotenv_entries_def Some Let_def)
qed (simp add: load_dotenv_file_def dotenv_entries_def)

lemma load_dotenv_get:
  "hm_wf (snd (load_dotenv_file items))" "map_of (snd (load_dotenv_file items)) k = map_of (rev (dotenv_entries items)) k"
  unfolding load_dotenv_puts by (simp_all add: hm.wf_puts hm.get_puts split: option.splits)

lemma map_of_rev: "distinct (map fst xs) \<Longrightarrow> map_of (rev xs) = map_of xs"
  by (subst map_of_inject_set) (simp_all add: rev_map[symmetric])

lemma hm_extend_get:
  assumes "hm_wf new" "hm_wf m"
  shows "hm_wf (hm_extend new m)" "map_of (hm_extend new m) k = (case map_of new k of None \<Rightarrow> map_of m k | Some v \<Rightarrow> Some v)"
proof -
  have "map_of (rev new) = map_of new" using assms(1) by (simp add: hm_wf_def map_of_rev)
  then show "hm_wf (hm_extend new m)" "map_of (hm_extend new m) k = (case map_of new k of None \<Rightarrow> map_of m k | Some v \<Rightarrow> Some v)"
    by (simp_all add: hm_extend_def hm.wf_puts[OF assms(2)] hm.get_puts[OF assms(2)])
qed

lemma dirs_get:
  "hm_wf (snd (fold (load_dir dotenv) (rev dirs) ([], []))) \<and> map_of (snd (fold (load_dir dotenv) (rev dirs) ([], []))) k = first_dir dotenv dirs k"
proof (induction dirs)
  case (Cons d ds)
  obtain out m where om: "fold (load_dir dotenv) (rev ds) ([], []) = (out, m)" by force
  obtain o1 x where x: "load_dotenv_file (dotenv d) = (o1, x)" by force
  show ?case using Cons om x load_dotenv_get[of "dotenv d"] hm_extend_get[of x m] by (simp split: option.splits)
qed simp

lemma apply_cli_envs_puts: "apply_cli_envs ss m = Inr m' \<Longrightarrow> m' = fold (\<lambda>(k, v). hm_put k v) (env_items ss) m"
  by (induction ss arbitrary: m) (auto simp: env_items_def split: prod.splits option.splits if_splits)

lemma drop_prefix: "drop (length CMD_PREFIX) v = drop 4 v"
  by (simp add: CMD_PREFIX_def eval_nat_numeral)

lemma resolve_keys_get:
  assumes "resolve_keys shell keys out m = (out', Inr m')" "distinct keys" "set keys \<subseteq> dom (map_of m)" "hm_wf m"
  shows "hm_wf m' \<and> (\<forall>k. if k \<in> set keys then \<exists>x. shell (drop 4 (the (map_of m k))) = Inr x \<and> map_of m' k = Some x
                      else map_of m' k = map_of m k)"
  using assms
proof (induction keys arbitrary: out m)
  case (Cons key keys)
  obtain v where v: "shell (drop 4 (the (map_of m key))) = Inr v" and
    r: "resolve_keys shell keys (out @ [''    '' @ key @ resolved_mark]) (hm_put key v m) = (out', Inr m')"
    using Cons.prems(1) by (simp only: resolve_keys.simps drop_prefix) (auto split: sum.splits)
  have ih: "hm_wf m' \<and> (\<forall>k. if k \<in> set keys then \<exists>x. shell (drop 4 (the (map_of (hm_put key v m) k))) = Inr x \<and> map_of m' k = Some x
                      else map_of m' k = map_of (hm_put key v m) k)"
    by (rule Cons.IH[OF r]) (use Cons.prems in \<open>auto simp: hm_get_put\<close>)
  show ?case
  proof (intro conjI allI)
    show "hm_wf m'" using ih by simp
    fix k
    show "if k \<in> set (key # keys) then \<exists>x. shell (drop 4 (the (map_of m k))) = Inr x \<and> map_of m' k = Some x else map_of m' k = map_of m k"
      using ih[THEN conjunct2, rule_format, of k] Cons.prems(2) v by (auto simp: hm_get_put split: if_splits)
  qed
qed simp

text \<open>C29.  When the environment of a run resolves, every variable has the value of its last assignment on the command
  line, or else of the first directory whose \<open>.env\<close> file has it, or else none; and a value that starts with
  \<open>cmd:\<close> is replaced by what its command printed, exactly once: what a command prints is never run again.\<close>

theorem env_precedence:
  assumes "resolve_env_vars_from_dirs dotenv shell cli_envs dirs = (out, Inr m)"
  shows "case raw_value dotenv cli_envs dirs k of
           None \<Rightarrow> map_of m k = None
         | Some v \<Rightarrow> if starts_with ''cmd:'' v then \<exists>x. shell (drop 4 v) = Inr x \<and> map_of m k = Some x else map_of m k = Some v"
proof -
  obtain out0 m0 where m0: "fold (load_dir dotenv) (rev dirs) ([], []) = (out0, m0)" by force
  have d: "hm_wf m0" "map_of m0 k = first_dir dotenv dirs k" for k using dirs_get[of dotenv dirs k] m0 by simp_all
  obtain m1 where m1: "apply_cli_envs cli_envs m0 = Inr m1" and r: "resolve_commands shell out0 m1 = (out, Inr m)"
    using assms m0 by (auto simp: resolve_env_vars_from_dirs_def split: sum.splits)
  have w: "hm_wf m1" and g: "map_of m1 k = raw_value dotenv cli_envs dirs k" for k
    unfolding apply_cli_envs_puts[OF m1] by (simp_all add: hm.wf_puts d hm.get_puts raw_value_def split: option.splits)
  let ?keys = "map fst (filter (\<lambda>(k, v). starts_with CMD_PREFIX v) m1)"
  have k: "k \<in> set ?keys \<longleftrightarrow> (\<exists>v. map_of m1 k = Some v \<and> starts_with ''cmd:'' v)" for k
    using w by (force simp: hm_wf_def CMD_PREFIX_def)
  have dist: "distinct ?keys" using w by (simp add: hm_wf_def distinct_map_filter)
  show ?thesis
  proof (cases "?keys = []")
    case True
    then have "m = m1" using r by (simp add: resolve_commands_def)
    then show ?thesis using g[of k] k[of k] True by (auto split: option.splits)
  next
    case False
    then obtain o1 where "resolve_keys shell ?keys o1 m1 = (out, Inr m)" using r by (auto simp: resolve_commands_def Let_def)
    moreover have "set ?keys \<subseteq> dom (map_of m1)" using k unfolding dom_def by blast
    ultimately have "if k \<in> set ?keys then \<exists>x. shell (drop 4 (the (map_of m1 k))) = Inr x \<and> map_of m k = Some x else map_of m k = map_of m1 k"
      using resolve_keys_get[OF _ dist _ w] by blast
    then show ?thesis using g[of k] k[of k] by (auto split: option.splits if_splits simp del: set_map set_filter)
  qed
qed

theorem env_precedence_witness:
  "(\<exists>out m. resolve_env_vars_from_dirs (\<lambda>d. if d = ''a'' then Some [Inr (''X'', ''1'')] else Some [Inr (''X'', ''2''), Inr (''Y'', ''cmd:date'')])
       (\<lambda>c. Inr (''ran '' @ c)) [''Z=3''] [''a'', ''b''] = (out, Inr m) \<and>
     map_of m ''X'' = Some ''1'' \<and> map_of m ''Y'' = Some ''ran date'' \<and> map_of m ''Z'' = Some ''3'')"
proof -
  let ?dotenv = "\<lambda>d. if d = ''a'' then Some [Inr (''X'', ''1'')] else Some [Inr (''X'', ''2''), Inr (''Y'', ''cmd:date'')]"
  let ?shell = "\<lambda>c. Inr (''ran '' @ c)"
  obtain out m where r: "resolve_env_vars_from_dirs ?dotenv ?shell [''Z=3''] [''a'', ''b''] = (out, Inr m)"
    by (simp add: resolve_env_vars_from_dirs_def load_dotenv_file_def hm_extend_def hm_put_def resolve_commands_def CMD_PREFIX_def
        starts_with_def split_once_def Let_def)
  have raw: "raw_value ?dotenv [''Z=3''] [''a'', ''b''] ''X'' = Some ''1''" "raw_value ?dotenv [''Z=3''] [''a'', ''b''] ''Y'' = Some ''cmd:date''"
    "raw_value ?dotenv [''Z=3''] [''a'', ''b''] ''Z'' = Some ''3''"
    by (simp_all add: raw_value_def env_items_def dotenv_entries_def split_once_def)
  show ?thesis
    using r env_precedence[OF r, of "''X''"] env_precedence[OF r, of "''Y''"] env_precedence[OF r, of "''Z''"] raw
    by (simp add: starts_with_def)
qed

section \<open>Which option wins\<close>

fun json_wf :: "json \<Rightarrow> bool" where
  "json_wf (JObject m) \<longleftrightarrow> bt_wf m \<and> list_all (\<lambda>(k, v). json_wf v) m"
| "json_wf (JArray xs) \<longleftrightarrow> True"
| "json_wf _ \<longleftrightarrow> True"

fun json_at :: "string list \<Rightarrow> json \<Rightarrow> json option" where
  "json_at [] j = Some j"
| "json_at (k # p) (JObject m) = (case map_of m k of None \<Rightarrow> None | Some v \<Rightarrow> json_at p v)"
| "json_at (k # p) _ = None"

text \<open>A path the overlay leaves to the base: the overlay has only objects along it and then lacks the key.\<close>

fun leaves :: "string list \<Rightarrow> json \<Rightarrow> bool" where
  "leaves (k # p) (JObject m) = (case map_of m k of None \<Rightarrow> True | Some v \<Rightarrow> leaves p v)"
| "leaves _ _ = False"

fun is_object :: "json \<Rightarrow> bool" where
  "is_object (JObject m) = True"
| "is_object _ = False"

lemma bt_remove_keys: "set (bt_remove k m) \<subseteq> set m"
  by (induction k m rule: bt_remove.induct) auto

lemma bt_remove_wf: "bt_wf m \<Longrightarrow> bt_wf (bt_remove k m)"
proof (induction m)
  case (Cons p m)
  have "bt_wf m" using Cons.prems by (simp add: bt_wf_def)
  then show ?case using Cons.IH Cons.prems bt_remove_keys[of k m] by (cases p) (auto simp: bt_wf_def)
qed simp

lemma bt_remove_get: "bt_wf m \<Longrightarrow> map_of (bt_remove k m) j = (if j = k then None else map_of m j)"
proof (induction m)
  case (Cons p m)
  have "bt_wf m" using Cons.prems by (simp add: bt_wf_def)
  moreover have "map_of m (fst p) = None" using bt_wf_distinct[OF Cons.prems] by (simp add: map_of_eq_None_iff)
  ultimately show ?case using Cons.IH by (cases p) auto
qed simp

lemma merge_entries_get:
  assumes "bt_wf b" "distinct (map fst ov)"
  shows "bt_wf (merge_entries b ov) \<and> map_of (merge_entries b ov) k =
    (case map_of ov k of
       None \<Rightarrow> map_of b k
     | Some v \<Rightarrow> Some (case map_of b k of None \<Rightarrow> v | Some u \<Rightarrow> merge_json u v))"
  using assms
proof (induction ov arbitrary: b)
  case (Cons p ov)
  obtain j v where p: "p = (j, v)" by force
  define x where "x = (case map_of b j of Some u \<Rightarrow> merge_json u v | None \<Rightarrow> v)"
  define c where "c = bt_put j x (bt_remove j b)"
  have w: "bt_wf c" using Cons.prems(1) by (simp add: c_def bt_remove_wf)
  have g: "map_of c k = (if k = j then Some x else map_of b k)"
    using Cons.prems(1) by (simp add: c_def bt_get_put bt_remove_wf bt_remove_get)
  have ih: "bt_wf (merge_entries c ov) \<and> map_of (merge_entries c ov) k =
    (case map_of ov k of None \<Rightarrow> map_of c k | Some v \<Rightarrow> Some (case map_of c k of None \<Rightarrow> v | Some u \<Rightarrow> merge_json u v))"
    using Cons.IH[OF w] Cons.prems(2) by (simp add: p)
  have e: "merge_entries b ((j, v) # ov) = merge_entries c ov" by (simp add: c_def x_def)
  have "map_of ov j = None" using Cons.prems(2) by (simp add: p map_of_eq_None_iff)
  then show ?case using ih g by (cases "k = j") (simp_all del: merge_json.simps merge_entries.simps add: p e x_def split: option.splits)
qed simp

lemma json_wf_get: "json_wf (JObject m) \<Longrightarrow> map_of m k = Some v \<Longrightarrow> json_wf v"
  by (auto simp: list_all_iff dest!: map_of_SomeD)

lemma leaves_at: "leaves p j \<Longrightarrow> json_at p j = None"
  by (induction p j rule: json_at.induct) (auto split: option.splits)

text \<open>In the merged options a value of the script that is no object always stands where the script has it, and where
  the script's objects lack a key the configuration file's value stands, at every depth.\<close>

lemma merged_options_precedence:
  assumes "json_wf b" "json_wf ov"
  shows "(json_at p ov = Some v \<and> \<not> is_object v \<longrightarrow> json_at p (merge_json b ov) = Some v) \<and>
         (leaves p ov \<and> is_object b \<longrightarrow> json_at p (merge_json b ov) = json_at p b)"
  using assms
proof (induction p arbitrary: b ov)
  case Nil then show ?case by (cases b; cases ov) auto
next
  case (Cons k p)
  show ?case
  proof (cases "is_object b \<and> is_object ov")
    case False then show ?thesis by (cases b; cases ov) auto
  next
    case True
    then obtain bm om where m: "b = JObject bm" "ov = JObject om" by (cases b; cases ov) auto
    have g: "map_of (merge_entries bm om) k =
        (case map_of om k of None \<Rightarrow> map_of bm k | Some v \<Rightarrow> Some (case map_of bm k of None \<Rightarrow> v | Some u \<Rightarrow> merge_json u v))"
      using merge_entries_get[of bm om k] Cons.prems by (simp add: m bt_wf_distinct)
    show ?thesis
    proof (cases "map_of om k")
      case None then show ?thesis by (simp add: m g)
    next
      case ok: (Some o1)
      show ?thesis
      proof (cases "map_of bm k")
        case None
        then show ?thesis using ok leaves_at[of p o1] by (simp add: m g)
      next
        case (Some b1)
        have "json_wf b1" "json_wf o1" using Cons.prems ok Some json_wf_get by (auto simp: m simp del: json_wf.simps)
        moreover have "leaves p o1 \<Longrightarrow> \<not> is_object b1 \<Longrightarrow> json_at p (merge_json b1 o1) = json_at p b1"
          using leaves_at[of p o1] by (cases b1; cases p) auto
        ultimately show ?thesis using Cons.IH[of b1 o1] ok Some by (cases "is_object b1") (simp_all add: m g)
      qed
    qed
  qed
qed

section \<open>What the overrides change\<close>

lemma opt_set_scenarios:
  "(\<And>v c. cfg_scenarios (upd v c) = cfg_scenarios c) \<Longrightarrow> cfg_scenarios (opt_set x upd c) = cfg_scenarios c"
  "(\<And>v c. cfg_vus (upd v c) = cfg_vus c) \<Longrightarrow> cfg_vus (opt_set x upd c) = cfg_vus c"
  "(\<And>v c. cfg_duration (upd v c) = cfg_duration c) \<Longrightarrow> cfg_duration (opt_set x upd c) = cfg_duration c"
  by (auto simp: opt_set_def split: option.splits)

lemma apply_flags_keeps:
  "cfg_scenarios (apply_flags cli c) = cfg_scenarios c" "cfg_vus (apply_flags cli c) = cfg_vus c"
  "cfg_duration (apply_flags cli c) = cfg_duration c"
  by (simp_all add: apply_flags_def Let_def opt_set_scenarios)

text \<open>The number of virtual users and the duration in force once the flags are read.\<close>

definition flag_vus :: "cli_overrides \<Rightarrow> test_config \<Rightarrow> u32" where
  "flag_vus cli c = (case ov_vus cli of Some v \<Rightarrow> v | None \<Rightarrow> cfg_vus c)"

definition flag_duration :: "cli_overrides \<Rightarrow> test_config \<Rightarrow> config_error + duration" where
  "flag_duration cli c = (case ov_duration cli of Some d \<Rightarrow> parse_duration d | None \<Rightarrow> Inr (cfg_duration c))"

lemma bind_r_InrE: "bind_r x f = Inr y \<longleftrightarrow> (\<exists>a. x = Inr a \<and> f a = Inr y)"
  by (cases x) auto

lemma apply_cli_overrides_scenarios:
  assumes "apply_cli_overrides cli tags c = Inr c'"
  obtains c1 c2 d where "flag_duration cli c = Inr d" "cfg_scenarios c1 = cfg_scenarios c" "cfg_vus c1 = flag_vus cli c"
    "cfg_duration c1 = d" "apply_execution_overrides cli c1 = Inr c2"
    "cfg_scenarios c' = map (\<lambda>(name, s). (name, tag_scenario tags s)) (cfg_scenarios c2)"
proof -
  let ?a = "opt_set (ov_vus cli) (\<lambda>v c. c\<lparr>cfg_vus := v\<rparr>) c"
  obtain b d1 c1 c2 where b: "(case ov_duration cli of None \<Rightarrow> Inr ?a | Some d \<Rightarrow> bind_r (parse_duration d) (\<lambda>d. Inr (?a\<lparr>cfg_duration := d\<rparr>))) = Inr b"
    and d: "(case ov_dns cli of None \<Rightarrow> Inr (apply_flags cli b)
             | Some s \<Rightarrow> bind_r (parse_dns_flag s) (\<lambda>d. Inr ((apply_flags cli b)\<lparr>cfg_dns := Some d\<rparr>))) = Inr d1"
    and c1: "c1 = opt_set (ov_console_output cli) (\<lambda>v c. c\<lparr>cfg_console_output := Some v\<rparr>) d1"
    and c2: "apply_execution_overrides cli c1 = Inr c2"
    and c': "c' = (if tags = [] then c2 else c2\<lparr>cfg_scenarios := map (\<lambda>(name, s). (name, tag_scenario tags s)) (cfg_scenarios c2)\<rparr>)"
    using assms by (auto simp: apply_cli_overrides_def Let_def bind_r_InrE)
  have a: "cfg_scenarios ?a = cfg_scenarios c" "cfg_vus ?a = flag_vus cli c" "cfg_duration ?a = cfg_duration c"
    by (auto simp: opt_set_def flag_vus_def split: option.splits)
  have b': "cfg_scenarios b = cfg_scenarios c" "cfg_vus b = flag_vus cli c" "flag_duration cli c = Inr (cfg_duration b)"
    using b a by (auto simp: flag_duration_def bind_r_InrE split: option.splits)
  have d': "cfg_scenarios d1 = cfg_scenarios b" "cfg_vus d1 = cfg_vus b" "cfg_duration d1 = cfg_duration b"
    using d by (auto simp: apply_flags_keeps bind_r_InrE split: option.splits)
  have t: "tag_scenario [] s = s" for s by (simp add: tag_scenario_def hm_extend_def)
  show thesis
  proof (rule that[OF b'(3), of c1 c2])
    show "cfg_scenarios c' = map (\<lambda>(name, s). (name, tag_scenario tags s)) (cfg_scenarios c2)"
      using c' by (auto simp: t)
  qed (use c1 c2 d' b' in \<open>simp_all add: opt_set_scenarios\<close>)
qed

lemma map_of_tagged: "map_of (map (\<lambda>(name, s). (name, f s)) m) k = map_option f (map_of m k)"
  by (induction m) auto

text \<open>C30.  What the flags make of the scenarios.  Iterations on the command line, or else stages, leave one scenario,
  \<open>default\<close>, that shares the iterations among, or ramps from, the virtual users in force.  Without either flag every
  scenario of the script keeps its executor, only the one named \<open>default\<close> takes the number and the duration of the
  flags, and that only when it is a constant one; and each scenario's tags are extended by those of the run.\<close>

theorem overrides_scope:
  assumes "apply_cli_overrides cli tags c = Inr c'" "cfg_scenarios c \<noteq> []"
  shows "(\<forall>iters. ov_iterations cli = Some iters \<longrightarrow>
            (\<exists>s d. flag_duration cli c = Inr d \<and> cfg_scenarios c' = [(''default'', s)] \<and> sc_executor s = SharedIterations (flag_vus cli c) iters d)) \<and>
         (ov_iterations cli = None \<and> ov_stages cli \<noteq> [] \<longrightarrow>
            (\<exists>s stages g. parse_stage_flags (ov_stages cli) = Inr stages \<and> cfg_scenarios c' = [(''default'', s)] \<and>
               sc_executor s = RampingVus (flag_vus cli c) stages g)) \<and>
         (ov_iterations cli = None \<and> ov_stages cli = [] \<longrightarrow>
            (\<forall>name. map_of (cfg_scenarios c') name = map_option (tag_scenario tags)
               (map_option (\<lambda>s. if name = ''default'' then
                    (case sc_executor s of
                       ConstantVus vus d \<Rightarrow> s\<lparr>sc_executor := ConstantVus (case ov_vus cli of Some v \<Rightarrow> v | None \<Rightarrow> vus)
                                             (if ov_duration cli = None then d else projr (flag_duration cli c))\<rparr>
                     | _ \<Rightarrow> s) else s) (map_of (cfg_scenarios c) name))))"
proof -
  obtain c1 c2 d where k: "flag_duration cli c = Inr d" "cfg_scenarios c1 = cfg_scenarios c" "cfg_vus c1 = flag_vus cli c"
    "cfg_duration c1 = d" "apply_execution_overrides cli c1 = Inr c2"
    "cfg_scenarios c' = map (\<lambda>(name, s). (name, tag_scenario tags s)) (cfg_scenarios c2)"
    using apply_cli_overrides_scenarios[OF assms(1)] by metis
  have 1: "\<exists>s. cfg_scenarios c' = [(''default'', s)] \<and> sc_executor s = SharedIterations (flag_vus cli c) iters d"
    if "ov_iterations cli = Some iters" for iters
    using k that by (auto simp: apply_execution_overrides_def replace_default_scenario_def hm_put_def tag_scenario_def)
  have 2: "\<exists>s stages g. parse_stage_flags (ov_stages cli) = Inr stages \<and> cfg_scenarios c' = [(''default'', s)] \<and>
               sc_executor s = RampingVus (flag_vus cli c) stages g"
    if "ov_iterations cli = None" "ov_stages cli \<noteq> []"
    using k that
    by (auto simp: apply_execution_overrides_def bind_r_InrE Let_def replace_default_scenario_def hm_put_def tag_scenario_def)
  have 3: "map_of (cfg_scenarios c2) name = map_option (\<lambda>s. if name = ''default'' then override_constant cli c1 s else s) (map_of (cfg_scenarios c) name)"
    if "ov_iterations cli = None" "ov_stages cli = []" for name
    using k that assms(2)
    by (cases "map_of (cfg_scenarios c) name") (auto simp: apply_execution_overrides_def hm_get_put split: option.splits)
  have o1: "override_constant cli c1 s = (case sc_executor s of
                       ConstantVus vus d \<Rightarrow> s\<lparr>sc_executor := ConstantVus (case ov_vus cli of Some v \<Rightarrow> v | None \<Rightarrow> vus)
                                             (if ov_duration cli = None then d else projr (flag_duration cli c))\<rparr>
                     | _ \<Rightarrow> s)" for s
    using k by (auto simp: override_constant_def split: executor_type.splits)
  show ?thesis using 1 2 k(1) 3[unfolded o1] by (simp add: k(6) map_of_tagged)
qed

definition example_overrides :: cli_overrides where
  "example_overrides = \<lparr>ov_address = None, ov_paused = False, ov_vus = Some 7, ov_duration = None, ov_iterations = None, ov_stages = [],
     ov_insecure_skip_tls_verify = False, ov_no_connection_reuse = False, ov_no_vu_connection_reuse = False, ov_max_redirects = None,
     ov_user_agent = None, ov_http_debug = None, ov_rps = None, ov_throw = False, ov_discard_response_bodies = False,
     ov_blacklist_ips = [], ov_block_hostnames = [], ov_local_ips = None, ov_dns = None, ov_no_setup = False, ov_no_teardown = False,
     ov_no_thresholds = False, ov_no_summary = False, ov_summary_export = None, ov_console_output = None, ov_envs = [], ov_tags = [],
     ov_out_buffer_size = None\<rparr>"

definition example_config :: test_config where
  "example_config = config_default\<lparr>cfg_scenarios := [(''default'', default_scenario_with_executor (ConstantVus 1 5)),
     (''other'', default_scenario_with_executor (ConstantVus 2 5))]\<rparr>"

theorem overrides_scope_witness:
  "\<exists>c'. apply_cli_overrides example_overrides [] example_config = Inr c' \<and>
     map_option sc_executor (map_of (cfg_scenarios c') ''default'') = Some (ConstantVus 7 5) \<and>
     map_option sc_executor (map_of (cfg_scenarios c') ''other'') = Some (ConstantVus 2 5)"
proof -
  have ov: "ov_iterations example_overrides = None" "ov_stages example_overrides = []" "ov_vus example_overrides = Some 7"
    "ov_duration example_overrides = None" "ov_dns example_overrides = None" by (simp_all add: example_overrides_def)
  have sc: "cfg_scenarios example_config = [(''default'', default_scenario_with_executor (ConstantVus 1 5)),
     (''other'', default_scenario_with_executor (ConstantVus 2 5))]" by (simp add: example_config_def)
  obtain c' where r: "apply_cli_overrides example_overrides [] example_config = Inr c'"
    by (simp add: apply_cli_overrides_def apply_execution_overrides_def ov Let_def apply_flags_keeps opt_set_scenarios sc)
  have "cfg_scenarios example_config \<noteq> []" by (simp add: sc)
  from overrides_scope[OF r this] show ?thesis using r
    by (auto simp: ov sc default_scenario_with_executor_def tag_scenario_def hm_extend_def)
qed

text \<open>The tags of a scenario and its environment do not reach its virtual users: the specification they are built from
  takes neither, so the tags of \<open>--tag\<close> change nothing the run does.\<close>

lemma tags_do_not_reach_vus:
  "vu_spec_of script env data (tag_scenario tags s) = vu_spec_of script env data s"
  "vu_spec_of script env data (s\<lparr>sc_env := e\<rparr>) = vu_spec_of script env data s"
  by (simp_all add: vu_spec_of_def tag_scenario_def)

section \<open>Enough virtual users\<close>

text \<open>The executor of a scenario gets as many virtual users as the banner, the gauge and the lint are told.\<close>

lemma executor_call_vus: "executor_call e = Some call \<Longrightarrow> pc_vus call = unat (scenario_max_vus e)"
  by (auto simp: executor_call_def scenario_max_vus_def split: executor_type.splits option.splits)

lemma fold_max_ge: "y \<le> fold max ts y" for y :: "'a::linorder"
  by (induction ts arbitrary: y) (auto intro: order_trans[OF max.cobounded2])

lemma fold_max_le: "x \<in> set (t # ts) \<Longrightarrow> x \<le> fold max ts t" for x :: "'a::linorder"
proof (induction ts arbitrary: t)
  case (Cons u ts)
  have "x \<le> max u t \<or> x \<in> set ts" using Cons.prems by (auto simp: le_max_iff_disj)
  then show ?case using Cons.IH[of "max u t"] order_trans[OF _ fold_max_ge[of "max u t" ts]] by auto
qed simp

lemma max_target_le: "st \<in> set stages \<Longrightarrow> st_target st \<le> max_target d stages"
  by (cases stages) (auto simp: max_target_def simp del: fold.simps intro!: fold_max_le)

lemma ramp_ends:
  assumes "vu_ramp_loop stages off prev tl0 = Some (timeline, stop)" "(s, e, a, b) \<in> set timeline"
    and "\<forall>(s, e, a, b) \<in> set tl0. a \<le> m \<and> b \<le> m" "prev \<le> m" "\<forall>st \<in> set stages. st_target st \<le> m"
  shows "a \<le> m \<and> b \<le> m"
  using assms
proof (induction stages arbitrary: off prev tl0)
  case (Cons st stages)
  then show ?case by (auto split: option.splits)
qed auto

text \<open>A ramping scenario never asks for more virtual users than its executor was given: at every instant the count
  the schedule interpolates is at most the scenario's maximum.\<close>

lemma ramp_within_max:
  assumes "executor_call (RampingVus start_vus stages g) = Some (CallRampingVus n sch)" "\<forall>st \<in> set stages. 0 \<le> st_duration st"
    and "vr_total_duration sch < secs_limit" "0 \<le> t"
  shows "unat (interpolate sch t) \<le> n"
proof -
  let ?m = "max (max_target start_vus stages) start_vus"
  have sch: "vu_ramp_new start_vus stages = Some sch" and n: "n = unat ?m" using assms(1) by (auto simp: executor_call_def)
  show ?thesis
  proof (cases "t < vr_total_duration sch")
    case False
    then show ?thesis using vu_ramp_after[OF sch assms(2)] by simp
  next
    case True
    obtain s e a b where seg: "(s, e, a, b) \<in> set (vr_timeline sch)" "interpolate sch t \<le> max a b"
      using vu_ramp_segment[OF sch assms(2,3,4) True] by blast
    obtain timeline stop where l: "vu_ramp_loop stages 0 start_vus [] = Some (timeline, stop)" "vr_timeline sch = timeline"
      using sch by (auto simp: vu_ramp_new_def split: option.splits)
    have "a \<le> ?m \<and> b \<le> ?m"
      by (rule ramp_ends[OF l(1)]) (use seg l(2) max_target_le[of _ stages start_vus] in \<open>auto simp: le_max_iff_disj\<close>)
    then have "interpolate sch t \<le> ?m" using seg(2) by (meson max.boundedI order_trans)
    then show ?thesis by (simp add: n word_le_nat_alt)
  qed
qed

section \<open>The gauge of virtual users\<close>

text \<open>Scenarios that started and have not ended, in any interleaving of their starts and ends.\<close>

inductive vus_reach :: "active_vus \<Rightarrow> u32 list \<Rightarrow> bool" where
  vus_start: "vus_reach \<lparr>av_total = 0, av_gauge = [0]\<rparr> []"
| vus_begin: "vus_reach s live \<Longrightarrow> vus_reach (scenario_vus_new n s) (n # live)"
| vus_end: "vus_reach s live \<Longrightarrow> n \<in> set live \<Longrightarrow> vus_reach (scenario_vus_drop n s) (remove1 n live)"

lemma vus_gauge: "vus_reach s live \<Longrightarrow> av_total s = sum_list live \<and> av_gauge s \<noteq> [] \<and> last (av_gauge s) = sum_list live"
proof (induction rule: vus_reach.induct)
  case (vus_end s live n)
  then show ?case by (simp add: scenario_vus_drop_def Let_def sum_list_map_remove1[of n live "\<lambda>x. x", simplified])
qed (simp_all add: scenario_vus_new_def Let_def)

section \<open>The end of a run\<close>

fun failure_of :: "join_result \<Rightarrow> string option" where
  "failure_of (ScenarioFailed e) = Some e"
| "failure_of _ = None"

fun end_of :: "join_result \<Rightarrow> duration option" where
  "end_of (ScenarioDone name n s t) = Some t"
| "end_of (ScenarioCancelled t) = Some t"
| "end_of (ScenarioFailed e) = None"

text \<open>Every scenario is awaited whatever the others did; the first failure is the one reported, any failure cancels the
  others, and the window of the execution ends with the last scenario.\<close>

lemma drain_result:
  shows "dr_error (drain_scenarios rs) = (case List.map_filter failure_of rs of [] \<Rightarrow> None | e # es \<Rightarrow> Some e)"
    and "dr_cancelled (drain_scenarios rs) \<longleftrightarrow> List.map_filter failure_of rs \<noteq> []"
    and "dr_duration (drain_scenarios rs) = fold max (List.map_filter end_of rs) 0"
proof -
  have e: "dr_error (fold drain_one rs d0) = (case dr_error d0 of Some e \<Rightarrow> Some e | None \<Rightarrow>
      (case List.map_filter failure_of rs of [] \<Rightarrow> None | e # es \<Rightarrow> Some e))" for d0
    by (induction rs arbitrary: d0) (auto simp: drain_one_def map_filter_simps split: join_result.splits option.splits)
  have c: "dr_cancelled (fold drain_one rs d0) \<longleftrightarrow> dr_cancelled d0 \<or> List.map_filter failure_of rs \<noteq> []" for d0
    by (induction rs arbitrary: d0) (auto simp: drain_one_def map_filter_simps split: join_result.splits)
  have t: "dr_duration (fold drain_one rs d0) = fold max (List.map_filter end_of rs) (dr_duration d0)" for d0
    by (induction rs arbitrary: d0) (auto simp: drain_one_def map_filter_simps max.commute split: join_result.splits)
  show "dr_error (drain_scenarios rs) = (case List.map_filter failure_of rs of [] \<Rightarrow> None | e # es \<Rightarrow> Some e)"
    "dr_cancelled (drain_scenarios rs) \<longleftrightarrow> List.map_filter failure_of rs \<noteq> []" "dr_duration (drain_scenarios rs) = fold max (List.map_filter end_of rs) 0"
    using e[of drain_start] c[of drain_start] t[of drain_start] by (simp_all add: drain_scenarios_def drain_start_def)
qed

text \<open>The failures of a run in the order of its phases: of the setup (which a stop excuses), of the scenarios, of the
  teardown, of the summary export and of the summary's virtual user.\<close>

definition run_failures :: "cli_overrides \<Rightarrow> run_world \<Rightarrow> string list" where
  "run_failures cli w =
     (case rw_setup w of
        HookError e \<Rightarrow> if rw_started w \<and> \<not> ov_no_setup cli \<and> \<not> (rw_control w \<and> rw_stopped_in_setup w) then [e] else []
      | _ \<Rightarrow> []) @
     List.map_filter failure_of (rw_results w) @
     (case rw_teardown w of HookError e \<Rightarrow> if rw_started w \<and> \<not> ov_no_teardown cli then [e] else [] | _ \<Rightarrow> []) @
     (if ov_summary_export cli = None then [] else case rw_export_error w of None \<Rightarrow> [] | Some e \<Rightarrow> [e]) @
     (if ov_no_summary cli then [] else case rw_summary_vu_error w of None \<Rightarrow> [] | Some e \<Rightarrow> [e])"

text \<open>The place of each phase in the run.\<close>

fun phase_rank :: "run_event \<Rightarrow> nat" where
  "phase_rank SetupRan = 0"
| "phase_rank (ScenariosRan data) = 1"
| "phase_rank TeardownRan = 2"
| "phase_rank LifecycleClosed = 3"
| "phase_rank ThresholdsJudged = 4"
| "phase_rank SummaryExported = 5"
| "phase_rank HandleSummaryUsed = 6"
| "phase_rank DefaultSummaryShown = 6"
| "phase_rank ConsoleFinished = 7"
| "phase_rank OutputsStopped = 8"
| "phase_rank SinkCleared = 9"
| "phase_rank ServerShutDown = 10"

definition final_status :: "cli_overrides \<Rightarrow> thresholds \<Rightarrow> run_world \<Rightarrow> int" where
  "final_status cli ths w =
     (if rw_stopped w then 103
      else if \<not> ov_no_thresholds cli \<and> ths \<noteq> [] \<and> \<not> all_passed (rw_threshold_results w) then 99 else 0)"

definition setup_data_of :: "cli_overrides \<Rightarrow> run_world \<Rightarrow> string option" where
  "setup_data_of cli w =
     (if rw_started w \<and> \<not> ov_no_setup cli then (case rw_setup w of HookOk data \<Rightarrow> data | _ \<Rightarrow> None)
      else if rw_control w then rw_early_data w else None)"

lemma run_from_setup_failures:
  "case run_from_setup cli ths w of Inl e \<Rightarrow> \<exists>es. run_failures cli w = e # es | Inr _ \<Rightarrow> run_failures cli w = []"
proof -
  have s: "case setup_phase cli w of
      Inl e \<Rightarrow> rw_setup w = HookError e \<and> rw_started w \<and> \<not> ov_no_setup cli \<and> \<not> (rw_control w \<and> rw_stopped_in_setup w)
    | Inr _ \<Rightarrow> (\<forall>e. rw_setup w = HookError e \<longrightarrow> \<not> (rw_started w \<and> \<not> ov_no_setup cli \<and> \<not> (rw_control w \<and> rw_stopped_in_setup w)))"
    by (auto simp: setup_phase_def split: hook_run.splits)
  have t: "case teardown_phase cli w of
      Inl e \<Rightarrow> rw_teardown w = HookError e \<and> rw_started w \<and> \<not> ov_no_teardown cli
    | Inr _ \<Rightarrow> (\<forall>e. rw_teardown w = HookError e \<longrightarrow> \<not> (rw_started w \<and> \<not> ov_no_teardown cli))"
    by (auto simp: teardown_phase_def split: hook_run.splits)
  show ?thesis
  proof (cases "setup_phase cli w")
    case (Inl e)
    then show ?thesis using s by (simp add: run_from_setup_def run_failures_def)
  next
    case before: (Inr r)
    then have f1: "(case rw_setup w of
        HookError e \<Rightarrow> if rw_started w \<and> \<not> ov_no_setup cli \<and> \<not> (rw_control w \<and> rw_stopped_in_setup w) then [e] else []
      | _ \<Rightarrow> []) = []" using s by (auto split: hook_run.splits)
    show ?thesis
    proof (cases "List.map_filter failure_of (rw_results w)")
      case (Cons e es)
      then show ?thesis using before by (cases r) (simp add: run_from_setup_def drain_result(1) run_failures_def f1 Let_def)
    next
      case drained: Nil
      show ?thesis
      proof (cases "teardown_phase cli w")
        case (Inl e)
        then show ?thesis using t before drained
          by (cases r) (simp add: run_from_setup_def drain_result(1) run_failures_def f1 Let_def)
      next
        case (Inr ev)
        then have f2: "(case rw_teardown w of HookError e \<Rightarrow> if rw_started w \<and> \<not> ov_no_teardown cli then [e] else [] | _ \<Rightarrow> []) = []"
          using t by (auto split: hook_run.splits)
        show ?thesis using Inr before drained
          by (cases r) (auto simp: run_from_setup_def drain_result(1) run_failures_def f1 f2 Let_def export_phase_def summary_phase_def
              split: option.splits hook_run.splits)
      qed
    qed
  qed
qed

lemma run_events:
  assumes "run_from_setup cli ths w = Inr (events, status)"
  shows "events =
      (if rw_started w \<and> \<not> ov_no_setup cli \<and> rw_setup w \<noteq> HookMissing then [SetupRan] else []) @ [ScenariosRan (setup_data_of cli w)] @
      (if rw_started w \<and> \<not> ov_no_teardown cli \<and> rw_teardown w \<noteq> HookMissing then [TeardownRan] else []) @
      (if rw_control w then [LifecycleClosed] else []) @
      (if \<not> ov_no_thresholds cli \<and> ths \<noteq> [] then [ThresholdsJudged] else []) @
      (if ov_summary_export cli \<noteq> None then [SummaryExported] else []) @
      (if ov_no_summary cli then [] else if \<exists>outs. rw_handle_summary w = HookOk outs then [HandleSummaryUsed] else [DefaultSummaryShown]) @
      [ConsoleFinished, OutputsStopped, SinkCleared] @ (if rw_server w then [ServerShutDown] else [])"
    "status = final_status cli ths w"
proof -
  obtain data ev1 ev2 ev3 ev4 where ph: "setup_phase cli w = Inr (data, ev1)" "teardown_phase cli w = Inr ev2"
      "export_phase cli w = Inr ev3" "summary_phase cli w = Inr ev4"
    and ev: "events = ev1 @ [ScenariosRan data] @ ev2 @ (if rw_control w then [LifecycleClosed] else []) @
                 (if judged cli ths w \<noteq> None then [ThresholdsJudged] else []) @ ev3 @ ev4 @ [ConsoleFinished, OutputsStopped, SinkCleared] @
                 (if rw_server w then [ServerShutDown] else [])"
    and st: "status = exit_status (rw_stopped w) (judged cli ths w)"
    using assms by (auto simp: run_from_setup_def bind_r_InrE Let_def split: option.splits)
  have 1: "ev1 = (if rw_started w \<and> \<not> ov_no_setup cli \<and> rw_setup w \<noteq> HookMissing then [SetupRan] else [])" "data = setup_data_of cli w"
    using ph(1) by (auto simp: setup_phase_def setup_data_of_def split: if_splits hook_run.splits)
  have 2: "ev2 = (if rw_started w \<and> \<not> ov_no_teardown cli \<and> rw_teardown w \<noteq> HookMissing then [TeardownRan] else [])"
    using ph(2) by (auto simp: teardown_phase_def split: if_splits hook_run.splits)
  have 3: "ev3 = (if ov_summary_export cli \<noteq> None then [SummaryExported] else [])"
    using ph(3) by (auto simp: export_phase_def split: option.splits)
  have 4: "ev4 = (if ov_no_summary cli then [] else if \<exists>outs. rw_handle_summary w = HookOk outs then [HandleSummaryUsed] else [DefaultSummaryShown])"
    using ph(4) by (auto simp: summary_phase_def split: if_splits option.splits hook_run.splits)
  have 5: "judged cli ths w \<noteq> None \<longleftrightarrow> \<not> ov_no_thresholds cli \<and> ths \<noteq> []" by (simp add: judged_def)
  show "events =
      (if rw_started w \<and> \<not> ov_no_setup cli \<and> rw_setup w \<noteq> HookMissing then [SetupRan] else []) @ [ScenariosRan (setup_data_of cli w)] @
      (if rw_started w \<and> \<not> ov_no_teardown cli \<and> rw_teardown w \<noteq> HookMissing then [TeardownRan] else []) @
      (if rw_control w then [LifecycleClosed] else []) @
      (if \<not> ov_no_thresholds cli \<and> ths \<noteq> [] then [ThresholdsJudged] else []) @
      (if ov_summary_export cli \<noteq> None then [SummaryExported] else []) @
      (if ov_no_summary cli then [] else if \<exists>outs. rw_handle_summary w = HookOk outs then [HandleSummaryUsed] else [DefaultSummaryShown]) @
      [ConsoleFinished, OutputsStopped, SinkCleared] @ (if rw_server w then [ServerShutDown] else [])"
    unfolding ev 1 2 3 4 5 ..
  show "status = final_status cli ths w" by (simp add: st exit_status_def judged_def final_status_def)
qed

lemma main_status_of_run:
  "main_status (run_test early config_file script_options cli startup w) =
     (if early \<noteq> None then 1
      else case run_config config_file script_options cli of
             Inl e \<Rightarrow> if is_unknown_executor e then 104 else 1
           | Inr c \<Rightarrow> if startup c = None \<and> run_failures cli w = [] then final_status cli (cfg_thresholds c) w else 1)"
proof (cases "run_config config_file script_options cli")
  case (Inr c)
  show ?thesis
    using Inr run_from_setup_failures[where cli = cli and ths = "cfg_thresholds c" and w = w] run_events(2)[of cli "cfg_thresholds c" w]
    by (cases "run_from_setup cli (cfg_thresholds c) w") (auto simp: run_test_def main_status_def split: option.splits)
qed (auto simp: run_test_def main_status_def split: option.splits)

text \<open>C31.  The course and the status of a run.  From the setup on, a run fails exactly when one of its phases does, with the
  first failure in the order of the phases.  Without a failure its phases come in this order, each at most once: setup,
  scenarios, teardown, closing of the lifecycle, thresholds, summary export, summary, console, outputs, sink, REST
  server; setup, teardown and thresholds are there exactly when the run was started (the hooks), the script has them and they were not
  switched off, the scenarios get the data of the setup, and console, outputs and sink are always closed.  The status of the
  process is then 103 when the run was stopped, or else 99 when the thresholds were judged and one failed, or else 0;
  it is 104 when the configuration fails on an unknown executor, and 1 after every other error.\<close>

theorem run_status:
  "(case run_from_setup cli ths w of
      Inl e \<Rightarrow> (\<exists>es. run_failures cli w = e # es)
    | Inr (events, status) \<Rightarrow>
        run_failures cli w = [] \<and> sorted_wrt (<) (map phase_rank events) \<and>
        (SetupRan \<in> set events \<longleftrightarrow> rw_started w \<and> \<not> ov_no_setup cli \<and> rw_setup w \<noteq> HookMissing) \<and>
        (\<forall>data. ScenariosRan data \<in> set events \<longleftrightarrow> data = setup_data_of cli w) \<and>
        (TeardownRan \<in> set events \<longleftrightarrow> rw_started w \<and> \<not> ov_no_teardown cli \<and> rw_teardown w \<noteq> HookMissing) \<and>
        (LifecycleClosed \<in> set events \<longleftrightarrow> rw_control w) \<and>
        (ThresholdsJudged \<in> set events \<longleftrightarrow> \<not> ov_no_thresholds cli \<and> ths \<noteq> []) \<and>
        (SummaryExported \<in> set events \<longleftrightarrow> ov_summary_export cli \<noteq> None) \<and>
        (HandleSummaryUsed \<in> set events \<longleftrightarrow> \<not> ov_no_summary cli \<and> (\<exists>outs. rw_handle_summary w = HookOk outs)) \<and>
        (DefaultSummaryShown \<in> set events \<longleftrightarrow> \<not> ov_no_summary cli \<and> (\<nexists>outs. rw_handle_summary w = HookOk outs)) \<and>
        {ConsoleFinished, OutputsStopped, SinkCleared} \<subseteq> set events \<and>
        (ServerShutDown \<in> set events \<longleftrightarrow> rw_server w) \<and>
        status = final_status cli ths w) \<and>
   main_status (run_test early config_file script_options cli startup w) =
     (if early \<noteq> None then 1
      else case run_config config_file script_options cli of
             Inl e \<Rightarrow> if is_unknown_executor e then 104 else 1
           | Inr c \<Rightarrow> if startup c = None \<and> run_failures cli w = [] then final_status cli (cfg_thresholds c) w else 1)"
proof (rule conjI[OF _ main_status_of_run], goal_cases)
  case 1
  show ?case
  proof (cases "run_from_setup cli ths w")
    case (Inl e)
    then show ?thesis using run_from_setup_failures[where cli = cli and ths = ths and w = w] by simp
  next
    case (Inr r)
    obtain events status where r: "r = (events, status)" by force
    have f: "run_failures cli w = []" using run_from_setup_failures[where cli = cli and ths = ths and w = w] by (simp add: Inr)
    note ev = run_events[OF Inr[unfolded r]]
    have "sorted_wrt (<) (map phase_rank events)" unfolding ev(1) by simp
    then show ?thesis using f ev(2) unfolding Inr r sum.case prod.case ev(1) by simp
  qed
qed

end
