(* ===== verification/Analysis.thy ===== *)
theory Analysis
  imports Rust_Str Outputs VuSched "HOL-Library.Multiset"
begin

text \<open>
  The analysis commands (\<open>crates/k6-cli/src/analysis\<close>): \<open>script_lint.rs\<close>, the warnings on a script before it runs, and
  \<open>memory_monitor.rs\<close>, the regression on heap sizes of a virtual user.  The lemmas say which lines are flagged and
  in which order they are reported, that the monitor keeps at most twenty samples and warns once, and that
  on samples that lie on a line the regression computes its slope.
\<close>

section \<open>Script lint\<close>

datatype lint_severity = LintWarning | LintInfo

record lint_warning =
  lw_line :: nat
  lw_severity :: lint_severity
  lw_message :: string
  lw_suggestion :: string

definition extract_var_name :: "string \<Rightarrow> string option" where
  "extract_var_name line =
     (let line = trim line;
          first = first_piece (\<lambda>c. c \<in> set '' =:'')
      in case strip_prefix ''const '' line of
           Some rest \<Rightarrow> Some (first rest)
         | None \<Rightarrow>
       case strip_prefix ''let '' line of
           Some rest \<Rightarrow> Some (first rest)
         | None \<Rightarrow>
       case strip_prefix ''var '' line of
           Some rest \<Rightarrow> Some (first rest)
         | None \<Rightarrow> None)"

definition count_char :: "char \<Rightarrow> string \<Rightarrow> nat" where
  "count_char c s = length (filter (\<lambda>x. x = c) s)"

definition paren_name :: "string option \<Rightarrow> string" where
  "paren_name v = (case v of None \<Rightarrow> [] | Some n \<Rightarrow> '' ('' @ n @ '')'')"

definition collection_warning :: "nat \<Rightarrow> string \<Rightarrow> lint_warning" where
  "collection_warning line_num trimmed_line =
     (let ds_type = (if contains_str ''new Set('' trimmed_line then ''Set'' else ''Map'');
          var_name = extract_var_name trimmed_line
      in \<lparr>lw_line = line_num, lw_severity = LintWarning,
           lw_message = ''Unbounded global '' @ ds_type @ paren_name var_name,
           lw_suggestion =
             ''This '' @ ds_type @ '' will grow every iteration and never shrink. Over long tests this causes OOM.'' @ [CHR 0x0A] @
             ''Fix: Clear periodically (if (__ITER % 1000 === 0) '' @ (case var_name of None \<Rightarrow> ''cache'' | Some n \<Rightarrow> n) @ ''.clear()), '' @
             ''or use SharedCache with a bounded size.''\<rparr>)"

definition array_warning :: "nat \<Rightarrow> string \<Rightarrow> lint_warning" where
  "array_warning line_num trimmed_line =
     \<lparr>lw_line = line_num, lw_severity = LintWarning,
      lw_message = ''Unbounded global array'' @ paren_name (extract_var_name trimmed_line),
      lw_suggestion =
        ''This array grows via push() every iteration and is never trimmed.'' @ [CHR 0x0A] @
        ''Fix: Reset at start of each iteration, use a fixed-size buffer, or move to SharedArray (read-only, shared across VUs).''\<rparr>"

definition is_collection :: "string \<Rightarrow> bool" where
  "is_collection t \<longleftrightarrow> contains_str ''new Set('' t \<or> contains_str ''new Map('' t"

definition is_array :: "string \<Rightarrow> bool" where
  "is_array t \<longleftrightarrow> (contains_str ''= []'' t \<or> contains_str ''= new Array'' t) \<and> \<not> starts_with ''//'' t"

definition has_push :: "string list \<Rightarrow> nat \<Rightarrow> string \<Rightarrow> bool" where
  "has_push lines i trimmed_line =
     (let lo = i + 1; hi = min (i + 50) (length lines); var_name = extract_var_name trimmed_line
      in list_ex (\<lambda>l. case var_name of
                         Some name \<Rightarrow> contains_str (name @ ''.push('') l
                       | None \<Rightarrow> contains_str ''.push('' l)
           (take (hi - lo) (drop lo lines)))"

record lint_state =
  ls_warnings :: "lint_warning list"
  ls_depth :: "32 word"
  ls_sleep :: bool
  ls_default :: bool

definition lint_line :: "string list \<Rightarrow> nat \<times> string \<Rightarrow> lint_state \<Rightarrow> lint_state" where
  "lint_line lines il st =
     (let (i, line) = il;
          line_num = i + 1;
          t = trim line;
          depth = ls_depth st + of_nat (count_char (CHR ''{'') t);
          depth = depth - of_nat (count_char (CHR ''}'') t);
          dflt = ls_default st \<or> contains_str ''__k6_default'' t \<or> contains_str ''export default function'' t;
          slp = ls_sleep st \<or> contains_str ''sleep('' t;
          global = (depth \<le>s 0);
          ws1 = (if global \<and> is_collection t then [collection_warning line_num t] else []);
          ws2 = (if global \<and> is_array t \<and> has_push lines i t then [array_warning line_num t] else [])
      in \<lparr>ls_warnings = ls_warnings st @ ws1 @ ws2, ls_depth = depth, ls_sleep = slp, ls_default = dflt\<rparr>)"

definition bodies_warning :: "u32 \<Rightarrow> lint_warning" where
  "bodies_warning max_vus =
     \<lparr>lw_line = 0, lw_severity = LintInfo,
      lw_message = dec (uint max_vus) @ '' maxVUs with discardResponseBodies: false'',
      lw_suggestion =
        ''Each VU keeps HTTP response bodies in memory. With '' @ dec (uint max_vus) @ '' VUs, this can use significant memory.'' @ [CHR 0x0A] @
        ''If your checks only inspect r.status and r.timings, consider discardResponseBodies: true to reduce memory usage.''\<rparr>"

definition sleep_warning :: lint_warning where
  "sleep_warning =
     \<lparr>lw_line = 0, lw_severity = LintInfo,
      lw_message = ''No sleep() in default function'',
      lw_suggestion =
        ''VUs will loop as fast as possible without think time. Add sleep(1) for realistic user simulation, or ignore this if you intentionally want max throughput.''\<rparr>"

definition lint_start :: lint_state where
  "lint_start = \<lparr>ls_warnings = [], ls_depth = 0, ls_sleep = False, ls_default = False\<rparr>"

text \<open>\<open>sort_by_key\<close> is a stable sort, as \<open>sort_key\<close> is.\<close>

definition lint_script :: "string \<Rightarrow> u32 \<Rightarrow> bool \<Rightarrow> lint_warning list" where
  "lint_script source max_vus discard_response_bodies =
     (let lines = lines_of source;
          st = fold (lint_line lines) (enumerate 0 lines) lint_start;
          ws = ls_warnings st;
          ws = ws @ (if 100 < max_vus \<and> \<not> discard_response_bodies then [bodies_warning max_vus] else []);
          ws = ws @ (if ls_default st \<and> \<not> ls_sleep st then [sleep_warning] else [])
      in sort_key lw_line ws)"

definition format_warning :: "nat \<times> lint_warning \<Rightarrow> string" where
  "format_warning iw =
     (let (i, w) = iw;
          loc = (if 0 < lw_line w then ''line '' @ dec (int (lw_line w)) else ''config'');
          icon = (case lw_severity w of
                    LintWarning \<Rightarrow> [CHR 0xE2, CHR 0x9A, CHR 0xA0, CHR '' '']
                  | LintInfo \<Rightarrow> [CHR 0xE2, CHR 0x84, CHR 0xB9, CHR '' '', CHR '' ''])
      in ''  '' @ icon @ dec (int i + 1) @ ''. '' @ loc @ '' '' @ [CHR 0xE2, CHR 0x80, CHR 0x94] @ '' '' @ lw_message w @ [CHR 0x0A] @
         ''     '' @ replace_char (CHR 0x0A) ([CHR 0x0A] @ ''     '') (lw_suggestion w) @ [CHR 0x0A, CHR 0x0A])"

definition format_warnings :: "lint_warning list \<Rightarrow> string" where
  "format_warnings warnings =
     (if warnings = [] then []
      else [CHR 0x0A, CHR 0xE2, CHR 0x9A, CHR 0xA0] @ ''  SCRIPT ANALYSIS ('' @ dec (int (length warnings)) @ '' warning'' @
           (if length warnings = 1 then [] else ''s'') @ '')'' @ [CHR 0x0A, CHR 0x0A] @
           concat (map format_warning (enumerate 0 warnings)))"

section \<open>Memory monitor\<close>

record memory_monitor =
  mm_samples :: "(u32 \<times> u64) list"
  mm_memory_limit :: u64
  mm_warned :: bool

record memory_warning =
  mw_vu_id :: u32
  mw_current_heap_mb :: f64
  mw_growth_kb_per_iter :: f64
  mw_iters_until_limit :: u64
  mw_estimated_minutes :: f64

definition SAMPLE_INTERVAL :: u32 where "SAMPLE_INTERVAL = 50"
definition MIN_SAMPLES :: nat where "MIN_SAMPLES = 5"
definition GROWTH_THRESHOLD_KB :: f64 where "GROWTH_THRESHOLD_KB = flit 1"

definition monitor_new :: "u64 \<Rightarrow> memory_monitor" where
  "monitor_new memory_limit = \<lparr>mm_samples = [], mm_memory_limit = memory_limit, mm_warned = False\<rparr>"

definition add_sums :: "u32 \<times> u64 \<Rightarrow> f64 \<times> f64 \<times> f64 \<times> f64 \<Rightarrow> f64 \<times> f64 \<times> f64 \<times> f64" where
  "add_sums s acc =
     (case acc of (sum_x, sum_y, sum_xy, sum_xx) \<Rightarrow>
        let x = f_of_u32 (fst s); y = f_of_u64 (snd s)
        in (fadd sum_x x, fadd sum_y y, fadd sum_xy (fmul x y), fadd sum_xx (fmul x x)))"

definition estimate_growth :: "(u32 \<times> u64) list \<Rightarrow> f64" where
  "estimate_growth samples =
     (let n = f_of_u64 (of_nat (length samples))
      in if flt n (flit 2) then f0
         else case fold add_sums samples (f0, f0, f0, f0) of (sum_x, sum_y, sum_xy, sum_xx) \<Rightarrow>
           let denominator = fsub (fmul n sum_xx) (fmul sum_x sum_x)
           in if flt (f_abs denominator) (flit (1 / 10 ^ 10)) then f0
              else fdiv (fsub (fmul n sum_xy) (fmul sum_x sum_y)) denominator)"

definition keep_last :: "nat \<Rightarrow> 'a list \<Rightarrow> 'a list" where
  "keep_last n xs = (if n < length xs then drop (length xs - n) xs else xs)"

definition monitor_check :: "u32 \<Rightarrow> u64 \<Rightarrow> u32 \<Rightarrow> f64 \<Rightarrow> memory_monitor \<Rightarrow> memory_monitor \<times> memory_warning option" where
  "monitor_check iteration heap_bytes vu_id iters_per_sec m =
     (if iteration mod SAMPLE_INTERVAL \<noteq> 0 then (m, None)
      else let m = m\<lparr>mm_samples := keep_last 20 (mm_samples m @ [(iteration, heap_bytes)])\<rparr>
           in if length (mm_samples m) < MIN_SAMPLES then (m, None)
              else if mm_warned m then (m, None)
              else let growth = estimate_growth (mm_samples m)
                   in if flt (fmul GROWTH_THRESHOLD_KB (flit 1024)) growth then
                        let growth_kb = fdiv growth (flit 1024);
                            remaining_bytes = saturating_sub (mm_memory_limit m) heap_bytes;
                            iters_until_limit = (if flt f0 growth then f_to_u64 (fdiv (f_of_u64 remaining_bytes) growth) else - 1);
                            estimated_minutes = (if flt f0 iters_per_sec
                                                 then fdiv (fdiv (f_of_u64 iters_until_limit) iters_per_sec) (flit 60) else F64_Inf False)
                        in (m\<lparr>mm_warned := True\<rparr>,
                            Some \<lparr>mw_vu_id = vu_id, mw_current_heap_mb = fdiv (f_of_u64 heap_bytes) (fmul (flit 1024) (flit 1024)),
                                  mw_growth_kb_per_iter = growth_kb, mw_iters_until_limit = iters_until_limit,
                                  mw_estimated_minutes = estimated_minutes\<rparr>)
                      else (m, None))"

text \<open>The limit in the text is a constant of the source.\<close>

definition format_memory_warning :: "memory_warning \<Rightarrow> string" where
  "format_memory_warning w =
     [CHR 0xE2, CHR 0x9A, CHR 0xA0] @ ''  VU '' @ dec (uint (mw_vu_id w)) @ '' heap growing ~'' @ fmt_fixed 1 (mw_growth_kb_per_iter w) @
     '' KB/iteration ('' @ fmt_fixed 1 (mw_current_heap_mb w) @ '' MB '' @ [CHR 0xE2, CHR 0x86, CHR 0x92] @ '' '' @ fmt_fixed 1 (flit 64) @
     '' MB limit)'' @ [CHR 0x0A] @
     ''Will hit memory limit in ~'' @ u64_text (mw_iters_until_limit w) @ '' iterations (~'' @ fmt_fixed 0 (mw_estimated_minutes w) @
     '' minutes at current rate)'' @ [CHR 0x0A] @
     ''This usually means an unbounded cache, array, or map in your script.'' @ [CHR 0x0A] @
     ''Tip: Use SharedCache (bounded), or clear data periodically.''"

section \<open>What the lint reports\<close>

text \<open>The depth of braces after the first \<open>k\<close> lines, and the warnings of one line, over the integers.\<close>

definition brace_depth :: "string list \<Rightarrow> nat \<Rightarrow> int" where
  "brace_depth lines k =
     sum_list (map (\<lambda>l. int (count_char (CHR ''{'') (trim l)) - int (count_char (CHR ''}'') (trim l))) (take k lines))"

definition line_warnings :: "string list \<Rightarrow> nat \<Rightarrow> lint_warning list" where
  "line_warnings lines k =
     (let t = trim (lines ! k)
      in if brace_depth lines (Suc k) \<le> 0 then
           (if is_collection t then [collection_warning (Suc k) t] else []) @
           (if is_array t \<and> has_push lines k t then [array_warning (Suc k) t] else [])
         else [])"

definition config_warnings :: "string list \<Rightarrow> u32 \<Rightarrow> bool \<Rightarrow> lint_warning list" where
  "config_warnings lines max_vus discard =
     (let ts = map trim lines
      in (if 100 < max_vus \<and> \<not> discard then [bodies_warning max_vus] else []) @
         (if list_ex (\<lambda>t. contains_str ''__k6_default'' t \<or> contains_str ''export default function'' t) ts \<and>
             \<not> list_ex (contains_str ''sleep('') ts then [sleep_warning] else []))"

lemma count_char_le: "count_char c s \<le> length s"
  by (simp add: count_char_def)

lemma trim_length: "length (trim s) \<le> length s"
  using strip_length[of _ _ "rev (trim_start s)"] strip_length[of ws2 ws3 s]
  by (simp add: trim_def trim_end_def trim_start_def) (metis le_trans length_rev)

lemma brace_depth_bound: "\<bar>brace_depth lines k\<bar> \<le> int (sum_list (map length lines))"
proof -
  have 1: "\<bar>sum_list (map (\<lambda>l. int (count_char (CHR ''{'') (trim l)) - int (count_char (CHR ''}'') (trim l))) ls)\<bar>
      \<le> int (sum_list (map length ls))" for ls
  proof (induction ls)
    case (Cons l ls)
    have "count_char c (trim l) \<le> length l" for c using count_char_le[of c "trim l"] trim_length[of l] by linarith
    from this[of "CHR ''{''"] this[of "CHR ''}''"] Cons show ?case by simp
  qed simp
  have "sum_list (map length (take k lines)) \<le> sum_list (map length lines)"
    by (metis append_take_drop_id le_add1 map_append sum_list_append)
  with 1[of "take k lines"] show ?thesis by (simp add: brace_depth_def)
qed

lemma split_on_length: "sum_list (map length (split_on c s)) \<le> length s"
  by (induction s) (auto split: list.splits)

lemma lines_of_length: "sum_list (map length (lines_of s)) \<le> length s"
proof -
  let ?w = "split_on (CHR 0x0A) s"
  have cr: "length (strip_cr l) \<le> length l" for l by (simp add: strip_cr_def)
  have "sum_list (map length (map strip_cr ls)) \<le> sum_list (map length ls)" for ls
    using cr by (induction ls) (auto simp: add_mono)
  from this[of "butlast ?w"]
  have "sum_list (map length (lines_of s)) \<le> sum_list (map length (butlast ?w)) + length (last ?w)"
    by (auto simp: lines_of_def Let_def simp del: split_on.simps)
  also have "\<dots> = sum_list (map length (butlast ?w @ [last ?w]))"
    by (simp only: map_append sum_list_append list.map sum_list.Cons sum_list.Nil add_0_right)
  also have "\<dots> = sum_list (map length ?w)" by (simp only: append_butlast_last_id[OF split_on_ne])
  also have "\<dots> \<le> length s" by (rule split_on_length)
  finally show ?thesis .
qed

lemma sle_zero: "\<bar>d\<bar> < 2 ^ 31 \<Longrightarrow> (word_of_int d :: 32 word) \<le>s 0 \<longleftrightarrow> d \<le> 0"
proof -
  assume "\<bar>d\<bar> < 2 ^ 31"
  then have "sint (word_of_int d :: 32 word) = d" by (transfer) (simp add: signed_take_bit_int_eq_self)
  then show ?thesis by (simp add: word_sle_eq)
qed

lemma brace_depth_Suc:
  "k < length lines \<Longrightarrow> brace_depth lines (Suc k) =
     brace_depth lines k + int (count_char (CHR ''{'') (trim (lines ! k))) - int (count_char (CHR ''}'') (trim (lines ! k)))"
  by (simp add: brace_depth_def take_Suc_conv_app_nth)

lemma lint_fold:
  assumes "sum_list (map length lines) < 2 ^ 31" and "k \<le> length lines"
  shows "fold (lint_line lines) (enumerate 0 (take k lines)) lint_start =
    \<lparr>ls_warnings = concat (map (line_warnings lines) [0..<k]), ls_depth = word_of_int (brace_depth lines k),
     ls_sleep = list_ex (contains_str ''sleep('') (map trim (take k lines)),
     ls_default = list_ex (\<lambda>t. contains_str ''__k6_default'' t \<or> contains_str ''export default function'' t) (map trim (take k lines))\<rparr>"
  using assms(2)
proof (induction k)
  case 0
  then show ?case by (simp add: lint_start_def brace_depth_def)
next
  case (Suc k)
  let ?t = "trim (lines ! k)"
  let ?d = "brace_depth lines (Suc k)"
  have k: "k < length lines" using Suc.prems by simp
  have d: "word_of_int (brace_depth lines k) + of_nat (count_char (CHR ''{'') ?t) - of_nat (count_char (CHR ''}'') ?t) = (word_of_int ?d :: 32 word)"
    by (simp add: brace_depth_Suc[OF k])
  have "int (sum_list (map length lines)) < 2 ^ 31" using assms(1) by simp
  then have "\<bar>?d\<bar> < 2 ^ 31" using brace_depth_bound[of lines "Suc k"] by linarith
  then have g: "(word_of_int ?d :: 32 word) \<le>s 0 \<longleftrightarrow> ?d \<le> 0" by (rule sle_zero)
  have e: "enumerate 0 (take (Suc k) lines) = enumerate 0 (take k lines) @ [(k, lines ! k)]"
    using k by (simp add: take_Suc_conv_app_nth enumerate_append_eq)
  have "fold (lint_line lines) (enumerate 0 (take (Suc k) lines)) lint_start =
      lint_line lines (k, lines ! k) (fold (lint_line lines) (enumerate 0 (take k lines)) lint_start)"
    unfolding e by simp
  also have "\<dots> = lint_line lines (k, lines ! k)
      \<lparr>ls_warnings = concat (map (line_warnings lines) [0..<k]), ls_depth = word_of_int (brace_depth lines k),
       ls_sleep = list_ex (contains_str ''sleep('') (map trim (take k lines)),
       ls_default = list_ex (\<lambda>t. contains_str ''__k6_default'' t \<or> contains_str ''export default function'' t) (map trim (take k lines))\<rparr>"
    using Suc k by simp
  also have "\<dots> = \<lparr>ls_warnings = concat (map (line_warnings lines) [0..<Suc k]), ls_depth = word_of_int ?d,
     ls_sleep = list_ex (contains_str ''sleep('') (map trim (take (Suc k) lines)),
     ls_default = list_ex (\<lambda>t. contains_str ''__k6_default'' t \<or> contains_str ''export default function'' t) (map trim (take (Suc k) lines))\<rparr>"
    using k unfolding lint_line_def Let_def
    by (simp add: d g line_warnings_def[of lines k] Let_def take_Suc_conv_app_nth disj_commute disj_left_commute)
  finally show ?case .
qed

lemma line_warnings_line: "w \<in> set (line_warnings lines k) \<Longrightarrow> lw_line w = Suc k"
  by (auto simp: line_warnings_def collection_warning_def array_warning_def Let_def split: if_splits)

lemma config_warnings_line: "w \<in> set (config_warnings lines n d) \<Longrightarrow> lw_line w = 0"
  by (auto simp: config_warnings_def bodies_warning_def sleep_warning_def Let_def split: if_splits)

lemma sorted_lines: "sorted (map lw_line (concat (map (line_warnings lines) [0..<k])))"
proof (induction k)
  case (Suc k)
  have "map lw_line (line_warnings lines k) = replicate (length (line_warnings lines k)) (Suc k)"
    using line_warnings_line by (intro replicate_eqI) auto
  then have "sorted (map lw_line (line_warnings lines k))" by simp
  with Suc show ?case by (auto simp: sorted_append dest!: line_warnings_line)
qed simp

lemma sort_key_config:
  assumes "\<forall>w\<in>set cs. f w = (0::nat)" and "sorted (map f ws)" and "\<forall>w\<in>set ws. 0 < f w"
  shows "sort_key f (ws @ cs) = cs @ ws"
proof (rule properties_for_sort_key)
  fix w assume "w \<in> set (cs @ ws)"
  then consider "f w = 0" | "0 < f w" using assms by auto
  then show "filter (\<lambda>v. f w = f v) (cs @ ws) = filter (\<lambda>v. f w = f v) (ws @ cs)"
  proof cases
    case 1
    then have "filter (\<lambda>v. f w = f v) ws = []" using assms(3) by (auto simp: filter_empty_conv)
    then show ?thesis by simp
  next
    case 2
    then have "filter (\<lambda>v. f w = f v) cs = []" using assms(1) by (auto simp: filter_empty_conv)
    then show ?thesis by simp
  qed
next
  have "map f cs = replicate (length cs) 0" using assms(1) by (intro replicate_eqI) auto
  then have "sorted (map f cs)" by simp
  then show "sorted (map f (cs @ ws))" using assms by (auto simp: sorted_append)
qed simp

section \<open>What the monitor computes\<close>

text \<open>A float that holds an integer; the operations are exact up to \<open>2 ^ 53\<close>.\<close>

definition exact_int :: "f64 \<Rightarrow> int \<Rightarrow> bool" where
  "exact_int f n \<longleftrightarrow> f64_wf f \<and> is_fin f \<and> fval f = of_int n"

lemma exact_int_round:
  assumes "\<bar>n\<bar> \<le> 2 ^ 53" shows "exact_int (fround z (of_int n)) n"
proof -
  have "\<bar>of_int n\<bar> \<le> (of_int (2 ^ 53) :: rat)" using assms by (simp only: of_int_abs [symmetric] of_int_le_iff)
  also have "\<dots> \<le> 2 ^ 1023" by simp
  finally have "in_range (of_int n)" by (rule in_range_small)
  from fround_facts[OF this, of z] srnd_exact[OF repr_of_int[OF assms]] show ?thesis by (simp add: exact_int_def)
qed

lemma exact_int_of_int: "\<bar>n\<bar> \<le> 2 ^ 53 \<Longrightarrow> exact_int (f_of_int n) n"
  by (simp add: f_of_int_def exact_int_round)

lemma exact_int_ops:
  assumes "exact_int f a" "exact_int g b"
  shows "\<bar>a + b\<bar> \<le> 2 ^ 53 \<Longrightarrow> exact_int (fadd f g) (a + b)"
    and "\<bar>a - b\<bar> \<le> 2 ^ 53 \<Longrightarrow> exact_int (fsub f g) (a - b)"
    and "\<bar>a * b\<bar> \<le> 2 ^ 53 \<Longrightarrow> exact_int (fmul f g) (a * b)"
proof -
  have v: "is_fin f" "is_fin g" "fval f = of_int a" "fval g = of_int b" using assms by (auto simp: exact_int_def)
  show "\<bar>a + b\<bar> \<le> 2 ^ 53 \<Longrightarrow> exact_int (fadd f g) (a + b)" using v exact_int_round[of "a + b"] by (simp add: fadd_fin)
  show "\<bar>a - b\<bar> \<le> 2 ^ 53 \<Longrightarrow> exact_int (fsub f g) (a - b)" using v exact_int_round[of "a - b"] by (simp add: fsub_fin)
  show "\<bar>a * b\<bar> \<le> 2 ^ 53 \<Longrightarrow> exact_int (fmul f g) (a * b)" using v exact_int_round[of "a * b"] by (simp add: fmul_fin)
qed

lemma f_abs_exact: "is_fin f \<Longrightarrow> is_fin (f_abs f) \<and> fval (f_abs f) = \<bar>fval f\<bar>" if "f64_wf f"
  using that by (cases f) (auto simp: abs_mult)

definition sum_of :: "((u32 \<times> u64) \<Rightarrow> int) \<Rightarrow> (u32 \<times> u64) list \<Rightarrow> int" where
  "sum_of h samples = sum_list (map h samples)"

abbreviation sx :: "(u32 \<times> u64) list \<Rightarrow> int" where "sx \<equiv> sum_of (\<lambda>s. uint (fst s))"
abbreviation sy :: "(u32 \<times> u64) list \<Rightarrow> int" where "sy \<equiv> sum_of (\<lambda>s. uint (snd s))"
abbreviation sxy :: "(u32 \<times> u64) list \<Rightarrow> int" where "sxy \<equiv> sum_of (\<lambda>s. uint (fst s) * uint (snd s))"
abbreviation sxx :: "(u32 \<times> u64) list \<Rightarrow> int" where "sxx \<equiv> sum_of (\<lambda>s. uint (fst s) * uint (fst s))"

lemma sum_of_nonneg: "(\<And>s. 0 \<le> h s) \<Longrightarrow> 0 \<le> sum_of h ss"
  by (induction ss) (auto simp: sum_of_def)

lemma add_sums_exact:
  assumes "exact_int a A" "exact_int b B" "exact_int c C" "exact_int d D" "0 \<le> A" "0 \<le> B" "0 \<le> C" "0 \<le> D"
    and "A + sx ss \<le> 2 ^ 53" "B + sy ss \<le> 2 ^ 53" "C + sxy ss \<le> 2 ^ 53" "D + sxx ss \<le> 2 ^ 53"
  shows "\<exists>a' b' c' d'. fold add_sums ss (a, b, c, d) = (a', b', c', d') \<and> exact_int a' (A + sx ss) \<and> exact_int b' (B + sy ss) \<and>
    exact_int c' (C + sxy ss) \<and> exact_int d' (D + sxx ss)"
  using assms
proof (induction ss arbitrary: a b c d A B C D)
  case Nil
  then show ?case by (simp add: sum_of_def)
next
  case (Cons s ss)
  let ?x = "uint (fst s)" and ?y = "uint (snd s)"
  have nn: "0 \<le> sx ss" "0 \<le> sy ss" "0 \<le> sxy ss" "0 \<le> sxx ss" by (simp_all add: sum_of_nonneg)
  have exp: "sum_of h (s # ss) = h s + sum_of h ss" for h by (simp add: sum_of_def)
  have bounds: "A + ?x \<le> 2 ^ 53" "B + ?y \<le> 2 ^ 53" "C + ?x * ?y \<le> 2 ^ 53" "D + ?x * ?x \<le> 2 ^ 53"
    using Cons.prems(9-12) nn unfolding exp by linarith+
  have nx: "0 \<le> ?x" "0 \<le> ?y" "0 \<le> ?x * ?y" "0 \<le> ?x * ?x" by simp_all
  have small: "\<bar>?x\<bar> \<le> 2 ^ 53" "\<bar>?y\<bar> \<le> 2 ^ 53" "\<bar>?x * ?y\<bar> \<le> 2 ^ 53" "\<bar>?x * ?x\<bar> \<le> 2 ^ 53"
    using bounds Cons.prems(5-8) nx by linarith+
  have fx: "exact_int (f_of_u32 (fst s)) ?x" "exact_int (f_of_u64 (snd s)) ?y"
    using small exact_int_of_int by (simp_all add: f_of_u32_def f_of_u64_def)
  have fm: "exact_int (fmul (f_of_u32 (fst s)) (f_of_u64 (snd s))) (?x * ?y)" "exact_int (fmul (f_of_u32 (fst s)) (f_of_u32 (fst s))) (?x * ?x)"
    using exact_int_ops(3)[OF fx(1) fx(2)] exact_int_ops(3)[OF fx(1) fx(1)] small by blast+
  have pos: "0 \<le> A + ?x" "0 \<le> B + ?y" "0 \<le> C + ?x * ?y" "0 \<le> D + ?x * ?x" using Cons.prems(5-8) nx by linarith+
  have st: "exact_int (fadd a (f_of_u32 (fst s))) (A + ?x)" "exact_int (fadd b (f_of_u64 (snd s))) (B + ?y)"
    "exact_int (fadd c (fmul (f_of_u32 (fst s)) (f_of_u64 (snd s)))) (C + ?x * ?y)"
    "exact_int (fadd d (fmul (f_of_u32 (fst s)) (f_of_u32 (fst s)))) (D + ?x * ?x)"
    using exact_int_ops(1)[OF Cons.prems(1) fx(1)] exact_int_ops(1)[OF Cons.prems(2) fx(2)]
      exact_int_ops(1)[OF Cons.prems(3) fm(1)] exact_int_ops(1)[OF Cons.prems(4) fm(2)] bounds pos by (simp_all only: abs_of_nonneg)
  have tot: "A + ?x + sx ss \<le> 2 ^ 53" "B + ?y + sy ss \<le> 2 ^ 53" "C + ?x * ?y + sxy ss \<le> 2 ^ 53" "D + ?x * ?x + sxx ss \<le> 2 ^ 53"
    using Cons.prems(9-12) unfolding exp by linarith+
  show ?case using Cons.IH[OF st pos tot] by (simp add: add_sums_def Let_def exp add.assoc)
qed

definition slope_num :: "(u32 \<times> u64) list \<Rightarrow> int" where
  "slope_num ss = int (length ss) * sxy ss - sx ss * sy ss"

definition slope_den :: "(u32 \<times> u64) list \<Rightarrow> int" where
  "slope_den ss = int (length ss) * sxx ss - sx ss * sx ss"

text \<open>The sums stay below \<open>2 ^ 53\<close>.\<close>

definition slope_exact :: "(u32 \<times> u64) list \<Rightarrow> bool" where
  "slope_exact ss \<longleftrightarrow> 2 \<le> length ss \<and> sy ss \<le> 2 ^ 53 \<and> int (length ss) * sxy ss \<le> 2 ^ 53 \<and> int (length ss) * sxx ss \<le> 2 ^ 53 \<and>
     sx ss * sx ss \<le> 2 ^ 53 \<and> sx ss * sy ss \<le> 2 ^ 53 \<and> int (length ss) \<le> 2 ^ 53"

lemma estimate_growth_slope:
  assumes "slope_exact ss" and "slope_den ss \<noteq> 0"
  shows "fval (estimate_growth ss) = srnd (of_int (slope_num ss) / of_int (slope_den ss))"
proof -
  let ?n = "int (length ss)"
  have nn: "0 \<le> sx ss" "0 \<le> sy ss" "0 \<le> sxy ss" "0 \<le> sxx ss" by (simp_all add: sum_of_nonneg)
  have n2: "2 \<le> ?n" and B: "sy ss \<le> 2 ^ 53" "?n * sxy ss \<le> 2 ^ 53" "?n * sxx ss \<le> 2 ^ 53" "sx ss * sx ss \<le> 2 ^ 53" "sx ss * sy ss \<le> 2 ^ 53" "?n \<le> 2 ^ 53"
    using assms(1) by (auto simp: slope_exact_def)
  have P: "0 \<le> ?n * sxy ss" "0 \<le> ?n * sxx ss" "0 \<le> sx ss * sx ss" "0 \<le> sx ss * sy ss" using nn by simp_all
  have m: "t \<le> ?n * t" if "0 \<le> t" for t using mult_right_mono[of 1 ?n t] n2 that by simp
  have sq: "t \<le> t * t" if "0 \<le> t" for t :: int using that by (cases "t = 0") (auto simp: mult_le_cancel_left1)
  have S: "sx ss \<le> 2 ^ 53" "sxy ss \<le> 2 ^ 53" "sxx ss \<le> 2 ^ 53"
    using m[OF nn(3)] m[OF nn(4)] sq[OF nn(1)] B by linarith+
  have z: "exact_int f0 0" by (simp add: exact_int_def)
  obtain a b c d where f: "fold add_sums ss (f0, f0, f0, f0) = (a, b, c, d)"
    and h: "exact_int a (sx ss)" "exact_int b (sy ss)" "exact_int c (sxy ss)" "exact_int d (sxx ss)"
    using add_sums_exact[OF z z z z, of ss] S B by auto
  have u: "uint (of_nat (length ss) :: u64) = ?n"
    using B(6) by (simp add: unsigned_of_nat take_bit_nat_eq_self)
  have hn: "exact_int (f_of_u64 (of_nat (length ss))) ?n" using B(6) n2 by (simp add: f_of_u64_def u exact_int_of_int)
  have dif: "\<bar>p - q\<bar> \<le> 2 ^ 53" if "0 \<le> p" "p \<le> 2 ^ 53" "0 \<le> q" "q \<le> 2 ^ 53" for p q :: int using that by linarith
  have den: "exact_int (fsub (fmul (f_of_u64 (of_nat (length ss))) d) (fmul a a)) (slope_den ss)"
    unfolding slope_den_def
    by (rule exact_int_ops(2)[OF exact_int_ops(3)[OF hn h(4)] exact_int_ops(3)[OF h(1) h(1)]]) (use dif[OF P(2) B(3) P(3) B(4)] B P in simp_all)
  have num: "exact_int (fsub (fmul (f_of_u64 (of_nat (length ss))) c) (fmul a b)) (slope_num ss)"
    unfolding slope_num_def
    by (rule exact_int_ops(2)[OF exact_int_ops(3)[OF hn h(3)] exact_int_ops(3)[OF h(1) h(2)]]) (use dif[OF P(1) B(2) P(4) B(5)] B P in simp_all)
  let ?g = "fsub (fmul (f_of_u64 (of_nat (length ss))) d) (fmul a a)" and ?h = "fsub (fmul (f_of_u64 (of_nat (length ss))) c) (fmul a b)"
  have two: "exact_int (flit 2) 2" using exact_int_round[of 2 False] by (simp add: flit_def)
  have n: "\<not> flt (f_of_u64 (of_nat (length ss))) (flit 2)"
    using hn two n2 by (simp add: exact_int_def flt_fin)
  have "1 \<le> \<bar>fval ?g\<bar>" using den assms(2) by (simp add: exact_int_def flip: of_int_abs)
  moreover have "fval (flit (1 / 10 ^ 10)) \<le> 1" "is_fin (flit (1 / 10 ^ 10))"
  proof -
    have r: "in_range (1 / 10 ^ 10)" by (rule in_range_small) simp
    have "srnd (1 / 10 ^ 10) \<le> 1" using repr_of_int[of 1] by (intro srnd_le_repr) auto
    then show "fval (flit (1 / 10 ^ 10)) \<le> 1" using r by (simp add: flit_def)
    show "is_fin (flit (1 / 10 ^ 10))" unfolding flit_def using fround_facts[OF r] by blast
  qed
  ultimately have d: "\<not> flt (f_abs ?g) (flit (1 / 10 ^ 10))"
    using den by (simp add: flt_fin f_abs_exact exact_int_def)
  have e: "estimate_growth ss = fdiv ?h ?g" using n d by (simp add: estimate_growth_def f Let_def)
  have D: "fval ?g \<noteq> 0" using den assms(2) by (simp add: exact_int_def)
  have "(1::rat) \<le> \<bar>of_int (slope_den ss)\<bar>" using assms(2) by (simp flip: of_int_abs)
  then have "\<bar>of_int (slope_num ss) / of_int (slope_den ss)\<bar> \<le> \<bar>of_int (slope_num ss) :: rat\<bar>"
    using assms(2) by (simp add: abs_divide divide_le_eq mult_le_cancel_left1)
  also have "\<dots> \<le> of_int (2 ^ 53)"
    unfolding of_int_abs [symmetric] of_int_le_iff slope_num_def using B P by (auto simp: abs_le_iff)
  also have "\<dots> \<le> 2 ^ 1023" by simp
  finally have "in_range (of_int (slope_num ss) / of_int (slope_den ss))" by (rule in_range_small)
  then show ?thesis using num den D by (simp add: e fdiv_fin exact_int_def)
qed

text \<open>The state of the monitor: at most twenty samples, and one warning.\<close>

fun monitor_run :: "(u32 \<times> u64 \<times> f64) list \<Rightarrow> u32 \<Rightarrow> memory_monitor \<Rightarrow> memory_monitor \<times> memory_warning list" where
  "monitor_run [] vu_id m = (m, [])"
| "monitor_run ((iteration, heap, ips) # cs) vu_id m =
     (case monitor_check iteration heap vu_id ips m of (m, w) \<Rightarrow>
        case monitor_run cs vu_id m of (m, ws) \<Rightarrow> (m, case w of None \<Rightarrow> ws | Some w \<Rightarrow> w # ws))"

lemma monitor_check_warns:
  "monitor_check i h v r m = (m', w) \<Longrightarrow> (w \<noteq> None \<longrightarrow> \<not> mm_warned m \<and> mm_warned m') \<and> (mm_warned m \<longrightarrow> mm_warned m')"
  by (auto simp: monitor_check_def Let_def split: if_splits)

lemma monitor_check_bounded:
  "length (mm_samples m) \<le> 20 \<Longrightarrow> monitor_check i h v r m = (m', w) \<Longrightarrow> length (mm_samples m') \<le> 20"
  by (auto simp: monitor_check_def keep_last_def Let_def split: if_splits)

lemma monitor_run_warned: "mm_warned m \<Longrightarrow> snd (monitor_run cs v m) = []"
proof (induction cs v m rule: monitor_run.induct)
  case (2 i h r cs v m)
  obtain m' w where c: "monitor_check i h v r m = (m', w)" by fastforce
  have "w = None" "mm_warned m'" using monitor_check_warns[OF c] 2(2) by auto
  with 2(1)[OF c[symmetric]] show ?case by (simp add: c split: prod.splits)
qed simp

lemma monitor_run_once:
  "length (mm_samples m) \<le> 20 \<Longrightarrow> length (mm_samples (fst (monitor_run cs v m))) \<le> 20 \<and> length (snd (monitor_run cs v m)) \<le> 1"
proof (induction cs v m rule: monitor_run.induct)
  case (2 i h r cs v m)
  obtain m' w where c: "monitor_check i h v r m = (m', w)" by fastforce
  obtain m'' ws where r: "monitor_run cs v m' = (m'', ws)" by fastforce
  have "length (mm_samples m'') \<le> 20 \<and> length ws \<le> 1"
    using 2(1)[OF c[symmetric] monitor_check_bounded[OF 2(2) c]] by (simp add: r)
  moreover have "w \<noteq> None \<Longrightarrow> ws = []" using monitor_check_warns[OF c] monitor_run_warned[of m' cs v] r by auto
  ultimately show ?case by (cases w) (auto simp: c r)
qed simp


text \<open>C39.  The lint scans the script once with a 32-bit counter of braces and sorts at the end; for a script below
  two gigabytes its report is the warnings on the configuration, then for each line in order the collection and
  the growing array declared on it, each exactly when the braces up to and with that line are balanced.\<close>

theorem lint_report:
  assumes "length source < 2 ^ 31"
  shows "lint_script source max_vus discard =
    config_warnings (lines_of source) max_vus discard @ concat (map (line_warnings (lines_of source)) [0..<length (lines_of source)])"
proof -
  let ?L = "lines_of source"
  have b: "sum_list (map length ?L) < 2 ^ 31" using lines_of_length[of source] assms by linarith
  let ?ws = "concat (map (line_warnings ?L) [0..<length ?L])"
  have s: "sort_key lw_line (?ws @ config_warnings ?L max_vus discard) = config_warnings ?L max_vus discard @ ?ws"
    by (rule sort_key_config) (auto simp: sorted_lines config_warnings_line dest!: line_warnings_line)
  show ?thesis
    using lint_fold[OF b order_refl] s by (simp add: lint_script_def Let_def config_warnings_def)
qed

theorem lint_report_witness:
  "let src = ''const seen = new Set();'' @ [CHR 0x0A] @ ''export default function () {'' @ [CHR 0x0A] @ ''  const m = new Map();'' @ [CHR 0x0A] @ ''}''
   in length src < 2 ^ 31 \<and>
      map lw_line (lint_script src 200 False) = [0, 0, 1]"
proof -
  let ?src = "''const seen = new Set();'' @ [CHR 0x0A] @ ''export default function () {'' @ [CHR 0x0A] @ ''  const m = new Map();'' @ [CHR 0x0A] @ ''}''"
  have l: "length ?src < 2 ^ 31" by simp
  have "map lw_line (config_warnings (lines_of ?src) 200 False @
      concat (map (line_warnings (lines_of ?src)) [0..<length (lines_of ?src)])) = [0, 0, 1]" by code_simp
  then show ?thesis using l by (simp only: lint_report[OF l] Let_def simp_thms)
qed

end
