(* ===== verification/Script.thy ===== *)
theory Script
  imports Rust_Str Outputs Metrics
begin

text \<open>
  The preparation of a script and the virtual user of the lifecycle hooks (\<open>crates/k6-js/src/vu.rs\<close>): imports are
  inlined and exports become assignments to globals, line by line; \<open>setup\<close>, \<open>teardown\<close>, \<open>handleSummary\<close> and
  single iterations run on a context of their own; \<open>randomSeed\<close> replaces the generator of random numbers.
  The file system is a record of functions.  The inlining of a file that imports itself does not end, so it
  is a partial function whose value \<open>None\<close> is not returning; a panic is the inner \<open>None\<close>.
\<close>

section \<open>Paths\<close>

text \<open>\<open>std::path::Path\<close> on text.  Two paths are equal when their components are: empty pieces and pieces \<open>.\<close>
  after the first do not count.\<close>

type_synonym path_key = "bool \<times> string list"

definition skipped_piece :: "string \<Rightarrow> bool" where
  "skipped_piece p \<longleftrightarrow> p = [] \<or> p = ''.''"

definition path_key :: "string \<Rightarrow> path_key" where
  "path_key s =
     (let ps = split_on (CHR ''/'') s
      in (starts_with ''/'' s, (if hd ps = [] then [] else [hd ps]) @ filter (\<lambda>p. \<not> skipped_piece p) (tl ps)))"

definition path_join :: "string \<Rightarrow> string \<Rightarrow> string" where
  "path_join d p =
     (if starts_with ''/'' p then p
      else if d = [] \<or> last d = CHR ''/'' then d @ p
      else d @ ''/'' @ p)"

definition trim_pieces :: "string list \<Rightarrow> string list" where
  "trim_pieces ps = hd ps # rev (dropWhile skipped_piece (rev (tl ps)))"

definition path_parent :: "string \<Rightarrow> string option" where
  "path_parent s =
     (let ps = trim_pieces (split_on (CHR ''/'') s)
      in if length ps = 1 then (if hd ps = [] then None else Some [])
         else let qs = trim_pieces (butlast ps)
              in Some (if qs = [[]] then ''/'' else join ''/'' qs))"

section \<open>Lines of a script\<close>

record file_system =
  fs_read :: "string \<Rightarrow> string + string"
  fs_exists :: "string \<Rightarrow> bool"

text \<open>The outer option is a panic: a path of one quote is sliced from 1 to 0.\<close>

definition extract_import_path :: "string \<Rightarrow> string option option" where
  "extract_import_path import_line =
     (case find_str '' from '' import_line of
        None \<Rightarrow> Some None
      | Some from_idx \<Rightarrow>
          let t = trim_end_matches '';'' (trim (drop (from_idx + 6) import_line))
          in if starts_with [CHR 0x27] t \<and> ends_with [CHR 0x27] t \<or> starts_with [CHR 0x22] t \<and> ends_with [CHR 0x22] t
             then (if length t < 2 then None else Some (Some (take (length t - 2) (drop 1 t))))
             else Some None)"

datatype prepared_line =
    SlicePanic
  | EmitText string "path_key list"
  | InlineFile string string string "path_key list"

definition inline_file ::
    "file_system \<Rightarrow> string \<Rightarrow> string \<Rightarrow> (string \<Rightarrow> string) \<Rightarrow> string \<Rightarrow> string \<Rightarrow> path_key list \<Rightarrow> prepared_line" where
  "inline_file F dir label failure path resolved inlined =
     (if path_key resolved \<in> set inlined then EmitText (''// already inlined: '' @ path @ [newline]) inlined
      else let inlined = path_key resolved # inlined
           in case fs_read F resolved of
                Inr contents \<Rightarrow>
                  InlineFile (''// '' @ label @ '': '' @ path @ [newline]) contents
                    (case path_parent resolved of None \<Rightarrow> dir | Some p \<Rightarrow> p) inlined
              | Inl e \<Rightarrow> EmitText (failure e) inlined)"

definition comment_line :: "string \<Rightarrow> string" where
  "comment_line line = ''// '' @ line @ [newline]"

definition import_line_of :: "file_system \<Rightarrow> string option \<Rightarrow> path_key list \<Rightarrow> string \<Rightarrow> prepared_line" where
  "import_line_of F script_dir inlined line =
     (case script_dir of
        None \<Rightarrow> EmitText (comment_line line) inlined
      | Some dir \<Rightarrow>
          case extract_import_path (trim line) of
            None \<Rightarrow> SlicePanic
          | Some None \<Rightarrow> EmitText (comment_line line) inlined
          | Some (Some path) \<Rightarrow>
              if starts_with ''./'' path \<or> starts_with ''../'' path then
                inline_file F dir ''inlined'' (\<lambda>e. ''// ERROR: could not import '' @ path @ '': '' @ e @ [newline]) path (path_join dir path) inlined
              else if starts_with ''k6/x/'' path then
                let ext_name = drop 5 path;
                    ext_file = path_join (path_join dir ''extensions'') (ext_name @ ''.js'');
                    ext_file_index = path_join (path_join (path_join dir ''extensions'') ext_name) ''index.js'';
                    resolved = (if fs_exists F ext_file then ext_file else ext_file_index)
                in inline_file F dir ''extension'' (\<lambda>e. ''// ERROR: extension '' @ path @ '' not found: '' @ e @ [newline]) path resolved inlined
              else EmitText (comment_line line) inlined)"

text \<open>The name of a binding: the longest prefix of alphanumeric characters and underscores, where \<open>alnum\<close> says
  which characters of more than one byte are alphanumeric.\<close>

definition char_width :: "char \<Rightarrow> nat" where
  "char_width c = (if is_ascii c then 1 else if of_char c < (0xE0::nat) then 2 else if of_char c < (0xF0::nat) then 3 else 4)"

function name_length :: "(string \<Rightarrow> bool) \<Rightarrow> string \<Rightarrow> nat" where
  "name_length alnum [] = 0"
| "name_length alnum (c # s) =
     (let w = char_width c
      in if (if is_ascii c then is_alpha c \<or> is_digit c \<or> c = CHR ''_'' else alnum (take w (c # s)))
         then w + name_length alnum (drop w (c # s)) else 0)"
  by pat_completeness auto
termination by (relation "measure (\<lambda>(a, s). length s)") (auto simp: char_width_def)

definition export_binding :: "(string \<Rightarrow> bool) \<Rightarrow> string \<Rightarrow> string" where
  "export_binding alnum rest =
     (let name_len = name_length alnum rest
      in ''globalThis.'' @ take name_len rest @ drop name_len rest @ [newline])"

definition strip_export :: "string \<Rightarrow> string" where
  "strip_export t =
     (case strip_prefix ''export const '' t of Some r \<Rightarrow> r | None \<Rightarrow>
      case strip_prefix ''export let '' t of Some r \<Rightarrow> r | None \<Rightarrow>
      case strip_prefix ''export var '' t of Some r \<Rightarrow> r | None \<Rightarrow> [])"

definition prepare_line :: "file_system \<Rightarrow> (string \<Rightarrow> bool) \<Rightarrow> string option \<Rightarrow> path_key list \<Rightarrow> string \<Rightarrow> prepared_line" where
  "prepare_line F alnum script_dir inlined line =
     (let t = trim line
      in if starts_with ''import '' t then import_line_of F script_dir inlined line
         else if starts_with ''export default function'' t \<or> starts_with ''export default async function'' t then
           EmitText (''globalThis.__k6_default = '' @ drop 15 t @ [newline]) inlined
         else if starts_with ''export const options'' t then
           EmitText (''globalThis.__k6_options'' @ drop 20 t @ [newline]) inlined
         else if starts_with ''export function'' t then
           let rest = drop 7 t
           in EmitText ((case strip_prefix ''function '' rest of
                           Some s \<Rightarrow> ''globalThis.'' @ first_piece (\<lambda>c. c = CHR ''('') s @ '' = ''
                         | None \<Rightarrow> []) @ rest @ [newline]) inlined
         else if starts_with ''export let '' t \<or> starts_with ''export var '' t \<or> starts_with ''export const '' t then
           EmitText (export_binding alnum (strip_export t)) inlined
         else EmitText (line @ [newline]) inlined)"

partial_function (option) prepare_lines ::
    "file_system \<Rightarrow> (string \<Rightarrow> bool) \<Rightarrow> string option \<Rightarrow> string list \<Rightarrow> path_key list \<Rightarrow> string option option" where
  "prepare_lines F alnum script_dir lines inlined =
     (case lines of
        [] \<Rightarrow> Some (Some [])
      | line # rest \<Rightarrow>
          (case prepare_line F alnum script_dir inlined line of
             SlicePanic \<Rightarrow> Some None
           | EmitText t inl \<Rightarrow>
               Option.bind (prepare_lines F alnum script_dir rest inl) (\<lambda>r. Some (map_option (\<lambda>s. t @ s) r))
           | InlineFile header contents parent inl \<Rightarrow>
               Option.bind (prepare_lines F alnum (Some parent) (lines_of contents) []) (\<lambda>p.
                 case p of
                   None \<Rightarrow> Some None
                 | Some prepared \<Rightarrow>
                     Option.bind (prepare_lines F alnum script_dir rest inl) (\<lambda>r.
                       Some (map_option (\<lambda>s. header @ prepared @ [newline] @ s) r)))))"

definition prepare_script_with_dir :: "file_system \<Rightarrow> (string \<Rightarrow> bool) \<Rightarrow> string \<Rightarrow> string option \<Rightarrow> string option option" where
  "prepare_script_with_dir F alnum source script_dir = prepare_lines F alnum script_dir (lines_of source) []"

definition prepare_script :: "file_system \<Rightarrow> (string \<Rightarrow> bool) \<Rightarrow> string \<Rightarrow> string option option" where
  "prepare_script F alnum source = prepare_script_with_dir F alnum source None"

section \<open>Random numbers\<close>

text \<open>\<open>seed | 0\<close> converts to 32 bits; the second shift of the generator keeps the sign.\<close>

fun to_int32 :: "f64 \<Rightarrow> 32 word" where
  "to_int32 (F64_Fin s m e) = word_of_int ((if s then - 1 else 1) * \<lfloor>of_int m * (2::rat) powi e\<rfloor>)"
| "to_int32 _ = 0"

definition seed_state :: "f64 \<Rightarrow> 32 word" where
  "seed_state seed = (let state = to_int32 seed in if state = 0 then 1 else state)"

definition shift_step :: "32 word \<Rightarrow> 32 word" where
  "shift_step state =
     (let state = xor state (push_bit 13 state);
          state = xor state (signed_drop_bit 17 state)
      in xor state (push_bit 5 state))"

definition math_random :: "32 word \<Rightarrow> f64 \<times> 32 word" where
  "math_random state = (let state = shift_step state in (fdiv (f_of_int (uint state)) (flit 4294967296), state))"

primrec random_numbers :: "nat \<Rightarrow> 32 word \<Rightarrow> f64 list" where
  "random_numbers 0 state = []"
| "random_numbers (Suc n) state = (case math_random state of (x, state) \<Rightarrow> x # random_numbers n state)"

section \<open>Lifecycle hooks\<close>

text \<open>The engine is a record of functions on the state of a context: reading a global (\<open>undefined\<close> when there is
  none), setting one, calling a function, polling a promise, converting to text, the queued jobs.\<close>

datatype 'v poll = Settled 'v | WouldBlock | Rejected string

record ('g, 'v) js_engine =
  js_undefined :: 'v
  js_get :: "string \<Rightarrow> 'g \<Rightarrow> 'v"
  js_set :: "string \<Rightarrow> 'v \<Rightarrow> 'g \<Rightarrow> 'g"
  js_number :: "u32 \<Rightarrow> 'v"
  js_is_function :: "'v \<Rightarrow> bool"
  js_call :: "'v \<Rightarrow> 'v list \<Rightarrow> 'g \<Rightarrow> 'g \<times> (string + 'v)"
  js_is_promise :: "'v \<Rightarrow> bool"
  js_finish :: "'v \<Rightarrow> 'g \<Rightarrow> 'g \<times> 'v poll"
  js_stringify :: "'v \<Rightarrow> 'g \<Rightarrow> 'g \<times> (string + string)"
  js_parse :: "string \<Rightarrow> string + 'v"
  js_string_props :: "'v \<Rightarrow> (string \<times> string option) list option"
  js_jobs :: "'g \<Rightarrow> 'g"

datatype script_error =
    NoDefault | ExecMissing string | IterationError string
  | SetupError string | SerializeError string | SetupDataError string | TeardownError string
  | HookInterrupted | PromiseError string
  | SummaryMissing | SummaryDataError string | SummaryError string

record ('g, 'm) script_vu =
  sv_cancel :: "(nat \<Rightarrow> bool) option"
  sv_ctx :: 'g
  sv_vu_id :: u32
  sv_iteration :: u32
  sv_metrics :: "'m option"
  sv_exec_fn :: "string option"

definition set_exec_fn :: "string \<Rightarrow> ('g, 'm) script_vu \<Rightarrow> ('g, 'm) script_vu" where
  "set_exec_fn name v = v\<lparr>sv_exec_fn := Some name\<rparr>"

definition set_metrics :: "'m \<Rightarrow> ('g, 'm) script_vu \<Rightarrow> ('g, 'm) script_vu" where
  "set_metrics m v = v\<lparr>sv_metrics := Some m\<rparr>"

definition has_function :: "('g, 'v) js_engine \<Rightarrow> string \<Rightarrow> ('g, 'm) script_vu \<Rightarrow> bool" where
  "has_function E name v = js_is_function E (js_get E name (sv_ctx v))"

text \<open>One iteration; \<open>None\<close> is a panic of the registry.\<close>

definition run_iteration ::
    "('g, 'v) js_engine \<Rightarrow> ('c, 'h) deps \<Rightarrow> duration \<Rightarrow> ('g, ('c, 'h) registry) script_vu \<Rightarrow>
     (('g, ('c, 'h) registry) script_vu \<times> (script_error + unit)) option" where
  "run_iteration E D elapsed v =
     (let iteration = sv_iteration v;
          g = js_set E ''__ITER'' (js_number E iteration) (sv_ctx v);
          v = v\<lparr>sv_iteration := sv_iteration v + 1, sv_ctx := g\<rparr>;
          fn_name = (case sv_exec_fn v of Some name \<Rightarrow> name | None \<Rightarrow> ''__k6_default'');
          func = js_get E fn_name g
      in if \<not> js_is_function E func then
           Some (v, Inl (case sv_exec_fn v of None \<Rightarrow> NoDefault | Some name \<Rightarrow> ExecMissing name))
         else case js_call E func [js_get E ''__k6_setup_data'' g] g of
           (g, Inl e) \<Rightarrow> Some (v\<lparr>sv_ctx := g\<rparr>, Inl (IterationError e))
         | (g, Inr r) \<Rightarrow>
             let v = v\<lparr>sv_ctx := js_jobs E g\<rparr>
             in case sv_metrics v of
                  None \<Rightarrow> Some (v, Inr ())
                | Some m \<Rightarrow>
                    map_option (\<lambda>m. (v\<lparr>sv_metrics := Some m\<rparr>, Inr ()))
                      (record_iteration D (fmul (as_secs_f64 elapsed) (flit 1000)) m))"

text \<open>The loop on a promise: it polls again while the promise is not settled and the token is not cancelled.\<close>

partial_function (option) resolve_loop ::
    "('g, 'v) js_engine \<Rightarrow> (nat \<Rightarrow> bool) option \<Rightarrow> 'v \<Rightarrow> nat \<Rightarrow> 'g \<Rightarrow> ('g \<times> (script_error + 'v)) option" where
  "resolve_loop E cancel promise n g =
     (case js_finish E promise g of (g, p) \<Rightarrow>
        case p of
          Settled r \<Rightarrow> Some (g, Inr r)
        | Rejected e \<Rightarrow> Some (g, Inl (PromiseError e))
        | WouldBlock \<Rightarrow>
            (case cancel of
               None \<Rightarrow> Some (g, Inl (PromiseError ''would block''))
             | Some cancelled \<Rightarrow>
                 if cancelled n then Some (g, Inl HookInterrupted) else resolve_loop E cancel promise (Suc n) g))"

definition resolve_hook_result ::
    "('g, 'v) js_engine \<Rightarrow> (nat \<Rightarrow> bool) option \<Rightarrow> 'v \<Rightarrow> 'g \<Rightarrow> ('g \<times> (script_error + 'v)) option" where
  "resolve_hook_result E cancel r g = (if js_is_promise E r then resolve_loop E cancel r 0 g else Some (g, Inr r))"

text \<open>A text as a string literal of the script, and how the language reads it back.\<close>

definition js_quote :: "string \<Rightarrow> string" where
  "js_quote s = replace_char (CHR 0x27) [CHR 0x5C, CHR 0x27] (replace_char (CHR 0x5C) [CHR 0x5C, CHR 0x5C] s)"

fun js_literal :: "string \<Rightarrow> (string \<times> string) option" where
  "js_literal [] = None"
| "js_literal (c # s) =
     (if c = CHR 0x27 then Some ([], s)
      else if c = CHR 0x0A \<or> c = CHR 0x0D then None
      else if c = CHR 0x5C then
        (case s of
           [] \<Rightarrow> None
         | d # t \<Rightarrow>
             if d = CHR 0x27 \<or> d = CHR 0x5C then map_option (\<lambda>(a, b). (d # a, b)) (js_literal t) else None)
      else map_option (\<lambda>(a, b). (c # a, b)) (js_literal s))"

definition json_parse_literal :: "('g, 'v) js_engine \<Rightarrow> string \<Rightarrow> string + 'v" where
  "json_parse_literal E json =
     (case js_literal (js_quote json @ [CHR 0x27]) of
        Some (txt, []) \<Rightarrow> js_parse E txt
      | _ \<Rightarrow> Inl ''SyntaxError'')"

definition set_setup_data :: "('g, 'v) js_engine \<Rightarrow> string \<Rightarrow> ('g, 'm) script_vu \<Rightarrow> ('g, 'm) script_vu \<times> (script_error + unit)" where
  "set_setup_data E json v =
     (case json_parse_literal E json of
        Inl e \<Rightarrow> (v, Inl (SetupDataError e))
      | Inr data \<Rightarrow> (v\<lparr>sv_ctx := js_set E ''__k6_setup_data'' data (sv_ctx v)\<rparr>, Inr ()))"

text \<open>The outer option of the hooks is a promise that is polled for ever.\<close>

definition setup_result :: "('g, 'v) js_engine \<Rightarrow> ('g, 'm) script_vu \<Rightarrow> 'g \<times> (script_error + 'v) \<Rightarrow> ('g, 'm) script_vu \<times> (script_error + string option)" where
  "setup_result E v gr =
     (case gr of
        (g, Inl e) \<Rightarrow> (v\<lparr>sv_ctx := g\<rparr>, Inl e)
      | (g, Inr r) \<Rightarrow>
          if r = js_undefined E then (v\<lparr>sv_ctx := js_jobs E g\<rparr>, Inr None)
          else case js_stringify E r g of
            (g, Inl e) \<Rightarrow> (v\<lparr>sv_ctx := g\<rparr>, Inl (SerializeError e))
          | (g, Inr json) \<Rightarrow>
              (case set_setup_data E json (v\<lparr>sv_ctx := js_jobs E g\<rparr>) of
                 (v, Inl e) \<Rightarrow> (v, Inl e)
               | (v, Inr _) \<Rightarrow> (v, Inr (Some json))))"

definition run_setup :: "('g, 'v) js_engine \<Rightarrow> ('g, 'm) script_vu \<Rightarrow> (('g, 'm) script_vu \<times> (script_error + string option)) option" where
  "run_setup E v =
     (let setup_fn = js_get E ''setup'' (sv_ctx v)
      in if \<not> js_is_function E setup_fn then Some (v\<lparr>sv_ctx := js_jobs E (sv_ctx v)\<rparr>, Inr None)
         else case js_call E setup_fn [] (sv_ctx v) of
           (g, Inl e) \<Rightarrow> Some (v\<lparr>sv_ctx := g\<rparr>, Inl (SetupError e))
         | (g, Inr r) \<Rightarrow> map_option (setup_result E v) (resolve_hook_result E (sv_cancel v) r g))"

definition run_teardown :: "('g, 'v) js_engine \<Rightarrow> ('g, 'm) script_vu \<Rightarrow> (('g, 'm) script_vu \<times> (script_error + unit)) option" where
  "run_teardown E v =
     (let teardown_fn = js_get E ''teardown'' (sv_ctx v)
      in if \<not> js_is_function E teardown_fn then Some (v\<lparr>sv_ctx := js_jobs E (sv_ctx v)\<rparr>, Inr ())
         else case js_call E teardown_fn [js_get E ''__k6_setup_data'' (sv_ctx v)] (sv_ctx v) of
           (g, Inl e) \<Rightarrow> Some (v\<lparr>sv_ctx := g\<rparr>, Inl (TeardownError e))
         | (g, Inr r) \<Rightarrow>
             Option.bind (resolve_hook_result E (sv_cancel v) r g) (\<lambda>gr.
               case gr of
                 (g, Inl e) \<Rightarrow> Some (v\<lparr>sv_ctx := g\<rparr>, Inl e)
               | (g, Inr r) \<Rightarrow> Some (v\<lparr>sv_ctx := js_jobs E g\<rparr>, Inr ())))"

definition run_handle_summary ::
    "('g, 'v) js_engine \<Rightarrow> string \<Rightarrow> ('g, 'm) script_vu \<Rightarrow> ('g, 'm) script_vu \<times> (script_error + (string \<times> string) list)" where
  "run_handle_summary E data_json v =
     (let func = js_get E ''handleSummary'' (sv_ctx v)
      in if \<not> js_is_function E func then (v, Inl SummaryMissing)
         else case json_parse_literal E data_json of
           Inl e \<Rightarrow> (v, Inl (SummaryDataError e))
         | Inr data \<Rightarrow>
             (case js_call E func [data] (sv_ctx v) of
                (g, Inl e) \<Rightarrow> (v\<lparr>sv_ctx := g\<rparr>, Inl (SummaryError e))
              | (g, Inr r) \<Rightarrow>
                  let outputs = (case js_string_props E r of
                                   None \<Rightarrow> []
                                 | Some ps \<Rightarrow> concat (map (\<lambda>(k, t). case t of Some t \<Rightarrow> [(k, t)] | None \<Rightarrow> []) ps))
                  in (v\<lparr>sv_ctx := js_jobs E g\<rparr>, Inr outputs)))"

section \<open>Which scripts are prepared\<close>

text \<open>The files one file inlines, each with the directory its own imports are resolved in.\<close>

type_synonym source = "string option \<times> string list"

fun direct_inlines :: "file_system \<Rightarrow> (string \<Rightarrow> bool) \<Rightarrow> string option \<Rightarrow> string list \<Rightarrow> path_key list \<Rightarrow> source list" where
  "direct_inlines F alnum dir [] inlined = []"
| "direct_inlines F alnum dir (line # rest) inlined =
     (case prepare_line F alnum dir inlined line of
        SlicePanic \<Rightarrow> []
      | EmitText t inl \<Rightarrow> direct_inlines F alnum dir rest inl
      | InlineFile header contents parent inl \<Rightarrow> (Some parent, lines_of contents) # direct_inlines F alnum dir rest inl)"

definition inlines :: "file_system \<Rightarrow> (string \<Rightarrow> bool) \<Rightarrow> source \<Rightarrow> source \<Rightarrow> bool" where
  "inlines F alnum child src \<longleftrightarrow> child \<in> set (direct_inlines F alnum (fst src) (snd src) [])"

lemma prepare_lines_total:
  assumes "\<forall>src \<in> set (direct_inlines F alnum dir lines inlined). prepare_lines F alnum (fst src) (snd src) [] \<noteq> None"
  shows "prepare_lines F alnum dir lines inlined \<noteq> None"
  using assms
proof (induction lines arbitrary: inlined)
  case Nil
  then show ?case by (simp add: prepare_lines.simps)
next
  case (Cons line rest)
  show ?case
  proof (cases "prepare_line F alnum dir inlined line")
    case SlicePanic
    then show ?thesis by (simp add: prepare_lines.simps[of _ _ _ "line # rest"])
  next
    case (EmitText t inl)
    then have "prepare_lines F alnum dir rest inl \<noteq> None" using Cons by simp
    then show ?thesis using EmitText by (auto simp: prepare_lines.simps[of _ _ _ "line # rest"])
  next
    case (InlineFile h c p inl)
    then have r: "prepare_lines F alnum dir rest inl \<noteq> None" using Cons by simp
    have "prepare_lines F alnum (Some p) (lines_of c) [] \<noteq> None" using Cons.prems InlineFile by simp
    with r show ?thesis using InlineFile by (auto simp: prepare_lines.simps[of _ _ _ "line # rest"] split: option.splits)
  qed
qed

lemma prepare_lines_returns:
  "Wellfounded.accp (inlines F alnum) src \<Longrightarrow> prepare_lines F alnum (fst src) (snd src) [] \<noteq> None"
proof (induction rule: accp.induct)
  case (accI src)
  have "prepare_lines F alnum (fst child) (snd child) [] \<noteq> None" if "child \<in> set (direct_inlines F alnum (fst src) (snd src) [])" for child
    using accI that unfolding inlines_def by blast
  then show ?case by (rule prepare_lines_total[OF ballI])
qed

lemma prepare_lines_avoids:
  assumes closed: "\<And>src. src \<in> C \<Longrightarrow> \<exists>child \<in> C. inlines F alnum child src"
    and r: "prepare_lines F alnum dir lines inlined = Some (Some out)"
  shows "set (direct_inlines F alnum dir lines inlined) \<inter> C = {}"
proof -
  define P where "P G a dir lines inlined res \<longleftrightarrow>
      (G = F \<longrightarrow> a = alnum \<longrightarrow> res \<noteq> None \<longrightarrow> set (direct_inlines F alnum dir lines inlined) \<inter> C = {})"
    for G :: file_system and a :: "string \<Rightarrow> bool" and dir lines inlined and res :: "string option"
  have "P F alnum dir lines inlined (Some out)"
  proof (rule prepare_lines.raw_induct[OF _ r, of P])
    fix prep G a dir lines inlined res
    assume IH: "\<And>G a dir lines inlined res. prep G a dir lines inlined = Some res \<Longrightarrow> P G a dir lines inlined res"
      and body: "(case lines of
        [] \<Rightarrow> Some (Some [])
      | line # rest \<Rightarrow>
          (case prepare_line G a dir inlined line of
             SlicePanic \<Rightarrow> Some None
           | EmitText t inl \<Rightarrow> Option.bind (prep G a dir rest inl) (\<lambda>r. Some (map_option (\<lambda>s. t @ s) r))
           | InlineFile header contents parent inl \<Rightarrow>
               Option.bind (prep G a (Some parent) (lines_of contents) []) (\<lambda>p.
                 case p of
                   None \<Rightarrow> Some None
                 | Some prepared \<Rightarrow>
                     Option.bind (prep G a dir rest inl) (\<lambda>r.
                       Some (map_option (\<lambda>s. header @ prepared @ [newline] @ s) r))))) = Some res"
    show "P G a dir lines inlined res"
      unfolding P_def
    proof (intro impI)
      assume G: "G = F" "a = alnum" and res: "res \<noteq> None"
      show "set (direct_inlines F alnum dir lines inlined) \<inter> C = {}"
      proof (cases lines)
        case (Cons line rest)
        show ?thesis
        proof (cases "prepare_line F alnum dir inlined line")
          case SlicePanic
          then show ?thesis by (simp add: Cons)
        next
          case (EmitText t inl)
          then obtain r where "prep F alnum dir rest inl = Some r" "r \<noteq> None"
            using body res by (auto simp: Cons G bind_eq_Some_conv)
          then show ?thesis using IH[of F alnum dir rest inl r] EmitText by (simp add: Cons P_def)
        next
          case (InlineFile h c p inl)
          then obtain q r where q: "prep F alnum (Some p) (lines_of c) [] = Some q" "q \<noteq> None"
            and r: "prep F alnum dir rest inl = Some r" "r \<noteq> None"
            using body res by (auto simp: Cons G bind_eq_Some_conv split: option.splits)
          have "set (direct_inlines F alnum (Some p) (lines_of c) []) \<inter> C = {}" using IH[OF q(1)] q(2) by (simp add: P_def)
          then have "(Some p, lines_of c) \<notin> C" using closed by (force simp: inlines_def)
          then show ?thesis using IH[OF r(1)] r(2) InlineFile by (simp add: Cons P_def)
        qed
      qed simp
    qed
  qed
  then show ?thesis by (simp add: P_def)
qed

lemma prepare_lines_acyclic:
  assumes "prepare_lines F alnum dir lines [] = Some (Some out)"
  shows "Wellfounded.accp (inlines F alnum) (dir, lines)"
proof (rule ccontr)
  let ?C = "{src. \<not> Wellfounded.accp (inlines F alnum) src}"
  assume n: "\<not> Wellfounded.accp (inlines F alnum) (dir, lines)"
  have closed: "\<exists>child \<in> ?C. inlines F alnum child src" if "src \<in> ?C" for src
    using that accp.accI[of "inlines F alnum" src] by auto
  then obtain child where "child \<in> ?C" "inlines F alnum child (dir, lines)" using n by blast
  then show False using prepare_lines_avoids[of ?C, OF closed assms] by (auto simp: inlines_def)
qed

text \<open>C37.  Preparing a script returns whenever no chain of imports is endless, and it yields a script only then: a
  file that imports itself, directly or through others, is inlined without end, since the set of inlined
  files is kept per file and not per script.\<close>

theorem import_cycles:
  "(Wellfounded.accp (inlines F alnum) (dir, lines_of source) \<longrightarrow> (\<exists>r. prepare_script_with_dir F alnum source dir = Some r)) \<and>
   (\<not> Wellfounded.accp (inlines F alnum) (dir, lines_of source) \<longrightarrow> (\<forall>out. prepare_script_with_dir F alnum source dir \<noteq> Some (Some out)))"
  using prepare_lines_returns[of F alnum "(dir, lines_of source)"] prepare_lines_acyclic[of F alnum dir "lines_of source"]
  by (auto simp: prepare_script_with_dir_def)

text \<open>A file that imports itself, and the witness: the cyclic script yields nothing, one that only imports another does.\<close>

definition self_file :: string where
  "self_file = ''import a from \"./a.js\";''"

definition self_fs :: file_system where
  "self_fs = \<lparr>fs_read = (\<lambda>p. if p = ''d/./a.js'' then Inr self_file else if p = ''d/./b.js'' then Inr ''const x = 1;'' else Inl ''not found''),
              fs_exists = (\<lambda>p. False)\<rparr>"

lemma self_import: "direct_inlines self_fs (\<lambda>_. False) (Some ''d'') (lines_of self_file) [] = [(Some ''d'', lines_of self_file)]"
  by code_simp

lemma other_import: "direct_inlines self_fs (\<lambda>_. False) (Some ''d'') (lines_of ''import b from \"./b.js\";'') [] = [(Some ''d'', [''const x = 1;''])]"
  "direct_inlines self_fs (\<lambda>_. False) (Some ''d'') [''const x = 1;''] [] = []"
  by code_simp+

theorem import_cycles_witness:
  "(\<forall>out. prepare_script_with_dir self_fs (\<lambda>_. False) self_file (Some ''d'') \<noteq> Some (Some out)) \<and>
   (\<exists>r. prepare_script_with_dir self_fs (\<lambda>_. False) ''import b from \"./b.js\";'' (Some ''d'') = Some r)"
proof -
  let ?R = "inlines self_fs (\<lambda>_. False)"
  have loop: "?R (Some ''d'', lines_of self_file) (Some ''d'', lines_of self_file)" by (simp add: inlines_def self_import)
  have "\<not> Wellfounded.accp ?R (Some ''d'', lines_of self_file)"
  proof
    assume "Wellfounded.accp ?R (Some ''d'', lines_of self_file)"
    then show False using loop by (induction "(Some ''d'', lines_of self_file)" rule: accp.induct) blast
  qed
  moreover have "Wellfounded.accp ?R (Some ''d'', [''const x = 1;''])"
    by (rule accp.accI) (simp add: inlines_def other_import del: direct_inlines.simps)
  then have "Wellfounded.accp ?R (Some ''d'', lines_of ''import b from \"./b.js\";'')"
    by - (rule accp.accI, simp add: inlines_def other_import del: direct_inlines.simps)
  ultimately show ?thesis
    using import_cycles[of self_fs "\<lambda>_. False" "Some ''d''" self_file]
      import_cycles[of self_fs "\<lambda>_. False" "Some ''d''" "''import b from \"./b.js\";''"] by blast
qed

section \<open>Quoting, random numbers and hooks\<close>

lemma js_quote_Cons:
  "js_quote [] = []"
  "js_quote (c # s) = (if c = CHR 0x5C then [CHR 0x5C, CHR 0x5C] else if c = CHR 0x27 then [CHR 0x5C, CHR 0x27] else [c]) @ js_quote s"
  by (simp_all add: js_quote_def replace_char_def)

text \<open>A text without line breaks is read back from its literal, and one with a line break never is.\<close>

lemma js_literal_quote:
  "js_literal (js_quote s @ CHR 0x27 # t) =
     (if CHR 0x0A \<in> set s \<or> CHR 0x0D \<in> set s then None else Some (s, t))"
  by (induction s) (auto simp: js_quote_Cons)

lemma json_parse_literal_of:
  "json_parse_literal E json =
     (if CHR 0x0A \<in> set json \<or> CHR 0x0D \<in> set json then Inl ''SyntaxError'' else js_parse E json)"
  using js_literal_quote[of json "[]"] by (simp add: json_parse_literal_def)

lemma uint_bounds32: "0 \<le> uint (w :: 32 word)" "uint w \<le> 2 ^ 32 - 1"
  using uint_lt2p[of w] by simp_all

lemma exact_over_2_32:
  assumes "0 \<le> k" "k \<le> 2 ^ 32 - 1"
  shows "fval (fdiv (f_of_int k) (flit 4294967296)) = of_int k / 2 ^ 32"
proof -
  have u: "is_fin (f_of_int k)" "fval (f_of_int k) = of_int k" using f_of_int_exact[of k] assms by simp_all
  have l: "is_fin (flit 4294967296)" "fval (flit 4294967296) = 4294967296"
    using f_of_int_exact[of 4294967296] by (simp_all add: f_of_int_def flit_def)
  have "(2::rat) powi (- 32) = 1 / 4294967296" by (simp add: power_int_def power_one_over)
  then have "of_int k / (4294967296 :: rat) = of_int k * 2 powi (- 32)" by simp
  then have r: "repr (of_int k / 4294967296)" using assms unfolding repr_def by (intro exI[of _ k] exI[of _ "- 32"]) simp
  have "(of_int k :: rat) \<le> of_int (2 ^ 32)" unfolding of_int_le_iff using assms by simp
  then have b: "of_int k \<le> (4294967296 :: rat)" by simp
  have "\<bar>of_int k / (4294967296 :: rat)\<bar> \<le> 1" using b assms by simp
  then have "in_range (of_int k / 4294967296)" by (intro in_range_small) (rule order_trans, auto)
  then show ?thesis using u l r by (simp add: fdiv_fin srnd_exact)
qed

lemma random_value: "fval (fst (math_random state)) = of_int (uint (shift_step state)) / 2 ^ 32"
  using exact_over_2_32[OF uint_bounds32] by (simp add: math_random_def Let_def)

lemma shift_step_mask: "shift_step (xor state 0xFC001FFF) = shift_step state"
proof -
  have p: "push_bit n (xor a b) = xor (push_bit n a) (push_bit n b)" for n and a b :: "32 word" by (rule push_bit_xor)
  have d: "signed_drop_bit n (xor a b) = xor (signed_drop_bit n a) (signed_drop_bit n b)" for n and a b :: "32 word"
    by (rule bit_word_eqI) (simp add: bit_signed_drop_bit_iff bit_xor_iff)
  have x: "xor (xor a b) (xor c e) = xor (xor a c) (xor b e)" for a b c e :: "32 word"
    by (rule bit_word_eqI) (auto simp: bit_xor_iff)
  have "shift_step (xor a b) = xor (shift_step a) (shift_step b)" for a b
    unfolding shift_step_def Let_def p d by (simp only: x)
  moreover have "shift_step 0xFC001FFF = 0" by code_simp
  ultimately show ?thesis by simp
qed

lemma math_random_mask: "math_random (xor state 0xFC001FFF) = math_random state"
  by (simp only: math_random_def shift_step_mask)

lemma random_numbers_mask: "random_numbers n (xor state 0xFC001FFF) = random_numbers n state"
  by (cases n) (simp_all only: random_numbers.simps math_random_mask)

lemma random_numbers_range: "x \<in> set (random_numbers n state) \<Longrightarrow> 0 \<le> fval x \<and> fval x < 1"
proof (induction n arbitrary: state)
  case (Suc n)
  have v: "0 \<le> fval (fst (math_random s)) \<and> fval (fst (math_random s)) < 1" for s
  proof -
    have "(of_int (uint (shift_step s)) :: rat) < of_int (2 ^ 32)"
      unfolding of_int_less_iff using uint_bounds32(2)[of "shift_step s"] by linarith
    then have "of_int (uint (shift_step s)) / 2 ^ 32 < (1 :: rat)" by simp
    moreover have "(0 :: rat) \<le> of_int (uint (shift_step s))" unfolding of_int_0_le_iff by (rule uint_bounds32(1))
    then have "0 \<le> (of_int (uint (shift_step s)) / 2 ^ 32 :: rat)" by (rule divide_nonneg_nonneg) simp
    ultimately show ?thesis unfolding random_value by blast
  qed
  show ?case using Suc v[of state] by (cases "math_random state") auto
qed simp

lemma random_zero: "random_numbers n 0 = replicate n f0"
proof -
  have "math_random 0 = (f0, 0)" by code_simp
  then show ?thesis by (induction n) simp_all
qed

lemma random_stuck: "random_numbers n (seed_state (f_of_int 0xFC001FFF)) = replicate n f0"
proof -
  have "seed_state (f_of_int 0xFC001FFF) = xor 0 0xFC001FFF" by code_simp
  then show ?thesis by (simp only: random_numbers_mask random_zero)
qed

text \<open>C38.  After \<open>randomSeed\<close> every number is in [0, 1), and the generator, whose second shift keeps the sign, is not
  injective: a state and its exclusive or with \<open>0xFC001FFF\<close> give the same numbers, so from that seed every
  number is zero.\<close>

theorem seeded_random:
  "set (random_numbers n state) \<subseteq> {x. 0 \<le> fval x \<and> fval x < 1} \<and>
   random_numbers n (xor state 0xFC001FFF) = random_numbers n state \<and>
   random_numbers n (seed_state (f_of_int 0xFC001FFF)) = replicate n f0"
  using random_numbers_range random_numbers_mask random_stuck by blast

text \<open>A hook whose promise does not settle returns once the token is cancelled.\<close>

lemma resolve_loop_returns:
  assumes "n \<le> k" and "cancelled k"
  shows "resolve_loop E (Some cancelled) promise n g \<noteq> None"
  using assms(1)
proof (induction "k - n" arbitrary: n g)
  case 0
  then have "n = k" by simp
  then show ?case using assms(2) by (subst resolve_loop.simps) (auto split: prod.splits poll.splits)
next
  case (Suc d)
  have "resolve_loop E (Some cancelled) promise (Suc n) g' \<noteq> None" for g' using Suc(1)[of "Suc n"] Suc(2) by auto
  then show ?case by (subst resolve_loop.simps) (auto split: prod.splits poll.splits)
qed

lemma hook_without_token: "resolve_hook_result E None r g \<noteq> None"
  by (subst resolve_hook_result_def, subst resolve_loop.simps) (auto split: prod.splits poll.splits)

text \<open>What \<open>setup\<close> returned is what the global holds afterwards, and what \<open>teardown\<close> is called with.\<close>

lemma set_setup_data_ok:
  assumes "set_setup_data E json v = (v', Inr u)" and "\<And>k x g. js_get E k (js_set E k x g) = x"
  shows "js_parse E json = Inr (js_get E ''__k6_setup_data'' (sv_ctx v'))"
  using assms by (auto simp: set_setup_data_def json_parse_literal_of split: sum.splits if_splits)

text \<open>When \<open>setup\<close> returns a value, the virtual user holds the parse of its serialized text in the global that
  iterations and \<open>teardown\<close> read, whatever quotes and backslashes the text has.\<close>

lemma setup_data_stored:
  assumes "run_setup E v = Some (v', Inr (Some json))" and "\<And>k x g. js_get E k (js_set E k x g) = x"
  shows "js_parse E json = Inr (js_get E ''__k6_setup_data'' (sv_ctx v'))"
proof -
  obtain gr where "setup_result E v gr = (v', Inr (Some json))"
    using assms(1) by (auto simp: run_setup_def Let_def split: prod.splits sum.splits if_splits)
  then obtain w u where "set_setup_data E json w = (v', Inr u)"
    by (auto simp: setup_result_def split: prod.splits sum.splits if_splits)
  then show ?thesis by (rule set_setup_data_ok) (rule assms(2))
qed

text \<open>An engine whose values are texts; a function is the text of its result.\<close>

definition text_engine :: "(string \<Rightarrow> string, string) js_engine" where
  "text_engine = \<lparr>js_undefined = [], js_get = (\<lambda>k g. g k), js_set = (\<lambda>k x g. g(k := x)), js_number = (\<lambda>n. dec (uint n)),
     js_is_function = (\<lambda>v. v \<noteq> []), js_call = (\<lambda>f xs g. (g, Inr f)), js_is_promise = (\<lambda>v. False),
     js_finish = (\<lambda>v g. (g, Settled v)), js_stringify = (\<lambda>v g. (g, Inr v)), js_parse = Inr,
     js_string_props = (\<lambda>v. None), js_jobs = (\<lambda>g. g)\<rparr>"

definition text_vu :: "(string \<Rightarrow> string, unit) script_vu" where
  "text_vu = \<lparr>sv_cancel = None, sv_ctx = (\<lambda>k. if k = ''setup'' then ''{\"a\":\"it'' @ [CHR 0x27, CHR 0x5C] @ ''n\"}'' else []),
     sv_vu_id = 0, sv_iteration = 0, sv_metrics = None, sv_exec_fn = None\<rparr>"

text \<open>An iteration counts whether or not it fails, and is recorded only when it does not.\<close>

lemma run_iteration_counts:
  assumes "run_iteration E D elapsed v = Some (v', r)"
  shows "sv_iteration v' = sv_iteration v + 1 \<and> (r \<noteq> Inr () \<longrightarrow> sv_metrics v' = sv_metrics v)"
  using assms by (auto simp: run_iteration_def Let_def split: if_splits prod.splits sum.splits option.splits)

end
