(* ===== verification/HttpApi.thy ===== *)
theory HttpApi
  imports Rust_Str Hyper Control VuSched Outputs
begin

text \<open>
  The \<open>http\<close> module of a script (\<open>crates/k6-js/src/api/http.rs\<close>): from the arguments of a call to the request, and
  from the answer to the response object and the recorded samples; and the part of the module that is written in
  JavaScript: the cookie jar, the preparation of a request and the wrapping of a response.  Values of the
  language are a datatype; conversion to text and to numbers is the language's and a parameter.  Objects are
  association lists in the order of their properties; names inherited from the prototype of objects
  (\<open>constructor\<close>, \<open>__proto__\<close>) and names that are array indices, which the language enumerates first, are
  taken as any other.
\<close>

section \<open>Values\<close>

datatype jsv =
    JsUndefined | JsNull | JsBool bool | JsNumber f64 | JsString string | JsArray "jsv list"
  | JsObject "(string \<times> jsv) list" | JsBuffer string | JsFunction

text \<open>The language's conversions, and the engine's conversions of values to \<open>u16\<close> and \<open>String\<close>.\<close>

record js_lib =
  js_str :: "jsv \<Rightarrow> string"
  js_num :: "jsv \<Rightarrow> f64"
  js_to_u16 :: "jsv \<Rightarrow> u16 option"

fun truthy :: "jsv \<Rightarrow> bool" where
  "truthy JsUndefined = False"
| "truthy JsNull = False"
| "truthy (JsBool b) = b"
| "truthy (JsNumber x) = (x \<noteq> F64_NaN \<and> \<not> feq x f0)"
| "truthy (JsString s) = (s \<noteq> [])"
| "truthy _ = True"

fun is_object_type :: "jsv \<Rightarrow> bool" where
  "is_object_type (JsArray _) = True"
| "is_object_type (JsObject _) = True"
| "is_object_type (JsBuffer _) = True"
| "is_object_type JsNull = True"
| "is_object_type _ = False"

fun js_props :: "jsv \<Rightarrow> (string \<times> jsv) list" where
  "js_props (JsObject ps) = ps"
| "js_props (JsArray vs) = map (\<lambda>(i, v). (dec (int i), v)) (enumerate 0 vs)"
| "js_props _ = []"

definition js_field :: "jsv \<Rightarrow> string \<Rightarrow> jsv" where
  "js_field v k = (case map_of (js_props v) k of None \<Rightarrow> JsUndefined | Some x \<Rightarrow> x)"

section \<open>Requests and responses\<close>

datatype response_callback = CallbackDefault | CallbackDisabled | ExpectedStatuses "(u16 \<times> u16) list"

fun expected :: "response_callback \<Rightarrow> u16 \<Rightarrow> bool option" where
  "expected CallbackDisabled st = None"
| "expected CallbackDefault st = Some (200 \<le> st \<and> st \<le> 399)"
| "expected (ExpectedStatuses specs) st = Some (list_ex (\<lambda>(lo, hi). lo \<le> st \<and> st \<le> hi) specs)"

definition parse_spec :: "js_lib \<Rightarrow> jsv \<Rightarrow> (u16 \<times> u16) list" where
  "parse_spec J spec =
     (case spec of
        JsObject ps \<Rightarrow>
          (case (js_to_u16 J (js_field spec ''min''), js_to_u16 J (js_field spec ''max'')) of
             (Some lo, Some hi) \<Rightarrow> [(lo, hi)] | _ \<Rightarrow> [])
      | _ \<Rightarrow> [])"

definition parse_response_callback :: "js_lib \<Rightarrow> jsv \<Rightarrow> response_callback" where
  "parse_response_callback J v =
     (case v of
        JsNull \<Rightarrow> CallbackDisabled
      | JsObject ps \<Rightarrow>
          (case js_field v ''__expectedStatuses'' of
             JsArray vs \<Rightarrow>
               (let specs = concat (map (parse_spec J) vs)
                in if specs = [] then CallbackDefault else ExpectedStatuses specs)
           | _ \<Rightarrow> CallbackDefault)
      | _ \<Rightarrow> CallbackDefault)"

definition object_entries_to_pairs :: "jsv \<Rightarrow> (string \<times> string) list" where
  "object_entries_to_pairs v = concat (map (\<lambda>(k, x). case x of JsString s \<Rightarrow> [(k, s)] | _ \<Rightarrow> []) (js_props v))"

definition method_of :: "string \<Rightarrow> http_method" where
  "method_of m =
     (if m = ''GET'' then Get else if m = ''POST'' then Post else if m = ''PUT'' then Put else if m = ''PATCH'' then Patch
      else if m = ''DELETE'' then Delete else if m = ''HEAD'' then Head else if m = ''OPTIONS'' then Options else Get)"

definition build_http_request :: "string \<Rightarrow> string \<Rightarrow> jsv \<Rightarrow> jsv \<Rightarrow> f64 \<Rightarrow> http_request" where
  "build_http_request verb url body headers_val timeout_ms =
     \<lparr>hq_method = method_of verb, hq_url = url, hq_headers = object_entries_to_pairs headers_val,
      hq_body = (case body of JsString s \<Rightarrow> Some s | _ \<Rightarrow> None),
      hq_timeout = (if flt f0 timeout_ms then Some (from_millis (uint (f_to_u64 timeout_ms))) else None)\<rparr>"

text \<open>Lower case of a message, as far as the ASCII patterns below can see it: outside ASCII only the Kelvin sign and the
  dotted capital I have lower-case forms with ASCII letters.\<close>

fun lower_text :: "string \<Rightarrow> string" where
  "lower_text (a # b # c # s) =
     (if [a, b, c] = [CHR 0xE2, CHR 0x84, CHR 0xAA] then CHR ''k'' # lower_text s
      else if [a, b] = [CHR 0xC4, CHR 0xB0] then [CHR ''i'', CHR 0xCC, CHR 0x87] @ lower_text (c # s)
      else to_lower a # lower_text (b # c # s))"
| "lower_text [a, b] = (if [a, b] = [CHR 0xC4, CHR 0xB0] then [CHR ''i'', CHR 0xCC, CHR 0x87] else [to_lower a, to_lower b])"
| "lower_text [a] = [to_lower a]"
| "lower_text [] = []"

definition classify_error :: "string \<Rightarrow> u32" where
  "classify_error err =
     (let msg = lower_text err;
          has = (\<lambda>p. contains_str p msg)
      in if has ''blocked by'' then 1400
         else if has ''dns'' \<or> has ''resolve'' \<or> has ''name or service not known'' then 1010
         else if has ''tls'' \<or> has ''ssl'' \<or> has ''certificate'' then 1100
         else if has ''connection refused'' then 1050
         else if has ''connection reset'' \<or> has ''broken pipe'' then 1300
         else if has ''timed out'' \<or> has ''timeout'' then (if has ''connect'' then 1020 else 1200)
         else 1000)"

record js_http_response =
  jr_status :: u16
  jr_body :: string
  jr_headers :: "(string \<times> string) list"
  jr_timings :: timings
  jr_url :: string
  jr_error :: string
  jr_error_code :: u32

definition timings_default :: timings where
  "timings_default = \<lparr>tm_duration = f0, tm_blocked = f0, tm_connecting = f0, tm_tls_handshaking = f0, tm_sending = f0,
     tm_waiting = f0, tm_receiving = f0\<rparr>"

definition bool_text :: "bool \<Rightarrow> string" where
  "bool_text b = (if b then ''true'' else ''false'')"

definition response_tags :: "(string \<times> string) list \<Rightarrow> string \<Rightarrow> string \<Rightarrow> bool option \<Rightarrow> (string \<times> string) list" where
  "response_tags user_tags st verb expd =
     user_tags @ [(''status'', st), (''method'', verb)] @
     (case expd of None \<Rightarrow> [] | Some e \<Rightarrow> [(''expected_response'', bool_text e)])"

text \<open>An answer that failed carries the text of its error; \<open>None\<close> is a panic of the registry.\<close>

definition finish_http_response ::
    "('c, 'h) deps \<Rightarrow> string + http_response \<Rightarrow> string \<Rightarrow> (string \<times> string) list \<Rightarrow> response_callback \<Rightarrow> ('c, 'h) registry option \<Rightarrow>
     (js_http_response \<times> ('c, 'h) registry option) option" where
  "finish_http_response D result verb user_tags callback metrics =
     (case result of
        Inr resp \<Rightarrow>
          map_option (\<lambda>m.
              (\<lparr>jr_status = hs_status resp,
                jr_body = (case hs_body resp of Buffered b \<Rightarrow> utf8_lossy b | Discarded \<Rightarrow> []),
                jr_headers = hs_headers resp, jr_timings = hs_timings resp, jr_url = hs_url resp, jr_error = [], jr_error_code = 0\<rparr>, m))
            (case metrics of
               None \<Rightarrow> Some None
             | Some r \<Rightarrow>
                 let expd = expected callback (hs_status resp)
                 in map_option Some
                      (Option.bind (record_http_request_tagged_with_failure D (hs_timings resp) (map_option Not expd)
                                      (response_tags user_tags (dec (uint (hs_status resp))) verb expd) r) (\<lambda>r.
                       Option.bind (record_data_sent D (hs_data_sent resp) r) (\<lambda>r.
                       record_data_received D (hs_data_received resp) r))))
      | Inl e \<Rightarrow>
          map_option (\<lambda>m.
              (\<lparr>jr_status = 0, jr_body = [], jr_headers = [], jr_timings = timings_default, jr_url = [],
                jr_error = e, jr_error_code = classify_error e\<rparr>, m))
            (case metrics of
               None \<Rightarrow> Some None
             | Some r \<Rightarrow>
                 let expd = expected callback 0
                 in map_option Some
                      (record_http_request_tagged_with_failure D timings_default (map_option Not expd)
                         (response_tags user_tags ''0'' verb expd) r)))"

text \<open>The headers object: one property for each distinct name, an array when there are several values.\<close>

definition joined_header :: "string list \<Rightarrow> jsv" where
  "joined_header vs = (case vs of [v] \<Rightarrow> JsString v | _ \<Rightarrow> JsArray (map JsString vs))"

fun header_entries :: "(string \<times> string) list \<Rightarrow> (string \<times> string) list \<Rightarrow> (string \<times> jsv) list" where
  "header_entries earlier [] = []"
| "header_entries earlier ((k, v) # rest) =
     (let here = (if list_ex (\<lambda>(pk, _). pk = k) earlier then []
                  else case filter (\<lambda>(nk, _). nk = k) rest of
                         [] \<Rightarrow> [(k, JsString v)]
                       | (_, first_dup) # dups \<Rightarrow> [(k, JsArray (JsString v # JsString first_dup # map (\<lambda>(_, dv). JsString dv) dups))])
      in here @ header_entries (earlier @ [(k, v)]) rest)"

definition build_headers_obj :: "(string \<times> string) list \<Rightarrow> (string \<times> jsv) list" where
  "build_headers_obj headers = header_entries [] headers"

definition build_timings_obj :: "timings \<Rightarrow> (string \<times> jsv) list" where
  "build_timings_obj t =
     [(''blocked'', JsNumber (tm_blocked t)), (''connecting'', JsNumber (tm_connecting t)), (''tls_handshaking'', JsNumber (tm_tls_handshaking t)),
      (''sending'', JsNumber (tm_sending t)), (''waiting'', JsNumber (tm_waiting t)), (''receiving'', JsNumber (tm_receiving t)),
      (''duration'', JsNumber (tm_duration t))]"

definition response_into_js :: "js_http_response \<Rightarrow> (string \<times> jsv) list" where
  "response_into_js r =
     [(''status'', JsNumber (f_of_int (uint (jr_status r)))), (''body'', JsString (jr_body r)), (''headers'', JsObject (build_headers_obj (jr_headers r))),
      (''url'', JsString (jr_url r)), (''timings'', JsObject (build_timings_obj (jr_timings r))), (''error'', JsString (jr_error r)),
      (''error_code'', JsNumber (f_of_u32 (jr_error_code r)))]"

section \<open>The cookie jar\<close>

text \<open>\<open>String.prototype.trim\<close>: the byte order mark is white space of the language, U+0085 is not.\<close>

definition js_ws2 :: "char \<Rightarrow> char \<Rightarrow> bool" where
  "js_ws2 c d \<longleftrightarrow> c = CHR 0xC2 \<and> d = CHR 0xA0"

definition js_ws3 :: "char \<Rightarrow> char \<Rightarrow> char \<Rightarrow> bool" where
  "js_ws3 c d e \<longleftrightarrow> ws3 c d e \<or> c = CHR 0xEF \<and> d = CHR 0xBB \<and> e = CHR 0xBF"

definition js_trim :: "string \<Rightarrow> string" where
  "js_trim s = rev (strip (\<lambda>c d. js_ws2 d c) (\<lambda>c d e. js_ws3 e d c) (rev (strip js_ws2 js_ws3 s)))"

text \<open>Domain, name, value; the options a script may give with a cookie are not read by anything and left out.\<close>

type_synonym cookie_jar = "(string \<times> (string \<times> string) list) list"

definition jar_set :: "string \<Rightarrow> string \<Rightarrow> string \<Rightarrow> cookie_jar \<Rightarrow> cookie_jar" where
  "jar_set domain name value jar =
     hm_put domain (hm_put name value (case map_of jar domain of None \<Rightarrow> [] | Some d \<Rightarrow> d)) jar"

definition jar_get :: "string \<Rightarrow> string \<Rightarrow> cookie_jar \<Rightarrow> string option" where
  "jar_get domain name jar = Option.bind (map_of jar domain) (\<lambda>d. map_of d name)"

text \<open>The host of a URL: what follows the scheme up to a slash or a colon, when there is any.\<close>

definition url_domain :: "string \<Rightarrow> string option" where
  "url_domain url =
     (let rest = (if starts_with ''http://'' url then Some (drop 7 url) else if starts_with ''https://'' url then Some (drop 8 url) else None)
      in case rest of
           None \<Rightarrow> None
         | Some r \<Rightarrow> (let d = takeWhile (\<lambda>c. c \<noteq> CHR ''/'' \<and> c \<noteq> CHR '':'') r in if d = [] then None else Some d))"

definition cookies_for_url :: "string \<Rightarrow> cookie_jar \<Rightarrow> (string \<times> string) list" where
  "cookies_for_url url jar =
     (case url_domain url of
        None \<Rightarrow> []
      | Some domain \<Rightarrow> (case map_of jar domain of None \<Rightarrow> [] | Some d \<Rightarrow> d))"

definition parse_set_cookie :: "string \<Rightarrow> (string \<times> string) option" where
  "parse_set_cookie cookie =
     (case split_once (CHR ''='') cookie of
        (name, None) \<Rightarrow> None
      | (name, Some rest) \<Rightarrow> Some (js_trim name, js_trim (fst (split_once (CHR '';'') rest))))"

definition take_cookie :: "string \<Rightarrow> string \<Rightarrow> (string \<times> string) list \<times> cookie_jar \<Rightarrow> (string \<times> string) list \<times> cookie_jar" where
  "take_cookie url cookie acc =
     (case parse_set_cookie cookie of
        None \<Rightarrow> acc
      | Some (name, value) \<Rightarrow>
          (hm_put name value (fst acc), (case url_domain url of None \<Rightarrow> snd acc | Some d \<Rightarrow> jar_set d name value (snd acc))))"

fun cookie_parts :: "js_lib \<Rightarrow> jsv \<Rightarrow> string list" where
  "cookie_parts J (JsArray vs) = map (js_str J) vs"
| "cookie_parts J v = [js_str J v]"

definition extract_cookies :: "js_lib \<Rightarrow> (string \<times> jsv) list \<Rightarrow> string \<Rightarrow> cookie_jar \<Rightarrow> (string \<times> string) list \<times> cookie_jar" where
  "extract_cookies J headers url jar =
     fold (\<lambda>(key, val) acc. if lower_text key = ''set-cookie'' then fold (take_cookie url) (cookie_parts J val) acc else acc)
       headers ([], jar)"

definition cookie_pairs :: "(string \<times> string) list \<Rightarrow> string" where
  "cookie_pairs cs = join ''; '' (map (\<lambda>(n, v). n @ ''='' @ v) cs)"

definition build_cookie_header :: "string \<Rightarrow> cookie_jar \<Rightarrow> string option" where
  "build_cookie_header url jar =
     (if jar = [] then None
      else let cookies = cookies_for_url url jar in if cookies = [] then None else Some (cookie_pairs cookies))"

section \<open>Preparing a request\<close>

record http_params =
  pr_headers :: "(string \<times> jsv) list"
  pr_cookies :: "(string \<times> jsv) list"
  pr_timeout :: jsv
  pr_tags :: jsv
  pr_callback :: "jsv option"

text \<open>\<open>encodeURIComponent\<close> on the bytes of the text.\<close>

definition uri_unreserved :: "char \<Rightarrow> bool" where
  "uri_unreserved c \<longleftrightarrow> is_alpha c \<or> is_digit c \<or> c \<in> set (''-_.!~*()'' @ [CHR 0x27])"

definition upper_hex :: "nat \<Rightarrow> char" where
  "upper_hex n = ''0123456789ABCDEF'' ! n"

definition encode_uri_component :: "string \<Rightarrow> string" where
  "encode_uri_component s =
     concat (map (\<lambda>c. if uri_unreserved c then [c]
                      else [CHR ''%'', upper_hex (of_char c div 16), upper_hex (of_char c mod 16)]) s)"

definition is_file_data :: "jsv \<Rightarrow> bool" where
  "is_file_data v \<longleftrightarrow> truthy v \<and> is_object_type v \<and> truthy (js_field v ''__isFileData'')"

definition form_crlf :: string where "form_crlf = [CHR 0x0D, CHR 0x0A]"

definition form_escape :: "js_lib \<Rightarrow> jsv \<Rightarrow> string" where
  "form_escape J v = replace_char (CHR 0x22) [CHR 0x5C, CHR 0x22] (replace_char (CHR 0x5C) [CHR 0x5C, CHR 0x5C] (js_str J v))"

definition multipart_part :: "js_lib \<Rightarrow> string \<Rightarrow> string \<times> jsv \<Rightarrow> string" where
  "multipart_part J boundary kv =
     (let (key, v) = kv; quote = [CHR 0x22]
      in ''--'' @ boundary @ form_crlf @
         (if is_file_data v then
            ''Content-Disposition: form-data; name='' @ quote @ form_escape J (JsString key) @ quote @ ''; filename='' @ quote @
            form_escape J (js_field v ''filename'') @ quote @ form_crlf @
            ''Content-Type: '' @ js_str J (js_field v ''content_type'') @ form_crlf @ form_crlf @ js_str J (js_field v ''data'') @ form_crlf
          else
            ''Content-Disposition: form-data; name='' @ quote @ form_escape J (JsString key) @ quote @ form_crlf @ form_crlf @ js_str J v @ form_crlf))"

definition urlencoded :: "js_lib \<Rightarrow> (string \<times> jsv) list \<Rightarrow> string" where
  "urlencoded J body =
     join ''&'' (concat (map (\<lambda>(key, v).
        map (\<lambda>x. encode_uri_component key @ ''='' @ encode_uri_component (js_str J x)) (case v of JsArray vs \<Rightarrow> vs | _ \<Rightarrow> [v])) body))"

definition set_content_type :: "string \<Rightarrow> (string \<times> jsv) list \<Rightarrow> (string \<times> jsv) list" where
  "set_content_type ct headers = filter (\<lambda>(k, _). k \<noteq> ''Content-Type'' \<and> k \<noteq> ''content-type'') headers @ [(''Content-Type'', JsString ct)]"

definition prepare_body :: "js_lib \<Rightarrow> string \<Rightarrow> jsv \<Rightarrow> (string \<times> jsv) list \<Rightarrow> jsv \<times> (string \<times> jsv) list" where
  "prepare_body J boundary body headers =
     (if truthy body \<and> is_object_type body \<and> (\<forall>b. body \<noteq> JsBuffer b) then
        (if list_ex (\<lambda>(_, v). is_file_data v) (js_props body) then
           (JsString (concat (map (multipart_part J boundary) (js_props body)) @ ''--'' @ boundary @ ''--'' @ form_crlf),
            set_content_type (''multipart/form-data; boundary='' @ boundary) headers)
         else (JsString (urlencoded J (js_props body)), set_content_type ''application/x-www-form-urlencoded'' headers))
      else (if truthy body then body else JsNull, headers))"

definition header_truthy :: "string \<Rightarrow> (string \<times> jsv) list \<Rightarrow> bool" where
  "header_truthy k headers \<longleftrightarrow> truthy (js_field (JsObject headers) k)"

definition jar_header :: "string \<Rightarrow> cookie_jar \<Rightarrow> (string \<times> jsv) list \<Rightarrow> (string \<times> jsv) list" where
  "jar_header url jar headers =
     (case build_cookie_header url jar of
        Some jar_cookie \<Rightarrow>
          if jar_cookie \<noteq> [] \<and> \<not> header_truthy ''Cookie'' headers \<and> \<not> header_truthy ''cookie'' headers
          then hm_put ''Cookie'' (JsString jar_cookie) headers else headers
      | None \<Rightarrow> headers)"

definition explicit_cookies :: "js_lib \<Rightarrow> (string \<times> jsv) list \<Rightarrow> (string \<times> jsv) list \<Rightarrow> (string \<times> jsv) list" where
  "explicit_cookies J cookies headers =
     (if cookies = [] then headers
      else let old = (if header_truthy ''Cookie'' headers then js_str J (js_field (JsObject headers) ''Cookie'') @ ''; '' else [])
           in hm_put ''Cookie'' (JsString (old @ cookie_pairs (map (\<lambda>(n, v). (n, js_str J v)) cookies))) headers)"

record prepared_request =
  pq_method :: string
  pq_url :: string
  pq_body :: jsv
  pq_headers :: "(string \<times> jsv) list"
  pq_timeout :: f64
  pq_tags :: jsv
  pq_callback :: jsv

definition no_params :: http_params where
  "no_params = \<lparr>pr_headers = [], pr_cookies = [], pr_timeout = JsUndefined, pr_tags = JsUndefined, pr_callback = None\<rparr>"

text \<open>\<open>global\<close> is the callback set for all requests.\<close>

definition http_prep ::
    "js_lib \<Rightarrow> string \<Rightarrow> cookie_jar \<Rightarrow> jsv \<Rightarrow> string \<Rightarrow> string \<Rightarrow> jsv \<Rightarrow> http_params \<Rightarrow> prepared_request" where
  "http_prep J boundary jar global verb url body params =
     (let headers = explicit_cookies J (pr_cookies params) (jar_header url jar (pr_headers params));
          (body_arg, headers) = prepare_body J boundary body headers
      in \<lparr>pq_method = verb, pq_url = url, pq_body = body_arg, pq_headers = headers,
           pq_timeout = (if truthy (pr_timeout params) then js_num J (pr_timeout params) else f0),
           pq_tags = (if truthy (pr_tags params) \<and> is_object_type (pr_tags params) then pr_tags params else JsNull),
           pq_callback = (case pr_callback params of Some cb \<Rightarrow> cb | None \<Rightarrow> global)\<rparr>)"

definition native_request :: "prepared_request \<Rightarrow> http_request" where
  "native_request a = build_http_request (pq_method a) (pq_url a) (pq_body a) (JsObject (pq_headers a)) (pq_timeout a)"

record wrapped_response =
  wr_raw :: js_http_response
  wr_cookies :: "(string \<times> string) list"

definition wrap_response :: "js_lib \<Rightarrow> js_http_response \<Rightarrow> cookie_jar \<Rightarrow> wrapped_response \<times> cookie_jar" where
  "wrap_response J raw jar =
     (let (cookies, jar) = extract_cookies J (build_headers_obj (jr_headers raw)) (jr_url raw) jar
      in (\<lparr>wr_raw = raw, wr_cookies = cookies\<rparr>, jar))"

text \<open>The state of the module in one virtual user, and a request: \<open>send\<close> is the suspension until the answer.\<close>

record ('c, 'h) http_module =
  hm_jar :: cookie_jar
  hm_callback :: jsv
  hm_metrics :: "('c, 'h) registry option"

definition http_call ::
    "js_lib \<Rightarrow> ('c, 'h) deps \<Rightarrow> string \<Rightarrow> (http_request \<Rightarrow> string + http_response) \<Rightarrow> string \<Rightarrow> string \<Rightarrow> jsv \<Rightarrow> http_params \<Rightarrow>
     ('c, 'h) http_module \<Rightarrow> (wrapped_response \<times> ('c, 'h) http_module) option" where
  "http_call J D boundary send verb url body params m =
     (let a = http_prep J boundary (hm_jar m) (hm_callback m) verb url body params
      in map_option (\<lambda>(raw, metrics).
           let (r, jar) = wrap_response J raw (hm_jar m) in (r, m\<lparr>hm_jar := jar, hm_metrics := metrics\<rparr>))
         (finish_http_response D (send (native_request a)) (pq_method a) (object_entries_to_pairs (pq_tags a))
            (parse_response_callback J (pq_callback a)) (hm_metrics m)))"

definition http_get :: "js_lib \<Rightarrow> ('c, 'h) deps \<Rightarrow> string \<Rightarrow> (http_request \<Rightarrow> string + http_response) \<Rightarrow> string \<Rightarrow> http_params \<Rightarrow>
     ('c, 'h) http_module \<Rightarrow> (wrapped_response \<times> ('c, 'h) http_module) option" where
  "http_get J D boundary send url params m = http_call J D boundary send ''GET'' url JsNull params m"

definition set_response_callback :: "jsv \<Rightarrow> ('c, 'h) http_module \<Rightarrow> ('c, 'h) http_module" where
  "set_response_callback cb m = m\<lparr>hm_callback := cb\<rparr>"

text \<open>\<open>http.expectedStatuses\<close>: an error carries the position of the argument, 0 when there is none.\<close>

fun js_integer :: "jsv \<Rightarrow> bool" where
  "js_integer (JsNumber x) = (is_fin x \<and> fval x = of_int \<lfloor>fval x\<rfloor>)"
| "js_integer _ = False"

fun expected_specs :: "nat \<Rightarrow> jsv list \<Rightarrow> nat + jsv list" where
  "expected_specs n [] = Inr []"
| "expected_specs n (arg # args) =
     (let spec = (if js_integer arg then Some (arg, arg)
                  else if is_object_type arg \<and> truthy arg \<and> js_integer (js_field arg ''min'') \<and> js_integer (js_field arg ''max'')
                  then Some (js_field arg ''min'', js_field arg ''max'') else None)
      in case spec of
           None \<Rightarrow> Inl (Suc n)
         | Some (lo, hi) \<Rightarrow> map_sum (\<lambda>e. e) (\<lambda>ss. JsObject [(''min'', lo), (''max'', hi)] # ss) (expected_specs (Suc n) args))"

definition expected_statuses :: "jsv list \<Rightarrow> nat + jsv" where
  "expected_statuses args =
     (if args = [] then Inl 0
      else map_sum (\<lambda>e. e) (\<lambda>ss. JsObject [(''__expectedStatuses'', JsArray ss)]) (expected_specs 0 args))"

section \<open>Batches\<close>

datatype batch_request = BatchUrl string | BatchArray string string jsv http_params | BatchObject "string option" string jsv http_params

definition prep_batch :: "js_lib \<Rightarrow> string \<Rightarrow> cookie_jar \<Rightarrow> jsv \<Rightarrow> batch_request \<Rightarrow> prepared_request" where
  "prep_batch J boundary jar global req =
     (case req of
        BatchUrl url \<Rightarrow> http_prep J boundary jar global ''GET'' url JsNull no_params
      | BatchArray verb url body params \<Rightarrow> http_prep J boundary jar global verb url (if truthy body then body else JsNull) params
      | BatchObject verb url body params \<Rightarrow>
          http_prep J boundary jar global (case verb of Some v \<Rightarrow> if v = [] then ''GET'' else v | None \<Rightarrow> ''GET'') url
            (if truthy body then body else JsNull) params)"

text \<open>Every request is prepared before any is sent; the answers are finished and wrapped in input order.\<close>

fun finish_batch ::
    "js_lib \<Rightarrow> ('c, 'h) deps \<Rightarrow> (prepared_request \<times> (string + http_response)) list \<Rightarrow> ('c, 'h) registry option \<Rightarrow>
     (js_http_response list \<times> ('c, 'h) registry option) option" where
  "finish_batch J D [] metrics = Some ([], metrics)"
| "finish_batch J D ((a, result) # rest) metrics =
     Option.bind (finish_http_response D result (pq_method a) (object_entries_to_pairs (pq_tags a))
                    (parse_response_callback J (pq_callback a)) metrics) (\<lambda>(raw, metrics).
       map_option (\<lambda>(raws, metrics). (raw # raws, metrics)) (finish_batch J D rest metrics))"

fun wrap_all :: "js_lib \<Rightarrow> js_http_response list \<Rightarrow> cookie_jar \<Rightarrow> wrapped_response list \<times> cookie_jar" where
  "wrap_all J [] jar = ([], jar)"
| "wrap_all J (raw # raws) jar =
     (let (r, jar) = wrap_response J raw jar; (rs, jar) = wrap_all J raws jar in (r # rs, jar))"

definition http_batch ::
    "js_lib \<Rightarrow> ('c, 'h) deps \<Rightarrow> string \<Rightarrow> (http_request list \<Rightarrow> (string + http_response) list) \<Rightarrow> batch_request list \<Rightarrow>
     ('c, 'h) http_module \<Rightarrow> (wrapped_response list \<times> ('c, 'h) http_module) option" where
  "http_batch J D boundary send_all reqs m =
     (let preps = map (prep_batch J boundary (hm_jar m) (hm_callback m)) reqs;
          results = send_all (map native_request preps)
      in map_option (\<lambda>(raws, metrics).
           let (rs, jar) = wrap_all J raws (hm_jar m) in (rs, m\<lparr>hm_jar := jar, hm_metrics := metrics\<rparr>))
         (finish_batch J D (zip preps results) (hm_metrics m)))"

text \<open>A batch given as an object gives an object with the same keys.\<close>

definition http_batch_object ::
    "js_lib \<Rightarrow> ('c, 'h) deps \<Rightarrow> string \<Rightarrow> (http_request list \<Rightarrow> (string + http_response) list) \<Rightarrow> (string \<times> batch_request) list \<Rightarrow>
     ('c, 'h) http_module \<Rightarrow> ((string \<times> wrapped_response) list \<times> ('c, 'h) http_module) option" where
  "http_batch_object J D boundary send_all reqs m =
     map_option (\<lambda>(rs, m). (zip (map fst reqs) rs, m)) (http_batch J D boundary send_all (map snd reqs) m)"

text \<open>\<open>asyncRequest\<close> registers the request with what is needed to finish it.\<close>

record async_meta_data =
  am_method :: string
  am_user_tags :: "(string \<times> string) list"
  am_callback :: response_callback

definition register_async_http ::
    "js_lib \<Rightarrow> prepared_request \<Rightarrow> (http_request, 'r, 'f, 'a, async_meta_data) vu_shared \<Rightarrow>
     (http_request, 'r, 'f, 'a, async_meta_data) vu_shared \<times> op_id" where
  "register_async_http J a s =
     register_async (HostHttp (native_request a))
       (Some \<lparr>am_method = pq_method a, am_user_tags = object_entries_to_pairs (pq_tags a),
              am_callback = parse_response_callback J (pq_callback a)\<rparr>) s"

section \<open>Headers and samples\<close>

definition header_values :: "string \<Rightarrow> (string \<times> string) list \<Rightarrow> string list" where
  "header_values k headers = map snd (filter (\<lambda>h. fst h = k) headers)"

lemma header_values_Cons: "header_values k (h # hs) = (if fst h = k then snd h # header_values k hs else header_values k hs)"
  by (simp add: header_values_def)

lemma header_entry_here:
  "(case filter (\<lambda>(nk, _). nk = k) rest of
      [] \<Rightarrow> [(k, JsString v)]
    | (_, first_dup) # dups \<Rightarrow> [(k, JsArray (JsString v # JsString first_dup # map (\<lambda>(_, dv). JsString dv) dups))]) =
   [(k, joined_header (v # header_values k rest))]"
proof -
  have f: "filter (\<lambda>(nk, _). nk = k) rest = filter (\<lambda>h. fst h = k) rest" by (simp add: case_prod_unfold)
  show ?thesis
    unfolding f header_values_def joined_header_def
    by (cases "filter (\<lambda>h. fst h = k) rest") (auto simp: case_prod_unfold)
qed

lemma header_entries_Cons:
  "header_entries E ((k, v) # rest) =
     (if k \<in> fst ` set E then [] else [(k, joined_header (v # header_values k rest))]) @ header_entries (E @ [(k, v)]) rest"
proof -
  have "list_ex (\<lambda>(pk, _). pk = k) E \<longleftrightarrow> k \<in> fst ` set E" by (force simp: list_ex_iff)
  then show ?thesis by (simp add: Let_def header_entry_here)
qed

lemma header_entries_keys: "fst ` set (header_entries E hs) = fst ` set hs - fst ` set E \<and> distinct (map fst (header_entries E hs))"
proof (induction hs arbitrary: E)
  case (Cons h hs)
  obtain k v where h: "h = (k, v)" by force
  show ?case using Cons[of "E @ [(k, v)]"] by (auto simp: h header_entries_Cons simp del: header_entries.simps)
qed simp

lemma header_entries_get:
  "map_of (header_entries E hs) k = (if k \<in> fst ` set E \<or> header_values k hs = [] then None else Some (joined_header (header_values k hs)))"
proof (induction hs arbitrary: E)
  case Nil
  then show ?case by (simp add: header_values_def)
next
  case (Cons h hs)
  obtain n v where h: "h = (n, v)" by force
  show ?case using Cons[of "E @ [(n, v)]"] by (auto simp: h header_entries_Cons header_values_Cons simp del: header_entries.simps)
qed

text \<open>The headers object, built in one pass without looking a property up again, has each name once, and its value
  is the only value sent under that name or the array of all of them in their order.\<close>

lemma headers_object:
  "distinct (map fst (build_headers_obj headers)) \<and>
   map_of (build_headers_obj headers) k =
     (if header_values k headers = [] then None else Some (joined_header (header_values k headers)))"
  using header_entries_keys[of "[]" headers] header_entries_get[of "[]" headers k] by (simp add: build_headers_obj_def)

lemma record_samples_append: "record_samples D (a @ b) r = Option.bind (record_samples D a r) (record_samples D b)"
proof (induction a arbitrary: r)
  case (Cons s a)
  then show ?case by (cases "record_sample D s r") (simp_all add: record_samples_fun)
qed (simp add: record_samples_fun)


text \<open>A transport failure fails the request under the default callback, and no verdict is given when it is disabled.\<close>

lemma transport_failure: "expected CallbackDefault 0 = Some False" "expected CallbackDisabled st = None"
  by simp_all

section \<open>Cookies\<close>

text \<open>The cookies a response sets, in order, and what the jar holds afterwards.\<close>

definition response_cookies :: "js_lib \<Rightarrow> (string \<times> jsv) list \<Rightarrow> (string \<times> string) list" where
  "response_cookies J headers =
     concat (map (\<lambda>(key, val). if lower_text key = ''set-cookie'' then List.map_filter parse_set_cookie (cookie_parts J val) else []) headers)"

lemma jar_get_set: "jar_get d n (jar_set d' n' v jar) = (if d = d' \<and> n = n' then Some v else jar_get d n jar)"
  by (auto simp: jar_get_def jar_set_def hm_get_put split: option.splits)

lemma take_cookies_jar:
  "jar_get d n (snd (fold (take_cookie url) cs acc)) =
     (case (if url_domain url = Some d then map_of (rev (List.map_filter parse_set_cookie cs)) n else None) of
        Some v \<Rightarrow> Some v | None \<Rightarrow> jar_get d n (snd acc))"
proof (induction cs arbitrary: acc)
  case Nil
  then show ?case by (simp add: map_filter_simps)
next
  case (Cons c cs)
  show ?case
  proof (cases "parse_set_cookie c")
    case None
    then show ?thesis using Cons[of acc] by (simp add: map_filter_simps take_cookie_def)
  next
    case (Some p)
    obtain k v where p: "p = (k, v)" by force
    have t: "jar_get d n (snd (take_cookie url c acc)) = (if url_domain url = Some d \<and> n = k then Some v else jar_get d n (snd acc))"
      by (auto simp: take_cookie_def Some p jar_get_set split: option.splits)
    show ?thesis
      using Cons[of "take_cookie url c acc"]
      by (auto simp: map_filter_simps Some p t map_add_def split: option.splits)
  qed
qed

lemma extract_cookies_jar:
  "jar_get d n (snd (fold (\<lambda>(key, val) acc. if lower_text key = ''set-cookie'' then fold (take_cookie url) (cookie_parts J val) acc else acc) headers acc)) =
     (case (if url_domain url = Some d then map_of (rev (response_cookies J headers)) n else None) of
        Some v \<Rightarrow> Some v | None \<Rightarrow> jar_get d n (snd acc))"
proof (induction headers arbitrary: acc)
  case Nil
  then show ?case by (simp add: response_cookies_def)
next
  case (Cons h hs)
  obtain k v where h: "h = (k, v)" by force
  have e: "response_cookies J ((k, v) # hs) =
      (if lower_text k = ''set-cookie'' then List.map_filter parse_set_cookie (cookie_parts J v) else []) @ response_cookies J hs"
    by (simp add: response_cookies_def)
  show ?case
    using Cons[of "fold (take_cookie url) (cookie_parts J v) acc"] Cons[of acc] take_cookies_jar[of d n url "cookie_parts J v" acc]
    by (simp add: h e map_add_def split: option.splits)
qed

text \<open>C34.  After a response the jar holds, for the host of its URL, the last value the response set for each cookie
  name and otherwise what it held; the cookies of every other host are as they were.  Attributes of a
  cookie play no part, so a cookie that is set to expire is kept.\<close>

theorem jar_after_response:
  "jar_get d n (snd (wrap_response J raw jar)) =
     (case (if url_domain (jr_url raw) = Some d then map_of (rev (response_cookies J (build_headers_obj (jr_headers raw)))) n else None) of
        Some v \<Rightarrow> Some v | None \<Rightarrow> jar_get d n jar)"
  using extract_cookies_jar[of d n "jr_url raw" J "build_headers_obj (jr_headers raw)" "([], jar)", unfolded snd_conv]
  by (simp add: wrap_response_def extract_cookies_def Let_def case_prod_unfold)

text \<open>What a request without cookie headers and cookies of its own sends from the jar, and a script's own header wins.\<close>

lemma object_entries_put:
  "\<forall>p\<in>set ps. fst p \<noteq> k \<Longrightarrow> object_entries_to_pairs (JsObject (hm_put k (JsString v) ps)) = object_entries_to_pairs (JsObject ps) @ [(k, v)]"
  by (induction ps) (auto simp: object_entries_to_pairs_def hm_put_def)

lemma cookie_pairs_ne: "cs \<noteq> [] \<Longrightarrow> cookie_pairs cs \<noteq> []"
  by (cases cs; cases "tl cs") (auto simp: cookie_pairs_def)

lemma object_entries_filter:
  "object_entries_to_pairs (JsObject (filter (\<lambda>(k, _). P k) ps)) = filter (\<lambda>(k, _). P k) (object_entries_to_pairs (JsObject ps))"
  by (induction ps) (auto simp: object_entries_to_pairs_def split: jsv.splits)

lemma object_entries_append:
  "object_entries_to_pairs (JsObject (ps @ [(k, JsString v)])) = object_entries_to_pairs (JsObject ps) @ [(k, v)]"
  by (simp add: object_entries_to_pairs_def)

text \<open>The type the preparation gives to the body of a request: none unless the body is an object (or an array), which
  is sent as a form.\<close>

definition form_type :: "string \<Rightarrow> jsv \<Rightarrow> string option" where
  "form_type boundary body =
     (case body of
        JsBuffer b \<Rightarrow> None
      | _ \<Rightarrow> if truthy body \<and> is_object_type body
             then Some (if list_ex (\<lambda>(_, v). is_file_data v) (js_props body) then ''multipart/form-data; boundary='' @ boundary
                        else ''application/x-www-form-urlencoded'')
             else None)"

lemma prepare_body_headers:
  "snd (prepare_body J boundary body headers) = (case form_type boundary body of None \<Rightarrow> headers | Some ct \<Rightarrow> set_content_type ct headers)"
  by (cases body) (auto simp: prepare_body_def form_type_def)

text \<open>C35.  Cookies of the jar on the wire.  A request of a script, of any method and with any body, that names no cookies of
  its own (no header spelled \<open>Cookie\<close> or \<open>cookie\<close> and no \<open>cookies\<close> parameter) carries, besides its own headers, a
  Cookie header with exactly the pairs the jar holds for the host of its URL, and none when the jar holds nothing for
  that host.  The header stands after all of its own; a body sent as a form adds its Content-Type behind it
  and takes away the ones the script gave.\<close>

theorem jar_sent:
  assumes "\<forall>p\<in>set (pr_headers params). fst p \<noteq> ''Cookie'' \<and> fst p \<noteq> ''cookie''" and "pr_cookies params = []"
  shows "hq_headers (native_request (http_prep J boundary jar cb verb url body params)) =
    (let own = object_entries_to_pairs (JsObject (pr_headers params));
         cookie = (if cookies_for_url url jar = [] then [] else [(''Cookie'', cookie_pairs (cookies_for_url url jar))])
     in case form_type boundary body of
          None \<Rightarrow> own @ cookie
        | Some ct \<Rightarrow> filter (\<lambda>(k, _). k \<noteq> ''Content-Type'' \<and> k \<noteq> ''content-type'') own @ cookie @ [(''Content-Type'', ct)])"
proof -
  let ?own = "object_entries_to_pairs (JsObject (pr_headers params))"
  let ?cookie = "if cookies_for_url url jar = [] then [] else [(''Cookie'', cookie_pairs (cookies_for_url url jar))]"
  let ?h = "jar_header url jar (pr_headers params)"
  have n: "map_of (pr_headers params) ''Cookie'' = None" "map_of (pr_headers params) ''cookie'' = None"
    using assms(1) by (auto simp: map_of_eq_None_iff)
  have t: "\<not> header_truthy ''Cookie'' (pr_headers params)" "\<not> header_truthy ''cookie'' (pr_headers params)"
    by (simp_all add: header_truthy_def js_field_def n)
  have j: "jar \<noteq> []" if "cookies_for_url url jar \<noteq> []" using that by (auto simp: cookies_for_url_def split: option.splits)
  have p: "object_entries_to_pairs (JsObject (hm_put ''Cookie'' (JsString v) (pr_headers params))) = ?own @ [(''Cookie'', v)]" for v
    using assms(1) by (intro object_entries_put) blast
  have h: "object_entries_to_pairs (JsObject ?h) = ?own @ ?cookie"
    using t j cookie_pairs_ne[of "cookies_for_url url jar"] by (auto simp: jar_header_def build_cookie_header_def Let_def p)
  have "hq_headers (native_request (http_prep J boundary jar cb verb url body params)) =
      object_entries_to_pairs (JsObject (snd (prepare_body J boundary body ?h)))"
    using assms(2) by (simp add: native_request_def build_http_request_def http_prep_def explicit_cookies_def Let_def case_prod_unfold)
  then show ?thesis
    by (auto simp: prepare_body_headers set_content_type_def object_entries_append object_entries_filter h Let_def split: option.splits)
qed

definition example_jar :: cookie_jar where
  "example_jar = jar_set ''a.test'' ''sid'' ''42'' (jar_set ''b.test'' ''sid'' ''7'' [])"

definition example_js :: js_lib where
  "example_js = \<lparr>js_str = (\<lambda>v. case v of JsString s \<Rightarrow> s | _ \<Rightarrow> []), js_num = (\<lambda>v. f0), js_to_u16 = (\<lambda>v. None)\<rparr>"

theorem jar_sent_witness:
  "hq_headers (native_request (http_prep example_js [] example_jar JsUndefined ''POST'' ''https://a.test/x'' (JsObject [(''k'', JsString ''v'')])
      (no_params\<lparr>pr_headers := [(''content-type'', JsString ''x''), (''Accept'', JsString ''*/*'')]\<rparr>))) =
   [(''Accept'', ''*/*''), (''Cookie'', ''sid=42''), (''Content-Type'', ''application/x-www-form-urlencoded'')]"
proof -
  let ?p = "no_params\<lparr>pr_headers := [(''content-type'', JsString ''x''), (''Accept'', JsString ''*/*'')]\<rparr>"
  have h: "\<forall>p\<in>set (pr_headers ?p). fst p \<noteq> ''Cookie'' \<and> fst p \<noteq> ''cookie''" "pr_cookies ?p = []" by (simp_all add: no_params_def)
  have o: "object_entries_to_pairs (JsObject (pr_headers ?p)) = [(''content-type'', ''x''), (''Accept'', ''*/*'')]"
    "form_type [] (JsObject [(''k'', JsString ''v'')]) = Some ''application/x-www-form-urlencoded''"
    "cookies_for_url ''https://a.test/x'' example_jar = [(''sid'', ''42'')]" "cookie_pairs [(''sid'', ''42'')] = ''sid=42''"
    by code_simp+
  show ?thesis by (simp add: jar_sent[OF h] o[simplified] Let_def)
qed

text \<open>With user information in the URL the jar is asked for the user; an expired cookie stays; cookies given with a
  request go into a second header when the script's own is in lower case.\<close>

lemma userinfo_domain: "url_domain ''http://user:pw@a.test/'' = Some ''user''"
  by code_simp

lemma expired_cookie: "parse_set_cookie ''sid=; Max-Age=0; Path=/admin'' = Some (''sid'', [])"
  by code_simp

lemma two_cookie_headers:
  "object_entries_to_pairs (JsObject (explicit_cookies example_js [(''b'', JsString ''2'')] [(''cookie'', JsString ''a=1'')])) =
     [(''cookie'', ''a=1''), (''Cookie'', ''b=2'')]"
  by code_simp

text \<open>A body that is an \<open>ArrayBuffer\<close> passes the preparation and is dropped by the conversion.\<close>

lemma buffer_body_dropped:
  "hq_body (native_request (http_prep J boundary jar cb verb url (JsBuffer b) params)) = None"
  by (simp add: native_request_def build_http_request_def http_prep_def prepare_body_def Let_def case_prod_unfold)

section \<open>Forms, batches and expected statuses\<close>

definition pct_digit :: "char \<Rightarrow> nat" where
  "pct_digit c = (if is_digit c then of_char c - 48 else of_char c - 55)"

fun decode_uri_component :: "string \<Rightarrow> string" where
  "decode_uri_component (c # h # l # s) =
     (if c = CHR ''%'' then char_of (16 * pct_digit h + pct_digit l) # decode_uri_component s
      else c # decode_uri_component (h # l # s))"
| "decode_uri_component (c # s) = c # decode_uri_component s"
| "decode_uri_component [] = []"

lemma pct_digit_upper: "n < 16 \<Longrightarrow> pct_digit (upper_hex n) = n"
proof -
  assume "n < 16"
  moreover have "list_all (\<lambda>n. pct_digit (upper_hex n) = n) [0..<16]" by code_simp
  ultimately show ?thesis by (simp add: list_all_iff)
qed

lemma decode_plain: "c \<noteq> CHR ''%'' \<Longrightarrow> decode_uri_component (c # s) = c # decode_uri_component s"
  by (cases s; cases "List.tl s") auto

lemma encode_uri_roundtrip: "decode_uri_component (encode_uri_component s) = s"
proof (induction s)
  case (Cons c s)
  have b: "of_char c < (256 :: nat)" by simp
  then have "of_char c div 16 < (16 :: nat)" by (intro less_mult_imp_div_less) simp
  then have d: "pct_digit (upper_hex (of_char c div 16)) = of_char c div 16" by (rule pct_digit_upper)
  have c: "char_of (16 * (of_char c div 16) + of_char c mod 16 :: nat) = c" by (simp add: mult.commute div_mult_mod_eq)
  have e: "encode_uri_component (c # s) =
      (if uri_unreserved c then [c] else [CHR ''%'', upper_hex (of_char c div 16), upper_hex (of_char c mod 16)]) @ encode_uri_component s"
    by (simp add: encode_uri_component_def)
  show ?case
  proof (cases "uri_unreserved c")
    case True
    then have "c \<noteq> CHR ''%''" by (auto simp: uri_unreserved_def is_alpha_def is_digit_def)
    then show ?thesis using True Cons by (simp add: e decode_plain)
  next
    case False
    then show ?thesis using Cons c by (simp add: e d pct_digit_upper)
  qed
qed (simp add: encode_uri_component_def)

lemma finish_batch_length: "finish_batch J D xs metrics = Some (raws, m) \<Longrightarrow> length raws = length xs"
  by (induction J D xs metrics arbitrary: raws m rule: finish_batch.induct) (auto simp: bind_eq_Some_conv)

lemma wrap_all_length: "length (fst (wrap_all J raws jar)) = length raws"
  by (induction J raws jar rule: wrap_all.induct) (auto simp: Let_def split: prod.splits)

lemma http_batch_answers:
  assumes "http_batch J D boundary send_all reqs m = Some (rs, m')" and "\<And>qs. length (send_all qs) = length qs"
  shows "length rs = length reqs"
  using assms wrap_all_length by (auto simp: http_batch_def Let_def case_prod_unfold dest!: finish_batch_length)

text \<open>Statuses that do not fit 16 bits are dropped, and when none is left the default callback applies.\<close>

lemma dropped_statuses:
  assumes "\<And>v. js_to_u16 J v = None"
  shows "parse_response_callback J (JsObject [(''__expectedStatuses'', JsArray vs)]) = CallbackDefault"
proof -
  have "parse_spec J v = []" for v using assms by (simp add: parse_spec_def split: jsv.splits)
  then show ?thesis by (simp add: parse_response_callback_def js_field_def)
qed

end
