(* ===== verification/ScriptApi.thy ===== *)
theory ScriptApi
  imports HttpApi
begin

text \<open>
  The small modules of the script interface (\<open>crates/k6-js/src/api\<close>): \<open>check\<close> and \<open>group\<close> (\<open>check.rs\<close>), the custom
  metrics (\<open>metrics.rs\<close>), \<open>sleep\<close> (\<open>sleep.rs\<close>), the timers (\<open>timers.rs\<close>) and the selections of \<open>parseHTML\<close>
  (\<open>html.rs\<close>).  A function of the script is a function on the state of the module that returns a value or
  throws, a sum with the thrown text on the left; \<open>None\<close> is a panic, or for a timer not returning.
\<close>

section \<open>Checks and groups\<close>

record ('c, 'h) api_state =
  as_metrics :: "('c, 'h) registry option"
  as_path :: string
  as_printed :: "string list"

type_synonym ('c, 'h, 'a) script_fun = "('c, 'h) api_state \<Rightarrow> (('c, 'h) api_state \<times> (string + 'a)) option"

definition with_metrics :: "(('c, 'h) registry \<Rightarrow> ('c, 'h) registry option) \<Rightarrow> ('c, 'h) api_state \<Rightarrow> ('c, 'h) api_state option" where
  "with_metrics f s =
     (case as_metrics s of None \<Rightarrow> Some s | Some r \<Rightarrow> map_option (\<lambda>r. s\<lparr>as_metrics := Some r\<rparr>) (f r))"

definition check_result :: "('c, 'h) deps \<Rightarrow> string \<Rightarrow> bool \<Rightarrow> string \<Rightarrow> ('c, 'h) api_state \<Rightarrow> ('c, 'h) api_state option" where
  "check_result D name passed group_path s =
     map_option (\<lambda>s. if passed then s else s\<lparr>as_printed := as_printed s @ [''  '' @ [CHR 0xE2, CHR 0x9C, CHR 0x97] @ '' '' @ name]\<rparr>)
       (with_metrics (record_check D name group_path passed) s)"

text \<open>A check that throws fails, and the others are still run.\<close>

fun run_checks ::
    "('c, 'h) deps \<Rightarrow> string \<Rightarrow> 'v \<Rightarrow> (string \<times> ('v \<Rightarrow> ('c, 'h, jsv) script_fun)) list \<Rightarrow> ('c, 'h) api_state \<Rightarrow>
     (('c, 'h) api_state \<times> bool) option" where
  "run_checks D group_path val [] s = Some (s, True)"
| "run_checks D group_path val ((name, f) # checks) s =
     Option.bind (f val s) (\<lambda>(s, r).
       let passed = (case r of Inr v \<Rightarrow> truthy v | Inl e \<Rightarrow> False)
       in Option.bind (check_result D name passed group_path s) (\<lambda>s.
            map_option (\<lambda>(s, all_passed). (s, passed \<and> all_passed)) (run_checks D group_path val checks s)))"

definition js_check ::
    "('c, 'h) deps \<Rightarrow> 'v \<Rightarrow> (string \<times> ('v \<Rightarrow> ('c, 'h, jsv) script_fun)) list \<Rightarrow> ('c, 'h) api_state \<Rightarrow>
     (('c, 'h) api_state \<times> bool) option" where
  "js_check D val checks s = run_checks D (as_path s) val checks s"

definition group_enter :: "('c, 'h) deps \<Rightarrow> string \<Rightarrow> ('c, 'h) api_state \<Rightarrow> ('c, 'h) api_state option" where
  "group_enter D full_path s = with_metrics (\<lambda>r. Some (register_group D full_path r)) s"

definition group_end :: "('c, 'h) deps \<Rightarrow> string \<Rightarrow> f64 \<Rightarrow> ('c, 'h) api_state \<Rightarrow> ('c, 'h) api_state option" where
  "group_end D full_path duration_ms s = with_metrics (record_group_duration D full_path duration_ms) s"

text \<open>\<open>elapsed_ms\<close> is the difference of the two clock readings.\<close>

definition js_group :: "('c, 'h) deps \<Rightarrow> f64 \<Rightarrow> string \<Rightarrow> ('c, 'h, 'a) script_fun \<Rightarrow> ('c, 'h, 'a) script_fun" where
  "js_group D elapsed_ms name f s =
     (let prev = as_path s;
          full_path = prev @ ''::'' @ name
      in Option.bind (group_enter D full_path (s\<lparr>as_path := full_path\<rparr>)) (\<lambda>s.
         Option.bind (f s) (\<lambda>(s, r).
         map_option (\<lambda>s. (s, r)) (group_end D full_path elapsed_ms (s\<lparr>as_path := prev\<rparr>)))))"

section \<open>Custom metrics\<close>

datatype custom_metric = JsTrend string bool | JsCounter string | JsRate string | JsGauge string

fun metric_create :: "custom_metric \<Rightarrow> ('c, 'h) registry \<Rightarrow> ('c, 'h) registry" where
  "metric_create (JsTrend name is_time) r = register_contains name (if is_time then ''time'' else ''default'') r"
| "metric_create (JsCounter name) r = register_contains name ''default'' r"
| "metric_create (JsRate name) r = register_contains name ''default'' r"
| "metric_create (JsGauge name) r = register_contains name ''default'' r"

text \<open>The tags of a sample are an argument of \<open>add\<close> that is not used.\<close>

fun metric_add :: "js_lib \<Rightarrow> ('c, 'h) deps \<Rightarrow> custom_metric \<Rightarrow> jsv \<Rightarrow> jsv \<Rightarrow> ('c, 'h) registry \<Rightarrow> ('c, 'h) registry option" where
  "metric_add J D (JsTrend name is_time) v tags r = trend_add D name (js_num J v) r"
| "metric_add J D (JsCounter name) v tags r =
     counter_add D name (f_to_u64 (js_num J (if truthy v then v else JsNumber (flit 1)))) r"
| "metric_add J D (JsRate name) v tags r = rate_add D name (truthy v) r"
| "metric_add J D (JsGauge name) v tags r = gauge_set D name (js_num J v) r"

section \<open>Sleep\<close>

text \<open>\<open>Duration::from_secs_f64\<close> panics on negative, too large and undefined numbers; the nanoseconds are rounded.\<close>

definition duration_from_secs :: "f64 \<Rightarrow> duration option" where
  "duration_from_secs x =
     (if is_fin x \<and> 0 \<le> fval x \<and> rne (fval x * 10 ^ 9) \<le> dur_max then Some (rne (fval x * 10 ^ 9)) else None)"

text \<open>The operation of a virtual user that runs iterations is the sleep of its scheduler for this time.  \<open>f64::max\<close> with zero: the other argument when one is not a number.\<close>

definition max_zero :: "f64 \<Rightarrow> f64" where
  "max_zero x = (if x \<noteq> F64_NaN \<and> flt f0 x then x else f0)"

definition sleep_plain :: "f64 \<Rightarrow> duration option" where "sleep_plain seconds = duration_from_secs seconds"
definition sleep_yielding :: "f64 \<Rightarrow> duration option" where
  "sleep_yielding seconds = duration_from_secs (max_zero seconds)"

section \<open>Timers\<close>

record timer_state =
  tm_next :: int
  tm_cleared :: "int list"
  tm_slept :: "u64 list"

definition timer_new :: timer_state where
  "timer_new = \<lparr>tm_next = 1, tm_cleared = [], tm_slept = []\<rparr>"

type_synonym timer_fun = "timer_state \<Rightarrow> (timer_state \<times> (string + unit)) option"

definition timer_sleep_ms :: "f64 \<Rightarrow> timer_state \<Rightarrow> timer_state" where
  "timer_sleep_ms ms s = s\<lparr>tm_slept := tm_slept s @ [f_to_u64 (max_zero ms)]\<rparr>"

definition timer_clear :: "int \<Rightarrow> timer_state \<Rightarrow> timer_state" where
  "timer_clear i s = s\<lparr>tm_cleared := List.insert i (tm_cleared s)\<rparr>"

definition timer_unmark :: "int \<Rightarrow> timer_state \<Rightarrow> timer_state" where
  "timer_unmark i s = s\<lparr>tm_cleared := removeAll i (tm_cleared s)\<rparr>"

text \<open>A call of the function; the timer goes on only when it does not throw.\<close>

definition set_timeout :: "timer_fun \<Rightarrow> f64 \<Rightarrow> timer_state \<Rightarrow> (timer_state \<times> (string + int)) option" where
  "set_timeout f ms s =
     (let i = tm_next s;
          s = timer_sleep_ms ms (s\<lparr>tm_next := i + 1\<rparr>)
      in Option.bind (if i \<in> set (tm_cleared s) then Some (s, Inr ()) else f s) (\<lambda>(s, r).
           case r of
             Inl e \<Rightarrow> Some (s, Inl e)
           | Inr u \<Rightarrow> Some (timer_unmark i s, Inr i)))"

partial_function (option) interval_loop :: "timer_fun \<Rightarrow> f64 \<Rightarrow> int \<Rightarrow> timer_state \<Rightarrow> (timer_state \<times> (string + int)) option" where
  "interval_loop f ms i s =
     (if i \<in> set (tm_cleared s) then Some (timer_unmark i s, Inr i)
      else let s = timer_sleep_ms ms s
           in Option.bind (if i \<in> set (tm_cleared s) then Some (s, Inr ()) else f s) (\<lambda>(s, r).
                case r of
                  Inl e \<Rightarrow> Some (s, Inl e)
                | Inr u \<Rightarrow> interval_loop f ms i s))"

definition set_interval :: "timer_fun \<Rightarrow> f64 \<Rightarrow> timer_state \<Rightarrow> (timer_state \<times> (string + int)) option" where
  "set_interval f ms s = (let i = tm_next s in interval_loop f ms i (s\<lparr>tm_next := i + 1\<rparr>))"

section \<open>Selections\<close>

record html_element =
  el_html :: string
  el_text :: string
  el_outer :: string
  el_attrs :: "(string \<times> string) list"

text \<open>The parser of documents and selectors; \<open>None\<close> is a selector that does not parse.\<close>

record html_lib =
  hl_find :: "string \<Rightarrow> string \<Rightarrow> html_element list option"
  hl_find_fragment :: "string \<Rightarrow> string \<Rightarrow> html_element list option"
  hl_root :: "string \<Rightarrow> html_element"

definition find_or_none :: "html_element list option \<Rightarrow> html_element list" where
  "find_or_none r = (case r of None \<Rightarrow> [] | Some es \<Rightarrow> es)"

definition sel_find :: "html_lib \<Rightarrow> string \<Rightarrow> html_element list \<Rightarrow> html_element list" where
  "sel_find X selector es = concat (map (\<lambda>e. find_or_none (hl_find_fragment X (el_outer e) selector)) es)"

definition sel_text :: "html_element list \<Rightarrow> string" where "sel_text es = concat (map el_text es)"
definition sel_html :: "html_element list \<Rightarrow> string" where "sel_html es = (case es of [] \<Rightarrow> [] | e # _ \<Rightarrow> el_html e)"
definition sel_attr :: "string \<Rightarrow> html_element list \<Rightarrow> string option" where
  "sel_attr name es = (case es of [] \<Rightarrow> None | e # _ \<Rightarrow> map_of (el_attrs e) name)"
definition sel_val :: "html_element list \<Rightarrow> string option" where "sel_val es = sel_attr ''value'' es"
definition sel_data :: "string \<Rightarrow> html_element list \<Rightarrow> string option" where "sel_data name es = sel_attr (''data-'' @ name) es"
definition sel_first :: "html_element list \<Rightarrow> html_element list" where "sel_first es = take 1 es"
definition sel_last :: "html_element list \<Rightarrow> html_element list" where "sel_last es = (if es = [] then [] else [es ! (length es - 1)])"

definition sel_eq :: "int \<Rightarrow> html_element list \<Rightarrow> html_element list" where
  "sel_eq index es =
     (let i = (if index < 0 then int (length es) + index else index)
      in if 0 \<le> i \<and> i < int (length es) then [es ! nat i] else [])"

definition sel_filter :: "html_lib \<Rightarrow> string \<Rightarrow> html_element list \<Rightarrow> html_element list" where
  "sel_filter X selector es = filter (\<lambda>e. find_or_none (hl_find_fragment X (el_outer e) selector) \<noteq> []) es"

definition sel_is :: "html_lib \<Rightarrow> string \<Rightarrow> html_element list \<Rightarrow> bool" where
  "sel_is X selector es = list_ex (\<lambda>e. find_or_none (hl_find_fragment X (el_outer e) selector) \<noteq> []) es"

definition sel_children :: "html_lib \<Rightarrow> string option \<Rightarrow> html_element list \<Rightarrow> html_element list" where
  "sel_children X selector es =
     sel_find X (case selector of Some (c # s) \<Rightarrow> '':scope > '' @ c # s | _ \<Rightarrow> '':scope > *'') es"

definition sel_has_class :: "string \<Rightarrow> html_element list \<Rightarrow> bool" where
  "sel_has_class name es =
     list_ex (\<lambda>e. contains_str ('' '' @ name @ '' '') ('' '' @ (case map_of (el_attrs e) ''class'' of None \<Rightarrow> [] | Some c \<Rightarrow> c) @ '' '')) es"

text \<open>The selection of a document searches the whole document.\<close>

definition parse_html :: "html_lib \<Rightarrow> string \<Rightarrow> html_element list" where "parse_html X html = [hl_root X html]"
definition doc_find :: "html_lib \<Rightarrow> string \<Rightarrow> string \<Rightarrow> html_element list" where
  "doc_find X html selector = find_or_none (hl_find X html selector)"

section \<open>What the modules guarantee\<close>

text \<open>Checks whose functions leave the state alone: the answer and the recorded samples.\<close>

fun checks_recorded :: "('c, 'h) deps \<Rightarrow> string \<Rightarrow> (string \<times> bool) list \<Rightarrow> ('c, 'h) api_state \<Rightarrow> ('c, 'h) api_state option" where
  "checks_recorded D group_path [] s = Some s"
| "checks_recorded D group_path ((name, passed) # cs) s = Option.bind (check_result D name passed group_path s) (checks_recorded D group_path cs)"

definition outcome_of :: "string + jsv \<Rightarrow> bool" where
  "outcome_of r = (case r of Inr v \<Rightarrow> truthy v | Inl e \<Rightarrow> False)"

lemma run_checks_pure:
  "run_checks D p val (map (\<lambda>(name, r). (name, \<lambda>v s. Some (s, r v))) checks) s =
     map_option (\<lambda>s. (s, list_all (\<lambda>(name, r). outcome_of (r val)) checks))
       (checks_recorded D p (map (\<lambda>(name, r). (name, outcome_of (r val))) checks) s)"
proof (induction checks arbitrary: s)
  case (Cons c cs)
  obtain name r where c: "c = (name, r)" by force
  show ?case using Cons
    by (cases "check_result D name (outcome_of (r val)) p s") (simp_all add: c outcome_of_def option.map_comp comp_def)
qed simp

text \<open>A check runs all its functions, a thrown one counting as failed, records each under the path of the group it is
  called in, and returns true exactly when every one returned a true value.\<close>

lemma check_outcome:
  "js_check D val (map (\<lambda>(name, r). (name, \<lambda>v s. Some (s, r v))) checks) s =
     map_option (\<lambda>s. (s, list_all (\<lambda>(name, r). outcome_of (r val)) checks))
       (checks_recorded D (as_path s) (map (\<lambda>(name, r). (name, outcome_of (r val))) checks) s)"
  by (simp add: js_check_def run_checks_pure)

lemma with_metrics_path: "with_metrics f s = Some s' \<Longrightarrow> as_path s' = as_path s"
  by (auto simp: with_metrics_def split: option.splits)

text \<open>Whatever the function of a group does, also when it throws or changes the path, the path afterwards is the path before,
  and the result is the function's.\<close>

lemma group_restores_path:
  "js_group D elapsed_ms name f s = Some (s', r) \<Longrightarrow>
     as_path s' = as_path s \<and> (\<exists>s1 s2. group_enter D (as_path s @ ''::'' @ name) (s\<lparr>as_path := as_path s @ ''::'' @ name\<rparr>) = Some s1 \<and> f s1 = Some (s2, r))"
  by (auto simp: js_group_def Let_def bind_eq_Some_conv group_end_def dest!: with_metrics_path)

text \<open>A counter that adds zero adds one, and fractions are cut off.\<close>

lemma counter_zero:
  "js_num J (JsNumber (flit 1)) = flit 1 \<Longrightarrow> metric_add J D (JsCounter name) (JsNumber f0) tags r = counter_add D name 1 r"
proof -
  assume "js_num J (JsNumber (flit 1)) = flit 1"
  moreover have "f_to_u64 (flit 1) = 1" and t: "truthy (JsNumber f0) = False" by code_simp+
  ultimately show ?thesis by (simp only: metric_add.simps t if_False)
qed

lemma sleep_negative: "sleep_plain (fneg (flit 1)) = None" "sleep_yielding (F64_Inf False) = None" "sleep_yielding (fneg (flit 1)) = Some 0"
  by code_simp+

text \<open>An interval whose function neither throws nor clears it never returns, and the function cannot know the identifier,
  which \<open>setInterval\<close> returns only at the end.\<close>

lemma interval_endless:
  assumes "\<And>s. i \<notin> set (tm_cleared s) \<Longrightarrow> \<exists>s'. f s = Some (s', Inr ()) \<and> i \<notin> set (tm_cleared s')"
    and "i \<notin> set (tm_cleared s)"
  shows "interval_loop f ms i s = None"
proof -
  have "False" if "interval_loop f ms i s = Some res" "i \<notin> set (tm_cleared s)" for s res
  proof -
    define P where "P g m j t (r :: timer_state \<times> (string + int)) \<longleftrightarrow> (g = f \<longrightarrow> j = i \<longrightarrow> i \<in> set (tm_cleared t))"
      for g :: timer_fun and m :: f64 and j and t :: timer_state and r
    have "P f ms i s res"
    proof (rule interval_loop.raw_induct[OF _ that(1), of P])
      fix loop g m j t r
      assume IH: "\<And>g m j t r. loop g m j t = Some r \<Longrightarrow> P g m j t r"
        and body: "(if j \<in> set (tm_cleared t) then Some (timer_unmark j t, Inr j)
          else let s = timer_sleep_ms m t
               in Option.bind (if j \<in> set (tm_cleared s) then Some (s, Inr ()) else g s) (\<lambda>(s, r).
                    case r of Inl e \<Rightarrow> Some (s, Inl e) | Inr u \<Rightarrow> loop g m j s)) = Some r"
      show "P g m j t r"
        unfolding P_def
      proof (intro impI, rule ccontr)
        assume g: "g = f" "j = i" and n: "i \<notin> set (tm_cleared t)"
        then have n': "i \<notin> set (tm_cleared (timer_sleep_ms m t))" by (simp add: timer_sleep_ms_def)
        from assms(1)[OF this] obtain t' where t': "f (timer_sleep_ms m t) = Some (t', Inr ())" "i \<notin> set (tm_cleared t')" by blast
        then have "loop f m i t' = Some r" using body g n n' by (simp add: Let_def)
        from IH[OF this] t'(2) show False by (simp add: P_def)
      qed
    qed
    then show False using that(2) by (simp add: P_def)
  qed
  then show ?thesis using assms(2) by (cases "interval_loop f ms i s") auto
qed

lemma timeout_cleared_before: "map_option fst (set_timeout f ms (timer_clear 1 timer_new)) = Some (timer_sleep_ms ms (timer_new\<lparr>tm_next := 2\<rparr>))"
  by (simp add: set_timeout_def timer_clear_def timer_new_def timer_sleep_ms_def timer_unmark_def Let_def)

lemma sel_ends: "sel_eq 0 es = sel_first es" "sel_eq (- 1) es = sel_last es"
  by (cases es; simp add: sel_eq_def sel_first_def nth_append Let_def)
     (cases es; simp add: sel_eq_def sel_last_def Let_def)

lemma sel_is_filter: "sel_is X selector es \<longleftrightarrow> sel_filter X selector es \<noteq> []"
  by (induction es) (auto simp: sel_is_def sel_filter_def)

end
