(* ===== verification/Ws.thy ===== *)
theory Ws
  imports Metrics "HOL-Library.Sublist"
begin

text \<open>
  WebSockets (\<open>crates/k6-js/src/api/ws.rs\<close>): opening a session, commands to its writing task, events from its reading
  task, and the removal of a session, which aborts both tasks.  A virtual user that runs iterations shares
  one thread with its tasks, so they run only while the script waits; that is one step relation.  The
  connection and the frames of the socket are the library's.
\<close>

section \<open>Commands and events\<close>

datatype ws_command = WsSend string | WsPing | WsClose

datatype ws_event = EvMessage string | EvBinary string | EvPing | EvPong | EvClose | EvError string | EvTimeout

text \<open>What the stream of the socket yields: an error or a frame.\<close>

datatype ws_frame = FrameText string | FrameBinary string | FramePing | FramePong | FrameClose | FrameOther

text \<open>One turn of the reading task: the event it sends, if any, and whether it goes on.\<close>

fun read_turn :: "string + ws_frame \<Rightarrow> ws_event option \<times> bool" where
  "read_turn (Inr (FrameText t)) = (Some (EvMessage t), True)"
| "read_turn (Inr (FrameBinary d)) = (Some (EvBinary d), True)"
| "read_turn (Inr FramePing) = (Some EvPing, True)"
| "read_turn (Inr FramePong) = (Some EvPong, True)"
| "read_turn (Inr FrameClose) = (Some EvClose, False)"
| "read_turn (Inr FrameOther) = (None, True)"
| "read_turn (Inl e) = (Some (EvError e), False)"

text \<open>The event as the script sees it: its type and its data.\<close>

fun event_into_js :: "(string \<Rightarrow> string) \<Rightarrow> ws_event \<Rightarrow> string \<times> string option" where
  "event_into_js b64 (EvMessage t) = (''message'', Some t)"
| "event_into_js b64 (EvBinary d) = (''binaryMessage'', Some (b64 d))"
| "event_into_js b64 EvPing = (''ping'', None)"
| "event_into_js b64 EvPong = (''pong'', None)"
| "event_into_js b64 EvClose = (''close'', None)"
| "event_into_js b64 (EvError e) = (''error'', Some e)"
| "event_into_js b64 EvTimeout = (''timeout'', None)"

section \<open>Sessions\<close>

record ws_session =
  ws_cmds :: "ws_command list"
  ws_evts :: "ws_event list"
  ws_reader :: bool
  ws_writer :: bool

type_synonym ws_registry = "(string, ws_session) hm"

definition session_new :: ws_session where
  "session_new = \<lparr>ws_cmds = [], ws_evts = [], ws_reader = True, ws_writer = True\<rparr>"

definition ws_timeout :: "f64 \<Rightarrow> duration" where
  "ws_timeout timeout_ms = (if flt f0 timeout_ms then from_millis (uint (f_to_u64 timeout_ms)) else from_secs 60)"

datatype connect_result = Connected | ConnectError string | ConnectTimeout

definition ws_connect_error :: "connect_result \<Rightarrow> string" where
  "ws_connect_error r = (case r of ConnectError e \<Rightarrow> ''WebSocket connection failed: '' @ e | _ \<Rightarrow> ''WebSocket connection timed out'')"

definition record_connecting :: "('c, 'h) deps \<Rightarrow> string \<Rightarrow> f64 \<Rightarrow> ('c, 'h) registry option \<Rightarrow> ('c, 'h) registry option option" where
  "record_connecting D url ms metrics =
     (case metrics of None \<Rightarrow> Some None | Some r \<Rightarrow> map_option Some (record_ws_connecting D ms [(''url'', url)] r))"

text \<open>Opening in the lifecycle hooks, and in the virtual users that run iterations; the identifier is random and \<open>None\<close> is a
  panic of the registry of metrics.\<close>

definition ws_open ::
    "('c, 'h) deps \<Rightarrow> string \<Rightarrow> connect_result \<Rightarrow> f64 \<Rightarrow> string \<Rightarrow> ws_registry \<Rightarrow> ('c, 'h) registry option \<Rightarrow>
     ((string + string) \<times> ws_registry \<times> ('c, 'h) registry option) option" where
  "ws_open D url result connecting_ms sid reg metrics =
     map_option (\<lambda>m. case result of
         Connected \<Rightarrow> (Inr sid, hm_put sid session_new reg, m)
       | _ \<Rightarrow> (Inl (ws_connect_error result), reg, m))
     (record_connecting D url connecting_ms metrics)"

definition ws_open_yielding ::
    "('c, 'h) deps \<Rightarrow> string \<Rightarrow> connect_result \<Rightarrow> f64 \<Rightarrow> string \<Rightarrow> ws_registry \<Rightarrow> ('c, 'h) registry option \<Rightarrow>
     ((string + string) \<times> ws_registry \<times> ('c, 'h) registry option) option" where
  "ws_open_yielding D url result connecting_ms sid reg metrics =
     (case result of
        Connected \<Rightarrow> map_option (\<lambda>m. (Inr sid, hm_put sid session_new reg, m)) (record_connecting D url connecting_ms metrics)
      | _ \<Rightarrow> Some (Inl (ws_connect_error result), reg, metrics))"

text \<open>A command to a writing task that has ended is lost; the result of the send is ignored.\<close>

definition push_command :: "ws_command \<Rightarrow> ws_session \<Rightarrow> ws_session" where
  "push_command c s = (if ws_writer s then s\<lparr>ws_cmds := ws_cmds s @ [c]\<rparr> else s)"

definition ws_command_to :: "string \<Rightarrow> ws_command \<Rightarrow> ws_registry \<Rightarrow> string + ws_registry" where
  "ws_command_to sid c reg =
     (case map_of reg sid of
        Some s \<Rightarrow> Inr (hm_put sid (push_command c s) reg)
      | None \<Rightarrow> Inl ''WebSocket session not found'')"

definition ws_command_yielding :: "string \<Rightarrow> ws_command \<Rightarrow> ws_registry \<Rightarrow> ws_registry" where
  "ws_command_yielding sid c reg =
     (case map_of reg sid of Some s \<Rightarrow> hm_put sid (push_command c s) reg | None \<Rightarrow> reg)"

text \<open>The event a receive ends with, when it ends in this state of the session: a queued one, a close when the reading task has
  ended, a timeout when the time is over.\<close>

definition recv_event :: "bool \<Rightarrow> ws_session \<Rightarrow> (ws_event \<times> ws_session) option" where
  "recv_event timed_out s =
     (case ws_evts s of
        e # es \<Rightarrow> Some (e, s\<lparr>ws_evts := es\<rparr>)
      | [] \<Rightarrow> if \<not> ws_reader s then Some (EvClose, s) else if timed_out then Some (EvTimeout, s) else None)"

definition ws_recv :: "string \<Rightarrow> bool \<Rightarrow> ws_registry \<Rightarrow> (ws_event \<times> ws_registry) option" where
  "ws_recv sid timed_out reg =
     (case map_of reg sid of
        None \<Rightarrow> Some (EvClose, reg)
      | Some s \<Rightarrow> map_option (\<lambda>(e, s). (e, hm_put sid s reg)) (recv_event timed_out s))"

text \<open>Removing a session drops it, which aborts its tasks.\<close>

definition ws_cleanup :: "string \<Rightarrow> ws_registry \<Rightarrow> ws_registry" where
  "ws_cleanup sid reg = filter (\<lambda>(k, _). k \<noteq> sid) reg"

text \<open>The tasks of a session: \<open>ok\<close> is whether the socket takes the frame.\<close>

definition write_turn :: "bool \<Rightarrow> ws_session \<Rightarrow> ws_session \<times> ws_command list" where
  "write_turn ok s =
     (case ws_cmds s of
        [] \<Rightarrow> (s, [])
      | c # cs \<Rightarrow> (s\<lparr>ws_cmds := cs, ws_writer := (ok \<and> c \<noteq> WsClose)\<rparr>, if ok then [c] else []))"

definition take_frame :: "string + ws_frame \<Rightarrow> ws_session \<Rightarrow> ws_session" where
  "take_frame f s =
     (case read_turn f of (e, go) \<Rightarrow>
        s\<lparr>ws_evts := ws_evts s @ (case e of Some e \<Rightarrow> [e] | None \<Rightarrow> []), ws_reader := go\<rparr>)"

section \<open>A session of a virtual user\<close>

text \<open>Whether the script runs, the session while it is registered, what arrived and was not read, what is on the wire; the
  rest records what the script issued, what was read and what was handed over.\<close>

record ws_conn =
  wc_running :: bool
  wc_session :: "ws_session option"
  wc_incoming :: "(string + ws_frame) list"
  wc_wire :: "ws_command list"
  wc_issued :: "ws_command list"
  wc_read :: "(string + ws_frame) list"
  wc_handed :: "ws_event list"

definition conn_new :: ws_conn where
  "conn_new = \<lparr>wc_running = True, wc_session = Some session_new, wc_incoming = [], wc_wire = [], wc_issued = [], wc_read = [], wc_handed = []\<rparr>"

definition issue :: "ws_command \<Rightarrow> ws_conn \<Rightarrow> ws_conn" where
  "issue c w =
     (case wc_session w of
        None \<Rightarrow> w
      | Some s \<Rightarrow> w\<lparr>wc_session := Some (push_command c s), wc_issued := wc_issued w @ (if ws_writer s then [c] else [])\<rparr>)"

inductive ws_step :: "ws_conn \<Rightarrow> ws_conn \<Rightarrow> bool" where
  command: "wc_running w \<Longrightarrow> ws_step w (issue c w)"
| yields: "wc_running w \<Longrightarrow> ws_step w (w\<lparr>wc_running := False\<rparr>)"
| resumes: "\<not> wc_running w \<Longrightarrow> ws_step w (w\<lparr>wc_running := True\<rparr>)"
| receives: "\<not> wc_running w \<Longrightarrow> wc_session w = Some s \<Longrightarrow> recv_event timed_out s = Some (e, s') \<Longrightarrow>
     ws_step w (w\<lparr>wc_running := True, wc_session := Some s', wc_handed := wc_handed w @ (if ws_evts s = [] then [] else [e])\<rparr>)"
| writes: "\<not> wc_running w \<Longrightarrow> wc_session w = Some s \<Longrightarrow> ws_writer s \<Longrightarrow> write_turn ok s = (s', frames) \<Longrightarrow>
     ws_step w (w\<lparr>wc_session := Some s', wc_wire := wc_wire w @ frames\<rparr>)"
| reads: "\<not> wc_running w \<Longrightarrow> wc_session w = Some s \<Longrightarrow> ws_reader s \<Longrightarrow> wc_incoming w = f # fs \<Longrightarrow>
     ws_step w (w\<lparr>wc_session := Some (take_frame f s), wc_incoming := fs, wc_read := wc_read w @ [f]\<rparr>)"
| arrives: "ws_step w (w\<lparr>wc_incoming := wc_incoming w @ [f]\<rparr>)"
| cleans_up: "wc_running w \<Longrightarrow> ws_step w (w\<lparr>wc_session := None\<rparr>)"

inductive_cases ws_stepE: "ws_step w w'"

section \<open>Order and loss\<close>

definition events_of :: "(string + ws_frame) list \<Rightarrow> ws_event list" where
  "events_of fs = concat (map (\<lambda>f. case fst (read_turn f) of Some e \<Rightarrow> [e] | None \<Rightarrow> []) fs)"

definition ws_inv :: "ws_conn \<Rightarrow> bool" where
  "ws_inv w \<longleftrightarrow> prefix (wc_wire w) (wc_issued w) \<and> prefix (wc_handed w) (events_of (wc_read w)) \<and>
     (case wc_session w of
        None \<Rightarrow> True
      | Some s \<Rightarrow> (ws_writer s \<longrightarrow> wc_issued w = wc_wire w @ ws_cmds s) \<and> events_of (wc_read w) = wc_handed w @ ws_evts s)"

lemma ws_inv_new: "ws_inv conn_new"
  by (simp add: ws_inv_def conn_new_def session_new_def events_of_def)

lemma ws_inv_step: "ws_step w w' \<Longrightarrow> ws_inv w \<Longrightarrow> ws_inv w'"
proof (induction rule: ws_step.induct)
  case (command w c)
  then show ?case by (auto simp: ws_inv_def issue_def push_command_def split: option.splits)
next
  case (receives w s timed_out e s')
  then show ?case by (auto simp: ws_inv_def recv_event_def split: list.splits if_splits)
next
  case (writes w s ok s' frames)
  then show ?case by (cases "ws_cmds s") (auto simp: ws_inv_def write_turn_def split: if_splits)
next
  case (reads w s f fs)
  then show ?case
    by (auto simp: ws_inv_def take_frame_def events_of_def split: prod.splits option.splits)
qed (auto simp: ws_inv_def split: option.splits)

lemma ws_inv_reachable: "ws_step\<^sup>*\<^sup>* conn_new w \<Longrightarrow> ws_inv w"
  by (induction rule: rtranclp_induct) (auto simp: ws_inv_new intro: ws_inv_step)

text \<open>C32.  Whatever the script and the tasks of a session interleave, the frames on the wire are a prefix of the commands
  the script issued, and the events handed to it are a prefix of the events of the frames read.\<close>

theorem ws_order:
  assumes "ws_step\<^sup>*\<^sup>* conn_new w"
  shows "prefix (wc_wire w) (wc_issued w) \<and> prefix (wc_handed w) (events_of (wc_read w))"
  using ws_inv_reachable[OF assms] by (simp add: ws_inv_def)

text \<open>A part of the script that does not wait and ends by removing the session.\<close>

definition close_section :: "ws_command list \<Rightarrow> ws_conn \<Rightarrow> ws_conn" where
  "close_section cs w = (fold issue cs w)\<lparr>wc_session := None\<rparr>"

lemma issue_keeps: "wc_wire (fold issue cs w) = wc_wire w" "wc_running (fold issue cs w) = wc_running w"
  by (induction cs arbitrary: w) (auto simp: issue_def split: option.splits)

lemma close_section_steps: "wc_running w \<Longrightarrow> ws_step\<^sup>*\<^sup>* w (close_section cs w)"
proof -
  assume r: "wc_running w"
  have "wc_running w \<Longrightarrow> ws_step\<^sup>*\<^sup>* w (fold issue cs w)" for w
  proof (induction cs arbitrary: w)
    case (Cons c cs)
    then have "ws_step w (issue c w)" by (intro ws_step.command) simp
    moreover have "wc_running (issue c w)" using Cons.prems issue_keeps(2)[of "[c]" w] by simp
    ultimately show ?case using Cons.IH[of "issue c w"] by (simp add: converse_rtranclp_into_rtranclp)
  qed simp
  then show ?thesis using r ws_step.cleans_up[of "fold issue cs w"] by (auto simp: close_section_def issue_keeps intro: rtranclp.rtrancl_into_rtrancl)
qed

lemma dropped_session: "ws_step\<^sup>*\<^sup>* w w' \<Longrightarrow> wc_session w = None \<Longrightarrow> wc_session w' = None \<and> wc_wire w' = wc_wire w"
  by (induction rule: rtranclp_induct) (auto simp: issue_def elim!: ws_stepE)

text \<open>Commands that the script issues and follows by the removal of the session without waiting in between, as the
  shim does after \<open>socket.close()\<close>, are possible in every state in which the script runs and never reach the
  wire, the close frame included: the removal aborts the writing task before it can run.\<close>

lemma ws_close_loses:
  assumes "wc_running w"
  shows "ws_step\<^sup>*\<^sup>* w (close_section cs w) \<and> {wc_wire w' |w'. ws_step\<^sup>*\<^sup>* (close_section cs w) w'} = {wc_wire w}"
  using close_section_steps[OF assms] dropped_session[of "close_section cs w"]
  by (auto simp: close_section_def issue_keeps) (metis rtranclp.rtrancl_refl issue_keeps(1) ws_conn.select_convs(4) ws_conn.update_convs(2))

text \<open>A session in use: a message is sent and an answer received.\<close>

definition talk :: ws_conn where
  "talk = \<lparr>wc_running = True, wc_session = Some session_new, wc_incoming = [], wc_wire = [WsSend ''hi''], wc_issued = [WsSend ''hi''],
     wc_read = [Inr (FrameText ''yo'')], wc_handed = [EvMessage ''yo'']\<rparr>"

lemma talk_reachable: "ws_step\<^sup>*\<^sup>* conn_new talk"
proof -
  let ?w1 = "issue (WsSend ''hi'') conn_new" let ?w2 = "?w1\<lparr>wc_running := False\<rparr>"
  let ?w3 = "?w2\<lparr>wc_session := Some session_new, wc_wire := wc_wire ?w2 @ [WsSend ''hi'']\<rparr>"
  let ?w4 = "?w3\<lparr>wc_incoming := wc_incoming ?w3 @ [Inr (FrameText ''yo'')]\<rparr>"
  let ?s = "take_frame (Inr (FrameText ''yo'')) session_new"
  let ?w5 = "?w4\<lparr>wc_session := Some ?s, wc_incoming := [], wc_read := wc_read ?w4 @ [Inr (FrameText ''yo'')]\<rparr>"
  have 1: "ws_step conn_new ?w1" by (rule ws_step.command) (simp add: conn_new_def)
  have 2: "ws_step ?w1 ?w2" by (rule ws_step.yields) (simp add: conn_new_def issue_def session_new_def)
  have 3: "ws_step ?w2 ?w3"
    by (rule ws_step.writes[of _ "session_new\<lparr>ws_cmds := [WsSend ''hi'']\<rparr>" True])
      (simp_all add: conn_new_def issue_def push_command_def session_new_def write_turn_def)
  have 4: "ws_step ?w3 ?w4" by (rule ws_step.arrives)
  have 5: "ws_step ?w4 ?w5" by (rule ws_step.reads) (simp_all add: conn_new_def issue_def session_new_def)
  have 6: "ws_step ?w5 talk"
    using ws_step.receives[of ?w5 ?s False "EvMessage ''yo''" session_new]
    by (simp add: conn_new_def issue_def push_command_def session_new_def take_frame_def recv_event_def talk_def)
  show ?thesis using 1 2 3 4 5 6 by (meson converse_rtranclp_into_rtranclp rtranclp.rtrancl_refl)
qed

theorem ws_order_witness:
  "prefix (wc_wire talk) (wc_issued talk) \<and> prefix (wc_handed talk) (events_of (wc_read talk)) \<and> wc_wire talk \<noteq> [] \<and> wc_handed talk \<noteq> []"
  using ws_order[OF talk_reachable] by (simp add: talk_def)

text \<open>Only the hooks record the time of a connection that failed.\<close>

lemma failed_connect:
  "ws_open_yielding D url (ConnectError e) ms sid reg m = Some (Inl (''WebSocket connection failed: '' @ e), reg, m)"
  "ws_open D url (ConnectError e) ms sid reg (Some r) =
     map_option (\<lambda>r. (Inl (''WebSocket connection failed: '' @ e), reg, Some r)) (record_ws_connecting D ms [(''url'', url)] r)"
  by (simp_all add: ws_open_yielding_def ws_open_def ws_connect_error_def record_connecting_def option.map_comp comp_def)

lemma ws_cleanup_gone: "map_of (ws_cleanup sid reg) sid = None" "ws_recv sid t (ws_cleanup sid reg) = Some (EvClose, ws_cleanup sid reg)"
proof -
  show "map_of (ws_cleanup sid reg) sid = None" by (auto simp: ws_cleanup_def map_of_eq_None_iff)
  then show "ws_recv sid t (ws_cleanup sid reg) = Some (EvClose, ws_cleanup sid reg)" by (simp add: ws_recv_def)
qed

end
