(* ===== verification/Grpc.thy ===== *)
theory Grpc
  imports Control HttpApi
begin

text \<open>
  The gRPC client of a script, \<open>crates/k6-js/src/api/grpc.rs\<close>: the connections with their metadata, a unary
  call with the values it converts, and what it records.  The crates \<open>tonic\<close> (connecting, metadata, calls) and
  \<open>rand\<close>, and the text parser of \<open>serde_json\<close>, are parameters.  The result: a service that answers with the
  value it was sent gives the script back exactly what \<open>JSON.parse\<close> gives of the request.
\<close>

section \<open>Values\<close>

text \<open>\<open>prost_types::Value\<close>, whose kind may be absent.\<close>

datatype prost =
    ProstNone | ProstNull int | ProstBool bool | ProstNumber f64 | ProstString string
  | ProstList "prost list" | ProstStruct "(string \<times> prost) list"

primrec serde_to_prost :: "json \<Rightarrow> prost" where
  "serde_to_prost JNull = ProstNull 0"
| "serde_to_prost (JBool b) = ProstBool b"
| "serde_to_prost (JNumber n) = ProstNumber (case as_f64 (JNumber n) of None \<Rightarrow> f0 | Some x \<Rightarrow> x)"
| "serde_to_prost (JString s) = ProstString s"
| "serde_to_prost (JArray vs) = ProstList (map serde_to_prost vs)"
| "serde_to_prost (JObject m) = ProstStruct (map (map_prod id serde_to_prost) m)"

text \<open>\<open>json!\<close> of a number that is not finite is null.\<close>

primrec prost_value_to_json :: "prost \<Rightarrow> json" where
  "prost_value_to_json ProstNone = JNull"
| "prost_value_to_json (ProstNull _) = JNull"
| "prost_value_to_json (ProstBool b) = JBool b"
| "prost_value_to_json (ProstNumber x) = (if is_fin x then JNumber (Float x) else JNull)"
| "prost_value_to_json (ProstString s) = JString s"
| "prost_value_to_json (ProstList vs) = JArray (map prost_value_to_json vs)"
| "prost_value_to_json (ProstStruct m) = JObject (map (map_prod id prost_value_to_json) m)"

text \<open>Integers of 64 bits are cut to 32 on their way into the script.\<close>

primrec serde_json_to_js :: "json \<Rightarrow> jsv" where
  "serde_json_to_js JNull = JsNull"
| "serde_json_to_js (JBool b) = JsBool b"
| "serde_json_to_js (JNumber n) =
     (case as_i64 (JNumber n) of
        Some i \<Rightarrow> JsNumber (f_of_int (signed_take_bit 31 i))
      | None \<Rightarrow> JsNumber (case as_f64 (JNumber n) of None \<Rightarrow> f0 | Some x \<Rightarrow> x))"
| "serde_json_to_js (JString s) = JsString s"
| "serde_json_to_js (JArray vs) = JsArray (map serde_json_to_js vs)"
| "serde_json_to_js (JObject m) = JsObject (map (map_prod id serde_json_to_js) m)"

record grpc_response =
  gr_status :: int
  gr_message :: "json option"
  gr_error :: "string option"

definition grpc_response_into_js :: "grpc_response \<Rightarrow> jsv" where
  "grpc_response_into_js r =
     JsObject ([(''status'', JsNumber (f_of_int (gr_status r))),
                (''message'', case gr_message r of Some msg \<Rightarrow> serde_json_to_js msg | None \<Rightarrow> JsNull)] @
       (case gr_error r of Some e \<Rightarrow> [(''error'', JsString e)] | None \<Rightarrow> []) @
       [(''headers'', JsObject []), (''trailers'', JsObject [])])"

section \<open>Connections\<close>

type_synonym metadata = "(string \<times> string) list"

record 'ch grpc_connection =
  gc_endpoint :: string
  gc_channel :: 'ch
  gc_metadata :: metadata

type_synonym 'ch grpc_connections = "(string, 'ch grpc_connection) hm"

text \<open>\<open>tonic\<close>: an endpoint with its connection, the parsers of metadata keys (which are case-insensitive) and values, a
  channel that is ready, the parser of a path, and a call with its status or its answer.\<close>

record ('ch, 'v, 'p) tonic =
  to_connect :: "string \<Rightarrow> string + 'ch"
  to_key :: "string \<Rightarrow> string + string"
  to_value :: "string \<Rightarrow> 'v option"
  to_ready :: "'ch \<Rightarrow> string option"
  to_path :: "string \<Rightarrow> string + 'p"
  to_unary :: "'ch \<Rightarrow> (string, 'v) hm \<Rightarrow> 'p \<Rightarrow> prost \<Rightarrow> (int \<times> string) + prost"

text \<open>\<open>address.contains("://")\<close> decides about the scheme; without one \<open>plaintext\<close> does.  Only an object has fields.\<close>

definition params_get :: "(json \<Rightarrow> 'a option) \<Rightarrow> json \<Rightarrow> string \<Rightarrow> 'a option" where
  "params_get acc params key = Option.bind (as_object params) (\<lambda>m. get_as acc m key)"

definition grpc_endpoint :: "string \<Rightarrow> json \<Rightarrow> string" where
  "grpc_endpoint address params =
     (if contains_str ''://'' address then address
      else if (case params_get as_bool params ''plaintext'' of None \<Rightarrow> True | Some b \<Rightarrow> b) then ''http://'' @ address
      else ''https://'' @ address)"

definition connect_metadata :: "json \<Rightarrow> metadata" where
  "connect_metadata params =
     (case params_get as_object params ''metadata'' of
        None \<Rightarrow> []
      | Some meta \<Rightarrow> fold (\<lambda>(k, v) m. case as_str v of Some s \<Rightarrow> hm_put k s m | None \<Rightarrow> m) meta [])"

definition grpc_connect :: "('ch, 'v, 'p) tonic \<Rightarrow> (string \<Rightarrow> string + json) \<Rightarrow> u64 \<Rightarrow> string \<Rightarrow> string \<Rightarrow> 'ch grpc_connections \<Rightarrow>
    (string + string) \<times> 'ch grpc_connections" where
  "grpc_connect T parse random address params_json conns =
     (let params = (case parse params_json of Inl _ \<Rightarrow> JNull | Inr p \<Rightarrow> p);
          endpoint = grpc_endpoint address params
      in case to_connect T endpoint of
           Inl e \<Rightarrow> (Inl e, conns)
         | Inr channel \<Rightarrow>
             let conn_id = ''grpc_'' @ dec (uint random)
             in (Inr conn_id,
                 hm_put conn_id \<lparr>gc_endpoint = endpoint, gc_channel = channel, gc_metadata = connect_metadata params\<rparr> conns))"

definition grpc_close :: "string \<Rightarrow> 'ch grpc_connections \<Rightarrow> 'ch grpc_connections" where
  "grpc_close conn_id conns = AList.delete conn_id conns"

section \<open>Calls\<close>

text \<open>A value that does not parse is left out; a key that does not parse fails the call.  The hash
  maps are visited in the order of their lists, which matters only for keys that the parser makes equal.\<close>

fun insert_metadata :: "('ch, 'v, 'p) tonic \<Rightarrow> metadata \<Rightarrow> (string, 'v) hm \<Rightarrow> string + (string, 'v) hm" where
  "insert_metadata T [] meta = Inr meta"
| "insert_metadata T ((k, v) # kvs) meta =
     (case to_value T v of
        None \<Rightarrow> insert_metadata T kvs meta
      | Some val \<Rightarrow>
          (case to_key T k of
             Inl e \<Rightarrow> Inl e
           | Inr key \<Rightarrow> insert_metadata T kvs (hm_put key val meta)))"

text \<open>\<open>serde_json::from_str::<HashMap<String, String>>\<close>, whose errors are ignored.\<close>

definition string_map :: "(string \<Rightarrow> string + json) \<Rightarrow> string \<Rightarrow> metadata option" where
  "string_map parse txt =
     (case parse txt of
        Inr (JObject m) \<Rightarrow> those (map (\<lambda>(k, v). map_option (Pair k) (as_str v)) m)
      | _ \<Rightarrow> None)"

definition call_metadata :: "('ch, 'v, 'p) tonic \<Rightarrow> (string \<Rightarrow> string + json) \<Rightarrow> metadata \<Rightarrow> string \<Rightarrow> string + (string, 'v) hm" where
  "call_metadata T parse defaults metadata_json =
     (case insert_metadata T defaults [] of
        Inl e \<Rightarrow> Inl e
      | Inr meta \<Rightarrow>
          if metadata_json \<noteq> [] \<and> metadata_json \<noteq> ''{}''
          then (case string_map parse metadata_json of None \<Rightarrow> Inr meta | Some kvs \<Rightarrow> insert_metadata T kvs meta)
          else Inr meta)"

definition method_path :: "string \<Rightarrow> string" where
  "method_path rpc = (if take 1 rpc = ''/'' then rpc else ''/'' @ rpc)"

text \<open>The request that goes out, or the error before it.\<close>

definition grpc_request :: "('ch, 'v, 'p) tonic \<Rightarrow> (string \<Rightarrow> string + json) \<Rightarrow> string \<Rightarrow> string \<Rightarrow> string \<Rightarrow> string \<Rightarrow> 'ch grpc_connections \<Rightarrow>
    string + ('ch \<times> (string, 'v) hm \<times> 'p \<times> prost)" where
  "grpc_request T parse conn_id rpc request_json metadata_json conns =
     (case map_of conns conn_id of
        None \<Rightarrow> Inl (''gRPC connection not found: '' @ conn_id)
      | Some conn \<Rightarrow>
          (case call_metadata T parse (gc_metadata conn) metadata_json of
             Inl e \<Rightarrow> Inl e
           | Inr meta \<Rightarrow>
               (case to_ready T (gc_channel conn) of
                  Some e \<Rightarrow> Inl e
                | None \<Rightarrow>
                    (case to_path T (method_path rpc) of
                       Inl e \<Rightarrow> Inl e
                     | Inr path \<Rightarrow>
                         (case parse request_json of
                            Inl e \<Rightarrow> Inl e
                          | Inr v \<Rightarrow> Inr (gc_channel conn, meta, path, serde_to_prost v))))))"

definition grpc_answer :: "(int \<times> string) + prost \<Rightarrow> grpc_response" where
  "grpc_answer a =
     (case a of
        Inr body \<Rightarrow> \<lparr>gr_status = 0, gr_message = Some (prost_value_to_json body), gr_error = None\<rparr>
      | Inl (code, txt) \<Rightarrow> \<lparr>gr_status = code, gr_message = None, gr_error = Some txt\<rparr>)"

text \<open>A call; the outer option is a panic of the registry.\<close>

definition grpc_invoke :: "('ch, 'v, 'p) tonic \<Rightarrow> (string \<Rightarrow> string + json) \<Rightarrow> ('c, 'h) deps \<Rightarrow> f64 \<Rightarrow> string \<Rightarrow> string \<Rightarrow> string \<Rightarrow> string \<Rightarrow>
    'ch grpc_connections \<Rightarrow> ('c, 'h) registry option \<Rightarrow> ((string + grpc_response) \<times> ('c, 'h) registry option) option" where
  "grpc_invoke T parse D duration_ms conn_id rpc request_json metadata_json conns metrics =
     (case grpc_request T parse conn_id rpc request_json metadata_json conns of
        Inl e \<Rightarrow> Some (Inl e, metrics)
      | Inr (channel, meta, path, value) \<Rightarrow>
          let answer = to_unary T channel meta path value
          in case metrics of
               None \<Rightarrow> Some (Inr (grpc_answer answer), None)
             | Some r \<Rightarrow>
                 map_option (\<lambda>r. (Inr (grpc_answer answer), Some r)) (record_grpc_request D duration_ms [(''method'', rpc)] r))"

section \<open>Lemmas\<close>

text \<open>What \<open>JSON.parse\<close> makes of a document: every number is a double.\<close>

primrec json_to_script :: "json \<Rightarrow> jsv" where
  "json_to_script JNull = JsNull"
| "json_to_script (JBool b) = JsBool b"
| "json_to_script (JNumber n) = JsNumber (case n of PosInt k \<Rightarrow> f_of_u64 k | NegInt k \<Rightarrow> f_of_int k | Float x \<Rightarrow> x)"
| "json_to_script (JString s) = JsString s"
| "json_to_script (JArray vs) = JsArray (map json_to_script vs)"
| "json_to_script (JObject m) = JsObject (map (map_prod id json_to_script) m)"

text \<open>The numbers of a document that \<open>serde_json\<close> can hold: finite, and negative integers of 64 bits.\<close>

primrec json_numbers_ok :: "json \<Rightarrow> bool" where
  "json_numbers_ok JNull = True"
| "json_numbers_ok (JBool b) = True"
| "json_numbers_ok (JNumber n) = (case n of PosInt k \<Rightarrow> True | NegInt k \<Rightarrow> - (2 ^ 63) \<le> k \<and> k < 0 | Float x \<Rightarrow> is_fin x)"
| "json_numbers_ok (JString s) = True"
| "json_numbers_ok (JArray vs) = list_all id (map json_numbers_ok vs)"
| "json_numbers_ok (JObject m) = list_all snd (map (map_prod id json_numbers_ok) m)"

text \<open>No integer of an answer reaches the cut to 32 bits, since every number of a value of \<open>prost\<close> is a double.\<close>

primrec prost_to_script :: "prost \<Rightarrow> jsv" where
  "prost_to_script ProstNone = JsNull"
| "prost_to_script (ProstNull _) = JsNull"
| "prost_to_script (ProstBool b) = JsBool b"
| "prost_to_script (ProstNumber x) = (if is_fin x then JsNumber x else JsNull)"
| "prost_to_script (ProstString s) = JsString s"
| "prost_to_script (ProstList vs) = JsArray (map prost_to_script vs)"
| "prost_to_script (ProstStruct m) = JsObject (map (map_prod id prost_to_script) m)"

lemma prost_answer_to_script: "serde_json_to_js (prost_value_to_json p) = prost_to_script p"
  by (induction p) auto

lemma is_fin_of_int: "\<bar>n\<bar> \<le> 2 ^ 64 \<Longrightarrow> is_fin (f_of_int n)"
proof -
  assume a: "\<bar>n\<bar> \<le> 2 ^ 64"
  then have "\<bar>of_int n\<bar> \<le> (of_int (2 ^ 64) :: rat)" by (simp only: of_int_abs [symmetric] of_int_le_iff)
  also have "\<dots> \<le> 2 ^ 1023" by simp
  finally show "is_fin (f_of_int n)" using fin_fround[OF in_range_small] by (simp add: f_of_int_def)
qed

lemma is_fin_of_u64: "is_fin (f_of_u64 k)"
  using is_fin_of_int[of "uint k"] uint_bounded[of k] by (simp add: f_of_u64_def)

text \<open>Sent to the service and back as a value of \<open>prost\<close>.\<close>

lemma prost_of_json:
  assumes "json_numbers_ok v" shows "prost_to_script (serde_to_prost v) = json_to_script v"
  using assms
proof (induction v)
  case (JNumber n)
  then show ?case by (cases n) (auto simp: is_fin_of_u64 is_fin_of_int)
next
  case (JArray vs)
  then show ?case by (auto simp: list_all_iff)
next
  case (JObject m)
  then show ?case by (fastforce simp: list_all_iff)
qed simp_all

text \<open>Metadata whose keys and values are all accepted: that of the call goes over that of the connection.\<close>

lemma insert_metadata_get:
  assumes "distinct (map fst kvs)" "\<And>k v. (k, v) \<in> set kvs \<Longrightarrow> to_key T k = Inr k \<and> to_value T v \<noteq> None"
  shows "\<exists>meta'. insert_metadata T kvs meta = Inr meta' \<and>
    (\<forall>k. map_of meta' k = (case map_of kvs k of Some v \<Rightarrow> to_value T v | None \<Rightarrow> map_of meta k))"
  using assms
proof (induction kvs arbitrary: meta)
  case (Cons kv kvs)
  obtain k v where kv: "kv = (k, v)" by fastforce
  obtain val where val: "to_value T v = Some val" "to_key T k = Inr k" using Cons.prems(2)[of k v] by (auto simp: kv)
  have "map_of kvs k = None" using Cons.prems(1) by (simp add: kv map_of_eq_None_iff)
  moreover obtain meta' where "insert_metadata T kvs (hm_put k val meta) = Inr meta'"
    "\<forall>j. map_of meta' j = (case map_of kvs j of Some v \<Rightarrow> to_value T v | None \<Rightarrow> map_of (hm_put k val meta) j)"
    using Cons.IH[of "hm_put k val meta"] Cons.prems by auto
  ultimately show ?case using val by (auto simp: kv hm_get_put split: option.splits)
qed simp

lemma call_metadata_overrides:
  assumes "distinct (map fst defaults)" "distinct (map fst kvs)" "string_map parse metadata_json = Some kvs"
    and "\<And>k v. (k, v) \<in> set defaults \<union> set kvs \<Longrightarrow> to_key T k = Inr k \<and> to_value T v \<noteq> None" "metadata_json \<noteq> []" "metadata_json \<noteq> ''{}''"
  shows "\<exists>meta. call_metadata T parse defaults metadata_json = Inr meta \<and>
    (\<forall>k. map_of meta k = (case map_of kvs k of Some v \<Rightarrow> to_value T v | None \<Rightarrow> Option.bind (map_of defaults k) (to_value T)))"
proof -
  obtain m1 where m1: "insert_metadata T defaults [] = Inr m1"
    "\<forall>k. map_of m1 k = (case map_of defaults k of Some v \<Rightarrow> to_value T v | None \<Rightarrow> map_of [] k)"
    using insert_metadata_get[OF assms(1), of T "[]"] assms(4) by blast
  obtain m2 where m2: "insert_metadata T kvs m1 = Inr m2"
    "\<forall>k. map_of m2 k = (case map_of kvs k of Some v \<Rightarrow> to_value T v | None \<Rightarrow> map_of m1 k)"
    using insert_metadata_get[OF assms(2), of T m1] assms(4) by blast
  have "(case map_of defaults k of Some v \<Rightarrow> to_value T v | None \<Rightarrow> map_of [] k) = Option.bind (map_of defaults k) (to_value T)" for k
    by (simp split: option.splits)
  then show ?thesis using m1 m2 assms(3,5,6) by (simp add: call_metadata_def split: option.split)
qed

text \<open>A call that fails before it is sent records nothing; the connection is looked up first, so nothing is sent on a
  connection that was closed.\<close>

lemma grpc_unsent:
  assumes "grpc_request T parse conn_id rpc request_json metadata_json conns = Inl e"
  shows "grpc_invoke T parse D d conn_id rpc request_json metadata_json conns m = Some (Inl e, m)"
  using assms by (simp add: grpc_invoke_def)

lemma grpc_after_close:
  "grpc_invoke T parse D d conn_id rpc request_json metadata_json (grpc_close conn_id conns) m =
     Some (Inl (''gRPC connection not found: '' @ conn_id), m)"
  by (rule grpc_unsent) (simp add: grpc_request_def grpc_close_def delete_conv')

section \<open>Properties\<close>

text \<open>C36.  An echo service.  A call over an open connection, to a service that answers with the value it was sent,
  gives the script the status 0 and as its message exactly what \<open>JSON.parse\<close> makes of the request: the numbers are
  doubles, and none is cut to 32 bits on the way; and the call is recorded once, under its method.\<close>

theorem grpc_echo:
  assumes "map_of conns conn_id = Some conn" "call_metadata T parse (gc_metadata conn) metadata_json = Inr meta"
    and "to_ready T (gc_channel conn) = None" "to_path T (method_path rpc) = Inr path"
    and "parse request_json = Inr v" "json_numbers_ok v" "\<And>p. to_unary T (gc_channel conn) meta path p = Inr p"
    and "record_grpc_request D d [(''method'', rpc)] r = Some r'"
  shows "\<exists>resp. grpc_invoke T parse D d conn_id rpc request_json metadata_json conns (Some r) = Some (Inr resp, Some r') \<and>
    js_field (grpc_response_into_js resp) ''status'' = JsNumber (f_of_int 0) \<and>
    js_field (grpc_response_into_js resp) ''message'' = json_to_script v"
  using assms
  by (simp add: grpc_invoke_def grpc_request_def grpc_answer_def grpc_response_into_js_def js_field_def
      prost_answer_to_script prost_of_json)

definition echo_service :: "(unit, string, string) tonic" where
  "echo_service = \<lparr>to_connect = (\<lambda>_. Inr ()), to_key = (\<lambda>k. Inr k), to_value = (\<lambda>v. Some v), to_ready = (\<lambda>_. None),
     to_path = (\<lambda>p. Inr p), to_unary = (\<lambda>_ _ _ p. Inr p)\<rparr>"

definition echo_request :: json where
  "echo_request = JObject [(''n'', JNumber (PosInt 4294967297)), (''ok'', JArray [JBool True, JNull])]"

definition echo_connections :: "unit grpc_connections" where
  "echo_connections = snd (grpc_connect echo_service (\<lambda>_. Inl []) 7 ''localhost:50051'' ''{}'' [])"

theorem grpc_echo_witness:
  "\<exists>resp m. grpc_invoke echo_service (\<lambda>_. Inr echo_request) example_deps (f_of_int 3) ''grpc_7'' ''S/M'' ''...'' ''{}'' echo_connections
      (Some (registry_new example_deps int)) = Some (Inr resp, Some m) \<and>
    js_field (grpc_response_into_js resp) ''message'' =
      JsObject [(''n'', JsNumber (f_of_int 4294967297)), (''ok'', JsArray [JsBool True, JsNull])]"
proof -
  obtain r where r: "record_grpc_request example_deps (f_of_int 3) [(''method'', ''S/M'')] (registry_new example_deps int) = Some r"
  proof -
    have "record_grpc_request example_deps (f_of_int 3) [(''method'', ''S/M'')] (registry_new example_deps int) \<noteq> None" by code_simp
    then show ?thesis using that by blast
  qed
  have c: "map_of echo_connections ''grpc_7'' = Some \<lparr>gc_endpoint = ''http://localhost:50051'', gc_channel = (), gc_metadata = []\<rparr>" by code_simp
  show ?thesis
    using grpc_echo[OF c, where T = echo_service and parse = "\<lambda>_. Inr echo_request" and v = echo_request
        and metadata_json = "''{}''" and meta = "[]" and rpc = "''S/M''" and path = "''/S/M''" and D = example_deps and d = "f_of_int 3"
        and r = "registry_new example_deps int" and r' = r] r
    by (fastforce simp: echo_service_def echo_request_def call_metadata_def method_path_def f_of_u64_def)
qed

end
