(* ===== verification/Spec2Isabelle.thy ===== *)
theory Spec2Isabelle
  imports Sharing Pool Stopping Control Reqwest Conform Cli Analysis Script ScriptApi Ws Grpc
begin

text \<open>
  Verification of k6-rs, a load generator that runs the test scripts of k6.

  The program.  A test configuration gives scenarios, each with an executor that runs iterations of the
  script on virtual users; the virtual users live on loop threads and multiplex their HTTP requests; every
  sample goes to one registry of metrics, from which snapshots feed thresholds, the end-of-test summary,
  the REST interface and, sample by sample, an event stream.  Paths below are under \<open>src/crates\<close>.

  Theories and sources.
  \<^item> \<open>F64\<close>: IEEE doubles with correct rounding, as the language computes them; \<open>K6_Prelude\<close>: strings as
    UTF-8 bytes, trimming, splitting, parsing of numbers, ordered and hashed maps (locale \<open>kv_map\<close>,
    interpreted for both), durations, printing of integers.
  \<^item> \<open>Selector\<close>: \<open>k6-core/src/selector.rs\<close>, the parser and the canonical text of metric selectors.
  \<^item> \<open>MetricKeys\<close>, \<open>Trend\<close>, \<open>GroupTree\<close>, \<open>Metrics\<close>: \<open>k6-core/src/metrics.rs\<close>: keys, trend metrics, the tree of
    groups and checks, the registry with its built-in metrics and its snapshot; the locale \<open>mergeable\<close>
    is the merging of derived views.
  \<^item> \<open>EventStream\<close>: \<open>k6-core/src/output/event_stream.rs\<close>, the bounded channel, the producers and the writer
    as one step relation.
  \<^item> \<open>Thresholds\<close>: \<open>k6-core/src/thresholds.rs\<close>; \<open>Json\<close>, \<open>Config\<close>: \<open>k6-core/src/config.rs\<close>.
  \<^item> \<open>Schedule\<close>: \<open>k6-core/src/executor/arrival.rs\<close> and \<open>vu_ramp.rs\<close>; the locale \<open>segment_builder\<close> is the
    construction of their segments.
  \<^item> \<open>Sharing\<close>: \<open>k6-core/src/shared\<close> and \<open>backpressure.rs\<close>.
  \<^item> \<open>VuSched\<close>: \<open>k6-js/src/vu_sched.rs\<close> and the iteration loop of \<open>coroutine_vu.rs\<close>; \<open>Pool\<close>: the executors
    of \<open>k6-js/src/pool.rs\<close>; \<open>Ramp\<close>: its ramping executor and watchdogs as step relations;
    \<open>Stopping\<close>: a virtual user with the control of its executor, the watchdog and a REST stop.
  \<^item> \<open>Summary\<close>: \<open>k6-core/src/summary.rs\<close>; \<open>Control\<close>: \<open>k6-core/src/control.rs\<close>.
  \<^item> \<open>Hyper\<close>: \<open>k6-js/src/hyper_client.rs\<close>, routes and filters, the connection pool, the counted exchange and the
    redirect loop, with the pool under concurrent requests as a step relation; \<open>Reqwest\<close>:
    \<open>k6-js/src/http_client.rs\<close>.
  \<^item> \<open>Adapters\<close>: \<open>k6-conformance/src/canonical.rs\<close> and \<open>adapters\<close>; \<open>Conform\<close>: \<open>expectations.rs\<close>, \<open>diff\<close>, \<open>report.rs\<close>
    and \<open>runner.rs\<close> of the same crate.
  \<^item> \<open>Console\<close>: \<open>k6-core/src/console.rs\<close> and \<open>k6-js/src/api/console.rs\<close>, the bounded queue, its writer thread and
    the shutdown as one step relation.
  \<^item> \<open>Cli\<close>: \<open>k6-cli/src/main.rs\<close> and \<open>env.rs\<close>, environment, options, overrides, scenarios and the course of a run.
  \<^item> \<open>Rust_Str\<close>: more string methods; \<open>Analysis\<close>: \<open>k6-cli/src/analysis\<close>, the lint of a script and the memory monitor.
  \<^item> \<open>Script\<close>: \<open>k6-js/src/vu.rs\<close>, the preparation of a script as a partial function over a file system, the lifecycle
    hooks over an engine given by functions, and \<open>randomSeed\<close>.
  \<^item> \<open>HttpApi\<close>: \<open>k6-js/src/api/http.rs\<close>, requests, responses and their samples, and the part of the module written in
    JavaScript, with the cookie jar and the preparation of requests; \<open>ScriptApi\<close>: \<open>check.rs\<close>, \<open>metrics.rs\<close>, \<open>sleep.rs\<close>,
    \<open>timers.rs\<close> and the selections of \<open>html.rs\<close>; \<open>Ws\<close>: \<open>ws.rs\<close>, the sessions of WebSockets and their tasks as a step
    relation; \<open>Grpc\<close>: \<open>grpc.rs\<close>, connections, metadata, calls and their values.
  \<^item> \<open>Outputs\<close>: \<open>k6-core/src/output\<close> but for the stream, the \<open>--out\<close> plugins; the locale \<open>row_format\<close> is a file of
    CSV records, interpreted for both formats.

  Conventions.  A \<open>HashMap\<close> is an association list with distinct keys in its iteration order, a
  \<open>BTreeMap\<close> one in the order of its keys; a panic is \<open>None\<close>, a \<open>Result\<close> a sum with the error on the left;
  \<open>u32\<close> and \<open>u64\<close> are words that wrap.  Crates outside the repository are records of functions with their
  documented laws as named predicates where a theorem needs them (histogram, channel, queue,
  semaphore, notification, JSON text), and each such theorem has a witness with a concrete function.
  Threads and tasks interleave at the granularity of the atomic or locked section in the source.

  What the lemmas show.
  \<^item> Metrics: the registry implements the log of its samples; keys and selectors round-trip; snapshot rows
    agree with the live queries; merged trends equal trends of all samples, the average apart.
  \<^item> Event stream: a definition line before each sample line, no sample lost or repeated once the channel
    accepted it, and the drop counters exact.
  \<^item> Thresholds and configuration: when the evaluator aborts, what the report says, what durations and
    options parse to.
  \<^item> Executors: the arrival curve is monotone and fired exactly, the VU ramp bounded, every virtual user
    placed once, no broadcast of a ramp missed, the hard stop armed only after the grace period, iterations and arrivals conserved in every interleaving, the shared budget exact, permits
    bounded.
  \<^item> Scheduler: every request is resolved exactly once; under which executors no iteration starts after a hard stop,
    which would make the loop panic; and the course by which a wake-up is lost.
  \<^item> Summary and control: the summary shows the values thresholds are judged on, every metric and check; the
    start of the run loses no wake-up, the lifecycle lock protects the setup data, and what the requests
    of the REST interface answer.
  \<^item> HTTP clients: a connection serves one request at a time, whatever redirects and resolutions occur nothing is
    sent past the filters, the byte counts and the estimate of a request.
  \<^item> Conformance: the harness reads back what the registry and the event stream hold, across the summary and the
    file of the writer; the comparison is symmetric; when a script passes.
  \<^item> Outputs: the CSV files read back record by record, samples carry the metric and tags of the registry's names,
    and the outputs that only buffer deliver nothing.
  \<^item> Console: records are accounted for in every interleaving, the shutdown loses no wake-up, and what it may lose.
  \<^item> Command line: which value a variable and an option has, what the flags change, that a ramp has the virtual users
    it asks for, and the phases of a run in their order, its failures and its status.
  \<^item> Analysis and scripts: what the lint reports, that the monitor's slope is the correctly rounded one, which imports
    end, that setup data survive their quoting, and what seeded random numbers are.
  \<^item> Script interface: the samples an answered or failed request leaves, what the cookie jar holds after a response
    and what it adds to a request, forms that decode to what was encoded, what checks answer and record, intervals
    that never return, the order of the frames of a WebSocket and what a close loses, and that an echoed gRPC
    message comes back whole.

  Bounds and fuel.  No definition takes fuel: loops over data are structural or have a measure.  The
  catch-up loop of an arrival tick is proved to end for a target below \<open>2 ^ 53\<close>, where adding one to a double
  is exact, and may not end above.  The laws of the schedules hold for stage times and rates within
  the bounds their hypotheses name (\<open>secs_limit\<close>, finite rates); arrivals and requests are fewer than \<open>2 ^ 64\<close>.

  Not modelled.  The listener and the graceful shutdown of the REST server, the bindings to the QuickJS engine (its
  semantics are not in the repository; the scheduler model lets a script call the host functions in any order), the
  argument parser, the evaluation of a script for its options, the hashes, ciphers and encodings offered to
  scripts, the file bindings, and the WebSocket shim, which is JavaScript.
\<close>
end
